(* ===== verification/Arena_Prelude.thy ===== *)
theory Arena_Prelude
  imports Main "HOL-Library.Word"
begin

text \<open>
  What every theory of the development shares: the names of the C integer types, the C
  conversions and the C division on them, the collections that the component proofs feed to
  the simplifier, and the lemmas on lists updated by index that the whole state model uses.
\<close>

unbundle bit_operations_syntax

section \<open>Collections\<close>

named_theorems tune_values "the numeric value of each tuning constant"
named_theorems sim_defs "the definitions of the per-component step functions"
named_theorems frame "which fields an operation leaves alone"

section \<open>C integer types\<close>

text \<open>
  Unsigned C types are words of their width, so that their arithmetic wraps by type.  A signed
  32-bit quantity is an \<open>int\<close>; every C operation that stores one goes through \<open>i32\<close>,
  two's complement truncation to 32 bits, so wrap-around is written out where it could occur.
\<close>

type_synonym u8 = "8 word"
type_synonym u16 = "16 word"
type_synonym u32 = "32 word"
type_synonym u64 = "64 word"

lemma u8_less: "unat (v :: u8) < 256"
  using unsigned_less [of v] by simp

lemma u16_less: "unat (v :: u16) < 65536"
  using unsigned_less [of v] by simp

lemma u32_less: "unat (v :: u32) < 4294967296"
  using unsigned_less [of v] by simp

lemma u64_less: "unat (v :: u64) < 2 ^ 64"
  using unsigned_less [of v] by simp

definition i32 :: "int \<Rightarrow> int" where
  "i32 x = (x + 2147483648) mod 4294967296 - 2147483648"

definition is_i32 :: "int \<Rightarrow> bool" where
  "is_i32 x \<longleftrightarrow> - 2147483648 \<le> x \<and> x < 2147483648"

lemma i32_id: "- 2147483648 \<le> x \<Longrightarrow> x < 2147483648 \<Longrightarrow> i32 x = x"
  by (simp add: i32_def)

lemma i32_is_i32 [simp]: "is_i32 (i32 x)"
proof -
  have "0 \<le> (x + 2147483648) mod 4294967296" "(x + 2147483648) mod 4294967296 < 4294967296"
    by (rule pos_mod_sign pos_mod_bound; simp)+
  then show ?thesis
    unfolding is_i32_def i32_def by linarith
qed

lemma i32_small: "is_i32 x \<Longrightarrow> i32 x = x"
  by (simp add: is_i32_def i32_id)

lemma i32_range: "- 2147483648 \<le> i32 x" "i32 x < 2147483648"
  using i32_is_i32 [of x] by (simp_all only: is_i32_def)

lemma i32_abs: "\<bar>x\<bar> \<le> b \<Longrightarrow> b < 2147483648 \<Longrightarrow> i32 x = x"
  by (rule i32_id) linarith+

text \<open>C's \<open>/\<close> on signed operands truncates towards zero.\<close>

definition tdiv :: "int \<Rightarrow> int \<Rightarrow> int" where
  "tdiv a b = sgn a * sgn b * (\<bar>a\<bar> div \<bar>b\<bar>)"

lemma tdiv_nonneg: "0 \<le> a \<Longrightarrow> 0 < b \<Longrightarrow> tdiv a b = a div b"
  by (cases "a = 0") (simp_all add: tdiv_def)

lemma abs_tdiv: "0 < b \<Longrightarrow> \<bar>tdiv a b\<bar> = \<bar>a\<bar> div b"
  by (cases "a = 0") (simp_all add: tdiv_def abs_mult pos_imp_zdiv_nonneg_iff)

section \<open>xorshift32\<close>

text \<open>
  The one generator of the program, written out in \<open>arena_rand\<close>, \<open>xs32\<close>, \<open>next_rng\<close> and
  \<open>na_rand\<close>.  Each shift-and-xor is injective, so a nonzero state never becomes zero.
\<close>

definition xorshift32 :: "u32 \<Rightarrow> u32" where
  "xorshift32 x =
     (let x = x XOR push_bit 13 x; x = x XOR drop_bit 17 x in x XOR push_bit 5 x)"

lemma xor_zero_iff: "x XOR y = (0 :: u32) \<longleftrightarrow> x = y"
proof
  assume "x XOR y = 0"
  then have "x XOR (x XOR y) = x" by simp
  then show "x = y" by (simp flip: xor.assoc)
qed simp

lemma fixpoint_of_odd_scale:
  assumes "x = k * (x :: u32)" and "u * (k - 1) = 1"
  shows "x = 0"
proof -
  have "x = u * ((k - 1) * x)" using assms(2) by (simp flip: mult.assoc)
  also have "(k - 1) * x = 0" using assms(1) by (simp add: algebra_simps)
  finally show ?thesis by simp
qed

lemma odd_inverses: "(4227850239 :: u32) * (8192 - 1) = 1" "(3186588639 :: u32) * (32 - 1) = 1"
  by code_simp+

lemma xor_shift_nonzero:
  assumes "x \<noteq> (0 :: u32)"
  shows "x XOR push_bit 13 x \<noteq> 0" and "x XOR push_bit 5 x \<noteq> 0" and "x XOR drop_bit 17 x \<noteq> 0"
proof -
  show "x XOR push_bit 13 x \<noteq> 0"
    using assms fixpoint_of_odd_scale [OF _ odd_inverses(1), of x] by (auto simp: xor_zero_iff push_bit_eq_mult ac_simps)
  show "x XOR push_bit 5 x \<noteq> 0"
    using assms fixpoint_of_odd_scale [OF _ odd_inverses(2), of x] by (auto simp: xor_zero_iff push_bit_eq_mult ac_simps)
  have "unat (drop_bit 17 x) < unat x"
    using assms unat_gt_0 [of x] by (simp add: unat_drop_bit_eq drop_bit_eq_div unat_div)
  then show "x XOR drop_bit 17 x \<noteq> 0" by (auto simp: xor_zero_iff)
qed

lemma xorshift32_nonzero: "x \<noteq> 0 \<Longrightarrow> xorshift32 x \<noteq> 0"
  unfolding xorshift32_def Let_def by (intro xor_shift_nonzero)

section \<open>Lists updated by index\<close>

lemma nth_list_update_if:
  "i < length xs \<Longrightarrow> xs[j := v] ! i = (if i = j then v else xs ! i)"
  by (simp add: nth_list_update)

lemma field_update: "f v = f (xs ! i) \<Longrightarrow> f (xs[i := v] ! j) = f (xs ! j)"
  by (cases "i < length xs"; cases "i = j") (simp_all add: list_update_beyond)

lemma list_all_update:
  "list_all P xs \<Longrightarrow> P v \<Longrightarrow> list_all P (xs[i := v])"
  using set_update_subset_insert [of xs i v] by (auto simp: list_all_iff)

lemma list_all_nthD: "list_all P xs \<Longrightarrow> i < length xs \<Longrightarrow> P (xs ! i)"
  by (simp add: list_all_length)

text \<open>A C array \<open>T m[4][4]\<close> as a list of rows.\<close>

definition square :: "'a list list \<Rightarrow> bool" where
  "square m \<longleftrightarrow> length m = 4 \<and> list_all (\<lambda>r. length r = 4) m"

text \<open>
  The \<open>for (i = 0; i < n; i++) if (p(xs[i])) return i; return -1;\<close> scan that the code writes
  out at each of its fixed-size pools.
\<close>

fun find_index_from :: "nat \<Rightarrow> ('a \<Rightarrow> bool) \<Rightarrow> 'a list \<Rightarrow> nat option" where
  "find_index_from k p [] = None"
| "find_index_from k p (x # xs) = (if p x then Some k else find_index_from (Suc k) p xs)"

abbreviation find_index :: "('a \<Rightarrow> bool) \<Rightarrow> 'a list \<Rightarrow> nat option" where
  "find_index \<equiv> find_index_from 0"

lemma find_index_from_SomeD:
  "find_index_from k p xs = Some i \<Longrightarrow>
     k \<le> i \<and> i - k < length xs \<and> p (xs ! (i - k)) \<and> (\<forall>j < i - k. \<not> p (xs ! j))"
proof (induction xs arbitrary: k)
  case Nil
  then show ?case by simp
next
  case (Cons x xs)
  show ?case
  proof (cases "p x")
    case True
    with Cons.prems show ?thesis by simp
  next
    case False
    with Cons.prems have *: "Suc k \<le> i \<and> i - Suc k < length xs \<and> p (xs ! (i - Suc k))
        \<and> (\<forall>j < i - Suc k. \<not> p (xs ! j))"
      by (intro Cons.IH) simp
    then have eq: "i - k = Suc (i - Suc k)" by linarith
    show ?thesis
      using * False by (auto simp: eq nth_Cons split: nat.split)
  qed
qed

lemma find_index_SomeD:
  "find_index p xs = Some i \<Longrightarrow> i < length xs \<and> p (xs ! i) \<and> (\<forall>j < i. \<not> p (xs ! j))"
  using find_index_from_SomeD [of 0 p xs i] by simp

lemma find_index_from_None: "find_index_from k p xs = None \<longleftrightarrow> (\<forall>x \<in> set xs. \<not> p x)"
  by (induction xs arbitrary: k) auto

text \<open>
  The interface of a first-fit pool: what a client of one of those scans relies on.  Each
  component that owns a pool interprets it on its own search function.
\<close>

locale first_fit =
  fixes free :: "'a \<Rightarrow> bool"
    and search :: "'a list \<Rightarrow> nat option"
  assumes search_hit: "search xs = Some i \<Longrightarrow> i < length xs \<and> free (xs ! i)"
    and search_first: "search xs = Some i \<Longrightarrow> j < i \<Longrightarrow> \<not> free (xs ! j)"
    and search_miss: "search xs = None \<Longrightarrow> x \<in> set xs \<Longrightarrow> \<not> free x"
begin

lemma search_bound: "search xs = Some i \<Longrightarrow> i < length xs"
  by (simp add: search_hit)

lemma search_free: "search xs = Some i \<Longrightarrow> free (xs ! i)"
  by (simp add: search_hit)

lemma search_complete: "x \<in> set xs \<Longrightarrow> free x \<Longrightarrow> \<exists>i. search xs = Some i"
  using search_miss by (cases "search xs") auto

lemma search_none_iff: "search xs = None \<longleftrightarrow> (\<forall>x \<in> set xs. \<not> free x)"
  using search_miss search_free search_bound
  by (cases "search xs") (auto, metis nth_mem)

end

lemma find_index_first_fit: "first_fit p (find_index p)"
  by unfold_locales (auto dest: find_index_SomeD simp: find_index_from_None)

section \<open>Counters\<close>

lemma count_update:
  "i < length xs \<Longrightarrow>
     length (filter P (xs[i := v])) + of_bool (P (xs ! i)) = length (filter P xs) + of_bool (P v)"
proof (induction xs arbitrary: i)
  case Nil
  then show ?case by simp
next
  case (Cons x xs)
  then show ?case by (cases i) auto
qed

lemma u8_suc: "unat (x :: u8) < 255 \<Longrightarrow> unat (x + 1) = unat x + 1"
  by (simp add: unat_word_ariths)

lemma u8_pred: "x \<noteq> 0 \<Longrightarrow> unat ((x :: u8) - 1) = unat x - 1"
  by (rule unat_minus_one)

lemma unat_small [simp]: "n < 256 \<Longrightarrow> unat (of_nat n :: u8) = n"
  by (simp add: unsigned_of_nat take_bit_nat_eq_self_iff)

lemma fold_keeps: "(\<And>x s. f (g x s) = f s) \<Longrightarrow> f (fold g xs s) = f s"
  by (induction xs arbitrary: s) simp_all

section \<open>Machines with an invariant\<close>

text \<open>
  A component driven from outside, one event at a time: its initial states, its step function
  and an invariant that both keep.  The simulation, the rendezvous server and its rate limiter
  are interpreted on it; what holds after every run follows once for all of them.
\<close>

locale invariant_machine =
  fixes initial :: "'s \<Rightarrow> bool"
    and step :: "'e \<Rightarrow> 's \<Rightarrow> 's"
    and valid :: "'e \<Rightarrow> bool"
    and inv :: "'s \<Rightarrow> bool"
  assumes inv_initial: "initial s \<Longrightarrow> inv s"
    and inv_step: "inv s \<Longrightarrow> valid e \<Longrightarrow> inv (step e s)"
begin

lemma inv_run: "inv s \<Longrightarrow> list_all valid es \<Longrightarrow> inv (fold step es s)"
  by (induction es arbitrary: s) (simp_all add: inv_step)

lemma inv_reached: "initial s \<Longrightarrow> list_all valid es \<Longrightarrow> inv (fold step es s)"
  by (rule inv_run) (rule inv_initial)

end

lemma fold_invariant_list:
  assumes "P s" and "\<And>x s. x \<in> set xs \<Longrightarrow> P s \<Longrightarrow> P (f x s)"
  shows "P (fold f xs s)"
  using assms by (induction xs arbitrary: s) simp_all

section \<open>Fixed-width byte codecs\<close>

text \<open>
  What a struct layout or a wire format relies on for each of its fields: a constant width, and
  that the bytes determine the value.  Concatenations then determine their parts.
\<close>

locale byte_codec =
  fixes enc :: "'a \<Rightarrow> u8 list"
    and ok :: "'a \<Rightarrow> bool"
    and width :: nat
  assumes enc_length: "length (enc x) = width"
    and enc_inj: "ok x \<Longrightarrow> ok y \<Longrightarrow> enc x = enc y \<Longrightarrow> x = y"
begin

lemma enc_append_iff: "ok x \<Longrightarrow> ok y \<Longrightarrow> enc x @ r = enc y @ q \<longleftrightarrow> x = y \<and> r = q"
  by (auto simp: enc_length dest: enc_inj)

lemma enc_eq_iff: "ok x \<Longrightarrow> ok y \<Longrightarrow> enc x = enc y \<longleftrightarrow> x = y"
  by (auto dest: enc_inj)

lemma concat_length: "length (concat (map enc xs)) = width * length xs"
  by (induction xs) (simp_all add: enc_length)

lemma concat_append_iff:
  "list_all ok xs \<Longrightarrow> list_all ok ys \<Longrightarrow> length xs = length ys \<Longrightarrow>
     concat (map enc xs) @ r = concat (map enc ys) @ q \<longleftrightarrow> xs = ys \<and> r = q"
proof (induction xs arbitrary: ys)
  case Nil
  then show ?case by simp
next
  case (Cons x xs)
  then obtain y zs where "ys = y # zs" by (cases ys) auto
  with Cons show ?case by (simp add: enc_append_iff)
qed

end

definition le16 :: "u16 \<Rightarrow> u8 list" where
  "le16 v = [ucast v, ucast (drop_bit 8 v)]"

definition le32 :: "u32 \<Rightarrow> u8 list" where
  "le32 v = [ucast v, ucast (drop_bit 8 v), ucast (drop_bit 16 v), ucast (drop_bit 24 v)]"

lemma byte_bit:
  fixes a b :: "'a :: len word"
  assumes "(ucast (drop_bit k a) :: u8) = ucast (drop_bit k b)" and "k \<le> n" and "n < k + 8"
  shows "bit a n = bit b n"
proof -
  have "bit (ucast (drop_bit k a) :: u8) (n - k) = bit (ucast (drop_bit k b) :: u8) (n - k)"
    by (simp only: assms(1))
  then show ?thesis using assms(2,3) by (simp add: bit_ucast_iff bit_drop_bit_eq less_diff_conv2)
qed

lemma le16_inj: assumes "le16 a = le16 b" shows "a = b"
proof (rule bit_word_eqI)
  fix n assume "n < LENGTH(16)"
  then consider "n < 8" | "8 \<le> n" "n < 16" by fastforce
  then show "bit a n = bit b n"
    using assms byte_bit [of 0 a b n] byte_bit [of 8 a b n] by cases (simp_all add: le16_def)
qed

lemma le32_inj: assumes "le32 a = le32 b" shows "a = b"
proof (rule bit_word_eqI)
  fix n assume "n < LENGTH(32)"
  then consider "n < 8" | "8 \<le> n" "n < 16" | "16 \<le> n" "n < 24" | "24 \<le> n" "n < 32" by fastforce
  then show "bit a n = bit b n"
    using assms byte_bit [of 0 a b n] byte_bit [of 8 a b n] byte_bit [of 16 a b n]
      byte_bit [of 24 a b n]
    by cases (simp_all add: le32_def)
qed

interpretation le16: byte_codec le16 "\<lambda>_. True" 2
  by unfold_locales (simp add: le16_def, rule le16_inj)

interpretation le32: byte_codec le32 "\<lambda>_. True" 4
  by unfold_locales (simp add: le32_def, rule le32_inj)

end
