(* ===== verification/Fixed_Math.thy ===== *)
theory Fixed_Math
  imports Arena_Prelude
begin

text \<open>
  \<open>src/src/arena/arena_math.h\<close> and \<open>arena_sintab.h\<close>: Q20.12 fixed-point arithmetic, the
  bit-by-bit integer square root, the sine table and the integer arctangent; then what the
  simulation relies on: the square root is exact, lengths dominate their components, and a
  direction scaled by a length never grows.
\<close>

section \<open>Fixed point\<close>

type_synonym q32 = int

definition Q_ONE :: q32 where
  "Q_ONE = 4096"

text \<open>
  The macro \<open>Q(x)\<close> on a decimal constant \<open>num/den\<close>: multiply by 4096, truncate towards zero.
  (The compiler evaluates it in double precision.  Each scaled constant of the program is an
  exact integer or at least 0.03 away from one, so the rounding of the product is immaterial.)
\<close>

definition Qc :: "int \<Rightarrow> int \<Rightarrow> q32" where
  "Qc num den = tdiv (num * Q_ONE) den"

record Vec3q =
  vx :: q32
  vy :: q32
  vz :: q32

definition vec0 :: Vec3q where
  "vec0 = \<lparr>vx = 0, vy = 0, vz = 0\<rparr>"

definition qmul :: "q32 \<Rightarrow> q32 \<Rightarrow> q32" where
  "qmul a b = i32 ((a * b) div 4096)"

definition qdiv :: "q32 \<Rightarrow> q32 \<Rightarrow> q32" where
  "qdiv a b = i32 (tdiv (a * 4096) b)"

definition qmin :: "q32 \<Rightarrow> q32 \<Rightarrow> q32" where
  "qmin a b = (if a < b then a else b)"

definition qmax :: "q32 \<Rightarrow> q32 \<Rightarrow> q32" where
  "qmax a b = (if a > b then a else b)"

definition qabs :: "q32 \<Rightarrow> q32" where
  "qabs a = (if a < 0 then i32 (- a) else a)"

definition qclamp :: "q32 \<Rightarrow> q32 \<Rightarrow> q32 \<Rightarrow> q32" where
  "qclamp v lo hi = (if v < lo then lo else (if v > hi then hi else v))"

section \<open>Integer square root\<close>

text \<open>The two loops of \<open>isqrt64\<close>: find the top bit, then one result bit per round.\<close>

lemma drop_bit_2_less: "w \<noteq> (0 :: u64) \<Longrightarrow> unat (drop_bit 2 w) < unat w"
  using unat_gt_0 [of w] by (simp add: unat_drop_bit_eq drop_bit_eq_div unat_div)

function isqrt_top :: "u64 \<Rightarrow> u64 \<Rightarrow> u64" where
  "isqrt_top v b = (if b > v then isqrt_top v (drop_bit 2 b) else b)"
  by pat_completeness auto
termination
proof (relation "measure (\<lambda>(v, b). unat b)", simp)
  fix v b :: u64
  assume "b > v"
  then have "b \<noteq> 0" by auto
  then show "((v, drop_bit 2 b), v, b) \<in> measure (\<lambda>(v, b). unat b)"
    using drop_bit_2_less by simp
qed

function isqrt_loop :: "u64 \<Rightarrow> u64 \<Rightarrow> u64 \<Rightarrow> u64" where
  "isqrt_loop v r b =
     (if b = 0 then r
      else if v \<ge> r + b then isqrt_loop (v - (r + b)) (drop_bit 1 r + b) (drop_bit 2 b)
      else isqrt_loop v (drop_bit 1 r) (drop_bit 2 b))"
  by pat_completeness auto
termination
  by (relation "measure (\<lambda>(v, r, b). unat b)") (auto intro: drop_bit_2_less)

declare isqrt_top.simps [simp del] isqrt_loop.simps [simp del]

definition isqrt64 :: "u64 \<Rightarrow> u32" where
  "isqrt64 v = ucast (isqrt_loop v 0 (isqrt_top v (push_bit 62 1)))"

definition qlen2 :: "q32 \<Rightarrow> q32 \<Rightarrow> q32" where
  "qlen2 x z = i32 (uint (isqrt64 (word_of_int (x * x) + word_of_int (z * z))))"

definition qlen3 :: "Vec3q \<Rightarrow> q32" where
  "qlen3 v = i32 (uint (isqrt64 (word_of_int (vx v * vx v) + word_of_int (vy v * vy v)
     + word_of_int (vz v * vz v))))"

section \<open>Trigonometry\<close>

definition arena_sintab :: "int list" where
  "arena_sintab =
  [0, 101, 201, 301, 401, 501, 601, 700, 799, 897, 995, 1092, 1189, 1285, 1380, 1474,
   1567, 1660, 1751, 1842, 1931, 2019, 2106, 2191, 2276, 2359, 2440, 2520, 2598, 2675, 2751, 2824,
   2896, 2967, 3035, 3102, 3166, 3229, 3290, 3349, 3406, 3461, 3513, 3564, 3612, 3659, 3703, 3745,
   3784, 3822, 3857, 3889, 3920, 3948, 3973, 3996, 4017, 4036, 4052, 4065, 4076, 4085, 4091, 4095,
   4096, 4095, 4091, 4085, 4076, 4065, 4052, 4036, 4017, 3996, 3973, 3948, 3920, 3889, 3857, 3822,
   3784, 3745, 3703, 3659, 3612, 3564, 3513, 3461, 3406, 3349, 3290, 3229, 3166, 3102, 3035, 2967,
   2896, 2824, 2751, 2675, 2598, 2520, 2440, 2359, 2276, 2191, 2106, 2019, 1931, 1842, 1751, 1660,
   1567, 1474, 1380, 1285, 1189, 1092, 995, 897, 799, 700, 601, 501, 401, 301, 201, 101,
   0, -101, -201, -301, -401, -501, -601, -700, -799, -897, -995, -1092, -1189, -1285, -1380, -1474,
   -1567, -1660, -1751, -1842, -1931, -2019, -2106, -2191, -2276, -2359, -2440, -2520, -2598, -2675, -2751, -2824,
   -2896, -2967, -3035, -3102, -3166, -3229, -3290, -3349, -3406, -3461, -3513, -3564, -3612, -3659, -3703, -3745,
   -3784, -3822, -3857, -3889, -3920, -3948, -3973, -3996, -4017, -4036, -4052, -4065, -4076, -4085, -4091, -4095,
   -4096, -4095, -4091, -4085, -4076, -4065, -4052, -4036, -4017, -3996, -3973, -3948, -3920, -3889, -3857, -3822,
   -3784, -3745, -3703, -3659, -3612, -3564, -3513, -3461, -3406, -3349, -3290, -3229, -3166, -3102, -3035, -2967,
   -2896, -2824, -2751, -2675, -2598, -2520, -2440, -2359, -2276, -2191, -2106, -2019, -1931, -1842, -1751, -1660,
   -1567, -1474, -1380, -1285, -1189, -1092, -995, -897, -799, -700, -601, -501, -401, -301, -201, -101]"

definition qsin :: "u16 \<Rightarrow> q32" where
  "qsin a = arena_sintab ! unat (drop_bit 8 a)"

definition qcos :: "u16 \<Rightarrow> q32" where
  "qcos a = arena_sintab ! unat (drop_bit 8 (a + 0x4000))"

definition iatan2 :: "q32 \<Rightarrow> q32 \<Rightarrow> u16" where
  "iatan2 y x =
     (if x = 0 \<and> y = 0 then 0
      else let ax = qabs x; ay = qabs y;
               t = (if ax > ay then qdiv ay ax else qdiv ax ay);
               corr = qmul (qmul (Qc 3125 10000) (i32 (Q_ONE - t))) t;
               a = word_of_int ((t * (0x2000 - (corr * 0x2000) div 4096)) div 4096) :: u16;
               a = (if ax \<le> ay then 0x4000 - a else a);
               a = (if x < 0 then 0x8000 - a else a)
           in if y < 0 then - a else a)"

section \<open>The square root is exact\<close>

text \<open>
  The word loop refines a loop over \<open>nat\<close> that counts the remaining result bits, and that one
  keeps \<open>v + q\<^sup>2 4\<^sup>k\<close> equal to the argument while \<open>q\<close> grows into the root.
\<close>

fun isqrt_nat :: "nat \<Rightarrow> nat \<Rightarrow> nat \<Rightarrow> nat" where
  "isqrt_nat 0 v r = r"
| "isqrt_nat (Suc k) v r =
     (if r + 4 ^ k \<le> v then isqrt_nat k (v - (r + 4 ^ k)) (r div 2 + 4 ^ k)
      else isqrt_nat k v (r div 2))"

lemma isqrt_nat_bounds:
  "v < (2 * q + 1) * 4 ^ k \<Longrightarrow>
     (isqrt_nat k v (q * 4 ^ k))\<^sup>2 \<le> v + q\<^sup>2 * 4 ^ k
     \<and> v + q\<^sup>2 * 4 ^ k < (isqrt_nat k v (q * 4 ^ k) + 1)\<^sup>2"
proof (induction k arbitrary: v q)
  case 0
  then show ?case by (simp add: power2_eq_square)
next
  case (Suc k)
  have half: "q * 4 ^ Suc k div 2 = 2 * q * 4 ^ k" by simp
  show ?case
  proof (cases "q * 4 ^ Suc k + 4 ^ k \<le> v")
    case True
    define w where "w = v - (q * 4 ^ Suc k + 4 ^ k)"
    have v: "v = w + (4 * q + 1) * 4 ^ k"
      using True by (simp add: w_def algebra_simps)
    have "w < (2 * (2 * q + 1) + 1) * 4 ^ k"
      using Suc.prems by (simp add: v algebra_simps)
    from Suc.IH [OF this] have
      "(isqrt_nat k w ((2 * q + 1) * 4 ^ k))\<^sup>2 \<le> w + (2 * q + 1)\<^sup>2 * 4 ^ k"
      "w + (2 * q + 1)\<^sup>2 * 4 ^ k < (isqrt_nat k w ((2 * q + 1) * 4 ^ k) + 1)\<^sup>2"
      by blast+
    moreover have "w + (2 * q + 1)\<^sup>2 * 4 ^ k = v + q\<^sup>2 * 4 ^ Suc k"
      by (simp add: v power2_eq_square algebra_simps)
    moreover have "isqrt_nat (Suc k) v (q * 4 ^ Suc k) = isqrt_nat k w ((2 * q + 1) * 4 ^ k)"
      using True by (simp add: half w_def algebra_simps)
    ultimately show ?thesis by simp
  next
    case False
    have "v < (2 * (2 * q) + 1) * 4 ^ k"
      using False by (simp add: algebra_simps)
    from Suc.IH [OF this] have
      "(isqrt_nat k v (2 * q * 4 ^ k))\<^sup>2 \<le> v + (2 * q)\<^sup>2 * 4 ^ k"
      "v + (2 * q)\<^sup>2 * 4 ^ k < (isqrt_nat k v (2 * q * 4 ^ k) + 1)\<^sup>2"
      by blast+
    moreover have "v + (2 * q)\<^sup>2 * 4 ^ k = v + q\<^sup>2 * 4 ^ Suc k"
      by (simp add: power2_eq_square algebra_simps)
    moreover have "isqrt_nat (Suc k) v (q * 4 ^ Suc k) = isqrt_nat k v (2 * q * 4 ^ k)"
      using False half by (simp add: mult.assoc)
    ultimately show ?thesis by simp
  qed
qed

definition isqrt_bit :: "nat \<Rightarrow> u64" where
  "isqrt_bit k = (case k of 0 \<Rightarrow> 0 | Suc j \<Rightarrow> word_of_nat (4 ^ j))"

lemma four_pow_less: "k < 32 \<Longrightarrow> (4::nat) ^ k < 2 ^ 64"
proof -
  assume "k < 32"
  then have "(4::nat) ^ k < 4 ^ 32" by (intro power_strict_increasing) auto
  then show ?thesis by simp
qed

lemma unat_isqrt_bit: "k < 32 \<Longrightarrow> unat (isqrt_bit (Suc k)) = 4 ^ k"
  using four_pow_less [of k] by (simp add: isqrt_bit_def unsigned_of_nat take_bit_nat_eq_self_iff del: of_nat_power)

lemma isqrt_bit_0 [simp]: "isqrt_bit 0 = 0"
  by (simp add: isqrt_bit_def)

lemma drop_isqrt_bit: "k < 32 \<Longrightarrow> drop_bit 2 (isqrt_bit (Suc k)) = isqrt_bit k"
proof (cases k)
  case 0
  then show ?thesis by (simp add: isqrt_bit_def)
next
  case (Suc j)
  assume k: "k < 32"
  then have "unat (drop_bit 2 (isqrt_bit (Suc k))) = 4 ^ j"
    by (simp add: unat_isqrt_bit drop_bit_eq_div unat_div Suc)
  also have "\<dots> = unat (isqrt_bit k)"
    using k by (simp add: Suc unat_isqrt_bit)
  finally show ?thesis by (simp only: word_unat_eq_iff)
qed

lemma unat_add_bounded: "unat a + unat b < 2 ^ 64 \<Longrightarrow> unat (a + b) = unat a + unat (b :: u64)"
  by (simp add: unat_word_ariths)

lemma isqrt_loop_nat:
  "k \<le> 32 \<Longrightarrow> unat r < 2 ^ 63 \<Longrightarrow>
     unat (isqrt_loop v r (isqrt_bit k)) = isqrt_nat k (unat v) (unat r)"
proof (induction k arbitrary: v r)
  case 0
  then show ?case by (simp add: isqrt_loop.simps)
next
  case (Suc k)
  let ?b = "isqrt_bit (Suc k)"
  have k: "k < 32" using Suc.prems by simp
  have b: "unat ?b = 4 ^ k" using k by (rule unat_isqrt_bit)
  then have bnz: "?b \<noteq> 0" by (metis power_not_zero unat_0 zero_neq_numeral)
  have "(4::nat) ^ k \<le> 4 ^ 31" using k by (intro power_increasing) auto
  then have b62: "unat ?b \<le> 2 ^ 62" using b by simp
  have rb: "unat (r + ?b) = unat r + 4 ^ k"
    using Suc.prems b62 b by (subst unat_add_bounded) auto
  have half: "unat (drop_bit 1 r) = unat r div 2"
    by (simp add: unat_drop_bit_eq drop_bit_eq_div unat_div)
  have half_le: "unat (drop_bit 1 r) < 2 ^ 62" using Suc.prems half by simp
  have r': "unat (drop_bit 1 r + ?b) = unat r div 2 + 4 ^ k"
    using half half_le b62 b by (subst unat_add_bounded) auto
  have small: "unat (drop_bit 1 r + ?b) < 2 ^ 63"
    using half half_le b62 b r' by simp
  show ?case
  proof (cases "r + ?b \<le> v")
    case True
    then have le: "unat r + 4 ^ k \<le> unat v" using rb by (simp add: word_le_nat_alt)
    have sub: "unat (v - (r + ?b)) = unat v - (unat r + 4 ^ k)"
      using True rb by (simp add: unat_sub)
    have "isqrt_loop v r ?b = isqrt_loop (v - (r + ?b)) (drop_bit 1 r + ?b) (isqrt_bit k)"
      using True bnz by (subst isqrt_loop.simps) (simp add: drop_isqrt_bit [OF k])
    then show ?thesis
      using Suc.IH [of "drop_bit 1 r + ?b"] small k le by (simp add: sub r' [unfolded One_nat_def])
  next
    case False
    then have nle: "\<not> unat r + 4 ^ k \<le> unat v" using rb by (simp add: word_le_nat_alt)
    have "isqrt_loop v r ?b = isqrt_loop v (drop_bit 1 r) (isqrt_bit k)"
      using False bnz by (subst isqrt_loop.simps) (simp add: drop_isqrt_bit [OF k])
    then show ?thesis
      using Suc.IH [of "drop_bit 1 r"] half_le k nle by (simp add: half [unfolded One_nat_def])
  qed
qed

lemma isqrt_top_bit:
  "k \<le> 32 \<Longrightarrow> unat v < 4 ^ k \<Longrightarrow>
     \<exists>j \<le> k. isqrt_top v (isqrt_bit k) = isqrt_bit j \<and> unat v < 4 ^ j"
proof (induction k)
  case 0
  then show ?case by (auto simp: isqrt_top.simps)
next
  case (Suc k)
  have k: "k < 32" using Suc.prems by simp
  show ?case
  proof (cases "isqrt_bit (Suc k) > v")
    case True
    then have "unat v < 4 ^ k" using unat_isqrt_bit [OF k] by (simp add: word_less_nat_alt)
    moreover have "isqrt_top v (isqrt_bit (Suc k)) = isqrt_top v (isqrt_bit k)"
      using True by (subst isqrt_top.simps) (simp add: drop_isqrt_bit [OF k])
    ultimately show ?thesis using Suc.IH k by (auto intro: le_SucI)
  next
    case False
    then show ?thesis using Suc.prems by (subst isqrt_top.simps) auto
  qed
qed

lemma isqrt64_floor:
  "(unat (isqrt64 v))\<^sup>2 \<le> unat v \<and> unat v < (unat (isqrt64 v) + 1)\<^sup>2"
proof -
  have "push_bit 62 1 = isqrt_bit 32" by (simp add: isqrt_bit_def)
  moreover have "unat v < 4 ^ 32" using u64_less [of v] by simp
  then obtain j where j: "j \<le> 32" "isqrt_top v (isqrt_bit 32) = isqrt_bit j" "unat v < 4 ^ j"
    using isqrt_top_bit [of 32 v] by blast
  ultimately have R: "unat (isqrt_loop v 0 (isqrt_top v (push_bit 62 1))) = isqrt_nat j (unat v) 0"
    using isqrt_loop_nat [of j 0 v] by simp
  have b: "(isqrt_nat j (unat v) 0)\<^sup>2 \<le> unat v" "unat v < (isqrt_nat j (unat v) 0 + 1)\<^sup>2"
    using isqrt_nat_bounds [of "unat v" 0 j] j(3) by simp_all
  have "isqrt_nat j (unat v) 0 < 2 ^ 32"
  proof (rule ccontr)
    assume "\<not> ?thesis"
    then have "(2 ^ 32)\<^sup>2 \<le> (isqrt_nat j (unat v) 0)\<^sup>2" by (intro power_mono) auto
    with b(1) u64_less [of v] show False by simp
  qed
  then have "unat (isqrt64 v) = isqrt_nat j (unat v) 0"
    using R by (simp add: isqrt64_def unsigned_ucast_eq take_bit_nat_eq_self_iff)
  with b show ?thesis by simp
qed

lemma isqrt64_unique:
  assumes "n\<^sup>2 \<le> unat v" and "unat v < (n + 1)\<^sup>2"
  shows "unat (isqrt64 v) = n"
proof -
  let ?r = "unat (isqrt64 v)"
  have "?r\<^sup>2 < (n + 1)\<^sup>2" "n\<^sup>2 < (?r + 1)\<^sup>2"
    using isqrt64_floor [of v] assms by linarith+
  then have "?r < n + 1" "n < ?r + 1"
    by (simp_all only: power2_less_imp_less [OF _ le0])
  then show ?thesis by simp
qed

section \<open>Lengths\<close>

text \<open>
  \<open>qlen2\<close> and \<open>qlen3\<close> are the Euclidean length rounded down as long as its square fits 62
  bits; every coordinate the simulation ever holds does (the position bounds of the simulation
  theories are far below).
\<close>

lemma unat_of_int_square_sum:
  assumes "0 \<le> s" and "s < 2 ^ 64"
  shows "unat (word_of_int s :: u64) = nat s"
  using assms by (simp add: unsigned_of_int take_bit_int_eq_self)

lemma isqrt64_of_int:
  assumes "0 \<le> s" and "s < 2 ^ 62" and "r = i32 (uint (isqrt64 (word_of_int s)))"
  shows "0 \<le> r" and "r * r \<le> s" and "s < (r + 1) * (r + 1)"
proof -
  let ?n = "unat (isqrt64 (word_of_int s))"
  have s: "int (unat (word_of_int s :: u64)) = s"
    using assms by (simp add: unsigned_of_int take_bit_int_eq_self)
  have "int (?n\<^sup>2) \<le> s" "s < int ((?n + 1)\<^sup>2)"
    using isqrt64_floor [of "word_of_int s"] by (metis s of_nat_le_iff, metis s of_nat_less_iff)
  then have b: "int ?n * int ?n \<le> s" "s < (int ?n + 1) * (int ?n + 1)"
    by (simp_all add: power2_eq_square algebra_simps)
  have "int ?n < 2 ^ 31"
  proof (rule ccontr)
    assume "\<not> ?thesis"
    then have "(2 ^ 31) * (2 ^ 31) \<le> int ?n * int ?n" by (intro mult_mono) auto
    with b(1) assms(2) show False by simp
  qed
  then have "r = int ?n"
    unfolding assms(3) by (subst i32_id) (simp_all add: order_trans [OF _ uint_ge_0])
  with b show "0 \<le> r" "r * r \<le> s" "s < (r + 1) * (r + 1)" by simp_all
qed

lemma qlen2_eq: "qlen2 x z = i32 (uint (isqrt64 (word_of_int (x * x + z * z))))"
  by (simp add: qlen2_def)

lemma qlen3_eq:
  "qlen3 v = i32 (uint (isqrt64 (word_of_int (vx v * vx v + vy v * vy v + vz v * vz v))))"
  by (simp add: qlen3_def)

lemma qlen2_floor:
  assumes "x * x + z * z < 2 ^ 62"
  shows "0 \<le> qlen2 x z" and "qlen2 x z * qlen2 x z \<le> x * x + z * z"
    and "x * x + z * z < (qlen2 x z + 1) * (qlen2 x z + 1)"
  using isqrt64_of_int [OF _ assms qlen2_eq] by simp_all

lemma qlen3_floor:
  assumes "vx v * vx v + vy v * vy v + vz v * vz v < 2 ^ 62" (is "?s < _")
  shows "0 \<le> qlen3 v" and "qlen3 v * qlen3 v \<le> ?s" and "?s < (qlen3 v + 1) * (qlen3 v + 1)"
  using isqrt64_of_int [OF _ assms qlen3_eq] by simp_all

text \<open>Comparing squares of integers, the step from those facts to bounds on lengths.\<close>

lemma square_less_imp: "a * a < b * b \<Longrightarrow> 0 \<le> b \<Longrightarrow> a < (b :: int)"
  using mult_mono [of b a b a] by (cases "a < b") auto

lemma abs_square: "\<bar>a\<bar> * \<bar>a\<bar> = a * (a :: int)"
  by (simp add: abs_if)

lemma small_squares:
  assumes "\<bar>x\<bar> \<le> 2 ^ 30" and "\<bar>z\<bar> \<le> 2 ^ 30"
  shows "x * x + z * z < (2 :: int) ^ 62"
proof -
  have "\<bar>x\<bar> * \<bar>x\<bar> \<le> 2 ^ 30 * 2 ^ 30" "\<bar>z\<bar> * \<bar>z\<bar> \<le> 2 ^ 30 * 2 ^ 30"
    using assms by (intro mult_mono; simp)+
  then show ?thesis by (simp add: abs_square)
qed

lemma qlen2_ge_x: "x * x + z * z < 2 ^ 62 \<Longrightarrow> \<bar>x\<bar> \<le> qlen2 x z"
proof -
  assume s: "x * x + z * z < 2 ^ 62"
  have "\<bar>x\<bar> * \<bar>x\<bar> < (qlen2 x z + 1) * (qlen2 x z + 1)"
    unfolding abs_square using qlen2_floor(3) [OF s] zero_le_square [of z] by linarith
  then have "\<bar>x\<bar> < qlen2 x z + 1"
    by (rule square_less_imp) (use qlen2_floor(1) [OF s] in simp)
  then show ?thesis by simp
qed

lemma qlen2_commute: "qlen2 x z = qlen2 z x"
  by (simp add: qlen2_def add.commute)

lemma qlen2_ge_z: "x * x + z * z < 2 ^ 62 \<Longrightarrow> \<bar>z\<bar> \<le> qlen2 x z"
  using qlen2_ge_x [of z x] by (simp add: qlen2_commute [of x z] add.commute)

lemma qlen2_le:
  assumes "x * x + z * z \<le> b * b" and "0 \<le> b" and "b < 2 ^ 31"
  shows "qlen2 x z \<le> b"
proof -
  have "b * b \<le> (2 ^ 31 - 1) * (2 ^ 31 - 1)"
    using assms by (intro mult_mono) auto
  then have s: "x * x + z * z < 2 ^ 62" using assms(1) by simp
  have "qlen2 x z * qlen2 x z < (b + 1) * (b + 1)"
    using qlen2_floor(2) [OF s] assms by (simp add: algebra_simps)
  then have "qlen2 x z < b + 1"
    by (rule square_less_imp) (use assms in simp)
  then show ?thesis by simp
qed

lemma qlen2_zero [simp]: "qlen2 0 0 = 0"
  using qlen2_floor(2) [of 0 0] mult_nonneg_nonneg [of "qlen2 0 0" "qlen2 0 0"]
  by (auto simp: mult_le_0_iff)

section \<open>Scaling by a sine or a unit direction\<close>

lemma qmul_unit_bound:
  assumes "\<bar>a\<bar> \<le> 4096" and "0 \<le> v" and "v < 2 ^ 31"
  shows "\<bar>qmul a v\<bar> \<le> v"
proof -
  have "- 4096 * v \<le> a * v" "a * v \<le> 4096 * v"
    by (rule mult_right_mono; use assms in linarith)+
  then have "- v \<le> (a * v) div 4096" "(a * v) div 4096 \<le> v"
    by linarith+
  then show ?thesis
    using assms by (simp add: qmul_def i32_id abs_le_iff)
qed

lemma qmul_1_bound: "\<bar>qmul a v\<bar> \<le> 2147483648"
  using i32_range [of "a * v div 4096"] by (simp add: qmul_def abs_le_iff)

lemma qdiv_unit_bound:
  assumes "\<bar>x\<bar> \<le> d" and "0 < d"
  shows "\<bar>qdiv x d\<bar> \<le> 4096"
proof -
  have "\<bar>x * 4096\<bar> div d \<le> (4096 * d) div d"
    using assms by (intro zdiv_mono1) (simp_all add: abs_mult)
  then have "\<bar>tdiv (x * 4096) d\<bar> \<le> 4096"
    using assms by (simp add: abs_tdiv)
  then show ?thesis
    by (simp add: qdiv_def i32_abs)
qed

lemma qclamp_range: "lo \<le> hi \<Longrightarrow> lo \<le> qclamp v lo hi \<and> qclamp v lo hi \<le> hi"
  by (simp add: qclamp_def)

lemma qclamp_id: "lo \<le> v \<Longrightarrow> v \<le> hi \<Longrightarrow> qclamp v lo hi = v"
  by (simp add: qclamp_def)

section \<open>The sine table\<close>

lemma arena_sintab_length: "length arena_sintab = 256"
  by (simp add: arena_sintab_def)

lemma arena_sintab_bound: "list_all (\<lambda>s. \<bar>s\<bar> \<le> 4096) arena_sintab"
  by (simp add: arena_sintab_def)

lemma arena_sintab_unit:
  "list_all (\<lambda>(s, c). \<bar>s * s + c * c - 4096 * 4096\<bar> \<le> 4591) (zip arena_sintab (rotate 64 arena_sintab))"
  by code_simp

lemma arena_sintab_half_turn: "rotate 128 arena_sintab = map uminus arena_sintab"
  by code_simp

lemma sintab_index: "unat (drop_bit 8 (a :: u16)) < length arena_sintab"
proof -
  have "unat a < 65536" using u16_less [of a] by simp
  then have "unat a div 256 < 256" by linarith
  then show ?thesis
    by (simp add: arena_sintab_length unat_drop_bit_eq drop_bit_eq_div unat_div)
qed
lemma sintab_turn:
  "unat (drop_bit 8 (a + word_of_nat (256 * k) :: u16)) = (unat (drop_bit 8 a) + k) mod 256"
proof -
  have "(unat a + 256 * k) mod 65536 div 256 = (unat a div 256 + k) mod 256"
  proof -
    have "(unat a + 256 * k) mod (256 * 256) div 256 = (unat a + 256 * k) div 256 mod 256"
      by (simp only: mod_mult2_eq)
    then show ?thesis by (simp add: add.commute)
  qed
  then show ?thesis
    by (simp add: unat_drop_bit_eq drop_bit_eq_div unat_div unat_word_ariths unsigned_of_nat
        take_bit_nat_def mod_simps del: of_nat_mult)
qed

text \<open>Facts about the table transported to angles.\<close>

lemma qsin_bound: "\<bar>qsin a\<bar> \<le> 4096"
  using list_all_nthD [OF arena_sintab_bound sintab_index] by (simp add: qsin_def)

lemma qcos_qsin: "qcos a = qsin (a + 0x4000)"
  by (simp add: qcos_def qsin_def)

lemma qcos_bound: "\<bar>qcos a\<bar> \<le> 4096"
  by (simp add: qcos_qsin qsin_bound)

lemma qsin_unit: "\<bar>qsin a * qsin a + qcos a * qcos a - 4096 * 4096\<bar> \<le> 4591"
proof -
  let ?i = "unat (drop_bit 8 a)"
  have i: "?i < 256" using sintab_index [of a] by (simp add: arena_sintab_length)
  have "qcos a = rotate 64 arena_sintab ! ?i"
    using i sintab_turn [of a 64]
    by (simp add: qcos_def nth_rotate arena_sintab_length add.commute)
  moreover have "qsin a = arena_sintab ! ?i" by (simp add: qsin_def)
  ultimately show ?thesis
    using list_all_nthD [OF arena_sintab_unit, of ?i] i
    by (simp add: arena_sintab_length)
qed

lemma qsin_half_turn: "qsin (a + 0x8000) = - qsin a"
proof -
  let ?i = "unat (drop_bit 8 a)"
  have i: "?i < 256" using sintab_index [of a] by (simp add: arena_sintab_length)
  have "qsin (a + 0x8000) = rotate 128 arena_sintab ! ?i"
    using i sintab_turn [of a 128]
    by (simp add: qsin_def nth_rotate arena_sintab_length add.commute)
  then show ?thesis
    using i by (simp add: arena_sintab_half_turn arena_sintab_length qsin_def)
qed

lemma qcos_half_turn: "qcos (a + 0x8000) = - qcos a"
  using qsin_half_turn [of "a + 0x4000"] by (simp add: qcos_qsin algebra_simps)

section \<open>The arctangent lands in the right quadrant\<close>

text \<open>
  The octant angle before the reflections: at most an eighth of a turn, so that none of the
  three reflections of \<open>iatan2\<close> wraps except the last, which is the negation it means.
\<close>

definition octant :: "q32 \<Rightarrow> u16" where
  "octant t = word_of_int ((t * (0x2000 - (qmul (qmul (Qc 3125 10000) (i32 (Q_ONE - t))) t * 0x2000)
     div 4096)) div 4096)"

lemma octant_bound:
  assumes "0 \<le> t" and "t \<le> 4096"
  shows "unat (octant t) \<le> 0x2000"
proof -
  have Q: "Qc 3125 10000 = 1280" by (simp add: Qc_def Q_ONE_def tdiv_def)
  define u where "u = qmul 1280 (i32 (Q_ONE - t))"
  have u: "u = (1280 * (4096 - t)) div 4096"
    using assms by (simp add: u_def qmul_def Q_ONE_def i32_id)
  have u_range: "0 \<le> u" "u \<le> 1280"
    using assms zdiv_mono1 [of "1280 * (4096 - t)" "1280 * 4096" 4096]
    by (simp_all add: u pos_imp_zdiv_nonneg_iff)
  define c where "c = qmul u t"
  have ut: "0 \<le> u * t" "u * t \<le> 1280 * 4096"
    using assms u_range by (simp, intro mult_mono) auto
  then have c: "0 \<le> c" "c \<le> 1280"
    by (simp_all add: c_def qmul_def i32_id)
  define f where "f = 0x2000 - (c * 0x2000) div 4096"
  have f: "0 \<le> f" "f \<le> 0x2000" using c by (simp_all add: f_def)
  have "0 \<le> t * f" "t * f \<le> 4096 * 0x2000"
    using assms f by (simp, intro mult_mono) auto
  then have "0 \<le> (t * f) div 4096" "(t * f) div 4096 \<le> 0x2000" by linarith+
  moreover have "octant t = word_of_int ((t * f) div 4096)"
    by (simp only: octant_def Q u_def c_def f_def)
  ultimately show ?thesis
    by (simp add: unsigned_of_int take_bit_int_eq_self nat_le_iff)
qed

lemma iatan2_octant:
  assumes "\<not> (x = 0 \<and> y = 0)" and "is_i32 x" and "is_i32 y"
    and "x \<noteq> - 2147483648" and "y \<noteq> - 2147483648"
  shows "\<exists>o8. unat o8 \<le> 0x2000 \<and> (x = 0 \<or> y = 0 \<longrightarrow> o8 = 0) \<and>
    (let a = (if \<bar>x\<bar> \<le> \<bar>y\<bar> then 0x4000 - o8 else o8); b = (if x < 0 then 0x8000 - a else a)
     in iatan2 y x = (if y < 0 then - b else b))"
proof -
  have ax: "qabs x = \<bar>x\<bar>" and ay: "qabs y = \<bar>y\<bar>"
    using assms by (simp_all add: qabs_def is_i32_def i32_id)
  define t where "t = (if \<bar>x\<bar> > \<bar>y\<bar> then qdiv \<bar>y\<bar> \<bar>x\<bar> else qdiv \<bar>x\<bar> \<bar>y\<bar>)"
  have ratio: "0 \<le> qdiv m n \<and> qdiv m n \<le> 4096" if "0 \<le> m" "m \<le> n" "0 < n" for m n
  proof -
    have "(m * 4096) div n \<le> (4096 * n) div n" using that by (intro zdiv_mono1) auto
    then have "tdiv (m * 4096) n \<le> 4096" "0 \<le> tdiv (m * 4096) n"
      using that by (simp_all add: tdiv_nonneg pos_imp_zdiv_nonneg_iff)
    then show ?thesis by (simp add: qdiv_def i32_id)
  qed
  have "0 \<le> t" "t \<le> 4096"
    using assms(1) ratio [of "\<bar>y\<bar>" "\<bar>x\<bar>"] ratio [of "\<bar>x\<bar>" "\<bar>y\<bar>"] by (auto simp: t_def)
  then have "unat (octant t) \<le> 0x2000" by (rule octant_bound)
  moreover have "x = 0 \<or> y = 0 \<longrightarrow> octant t = 0"
    using assms(1) by (auto simp: t_def qdiv_def tdiv_def octant_def i32_id)
  moreover have "iatan2 y x = (let a = (if \<bar>x\<bar> \<le> \<bar>y\<bar> then 0x4000 - octant t else octant t);
      b = (if x < 0 then 0x8000 - a else a) in if y < 0 then - b else b)"
    by (simp only: iatan2_def ax ay octant_def t_def Let_def if_not_P [OF assms(1)])
  ultimately show ?thesis
    by (auto simp only: Let_def)
qed


lemma unat_uminus_16: "unat (- b :: u16) = (if b = 0 then 0 else 65536 - unat b)"
proof -
  have "unat (0 - b) = (if unat b \<le> unat (0::u16) then unat (0::u16) - unat b
    else unat (0::u16) + 2 ^ size (0::u16) - unat b)"
    by (rule unat_sub_if_size)
  then show ?thesis
    by (simp add: word_size unat_eq_zero)
qed

lemma iatan2_quadrant:
  assumes "\<not> (x = 0 \<and> y = 0)" and "is_i32 x" and "is_i32 y"
    and "x \<noteq> - 2147483648" and "y \<noteq> - 2147483648"
  shows "(0 \<le> x \<and> 0 \<le> y \<longrightarrow> unat (iatan2 y x) \<le> 0x4000)
    \<and> (x < 0 \<and> 0 \<le> y \<longrightarrow> 0x4000 \<le> unat (iatan2 y x) \<and> unat (iatan2 y x) \<le> 0x8000)
    \<and> (x < 0 \<and> y < 0 \<longrightarrow> 0x8000 \<le> unat (iatan2 y x) \<and> unat (iatan2 y x) \<le> 0xC000)
    \<and> (0 \<le> x \<and> y < 0 \<longrightarrow> 0xC000 \<le> unat (iatan2 y x) \<or> iatan2 y x = 0)"
proof -
  obtain o8 where o8: "unat o8 \<le> 0x2000"
    and eq: "iatan2 y x = (let a = (if \<bar>x\<bar> \<le> \<bar>y\<bar> then 0x4000 - o8 else o8);
      b = (if x < 0 then 0x8000 - a else a) in if y < 0 then - b else b)"
    using iatan2_octant [OF assms] by (auto simp: Let_def)
  define a where "a = (if \<bar>x\<bar> \<le> \<bar>y\<bar> then 0x4000 - o8 else o8)"
  have "unat (0x4000 - o8) = 0x4000 - unat o8"
    using o8 by (subst unat_sub) (simp_all add: word_le_nat_alt)
  then have a: "unat a \<le> 0x4000" using o8 by (simp add: a_def)
  define c where "c = 0x8000 - a"
  have c: "unat c = 0x8000 - unat a"
    unfolding c_def using a by (subst unat_sub) (simp_all add: word_le_nat_alt)
  have "iatan2 y x = (if y < 0 then - (if x < 0 then c else a) else if x < 0 then c else a)"
    by (simp add: eq a_def c_def Let_def)
  then show ?thesis
    using a c by (auto simp: unat_uminus_16)
qed

text \<open>The signs of the table, half by half.\<close>

lemma arena_sintab_signs:
  "list_all (\<lambda>s. 0 \<le> s) (take 129 arena_sintab)"
  "list_all (\<lambda>s. s \<le> 0) (drop 128 arena_sintab)"
  by (simp_all add: arena_sintab_def)

lemma sintab_at: "unat a div 256 = unat (drop_bit 8 (a :: u16))"
  by (simp add: unat_drop_bit_eq drop_bit_eq_div unat_div)

lemma qsin_nonneg:
  assumes "unat a \<le> 0x8000"
  shows "0 \<le> qsin a"
proof -
  have "unat a div 256 < 129" using assms by linarith
  then show ?thesis
    using list_all_nthD [OF arena_sintab_signs(1), of "unat a div 256"]
    by (simp add: qsin_def sintab_at [symmetric] arena_sintab_length)
qed

lemma qsin_nonpos:
  assumes "0x8000 \<le> unat a \<or> a = 0"
  shows "qsin a \<le> 0"
proof (cases "a = 0")
  case True
  then show ?thesis by (simp add: qsin_def arena_sintab_def)
next
  case False
  then have "128 \<le> unat a div 256" "unat a div 256 < 256"
    using assms u16_less [of a] by simp_all
  then show ?thesis
    using list_all_nthD [OF arena_sintab_signs(2), of "unat a div 256 - 128"]
    by (simp add: qsin_def sintab_at [symmetric] arena_sintab_length)
qed

lemma unat_quarter_turn:
  "unat (a + 0x4000 :: u16) = (if unat a < 0xC000 then unat a + 0x4000 else unat a - 0xC000)"
proof -
  have "unat a < 65536" using u16_less [of a] by simp
  then show ?thesis
    by (simp add: unat_word_ariths) (simp add: le_mod_geq mod_less)
qed

lemma qcos_nonneg: "unat a \<le> 0x4000 \<or> 0xC000 \<le> unat a \<Longrightarrow> 0 \<le> qcos a"
  using u16_less [of a] by (auto simp: qcos_qsin unat_quarter_turn intro!: qsin_nonneg)

lemma qcos_nonpos: "0x4000 \<le> unat a \<Longrightarrow> unat a \<le> 0xC000 \<Longrightarrow> qcos a \<le> 0"
proof -
  assume a: "0x4000 \<le> unat a" "unat a \<le> 0xC000"
  then have "0x8000 \<le> unat (a + 0x4000) \<or> unat (a + 0x4000) = 0"
    by (auto simp: unat_quarter_turn)
  then show ?thesis
    unfolding qcos_qsin by (intro qsin_nonpos) (simp only: unat_eq_zero)
qed

lemma iatan2_axes:
  assumes "is_i32 x" and "is_i32 y" and "x \<noteq> - 2147483648" and "y \<noteq> - 2147483648"
  shows "x \<noteq> 0 \<Longrightarrow> iatan2 0 x = (if x < 0 then 0x8000 else 0)"
    and "y \<noteq> 0 \<Longrightarrow> iatan2 y 0 = (if y < 0 then 0xC000 else 0x4000)"
  using assms iatan2_octant [of x 0] iatan2_octant [of 0 y] by (auto simp: Let_def is_i32_def)

text \<open>
  The facing convention of the program is \<open>(sin, - cos)\<close>; the arctangent of a vector faces the
  side each of its components points to.
\<close>

lemma iatan2_signs:
  assumes "\<not> (x = 0 \<and> y = 0)" and "is_i32 x" and "is_i32 y"
    and "x \<noteq> - 2147483648" and "y \<noteq> - 2147483648"
  shows "0 \<le> y \<Longrightarrow> 0 \<le> qsin (iatan2 y x)" and "y \<le> 0 \<Longrightarrow> qsin (iatan2 y x) \<le> 0"
    and "0 \<le> x \<Longrightarrow> 0 \<le> qcos (iatan2 y x)" and "x \<le> 0 \<Longrightarrow> qcos (iatan2 y x) \<le> 0"
proof -
  note quad = iatan2_quadrant [OF assms] and ax = iatan2_axes [OF assms(2-5)]
  show "0 \<le> qsin (iatan2 y x)" if "0 \<le> y"
    using that quad by (cases "x < 0") (auto intro!: qsin_nonneg)
  show "qsin (iatan2 y x) \<le> 0" if "y \<le> 0"
    using that quad ax(1) assms(1) by (cases "y = 0"; cases "x < 0") (auto intro!: qsin_nonpos)
  show "0 \<le> qcos (iatan2 y x)" if "0 \<le> x"
    using that quad by (cases "y < 0") (auto intro!: qcos_nonneg)
  show "qcos (iatan2 y x) \<le> 0" if "x \<le> 0"
    using that quad ax(2) assms(1) by (cases "x = 0"; cases "y < 0") (auto intro!: qcos_nonpos)
qed

section \<open>Properties\<close>

text \<open>C40: \<open>isqrt64\<close> is the exact integer square root of every 64-bit input: its two loops return the
  largest \<open>r\<close> with \<open>r * r \<le> v\<close>, and no intermediate value overflows.\<close>

theorem isqrt64_is_floor_sqrt:
  "(unat (isqrt64 v))\<^sup>2 \<le> unat v \<and> unat v < (unat (isqrt64 v) + 1)\<^sup>2"
  by (rule isqrt64_floor)

text \<open>\<open>qlen2\<close> and \<open>qlen3\<close> are the Euclidean length rounded down for coordinates of up to
  262144 world units: no square, sum or conversion overflows there.\<close>

theorem lengths_are_exact:
  assumes "\<bar>vx v\<bar> \<le> 2 ^ 30" and "\<bar>vy v\<bar> \<le> 2 ^ 30" and "\<bar>vz v\<bar> \<le> 2 ^ 30"
  shows "0 \<le> qlen3 v
    \<and> (qlen3 v)\<^sup>2 \<le> (vx v)\<^sup>2 + (vy v)\<^sup>2 + (vz v)\<^sup>2 \<and> (vx v)\<^sup>2 + (vy v)\<^sup>2 + (vz v)\<^sup>2 < (qlen3 v + 1)\<^sup>2
    \<and> (qlen2 (vx v) (vz v))\<^sup>2 \<le> (vx v)\<^sup>2 + (vz v)\<^sup>2
    \<and> (vx v)\<^sup>2 + (vz v)\<^sup>2 < (qlen2 (vx v) (vz v) + 1)\<^sup>2"
proof -
  have sq: "c * c \<le> 2 ^ 30 * 2 ^ 30" if "\<bar>c\<bar> \<le> 2 ^ 30" for c :: int
    using mult_mono [OF that that] by (simp add: abs_square)
  have "vx v * vx v + vy v * vy v + vz v * vz v < 2 ^ 62"
    using sq [OF assms(1)] sq [OF assms(2)] sq [OF assms(3)] by simp
  from qlen3_floor [OF this] qlen2_floor [OF small_squares [OF assms(1,3)]]
  show ?thesis by (simp add: power2_eq_square)
qed

theorem lengths_are_exact_witness:
  "(qlen3 \<lparr>vx = 3, vy = 4, vz = 12\<rparr>)\<^sup>2 \<le> 169 \<and> 169 < (qlen3 \<lparr>vx = 3, vy = 4, vz = 12\<rparr> + 1)\<^sup>2"
  using lengths_are_exact [of "\<lparr>vx = 3, vy = 4, vz = 12\<rparr>"] by simp

text \<open>The sine table is a consistent compass for every binary angle: sine and cosine stay within
  one, the vector they form has length one up to 0.03 percent, and a half turn negates both.\<close>

theorem compass_is_consistent:
  "\<bar>qsin a\<bar> \<le> Q_ONE \<and> \<bar>qcos a\<bar> \<le> Q_ONE
   \<and> \<bar>(qsin a)\<^sup>2 + (qcos a)\<^sup>2 - Q_ONE\<^sup>2\<bar> \<le> 4591
   \<and> qsin (a + 0x8000) = - qsin a \<and> qcos (a + 0x8000) = - qcos a"
  using qsin_bound [of a] qcos_bound [of a] qsin_unit [of a]
  by (simp add: Q_ONE_def power2_eq_square qsin_half_turn qcos_half_turn)

text \<open>\<open>iatan2\<close> never points backwards: walking along the angle it returns moves each coordinate in
  the direction asked for (or not at all), and on the axes the angle is exact.\<close>

theorem iatan2_points_the_right_way:
  assumes "\<not> (x = 0 \<and> y = 0)" and "\<bar>x\<bar> < 2147483648" and "\<bar>y\<bar> < 2147483648"
  shows "0 \<le> qsin (iatan2 y x) * y \<and> 0 \<le> qcos (iatan2 y x) * x
    \<and> (y = 0 \<longrightarrow> iatan2 y x = (if x < 0 then 0x8000 else 0))
    \<and> (x = 0 \<longrightarrow> iatan2 y x = (if y < 0 then 0xC000 else 0x4000))"
proof -
  have i: "is_i32 x" "is_i32 y" "x \<noteq> - 2147483648" "y \<noteq> - 2147483648"
    using assms(2,3) by (auto simp: is_i32_def)
  note s = iatan2_signs [OF assms(1) i]
  have "0 \<le> qsin (iatan2 y x) * y"
    using s(1,2) by (cases "0 \<le> y") (simp_all add: mult_nonpos_nonpos)
  moreover have "0 \<le> qcos (iatan2 y x) * x"
    using s(3,4) by (cases "0 \<le> x") (simp_all add: mult_nonpos_nonpos)
  ultimately show ?thesis using iatan2_axes [OF i] assms(1) by auto
qed

theorem iatan2_points_the_right_way_witness:
  "0 \<le> qsin (iatan2 (- 5) 3) * (- 5) \<and> iatan2 (- 7) 0 = 0xC000"
  using iatan2_points_the_right_way [of 3 "- 5"] iatan2_points_the_right_way [of 0 "- 7"] by simp

text \<open>The arctangent is not accurate to a degree, as its comment says: the direction (4096, 2365),
  whose angle is above 30 degrees since its slope squared exceeds one third, gets an angle below 24.1
  degrees.\<close>

theorem iatan2_error_above_five_degrees:
  "3 * (2365 * 2365) > (4096 * 4096 :: int) \<and> 3600 * unat (iatan2 2365 4096) < 241 * 65536"
  by (simp add: iatan2_def qabs_def qdiv_def qmul_def tdiv_def i32_def Q_ONE_def Qc_def Let_def)

end
