(* ===== verification/Arena_State.thy ===== *)
theory Arena_State
  imports Fixed_Math
begin

text \<open>
  \<open>src/src/arena/arena_state.h\<close>: the whole state of the simulation, the 16-bit input word, the
  state's own random generator, and the byte image of the struct that snapshots copy and the
  desync checksum folds over.

  The C enums stored in \<open>u8\<close> fields are datatypes here; \<open>pstate_code\<close> and its siblings give the
  stored number.  Coordinates are integers that operations keep in the 32-bit range.
\<close>

definition ARENA_MAX_PLAYERS :: nat where
  "ARENA_MAX_PLAYERS = 4"

definition ARENA_MAX_BOMBS :: nat where
  "ARENA_MAX_BOMBS = 16"

definition ARENA_MAX_BLASTS :: nat where
  "ARENA_MAX_BLASTS = 16"

lemmas arena_sizes = ARENA_MAX_PLAYERS_def ARENA_MAX_BOMBS_def ARENA_MAX_BLASTS_def

section \<open>Input words\<close>

type_synonym ArenaInput = u16

definition AIN_STICK_MAX :: int where
  "AIN_STICK_MAX = 31"

definition stick_clamp :: "int \<Rightarrow> int" where
  "stick_clamp v = (let v = (if v < - AIN_STICK_MAX then - AIN_STICK_MAX else v)
                    in if v > AIN_STICK_MAX then AIN_STICK_MAX else v)"

definition arena_input_pack :: "int \<Rightarrow> int \<Rightarrow> bool \<Rightarrow> bool \<Rightarrow> bool \<Rightarrow> ArenaInput" where
  "arena_input_pack sx sy jump bomb st =
     (let sx = stick_clamp sx; sy = stick_clamp sy in
      (word_of_int (sx + 32) AND 63) OR push_bit 6 (word_of_int (sy + 32) AND 63)
      OR push_bit 12 (of_bool jump) OR push_bit 13 (of_bool bomb) OR push_bit 14 (of_bool st))"

definition arena_input_sx :: "ArenaInput \<Rightarrow> int" where
  "arena_input_sx i = uint (i AND 63) - 32"

definition arena_input_sy :: "ArenaInput \<Rightarrow> int" where
  "arena_input_sy i = uint (drop_bit 6 i AND 63) - 32"

definition arena_input_jump :: "ArenaInput \<Rightarrow> bool" where
  "arena_input_jump i = (drop_bit 12 i AND 1 \<noteq> 0)"

definition arena_input_bomb :: "ArenaInput \<Rightarrow> bool" where
  "arena_input_bomb i = (drop_bit 13 i AND 1 \<noteq> 0)"

definition arena_input_set :: "ArenaInput \<Rightarrow> bool" where
  "arena_input_set i = (drop_bit 14 i AND 1 \<noteq> 0)"

section \<open>The state\<close>

datatype PState = PSTATE_IDLE | PSTATE_RUN | PSTATE_JUMP | PSTATE_TUMBLE | PSTATE_DEAD

datatype BState =
    BSTATE_FREE | BSTATE_HELD | BSTATE_AIRBORNE | BSTATE_SETTLED | BSTATE_EXPLODING
  | BSTATE_SLIDING | BSTATE_FALLING

datatype Phase = PHASE_COUNTDOWN | PHASE_PLAY | PHASE_SUDDEN_DEATH | PHASE_ROUND_END

record ArenaPlayer =
  pl_pos :: Vec3q
  pl_vel :: Vec3q
  pl_yaw :: u16
  pl_state :: PState
  pl_hp :: u8
  pl_timer :: u16
  pl_stocks_won :: u8
  pl_held_bomb :: u8
  pl_live_bombs :: u8
  pl_last_input :: ArenaInput
  pl_anim_hint :: u32

record ArenaBomb =
  bm_pos :: Vec3q
  bm_vel :: Vec3q
  bm_owner :: u8
  bm_state :: BState
  bm_fuse :: u16
  bm_bounced :: u8
  bm_attach :: u8

record ArenaBlast =
  bl_center :: Vec3q
  bl_radius_t :: u16
  bl_owner :: u8
  bl_ttl :: u8

record ArenaState =
  st_tick :: u32
  st_rng :: u32
  st_round :: u8
  st_phase :: Phase
  st_phase_timer :: u16
  st_arena_id :: u8
  st_num_players :: u8
  st_shrink_step :: u16
  st_players :: "ArenaPlayer list"
  st_bombs :: "ArenaBomb list"
  st_blasts :: "ArenaBlast list"

text \<open>\<open>memset(..., 0, ...)\<close> of each struct.\<close>

definition player_zero :: ArenaPlayer where
  "player_zero = \<lparr>pl_pos = vec0, pl_vel = vec0, pl_yaw = 0, pl_state = PSTATE_IDLE, pl_hp = 0,
     pl_timer = 0, pl_stocks_won = 0, pl_held_bomb = 0, pl_live_bombs = 0, pl_last_input = 0,
     pl_anim_hint = 0\<rparr>"

definition bomb_zero :: ArenaBomb where
  "bomb_zero = \<lparr>bm_pos = vec0, bm_vel = vec0, bm_owner = 0, bm_state = BSTATE_FREE, bm_fuse = 0,
     bm_bounced = 0, bm_attach = 0\<rparr>"

definition blast_zero :: ArenaBlast where
  "blast_zero = \<lparr>bl_center = vec0, bl_radius_t = 0, bl_owner = 0, bl_ttl = 0\<rparr>"

definition state_zero :: ArenaState where
  "state_zero = \<lparr>st_tick = 0, st_rng = 0, st_round = 0, st_phase = PHASE_COUNTDOWN,
     st_phase_timer = 0, st_arena_id = 0, st_num_players = 0, st_shrink_step = 0,
     st_players = replicate ARENA_MAX_PLAYERS player_zero,
     st_bombs = replicate ARENA_MAX_BOMBS bomb_zero,
     st_blasts = replicate ARENA_MAX_BLASTS blast_zero\<rparr>"

abbreviation player :: "ArenaState \<Rightarrow> nat \<Rightarrow> ArenaPlayer" where
  "player s i \<equiv> st_players s ! i"

abbreviation bomb :: "ArenaState \<Rightarrow> nat \<Rightarrow> ArenaBomb" where
  "bomb s i \<equiv> st_bombs s ! i"

abbreviation blast :: "ArenaState \<Rightarrow> nat \<Rightarrow> ArenaBlast" where
  "blast s i \<equiv> st_blasts s ! i"

definition set_player :: "nat \<Rightarrow> ArenaPlayer \<Rightarrow> ArenaState \<Rightarrow> ArenaState" where
  "set_player i p s = s\<lparr>st_players := (st_players s)[i := p]\<rparr>"

definition set_bomb :: "nat \<Rightarrow> ArenaBomb \<Rightarrow> ArenaState \<Rightarrow> ArenaState" where
  "set_bomb i b s = s\<lparr>st_bombs := (st_bombs s)[i := b]\<rparr>"

definition set_blast :: "nat \<Rightarrow> ArenaBlast \<Rightarrow> ArenaState \<Rightarrow> ArenaState" where
  "set_blast i b s = s\<lparr>st_blasts := (st_blasts s)[i := b]\<rparr>"

definition arena_rand :: "ArenaState \<Rightarrow> u32 \<times> ArenaState" where
  "arena_rand s = (let x = xorshift32 (st_rng s) in (x, s\<lparr>st_rng := x\<rparr>))"

lemma set_player_sel [simp]:
  "st_tick (set_player i p s) = st_tick s" "st_rng (set_player i p s) = st_rng s"
  "st_round (set_player i p s) = st_round s" "st_phase (set_player i p s) = st_phase s"
  "st_phase_timer (set_player i p s) = st_phase_timer s"
  "st_arena_id (set_player i p s) = st_arena_id s"
  "st_num_players (set_player i p s) = st_num_players s"
  "st_shrink_step (set_player i p s) = st_shrink_step s"
  "st_players (set_player i p s) = (st_players s)[i := p]"
  "st_bombs (set_player i p s) = st_bombs s" "st_blasts (set_player i p s) = st_blasts s"
  by (simp_all add: set_player_def)

lemma set_bomb_sel [simp]:
  "st_tick (set_bomb i b s) = st_tick s" "st_rng (set_bomb i b s) = st_rng s"
  "st_round (set_bomb i b s) = st_round s" "st_phase (set_bomb i b s) = st_phase s"
  "st_phase_timer (set_bomb i b s) = st_phase_timer s"
  "st_arena_id (set_bomb i b s) = st_arena_id s"
  "st_num_players (set_bomb i b s) = st_num_players s"
  "st_shrink_step (set_bomb i b s) = st_shrink_step s"
  "st_players (set_bomb i b s) = st_players s"
  "st_bombs (set_bomb i b s) = (st_bombs s)[i := b]" "st_blasts (set_bomb i b s) = st_blasts s"
  by (simp_all add: set_bomb_def)

lemma set_blast_sel [simp]:
  "st_tick (set_blast i b s) = st_tick s" "st_rng (set_blast i b s) = st_rng s"
  "st_round (set_blast i b s) = st_round s" "st_phase (set_blast i b s) = st_phase s"
  "st_phase_timer (set_blast i b s) = st_phase_timer s"
  "st_arena_id (set_blast i b s) = st_arena_id s"
  "st_num_players (set_blast i b s) = st_num_players s"
  "st_shrink_step (set_blast i b s) = st_shrink_step s"
  "st_players (set_blast i b s) = st_players s" "st_bombs (set_blast i b s) = st_bombs s"
  "st_blasts (set_blast i b s) = (st_blasts s)[i := b]"
  by (simp_all add: set_blast_def)

section \<open>The byte image and the checksum\<close>

text \<open>Little-endian hosts, the only ones the program targets; padding bytes are zero.\<close>

definition q32_bytes :: "q32 \<Rightarrow> u8 list" where
  "q32_bytes q = le32 (word_of_int q)"

definition vec_bytes :: "Vec3q \<Rightarrow> u8 list" where
  "vec_bytes v = q32_bytes (vx v) @ q32_bytes (vy v) @ q32_bytes (vz v)"

definition pstate_code :: "PState \<Rightarrow> u8" where
  "pstate_code p = (case p of PSTATE_IDLE \<Rightarrow> 0 | PSTATE_RUN \<Rightarrow> 1 | PSTATE_JUMP \<Rightarrow> 2
     | PSTATE_TUMBLE \<Rightarrow> 3 | PSTATE_DEAD \<Rightarrow> 4)"

definition bstate_code :: "BState \<Rightarrow> u8" where
  "bstate_code b = (case b of BSTATE_FREE \<Rightarrow> 0 | BSTATE_HELD \<Rightarrow> 1 | BSTATE_AIRBORNE \<Rightarrow> 2
     | BSTATE_SETTLED \<Rightarrow> 3 | BSTATE_EXPLODING \<Rightarrow> 4 | BSTATE_SLIDING \<Rightarrow> 5 | BSTATE_FALLING \<Rightarrow> 6)"

definition phase_code :: "Phase \<Rightarrow> u8" where
  "phase_code p = (case p of PHASE_COUNTDOWN \<Rightarrow> 0 | PHASE_PLAY \<Rightarrow> 1 | PHASE_SUDDEN_DEATH \<Rightarrow> 2
     | PHASE_ROUND_END \<Rightarrow> 3)"

definition player_bytes :: "ArenaPlayer \<Rightarrow> u8 list" where
  "player_bytes p = vec_bytes (pl_pos p) @ vec_bytes (pl_vel p) @ le16 (pl_yaw p)
     @ [pstate_code (pl_state p), pl_hp p] @ le16 (pl_timer p)
     @ [pl_stocks_won p, pl_held_bomb p, pl_live_bombs p, 0] @ le16 (pl_last_input p)
     @ le32 (pl_anim_hint p)"

definition bomb_bytes :: "ArenaBomb \<Rightarrow> u8 list" where
  "bomb_bytes b = vec_bytes (bm_pos b) @ vec_bytes (bm_vel b) @ [bm_owner b, bstate_code (bm_state b)]
     @ le16 (bm_fuse b) @ [bm_bounced b, bm_attach b, 0, 0]"

definition blast_bytes :: "ArenaBlast \<Rightarrow> u8 list" where
  "blast_bytes b = vec_bytes (bl_center b) @ le16 (bl_radius_t b) @ [bl_owner b, bl_ttl b]"

definition arena_bytes :: "ArenaState \<Rightarrow> u8 list" where
  "arena_bytes s = le32 (st_tick s) @ le32 (st_rng s)
     @ [st_round s, phase_code (st_phase s)] @ le16 (st_phase_timer s)
     @ [st_arena_id s, st_num_players s] @ le16 (st_shrink_step s)
     @ concat (map player_bytes (st_players s)) @ concat (map bomb_bytes (st_bombs s))
     @ concat (map blast_bytes (st_blasts s))"

definition fnv1a :: "u8 list \<Rightarrow> u32" where
  "fnv1a bs = foldl (\<lambda>h b. (h XOR ucast b) * 16777619) 2166136261 bs"

definition arena_hash :: "ArenaState \<Rightarrow> u32" where
  "arena_hash s = fnv1a (arena_bytes s)"

section \<open>The byte image is faithful\<close>

lemma q32_word_inj: "is_i32 x \<Longrightarrow> is_i32 y \<Longrightarrow> (word_of_int x :: u32) = word_of_int y \<Longrightarrow> x = y"
proof -
  assume *: "is_i32 x" "is_i32 y" "(word_of_int x :: u32) = word_of_int y"
  then have "x mod 4294967296 = y mod 4294967296"
    by (simp add: word_of_int_eq_iff take_bit_eq_mod)
  then have "i32 x = i32 y" by (metis i32_def mod_add_left_eq)
  with * show "x = y" by (simp add: i32_small)
qed

interpretation q32: byte_codec q32_bytes is_i32 4
  by unfold_locales (simp add: q32_bytes_def le32.enc_length, simp add: q32_bytes_def le32.enc_eq_iff q32_word_inj)

definition vec_ok :: "Vec3q \<Rightarrow> bool" where
  "vec_ok v \<longleftrightarrow> is_i32 (vx v) \<and> is_i32 (vy v) \<and> is_i32 (vz v)"

interpretation vec: byte_codec vec_bytes vec_ok 12
  by unfold_locales (simp_all add: vec_bytes_def vec_ok_def q32.enc_length q32.enc_append_iff q32.enc_eq_iff)

definition player_ok :: "ArenaPlayer \<Rightarrow> bool" where
  "player_ok p \<longleftrightarrow> vec_ok (pl_pos p) \<and> vec_ok (pl_vel p)"

definition bomb_ok :: "ArenaBomb \<Rightarrow> bool" where
  "bomb_ok b \<longleftrightarrow> vec_ok (bm_pos b) \<and> vec_ok (bm_vel b)"

lemmas codec =
  le16.enc_length le32.enc_length q32.enc_length vec.enc_length
  le16.enc_eq_iff le32.enc_eq_iff q32.enc_eq_iff vec.enc_eq_iff

lemma code_inj [simp]:
  "pstate_code p = pstate_code p' \<longleftrightarrow> p = p'" "bstate_code b = bstate_code b' \<longleftrightarrow> b = b'"
  "phase_code h = phase_code h' \<longleftrightarrow> h = h'"
proof -
  show "pstate_code p = pstate_code p' \<longleftrightarrow> p = p'"
    by (cases p; cases p') (simp_all add: pstate_code_def)
  show "bstate_code b = bstate_code b' \<longleftrightarrow> b = b'"
    by (cases b; cases b') (simp_all add: bstate_code_def)
  show "phase_code h = phase_code h' \<longleftrightarrow> h = h'"
    by (cases h; cases h') (simp_all add: phase_code_def)
qed

interpretation player_codec: byte_codec player_bytes player_ok 40
proof unfold_locales
  show "player_ok x \<Longrightarrow> player_ok y \<Longrightarrow> player_bytes x = player_bytes y \<Longrightarrow> x = y" for x y
    by (rule ArenaPlayer.equality) (simp_all add: player_bytes_def player_ok_def codec)
qed (simp add: player_bytes_def codec)

interpretation bomb_codec: byte_codec bomb_bytes bomb_ok 32
proof unfold_locales
  show "bomb_ok x \<Longrightarrow> bomb_ok y \<Longrightarrow> bomb_bytes x = bomb_bytes y \<Longrightarrow> x = y" for x y
    by (rule ArenaBomb.equality) (simp_all add: bomb_bytes_def bomb_ok_def codec)
qed (simp add: bomb_bytes_def codec)

interpretation blast_codec: byte_codec blast_bytes "\<lambda>b. vec_ok (bl_center b)" 16
proof unfold_locales
  show "vec_ok (bl_center x) \<Longrightarrow> vec_ok (bl_center y) \<Longrightarrow> blast_bytes x = blast_bytes y \<Longrightarrow> x = y" for x y
    by (rule ArenaBlast.equality) (simp_all add: blast_bytes_def codec)
qed (simp add: blast_bytes_def codec)

definition state_ok :: "ArenaState \<Rightarrow> bool" where
  "state_ok s \<longleftrightarrow> length (st_players s) = ARENA_MAX_PLAYERS \<and> length (st_bombs s) = ARENA_MAX_BOMBS
     \<and> length (st_blasts s) = ARENA_MAX_BLASTS \<and> list_all player_ok (st_players s)
     \<and> list_all bomb_ok (st_bombs s) \<and> list_all (\<lambda>b. vec_ok (bl_center b)) (st_blasts s)"

lemma arena_bytes_length: "state_ok s \<Longrightarrow> length (arena_bytes s) = 944"
  by (simp add: arena_bytes_def state_ok_def arena_sizes le16.enc_length le32.enc_length
    player_codec.concat_length bomb_codec.concat_length blast_codec.concat_length)

lemma arena_bytes_inj:
  assumes "state_ok s" and "state_ok t" and "arena_bytes s = arena_bytes t"
  shows "s = t"
  using assms
  by (intro ArenaState.equality)
    (simp_all add: arena_bytes_def state_ok_def codec player_codec.concat_append_iff
      bomb_codec.concat_append_iff blast_codec.concat_append_iff [where r = "[]" and q = "[]", simplified])

section \<open>Input words round-trip\<close>

lemma stick_clamp_range: "- 31 \<le> stick_clamp v \<and> stick_clamp v \<le> 31"
  by (simp add: stick_clamp_def AIN_STICK_MAX_def)

lemma mask_63: "(63 :: u16) = mask 6"
  by (simp_all add: mask_eq_exp_minus_1)

definition pack_word :: "u16 \<Rightarrow> u16 \<Rightarrow> bool \<Rightarrow> bool \<Rightarrow> bool \<Rightarrow> u16" where
  "pack_word a b j h t = (a AND 63) OR push_bit 6 (b AND 63) OR push_bit 12 (of_bool j)
     OR push_bit 13 (of_bool h) OR push_bit 14 (of_bool t)"

lemma pack_word_bit:
  "n < 16 \<Longrightarrow> bit (pack_word a b j h t) n =
     (if n < 6 then bit a n else if n < 12 then bit b (n - 6) else if n = 12 then j
      else if n = 13 then h else n = 14 \<and> t)"
proof -
  assume "n < 16"
  then consider "n < 12" | "n = 12" | "n = 13" | "n = 14" | "n = 15"
    by fastforce
  then show ?thesis
    by cases (auto simp: pack_word_def mask_63 bit_or_iff bit_and_iff bit_push_bit_iff
      bit_mask_iff bit_of_bool_iff)
qed

lemma stick_bits:
  assumes "- 31 \<le> v" and "v \<le> 31"
  shows "uint (word_of_int (v + 32) AND (63 :: u16)) = v + 32"
proof -
  have "uint (word_of_int (v + 32) :: u16) = v + 32"
    using assms by (simp only: unsigned_of_int) (simp add: take_bit_int_eq_self)
  then have "uint (take_bit 6 (word_of_int (v + 32) :: u16)) = v + 32"
    using assms by (simp only: unsigned_take_bit_eq) (simp add: take_bit_int_eq_self)
  then show ?thesis by (simp only: mask_63 take_bit_eq_mask)
qed

lemma pack_word_fields:
  "pack_word a b j h t AND 63 = a AND 63"
  "drop_bit 6 (pack_word a b j h t) AND 63 = b AND 63"
  by (rule bit_word_eqI, force simp: pack_word_bit mask_63 bit_and_iff bit_mask_iff bit_drop_bit_eq)+

lemma flag_bit: "drop_bit k (w :: u16) AND 1 \<noteq> 0 \<longleftrightarrow> bit w k"
  by (simp add: and_one_eq bit_iff_odd_drop_bit odd_iff_mod_2_eq_one)

lemma arena_input_roundtrip:
  "arena_input_sx (arena_input_pack x y j h t) = stick_clamp x"
  "arena_input_sy (arena_input_pack x y j h t) = stick_clamp y"
  "arena_input_jump (arena_input_pack x y j h t) = j"
  "arena_input_bomb (arena_input_pack x y j h t) = h"
  "arena_input_set (arena_input_pack x y j h t) = t"
proof -
  have w: "arena_input_pack x y j h t =
      pack_word (word_of_int (stick_clamp x + 32)) (word_of_int (stick_clamp y + 32)) j h t"
    by (simp add: arena_input_pack_def pack_word_def Let_def)
  show "arena_input_sx (arena_input_pack x y j h t) = stick_clamp x"
    using stick_bits [of "stick_clamp x"] stick_clamp_range [of x]
    by (simp add: arena_input_sx_def w pack_word_fields)
  show "arena_input_sy (arena_input_pack x y j h t) = stick_clamp y"
    using stick_bits [of "stick_clamp y"] stick_clamp_range [of y]
    by (simp add: arena_input_sy_def w pack_word_fields)
  show "arena_input_jump (arena_input_pack x y j h t) = j"
    "arena_input_bomb (arena_input_pack x y j h t) = h"
    "arena_input_set (arena_input_pack x y j h t) = t"
    by (simp_all add: arena_input_jump_def arena_input_bomb_def arena_input_set_def flag_bit w
      pack_word_bit)
qed

section \<open>The checksum notices every single-byte difference\<close>

definition fnv_step :: "u32 \<Rightarrow> u8 \<Rightarrow> u32" where
  "fnv_step h b = (h XOR ucast b) * 16777619"

lemma fnv_prime_inverse: "(16777619 :: u32) * 899433627 = 1"
  by code_simp

lemma fnv_prime_cancel: "x * 16777619 = y * (16777619 :: u32) \<longleftrightarrow> x = y"
proof
  assume "x * 16777619 = y * 16777619"
  then have "x * (16777619 * 899433627) = y * (16777619 * 899433627)"
    by (simp only: mult.assoc [symmetric])
  then show "x = y" by (simp only: fnv_prime_inverse mult_1_right)
qed simp

lemma xor_cancel_right: "x XOR z = y XOR z \<longleftrightarrow> x = (y :: u32)"
proof
  assume "x XOR z = y XOR z"
  then have "(x XOR z) XOR z = (y XOR z) XOR z" by (rule arg_cong)
  then show "x = y" by (simp only: xor.assoc xor_self_eq xor.right_neutral)
qed simp

lemma ucast_u8_u32_inj: "(ucast b :: u32) = ucast c \<longleftrightarrow> b = (c :: u8)"
proof
  have small: "take_bit 32 (uint x) = uint x" for x :: u8
  proof (rule take_bit_int_eq_self)
    have "uint x < 256" using uint_bounded [of x] by simp
    then show "uint x < 2 ^ 32" by simp
  qed simp
  assume "(ucast b :: u32) = ucast c"
  then have "uint (ucast b :: u32) = uint (ucast c :: u32)" by (rule arg_cong)
  then have "uint b = uint c" by (simp add: unsigned_ucast_eq small)
  then show "b = c" by (simp only: word_uint_eq_iff)
qed simp

lemma fnv_step_inj: "fnv_step h b = fnv_step k b \<longleftrightarrow> h = k" "fnv_step h b = fnv_step h c \<longleftrightarrow> b = c"
proof -
  show "fnv_step h b = fnv_step k b \<longleftrightarrow> h = k"
    by (simp only: fnv_step_def fnv_prime_cancel xor_cancel_right)
  have "h XOR ucast b = h XOR ucast c \<longleftrightarrow> ucast b XOR h = ucast c XOR h"
    by (simp only: xor.commute [of h])
  then show "fnv_step h b = fnv_step h c \<longleftrightarrow> b = c"
    by (simp only: fnv_step_def fnv_prime_cancel xor_cancel_right ucast_u8_u32_inj)
qed

lemma fnv_fold_inj: "foldl fnv_step h bs = foldl fnv_step k bs \<longleftrightarrow> h = k"
  by (induction bs arbitrary: h k) (simp_all add: fnv_step_inj)

lemma fnv1a_steps: "fnv1a bs = foldl fnv_step 2166136261 bs"
  by (simp add: fnv1a_def fnv_step_def [abs_def])

lemma fnv1a_single_byte:
  assumes "i < length bs" and "b \<noteq> bs ! i"
  shows "fnv1a (bs[i := b]) \<noteq> fnv1a bs"
proof -
  let ?h = "foldl fnv_step 2166136261 (take i bs)" and ?r = "drop (Suc i) bs"
  have "fnv1a bs = foldl fnv_step (fnv_step ?h (bs ! i)) ?r"
    using arg_cong [OF id_take_nth_drop [OF assms(1)], of "foldl fnv_step 2166136261"]
    by (simp add: fnv1a_steps)
  moreover have "fnv1a (bs[i := b]) = foldl fnv_step (fnv_step ?h b) ?r"
    using assms(1) by (simp add: fnv1a_steps upd_conv_take_nth_drop)
  ultimately show ?thesis using assms(2) by (simp add: fnv_fold_inj fnv_step_inj(2))
qed

section \<open>Properties\<close>

text \<open>Input words round-trip: what \<open>arena_input_pack\<close> packs, the five accessors read back, the
  sticks clamped to -31..31, the three buttons independently of one another.\<close>

theorem input_words_round_trip:
  "arena_input_sx (arena_input_pack x y j b st) = max (- 31) (min 31 x)
   \<and> arena_input_sy (arena_input_pack x y j b st) = max (- 31) (min 31 y)
   \<and> arena_input_jump (arena_input_pack x y j b st) = j
   \<and> arena_input_bomb (arena_input_pack x y j b st) = b
   \<and> arena_input_set (arena_input_pack x y j b st) = st"
  by (simp add: arena_input_roundtrip stick_clamp_def AIN_STICK_MAX_def)

text \<open>The 944-byte image of the state is lossless: two well-typed states with the same bytes are
  the same state, so a snapshot restores everything and no field escapes the checksum.\<close>

theorem snapshot_is_lossless:
  assumes "state_ok s" and "state_ok t"
  shows "length (arena_bytes s) = 944 \<and> (arena_bytes s = arena_bytes t \<longleftrightarrow> s = t)"
  using arena_bytes_length [OF assms(1)] arena_bytes_inj [OF assms] by blast

lemma state_ok_zero: "state_ok state_zero" "state_ok (state_zero\<lparr>st_round := 1\<rparr>)"
  by (simp_all add: state_ok_def state_zero_def player_ok_def bomb_ok_def vec_ok_def is_i32_def
    player_zero_def bomb_zero_def blast_zero_def vec0_def list_all_iff)

theorem snapshot_is_lossless_witness:
  "arena_bytes state_zero \<noteq> arena_bytes (state_zero\<lparr>st_round := 1\<rparr>)"
  using snapshot_is_lossless [OF state_ok_zero] by (simp add: state_zero_def)

text \<open>The desync checksum notices every difference confined to one byte: if the images of two
  states differ in exactly one byte, their hashes differ.\<close>

theorem hash_detects_one_byte:
  assumes "arena_bytes t = (arena_bytes s)[i := b]" and "i < length (arena_bytes s)"
    and "b \<noteq> arena_bytes s ! i"
  shows "arena_hash t \<noteq> arena_hash s"
  using fnv1a_single_byte [OF assms(2,3)] assms(1) by (simp add: arena_hash_def)

theorem hash_detects_one_byte_witness:
  "arena_hash (state_zero\<lparr>st_round := 1\<rparr>) \<noteq> arena_hash state_zero"
proof -
  have "arena_bytes (state_zero\<lparr>st_round := 1\<rparr>) = (arena_bytes state_zero)[8 := 1]"
    "arena_bytes state_zero ! 8 = 0" "length (arena_bytes state_zero) = 944"
    using arena_bytes_length [OF state_ok_zero(1)]
    by (simp_all add: arena_bytes_def state_zero_def le32_def phase_code_def)
  then show ?thesis by (intro hash_detects_one_byte) auto
qed

end
