(* ===== verification/Arena_Tuning.thy ===== *)
theory Arena_Tuning
  imports Fixed_Math
begin

text \<open>
  \<open>src/src/arena/arena_tuning.h\<close>: every gameplay constant, by the expression the header gives
  it, with its value in the collection \<open>tune_values\<close>.  A constant compared with a tick counter
  has the counter's width.  (The header lets a build override each with a compiler flag; the
  development is about the defaults, which are what a release is built with.)
\<close>

definition TUNE_RUN_SPEED :: q32 where
  "TUNE_RUN_SPEED = Qc 151 1000"

definition TUNE_RUN_ACCEL :: q32 where
  "TUNE_RUN_ACCEL = Qc 126 10000"

definition TUNE_RUN_FRICTION :: q32 where
  "TUNE_RUN_FRICTION = Qc 30 1000"

definition TUNE_JUMP_IMPULSE :: q32 where
  "TUNE_JUMP_IMPULSE = Qc 280 1000"

definition TUNE_GRAVITY :: q32 where
  "TUNE_GRAVITY = Qc 175 10000"

definition TUNE_TERMINAL_VY :: q32 where
  "TUNE_TERMINAL_VY = Qc (- 403) 1000"

definition TUNE_AIR_CONTROL :: q32 where
  "TUNE_AIR_CONTROL = Qc 84 10000"

definition TUNE_PLAYER_RADIUS :: q32 where
  "TUNE_PLAYER_RADIUS = Qc 35 100"

definition TUNE_PLAYER_HEIGHT :: q32 where
  "TUNE_PLAYER_HEIGHT = Qc 10 10"

definition TUNE_TURN_RATE :: int where
  "TUNE_TURN_RATE = 0x0444"

definition TUNE_TURN_SNAP_SPEED :: q32 where
  "TUNE_TURN_SNAP_SPEED = Qc 990 10"

definition TUNE_THROW_SPEED :: q32 where
  "TUNE_THROW_SPEED = Qc 18 100"

definition TUNE_THROW_UP :: q32 where
  "TUNE_THROW_UP = Qc 12 100"

definition TUNE_SPREAD_TICKS :: u16 where
  "TUNE_SPREAD_TICKS = 120"

definition TUNE_SPREAD_SPEED :: q32 where
  "TUNE_SPREAD_SPEED = Qc 95 1000"

definition TUNE_SPREAD_UP :: q32 where
  "TUNE_SPREAD_UP = Qc 55 1000"

definition TUNE_KICK_SPEED :: q32 where
  "TUNE_KICK_SPEED = Qc 165 1000"

definition TUNE_KICK_MIN_VEL :: q32 where
  "TUNE_KICK_MIN_VEL = Qc 2 100"

definition TUNE_BOMB_RADIUS :: q32 where
  "TUNE_BOMB_RADIUS = Qc 30 100"

definition TUNE_BOMB_STAND_GAP :: q32 where
  "TUNE_BOMB_STAND_GAP = Qc 25 100"

definition TUNE_BOMB_RESTITUTION :: q32 where
  "TUNE_BOMB_RESTITUTION = Qc 40 100"

definition TUNE_BOMB_H_DAMP :: q32 where
  "TUNE_BOMB_H_DAMP = Qc 55 100"

definition TUNE_BOMB_GRAVITY :: q32 where
  "TUNE_BOMB_GRAVITY = Qc 168 10000"

definition TUNE_AIRSET_HAND_Y :: q32 where
  "TUNE_AIRSET_HAND_Y = Qc 4167 10000"

definition TUNE_AIRSET_HAND_FWD :: q32 where
  "TUNE_AIRSET_HAND_FWD = Qc 2667 10000"

definition TUNE_SET_PLACE_OFFSET :: q32 where
  "TUNE_SET_PLACE_OFFSET = Qc 25 100"

definition TUNE_AIRSET_ATTACH_TICKS :: u8 where
  "TUNE_AIRSET_ATTACH_TICKS = 8"

definition TUNE_FUSE_TICKS :: u16 where
  "TUNE_FUSE_TICKS = 150"

definition TUNE_MAX_LIVE_BOMBS :: int where
  "TUNE_MAX_LIVE_BOMBS = 6"

definition TUNE_BLAST_RADIUS :: q32 where
  "TUNE_BLAST_RADIUS = Qc 160 100"

definition TUNE_BLAST_TTL :: u8 where
  "TUNE_BLAST_TTL = 20"

definition TUNE_BLAST_GROW_TICKS :: u16 where
  "TUNE_BLAST_GROW_TICKS = 12"

definition TUNE_KNOCKBACK :: q32 where
  "TUNE_KNOCKBACK = Qc 16 100"

definition TUNE_KNOCKBACK_UP :: q32 where
  "TUNE_KNOCKBACK_UP = Qc 10 100"

definition TUNE_INVULN_TICKS :: u16 where
  "TUNE_INVULN_TICKS = 60"

definition TUNE_TUMBLE_TICKS :: u16 where
  "TUNE_TUMBLE_TICKS = 30"

definition TUNE_START_HP :: u8 where
  "TUNE_START_HP = 4"

definition TUNE_ROUND_TICKS :: u16 where
  "TUNE_ROUND_TICKS = 120 * 60"

definition TUNE_COUNTDOWN_TICKS :: u16 where
  "TUNE_COUNTDOWN_TICKS = 3 * 60"

definition TUNE_ROUND_END_TICKS :: u16 where
  "TUNE_ROUND_END_TICKS = 3 * 60"

definition TUNE_ROUNDS_TO_WIN :: u8 where
  "TUNE_ROUNDS_TO_WIN = 3"

definition TUNE_RESPAWN_TICKS :: u16 where
  "TUNE_RESPAWN_TICKS = 120"

definition TUNE_VERSION :: u32 where
  "TUNE_VERSION = 21"

section \<open>Values\<close>

lemmas tune_defs =
  TUNE_RUN_SPEED_def TUNE_RUN_ACCEL_def TUNE_RUN_FRICTION_def
  TUNE_JUMP_IMPULSE_def TUNE_GRAVITY_def TUNE_TERMINAL_VY_def
  TUNE_AIR_CONTROL_def TUNE_PLAYER_RADIUS_def TUNE_PLAYER_HEIGHT_def
  TUNE_TURN_RATE_def TUNE_TURN_SNAP_SPEED_def TUNE_THROW_SPEED_def
  TUNE_THROW_UP_def TUNE_SPREAD_TICKS_def TUNE_SPREAD_SPEED_def
  TUNE_SPREAD_UP_def TUNE_KICK_SPEED_def TUNE_KICK_MIN_VEL_def
  TUNE_BOMB_RADIUS_def TUNE_BOMB_STAND_GAP_def TUNE_BOMB_RESTITUTION_def
  TUNE_BOMB_H_DAMP_def TUNE_BOMB_GRAVITY_def TUNE_AIRSET_HAND_Y_def
  TUNE_AIRSET_HAND_FWD_def TUNE_SET_PLACE_OFFSET_def TUNE_AIRSET_ATTACH_TICKS_def
  TUNE_FUSE_TICKS_def TUNE_MAX_LIVE_BOMBS_def TUNE_BLAST_RADIUS_def
  TUNE_BLAST_TTL_def TUNE_BLAST_GROW_TICKS_def TUNE_KNOCKBACK_def
  TUNE_KNOCKBACK_UP_def TUNE_INVULN_TICKS_def TUNE_TUMBLE_TICKS_def
  TUNE_START_HP_def TUNE_ROUND_TICKS_def TUNE_COUNTDOWN_TICKS_def
  TUNE_ROUND_END_TICKS_def TUNE_ROUNDS_TO_WIN_def TUNE_RESPAWN_TICKS_def
  TUNE_VERSION_def

lemma tune_numbers [tune_values]:
  "TUNE_RUN_SPEED = 618"
  "TUNE_RUN_ACCEL = 51"
  "TUNE_RUN_FRICTION = 122"
  "TUNE_JUMP_IMPULSE = 1146"
  "TUNE_GRAVITY = 71"
  "TUNE_TERMINAL_VY = - 1650"
  "TUNE_AIR_CONTROL = 34"
  "TUNE_PLAYER_RADIUS = 1433"
  "TUNE_PLAYER_HEIGHT = 4096"
  "TUNE_TURN_RATE = 1092"
  "TUNE_TURN_SNAP_SPEED = 405504"
  "TUNE_THROW_SPEED = 737"
  "TUNE_THROW_UP = 491"
  "TUNE_SPREAD_TICKS = 120"
  "TUNE_SPREAD_SPEED = 389"
  "TUNE_SPREAD_UP = 225"
  "TUNE_KICK_SPEED = 675"
  "TUNE_KICK_MIN_VEL = 81"
  "TUNE_BOMB_RADIUS = 1228"
  "TUNE_BOMB_STAND_GAP = 1024"
  "TUNE_BOMB_RESTITUTION = 1638"
  "TUNE_BOMB_H_DAMP = 2252"
  "TUNE_BOMB_GRAVITY = 68"
  "TUNE_AIRSET_HAND_Y = 1706"
  "TUNE_AIRSET_HAND_FWD = 1092"
  "TUNE_SET_PLACE_OFFSET = 1024"
  "TUNE_AIRSET_ATTACH_TICKS = 8"
  "TUNE_FUSE_TICKS = 150"
  "TUNE_MAX_LIVE_BOMBS = 6"
  "TUNE_BLAST_RADIUS = 6553"
  "TUNE_BLAST_TTL = 20"
  "TUNE_BLAST_GROW_TICKS = 12"
  "TUNE_KNOCKBACK = 655"
  "TUNE_KNOCKBACK_UP = 409"
  "TUNE_INVULN_TICKS = 60"
  "TUNE_TUMBLE_TICKS = 30"
  "TUNE_START_HP = 4"
  "TUNE_ROUND_TICKS = 7200"
  "TUNE_COUNTDOWN_TICKS = 180"
  "TUNE_ROUND_END_TICKS = 180"
  "TUNE_ROUNDS_TO_WIN = 3"
  "TUNE_RESPAWN_TICKS = 120"
  "TUNE_VERSION = 21"
  by (simp_all add: tune_defs Qc_def Q_ONE_def tdiv_def)

end
