(* ===== verification/Arena_Geom.thy ===== *)
theory Arena_Geom
  imports Fixed_Math
begin

text \<open>
  \<open>src/src/arena/arena_geom.h\<close>: the static geometry of the two battle maps and the registry
  that \<open>ArenaState.arena_id\<close> indexes.
\<close>

record Aabb =
  bmin :: Vec3q
  bmax :: Vec3q

record ArenaGeom =
  half_x :: q32
  half_z :: q32
  pillars :: "Aabb list"
  spawns :: "Vec3q list"

definition arena_nitros_standin :: ArenaGeom where
  "arena_nitros_standin =
     \<lparr>half_x = Qc 79167 10000, half_z = Qc 79167 10000, pillars = [],
      spawns = [\<lparr>vx = Qc (- 55) 10, vy = 0, vz = Qc (- 55) 10\<rparr>,
                \<lparr>vx = Qc 55 10, vy = 0, vz = Qc 55 10\<rparr>,
                \<lparr>vx = Qc (- 55) 10, vy = 0, vz = Qc 55 10\<rparr>,
                \<lparr>vx = Qc 55 10, vy = 0, vz = Qc (- 55) 10\<rparr>]\<rparr>"

definition classic_pillars :: "Aabb list" where
  "classic_pillars =
     [\<lparr>bmin = \<lparr>vx = Qc (- 25) 10, vy = Qc 0 1, vz = Qc (- 25) 10\<rparr>,
       bmax = \<lparr>vx = Qc (- 15) 10, vy = Qc 15 10, vz = Qc (- 15) 10\<rparr>\<rparr>,
      \<lparr>bmin = \<lparr>vx = Qc 15 10, vy = Qc 0 1, vz = Qc (- 25) 10\<rparr>,
       bmax = \<lparr>vx = Qc 25 10, vy = Qc 15 10, vz = Qc (- 15) 10\<rparr>\<rparr>,
      \<lparr>bmin = \<lparr>vx = Qc (- 25) 10, vy = Qc 0 1, vz = Qc 15 10\<rparr>,
       bmax = \<lparr>vx = Qc (- 15) 10, vy = Qc 15 10, vz = Qc 25 10\<rparr>\<rparr>,
      \<lparr>bmin = \<lparr>vx = Qc 15 10, vy = Qc 0 1, vz = Qc 15 10\<rparr>,
       bmax = \<lparr>vx = Qc 25 10, vy = Qc 15 10, vz = Qc 25 10\<rparr>\<rparr>]"

definition arena_classic :: ArenaGeom where
  "arena_classic =
     \<lparr>half_x = Qc 60 10, half_z = Qc 60 10, pillars = classic_pillars,
      spawns = [\<lparr>vx = Qc (- 45) 10, vy = 0, vz = Qc (- 45) 10\<rparr>,
                \<lparr>vx = Qc 45 10, vy = 0, vz = Qc 45 10\<rparr>,
                \<lparr>vx = Qc (- 45) 10, vy = 0, vz = Qc 45 10\<rparr>,
                \<lparr>vx = Qc 45 10, vy = 0, vz = Qc (- 45) 10\<rparr>]\<rparr>"

definition arena_geoms :: "ArenaGeom list" where
  "arena_geoms = [arena_nitros_standin, arena_classic]"

definition ARENA_GEOM_COUNT :: nat where
  "ARENA_GEOM_COUNT = length arena_geoms"

section \<open>Values\<close>

lemma arena_geom_count: "ARENA_GEOM_COUNT = 2"
  by (simp add: ARENA_GEOM_COUNT_def arena_geoms_def)

lemma nitros_values [simp]:
  "half_x arena_nitros_standin = 32426" "half_z arena_nitros_standin = 32426"
  "pillars arena_nitros_standin = []"
  "spawns arena_nitros_standin =
     [\<lparr>vx = - 22528, vy = 0, vz = - 22528\<rparr>, \<lparr>vx = 22528, vy = 0, vz = 22528\<rparr>,
      \<lparr>vx = - 22528, vy = 0, vz = 22528\<rparr>, \<lparr>vx = 22528, vy = 0, vz = - 22528\<rparr>]"
  by (simp_all add: arena_nitros_standin_def Qc_def Q_ONE_def tdiv_def)

lemma classic_values [simp]:
  "half_x arena_classic = 24576" "half_z arena_classic = 24576"
  "pillars arena_classic = classic_pillars" "length classic_pillars = 4"
  "spawns arena_classic =
     [\<lparr>vx = - 18432, vy = 0, vz = - 18432\<rparr>, \<lparr>vx = 18432, vy = 0, vz = 18432\<rparr>,
      \<lparr>vx = - 18432, vy = 0, vz = 18432\<rparr>, \<lparr>vx = 18432, vy = 0, vz = - 18432\<rparr>]"
  by (simp_all add: arena_classic_def classic_pillars_def Qc_def Q_ONE_def tdiv_def)

lemma arena_geoms_cases:
  "i < 2 \<Longrightarrow> arena_geoms ! i = arena_nitros_standin \<or> arena_geoms ! i = arena_classic"
  by (auto simp: arena_geoms_def less_Suc_eq numeral_2_eq_2)

end
