(* ===== verification/Sim_Core.thy ===== *)
theory Sim_Core
  imports Arena_State Arena_Tuning Arena_Geom
begin

text \<open>
  The first part of \<open>src/src/arena/arena_sim.c\<close>: match and round initialisation, the collision
  helpers, the free-slot scans of the bomb and blast pools, \<open>detonate\<close> and \<open>throw_bomb\<close>.
\<close>

section \<open>Initialisation\<close>

definition geom_of :: "ArenaState \<Rightarrow> ArenaGeom" where
  "geom_of s = arena_geoms ! unat (st_arena_id s)"

text \<open>\<open>p->yaw = (uint16_t)(iatan2(-p->pos.x, -p->pos.z))\<close>, at reset and at respawn.\<close>

definition spawn_yaw :: "Vec3q \<Rightarrow> u16" where
  "spawn_yaw pos = iatan2 (i32 (- vx pos)) (i32 (- vz pos))"

definition reset_player :: "ArenaGeom \<Rightarrow> u8 \<Rightarrow> nat \<Rightarrow> ArenaPlayer \<Rightarrow> ArenaPlayer" where
  "reset_player g n i p =
     (let q = player_zero\<lparr>pl_stocks_won := pl_stocks_won p\<rparr> in
      if i < unat n
      then q\<lparr>pl_pos := spawns g ! i, pl_hp := TUNE_START_HP, pl_state := PSTATE_IDLE,
             pl_yaw := spawn_yaw (spawns g ! i)\<rparr>
      else q\<lparr>pl_state := PSTATE_DEAD\<rparr>)"

definition round_reset :: "ArenaState \<Rightarrow> ArenaState" where
  "round_reset s =
     s\<lparr>st_players := map (\<lambda>i. reset_player (geom_of s) (st_num_players s) i (player s i))
                        [0..<ARENA_MAX_PLAYERS],
       st_bombs := replicate ARENA_MAX_BOMBS bomb_zero,
       st_blasts := replicate ARENA_MAX_BLASTS blast_zero,
       st_shrink_step := 0\<rparr>"

definition arena_init :: "u8 \<Rightarrow> u8 \<Rightarrow> u32 \<Rightarrow> ArenaState" where
  "arena_init arena_id num_players seed =
     round_reset (state_zero\<lparr>st_arena_id := arena_id, st_num_players := num_players,
       st_rng := (if seed \<noteq> 0 then seed else 1), st_phase := PHASE_COUNTDOWN,
       st_phase_timer := TUNE_COUNTDOWN_TICKS\<rparr>)"

section \<open>Collision\<close>

definition on_ground :: "ArenaPlayer \<Rightarrow> bool" where
  "on_ground p \<longleftrightarrow> vy (pl_pos p) \<le> 0 \<and> vy (pl_vel p) \<le> 0"

definition pushout_aabb :: "q32 \<Rightarrow> Aabb \<Rightarrow> Vec3q \<Rightarrow> Vec3q" where
  "pushout_aabb r b pos =
     (if vy pos \<ge> vy (bmax b) \<or> i32 (vy pos + TUNE_PLAYER_HEIGHT) \<le> vy (bmin b) then pos
      else
        let nx = qclamp (vx pos) (vx (bmin b)) (vx (bmax b));
            nz = qclamp (vz pos) (vz (bmin b)) (vz (bmax b));
            dx = i32 (vx pos - nx); dz = i32 (vz pos - nz);
            d = qlen2 dx dz
        in if d \<ge> r then pos
           else if d > 0 then
             let push = i32 (r - d)
             in pos\<lparr>vx := i32 (vx pos + qmul (qdiv dx d) push),
                    vz := i32 (vz pos + qmul (qdiv dz d) push)\<rparr>
           else
             let lx = i32 (vx pos - vx (bmin b)); rx = i32 (vx (bmax b) - vx pos);
                 lz = i32 (vz pos - vz (bmin b)); rz = i32 (vz (bmax b) - vz pos);
                 mx = qmin lx rx; mz = qmin lz rz
             in if mx \<le> mz
                then pos\<lparr>vx := i32 (vx pos + (if lx < rx then i32 (- i32 (lx + r)) else i32 (rx + r)))\<rparr>
                else pos\<lparr>vz := i32 (vz pos + (if lz < rz then i32 (- i32 (lz + r)) else i32 (rz + r)))\<rparr>)"

text \<open>The floor and the four walls, each a clamp of one coordinate that also stops the velocity.\<close>

definition clamp_floor :: "Vec3q \<times> Vec3q \<Rightarrow> Vec3q \<times> Vec3q" where
  "clamp_floor = (\<lambda>(pos, vel).
     if vy pos < 0 then (pos\<lparr>vy := 0\<rparr>, if vy vel < 0 then vel\<lparr>vy := 0\<rparr> else vel)
     else (pos, vel))"

definition clamp_x :: "q32 \<Rightarrow> Vec3q \<times> Vec3q \<Rightarrow> Vec3q \<times> Vec3q" where
  "clamp_x lx = (\<lambda>(pos, vel).
     let (pos, vel) =
           (if vx pos < i32 (- lx)
            then (pos\<lparr>vx := i32 (- lx)\<rparr>, if vx vel < 0 then vel\<lparr>vx := 0\<rparr> else vel) else (pos, vel))
     in if vx pos > lx then (pos\<lparr>vx := lx\<rparr>, if vx vel > 0 then vel\<lparr>vx := 0\<rparr> else vel)
        else (pos, vel))"

definition clamp_z :: "q32 \<Rightarrow> Vec3q \<times> Vec3q \<Rightarrow> Vec3q \<times> Vec3q" where
  "clamp_z lz = (\<lambda>(pos, vel).
     let (pos, vel) =
           (if vz pos < i32 (- lz)
            then (pos\<lparr>vz := i32 (- lz)\<rparr>, if vz vel < 0 then vel\<lparr>vz := 0\<rparr> else vel) else (pos, vel))
     in if vz pos > lz then (pos\<lparr>vz := lz\<rparr>, if vz vel > 0 then vel\<lparr>vz := 0\<rparr> else vel)
        else (pos, vel))"

definition collide_static ::
  "q32 \<Rightarrow> ArenaGeom \<Rightarrow> q32 \<Rightarrow> q32 \<Rightarrow> Vec3q \<times> Vec3q \<Rightarrow> Vec3q \<times> Vec3q" where
  "collide_static radius g wall_x wall_z pv =
     (let (pos, vel) = clamp_z (i32 (wall_z - radius)) (clamp_x (i32 (wall_x - radius)) (clamp_floor pv))
      in (fold (pushout_aabb radius) (pillars g) pos, vel))"

section \<open>The bomb and blast pools\<close>

definition find_free_bomb :: "ArenaState \<Rightarrow> nat option" where
  "find_free_bomb s = find_index (\<lambda>b. bm_state b = BSTATE_FREE) (st_bombs s)"

definition find_free_blast :: "ArenaState \<Rightarrow> nat option" where
  "find_free_blast s = find_index (\<lambda>b. bl_ttl b = 0) (st_blasts s)"

definition spawn_blast :: "ArenaBomb \<Rightarrow> ArenaState \<Rightarrow> ArenaState" where
  "spawn_blast b s = (case find_free_blast s of
       None \<Rightarrow> s
     | Some sl \<Rightarrow> set_blast sl (blast s sl\<lparr>bl_center := bm_pos b, bl_radius_t := 0,
                    bl_owner := bm_owner b, bl_ttl := TUNE_BLAST_TTL\<rparr>) s)"

definition release_live :: "nat \<Rightarrow> ArenaState \<Rightarrow> ArenaState" where
  "release_live o' s = (let p = player s o' in
     if pl_live_bombs p > 0 then set_player o' (p\<lparr>pl_live_bombs := pl_live_bombs p - 1\<rparr>) s else s)"

definition detonate :: "nat \<Rightarrow> ArenaState \<Rightarrow> ArenaState" where
  "detonate bi s = (let b = bomb s bi; s = release_live (unat (bm_owner b)) (spawn_blast b s)
     in set_bomb bi (b\<lparr>bm_state := BSTATE_FREE\<rparr>) s)"

definition throw_bomb :: "ArenaPlayer \<Rightarrow> u16 \<Rightarrow> q32 \<Rightarrow> q32 \<Rightarrow> ArenaBomb \<Rightarrow> ArenaBomb" where
  "throw_bomb p dir fwd up b =
     b\<lparr>bm_pos := (pl_pos p)\<lparr>vy := i32 (vy (pl_pos p) + TUNE_PLAYER_HEIGHT)\<rparr>,
       bm_vel := \<lparr>vx = qmul (qsin dir) fwd, vy = up, vz = i32 (- qmul (qcos dir) fwd)\<rparr>,
       bm_state := BSTATE_AIRBORNE, bm_bounced := 0\<rparr>"

interpretation bomb_pool: first_fit "\<lambda>b. bm_state b = BSTATE_FREE" "find_index (\<lambda>b. bm_state b = BSTATE_FREE)"
  by (rule find_index_first_fit)

interpretation blast_pool: first_fit "\<lambda>b. bl_ttl b = 0" "find_index (\<lambda>b. bl_ttl b = 0)"
  by (rule find_index_first_fit)

end
