(* ===== verification/Sim_Player.thy ===== *)
theory Sim_Player
  imports Sim_Core
begin

text \<open>
  \<open>player_tick\<close> of \<open>src/src/arena/arena_sim.c\<close>, one definition per block of the C function, in
  the order of the code: respawn of a dead player, turning, acceleration, jump, grabbing and
  throwing bombs, setting bombs, integration, state upkeep.
\<close>

definition gameplay :: "ArenaState \<Rightarrow> bool" where
  "gameplay s \<longleftrightarrow> st_phase s = PHASE_PLAY \<or> st_phase s = PHASE_SUDDEN_DEATH"

section \<open>A dead player\<close>

definition respawn_player :: "Vec3q \<Rightarrow> ArenaPlayer \<Rightarrow> ArenaPlayer" where
  "respawn_player spawn p =
     p\<lparr>pl_pos := spawn, pl_vel := vec0, pl_hp := TUNE_START_HP, pl_state := PSTATE_IDLE,
       pl_yaw := spawn_yaw spawn, pl_held_bomb := 0, pl_timer := TUNE_INVULN_TICKS\<rparr>"

definition dead_tick :: "bool \<Rightarrow> ArenaGeom \<Rightarrow> nat \<Rightarrow> ArenaInput \<Rightarrow> ArenaPlayer \<Rightarrow> ArenaPlayer" where
  "dead_tick gp g pi inp p =
     (let p = p\<lparr>pl_last_input := inp\<rparr> in
      if gp \<and> TUNE_RESPAWN_TICKS > 0 then
        let p = (if pl_timer p > 0 then p\<lparr>pl_timer := pl_timer p - 1\<rparr> else p)
        in if pl_timer p = 0 then respawn_player (spawns g ! pi) p else p
      else p)"

section \<open>Turning and running\<close>

definition turn_toward :: "u16 \<Rightarrow> ArenaPlayer \<Rightarrow> ArenaPlayer" where
  "turn_toward target p =
     (if qlen2 (vx (pl_vel p)) (vz (pl_vel p)) \<le> TUNE_TURN_SNAP_SPEED then p\<lparr>pl_yaw := target\<rparr>
      else
        let delta = sint (target - pl_yaw p); step = TUNE_TURN_RATE;
            delta = (if delta > step then step else delta);
            delta = (if delta < - step then - step else delta)
        in p\<lparr>pl_yaw := pl_yaw p + word_of_int delta\<rparr>)"

definition stick_magnitude :: "int \<Rightarrow> int \<Rightarrow> q32" where
  "stick_magnitude ix iy =
     (let mag = qlen2 (tdiv (ix * Q_ONE) AIN_STICK_MAX) (tdiv (iy * Q_ONE) AIN_STICK_MAX)
      in if mag > Q_ONE then Q_ONE else mag)"

definition steer :: "bool \<Rightarrow> ArenaInput \<Rightarrow> ArenaPlayer \<Rightarrow> ArenaPlayer \<times> q32" where
  "steer gp inp p =
     (if gp \<and> pl_state p \<noteq> PSTATE_TUMBLE then
        let ix = arena_input_sx inp; iy = arena_input_sy inp; mag = stick_magnitude ix iy
        in if mag > Qc 10 100
           then (turn_toward (iatan2 (ix * Q_ONE) (- iy * Q_ONE)) p, qmul TUNE_RUN_SPEED mag)
           else (p, 0)
      else (p, 0))"

definition accelerate :: "q32 \<Rightarrow> ArenaPlayer \<Rightarrow> ArenaPlayer" where
  "accelerate target_speed p =
     (let acc = (if on_ground p then TUNE_RUN_ACCEL else TUNE_AIR_CONTROL);
          acc = (if target_speed = 0 \<and> on_ground p \<and> pl_state p \<noteq> PSTATE_TUMBLE
                 then TUNE_RUN_FRICTION else acc)
      in if pl_state p \<noteq> PSTATE_TUMBLE then
           let speed = qlen2 (vx (pl_vel p)) (vz (pl_vel p));
               speed = i32 (speed + qclamp (i32 (target_speed - speed)) (- acc) acc)
           in p\<lparr>pl_vel := (pl_vel p)\<lparr>vx := qmul (qsin (pl_yaw p)) speed,
                                     vz := i32 (- qmul (qcos (pl_yaw p)) speed)\<rparr>\<rparr>
         else p)"

section \<open>Jumping\<close>

definition winding_up :: "ArenaPlayer \<Rightarrow> bool" where
  "winding_up p \<longleftrightarrow> pl_held_bomb p \<noteq> 0 \<and> pl_timer p \<ge> TUNE_SPREAD_TICKS"

definition jump :: "bool \<Rightarrow> ArenaInput \<Rightarrow> ArenaInput \<Rightarrow> ArenaPlayer \<Rightarrow> ArenaPlayer" where
  "jump gp inp prev p =
     (if gp \<and> pl_state p \<noteq> PSTATE_TUMBLE \<and> on_ground p \<and> arena_input_jump inp
         \<and> \<not> arena_input_jump prev \<and> \<not> winding_up p
      then p\<lparr>pl_vel := (pl_vel p)\<lparr>vy := TUNE_JUMP_IMPULSE\<rparr>, pl_state := PSTATE_JUMP\<rparr>
      else p)"

section \<open>Grabbing, holding and throwing\<close>

definition fan :: "int list list" where
  "fan = [[0, 0, 0, 0], [- 0x071C, 0x071C, 0, 0], [0, - 0xE38, 0xE38, 0],
          [- 0x071C, 0x071C, - 0x1555, 0x1555]]"

definition may_take_bomb :: "ArenaPlayer \<Rightarrow> bool" where
  "may_take_bomb p \<longleftrightarrow> pl_held_bomb p = 0 \<and> uint (pl_live_bombs p) < TUNE_MAX_LIVE_BOMBS"

definition grab :: "nat \<Rightarrow> ArenaState \<Rightarrow> ArenaState" where
  "grab pi s = (case find_free_bomb s of
       None \<Rightarrow> s
     | Some bi \<Rightarrow>
         let p = player s pi in
         set_player pi (p\<lparr>pl_held_bomb := of_nat (bi + 1), pl_live_bombs := pl_live_bombs p + 1,
                           pl_timer := 0\<rparr>)
           (set_bomb bi (bomb_zero\<lparr>bm_owner := of_nat pi, bm_state := BSTATE_HELD\<rparr>) s))"

definition hold :: "nat \<Rightarrow> ArenaState \<Rightarrow> ArenaState" where
  "hold pi s = (let p = player s pi in
     if pl_timer p < 0xFFFF then set_player pi (p\<lparr>pl_timer := pl_timer p + 1\<rparr>) s else s)"

definition spread_extras :: "ArenaState \<Rightarrow> ArenaPlayer \<Rightarrow> int" where
  "spread_extras s p =
     (let free_slots = int (length (filter (\<lambda>b. bm_state b = BSTATE_FREE) (st_bombs s)));
          extras = TUNE_MAX_LIVE_BOMBS - uint (pl_live_bombs p);
          extras = (if extras > free_slots then free_slots else extras);
          extras = (if extras > 3 then 3 else extras)
      in if extras < 0 then 0 else extras)"

fun throw_extras :: "nat \<Rightarrow> int list \<Rightarrow> ArenaState \<Rightarrow> ArenaState" where
  "throw_extras pi [] s = s"
| "throw_extras pi (angle # angles) s = (case find_free_bomb s of
       None \<Rightarrow> s
     | Some bi \<Rightarrow>
         let p = player s pi; p = p\<lparr>pl_live_bombs := pl_live_bombs p + 1\<rparr>;
             nb = throw_bomb p (pl_yaw p + word_of_int angle) TUNE_SPREAD_SPEED TUNE_SPREAD_UP
                    (bomb_zero\<lparr>bm_owner := of_nat pi\<rparr>)
         in throw_extras pi angles (set_player pi p (set_bomb bi nb s)))"

definition throw_spread :: "nat \<Rightarrow> nat \<Rightarrow> ArenaState \<Rightarrow> ArenaState" where
  "throw_spread pi hi s =
     (let p = player s pi; extras = nat (spread_extras s p); row = fan ! extras;
          s = set_bomb hi (throw_bomb p (pl_yaw p + word_of_int (row ! 0)) TUNE_SPREAD_SPEED
                TUNE_SPREAD_UP (bomb s hi)) s
      in throw_extras pi (take extras (drop 1 row)) s)"

definition throw_single :: "nat \<Rightarrow> nat \<Rightarrow> ArenaState \<Rightarrow> ArenaState" where
  "throw_single pi hi s =
     (let p = player s pi
      in set_bomb hi (throw_bomb p (pl_yaw p) TUNE_THROW_SPEED TUNE_THROW_UP (bomb s hi)) s)"

definition empty_hands :: "nat \<Rightarrow> ArenaState \<Rightarrow> ArenaState" where
  "empty_hands pi s = set_player pi (player s pi\<lparr>pl_held_bomb := 0, pl_timer := 0\<rparr>) s"

definition release :: "nat \<Rightarrow> ArenaState \<Rightarrow> ArenaState" where
  "release pi s =
     (let p = player s pi; hi = unat (pl_held_bomb p - 1)
      in empty_hands pi (if pl_timer p < TUNE_SPREAD_TICKS then throw_single pi hi s
                         else throw_spread pi hi s))"

definition bomb_button :: "ArenaInput \<Rightarrow> ArenaInput \<Rightarrow> nat \<Rightarrow> ArenaState \<Rightarrow> ArenaState" where
  "bomb_button inp prev pi s =
     (let p = player s pi; bomb_now = arena_input_bomb inp; bomb_prev = arena_input_bomb prev in
      if gameplay s \<and> pl_state p \<noteq> PSTATE_TUMBLE then
        if bomb_now \<and> \<not> bomb_prev \<and> may_take_bomb p then grab pi s
        else if bomb_now \<and> pl_held_bomb p \<noteq> 0 then hold pi s
        else if \<not> bomb_now \<and> bomb_prev \<and> pl_held_bomb p \<noteq> 0 then release pi s
        else s
      else s)"

section \<open>Setting\<close>

definition ahead :: "Vec3q \<Rightarrow> u16 \<Rightarrow> q32 \<Rightarrow> Vec3q" where
  "ahead pos yaw d = pos\<lparr>vx := i32 (vx pos + qmul (qsin yaw) d),
                         vz := i32 (vz pos + i32 (- qmul (qcos yaw) d))\<rparr>"

definition clamp_bomb_pos :: "q32 \<Rightarrow> q32 \<Rightarrow> Vec3q \<Rightarrow> Vec3q" where
  "clamp_bomb_pos wall_x wall_z pos =
     (let bx = i32 (wall_x - TUNE_BOMB_RADIUS); bz = i32 (wall_z - TUNE_BOMB_RADIUS)
      in pos\<lparr>vx := qclamp (vx pos) (i32 (- bx)) bx, vz := qclamp (vz pos) (i32 (- bz)) bz\<rparr>)"

definition laid_bomb :: "q32 \<Rightarrow> q32 \<Rightarrow> nat \<Rightarrow> ArenaPlayer \<Rightarrow> ArenaBomb" where
  "laid_bomb wall_x wall_z pi p =
     (let b = bomb_zero\<lparr>bm_owner := of_nat pi, bm_fuse := TUNE_FUSE_TICKS\<rparr>;
          b = (if vy (pl_pos p) > 0 then
                 let pos = ahead (pl_pos p) (pl_yaw p) TUNE_AIRSET_HAND_FWD
                 in b\<lparr>bm_state := BSTATE_FALLING,
                      bm_pos := pos\<lparr>vy := i32 (vy pos + TUNE_AIRSET_HAND_Y)\<rparr>,
                      bm_attach := TUNE_AIRSET_ATTACH_TICKS\<rparr>
               else
                 b\<lparr>bm_state := BSTATE_SETTLED,
                   bm_pos := (ahead (pl_pos p) (pl_yaw p) TUNE_SET_PLACE_OFFSET)\<lparr>vy := 0\<rparr>\<rparr>)
      in b\<lparr>bm_pos := clamp_bomb_pos wall_x wall_z (bm_pos b), bm_bounced := of_nat (pi + 1)\<rparr>)"

definition set_button ::
  "q32 \<Rightarrow> q32 \<Rightarrow> ArenaInput \<Rightarrow> ArenaInput \<Rightarrow> nat \<Rightarrow> ArenaState \<Rightarrow> ArenaState" where
  "set_button wall_x wall_z inp prev pi s =
     (let p = player s pi in
      if gameplay s \<and> pl_state p \<noteq> PSTATE_TUMBLE \<and> may_take_bomb p
         \<and> arena_input_set inp \<and> \<not> arena_input_set prev
      then (case find_free_bomb s of
              None \<Rightarrow> s
            | Some bi \<Rightarrow> set_player pi (p\<lparr>pl_live_bombs := pl_live_bombs p + 1\<rparr>)
                           (set_bomb bi (laid_bomb wall_x wall_z pi p) s))
      else s)"

section \<open>Integration and upkeep\<close>

definition move_player :: "ArenaGeom \<Rightarrow> q32 \<Rightarrow> q32 \<Rightarrow> ArenaPlayer \<Rightarrow> ArenaPlayer" where
  "move_player g wall_x wall_z p =
     (let vel = pl_vel p; v = i32 (vy vel - TUNE_GRAVITY);
          vel = vel\<lparr>vy := (if v < TUNE_TERMINAL_VY then TUNE_TERMINAL_VY else v)\<rparr>;
          pos = pl_pos p;
          pos = \<lparr>vx = i32 (vx pos + vx vel), vy = i32 (vy pos + vy vel), vz = i32 (vz pos + vz vel)\<rparr>;
          (pos, vel) = collide_static TUNE_PLAYER_RADIUS g wall_x wall_z (pos, vel)
      in p\<lparr>pl_pos := pos, pl_vel := vel\<rparr>)"

definition skid :: "ArenaPlayer \<Rightarrow> ArenaPlayer" where
  "skid p =
     (if on_ground p then
        let sp = qlen2 (vx (pl_vel p)) (vz (pl_vel p)) in
        if sp > 0 then
          let ns = i32 (sp - TUNE_RUN_FRICTION); ns = (if ns < 0 then 0 else ns)
          in p\<lparr>pl_vel := (pl_vel p)\<lparr>vx := qmul (qdiv (vx (pl_vel p)) sp) ns,
                                    vz := qmul (qdiv (vz (pl_vel p)) sp) ns\<rparr>\<rparr>
        else p
      else p)"

definition tumble_upkeep :: "ArenaPlayer \<Rightarrow> ArenaPlayer" where
  "tumble_upkeep p =
     (let p = (if pl_timer p > 0 then p\<lparr>pl_timer := pl_timer p - 1\<rparr> else p); p = skid p
      in if pl_timer p \<le> TUNE_INVULN_TICKS \<and> on_ground p
         then p\<lparr>pl_state := PSTATE_IDLE, pl_vel := (pl_vel p)\<lparr>vx := 0, vz := 0\<rparr>\<rparr>
         else p)"

definition ground_upkeep :: "ArenaPlayer \<Rightarrow> ArenaPlayer" where
  "ground_upkeep p =
     (let p = p\<lparr>pl_state := (if qlen2 (vx (pl_vel p)) (vz (pl_vel p)) > Qc 1 100
                             then PSTATE_RUN else PSTATE_IDLE)\<rparr>
      in if pl_timer p > 0 \<and> pl_held_bomb p = 0 then p\<lparr>pl_timer := pl_timer p - 1\<rparr> else p)"

definition upkeep :: "ArenaPlayer \<Rightarrow> ArenaPlayer" where
  "upkeep p =
     (if pl_state p = PSTATE_TUMBLE then tumble_upkeep p
      else if pl_state p = PSTATE_JUMP \<and> on_ground p then p\<lparr>pl_state := PSTATE_IDLE\<rparr>
      else if pl_state p = PSTATE_IDLE \<or> pl_state p = PSTATE_RUN then ground_upkeep p
      else p)"

section \<open>The whole player tick\<close>

definition locomotion :: "bool \<Rightarrow> ArenaInput \<Rightarrow> ArenaPlayer \<Rightarrow> ArenaPlayer" where
  "locomotion gp inp p =
     (let (q, target_speed) = steer gp inp p
      in jump gp inp (pl_last_input p) (accelerate target_speed q))"

definition finish_player :: "ArenaGeom \<Rightarrow> q32 \<Rightarrow> q32 \<Rightarrow> ArenaInput \<Rightarrow> ArenaPlayer \<Rightarrow> ArenaPlayer" where
  "finish_player g wall_x wall_z inp p = (upkeep (move_player g wall_x wall_z p))\<lparr>pl_last_input := inp\<rparr>"

definition live_tick ::
  "ArenaGeom \<Rightarrow> q32 \<Rightarrow> q32 \<Rightarrow> nat \<Rightarrow> ArenaInput \<Rightarrow> ArenaState \<Rightarrow> ArenaState" where
  "live_tick g wall_x wall_z pi inp s =
     (let prev = pl_last_input (player s pi);
          s = set_player pi (locomotion (gameplay s) inp (player s pi)) s;
          s = bomb_button inp prev pi s;
          s = set_button wall_x wall_z inp prev pi s
      in set_player pi (finish_player g wall_x wall_z inp (player s pi)) s)"

definition player_tick ::
  "ArenaGeom \<Rightarrow> q32 \<Rightarrow> q32 \<Rightarrow> nat \<Rightarrow> ArenaInput \<Rightarrow> ArenaState \<Rightarrow> ArenaState" where
  "player_tick g wall_x wall_z pi inp s =
     (let p = player s pi in
      if pl_state p = PSTATE_DEAD then set_player pi (dead_tick (gameplay s) g pi inp p) s
      else live_tick g wall_x wall_z pi inp s)"

end
