(* ===== verification/Sim_Bombs.thy ===== *)
theory Sim_Bombs
  imports Sim_Core
begin

text \<open>
  The third and fourth phase of \<open>arena_tick\<close> in \<open>src/src/arena/arena_sim.c\<close>: players push one
  another apart, then every bomb takes the step of its state.  A C loop that only looks for a
  reason to \<open>break\<close> is an existential over the indices it visits; a loop that also updates the
  bomb is a recursion over them.
\<close>

section \<open>Player against player\<close>

definition separate :: "ArenaPlayer \<Rightarrow> ArenaPlayer \<Rightarrow> ArenaPlayer \<times> ArenaPlayer" where
  "separate pa pb =
     (if pl_state pa = PSTATE_DEAD \<or> pl_state pb = PSTATE_DEAD then (pa, pb)
      else
        let dx = i32 (vx (pl_pos pb) - vx (pl_pos pa)); dz = i32 (vz (pl_pos pb) - vz (pl_pos pa));
            d = qlen2 dx dz; min_d = i32 (2 * TUNE_PLAYER_RADIUS)
        in if d \<ge> min_d then (pa, pb)
           else
             let push = tdiv (i32 (min_d - d)) 2;
                 (ux, uz) = (if d > 0 then (qdiv dx d, qdiv dz d) else (Q_ONE, 0))
             in (pa\<lparr>pl_pos := (pl_pos pa)\<lparr>vx := i32 (vx (pl_pos pa) - qmul ux push),
                                          vz := i32 (vz (pl_pos pa) - qmul uz push)\<rparr>\<rparr>,
                 pb\<lparr>pl_pos := (pl_pos pb)\<lparr>vx := i32 (vx (pl_pos pb) + qmul ux push),
                                          vz := i32 (vz (pl_pos pb) + qmul uz push)\<rparr>\<rparr>))"

definition separate_pair :: "nat \<times> nat \<Rightarrow> ArenaState \<Rightarrow> ArenaState" where
  "separate_pair = (\<lambda>(a, b) s.
     let (pa, pb) = separate (player s a) (player s b) in set_player b pb (set_player a pa s))"

definition player_pairs :: "(nat \<times> nat) list" where
  "player_pairs = [(a, b). a \<leftarrow> [0..<ARENA_MAX_PLAYERS], b \<leftarrow> [a + 1..<ARENA_MAX_PLAYERS]]"

definition separate_players :: "ArenaState \<Rightarrow> ArenaState" where
  "separate_players = fold separate_pair player_pairs"

section \<open>Held and thrown bombs\<close>

definition bomb_held :: "ArenaState \<Rightarrow> ArenaBomb \<Rightarrow> ArenaBomb" where
  "bomb_held s b = (let pos = pl_pos (player s (unat (bm_owner b)))
     in b\<lparr>bm_pos := pos\<lparr>vy := i32 (vy pos + TUNE_PLAYER_HEIGHT)\<rparr>\<rparr>)"

definition vec_diff :: "Vec3q \<Rightarrow> Vec3q \<Rightarrow> Vec3q" where
  "vec_diff a b = \<lparr>vx = i32 (vx a - vx b), vy = i32 (vy a - vy b), vz = i32 (vz a - vz b)\<rparr>"

definition player_center :: "ArenaPlayer \<Rightarrow> Vec3q" where
  "player_center p = (pl_pos p)\<lparr>vy := i32 (vy (pl_pos p) + tdiv TUNE_PLAYER_HEIGHT 2)\<rparr>"

definition fly :: "ArenaBomb \<Rightarrow> ArenaBomb" where
  "fly b = (let vel = (bm_vel b)\<lparr>vy := i32 (vy (bm_vel b) - TUNE_GRAVITY)\<rparr>; pos = bm_pos b
     in b\<lparr>bm_vel := vel,
          bm_pos := \<lparr>vx = i32 (vx pos + vx vel), vy = i32 (vy pos + vy vel), vz = i32 (vz pos + vz vel)\<rparr>\<rparr>)"

definition hits_player :: "ArenaBomb \<Rightarrow> nat \<Rightarrow> ArenaPlayer \<Rightarrow> bool" where
  "hits_player b pi p \<longleftrightarrow>
     \<not> (pi = unat (bm_owner b) \<and> bm_bounced b = 0) \<and> pl_state p \<noteq> PSTATE_DEAD
     \<and> qlen3 (vec_diff (bm_pos b) (player_center p)) < i32 (TUNE_PLAYER_RADIUS + TUNE_BOMB_RADIUS)"

definition ground_bomb :: "ArenaBomb \<Rightarrow> bool" where
  "ground_bomb b \<longleftrightarrow> bm_state b = BSTATE_SETTLED \<or> bm_state b = BSTATE_SLIDING"

definition hits_ground_bomb :: "nat \<Rightarrow> ArenaState \<Rightarrow> ArenaBomb \<Rightarrow> bool" where
  "hits_ground_bomb i s b \<longleftrightarrow>
     list_ex (\<lambda>bj. bj \<noteq> i \<and> ground_bomb (bomb s bj)
                \<and> qlen3 (vec_diff (bm_pos b) (bm_pos (bomb s bj))) < i32 (2 * TUNE_BOMB_RADIUS))
       [0..<ARENA_MAX_BOMBS]"

definition bomb_collide :: "ArenaGeom \<Rightarrow> q32 \<Rightarrow> q32 \<Rightarrow> ArenaBomb \<Rightarrow> ArenaBomb" where
  "bomb_collide g wall_x wall_z b =
     (let (pos, vel) = collide_static TUNE_BOMB_RADIUS g wall_x wall_z (bm_pos b, bm_vel b)
      in b\<lparr>bm_pos := pos, bm_vel := vel\<rparr>)"

definition bomb_airborne ::
  "ArenaGeom \<Rightarrow> q32 \<Rightarrow> q32 \<Rightarrow> nat \<Rightarrow> ArenaState \<Rightarrow> ArenaBomb \<Rightarrow> ArenaBomb" where
  "bomb_airborne g wall_x wall_z i s b0 =
     (let b = fly b0 in
      if list_ex (\<lambda>pi. hits_player b pi (player s pi)) [0..<unat (st_num_players s)]
      then b\<lparr>bm_state := BSTATE_EXPLODING\<rparr>
      else if hits_ground_bomb i s b then b\<lparr>bm_state := BSTATE_EXPLODING\<rparr>
      else
        let c = bomb_collide g wall_x wall_z b in
        if bm_pos c \<noteq> bm_pos b \<or> bm_vel c \<noteq> bm_vel b then c\<lparr>bm_state := BSTATE_EXPLODING\<rparr>
        else if vy (bm_pos c) \<le> 0 \<and> vy (bm_vel c) < 0
        then c\<lparr>bm_pos := (bm_pos c)\<lparr>vy := 0\<rparr>, bm_state := BSTATE_EXPLODING\<rparr>
        else c)"

section \<open>The fuse\<close>

definition burn :: "ArenaBomb \<Rightarrow> ArenaBomb" where
  "burn b = (let b = (if bm_fuse b > 0 then b\<lparr>bm_fuse := bm_fuse b - 1\<rparr> else b)
     in if bm_fuse b = 0 then b\<lparr>bm_state := BSTATE_EXPLODING\<rparr> else b)"

section \<open>Dropping from the hands\<close>

definition in_hands :: "q32 \<Rightarrow> q32 \<Rightarrow> ArenaPlayer \<Rightarrow> Vec3q" where
  "in_hands wall_x wall_z op =
     (let bx = i32 (wall_x - TUNE_BOMB_RADIUS); bz = i32 (wall_z - TUNE_BOMB_RADIUS)
      in \<lparr>vx = qclamp (i32 (vx (pl_pos op) + qmul (qsin (pl_yaw op)) TUNE_AIRSET_HAND_FWD)) (i32 (- bx)) bx,
          vy = i32 (vy (pl_pos op) + TUNE_AIRSET_HAND_Y),
          vz = qclamp (i32 (vz (pl_pos op) - qmul (qcos (pl_yaw op)) TUNE_AIRSET_HAND_FWD)) (i32 (- bz)) bz\<rparr>)"

definition drop_step :: "ArenaBomb \<Rightarrow> ArenaBomb" where
  "drop_step b =
     (let v = i32 (vy (bm_vel b) - TUNE_BOMB_GRAVITY); y = i32 (vy (bm_pos b) + v)
      in if y \<le> 0
         then b\<lparr>bm_pos := (bm_pos b)\<lparr>vy := 0\<rparr>, bm_vel := (bm_vel b)\<lparr>vy := 0\<rparr>, bm_state := BSTATE_SETTLED\<rparr>
         else b\<lparr>bm_pos := (bm_pos b)\<lparr>vy := y\<rparr>, bm_vel := (bm_vel b)\<lparr>vy := v\<rparr>\<rparr>)"

definition let_go :: "ArenaBomb \<Rightarrow> ArenaBomb" where
  "let_go b = b\<lparr>bm_attach := 0, bm_vel := (bm_vel b)\<lparr>vy := 0\<rparr>\<rparr>"

definition ride :: "q32 \<Rightarrow> q32 \<Rightarrow> ArenaPlayer \<Rightarrow> ArenaBomb \<Rightarrow> ArenaBomb" where
  "ride wall_x wall_z op b =
     (let b = b\<lparr>bm_pos := in_hands wall_x wall_z op, bm_attach := bm_attach b - 1\<rparr>
      in if bm_attach b = 0 then b\<lparr>bm_vel := (bm_vel b)\<lparr>vy := 0\<rparr>\<rparr> else b)"

definition bomb_falling :: "q32 \<Rightarrow> q32 \<Rightarrow> ArenaState \<Rightarrow> ArenaBomb \<Rightarrow> ArenaBomb" where
  "bomb_falling wall_x wall_z s b =
     (let op = player s (unat (bm_owner b));
          b = (if bm_attach b > 0 \<and> (pl_state op = PSTATE_DEAD \<or> pl_state op = PSTATE_TUMBLE)
               then let_go b else b);
          b = (if bm_attach b > 0 then ride wall_x wall_z op b else drop_step b)
      in burn b)"

section \<open>Sliding\<close>

definition touch_dist :: q32 where
  "touch_dist = i32 (TUNE_PLAYER_RADIUS + TUNE_BOMB_RADIUS)"

definition flat_dist :: "Vec3q \<Rightarrow> Vec3q \<Rightarrow> q32" where
  "flat_dist a b = qlen2 (i32 (vx a - vx b)) (i32 (vz a - vz b))"

definition clear_grace :: "q32 \<Rightarrow> ArenaBomb \<Rightarrow> ArenaBomb" where
  "clear_grace dist b = (if dist \<ge> i32 (touch_dist + Qc 1 10) then b\<lparr>bm_bounced := 0\<rparr> else b)"

fun slide_players :: "ArenaState \<Rightarrow> nat list \<Rightarrow> ArenaBomb \<Rightarrow> ArenaBomb" where
  "slide_players s [] b = b"
| "slide_players s (pj # pjs) b =
     (let p = player s pj in
      if pl_state p = PSTATE_DEAD then slide_players s pjs b
      else if vy (pl_pos p) > i32 (2 * TUNE_BOMB_RADIUS) then slide_players s pjs b
      else
        let dist = flat_dist (bm_pos b) (pl_pos p) in
        if bm_bounced b = of_nat (pj + 1) then slide_players s pjs (clear_grace dist b)
        else if dist < touch_dist then b\<lparr>bm_state := BSTATE_EXPLODING\<rparr>
        else slide_players s pjs b)"

definition slides_into_bomb :: "nat \<Rightarrow> ArenaState \<Rightarrow> ArenaBomb \<Rightarrow> bool" where
  "slides_into_bomb i s b \<longleftrightarrow>
     list_ex (\<lambda>bj. bj \<noteq> i \<and> ground_bomb (bomb s bj)
                \<and> flat_dist (bm_pos b) (bm_pos (bomb s bj)) < i32 (2 * TUNE_BOMB_RADIUS))
       [0..<ARENA_MAX_BOMBS]"

definition slide_move :: "ArenaBomb \<Rightarrow> ArenaBomb" where
  "slide_move b = b\<lparr>bm_pos := (bm_pos b)\<lparr>vx := i32 (vx (bm_pos b) + vx (bm_vel b)),
                                        vz := i32 (vz (bm_pos b) + vz (bm_vel b))\<rparr>\<rparr>"

definition same_xz :: "Vec3q \<Rightarrow> Vec3q \<Rightarrow> bool" where
  "same_xz a b \<longleftrightarrow> vx a = vx b \<and> vz a = vz b"

definition bomb_sliding ::
  "ArenaGeom \<Rightarrow> q32 \<Rightarrow> q32 \<Rightarrow> nat \<Rightarrow> ArenaState \<Rightarrow> ArenaBomb \<Rightarrow> ArenaBomb" where
  "bomb_sliding g wall_x wall_z i s b0 =
     (let b = slide_players s [0..<unat (st_num_players s)] (slide_move b0) in
      if bm_state b \<noteq> BSTATE_SLIDING then b
      else if slides_into_bomb i s b then b\<lparr>bm_state := BSTATE_EXPLODING\<rparr>
      else
        let c = bomb_collide g wall_x wall_z b in
        if \<not> same_xz (bm_pos c) (bm_pos b) \<or> \<not> same_xz (bm_vel c) (bm_vel b)
        then c\<lparr>bm_state := BSTATE_EXPLODING\<rparr>
        else burn c)"

section \<open>Settled bombs\<close>

definition kick :: "nat \<Rightarrow> ArenaPlayer \<Rightarrow> ArenaBomb \<Rightarrow> ArenaBomb" where
  "kick pj p b =
     b\<lparr>bm_state := BSTATE_SLIDING, bm_pos := (bm_pos b)\<lparr>vy := 0\<rparr>,
       bm_vel := \<lparr>vx = qmul (qsin (pl_yaw p)) TUNE_KICK_SPEED, vy = 0,
                  vz = i32 (- qmul (qcos (pl_yaw p)) TUNE_KICK_SPEED)\<rparr>,
       bm_bounced := of_nat (pj + 1)\<rparr>"

fun kick_players :: "ArenaState \<Rightarrow> nat list \<Rightarrow> ArenaBomb \<Rightarrow> ArenaBomb" where
  "kick_players s [] b = b"
| "kick_players s (pj # pjs) b =
     (let p = player s pj in
      if pl_state p = PSTATE_DEAD \<or> pl_state p = PSTATE_TUMBLE then kick_players s pjs b
      else
        let dist = flat_dist (bm_pos b) (pl_pos p) in
        if bm_bounced b = of_nat (pj + 1) then kick_players s pjs (clear_grace dist b)
        else if dist \<ge> touch_dist then kick_players s pjs b
        else if vy (pl_pos p) > tdiv TUNE_PLAYER_HEIGHT 2 then kick_players s pjs b
        else if qlen2 (vx (pl_vel p)) (vz (pl_vel p)) < TUNE_KICK_MIN_VEL then kick_players s pjs b
        else kick pj p b)"

definition hold_off :: "ArenaBomb \<Rightarrow> ArenaPlayer \<Rightarrow> ArenaPlayer" where
  "hold_off b p =
     (let dx = i32 (vx (pl_pos p) - vx (bm_pos b)); dz = i32 (vz (pl_pos p) - vz (bm_pos b));
          d = qlen2 dx dz
      in if d \<ge> TUNE_BOMB_STAND_GAP then p
         else if d > 0 then
           let push = i32 (TUNE_BOMB_STAND_GAP - d)
           in p\<lparr>pl_pos := (pl_pos p)\<lparr>vx := i32 (vx (pl_pos p) + qmul (qdiv dx d) push),
                                     vz := i32 (vz (pl_pos p) + qmul (qdiv dz d) push)\<rparr>\<rparr>
         else p\<lparr>pl_pos := (pl_pos p)\<lparr>vx := i32 (vx (pl_pos p) + TUNE_BOMB_STAND_GAP)\<rparr>\<rparr>)"

definition stand_off :: "ArenaBomb \<Rightarrow> nat \<Rightarrow> ArenaState \<Rightarrow> ArenaState" where
  "stand_off b pj s =
     (let p = player s pj in
      if pl_state p = PSTATE_DEAD \<or> bm_bounced b = of_nat (pj + 1) \<or> \<not> on_ground p then s
      else set_player pj (hold_off b p) s)"

definition bomb_settled :: "nat \<Rightarrow> ArenaState \<Rightarrow> ArenaState" where
  "bomb_settled i s =
     (let pjs = [0..<unat (st_num_players s)]; b = kick_players s pjs (bomb s i) in
      if bm_state b \<noteq> BSTATE_SETTLED then set_bomb i b s
      else set_bomb i (burn b) (fold (stand_off b) pjs s))"

section \<open>One bomb, all bombs\<close>

definition bomb_tick :: "ArenaGeom \<Rightarrow> q32 \<Rightarrow> q32 \<Rightarrow> nat \<Rightarrow> ArenaState \<Rightarrow> ArenaState" where
  "bomb_tick g wall_x wall_z i s =
     (let b = bomb s i in
      case bm_state b of
        BSTATE_HELD \<Rightarrow> set_bomb i (bomb_held s b) s
      | BSTATE_AIRBORNE \<Rightarrow> set_bomb i (bomb_airborne g wall_x wall_z i s b) s
      | BSTATE_FALLING \<Rightarrow> set_bomb i (bomb_falling wall_x wall_z s b) s
      | BSTATE_SLIDING \<Rightarrow> set_bomb i (bomb_sliding g wall_x wall_z i s b) s
      | BSTATE_SETTLED \<Rightarrow> bomb_settled i s
      | _ \<Rightarrow> s)"

definition bombs_tick :: "ArenaGeom \<Rightarrow> q32 \<Rightarrow> q32 \<Rightarrow> ArenaState \<Rightarrow> ArenaState" where
  "bombs_tick g wall_x wall_z = fold (bomb_tick g wall_x wall_z) [0..<ARENA_MAX_BOMBS]"

end
