(* ===== verification/Sim_Tick.thy ===== *)
theory Sim_Tick
  imports Sim_Player Sim_Bombs
begin

text \<open>
  The rest of \<open>arena_tick\<close> in \<open>src/src/arena/arena_sim.c\<close>: the round life cycle, detonations,
  the blasts with their chain reactions and damage, the end of a round, and the tick itself;
  then the scripted match of \<open>src/src/arena/arena_script.h\<close> whose hash the version handshake
  carries.
\<close>

section \<open>Phase logic\<close>

definition match_over :: "ArenaState \<Rightarrow> bool" where
  "match_over s \<longleftrightarrow>
     list_ex (\<lambda>i. pl_stocks_won (player s i) \<ge> TUNE_ROUNDS_TO_WIN) [0..<unat (st_num_players s)]"

definition phase_tick :: "ArenaState \<Rightarrow> ArenaState" where
  "phase_tick s = (case st_phase s of
       PHASE_COUNTDOWN \<Rightarrow>
         let s = (if st_phase_timer s > 0 then s\<lparr>st_phase_timer := st_phase_timer s - 1\<rparr> else s)
         in if st_phase_timer s = 0 then s\<lparr>st_phase := PHASE_PLAY, st_phase_timer := 0\<rparr> else s
     | PHASE_PLAY \<Rightarrow>
         let s = s\<lparr>st_phase_timer := st_phase_timer s + 1\<rparr>
         in if st_phase_timer s \<ge> TUNE_ROUND_TICKS
            then s\<lparr>st_phase := PHASE_SUDDEN_DEATH, st_shrink_step := 0\<rparr> else s
     | PHASE_SUDDEN_DEATH \<Rightarrow>
         let s = s\<lparr>st_phase_timer := st_phase_timer s + 1\<rparr>
         in if st_phase_timer s mod 60 = 0 \<and> st_shrink_step s < 96
            then s\<lparr>st_shrink_step := st_shrink_step s + 1\<rparr> else s
     | PHASE_ROUND_END \<Rightarrow>
         let s = (if st_phase_timer s > 0 then s\<lparr>st_phase_timer := st_phase_timer s - 1\<rparr> else s)
         in if st_phase_timer s = 0 \<and> \<not> match_over s
            then (round_reset s)\<lparr>st_phase := PHASE_COUNTDOWN, st_phase_timer := TUNE_COUNTDOWN_TICKS\<rparr>
            else s)"

definition wall_shrink :: "ArenaState \<Rightarrow> q32" where
  "wall_shrink s = (if st_phase s = PHASE_SUDDEN_DEATH
     then i32 (uint (st_shrink_step s) * Qc 3 100) else 0)"

definition wall_x_of :: "ArenaState \<Rightarrow> q32" where
  "wall_x_of s = i32 (half_x (geom_of s) - wall_shrink s)"

definition wall_z_of :: "ArenaState \<Rightarrow> q32" where
  "wall_z_of s = i32 (half_z (geom_of s) - wall_shrink s)"

section \<open>Blasts\<close>

definition detonations :: "ArenaState \<Rightarrow> ArenaState" where
  "detonations = fold (\<lambda>i s. if bm_state (bomb s i) = BSTATE_EXPLODING then detonate i s else s)
     [0..<ARENA_MAX_BOMBS]"

definition blast_radius :: "ArenaBlast \<Rightarrow> q32" where
  "blast_radius bl = i32 (tdiv (TUNE_BLAST_RADIUS * uint (bl_radius_t bl)) (uint TUNE_BLAST_GROW_TICKS))"

definition grow :: "ArenaBlast \<Rightarrow> ArenaBlast" where
  "grow bl = (let bl = bl\<lparr>bl_ttl := bl_ttl bl - 1\<rparr>
     in if bl_radius_t bl < TUNE_BLAST_GROW_TICKS then bl\<lparr>bl_radius_t := bl_radius_t bl + 1\<rparr> else bl)"

definition chainable :: "BState \<Rightarrow> bool" where
  "chainable st \<longleftrightarrow> st = BSTATE_SETTLED \<or> st = BSTATE_AIRBORNE \<or> st = BSTATE_SLIDING \<or> st = BSTATE_FALLING"

definition chain :: "ArenaBlast \<Rightarrow> ArenaBomb \<Rightarrow> ArenaBomb" where
  "chain bl b =
     (if chainable (bm_state b)
         \<and> qlen3 (vec_diff (bm_pos b) (bl_center bl)) < i32 (blast_radius bl + TUNE_BOMB_RADIUS)
      then b\<lparr>bm_state := BSTATE_EXPLODING\<rparr> else b)"

definition blast_vec :: "ArenaBlast \<Rightarrow> ArenaPlayer \<Rightarrow> Vec3q" where
  "blast_vec bl p = vec_diff (player_center p) (bl_center bl)"

definition vulnerable :: "ArenaPlayer \<Rightarrow> bool" where
  "vulnerable p \<longleftrightarrow> \<not> (pl_state p = PSTATE_DEAD \<or> pl_hp p = 0)
     \<and> \<not> (pl_state p \<noteq> PSTATE_TUMBLE \<and> pl_timer p > 0) \<and> pl_state p \<noteq> PSTATE_TUMBLE"

definition in_blast :: "ArenaBlast \<Rightarrow> ArenaPlayer \<Rightarrow> bool" where
  "in_blast bl p \<longleftrightarrow> qlen3 (blast_vec bl p) < i32 (blast_radius bl + TUNE_PLAYER_RADIUS)"

definition knock :: "ArenaBlast \<Rightarrow> ArenaPlayer \<Rightarrow> ArenaPlayer" where
  "knock bl p =
     (let d = blast_vec bl p; dxz = qlen2 (vx d) (vz d);
          (ux, uz) = (if dxz > 0 then (qdiv (vx d) dxz, qdiv (vz d) dxz) else (Q_ONE, 0))
      in p\<lparr>pl_hp := pl_hp p - 1,
           pl_vel := \<lparr>vx = qmul ux TUNE_KNOCKBACK, vy = TUNE_KNOCKBACK_UP, vz = qmul uz TUNE_KNOCKBACK\<rparr>,
           pl_state := PSTATE_TUMBLE, pl_timer := TUNE_TUMBLE_TICKS + TUNE_INVULN_TICKS\<rparr>)"

definition dropped :: "nat \<Rightarrow> ArenaPlayer \<Rightarrow> ArenaBomb \<Rightarrow> ArenaBomb" where
  "dropped pi p hb =
     hb\<lparr>bm_state := BSTATE_SETTLED, bm_fuse := TUNE_FUSE_TICKS, bm_pos := (pl_pos p)\<lparr>vy := 0\<rparr>,
        bm_vel := vec0, bm_bounced := of_nat (pi + 1)\<rparr>"

definition drop_held :: "nat \<Rightarrow> ArenaState \<Rightarrow> ArenaState" where
  "drop_held pi s =
     (let p = player s pi; hi = unat (pl_held_bomb p - 1) in
      if pl_held_bomb p \<noteq> 0
      then set_player pi (p\<lparr>pl_held_bomb := 0\<rparr>) (set_bomb hi (dropped pi p (bomb s hi)) s)
      else s)"

definition check_death :: "nat \<Rightarrow> ArenaState \<Rightarrow> ArenaState" where
  "check_death pi s =
     (let p = player s pi in
      if pl_hp p = 0
      then set_player pi (p\<lparr>pl_state := PSTATE_DEAD, pl_timer := TUNE_RESPAWN_TICKS\<rparr>) s
      else s)"

definition blast_player :: "ArenaBlast \<Rightarrow> nat \<Rightarrow> ArenaState \<Rightarrow> ArenaState" where
  "blast_player bl pi s =
     (let p = player s pi in
      if vulnerable p \<and> in_blast bl p
      then check_death pi (drop_held pi (set_player pi (knock bl p) s))
      else s)"

definition blast_tick :: "nat \<Rightarrow> ArenaState \<Rightarrow> ArenaState" where
  "blast_tick i s =
     (if bl_ttl (blast s i) = 0 then s
      else
        let bl = grow (blast s i); s = set_blast i bl s;
            s = s\<lparr>st_bombs := map (chain bl) (st_bombs s)\<rparr>
        in fold (blast_player bl) [0..<unat (st_num_players s)] s)"

definition blasts_tick :: "ArenaState \<Rightarrow> ArenaState" where
  "blasts_tick = fold blast_tick [0..<ARENA_MAX_BLASTS]"

section \<open>The end of a round\<close>

definition standing :: "ArenaState \<Rightarrow> nat list" where
  "standing s = filter (\<lambda>i. pl_state (player s i) \<noteq> PSTATE_DEAD) [0..<unat (st_num_players s)]"

definition award :: "ArenaState \<Rightarrow> ArenaState" where
  "award s = (if standing s = [] then s
     else let l = last (standing s); p = player s l
          in set_player l (p\<lparr>pl_stocks_won := pl_stocks_won p + 1\<rparr>) s)"

definition round_end :: "ArenaState \<Rightarrow> ArenaState" where
  "round_end s =
     (if gameplay s \<and> length (standing s) \<le> 1
      then (award s)\<lparr>st_phase := PHASE_ROUND_END, st_phase_timer := TUNE_ROUND_END_TICKS\<rparr>
      else s)"

section \<open>The tick\<close>

definition players_tick ::
  "ArenaGeom \<Rightarrow> q32 \<Rightarrow> q32 \<Rightarrow> ArenaInput list \<Rightarrow> ArenaState \<Rightarrow> ArenaState" where
  "players_tick g wall_x wall_z inputs =
     fold (\<lambda>i. player_tick g wall_x wall_z i (inputs ! i)) [0..<ARENA_MAX_PLAYERS]"

definition tick_phases ::
  "ArenaGeom \<Rightarrow> q32 \<Rightarrow> q32 \<Rightarrow> ArenaInput list \<Rightarrow> ArenaState \<Rightarrow> ArenaState" where
  "tick_phases g wall_x wall_z inputs s =
     (let s = players_tick g wall_x wall_z inputs s; s = separate_players s;
          s = bombs_tick g wall_x wall_z s; s = detonations s
      in blasts_tick s)"

definition arena_tick :: "ArenaInput list \<Rightarrow> ArenaState \<Rightarrow> ArenaState" where
  "arena_tick inputs s0 =
     (let g = geom_of s0; s = phase_tick s0;
          s = round_end (tick_phases g (wall_x_of s) (wall_z_of s) inputs s)
      in s\<lparr>st_tick := st_tick s + 1\<rparr>)"

definition arena_run :: "ArenaInput list list \<Rightarrow> ArenaState \<Rightarrow> ArenaState" where
  "arena_run = fold arena_tick"

section \<open>The scripted match\<close>

definition script_input :: "nat \<Rightarrow> nat \<Rightarrow> u32 \<Rightarrow> ArenaInput" where
  "script_input t i r =
     (let sx = uint (r AND 63) - 32; sx = (if sx < - 31 then - 31 else sx);
          sy = uint (drop_bit 6 r AND 63) - 32; sy = (if sy < - 31 then - 31 else sy);
          st = ((t + i * 53) mod 137 = 0);
          bomb_held = ((t + i * 37) mod (90 + i * 80) < 30 + i * 40)
      in arena_input_pack sx sy (drop_bit 12 r AND 31 = 0) bomb_held st)"

fun script_inputs :: "nat \<Rightarrow> nat list \<Rightarrow> u32 \<Rightarrow> ArenaInput list \<times> u32" where
  "script_inputs t [] r = ([], r)"
| "script_inputs t (i # is) r =
     (let r = xorshift32 r; (ins, r') = script_inputs t is r in (script_input t i r # ins, r'))"

fun script_run :: "nat list \<Rightarrow> u32 \<Rightarrow> ArenaState \<Rightarrow> ArenaState" where
  "script_run [] r s = s"
| "script_run (t # ts) r s =
     (let (ins, r) = script_inputs t [0, 1, 2, 3] r in script_run ts r (arena_tick ins s))"

definition arena_scripted_match_hash :: u32 where
  "arena_scripted_match_hash =
     arena_hash (script_run [0..<5400] 0xC0FFEE01 (arena_init 0 4 0xB0BB1E5))"

end
