(* ===== verification/Sim_Inv.thy ===== *)
theory Sim_Inv
  imports Sim_Tick
begin

text \<open>
  The bookkeeping of the simulation: every index stored in the state is in range, each player's
  \<open>live_bombs\<close> is the number of slots it owns, a held bomb and the hand that holds it name each
  other, and a player is dead exactly when it has no hit points.  Most steps are soft: they
  change nothing the invariant speaks of.  The others take a slot, let go of a held bomb, free
  a slot, or change a single player; each has one preservation lemma.
\<close>

section \<open>The bookkeeping invariant\<close>

definition active :: "ArenaBomb \<Rightarrow> bool" where
  "active b \<longleftrightarrow> bm_state b \<noteq> BSTATE_FREE"

definition owned :: "ArenaState \<Rightarrow> nat \<Rightarrow> nat" where
  "owned s o' = length (filter (\<lambda>b. active b \<and> unat (bm_owner b) = o') (st_bombs s))"

definition shape :: "ArenaState \<Rightarrow> bool" where
  "shape s \<longleftrightarrow> length (st_players s) = ARENA_MAX_PLAYERS \<and> length (st_bombs s) = ARENA_MAX_BOMBS
     \<and> length (st_blasts s) = ARENA_MAX_BLASTS \<and> unat (st_arena_id s) < ARENA_GEOM_COUNT
     \<and> unat (st_num_players s) \<le> ARENA_MAX_PLAYERS"

definition bomb_inv :: "ArenaState \<Rightarrow> nat \<Rightarrow> bool" where
  "bomb_inv s i \<longleftrightarrow> unat (bm_owner (bomb s i)) < ARENA_MAX_PLAYERS
     \<and> (bm_state (bomb s i) = BSTATE_HELD \<longrightarrow>
          unat (pl_held_bomb (player s (unat (bm_owner (bomb s i))))) = i + 1)"

definition hands_ok :: "ArenaState \<Rightarrow> nat \<Rightarrow> bool" where
  "hands_ok s o' \<longleftrightarrow> (let h = unat (pl_held_bomb (player s o')) in
     h \<noteq> 0 \<longrightarrow> h \<le> ARENA_MAX_BOMBS \<and> bm_state (bomb s (h - 1)) = BSTATE_HELD
       \<and> unat (bm_owner (bomb s (h - 1))) = o')"

definition player_inv :: "ArenaState \<Rightarrow> nat \<Rightarrow> bool" where
  "player_inv s o' \<longleftrightarrow> (let p = player s o' in
     unat (pl_live_bombs p) = owned s o' \<and> owned s o' \<le> 6 \<and> hands_ok s o'
     \<and> (pl_state p = PSTATE_DEAD \<longrightarrow> pl_held_bomb p = 0)
     \<and> (pl_hp p = 0 \<longleftrightarrow> pl_state p = PSTATE_DEAD) \<and> pl_hp p \<le> TUNE_START_HP)"

definition arena_inv :: "ArenaState \<Rightarrow> bool" where
  "arena_inv s \<longleftrightarrow> shape s \<and> (\<forall>i < ARENA_MAX_BOMBS. bomb_inv s i)
     \<and> (\<forall>o' < ARENA_MAX_PLAYERS. player_inv s o')"

section \<open>Steps that leave the bookkeeping alone\<close>

definition soft_bomb :: "ArenaBomb \<Rightarrow> ArenaBomb \<Rightarrow> bool" where
  "soft_bomb b c \<longleftrightarrow> bm_owner c = bm_owner b
     \<and> (bm_state c = BSTATE_FREE \<longleftrightarrow> bm_state b = BSTATE_FREE)
     \<and> (bm_state c = BSTATE_HELD \<longleftrightarrow> bm_state b = BSTATE_HELD)"

definition soft_player :: "ArenaPlayer \<Rightarrow> ArenaPlayer \<Rightarrow> bool" where
  "soft_player p q \<longleftrightarrow> pl_live_bombs q = pl_live_bombs p \<and> pl_held_bomb q = pl_held_bomb p
     \<and> pl_hp q = pl_hp p \<and> (pl_state q = PSTATE_DEAD \<longleftrightarrow> pl_state p = PSTATE_DEAD)"

definition soft :: "ArenaState \<Rightarrow> ArenaState \<Rightarrow> bool" where
  "soft s t \<longleftrightarrow> st_num_players t = st_num_players s \<and> st_arena_id t = st_arena_id s
     \<and> length (st_blasts t) = length (st_blasts s)
     \<and> list_all2 soft_player (st_players s) (st_players t)
     \<and> list_all2 soft_bomb (st_bombs s) (st_bombs t)"

lemma soft_bomb_refl [simp]: "soft_bomb b b" and soft_player_refl [simp]: "soft_player p p"
  by (simp_all add: soft_bomb_def soft_player_def)

lemma soft_bomb_trans: "soft_bomb a b \<Longrightarrow> soft_bomb b c \<Longrightarrow> soft_bomb a c"
  and soft_player_trans: "soft_player p q \<Longrightarrow> soft_player q r \<Longrightarrow> soft_player p r"
  by (simp_all add: soft_bomb_def soft_player_def)

lemma soft_refl [simp]: "soft s s"
  by (simp add: soft_def list_all2_refl)

lemma soft_trans: "soft s t \<Longrightarrow> soft t u \<Longrightarrow> soft s u"
  unfolding soft_def
  using list_all2_trans [of soft_player soft_player soft_player, OF soft_player_trans]
    list_all2_trans [of soft_bomb soft_bomb soft_bomb, OF soft_bomb_trans]
  by fastforce

lemma soft_set_player: "soft_player (player s i) p \<Longrightarrow> soft s (set_player i p s)"
proof -
  assume p: "soft_player (player s i) p"
  have "list_all2 soft_player (st_players s) ((st_players s)[i := p])"
    using p by (auto simp: list_all2_conv_all_nth nth_list_update_if)
  then show ?thesis by (simp add: soft_def list_all2_refl)
qed

lemma soft_set_bomb: "soft_bomb (bomb s i) b \<Longrightarrow> soft s (set_bomb i b s)"
proof -
  assume b: "soft_bomb (bomb s i) b"
  have "list_all2 soft_bomb (st_bombs s) ((st_bombs s)[i := b])"
    using b by (auto simp: list_all2_conv_all_nth nth_list_update_if)
  then show ?thesis by (simp add: soft_def list_all2_refl)
qed

lemma soft_fold: "(\<And>x s. soft s (f x s)) \<Longrightarrow> soft s (fold f xs s)"
  by (induction xs arbitrary: s) (auto intro: soft_trans)

lemma soft_nth:
  assumes "soft s t"
  shows "i < length (st_players s) \<Longrightarrow> soft_player (player s i) (player t i)"
    and "j < length (st_bombs s) \<Longrightarrow> soft_bomb (bomb s j) (bomb t j)"
  using assms by (auto simp: soft_def list_all2_conv_all_nth)

lemma owned_soft: "soft s t \<Longrightarrow> owned t o' = owned s o'"
proof -
  have "list_all2 soft_bomb bs cs \<Longrightarrow>
    length (filter (\<lambda>b. active b \<and> unat (bm_owner b) = o') cs)
      = length (filter (\<lambda>b. active b \<and> unat (bm_owner b) = o') bs)" for bs cs
    by (induction rule: list_all2_induct) (auto simp: soft_bomb_def active_def)
  then show "soft s t \<Longrightarrow> ?thesis" by (simp add: soft_def owned_def)
qed

lemma soft_inv:
  assumes s: "soft s t" and inv: "arena_inv s"
  shows "arena_inv t"
proof -
  have sh: "shape s" "shape t"
    using s inv by (auto simp: arena_inv_def shape_def soft_def dest: list_all2_lengthD)
  have p: "soft_player (player s i) (player t i)" if "i < ARENA_MAX_PLAYERS" for i
    using soft_nth(1) [OF s] that sh by (simp add: shape_def)
  have b: "soft_bomb (bomb s i) (bomb t i)" if "i < ARENA_MAX_BOMBS" for i
    using soft_nth(2) [OF s] that sh by (simp add: shape_def)
  have "bomb_inv t i" if i: "i < ARENA_MAX_BOMBS" for i
    using inv b [OF i] p [of "unat (bm_owner (bomb s i))"] i
    by (auto simp: arena_inv_def bomb_inv_def soft_bomb_def soft_player_def)
  moreover have "player_inv t o'" if o': "o' < ARENA_MAX_PLAYERS" for o'
  proof -
    have h: "player_inv s o'" using inv o' by (simp add: arena_inv_def)
    then have "hands_ok t o'"
      using p [OF o'] b [of "unat (pl_held_bomb (player s o')) - 1"]
      by (auto simp: hands_ok_def player_inv_def soft_player_def soft_bomb_def Let_def)
    then show ?thesis
      using h p [OF o'] by (simp add: player_inv_def soft_player_def owned_soft [OF s] Let_def)
  qed
  ultimately show ?thesis using sh by (simp add: arena_inv_def)
qed

section \<open>The soft steps\<close>

lemma soft_phase_fields:
  "soft s (s\<lparr>st_phase := ph, st_phase_timer := t\<rparr>)" "soft s (s\<lparr>st_phase_timer := t\<rparr>)"
  "soft s (s\<lparr>st_shrink_step := k\<rparr>)" "soft s (s\<lparr>st_phase := ph\<rparr>)" "soft s (s\<lparr>st_tick := n\<rparr>)"
  "soft s (s\<lparr>st_phase := ph, st_shrink_step := k\<rparr>)"
  by (simp_all add: soft_def list_all2_refl)

lemma soft_turn: "soft_player p (turn_toward target p)"
  by (simp add: turn_toward_def soft_player_def Let_def)

lemma soft_locomotion:
  assumes "pl_state p \<noteq> PSTATE_DEAD"
  shows "soft_player p (locomotion gp inp p)"
proof -
  have st: "soft_player p (fst (steer gp inp p))"
    by (simp add: steer_def Let_def soft_turn)
  have ac: "soft_player q (accelerate v q)" for q v
    by (simp add: accelerate_def Let_def soft_player_def)
  have ju: "soft_player q (jump gp inp prev q)" if "pl_state q \<noteq> PSTATE_DEAD" for q prev
    using that by (simp add: jump_def soft_player_def)
  have "soft_player p (accelerate v (fst (steer gp inp p)))" for v
    using st ac by (rule soft_player_trans)
  moreover from this have "pl_state (accelerate v (fst (steer gp inp p))) \<noteq> PSTATE_DEAD" for v
    using assms by (simp add: soft_player_def)
  ultimately show ?thesis
    unfolding locomotion_def split_beta Let_def by (rule soft_player_trans [OF _ ju])
qed

lemma soft_hold: "soft s (hold pi s)"
  by (simp add: hold_def Let_def soft_set_player soft_player_def)

lemma soft_move: "soft_player p (move_player g wx wz p)"
  by (simp add: move_player_def Let_def split_beta soft_player_def)

lemma soft_skid: "soft_player p (skid p)" and skid_state [simp]: "pl_state (skid p) = pl_state p"
  by (simp_all add: skid_def Let_def soft_player_def)

lemma soft_upkeep: "soft_player p (upkeep p)"
proof -
  have "soft_player p (tumble_upkeep p)" if "pl_state p = PSTATE_TUMBLE"
    using that soft_skid [of p] soft_skid [of "p\<lparr>pl_timer := pl_timer p - 1\<rparr>"]
    by (auto simp: tumble_upkeep_def Let_def soft_player_def)
  then show ?thesis
    by (auto simp: upkeep_def ground_upkeep_def Let_def soft_player_def)
qed

lemma soft_finish: "soft_player p (finish_player g wx wz inp p)"
  using soft_move soft_upkeep
  by (auto simp: finish_player_def soft_player_def)

lemma soft_separate:
  "soft_player pa (fst (separate pa pb))" "soft_player pb (snd (separate pa pb))"
  by (simp_all add: separate_def Let_def split_beta soft_player_def)

lemma soft_separate_pair: "fst ab \<noteq> snd ab \<Longrightarrow> soft s (separate_pair ab s)"
proof -
  assume ne: "fst ab \<noteq> snd ab"
  obtain a b where ab: "ab = (a, b)" by (cases ab)
  let ?pq = "separate (player s a) (player s b)"
  have "soft s (set_player a (fst ?pq) s)" by (rule soft_set_player) (rule soft_separate)
  moreover have "soft (set_player a (fst ?pq) s) (set_player b (snd ?pq) (set_player a (fst ?pq) s))"
    by (rule soft_set_player) (use ne ab in \<open>simp add: soft_separate\<close>)
  ultimately show ?thesis by (auto simp: separate_pair_def ab split_beta intro: soft_trans)
qed

lemma soft_separate_players: "soft s (separate_players s)"
proof -
  have "list_all (\<lambda>ab. fst ab \<noteq> snd ab) ps \<Longrightarrow> soft s (fold separate_pair ps s)" for ps s
    by (induction ps arbitrary: s) (auto intro: soft_trans soft_separate_pair)
  moreover have "list_all (\<lambda>ab. fst ab \<noteq> snd ab) player_pairs"
    by (simp add: player_pairs_def arena_sizes upt_rec)
  ultimately show ?thesis unfolding separate_players_def by blast
qed

lemma soft_burn: "bm_state b \<noteq> BSTATE_FREE \<Longrightarrow> bm_state b \<noteq> BSTATE_HELD \<Longrightarrow> soft_bomb b (burn b)"
  by (simp add: burn_def Let_def soft_bomb_def)

lemma soft_airborne:
  "bm_state b = BSTATE_AIRBORNE \<Longrightarrow> soft_bomb b (bomb_airborne g wx wz i s b)"
  by (simp add: bomb_airborne_def Let_def soft_bomb_def fly_def bomb_collide_def split_beta)

lemma soft_falling:
  assumes "bm_state b = BSTATE_FALLING"
  shows "soft_bomb b (bomb_falling wx wz s b)"
proof -
  have "soft_bomb b (let_go b)" "soft_bomb c (ride wx wz op c)" for op c
    by (simp_all add: soft_bomb_def let_go_def ride_def Let_def)
  moreover have "soft_bomb c (drop_step c)" if "bm_state c = BSTATE_FALLING" for c
    using that by (simp add: soft_bomb_def drop_step_def Let_def)
  ultimately show ?thesis
    unfolding bomb_falling_def Let_def using assms
    by (auto simp: soft_bomb_def let_go_def ride_def drop_step_def burn_def Let_def)
qed

lemma slide_players_cases:
  "bm_state b = BSTATE_SLIDING \<Longrightarrow>
     (let c = slide_players s pjs b in bm_owner c = bm_owner b
       \<and> (bm_state c = BSTATE_SLIDING \<or> bm_state c = BSTATE_EXPLODING)
       \<and> bm_fuse c = bm_fuse b)"
  by (induction s pjs b rule: slide_players.induct) (auto simp: Let_def clear_grace_def)

lemma kick_players_cases:
  "bm_state b = BSTATE_SETTLED \<Longrightarrow>
     (let c = kick_players s pjs b in bm_owner c = bm_owner b
       \<and> (bm_state c = BSTATE_SETTLED \<or> bm_state c = BSTATE_SLIDING) \<and> bm_fuse c = bm_fuse b)"
  by (induction s pjs b rule: kick_players.induct) (auto simp: Let_def clear_grace_def kick_def)

lemma soft_sliding:
  assumes "bm_state b = BSTATE_SLIDING"
  shows "soft_bomb b (bomb_sliding g wx wz i s b)"
proof -
  have "bm_state (slide_move b) = BSTATE_SLIDING" "bm_owner (slide_move b) = bm_owner b"
    using assms by (simp_all add: slide_move_def)
  then show ?thesis
    using slide_players_cases [of "slide_move b" s "[0..<unat (st_num_players s)]"] assms
    by (auto simp: bomb_sliding_def Let_def soft_bomb_def bomb_collide_def burn_def split_beta)
qed

lemma soft_stand_off: "soft s (stand_off b pj s)"
  by (simp add: stand_off_def Let_def soft_set_player soft_player_def hold_off_def)

lemma soft_settled:
  assumes "bm_state (bomb s i) = BSTATE_SETTLED"
  shows "soft s (bomb_settled i s)"
proof -
  let ?pjs = "[0..<unat (st_num_players s)]"
  let ?b = "kick_players s ?pjs (bomb s i)"
  have st: "soft s (fold (stand_off ?b) ?pjs s)" by (rule soft_fold) (rule soft_stand_off)
  have "st_bombs (stand_off b pj t) = st_bombs t" for b pj t by (simp add: stand_off_def Let_def)
  then have same: "st_bombs (fold (stand_off ?b) pjs t) = st_bombs t" for pjs t
    by (induction pjs arbitrary: t) simp_all
  have k: "soft_bomb (bomb s i) ?b" "bm_state ?b = BSTATE_SETTLED \<or> bm_state ?b = BSTATE_SLIDING"
    using kick_players_cases [OF assms, of s ?pjs] assms by (auto simp: Let_def soft_bomb_def)
  have "soft_bomb (bomb s i) (burn ?b)"
    by (rule soft_bomb_trans [OF k(1)]) (use k(2) in \<open>auto intro: soft_burn\<close>)
  then have "soft (fold (stand_off ?b) ?pjs s) (set_bomb i (burn ?b) (fold (stand_off ?b) ?pjs s))"
    by (intro soft_set_bomb) (simp add: same)
  with st have "soft s (set_bomb i (burn ?b) (fold (stand_off ?b) ?pjs s))" by (rule soft_trans)
  moreover have "soft s (set_bomb i ?b s)" using k(1) by (rule soft_set_bomb)
  ultimately show ?thesis by (simp add: bomb_settled_def Let_def)
qed

lemma soft_bomb_tick: "soft s (bomb_tick g wx wz i s)"
proof -
  have "soft_bomb b (bomb_held s b)" for b by (simp add: soft_bomb_def bomb_held_def Let_def)
  then show ?thesis
    by (cases "bm_state (bomb s i)")
      (simp_all add: bomb_tick_def Let_def soft_set_bomb soft_airborne soft_falling soft_sliding
        soft_settled)
qed

lemma soft_bombs_tick: "soft s (bombs_tick g wx wz s)"
  unfolding bombs_tick_def by (rule soft_fold) (rule soft_bomb_tick)

lemma soft_chain: "soft_bomb b (chain bl b)"
  by (auto simp: chain_def soft_bomb_def chainable_def)

lemma soft_chain_all: "soft s (s\<lparr>st_bombs := map (chain bl) (st_bombs s)\<rparr>)"
  by (simp add: soft_def list_all2_refl list_all2_conv_all_nth soft_chain)

lemma soft_set_blast: "soft s (set_blast i b s)"
  by (simp add: soft_def list_all2_refl)

lemma soft_spawn_blast: "soft s (spawn_blast b s)"
  by (simp add: spawn_blast_def soft_set_blast split: option.split)

lemma soft_award: "soft s (award s)"
  by (simp add: award_def Let_def soft_set_player soft_player_def)

lemma soft_round_end: "soft s (round_end s)"
proof -
  have "soft (award s) ((award s)\<lparr>st_phase := PHASE_ROUND_END, st_phase_timer := TUNE_ROUND_END_TICKS\<rparr>)"
    by (rule soft_phase_fields)
  with soft_award [of s] show ?thesis
    unfolding round_end_def by (auto intro: soft_trans)
qed

section \<open>The steps that change it\<close>

lemma inv_shape: "arena_inv s \<Longrightarrow> shape s"
  by (simp add: arena_inv_def)

lemma inv_lengths:
  "arena_inv s \<Longrightarrow> length (st_players s) = 4 \<and> length (st_bombs s) = 16 \<and> length (st_blasts s) = 16"
  by (simp add: arena_inv_def shape_def arena_sizes)

lemma inv_player: "arena_inv s \<Longrightarrow> o' < 4 \<Longrightarrow> player_inv s o'"
  by (simp add: arena_inv_def arena_sizes)

lemma inv_bomb: "arena_inv s \<Longrightarrow> i < 16 \<Longrightarrow> bomb_inv s i"
  by (simp add: arena_inv_def arena_sizes)

lemma inv_owner: "arena_inv s \<Longrightarrow> i < 16 \<Longrightarrow> unat (bm_owner (bomb s i)) < 4"
  by (auto dest: inv_bomb simp: bomb_inv_def arena_sizes)

lemma inv_live: "arena_inv s \<Longrightarrow> o' < 4 \<Longrightarrow> unat (pl_live_bombs (player s o')) = owned s o'"
  and inv_owned: "arena_inv s \<Longrightarrow> o' < 4 \<Longrightarrow> owned s o' \<le> 6"
  and inv_dead: "arena_inv s \<Longrightarrow> o' < 4 \<Longrightarrow> pl_state (player s o') = PSTATE_DEAD \<Longrightarrow>
        pl_held_bomb (player s o') = 0"
  by (auto dest: inv_player simp: player_inv_def Let_def)

lemma inv_held:
  assumes "arena_inv s" and "o' < 4" and "pl_held_bomb (player s o') \<noteq> 0"
  defines "h \<equiv> unat (pl_held_bomb (player s o') - 1)"
  shows "h < 16" and "bm_state (bomb s h) = BSTATE_HELD" and "unat (bm_owner (bomb s h)) = o'"
    and "unat (pl_held_bomb (player s o')) = h + 1"
proof -
  let ?h = "unat (pl_held_bomb (player s o'))"
  have "?h \<noteq> 0" using assms(3) by (simp add: unat_eq_0)
  moreover have "h = ?h - 1" unfolding h_def using assms(3) by (rule u8_pred)
  ultimately show "h < 16" "bm_state (bomb s h) = BSTATE_HELD" "unat (bm_owner (bomb s h)) = o'"
      "?h = h + 1"
    using inv_player [OF assms(1,2)] by (auto simp: player_inv_def hands_ok_def Let_def arena_sizes)
qed

lemma owned_set_player [simp]: "owned (set_player o' p s) o'' = owned s o''"
  by (simp add: owned_def)

lemma owned_set_bomb:
  "i < length (st_bombs s) \<Longrightarrow>
     owned (set_bomb i b s) o' + of_bool (active (bomb s i) \<and> unat (bm_owner (bomb s i)) = o')
       = owned s o' + of_bool (active b \<and> unat (bm_owner b) = o')"
  unfolding owned_def set_bomb_sel by (rule count_update)

text \<open>Taking a free slot: grabbing, setting, and each extra bomb of a spread.\<close>

lemma inv_take:
  assumes inv: "arena_inv s" and o': "o' < 4" and i: "find_free_bomb s = Some i"
    and room: "unat (pl_live_bombs (player s o')) < 6"
    and p: "pl_live_bombs p = pl_live_bombs (player s o') + 1" "pl_hp p = pl_hp (player s o')"
      "pl_state p = pl_state (player s o')"
    and b: "unat (bm_owner b) = o'" "active b"
    and hand: "if bm_state b = BSTATE_HELD
               then pl_held_bomb (player s o') = 0 \<and> unat (pl_held_bomb p) = i + 1
                 \<and> pl_state p \<noteq> PSTATE_DEAD
               else pl_held_bomb p = pl_held_bomb (player s o')"
  shows "arena_inv (set_player o' p (set_bomb i b s))" (is "arena_inv ?t")
proof -
  have len: "length (st_players s) = 4" "length (st_bombs s) = 16" using inv_lengths [OF inv] by auto
  have i16: "i < 16" and free: "bm_state (bomb s i) = BSTATE_FREE"
    using bomb_pool.search_hit [OF i [unfolded find_free_bomb_def]] len by simp_all
  have own: "owned ?t o'' = owned s o'' + of_bool (o'' = o')" for o''
    using owned_set_bomb [of i s b o''] i16 len free b by (auto simp: active_def)
  have live: "unat (pl_live_bombs p) = owned s o' + 1"
    using room p(1) inv_live [OF inv o'] by (simp add: u8_suc)
  have "bomb_inv ?t j" if j: "j < 16" for j
    using inv_bomb [OF inv j] inv_bomb [OF inv i16] j i16 len o' b hand free
    by (auto simp: bomb_inv_def arena_sizes nth_list_update_if split: if_splits)
  moreover have "player_inv ?t o''" if o'': "o'' < 4" for o''
  proof (cases "o'' = o'")
    case True
    have "hands_ok ?t o'"
      using inv_player [OF inv o'] hand b o' len i16 free
      by (auto simp: player_inv_def hands_ok_def Let_def arena_sizes nth_list_update_if split: if_splits)
    then show ?thesis
      using inv_player [OF inv o'] True p len o' own live room inv_live [OF inv o'] hand
      by (auto simp: player_inv_def Let_def split: if_splits)
  next
    case False
    have "hands_ok ?t o''"
      using inv_player [OF inv o''] False len free
      by (auto simp: player_inv_def hands_ok_def Let_def arena_sizes nth_list_update_if)
    then show ?thesis
      using inv_player [OF inv o''] False len own by (simp add: player_inv_def Let_def)
  qed
  ultimately show ?thesis
    using inv_shape [OF inv] by (simp add: arena_inv_def shape_def arena_sizes)
qed

text \<open>Letting go of the held bomb: a throw, or a hit.\<close>

lemma inv_let_go:
  assumes inv: "arena_inv s" and o': "o' < 4"
    and held: "pl_held_bomb (player s o') \<noteq> 0"
    and p: "pl_held_bomb p = 0" "pl_live_bombs p = pl_live_bombs (player s o')"
      "pl_hp p = 0 \<longleftrightarrow> pl_state p = PSTATE_DEAD" "pl_hp p \<le> TUNE_START_HP"
    and b: "bm_owner b = bm_owner (bomb s (unat (pl_held_bomb (player s o') - 1)))"
      "bm_state b \<noteq> BSTATE_HELD" "active b"
  shows "arena_inv (set_player o' p (set_bomb (unat (pl_held_bomb (player s o') - 1)) b s))"
    (is "arena_inv ?t")
proof -
  let ?i = "unat (pl_held_bomb (player s o') - 1)"
  note h = inv_held [OF inv o' held]
  have len: "length (st_players s) = 4" "length (st_bombs s) = 16" using inv_lengths [OF inv] by auto
  have own: "owned ?t o'' = owned s o''" for o''
    using owned_set_bomb [of ?i s b o''] h len b by (auto simp: active_def)
  have other: "j = ?i" if "j < 16" "bm_state (bomb s j) = BSTATE_HELD" "unat (bm_owner (bomb s j)) = o'" for j
    using inv_bomb [OF inv that(1)] that h(4) by (simp add: bomb_inv_def)
  have "bomb_inv ?t j" if j: "j < 16" for j
  proof (cases "j = ?i")
    case True
    then show ?thesis using inv_bomb [OF inv j] j h len b by (simp add: bomb_inv_def)
  next
    case False
    then have "unat (bm_owner (bomb s j)) \<noteq> o'" if "bm_state (bomb s j) = BSTATE_HELD"
      using other [OF j that] by blast
    then show ?thesis using inv_bomb [OF inv j] j False len by (auto simp: bomb_inv_def)
  qed
  moreover have "player_inv ?t o''" if o'': "o'' < 4" for o''
  proof (cases "o'' = o'")
    case True
    then show ?thesis
      using inv_player [OF inv o'] p len o' own
      by (simp add: player_inv_def hands_ok_def Let_def)
  next
    case False
    have "hands_ok ?t o''"
      using inv_player [OF inv o''] False len h
      by (auto simp: player_inv_def hands_ok_def Let_def arena_sizes nth_list_update_if)
    then show ?thesis
      using inv_player [OF inv o''] False len own by (simp add: player_inv_def Let_def)
  qed
  ultimately show ?thesis
    using inv_shape [OF inv] by (simp add: arena_inv_def shape_def arena_sizes)
qed

text \<open>A player changes without touching a bomb.\<close>

lemma inv_set_player:
  assumes inv: "arena_inv s" and o': "o' < 4"
    and p: "pl_held_bomb p = pl_held_bomb (player s o')" "pl_live_bombs p = pl_live_bombs (player s o')"
      "pl_state p = PSTATE_DEAD \<Longrightarrow> pl_held_bomb p = 0"
      "pl_hp p = 0 \<longleftrightarrow> pl_state p = PSTATE_DEAD" "pl_hp p \<le> TUNE_START_HP"
  shows "arena_inv (set_player o' p s)" (is "arena_inv ?t")
proof -
  have len: "length (st_players s) = 4" using inv_lengths [OF inv] by auto
  have "bomb_inv ?t j" if j: "j < 16" for j
    using inv_bomb [OF inv j] len p by (auto simp: bomb_inv_def arena_sizes nth_list_update_if)
  moreover have "player_inv ?t o''" if o'': "o'' < 4" for o''
    using inv_player [OF inv o''] len p o''
    by (auto simp: player_inv_def hands_ok_def Let_def arena_sizes nth_list_update_if)
  ultimately show ?thesis
    using inv_shape [OF inv] by (simp add: arena_inv_def shape_def arena_sizes)
qed

text \<open>Freeing a slot.\<close>

lemma inv_free:
  assumes inv: "arena_inv s" and i: "i < 16" and b: "bm_owner b = bm_owner (bomb s i)"
    and o: "unat (bm_owner (bomb s i)) = o'"
    and st: "bm_state b = BSTATE_FREE" "active (bomb s i)" "bm_state (bomb s i) \<noteq> BSTATE_HELD"
  shows "arena_inv (set_bomb i b (release_live o' s))" (is "arena_inv ?t")
proof -
  have o4: "o' < 4" using inv_owner [OF inv i] o by simp
  have len: "length (st_players s) = 4" "length (st_bombs s) = 16" using inv_lengths [OF inv] by auto
  have own1: "owned (set_bomb i b s) o'' + of_bool (o'' = o') = owned s o''" for o''
    using owned_set_bomb [of i s b o''] i len st b o by (auto simp: active_def)
  then have pos: "owned s o' > 0" by (metis of_bool_eq(2) add_is_0 gr0I zero_neq_one)
  let ?p = "player s o'\<lparr>pl_live_bombs := pl_live_bombs (player s o') - 1\<rparr>"
  have nz: "pl_live_bombs (player s o') \<noteq> 0" using inv_live [OF inv o4] pos by auto
  then have t: "?t = set_bomb i b (set_player o' ?p s)"
    by (simp add: release_live_def Let_def word_gt_0)
  have live: "unat (pl_live_bombs (player s o') - 1) = owned s o' - 1"
    using inv_live [OF inv o4] nz by (simp add: u8_pred)
  have own: "owned ?t o'' = (if o'' = o' then owned s o'' - 1 else owned s o'')" for o''
    using own1 [of o''] by (auto simp: t owned_def)
  have "bomb_inv ?t j" if j: "j < 16" for j
    using inv_bomb [OF inv j] inv_bomb [OF inv i] len b st j o
    unfolding t by (auto simp: bomb_inv_def arena_sizes nth_list_update_if)
  moreover have "player_inv ?t o''" if o'': "o'' < 4" for o''
  proof -
    have "hands_ok ?t o''"
      using inv_player [OF inv o''] len st o''
      unfolding t by (auto simp: player_inv_def hands_ok_def Let_def arena_sizes nth_list_update_if)
    then show ?thesis
      using inv_player [OF inv o''] len own [of o''] live o''
      by (auto simp: t player_inv_def Let_def nth_list_update_if)
  qed
  ultimately show ?thesis
    using inv_shape [OF inv] by (simp add: t arena_inv_def shape_def arena_sizes)
qed

lemma inv_detonate:
  assumes inv: "arena_inv s" and i: "i < 16" and st: "bm_state (bomb s i) = BSTATE_EXPLODING"
  shows "arena_inv (detonate i s)"
proof -
  let ?s = "spawn_blast (bomb s i) s"
  have "arena_inv ?s" using soft_spawn_blast inv by (rule soft_inv)
  moreover have "bomb ?s i = bomb s i" by (simp add: spawn_blast_def split: option.split)
  ultimately show ?thesis
    unfolding detonate_def Let_def using i st
    inv_free [of ?s i "bomb s i\<lparr>bm_state := BSTATE_FREE\<rparr>", OF _ _ _ refl] by (simp add: active_def)
qed

lemma inv_detonations: "arena_inv s \<Longrightarrow> arena_inv (detonations s)"
  unfolding detonations_def
  by (rule fold_invariant_list [where P = arena_inv]) (simp_all add: inv_detonate arena_sizes)

section \<open>Players\<close>

lemma live_limit: "uint (pl_live_bombs p) < TUNE_MAX_LIVE_BOMBS \<longleftrightarrow> unat (pl_live_bombs p) < 6"
proof -
  have "int (unat (pl_live_bombs p)) = uint (pl_live_bombs p)" by simp
  then show ?thesis unfolding tune_values by linarith
qed

lemma find_free_bombD: "find_free_bomb s = Some i \<Longrightarrow> i < length (st_bombs s) \<and> bm_state (bomb s i) = BSTATE_FREE"
  unfolding find_free_bomb_def by (rule bomb_pool.search_hit)

lemma inv_grab:
  assumes inv: "arena_inv s" and pi: "pi < 4" and take: "may_take_bomb (player s pi)"
    and "pl_state (player s pi) \<noteq> PSTATE_DEAD"
  shows "arena_inv (grab pi s)"
proof (cases "find_free_bomb s")
  case None
  then show ?thesis using inv by (simp add: grab_def)
next
  case (Some i)
  then have "i < 16" using find_free_bombD inv_lengths [OF inv] by fastforce
  then show ?thesis
    unfolding grab_def Some option.case Let_def
    using assms by (intro inv_take [OF inv pi Some])
      (auto simp: may_take_bomb_def live_limit active_def simp flip: of_nat_Suc)
qed

lemma inv_set_button:
  assumes inv: "arena_inv s" and pi: "pi < 4"
  shows "arena_inv (set_button wx wz inp prev pi s)"
proof -
  have lb: "unat (bm_owner (laid_bomb wx wz pi p)) = pi" "active (laid_bomb wx wz pi p)"
      "bm_state (laid_bomb wx wz pi p) \<noteq> BSTATE_HELD" for p
    using pi by (simp_all add: laid_bomb_def Let_def active_def)
  show ?thesis
    using inv lb
    by (auto simp: set_button_def Let_def may_take_bomb_def live_limit split: option.split
      intro!: inv_take [OF inv pi])
qed

lemma throw_bomb_fields [simp]:
  "bm_owner (throw_bomb p dir fwd up b) = bm_owner b"
  "bm_state (throw_bomb p dir fwd up b) = BSTATE_AIRBORNE"
  by (simp_all add: throw_bomb_def)

lemma inv_throw_extras:
  "arena_inv s \<Longrightarrow> pi < 4 \<Longrightarrow> unat (pl_live_bombs (player s pi)) + length angles \<le> 6 \<Longrightarrow>
     arena_inv (throw_extras pi angles s)"
proof (induction pi angles s rule: throw_extras.induct)
  case (1 pi s)
  then show ?case by simp
next
  case (2 pi angle angles s)
  show ?case
  proof (cases "find_free_bomb s")
    case None
    then show ?thesis using 2 by simp
  next
    case (Some i)
    let ?p = "player s pi\<lparr>pl_live_bombs := pl_live_bombs (player s pi) + 1\<rparr>"
    let ?b = "throw_bomb ?p (pl_yaw ?p + word_of_int angle) TUNE_SPREAD_SPEED TUNE_SPREAD_UP
                (bomb_zero\<lparr>bm_owner := of_nat pi\<rparr>)"
    let ?t = "set_player pi ?p (set_bomb i ?b s)"
    have "arena_inv ?t"
      using 2 by (intro inv_take [OF _ _ Some]) (auto simp: active_def)
    moreover have "unat (pl_live_bombs (player ?t pi)) + length angles \<le> 6"
      using 2 inv_lengths [OF 2(2)] by (simp add: u8_suc)
    ultimately have "arena_inv (throw_extras pi angles ?t)"
      using 2(1) [OF Some refl refl refl] 2(3) by simp
    then show ?thesis by (simp only: throw_extras.simps Some option.case Let_def)
  qed
qed

lemma throw_bomb_place:
  "pl_pos p = pl_pos q \<Longrightarrow> throw_bomb p dir fwd up b = throw_bomb q dir fwd up b"
  by (simp add: throw_bomb_def)

lemma commuting_updates:
  "p\<lparr>pl_live_bombs := n, pl_held_bomb := h, pl_timer := t\<rparr>
     = p\<lparr>pl_held_bomb := h, pl_timer := t, pl_live_bombs := n\<rparr>"
  by (rule ArenaPlayer.equality) simp_all

lemma empty_hands_extras:
  "pi < length (st_players s) \<Longrightarrow>
     empty_hands pi (throw_extras pi angles s) = throw_extras pi angles (empty_hands pi s)"
proof (induction pi angles s rule: throw_extras.induct)
  case (1 pi s)
  then show ?case by simp
next
  case (2 pi angle angles s)
  have f: "find_free_bomb (empty_hands pi s) = find_free_bomb s"
    by (simp add: find_free_bomb_def empty_hands_def)
  show ?case
  proof (cases "find_free_bomb s")
    case None
    then show ?thesis by (simp add: f)
  next
    case (Some i)
    let ?p = "player s pi\<lparr>pl_live_bombs := pl_live_bombs (player s pi) + 1\<rparr>"
    let ?b = "throw_bomb ?p (pl_yaw ?p + word_of_int angle) TUNE_SPREAD_SPEED TUNE_SPREAD_UP
                (bomb_zero\<lparr>bm_owner := of_nat pi\<rparr>)"
    let ?t = "set_player pi ?p (set_bomb i ?b s)"
    let ?q = "player (empty_hands pi s) pi"
    let ?q1 = "?q\<lparr>pl_live_bombs := pl_live_bombs ?q + 1\<rparr>"
    have q: "?q = player s pi\<lparr>pl_held_bomb := 0, pl_timer := 0\<rparr>" using 2(2) by (simp add: empty_hands_def)
    have b: "throw_bomb ?q1 (pl_yaw ?q1 + word_of_int angle) TUNE_SPREAD_SPEED TUNE_SPREAD_UP
                (bomb_zero\<lparr>bm_owner := of_nat pi\<rparr>) = ?b"
      by (simp add: q throw_bomb_def)
    have "empty_hands pi ?t = set_player pi ?q1 (set_bomb i ?b (empty_hands pi s))"
      using 2(2) by (simp add: q empty_hands_def set_player_def set_bomb_def commuting_updates)
    moreover have "empty_hands pi (throw_extras pi angles ?t) = throw_extras pi angles (empty_hands pi ?t)"
      using 2(1) [OF Some refl refl refl] 2(2) by simp
    ultimately show ?thesis
      by (simp only: throw_extras.simps f Some option.case Let_def b)
  qed
qed

lemma spread_extras_range:
  "0 \<le> spread_extras s p" "spread_extras s p \<le> 3"
  "unat (pl_live_bombs p) \<le> 6 \<Longrightarrow> unat (pl_live_bombs p) + nat (spread_extras s p) \<le> 6"
proof -
  have "int (unat (pl_live_bombs p)) = uint (pl_live_bombs p)" by simp
  then show "unat (pl_live_bombs p) \<le> 6 \<Longrightarrow> unat (pl_live_bombs p) + nat (spread_extras s p) \<le> 6"
    unfolding spread_extras_def Let_def tune_values by (split if_split)+ linarith
qed (simp_all add: spread_extras_def Let_def)

lemma inv_release:
  assumes inv: "arena_inv s" and pi: "pi < 4" and held: "pl_held_bomb (player s pi) \<noteq> 0"
  shows "arena_inv (release pi s)"
proof -
  let ?p = "player s pi"
  let ?hi = "unat (pl_held_bomb ?p - 1)"
  let ?q = "?p\<lparr>pl_held_bomb := 0, pl_timer := 0\<rparr>"
  have len: "length (st_players s) = 4" "length (st_bombs s) = 16" using inv_lengths [OF inv] by auto
  have thrown: "arena_inv (empty_hands pi (set_bomb ?hi b s))"
    if "bm_owner b = bm_owner (bomb s ?hi)" "bm_state b = BSTATE_AIRBORNE" for b
    using inv_let_go [OF inv pi held, of ?q b] that inv_player [OF inv pi]
    by (simp add: empty_hands_def active_def player_inv_def Let_def)
  have "arena_inv (empty_hands pi (throw_single pi ?hi s))"
    unfolding throw_single_def Let_def by (rule thrown) simp_all
  moreover have "arena_inv (empty_hands pi (throw_spread pi ?hi s))"
  proof -
    let ?t = "set_bomb ?hi (throw_bomb ?p (pl_yaw ?p + word_of_int (fan ! nat (spread_extras s ?p) ! 0))
                TUNE_SPREAD_SPEED TUNE_SPREAD_UP (bomb s ?hi)) s"
    let ?as = "take (nat (spread_extras s ?p)) (drop 1 (fan ! nat (spread_extras s ?p)))"
    have "unat (pl_live_bombs (player (empty_hands pi ?t) pi)) = unat (pl_live_bombs ?p)"
      using len pi by (simp add: empty_hands_def)
    moreover have "length ?as \<le> nat (spread_extras s ?p)" by simp
    moreover have "unat (pl_live_bombs ?p) \<le> 6"
      using inv_live [OF inv pi] inv_owned [OF inv pi] by simp
    ultimately have "unat (pl_live_bombs (player (empty_hands pi ?t) pi)) + length ?as \<le> 6"
      using spread_extras_range(3) [of ?p s] by linarith
    then have "arena_inv (throw_extras pi ?as (empty_hands pi ?t))"
      using pi by (intro inv_throw_extras thrown) simp_all
    then show ?thesis
      using len pi by (simp add: throw_spread_def Let_def empty_hands_extras)
  qed
  ultimately show ?thesis by (simp add: release_def Let_def)
qed

lemma inv_bomb_button:
  assumes "arena_inv s" and "pi < 4" and "pl_state (player s pi) \<noteq> PSTATE_DEAD"
  shows "arena_inv (bomb_button inp prev pi s)"
  using assms inv_grab inv_release soft_inv [OF soft_hold]
  by (simp add: bomb_button_def Let_def)

lemma inv_dead_tick:
  assumes inv: "arena_inv s" and pi: "pi < 4" and dead: "pl_state (player s pi) = PSTATE_DEAD"
  shows "arena_inv (set_player pi (dead_tick gp g pi inp (player s pi)) s)"
proof -
  have "pl_held_bomb (player s pi) = 0" using inv_dead [OF inv pi dead] .
  moreover have "pl_hp (player s pi) = 0" "pl_hp (player s pi) \<le> TUNE_START_HP"
    using inv_player [OF inv pi] dead by (simp_all add: player_inv_def Let_def)
  ultimately show ?thesis
    using dead by (intro inv_set_player [OF inv pi])
      (simp_all add: dead_tick_def respawn_player_def Let_def tune_values)
qed

lemma inv_live_tick:
  assumes inv: "arena_inv s" and pi: "pi < 4" and live: "pl_state (player s pi) \<noteq> PSTATE_DEAD"
  shows "arena_inv (live_tick g wx wz pi inp s)"
proof -
  let ?l = "locomotion (gameplay s) inp (player s pi)"
  let ?s1 = "set_player pi ?l s"
  have sl: "soft_player (player s pi) ?l" using live by (rule soft_locomotion)
  have "arena_inv ?s1" using soft_set_player [OF sl] inv by (rule soft_inv)
  moreover have "pl_state (player ?s1 pi) \<noteq> PSTATE_DEAD"
    using sl live inv_lengths [OF inv] pi by (simp add: soft_player_def)
  ultimately have "arena_inv (set_button wx wz inp prev pi (bomb_button inp prev pi ?s1))" for prev
    using pi by (intro inv_set_button inv_bomb_button)
  then show ?thesis
    unfolding live_tick_def Let_def
    by (rule soft_inv [rotated]) (rule soft_set_player [OF soft_finish])
qed

lemma inv_player_tick: "arena_inv s \<Longrightarrow> pi < 4 \<Longrightarrow> arena_inv (player_tick g wx wz pi inp s)"
  by (simp add: player_tick_def Let_def inv_dead_tick inv_live_tick)

lemma inv_players_tick: "arena_inv s \<Longrightarrow> arena_inv (players_tick g wx wz ins s)"
  unfolding players_tick_def
  by (rule fold_invariant_list [where P = arena_inv]) (simp_all add: inv_player_tick arena_sizes)

section \<open>Blasts\<close>

definition hurt :: "ArenaBlast \<Rightarrow> ArenaPlayer \<Rightarrow> ArenaPlayer" where
  "hurt bl p = (let q = (knock bl p)\<lparr>pl_held_bomb := 0\<rparr> in
     if pl_hp q = 0 then q\<lparr>pl_state := PSTATE_DEAD, pl_timer := TUNE_RESPAWN_TICKS\<rparr> else q)"

lemma hurt_fields:
  "pl_held_bomb (hurt bl p) = 0" "pl_live_bombs (hurt bl p) = pl_live_bombs p"
  "pl_hp (hurt bl p) = pl_hp p - 1" "pl_hp (hurt bl p) = 0 \<longleftrightarrow> pl_state (hurt bl p) = PSTATE_DEAD"
  by (simp_all add: hurt_def knock_def Let_def split_beta)

lemma blast_player_eq:
  assumes "pi < length (st_players s)"
  shows "blast_player bl pi s =
    (if vulnerable (player s pi) \<and> in_blast bl (player s pi)
     then set_player pi (hurt bl (player s pi))
       (if pl_held_bomb (player s pi) = 0 then s
        else let hi = unat (pl_held_bomb (player s pi) - 1)
             in set_bomb hi (dropped pi (player s pi) (bomb s hi)) s)
     else s)"
proof -
  let ?p = "player s pi"
  have held: "pl_held_bomb (knock bl ?p) = pl_held_bomb ?p" by (simp add: knock_def Let_def split_beta)
  have drop: "dropped pi (knock bl ?p) b = dropped pi ?p b" for b
    by (simp add: dropped_def knock_def Let_def split_beta)
  have none: "pl_held_bomb ?p = 0 \<Longrightarrow> (knock bl ?p)\<lparr>pl_held_bomb := 0\<rparr> = knock bl ?p"
    using held by (intro ArenaPlayer.equality) simp_all
  show ?thesis
    using assms held
    by (auto simp: blast_player_def drop_held_def check_death_def hurt_def Let_def drop none
      set_player_def set_bomb_def)
qed

lemma inv_blast_player:
  assumes inv: "arena_inv s" and pi: "pi < 4"
  shows "arena_inv (blast_player bl pi s)"
proof (cases "vulnerable (player s pi) \<and> in_blast bl (player s pi)")
  case True
  let ?p = "player s pi"
  have len: "pi < length (st_players s)" using inv_lengths [OF inv] pi by simp
  have hp: "pl_hp ?p \<noteq> 0" "pl_hp ?p \<le> TUNE_START_HP"
    using True inv_player [OF inv pi] by (simp_all add: vulnerable_def player_inv_def Let_def)
  then have le: "pl_hp (hurt bl ?p) \<le> TUNE_START_HP"
    by (simp add: hurt_fields word_le_nat_alt u8_pred tune_values)
  show ?thesis
  proof (cases "pl_held_bomb ?p = 0")
    case True
    then have "arena_inv (set_player pi (hurt bl ?p) s)"
      by (intro inv_set_player [OF inv pi _ _ _ hurt_fields(4) le]) (simp_all add: hurt_fields)
    then show ?thesis
      using True \<open>vulnerable ?p \<and> in_blast bl ?p\<close> by (simp add: blast_player_eq [OF len])
  next
    case False
    let ?hi = "unat (pl_held_bomb ?p - 1)"
    have "arena_inv (set_player pi (hurt bl ?p) (set_bomb ?hi (dropped pi ?p (bomb s ?hi)) s))"
      by (intro inv_let_go [OF inv pi False _ _ hurt_fields(4) le])
        (simp_all add: hurt_fields dropped_def active_def)
    then show ?thesis
      using False \<open>vulnerable ?p \<and> in_blast bl ?p\<close> by (simp add: blast_player_eq [OF len] Let_def)
  qed
next
  case False
  then show ?thesis using inv by (auto simp: blast_player_def Let_def)
qed

lemma inv_blast_tick:
  assumes inv: "arena_inv s"
  shows "arena_inv (blast_tick i s)"
proof -
  let ?bl = "grow (blast s i)"
  let ?s = "set_blast i ?bl s"
  let ?t = "?s\<lparr>st_bombs := map (chain ?bl) (st_bombs ?s)\<rparr>"
  have t: "arena_inv ?t"
    using soft_trans [OF soft_set_blast soft_chain_all] inv by (rule soft_inv)
  then have n: "unat (st_num_players ?t) \<le> 4" by (simp add: arena_inv_def shape_def arena_sizes)
  have "arena_inv (fold (blast_player ?bl) [0..<unat (st_num_players ?t)] ?t)"
    by (rule fold_invariant_list [where P = arena_inv])
      (use t n in \<open>auto intro!: inv_blast_player\<close>)
  then show ?thesis using inv by (simp add: blast_tick_def Let_def)
qed

lemma inv_blasts_tick: "arena_inv s \<Longrightarrow> arena_inv (blasts_tick s)"
  unfolding blasts_tick_def by (rule fold_invariant_list [where P = arena_inv]) (simp_all add: inv_blast_tick)

section \<open>Rounds\<close>

lemma round_reset_sel [simp]:
  "st_tick (round_reset s) = st_tick s" "st_rng (round_reset s) = st_rng s"
  "st_round (round_reset s) = st_round s" "st_phase (round_reset s) = st_phase s"
  "st_phase_timer (round_reset s) = st_phase_timer s"
  "st_arena_id (round_reset s) = st_arena_id s" "st_num_players (round_reset s) = st_num_players s"
  "st_shrink_step (round_reset s) = 0"
  by (simp_all add: round_reset_def)

lemma inv_round_reset:
  assumes "unat (st_arena_id s) < ARENA_GEOM_COUNT" and "unat (st_num_players s) \<le> 4"
  shows "arena_inv (round_reset s)"
proof -
  let ?r = "round_reset s"
  have p: "player ?r o' = reset_player (geom_of s) (st_num_players s) o' (player s o')" if "o' < 4" for o'
    using that by (simp add: round_reset_def arena_sizes)
  have b: "st_bombs ?r = replicate 16 bomb_zero" by (simp add: round_reset_def arena_sizes)
  have own: "owned ?r o' = 0" for o' by (simp add: owned_def b active_def bomb_zero_def)
  have "bomb_inv ?r i" if "i < 16" for i
    using that by (simp add: bomb_inv_def b bomb_zero_def arena_sizes)
  moreover have "player_inv ?r o'" if "o' < 4" for o'
    using own that p [OF that]
    by (simp add: player_inv_def hands_ok_def reset_player_def player_zero_def Let_def tune_values)
  moreover have "shape ?r"
    using assms by (simp add: shape_def round_reset_def arena_sizes)
  ultimately show ?thesis by (simp add: arena_inv_def arena_sizes)
qed

lemma inv_init:
  assumes "unat a < ARENA_GEOM_COUNT" and "unat n \<le> 4"
  shows "arena_inv (arena_init a n seed)"
  unfolding arena_init_def using assms by (intro inv_round_reset) (simp_all add: state_zero_def)

lemma inv_phase_tick:
  assumes inv: "arena_inv s"
  shows "arena_inv (phase_tick s)"
proof -
  have keep: "soft t u \<Longrightarrow> arena_inv t \<Longrightarrow> arena_inv u" for t u by (rule soft_inv)
  have r: "arena_inv ((round_reset t)\<lparr>st_phase := PHASE_COUNTDOWN, st_phase_timer := k\<rparr>)"
    if "arena_inv t" for t k
    using that by (intro keep [OF soft_phase_fields(1)] inv_round_reset)
      (simp_all add: arena_inv_def shape_def arena_sizes)
  have inv1: "arena_inv (s\<lparr>st_phase_timer := k\<rparr>)" for k
    using inv by (rule keep [OF soft_phase_fields(2)])
  have inv2: "arena_inv (s\<lparr>st_phase_timer := k, st_shrink_step := n\<rparr>)"
    "arena_inv (s\<lparr>st_phase_timer := k, st_phase := ph, st_shrink_step := n\<rparr>)" for k n ph
    using keep [OF soft_phase_fields(3) inv1 [of k]] keep [OF soft_phase_fields(6) inv1 [of k]] by simp_all
  have inv3: "arena_inv (s\<lparr>st_phase := ph, st_phase_timer := k\<rparr>)" for k ph
    using inv by (rule keep [OF soft_phase_fields(1)])
  have inv4: "arena_inv (s\<lparr>st_phase_timer := j, st_phase := ph, st_phase_timer := k\<rparr>)" for j k ph
    using keep [OF soft_phase_fields(1) inv1 [of j]] by simp
  show ?thesis
    using inv r [OF inv] r [OF inv1] inv1 inv2 inv3 inv4
    by (cases "st_phase s") (simp_all add: phase_tick_def Let_def)
qed

lemma inv_round_end: "arena_inv s \<Longrightarrow> arena_inv (round_end s)"
  using soft_round_end by (rule soft_inv)

lemma inv_tick_phases: "arena_inv s \<Longrightarrow> arena_inv (tick_phases g wx wz ins s)"
  unfolding tick_phases_def Let_def
  by (intro inv_blasts_tick inv_detonations soft_inv [OF soft_bombs_tick]
    soft_inv [OF soft_separate_players] inv_players_tick)

lemma inv_arena_tick: "arena_inv s \<Longrightarrow> arena_inv (arena_tick ins s)"
  unfolding arena_tick_def Let_def
  by (intro soft_inv [OF soft_phase_fields(5)] inv_round_end inv_tick_phases inv_phase_tick)

section \<open>Reachable states\<close>

inductive arena_reach :: "ArenaState \<Rightarrow> bool" where
  start: "unat a < ARENA_GEOM_COUNT \<Longrightarrow> unat n \<le> ARENA_MAX_PLAYERS \<Longrightarrow> arena_reach (arena_init a n seed)"
| tick: "arena_reach s \<Longrightarrow> length ins = ARENA_MAX_PLAYERS \<Longrightarrow> arena_reach (arena_tick ins s)"

lemma reach_inv: "arena_reach s \<Longrightarrow> arena_inv s"
  by (induction rule: arena_reach.induct) (simp_all add: inv_init inv_arena_tick arena_sizes)

interpretation sim: invariant_machine
  "\<lambda>s. \<exists>a n seed. unat a < ARENA_GEOM_COUNT \<and> unat n \<le> 4 \<and> s = arena_init a n seed"
  arena_tick "\<lambda>ins. length ins = ARENA_MAX_PLAYERS" arena_inv
  by unfold_locales (auto intro: inv_init inv_arena_tick)

lemma arena_reach_run:
  "arena_reach s \<Longrightarrow> list_all (\<lambda>ins. length ins = ARENA_MAX_PLAYERS) inss \<Longrightarrow> arena_reach (arena_run inss s)"
  unfolding arena_run_def by (induction inss arbitrary: s) (simp_all add: arena_reach.tick)

section \<open>Properties\<close>

lemma reach_example: "arena_reach (arena_init 0 4 7)"
  by (rule arena_reach.start) (simp_all add: arena_geom_count arena_sizes)

text \<open>In every reachable state of a match the stored indices are in range: the three pools have their
  full size, the arena id names a registered geometry, \<open>num_players\<close> is at most the size of the player
  array, every bomb's owner is a player slot, and every nonzero \<open>held_bomb\<close> names a bomb slot.\<close>

theorem indices_in_range:
  assumes "arena_reach s"
  shows "length (st_players s) = 4 \<and> length (st_bombs s) = 16 \<and> length (st_blasts s) = 16
    \<and> unat (st_arena_id s) < length arena_geoms \<and> unat (st_num_players s) \<le> 4
    \<and> (\<forall>i < 16. unat (bm_owner (bomb s i)) < 4) \<and> (\<forall>i < 4. unat (pl_held_bomb (player s i)) \<le> 16)"
proof -
  note inv = reach_inv [OF assms]
  have "unat (pl_held_bomb (player s i)) \<le> 16" if "i < 4" for i
    using inv_held [OF inv that] by (cases "pl_held_bomb (player s i) = 0") auto
  then show ?thesis
    using inv_shape [OF inv] inv_owner [OF inv] by (simp add: shape_def arena_sizes ARENA_GEOM_COUNT_def)
qed

theorem indices_in_range_witness:
  "arena_reach (arena_init 0 4 7) \<and> unat (bm_owner (bomb (arena_init 0 4 7) 15)) < 4"
  using reach_example indices_in_range [OF reach_example] by simp

text \<open>C4: \<open>live_bombs\<close> is exact: in every reachable state each player's counter is the number of
  slots of the bomb pool that are in use and owned by that player, and it is at most six.  So the
  counter never wraps, a detonation never finds it at zero, and no slot is leaked.\<close>

theorem live_bombs_exact:
  assumes "arena_reach s" and "i < 4"
  shows "unat (pl_live_bombs (player s i))
      = length (filter (\<lambda>b. bm_state b \<noteq> BSTATE_FREE \<and> unat (bm_owner b) = i) (st_bombs s))
    \<and> unat (pl_live_bombs (player s i)) \<le> 6"
  using inv_live [OF reach_inv [OF assms(1)] assms(2)] inv_owned [OF reach_inv [OF assms(1)] assms(2)]
  by (simp add: owned_def active_def)

theorem live_bombs_exact_witness:
  "arena_reach (arena_init 0 4 7) \<and> unat (pl_live_bombs (player (arena_init 0 4 7) 3)) \<le> 6"
  using reach_example live_bombs_exact [OF reach_example, of 3] by simp

text \<open>C13: Hands and held bombs name each other in every reachable state: player \<open>i\<close> holds slot \<open>j\<close>
  exactly when slot \<open>j\<close> is in state HELD and owned by \<open>i\<close>.  So no bomb is held twice or held by a
  hand that forgot it, and dead players hold nothing.\<close>

theorem hands_match_held_bombs:
  assumes "arena_reach s" and "i < 4" and "j < 16"
  shows "(unat (pl_held_bomb (player s i)) = j + 1
      \<longleftrightarrow> bm_state (bomb s j) = BSTATE_HELD \<and> unat (bm_owner (bomb s j)) = i)
    \<and> (pl_state (player s i) = PSTATE_DEAD \<longrightarrow> pl_held_bomb (player s i) = 0)"
proof -
  note inv = reach_inv [OF assms(1)]
  show ?thesis
    using inv_player [OF inv assms(2)] inv_bomb [OF inv assms(3)]
    by (auto simp: player_inv_def hands_ok_def bomb_inv_def Let_def)
qed

theorem hands_match_held_bombs_witness:
  "arena_reach (arena_init 0 4 7)
   \<and> (unat (pl_held_bomb (player (arena_init 0 4 7) 2)) = 6
      \<longleftrightarrow> bm_state (bomb (arena_init 0 4 7) 5) = BSTATE_HELD
        \<and> unat (bm_owner (bomb (arena_init 0 4 7) 5)) = 2)"
  using reach_example hands_match_held_bombs [OF reach_example, of 2 5] by simp

text \<open>In every reachable state a player is dead exactly when it has no hit points left, and hit
  points never exceed the starting value, so the decrement of a hit never wraps.\<close>

theorem dead_iff_no_hp:
  assumes "arena_reach s" and "i < 4"
  shows "(pl_state (player s i) = PSTATE_DEAD \<longleftrightarrow> pl_hp (player s i) = 0)
    \<and> pl_hp (player s i) \<le> TUNE_START_HP"
  using inv_player [OF reach_inv [OF assms(1)] assms(2)] by (auto simp: player_inv_def Let_def)

theorem dead_iff_no_hp_witness:
  "arena_reach (arena_init 0 4 7) \<and> pl_hp (player (arena_init 0 4 7) 0) \<le> TUNE_START_HP"
  using reach_example dead_iff_no_hp [OF reach_example, of 0] by simp

end
