(* ===== verification/Sim_Rounds.thy ===== *)
theory Sim_Rounds
  imports Sim_Inv
begin

text \<open>
  The life cycle of rounds and matches.  Phases two to five of a tick touch neither the clock
  fields nor the stocks, so the phase changes only where \<open>phase_tick\<close> and \<open>round_end\<close> change it.
\<close>

section \<open>What the middle of a tick leaves alone\<close>

definition clock :: "ArenaState \<Rightarrow> u32 \<times> u32 \<times> u8 \<times> Phase \<times> u16 \<times> u8 \<times> u8 \<times> u16" where
  "clock s = (st_tick s, st_rng s, st_round s, st_phase s, st_phase_timer s, st_arena_id s,
     st_num_players s, st_shrink_step s)"

definition stocks :: "ArenaState \<Rightarrow> u8 list" where
  "stocks s = map pl_stocks_won (st_players s)"

lemma frame_set [frame]:
  "clock (set_player i p s) = clock s" "clock (set_bomb i b s) = clock s"
  "clock (set_blast i bl s) = clock s" "stocks (set_bomb i b s) = stocks s"
  "stocks (set_blast i bl s) = stocks s" "clock (s\<lparr>st_bombs := bs\<rparr>) = clock s"
  "stocks (s\<lparr>st_bombs := bs\<rparr>) = stocks s"
  by (simp_all add: clock_def stocks_def)

lemma stocks_set_player [frame]:
  "pl_stocks_won p = pl_stocks_won (player s i) \<Longrightarrow> stocks (set_player i p s) = stocks s"
  by (cases "i < length (st_players s)")
    (simp_all add: stocks_def map_update list_update_same_conv list_update_beyond)

lemma stocks_turn [frame]: "pl_stocks_won (turn_toward target p) = pl_stocks_won p"
  by (simp add: turn_toward_def Let_def)

lemma stocks_locomotion [frame]: "pl_stocks_won (locomotion gp inp p) = pl_stocks_won p"
  by (simp add: locomotion_def steer_def accelerate_def jump_def Let_def frame split_beta)

lemma stocks_finish [frame]: "pl_stocks_won (finish_player g wx wz inp p) = pl_stocks_won p"
  by (simp add: finish_player_def upkeep_def tumble_upkeep_def ground_upkeep_def skid_def
    move_player_def Let_def split_beta)

lemma stocks_dead_tick [frame]: "pl_stocks_won (dead_tick gp g pi inp p) = pl_stocks_won p"
  by (simp add: dead_tick_def respawn_player_def Let_def)

lemma frame_throw_extras [frame]:
  "clock (throw_extras pi as s) = clock s" "stocks (throw_extras pi as s) = stocks s"
  by (induction pi as s rule: throw_extras.induct)
    (simp_all add: frame Let_def split: option.split)

lemma frame_buttons [frame]:
  "clock (bomb_button inp prev pi s) = clock s" "stocks (bomb_button inp prev pi s) = stocks s"
  "clock (set_button wx wz inp prev pi s) = clock s"
  "stocks (set_button wx wz inp prev pi s) = stocks s"
  by (simp_all add: bomb_button_def set_button_def grab_def hold_def release_def empty_hands_def
    throw_single_def throw_spread_def frame Let_def split: option.split)

lemma frame_player_tick [frame]:
  "clock (player_tick g wx wz pi inp s) = clock s"
  "stocks (player_tick g wx wz pi inp s) = stocks s"
  by (simp_all add: player_tick_def live_tick_def frame Let_def)

lemma stocks_separate [frame]:
  "pl_stocks_won (fst (separate p q)) = pl_stocks_won p"
  "pl_stocks_won (snd (separate p q)) = pl_stocks_won q"
  by (simp_all add: separate_def Let_def split_beta)

lemma frame_separate_pair [frame]:
  "clock (separate_pair ab s) = clock s" "stocks (separate_pair ab s) = stocks s"
  by (cases ab; simp add: separate_pair_def split_beta Let_def frame field_update [where f = pl_stocks_won])+

lemma frame_bomb_tick [frame]:
  "clock (bomb_tick g wx wz i s) = clock s" "stocks (bomb_tick g wx wz i s) = stocks s"
proof -
  have "clock (stand_off b pj t) = clock t" "stocks (stand_off b pj t) = stocks t" for b pj t
    by (simp_all add: stand_off_def hold_off_def Let_def frame)
  then have "clock (fold (stand_off b) pjs t) = clock t" "stocks (fold (stand_off b) pjs t) = stocks t"
    for b pjs t by (intro fold_keeps; simp)+
  then show "clock (bomb_tick g wx wz i s) = clock s" "stocks (bomb_tick g wx wz i s) = stocks s"
    by (cases "bm_state (bomb s i)"; simp add: bomb_tick_def bomb_settled_def frame Let_def)+
qed

lemma frame_detonate [frame]:
  "clock (detonate i s) = clock s" "stocks (detonate i s) = stocks s"
  by (simp_all add: detonate_def release_live_def spawn_blast_def Let_def frame split: option.split)

lemma frame_blast_player [frame]:
  "clock (blast_player bl pi s) = clock s" "stocks (blast_player bl pi s) = stocks s"
proof -
  have d: "clock (drop_held pi t) = clock t" "stocks (drop_held pi t) = stocks t"
    "clock (check_death pi t) = clock t" "stocks (check_death pi t) = stocks t" for t
    by (simp_all add: drop_held_def check_death_def Let_def frame)
  show "clock (blast_player bl pi s) = clock s" "stocks (blast_player bl pi s) = stocks s"
    by (simp_all add: blast_player_def d Let_def frame knock_def split_beta)
qed

lemma frame_blast_tick [frame]:
  "clock (blast_tick i s) = clock s" "stocks (blast_tick i s) = stocks s"
  by (simp_all add: blast_tick_def Let_def frame fold_keeps [where f = clock]
    fold_keeps [where f = stocks])

lemma frame_tick_phases [frame]:
  "clock (tick_phases g wx wz ins s) = clock s" "stocks (tick_phases g wx wz ins s) = stocks s"
proof -
  have det: "clock (detonations t) = clock t" "stocks (detonations t) = stocks t" for t
    unfolding detonations_def by (rule fold_keeps; simp add: frame)+
  show "clock (tick_phases g wx wz ins s) = clock s" "stocks (tick_phases g wx wz ins s) = stocks s"
    by (simp_all add: tick_phases_def Let_def blasts_tick_def bombs_tick_def separate_players_def
      players_tick_def det frame fold_keeps [where f = clock] fold_keeps [where f = stocks])
qed

lemmas clock_fields = clock_def prod.inject

lemma tick_phases_sel [simp]:
  "st_tick (tick_phases g wx wz ins s) = st_tick s" "st_rng (tick_phases g wx wz ins s) = st_rng s"
  "st_round (tick_phases g wx wz ins s) = st_round s"
  "st_phase (tick_phases g wx wz ins s) = st_phase s"
  "st_phase_timer (tick_phases g wx wz ins s) = st_phase_timer s"
  "st_arena_id (tick_phases g wx wz ins s) = st_arena_id s"
  "st_num_players (tick_phases g wx wz ins s) = st_num_players s"
  "st_shrink_step (tick_phases g wx wz ins s) = st_shrink_step s"
  using frame_tick_phases(1) [of g wx wz ins s] by (simp_all add: clock_def)

lemma award_clock [frame]: "clock (award s) = clock s"
  by (simp add: award_def Let_def frame)

lemma award_sel [simp]:
  "st_tick (award s) = st_tick s" "st_rng (award s) = st_rng s" "st_num_players (award s) = st_num_players s"
  "st_arena_id (award s) = st_arena_id s" "st_shrink_step (award s) = st_shrink_step s"
  using award_clock [of s] by (simp_all add: clock_def)

lemma round_end_idle: "\<not> gameplay s \<Longrightarrow> round_end s = s"
  by (simp add: round_end_def)

lemma match_over_stocks:
  "unat (st_num_players s) \<le> length (st_players s) \<Longrightarrow>
     match_over s \<longleftrightarrow> (\<exists>i < unat (st_num_players s). stocks s ! i \<ge> TUNE_ROUNDS_TO_WIN)"
  by (force simp: match_over_def list_ex_iff stocks_def)

lemma match_over_cong:
  assumes "st_num_players t = st_num_players s" and "stocks t = stocks s"
    and "unat (st_num_players s) \<le> length (st_players s)"
  shows "match_over t \<longleftrightarrow> match_over s"
proof -
  have "length (st_players t) = length (st_players s)"
    using assms(2) by (metis length_map stocks_def)
  then show ?thesis using assms by (simp add: match_over_stocks)
qed

section \<open>One tick of the clock\<close>

lemma tick_phase_when_idle:
  assumes "\<not> gameplay (phase_tick s)"
  shows "st_phase (arena_tick ins s) = st_phase (phase_tick s)"
    and "st_phase_timer (arena_tick ins s) = st_phase_timer (phase_tick s)"
    and "stocks (arena_tick ins s) = stocks (phase_tick s)"
    and "st_num_players (arena_tick ins s) = st_num_players (phase_tick s)"
proof -
  have "\<not> gameplay (tick_phases g wx wz ins (phase_tick s))" for g wx wz
    using assms by (simp add: gameplay_def)
  then show "st_phase (arena_tick ins s) = st_phase (phase_tick s)"
    "st_phase_timer (arena_tick ins s) = st_phase_timer (phase_tick s)"
    "stocks (arena_tick ins s) = stocks (phase_tick s)"
    "st_num_players (arena_tick ins s) = st_num_players (phase_tick s)"
    using frame_tick_phases(2) [of _ _ _ ins "phase_tick s"]
    by (simp_all add: arena_tick_def Let_def round_end_idle) (simp add: stocks_def)
qed

lemma stocks_reset: "length (st_players s) = 4 \<Longrightarrow> stocks (round_reset s) = stocks s"
  by (rule nth_equalityI)
    (simp_all add: stocks_def round_reset_def reset_player_def player_zero_def Let_def arena_sizes)

lemma stocks_phase_tick:
  assumes "length (st_players s) = 4"
  shows "stocks (phase_tick s) = stocks s"
proof -
  have "stocks (round_reset (s\<lparr>st_phase_timer := k\<rparr>)) = stocks s" for k
    using stocks_reset [of "s\<lparr>st_phase_timer := k\<rparr>"] assms by (simp add: stocks_def)
  moreover have "stocks (s\<lparr>st_phase_timer := k, st_phase := ph\<rparr>) = stocks s"
    "stocks (s\<lparr>st_phase_timer := k\<rparr>) = stocks s" "stocks (s\<lparr>st_phase := ph\<rparr>) = stocks s"
    "stocks (t\<lparr>st_phase := ph, st_phase_timer := k\<rparr>) = stocks t"
    "stocks (s\<lparr>st_phase_timer := k, st_phase := ph, st_shrink_step := j\<rparr>) = stocks s"
    "stocks (s\<lparr>st_phase_timer := k, st_shrink_step := j\<rparr>) = stocks s" for k j ph t
    by (simp_all add: stocks_def)
  ultimately show ?thesis
    using stocks_reset [OF assms] by (cases "st_phase s") (simp_all add: phase_tick_def Let_def)
qed

lemma unat_u16_pred: "v \<noteq> (0 :: u16) \<Longrightarrow> unat (v - 1) = unat v - 1"
  by (rule unat_minus_one)

lemma u16_one: "unat (v :: u16) = Suc 0 \<longleftrightarrow> v = 1"
  by (simp add: word_unat_eq_iff)

lemma inv_match_over:
  "arena_inv s \<Longrightarrow> st_num_players t = st_num_players s \<Longrightarrow> stocks t = stocks s \<Longrightarrow>
     match_over t \<longleftrightarrow> match_over s"
  by (rule match_over_cong) (simp_all add: arena_inv_def shape_def)

lemma phase_tick_round_end:
  assumes "st_phase s = PHASE_ROUND_END" and inv: "arena_inv s"
  shows "unat (st_phase_timer s) > 1 \<or> match_over s \<Longrightarrow>
      st_phase (phase_tick s) = PHASE_ROUND_END
      \<and> unat (st_phase_timer (phase_tick s)) = unat (st_phase_timer s) - 1
      \<and> st_num_players (phase_tick s) = st_num_players s"
    and "unat (st_phase_timer s) \<le> 1 \<Longrightarrow> \<not> match_over s \<Longrightarrow>
      st_phase (phase_tick s) = PHASE_COUNTDOWN \<and> st_phase_timer (phase_tick s) = TUNE_COUNTDOWN_TICKS"
proof -
  have m: "match_over (s\<lparr>st_phase_timer := k\<rparr>) \<longleftrightarrow> match_over s" for k
    by (simp add: match_over_def)
  have z: "st_phase_timer s - 1 = 0 \<longleftrightarrow> unat (st_phase_timer s) = Suc 0"
    by (simp add: u16_one)
  show "unat (st_phase_timer s) > 1 \<or> match_over s \<Longrightarrow>
      st_phase (phase_tick s) = PHASE_ROUND_END
      \<and> unat (st_phase_timer (phase_tick s)) = unat (st_phase_timer s) - 1
      \<and> st_num_players (phase_tick s) = st_num_players s"
    using assms(1) unat_u16_pred [of "st_phase_timer s"] by (auto simp: phase_tick_def Let_def m z word_gt_0)
  show "unat (st_phase_timer s) \<le> 1 \<Longrightarrow> \<not> match_over s \<Longrightarrow>
      st_phase (phase_tick s) = PHASE_COUNTDOWN \<and> st_phase_timer (phase_tick s) = TUNE_COUNTDOWN_TICKS"
    using assms(1) by (auto simp: phase_tick_def Let_def m z word_gt_0 le_Suc_eq u16_one unat_eq_0)
qed

lemma tick_round_end:
  assumes ph: "st_phase s = PHASE_ROUND_END" and inv: "arena_inv s"
  shows "unat (st_phase_timer s) > 1 \<or> match_over s \<Longrightarrow>
      st_phase (arena_tick ins s) = PHASE_ROUND_END
      \<and> unat (st_phase_timer (arena_tick ins s)) = unat (st_phase_timer s) - 1
      \<and> stocks (arena_tick ins s) = stocks s
      \<and> (match_over (arena_tick ins s) \<longleftrightarrow> match_over s)"
    and "unat (st_phase_timer s) \<le> 1 \<Longrightarrow> \<not> match_over s \<Longrightarrow>
      st_phase (arena_tick ins s) = PHASE_COUNTDOWN
      \<and> st_phase_timer (arena_tick ins s) = TUNE_COUNTDOWN_TICKS \<and> stocks (arena_tick ins s) = stocks s"
proof -
  have st: "stocks (phase_tick s) = stocks s"
    using inv_lengths [OF inv] by (simp add: stocks_phase_tick)
  show "st_phase (arena_tick ins s) = PHASE_ROUND_END
      \<and> unat (st_phase_timer (arena_tick ins s)) = unat (st_phase_timer s) - 1
      \<and> stocks (arena_tick ins s) = stocks s
      \<and> (match_over (arena_tick ins s) \<longleftrightarrow> match_over s)"
    if "unat (st_phase_timer s) > 1 \<or> match_over s"
  proof -
    note p = phase_tick_round_end(1) [OF ph inv that]
    then have "\<not> gameplay (phase_tick s)" by (simp add: gameplay_def)
    note t = tick_phase_when_idle [OF this, of ins]
    then show ?thesis using p st inv_match_over [OF inv, of "arena_tick ins s"] by simp
  qed
  show "st_phase (arena_tick ins s) = PHASE_COUNTDOWN
      \<and> st_phase_timer (arena_tick ins s) = TUNE_COUNTDOWN_TICKS \<and> stocks (arena_tick ins s) = stocks s"
    if "unat (st_phase_timer s) \<le> 1" "\<not> match_over s"
  proof -
    note p = phase_tick_round_end(2) [OF ph inv that]
    then have "\<not> gameplay (phase_tick s)" by (simp add: gameplay_def)
    note t = tick_phase_when_idle [OF this, of ins]
    then show ?thesis using p st by simp
  qed
qed

lemma tick_countdown:
  assumes ph: "st_phase s = PHASE_COUNTDOWN"
  shows "unat (st_phase_timer s) > 1 \<Longrightarrow>
      st_phase (arena_tick ins s) = PHASE_COUNTDOWN
      \<and> unat (st_phase_timer (arena_tick ins s)) = unat (st_phase_timer s) - 1"
    and "unat (st_phase_timer s) \<le> 1 \<Longrightarrow> st_phase (arena_tick ins s) \<noteq> PHASE_COUNTDOWN"
proof -
  have z: "st_phase_timer s - 1 = 0 \<longleftrightarrow> unat (st_phase_timer s) = Suc 0"
    by (simp add: u16_one)
  assume "unat (st_phase_timer s) > 1"
  then have p: "st_phase (phase_tick s) = PHASE_COUNTDOWN"
      "unat (st_phase_timer (phase_tick s)) = unat (st_phase_timer s) - 1"
    using ph unat_u16_pred [of "st_phase_timer s"] by (auto simp: phase_tick_def Let_def z word_gt_0)
  then have "\<not> gameplay (phase_tick s)" by (simp add: gameplay_def)
  note t = tick_phase_when_idle [OF this, of ins]
  then show "st_phase (arena_tick ins s) = PHASE_COUNTDOWN
      \<and> unat (st_phase_timer (arena_tick ins s)) = unat (st_phase_timer s) - 1"
    using p by simp
next
  assume "unat (st_phase_timer s) \<le> 1"
  then have "st_phase (phase_tick s) = PHASE_PLAY"
    using ph by (auto simp: phase_tick_def Let_def word_gt_0 le_Suc_eq u16_one unat_eq_0)
  then show "st_phase (arena_tick ins s) \<noteq> PHASE_COUNTDOWN"
    by (simp add: arena_tick_def Let_def round_end_def)
qed

section \<open>Runs through the phases\<close>

abbreviation full_inputs :: "ArenaInput list list \<Rightarrow> bool" where
  "full_inputs inss \<equiv> list_all (\<lambda>ins. length ins = ARENA_MAX_PLAYERS) inss"

definition steps_left :: "ArenaState \<Rightarrow> nat" where
  "steps_left s = max 1 (unat (st_phase_timer s))"

lemma arena_run_simps [simp]:
  "arena_run [] s = s" "arena_run (ins # inss) s = arena_run inss (arena_tick ins s)"
  by (simp_all add: arena_run_def)

lemma run_round_end:
  "arena_inv s \<Longrightarrow> st_phase s = PHASE_ROUND_END \<Longrightarrow> \<not> match_over s \<Longrightarrow> length inss \<le> steps_left s \<Longrightarrow>
     (if length inss = steps_left s
      then st_phase (arena_run inss s) = PHASE_COUNTDOWN
        \<and> st_phase_timer (arena_run inss s) = TUNE_COUNTDOWN_TICKS
      else st_phase (arena_run inss s) = PHASE_ROUND_END) \<and> stocks (arena_run inss s) = stocks s"
proof (induction inss arbitrary: s)
  case Nil
  then show ?case by (simp add: steps_left_def)
next
  case (Cons ins inss)
  show ?case
  proof (cases "unat (st_phase_timer s) > 1")
    case True
    note t = tick_round_end(1) [OF Cons.prems(2,1), of ins]
    have "steps_left (arena_tick ins s) = steps_left s - 1"
      using t True by (simp add: steps_left_def)
    then show ?thesis
      using Cons.IH [of "arena_tick ins s"] Cons.prems t True
      by (auto simp: inv_arena_tick steps_left_def split: if_splits)
  next
    case False
    then have "inss = []" using Cons.prems by (simp add: steps_left_def max_def split: if_splits)
    then show ?thesis
      using tick_round_end(2) [OF Cons.prems(2,1), of ins] Cons.prems False by (simp add: steps_left_def max_def)
  qed
qed

lemma run_countdown:
  "st_phase s = PHASE_COUNTDOWN \<Longrightarrow> length inss \<le> steps_left s \<Longrightarrow>
     st_phase (arena_run inss s) = PHASE_COUNTDOWN \<longleftrightarrow> length inss < steps_left s"
proof (induction inss arbitrary: s)
  case Nil
  then show ?case by (simp add: steps_left_def)
next
  case (Cons ins inss)
  show ?case
  proof (cases "unat (st_phase_timer s) > 1")
    case True
    note t = tick_countdown(1) [OF Cons.prems(1), of ins]
    then have "steps_left (arena_tick ins s) = steps_left s - 1"
      using True by (simp add: steps_left_def)
    then show ?thesis
      using Cons.IH [of "arena_tick ins s"] Cons.prems t True by (auto simp: steps_left_def)
  next
    case False
    then have "inss = []" using Cons.prems by (simp add: steps_left_def max_def split: if_splits)
    then show ?thesis
      using tick_countdown(2) [OF Cons.prems(1), of ins] False by (simp add: steps_left_def max_def)
  qed
qed

lemma run_match_over:
  "arena_inv s \<Longrightarrow> st_phase s = PHASE_ROUND_END \<Longrightarrow> match_over s \<Longrightarrow>
     st_phase (arena_run inss s) = PHASE_ROUND_END \<and> stocks (arena_run inss s) = stocks s"
proof (induction inss arbitrary: s)
  case (Cons ins inss)
  note t = tick_round_end(1) [OF Cons.prems(2,1), of ins]
  show ?case using Cons.IH [of "arena_tick ins s"] Cons.prems t by (simp add: inv_arena_tick)
qed simp

section \<open>Who wins a round\<close>

lemma standing_award [simp]: "standing (award s) = standing s"
proof (cases "standing s = []")
  case False
  let ?w = "last (standing s)"
  have "pl_state ((st_players s)[?w := player s ?w\<lparr>pl_stocks_won := k\<rparr>] ! i) = pl_state (player s i)" for k i
    by (rule field_update) simp
  then show ?thesis using False by (simp add: award_def Let_def standing_def [of "set_player _ _ s"])
      (simp add: standing_def)
qed (simp add: award_def)

lemma standing_iff: "i \<in> set (standing s) \<longleftrightarrow> i < unat (st_num_players s) \<and> pl_state (player s i) \<noteq> PSTATE_DEAD"
  by (auto simp: standing_def)

lemma stocks_award:
  "standing s \<noteq> [] \<Longrightarrow> last (standing s) < length (st_players s) \<Longrightarrow>
     stocks (award s) = (stocks s)[last (standing s) := stocks s ! last (standing s) + 1]"
  by (simp add: award_def Let_def stocks_def map_update)

lemma round_end_stocks:
  assumes n: "unat (st_num_players s) \<le> length (st_players s)" and ne: "stocks (round_end s) \<noteq> stocks s"
  shows "gameplay s \<and> st_phase (round_end s) = PHASE_ROUND_END \<and>
    (\<exists>w. standing (round_end s) = [w] \<and> w < unat (st_num_players s)
       \<and> stocks (round_end s) = (stocks s)[w := stocks s ! w + 1])"
proof -
  let ?r = "(award s)\<lparr>st_phase := PHASE_ROUND_END, st_phase_timer := TUNE_ROUND_END_TICKS\<rparr>"
  have r: "stocks ?r = stocks (award s)" "standing ?r = standing (award s)"
    by (simp_all add: stocks_def standing_def)
  have end': "gameplay s" "length (standing s) \<le> 1" "round_end s = ?r"
    using ne by (auto simp: round_end_def split: if_splits)
  then have "standing s \<noteq> []" using ne r by (auto simp: award_def)
  then obtain w where w: "standing s = [w]" using end'(2) by (cases "standing s") auto
  then have lt: "w < unat (st_num_players s)" using standing_iff [of w s] by simp
  then have "stocks (award s) = (stocks s)[w := stocks s ! w + 1]"
    using stocks_award [of s] w n by simp
  then show ?thesis using end' r w lt by simp
qed

lemma tick_stocks:
  assumes inv: "arena_inv s" and ne: "stocks (arena_tick ins s) \<noteq> stocks s"
  shows "st_phase (arena_tick ins s) = PHASE_ROUND_END \<and> gameplay (phase_tick s) \<and>
    (\<exists>w < unat (st_num_players s). standing (arena_tick ins s) = [w]
       \<and> stocks (arena_tick ins s) = (stocks s)[w := stocks s ! w + 1])"
proof -
  let ?m = "tick_phases (geom_of s) (wall_x_of (phase_tick s)) (wall_z_of (phase_tick s)) ins (phase_tick s)"
  have t: "arena_tick ins s = (round_end ?m)\<lparr>st_tick := st_tick (round_end ?m) + 1\<rparr>"
    by (simp add: arena_tick_def Let_def)
  have same: "stocks (arena_tick ins s) = stocks (round_end ?m)"
    "standing (arena_tick ins s) = standing (round_end ?m)"
    "st_phase (arena_tick ins s) = st_phase (round_end ?m)"
    by (simp_all add: t stocks_def standing_def)
  have st: "stocks ?m = stocks s"
    using inv_lengths [OF inv] by (simp add: frame stocks_phase_tick)
  have num: "st_num_players ?m = st_num_players s"
    by (cases "st_phase s") (simp_all add: phase_tick_def Let_def)
  have "unat (st_num_players ?m) \<le> length (st_players ?m)"
    using inv_shape [OF inv_tick_phases [OF inv_phase_tick [OF inv]]] by (simp add: shape_def)
  from round_end_stocks [OF this] ne st same
  have "gameplay ?m \<and> st_phase (round_end ?m) = PHASE_ROUND_END \<and>
    (\<exists>w. standing (round_end ?m) = [w] \<and> w < unat (st_num_players ?m)
       \<and> stocks (round_end ?m) = (stocks ?m)[w := stocks ?m ! w + 1])"
    by simp
  then show ?thesis
    unfolding same st num by (auto simp: gameplay_def)
qed

text \<open>No stock counter passes the match length, and none reaches it while a round is on.\<close>

definition stocks_inv :: "ArenaState \<Rightarrow> bool" where
  "stocks_inv s \<longleftrightarrow> list_all (\<lambda>k. unat k \<le> 3) (take (unat (st_num_players s)) (stocks s))
     \<and> (st_phase s \<noteq> PHASE_ROUND_END \<longrightarrow> \<not> match_over s)"

lemma phase_tick_static [simp]:
  "st_num_players (phase_tick s) = st_num_players s" "st_arena_id (phase_tick s) = st_arena_id s"
  "st_rng (phase_tick s) = st_rng s" "st_round (phase_tick s) = st_round s"
  "st_tick (phase_tick s) = st_tick s"
  by (cases "st_phase s"; simp add: phase_tick_def Let_def)+

lemma round_end_static [simp]:
  "st_num_players (round_end s) = st_num_players s" "st_arena_id (round_end s) = st_arena_id s"
  "st_rng (round_end s) = st_rng s" "st_tick (round_end s) = st_tick s"
  by (simp_all add: round_end_def)

lemma arena_tick_static [simp]:
  "st_num_players (arena_tick ins s) = st_num_players s"
  "st_arena_id (arena_tick ins s) = st_arena_id s" "st_rng (arena_tick ins s) = st_rng s"
  "st_tick (arena_tick ins s) = st_tick s + 1"
  by (simp_all add: arena_tick_def Let_def)

lemma gameplay_phase_tick: "gameplay (phase_tick s) \<Longrightarrow> st_phase s \<noteq> PHASE_ROUND_END"
  by (auto simp: phase_tick_def Let_def gameplay_def split: if_splits)

lemma stocks_inv_tick:
  assumes inv: "arena_inv s" and st: "stocks_inv s"
  shows "stocks_inv (arena_tick ins s)"
proof (cases "stocks (arena_tick ins s) = stocks s")
  case True
  have m: "match_over (arena_tick ins s) \<longleftrightarrow> match_over s"
    by (rule inv_match_over [OF inv _ True]) simp
  moreover have "st_phase (arena_tick ins s) = PHASE_ROUND_END"
    if "st_phase s = PHASE_ROUND_END" "match_over s"
    using tick_round_end(1) [OF that(1) inv] that(2) by simp
  ultimately show ?thesis
    using True st by (auto simp: stocks_inv_def)
next
  case False
  then obtain w where w: "w < unat (st_num_players s)"
      "stocks (arena_tick ins s) = (stocks s)[w := stocks s ! w + 1]"
    and ph: "st_phase (arena_tick ins s) = PHASE_ROUND_END" "gameplay (phase_tick s)"
    using tick_stocks [OF inv] by blast
  have n: "unat (st_num_players s) \<le> length (st_players s)"
    using inv by (simp add: arena_inv_def shape_def)
  have "\<not> match_over s" using st gameplay_phase_tick [OF ph(2)] by (simp add: stocks_inv_def)
  then have "unat (stocks s ! w) < 3"
    using w(1) n by (auto simp: match_over_stocks not_le word_less_nat_alt tune_values)
  then have "unat (stocks s ! w + 1) \<le> 3" by (simp add: u8_suc)
  then show ?thesis
    using st w ph by (simp add: stocks_inv_def take_update_swap list_all_update)
qed

lemma stocks_inv_init:
  assumes "unat n \<le> 4"
  shows "stocks_inv (arena_init a n seed)"
proof -
  have st: "stocks (arena_init a n seed) = replicate 4 0"
    by (rule nth_equalityI)
      (simp_all add: arena_init_def stocks_def round_reset_def reset_player_def player_zero_def
        state_zero_def Let_def arena_sizes)
  have num: "st_num_players (arena_init a n seed) = n" "length (st_players (arena_init a n seed)) = 4"
    by (simp_all add: arena_init_def round_reset_def arena_sizes)
  then show ?thesis
    using st assms by (simp add: stocks_inv_def match_over_stocks tune_values list_all_length min_def)
qed

lemma reach_stocks: "arena_reach s \<Longrightarrow> stocks_inv s"
proof (induction rule: arena_reach.induct)
  case (tick s ins)
  then show ?case using stocks_inv_tick reach_inv by blast
qed (simp add: stocks_inv_init arena_sizes)

section \<open>The walls\<close>

lemma phase_tick_shrink:
  "unat (st_shrink_step s) \<le> 96 \<Longrightarrow> unat (st_shrink_step (phase_tick s)) \<le> 96"
proof -
  assume a: "unat (st_shrink_step s) \<le> 96"
  have "unat (st_shrink_step s + 1) \<le> 96" if "st_shrink_step s < 96"
    using that by (simp add: word_less_nat_alt unat_word_ariths)
  with a show ?thesis
    by (cases "st_phase s") (auto simp: phase_tick_def Let_def)
qed

lemma reach_shrink: "arena_reach s \<Longrightarrow> unat (st_shrink_step s) \<le> 96"
  by (induction rule: arena_reach.induct)
    (simp_all add: arena_init_def arena_tick_def Let_def round_end_def phase_tick_shrink)

lemma Q_shrink: "Qc 3 100 = 122"
  by (simp add: Qc_def Q_ONE_def tdiv_def)

lemma wall_shrink_range: "unat (st_shrink_step s) \<le> 96 \<Longrightarrow> 0 \<le> wall_shrink s \<and> wall_shrink s \<le> 11712"
proof -
  assume "unat (st_shrink_step s) \<le> 96"
  then have r: "uint (st_shrink_step s) \<le> 96" "0 \<le> uint (st_shrink_step s)"
    using of_nat_unat [of "st_shrink_step s", where 'a = int] by linarith+
  then have "i32 (uint (st_shrink_step s) * 122) = uint (st_shrink_step s) * 122"
    by (intro i32_id) linarith+
  then show ?thesis using r by (simp add: wall_shrink_def Q_shrink)
qed

lemma geom_half:
  assumes "unat (st_arena_id s) < ARENA_GEOM_COUNT"
  shows "24576 \<le> half_x (geom_of s) \<and> half_x (geom_of s) \<le> 32426
    \<and> 24576 \<le> half_z (geom_of s) \<and> half_z (geom_of s) \<le> 32426"
proof -
  have "geom_of s = arena_nitros_standin \<or> geom_of s = arena_classic"
    using assms arena_geoms_cases by (simp add: geom_of_def arena_geom_count)
  then show ?thesis by auto
qed

lemma wall_range:
  assumes "unat (st_arena_id s) < ARENA_GEOM_COUNT" and "unat (st_shrink_step s) \<le> 96"
  shows "12864 \<le> wall_x_of s \<and> wall_x_of s \<le> 32426" and "12864 \<le> wall_z_of s \<and> wall_z_of s \<le> 32426"
  using geom_half [OF assms(1)] wall_shrink_range [OF assms(2)]
  by (simp_all add: wall_x_of_def wall_z_of_def i32_id)

section \<open>Properties\<close>

text \<open>A state in the pause after a round, and one after a match, for the concrete instances.\<close>

definition after_round :: ArenaState where
  "after_round = (arena_init 0 4 7)\<lparr>st_phase := PHASE_ROUND_END, st_phase_timer := 2\<rparr>"

definition after_match :: ArenaState where
  "after_match = set_player 1 (player after_round 1\<lparr>pl_stocks_won := 3\<rparr>) after_round"

lemma after_round_facts:
  "arena_inv after_round" "st_phase after_round = PHASE_ROUND_END" "\<not> match_over after_round"
  "steps_left after_round = 2"
proof -
  have i: "arena_inv (arena_init 0 4 7)" by (rule inv_init) (simp_all add: arena_geom_count)
  show "arena_inv after_round"
    unfolding after_round_def using soft_phase_fields(1) i by (rule soft_inv)
  have "\<not> match_over (arena_init 0 4 7)"
    using stocks_inv_init [of 4 0 7] by (simp add: stocks_inv_def arena_init_def)
  then show "\<not> match_over after_round" by (simp add: after_round_def match_over_def)
qed (simp_all add: after_round_def steps_left_def)

lemma after_match_facts: "arena_inv after_match" "st_phase after_match = PHASE_ROUND_END" "match_over after_match"
proof -
  show "arena_inv after_match"
    unfolding after_match_def
    by (rule soft_inv [OF soft_set_player after_round_facts(1)]) (simp add: soft_player_def)
  have "length (st_players after_round) = 4" using inv_lengths [OF after_round_facts(1)] by simp
  then show "match_over after_match"
    by (auto simp: match_over_def after_match_def list_ex_iff after_round_def arena_init_def
      tune_values intro!: bexI [of _ 1])
qed (simp add: after_match_def after_round_facts)

text \<open>A countdown ends on time: the phase is COUNTDOWN for exactly as many ticks as its timer
  says (at least one), whatever the inputs.\<close>

theorem countdown_is_exact:
  assumes "st_phase s = PHASE_COUNTDOWN" and "length inss \<le> max 1 (unat (st_phase_timer s))"
  shows "st_phase (arena_run inss s) = PHASE_COUNTDOWN
    \<longleftrightarrow> length inss < max 1 (unat (st_phase_timer s))"
  using run_countdown [OF assms(1), of inss] assms(2) by (simp add: steps_left_def)

theorem countdown_is_exact_witness:
  "st_phase (arena_run [[0, 0, 0, 0]] ((arena_init 0 4 7)\<lparr>st_phase_timer := 2\<rparr>)) = PHASE_COUNTDOWN"
  using countdown_is_exact [of "(arena_init 0 4 7)\<lparr>st_phase_timer := 2\<rparr>" "[[0, 0, 0, 0]]"]
  by (simp add: arena_init_def)

text \<open>Once a player has taken the match, the simulation stays in ROUND_END for ever, with the
  final score: ending the match is left to the session.\<close>

theorem match_end_is_final:
  assumes "arena_inv s" and "st_phase s = PHASE_ROUND_END" and "match_over s"
  shows "st_phase (arena_run inss s) = PHASE_ROUND_END \<and> stocks (arena_run inss s) = stocks s"
  using assms by (rule run_match_over)

theorem match_end_is_final_witness:
  "match_over after_match
   \<and> st_phase (arena_run (replicate 1000 [0, 0, 0, 0]) after_match) = PHASE_ROUND_END"
  using match_end_is_final [OF after_match_facts] after_match_facts(3) by simp

text \<open>C39: A tick changes the score in one way only: during play, when exactly one of the match's
  players is left standing, that player gains one stock and the round ends.\<close>

theorem only_the_survivor_scores:
  assumes "arena_inv s"
  shows "stocks (arena_tick ins s) = stocks s \<or>
    (gameplay (phase_tick s) \<and> st_phase (arena_tick ins s) = PHASE_ROUND_END \<and>
     (\<exists>w < unat (st_num_players s). standing (arena_tick ins s) = [w]
        \<and> stocks (arena_tick ins s) = (stocks s)[w := stocks s ! w + 1]))"
  using tick_stocks [OF assms, of ins] by blast

theorem only_the_survivor_scores_witness:
  "arena_inv after_round \<and>
   (stocks (arena_tick [0, 0, 0, 0] after_round) = stocks after_round \<or>
    (\<exists>w < 4. standing (arena_tick [0, 0, 0, 0] after_round) = [w]))"
proof -
  have "st_num_players after_round = 4" by (simp add: after_round_def arena_init_def)
  then show ?thesis
    using only_the_survivor_scores [OF after_round_facts(1), of "[0, 0, 0, 0]"] after_round_facts(1) by auto
qed

text \<open>No player of a reachable match ever has more than three stocks, and while a round is being
  played nobody has three yet: the counter cannot pass the match length, let alone wrap.\<close>

theorem stocks_bounded:
  assumes "arena_reach s"
  shows "(\<forall>i < unat (st_num_players s). unat (pl_stocks_won (player s i)) \<le> 3)
    \<and> (st_phase s \<noteq> PHASE_ROUND_END \<longrightarrow>
        (\<forall>i < unat (st_num_players s). unat (pl_stocks_won (player s i)) < 3))"
proof -
  have n: "unat (st_num_players s) \<le> length (st_players s)"
    using reach_inv [OF assms] by (simp add: arena_inv_def shape_def)
  then show ?thesis
    using reach_stocks [OF assms]
    by (auto simp: stocks_inv_def match_over_stocks list_all_length stocks_def tune_values
      word_le_nat_alt not_le)
qed

theorem stocks_bounded_witness:
  "arena_reach (arena_init 0 4 7) \<and> unat (pl_stocks_won (player (arena_init 0 4 7) 3)) \<le> 3"
proof -
  have "st_num_players (arena_init 0 4 7) = 4" by (simp add: arena_init_def)
  then show ?thesis
    using reach_example stocks_bounded [OF reach_example, THEN conjunct1, rule_format, of 3] by simp
qed

text \<open>Sudden death shrinks the arena but never closes it: in every reachable state the walls
  stand at least 12864 units (3.14 in world units) from the centre, so the corridor left for a
  player or a bomb is never empty, and the subtraction never wraps.\<close>

theorem walls_never_close:
  assumes "arena_reach s"
  shows "12864 \<le> wall_x_of s \<and> wall_x_of s \<le> half_x (geom_of s)
    \<and> 12864 \<le> wall_z_of s \<and> wall_z_of s \<le> half_z (geom_of s)"
proof -
  have a: "unat (st_arena_id s) < ARENA_GEOM_COUNT"
    using reach_inv [OF assms] by (simp add: arena_inv_def shape_def)
  note r = geom_half [OF a] wall_shrink_range [OF reach_shrink [OF assms]]
  then show ?thesis by (simp add: wall_x_of_def wall_z_of_def i32_id)
qed

theorem walls_never_close_witness:
  "arena_reach (arena_init 0 4 7) \<and> 12864 \<le> wall_x_of (arena_init 0 4 7)"
  using reach_example walls_never_close [OF reach_example] by simp

end
