(* ===== verification/Sim_Combat.thy ===== *)
theory Sim_Combat
  imports Sim_Rounds
begin

text \<open>
  Bombs, blasts and damage over a whole tick.  The first part says which slots and players each
  step leaves alone; from it follow the life of a fuse, of a blast, and of a hit.
\<close>

section \<open>Slots in use are only changed by their own steps\<close>

definition settled_slot :: "ArenaBomb \<Rightarrow> bool" where
  "settled_slot b \<longleftrightarrow> bm_state b \<noteq> BSTATE_FREE \<and> bm_state b \<noteq> BSTATE_HELD"

lemma free_slot_other:
  "find_free_bomb s = Some i \<Longrightarrow> bm_state (bomb s j) \<noteq> BSTATE_FREE \<Longrightarrow> i \<noteq> j"
  using find_free_bombD [of s i] by auto

lemma keep_throw_extras:
  "bm_state (bomb s j) \<noteq> BSTATE_FREE \<Longrightarrow> bomb (throw_extras pi as s) j = bomb s j"
  by (induction pi as s rule: throw_extras.induct)
    (auto simp: Let_def free_slot_other split: option.split)

lemma keep_release:
  assumes inv: "arena_inv s" and pi: "pi < 4" and held: "pl_held_bomb (player s pi) \<noteq> 0"
    and j: "settled_slot (bomb s j)"
  shows "bomb (release pi s) j = bomb s j"
proof -
  let ?hi = "unat (pl_held_bomb (player s pi) - 1)"
  have "?hi \<noteq> j" using inv_held(2) [OF inv pi held] j by (auto simp: settled_slot_def)
  then have "bomb (throw_single pi ?hi s) j = bomb s j" "bomb (throw_spread pi ?hi s) j = bomb s j"
    using j by (simp_all add: throw_single_def throw_spread_def Let_def keep_throw_extras settled_slot_def)
  then show ?thesis by (simp add: release_def Let_def empty_hands_def)
qed

lemma keep_bomb_button:
  assumes "arena_inv s" and "pi < 4" and "settled_slot (bomb s j)"
  shows "bomb (bomb_button inp prev pi s) j = bomb s j"
  using assms keep_release [OF assms(1,2) _ assms(3)]
  by (auto simp: bomb_button_def grab_def hold_def Let_def settled_slot_def free_slot_other
    split: option.split)

lemma keep_set_button:
  "bm_state (bomb s j) \<noteq> BSTATE_FREE \<Longrightarrow> bomb (set_button wx wz inp prev pi s) j = bomb s j"
  by (auto simp: set_button_def Let_def free_slot_other split: option.split)

lemma keep_player_tick:
  assumes inv: "arena_inv s" and pi: "pi < 4" and j: "settled_slot (bomb s j)"
  shows "bomb (player_tick g wx wz pi inp s) j = bomb s j"
proof (cases "pl_state (player s pi) = PSTATE_DEAD")
  case True
  then show ?thesis by (simp add: player_tick_def Let_def)
next
  case False
  let ?s = "set_player pi (locomotion (gameplay s) inp (player s pi)) s"
  have "arena_inv ?s" using soft_set_player [OF soft_locomotion [OF False]] inv by (rule soft_inv)
  then have "bomb (bomb_button inp prev pi ?s) j = bomb s j" for prev
    using keep_bomb_button [OF _ pi, of ?s j] j by simp
  then show ?thesis
    using False j by (simp add: player_tick_def live_tick_def Let_def keep_set_button settled_slot_def)
qed

lemma keep_players_tick:
  assumes "arena_inv s" and "settled_slot (bomb s j)"
  shows "bomb (players_tick g wx wz ins s) j = bomb s j"
proof -
  have "arena_inv (fold (\<lambda>i. player_tick g wx wz i (ins ! i)) ps s)
      \<and> bomb (fold (\<lambda>i. player_tick g wx wz i (ins ! i)) ps s) j = bomb s j"
    if "list_all (\<lambda>i. i < 4) ps" for ps
    using that assms by (induction ps arbitrary: s) (simp_all add: inv_player_tick keep_player_tick)
  from this [of "[0..<4]"] show ?thesis by (simp add: players_tick_def arena_sizes list_all_iff)
qed

lemma keep_separate_players [simp]: "st_bombs (separate_players s) = st_bombs s"
  unfolding separate_players_def
  by (rule fold_keeps) (simp add: separate_pair_def split_beta Let_def)

lemma st_bombs_stand_off [simp]: "st_bombs (fold (stand_off b) pjs s) = st_bombs s"
  by (rule fold_keeps) (simp add: stand_off_def Let_def)

lemma keep_bomb_tick: "i \<noteq> j \<Longrightarrow> bomb (bomb_tick g wx wz i s) j = bomb s j"
  by (cases "bm_state (bomb s i)") (simp_all add: bomb_tick_def bomb_settled_def Let_def)

lemma keep_detonate: "i \<noteq> j \<Longrightarrow> bomb (detonate i s) j = bomb s j"
  by (simp add: detonate_def release_live_def spawn_blast_def Let_def split: option.split)

text \<open>A fold over the slots in order acts on slot \<open>j\<close> by its own step alone.\<close>

lemma fold_slot:
  assumes keep: "\<And>i s. i \<noteq> j \<Longrightarrow> f (step i s) = f s" and own: "\<And>s. P (f s) \<Longrightarrow> Q (f (step j s))"
    and "P (f s)" and "j < n"
  shows "Q (f (fold step [0..<n] s))"
proof -
  have split: "[0..<n] = [0..<j] @ j # [Suc j..<n]"
    using \<open>j < n\<close> upt_add_eq_append [of 0 j "n - j"] by (simp add: upt_conv_Cons)
  have pass: "f (fold step ks t) = f t" if "j \<notin> set ks" for ks t
    using that by (induction ks arbitrary: t) (auto simp: keep)
  have "P (f (fold step [0..<j] s))" using \<open>P (f s)\<close> by (simp add: pass)
  then show ?thesis by (simp add: split pass own)
qed

lemma keep_blast_player:
  assumes inv: "arena_inv s" and pi: "pi < 4" and j: "bm_state (bomb s j) \<noteq> BSTATE_HELD"
  shows "bomb (blast_player bl pi s) j = bomb s j"
proof -
  have "pi < length (st_players s)" using inv_lengths [OF inv] pi by simp
  moreover have "unat (pl_held_bomb (player s pi) - 1) \<noteq> j" if "pl_held_bomb (player s pi) \<noteq> 0"
    using inv_held(2) [OF inv pi that] j by auto
  ultimately show ?thesis by (auto simp: blast_player_eq Let_def)
qed

definition chained :: "ArenaBomb \<Rightarrow> ArenaBomb \<Rightarrow> bool" where
  "chained b c \<longleftrightarrow> c = b \<or> chainable (bm_state b) \<and> c = b\<lparr>bm_state := BSTATE_EXPLODING\<rparr>"

lemma chained_refl [simp]: "chained b b"
  by (simp add: chained_def)

lemma chained_chain: "chained b c \<Longrightarrow> chained b (chain bl c)"
  by (auto simp: chained_def chain_def chainable_def)

lemma chained_not_held: "chained b c \<Longrightarrow> bm_state b \<noteq> BSTATE_HELD \<Longrightarrow> bm_state c \<noteq> BSTATE_HELD"
  by (auto simp: chained_def)

lemma blast_tick_slot:
  assumes inv: "arena_inv s" and j: "j < 16" and st: "bm_state b \<noteq> BSTATE_HELD" "chained b (bomb s j)"
  shows "chained b (bomb (blast_tick i s) j)"
proof -
  let ?bl = "grow (blast s i)"
  let ?s = "set_blast i ?bl s"
  let ?t = "?s\<lparr>st_bombs := map (chain ?bl) (st_bombs ?s)\<rparr>"
  have t: "arena_inv ?t"
    using soft_trans [OF soft_set_blast soft_chain_all] inv by (rule soft_inv)
  have n: "unat (st_num_players s) \<le> 4" using inv by (simp add: arena_inv_def shape_def arena_sizes)
  have "chained b (bomb ?t j)"
    using st j inv_lengths [OF inv] by (simp add: chained_chain)
  then have "arena_inv (fold (blast_player ?bl) [0..<unat (st_num_players s)] ?t)
      \<and> chained b (bomb (fold (blast_player ?bl) [0..<unat (st_num_players s)] ?t) j)"
    using t n st(1)
    by (intro fold_invariant_list [where P = "\<lambda>u. arena_inv u \<and> chained b (bomb u j)"])
      (auto intro!: inv_blast_player simp: keep_blast_player chained_not_held)
  then show ?thesis using st by (simp add: blast_tick_def Let_def)
qed

lemma blasts_tick_slot:
  assumes inv: "arena_inv s" and j: "j < 16" and st: "bm_state (bomb s j) \<noteq> BSTATE_HELD"
  shows "chained (bomb s j) (bomb (blasts_tick s) j)"
proof -
  have "arena_inv (blasts_tick s) \<and> chained (bomb s j) (bomb (blasts_tick s) j)"
    unfolding blasts_tick_def
    by (rule fold_invariant_list [where P = "\<lambda>u. arena_inv u \<and> chained (bomb s j) (bomb u j)"])
      (use inv j st in \<open>auto intro: inv_blast_tick blast_tick_slot\<close>)
  then show ?thesis ..
qed

section \<open>Fuses\<close>

definition burning :: "ArenaBomb \<Rightarrow> bool" where
  "burning b \<longleftrightarrow> bm_state b = BSTATE_SETTLED \<or> bm_state b = BSTATE_SLIDING \<or> bm_state b = BSTATE_FALLING"

definition burnt :: "ArenaBomb \<Rightarrow> ArenaBomb \<Rightarrow> bool" where
  "burnt b c \<longleftrightarrow> bm_state c = BSTATE_EXPLODING
     \<or> burning c \<and> unat (bm_fuse b) = unat (bm_fuse c) + 1
       \<and> (bm_state b = BSTATE_SLIDING \<longrightarrow> bm_state c = BSTATE_SLIDING)"

lemma burnt_burn:
  assumes "burning b" and "bm_fuse b = bm_fuse a"
    and "bm_state a = BSTATE_SLIDING \<Longrightarrow> bm_state b = BSTATE_SLIDING"
  shows "burnt a (burn b)"
proof (cases "bm_fuse b = 0")
  case True
  then show ?thesis by (simp add: burn_def burnt_def)
next
  case False
  define k where "k = bm_fuse b - 1"
  have k: "unat (bm_fuse a) = unat k + 1"
  proof -
    have "unat (bm_fuse b) \<noteq> 0" using False by (simp only: unat_eq_0 not_False_eq_True)
    then show ?thesis
      using unat_u16_pred [OF False] unfolding k_def assms(2) [symmetric] by linarith
  qed
  have "burn b = (if k = 0 then b\<lparr>bm_fuse := k, bm_state := BSTATE_EXPLODING\<rparr> else b\<lparr>bm_fuse := k\<rparr>)"
    using False by (simp add: burn_def Let_def word_gt_0 k_def)
  then show ?thesis
    using assms(1,3) k by (auto simp: burnt_def burning_def)
qed

lemma burnt_falling:
  assumes "bm_state b = BSTATE_FALLING"
  shows "burnt b (bomb_falling wx wz s b)"
proof -
  define op where "op = player s (unat (bm_owner b))"
  define d where "d = (if bm_attach b > 0 \<and> (pl_state op = PSTATE_DEAD \<or> pl_state op = PSTATE_TUMBLE)
     then let_go b else b)"
  define c where "c = (if bm_attach d > 0 then ride wx wz op d else drop_step d)"
  have d: "bm_state d = BSTATE_FALLING" "bm_fuse d = bm_fuse b"
    using assms by (simp_all add: d_def let_go_def)
  then have "burning c" "bm_fuse c = bm_fuse b"
    by (simp_all add: c_def ride_def drop_step_def burning_def Let_def)
  then have "burnt b (burn c)" using assms by (intro burnt_burn) simp_all
  then show ?thesis by (simp only: bomb_falling_def Let_def c_def d_def op_def)
qed

lemma burnt_sliding:
  assumes "bm_state b = BSTATE_SLIDING"
  shows "burnt b (bomb_sliding g wx wz i s b)"
proof -
  let ?c = "slide_players s [0..<unat (st_num_players s)] (slide_move b)"
  have "bm_state (slide_move b) = BSTATE_SLIDING" "bm_fuse (slide_move b) = bm_fuse b"
    using assms by (simp_all add: slide_move_def)
  then have c: "bm_state ?c = BSTATE_SLIDING \<or> bm_state ?c = BSTATE_EXPLODING" "bm_fuse ?c = bm_fuse b"
    using slide_players_cases [of "slide_move b" s "[0..<unat (st_num_players s)]"] by (auto simp: Let_def)
  have "bm_state (bomb_collide g wx wz ?c) = bm_state ?c" "bm_fuse (bomb_collide g wx wz ?c) = bm_fuse ?c"
    by (simp_all add: bomb_collide_def split_beta)
  with c have "burnt b (burn (bomb_collide g wx wz ?c))" if "bm_state ?c = BSTATE_SLIDING"
    using that by (intro burnt_burn) (simp_all add: burning_def)
  then show ?thesis using c by (auto simp: bomb_sliding_def Let_def burnt_def)
qed

text \<open>A kick turns a settled bomb into a sliding one without burning its fuse that tick.\<close>

definition kicked :: "ArenaBomb \<Rightarrow> ArenaBomb \<Rightarrow> bool" where
  "kicked b c \<longleftrightarrow> bm_state b = BSTATE_SETTLED \<and> bm_state c = BSTATE_SLIDING \<and> bm_fuse c = bm_fuse b"

lemma settled_step:
  assumes st: "bm_state (bomb s j) = BSTATE_SETTLED" and j: "j < length (st_bombs s)"
  shows "burnt (bomb s j) (bomb (bomb_settled j s) j) \<or> kicked (bomb s j) (bomb (bomb_settled j s) j)"
proof -
  let ?b = "kick_players s [0..<unat (st_num_players s)] (bomb s j)"
  have b: "bm_state ?b = BSTATE_SETTLED \<or> bm_state ?b = BSTATE_SLIDING" "bm_fuse ?b = bm_fuse (bomb s j)"
    using kick_players_cases [OF st] by (auto simp: Let_def)
  show ?thesis
  proof (cases "bm_state ?b = BSTATE_SETTLED")
    case True
    have "burnt (bomb s j) (burn ?b)" by (rule burnt_burn) (simp_all add: burning_def True b st)
    then show ?thesis using True j by (simp add: bomb_settled_def Let_def)
  next
    case False
    then show ?thesis using b st j by (simp add: bomb_settled_def Let_def kicked_def)
  qed
qed

lemma bombs_tick_burning:
  assumes st: "burning (bomb s j)" and j: "j < length (st_bombs s)" "j < 16"
  shows "burnt (bomb s j) (bomb (bombs_tick g wx wz s) j) \<or> kicked (bomb s j) (bomb (bombs_tick g wx wz s) j)"
proof -
  let ?f = "\<lambda>t. (length (st_bombs t), bomb t j)"
  have len: "length (st_bombs (bomb_tick g wx wz i t)) = length (st_bombs t)" for i t
    by (cases "bm_state (bomb t i)") (simp_all add: bomb_tick_def bomb_settled_def Let_def)
  have own: "burnt (bomb s j) (bomb (bomb_tick g wx wz j t) j)
      \<or> kicked (bomb s j) (bomb (bomb_tick g wx wz j t) j)"
    if "bomb t j = bomb s j" "burning (bomb t j)" "j < length (st_bombs t)" for t
    using that burnt_falling burnt_sliding settled_step [of t j]
    by (auto simp: bomb_tick_def Let_def burning_def)
  have "(\<lambda>(n, c). burnt (bomb s j) c \<or> kicked (bomb s j) c)
    (?f (fold (bomb_tick g wx wz) [0..<16] s))"
    by (rule fold_slot [where P = "\<lambda>(n, c). c = bomb s j \<and> j < n"])
      (use st j own in \<open>auto simp: len keep_bomb_tick\<close>)
  then show ?thesis by (simp add: bombs_tick_def arena_sizes)
qed

lemma bombs_tick_exploding:
  assumes "bm_state (bomb s j) = BSTATE_EXPLODING" and "j < 16"
  shows "bomb (bombs_tick g wx wz s) j = bomb s j"
proof -
  have own: "bomb_tick g wx wz j t = t" if "bm_state (bomb t j) = BSTATE_EXPLODING" for t
    using that by (simp add: bomb_tick_def Let_def)
  have "(\<lambda>c. c = bomb s j) (bomb (fold (bomb_tick g wx wz) [0..<16] s) j)"
    by (rule fold_slot [where f = "\<lambda>t. bomb t j" and P = "\<lambda>c. c = bomb s j"])
      (use assms in \<open>auto simp: keep_bomb_tick own\<close>)
  then show ?thesis by (simp add: bombs_tick_def arena_sizes)
qed

lemma detonations_slot:
  assumes j: "j < length (st_bombs s)" "j < 16"
  shows "bomb (detonations s) j =
    (if bm_state (bomb s j) = BSTATE_EXPLODING then bomb s j\<lparr>bm_state := BSTATE_FREE\<rparr> else bomb s j)"
proof -
  let ?step = "\<lambda>i t. if bm_state (bomb t i) = BSTATE_EXPLODING then detonate i t else t"
  let ?f = "\<lambda>t. (length (st_bombs t), bomb t j)"
  let ?r = "if bm_state (bomb s j) = BSTATE_EXPLODING then bomb s j\<lparr>bm_state := BSTATE_FREE\<rparr> else bomb s j"
  have len: "length (st_bombs (detonate i t)) = length (st_bombs t)" for i t
    by (simp add: detonate_def release_live_def spawn_blast_def Let_def split: option.split)
  have own: "bomb (detonate j t) j = bomb t j\<lparr>bm_state := BSTATE_FREE\<rparr>" if "j < length (st_bombs t)" for t
    using that by (simp add: detonate_def release_live_def spawn_blast_def Let_def split: option.split)
  have "(\<lambda>(n, c). c = ?r) (?f (fold ?step [0..<16] s))"
    by (rule fold_slot [where P = "\<lambda>(n, c). c = bomb s j \<and> j < n"])
      (use j own in \<open>auto simp: len keep_detonate\<close>)
  then show ?thesis by (simp add: detonations_def arena_sizes)
qed

text \<open>One whole tick, for a slot that is burning or exploding.\<close>

lemma phase_tick_bombs:
  "st_bombs (phase_tick s) = st_bombs s \<or> st_bombs (phase_tick s) = replicate 16 bomb_zero"
  by (cases "st_phase s") (auto simp: phase_tick_def Let_def round_reset_def arena_sizes)

lemma round_end_bombs [simp]: "st_bombs (round_end s) = st_bombs s"
  by (simp add: round_end_def award_def Let_def)

lemma arena_tick_bombs:
  "bomb (arena_tick ins s) j = bomb (tick_phases (geom_of s) (wall_x_of (phase_tick s))
     (wall_z_of (phase_tick s)) ins (phase_tick s)) j"
  by (simp add: arena_tick_def Let_def)

lemma tick_phases_slot:
  assumes inv: "arena_inv s" and j: "j < 16"
    and st: "bm_state (bomb s j) = BSTATE_EXPLODING \<or> burning (bomb s j)"
    and t: "t = tick_phases g wx wz ins s"
  shows "bm_state (bomb s j) = BSTATE_EXPLODING \<Longrightarrow> bm_state (bomb t j) = BSTATE_FREE"
    and "burning (bomb s j) \<Longrightarrow> bm_state (bomb t j) = BSTATE_FREE
      \<or> bm_state (bomb t j) = BSTATE_EXPLODING
          \<and> (0 < unat (bm_fuse (bomb s j)) \<or> bm_state (bomb s j) = BSTATE_SETTLED)
      \<or> burning (bomb t j) \<and> burnt (bomb s j) (bomb t j) \<or> kicked (bomb s j) (bomb t j)"
proof -
  let ?s1 = "separate_players (players_tick g wx wz ins s)"
  let ?s2 = "bombs_tick g wx wz ?s1"
  let ?s3 = "detonations ?s2"
  have inv1: "arena_inv ?s1" by (intro soft_inv [OF soft_separate_players] inv_players_tick inv)
  have inv2: "arena_inv ?s2" using soft_bombs_tick inv1 by (rule soft_inv)
  have inv3: "arena_inv ?s3" using inv2 by (rule inv_detonations)
  have "settled_slot (bomb s j)" using st by (auto simp: settled_slot_def burning_def)
  then have b1: "bomb ?s1 j = bomb s j" using inv by (simp add: keep_players_tick)
  have b3: "bomb ?s3 j = (if bm_state (bomb ?s2 j) = BSTATE_EXPLODING
      then bomb ?s2 j\<lparr>bm_state := BSTATE_FREE\<rparr> else bomb ?s2 j)"
    using inv_lengths [OF inv2] j by (simp add: detonations_slot)
  have t: "t = blasts_tick ?s3" by (simp add: t tick_phases_def Let_def)
  have ch: "chained (bomb ?s3 j) (bomb t j)" if "bm_state (bomb ?s3 j) \<noteq> BSTATE_HELD"
    unfolding t using inv3 j that by (rule blasts_tick_slot)
  show "bm_state (bomb t j) = BSTATE_FREE" if e: "bm_state (bomb s j) = BSTATE_EXPLODING"
  proof -
    have "bomb ?s2 j = bomb s j" using e j b1 by (simp add: bombs_tick_exploding)
    then show ?thesis using b3 e ch by (auto simp: chained_def chainable_def)
  qed
  show "bm_state (bomb t j) = BSTATE_FREE \<or> bm_state (bomb t j) = BSTATE_EXPLODING
        \<and> (0 < unat (bm_fuse (bomb s j)) \<or> bm_state (bomb s j) = BSTATE_SETTLED)
      \<or> burning (bomb t j) \<and> burnt (bomb s j) (bomb t j) \<or> kicked (bomb s j) (bomb t j)" if b: "burning (bomb s j)"
  proof -
    have "burnt (bomb s j) (bomb ?s2 j) \<or> kicked (bomb s j) (bomb ?s2 j)"
      using bombs_tick_burning [of ?s1 j g wx wz] b b1 j inv_lengths [OF inv1] by simp
    then show ?thesis
      using b3 ch by (auto simp: chained_def chainable_def burnt_def kicked_def burning_def split: if_splits)
  qed
qed

lemma gameplay_clock: "clock t = clock s \<Longrightarrow> gameplay t = gameplay s"
  by (simp add: clock_def gameplay_def)

lemma idle_player_tick_bombs:
  "\<not> gameplay s \<Longrightarrow> st_bombs (player_tick g wx wz pi inp s) = st_bombs s"
  by (simp add: player_tick_def live_tick_def bomb_button_def set_button_def Let_def
    gameplay_clock [OF frame_set(1)])

lemma idle_players_tick_bombs:
  assumes "\<not> gameplay s"
  shows "st_bombs (players_tick g wx wz ins s) = st_bombs s"
proof -
  have "\<not> gameplay (fold (\<lambda>i. player_tick g wx wz i (ins ! i)) ps s)
      \<and> st_bombs (fold (\<lambda>i. player_tick g wx wz i (ins ! i)) ps s) = st_bombs s" for ps
    using assms by (induction ps arbitrary: s)
      (simp_all add: idle_player_tick_bombs gameplay_clock [OF frame_player_tick(1)])
  then show ?thesis by (simp add: players_tick_def)
qed

lemma bombs_tick_free:
  assumes "bm_state (bomb s j) = BSTATE_FREE" and "j < 16"
  shows "bomb (bombs_tick g wx wz s) j = bomb s j"
proof -
  have own: "bomb_tick g wx wz j t = t" if "bm_state (bomb t j) = BSTATE_FREE" for t
    using that by (simp add: bomb_tick_def Let_def)
  have "(\<lambda>c. c = bomb s j) (bomb (fold (bomb_tick g wx wz) [0..<16] s) j)"
    by (rule fold_slot [where f = "\<lambda>t. bomb t j" and P = "\<lambda>c. c = bomb s j"])
      (use assms in \<open>auto simp: keep_bomb_tick own\<close>)
  then show ?thesis by (simp add: bombs_tick_def arena_sizes)
qed

lemma idle_free_slot:
  assumes inv: "arena_inv s" and j: "j < 16" and idle: "\<not> gameplay s"
    and st: "bm_state (bomb s j) = BSTATE_FREE"
  shows "bm_state (bomb (tick_phases g wx wz ins s) j) = BSTATE_FREE"
proof -
  let ?s1 = "separate_players (players_tick g wx wz ins s)"
  let ?s2 = "bombs_tick g wx wz ?s1"
  let ?s3 = "detonations ?s2"
  have inv2: "arena_inv ?s2"
    by (intro soft_inv [OF soft_bombs_tick] soft_inv [OF soft_separate_players] inv_players_tick inv)
  have "bomb ?s1 j = bomb s j" using idle by (simp add: idle_players_tick_bombs)
  then have "bm_state (bomb ?s3 j) = BSTATE_FREE"
    using st j inv_lengths [OF inv2] by (simp add: detonations_slot bombs_tick_free)
  then show ?thesis
    using blasts_tick_slot [OF inv_detonations [OF inv2] j]
    by (auto simp: tick_phases_def Let_def chained_def chainable_def)
qed

lemma arena_tick_slot:
  assumes inv: "arena_inv s" and j: "j < 16"
  shows "bm_state (bomb s j) = BSTATE_EXPLODING \<Longrightarrow> bm_state (bomb (arena_tick ins s) j) = BSTATE_FREE"
    and "burning (bomb s j) \<Longrightarrow> bm_state (bomb (arena_tick ins s) j) = BSTATE_FREE
      \<or> bm_state (bomb (arena_tick ins s) j) = BSTATE_EXPLODING
          \<and> (0 < unat (bm_fuse (bomb s j)) \<or> bm_state (bomb s j) = BSTATE_SETTLED)
      \<or> burning (bomb (arena_tick ins s) j) \<and> burnt (bomb s j) (bomb (arena_tick ins s) j)
      \<or> kicked (bomb s j) (bomb (arena_tick ins s) j)"
proof -
  note inv1 = inv_phase_tick [OF inv]
  have reset: "bm_state (bomb (arena_tick ins s) j) = BSTATE_FREE"
    if "st_bombs (phase_tick s) \<noteq> st_bombs s"
  proof -
    have "st_bombs (phase_tick s) = replicate 16 bomb_zero" using phase_tick_bombs [of s] that by simp
    moreover have "\<not> gameplay (phase_tick s)"
      using that by (cases "st_phase s") (auto simp: phase_tick_def Let_def gameplay_def split: if_splits)
    ultimately show ?thesis
      using inv1 j by (simp add: arena_tick_bombs idle_free_slot bomb_zero_def)
  qed
  show "bm_state (bomb (arena_tick ins s) j) = BSTATE_FREE" if "bm_state (bomb s j) = BSTATE_EXPLODING"
    using reset tick_phases_slot(1) [OF inv1 j _ refl] that
    by (cases "st_bombs (phase_tick s) = st_bombs s") (simp_all add: arena_tick_bombs)
  show "bm_state (bomb (arena_tick ins s) j) = BSTATE_FREE
      \<or> bm_state (bomb (arena_tick ins s) j) = BSTATE_EXPLODING
          \<and> (0 < unat (bm_fuse (bomb s j)) \<or> bm_state (bomb s j) = BSTATE_SETTLED)
      \<or> burning (bomb (arena_tick ins s) j) \<and> burnt (bomb s j) (bomb (arena_tick ins s) j)
      \<or> kicked (bomb s j) (bomb (arena_tick ins s) j)"
    if b: "burning (bomb s j)"
  proof (cases "st_bombs (phase_tick s) = st_bombs s")
    case True
    then show ?thesis
      using tick_phases_slot(2) [OF inv1 j _ refl, of "geom_of s" "wall_x_of (phase_tick s)"
        "wall_z_of (phase_tick s)" ins] b by (simp add: arena_tick_bombs)
  qed (simp add: reset)
qed

definition fuse_left :: "ArenaBomb \<Rightarrow> nat" where
  "fuse_left b = (if bm_state b = BSTATE_EXPLODING then 1
     else unat (bm_fuse b) + (if bm_state b = BSTATE_SLIDING then 1 else 2))"

section \<open>Condition of a player through a tick\<close>

definition core :: "ArenaPlayer \<Rightarrow> PState \<times> u8 \<times> u16" where
  "core p = (pl_state p, pl_hp p, pl_timer p)"

abbreviation cores :: "ArenaState \<Rightarrow> nat \<Rightarrow> PState \<times> u8 \<times> u16" where
  "cores s i \<equiv> core (player s i)"

lemma cores_set_player: "core p = cores s i \<Longrightarrow> cores (set_player i p s) j = cores s j"
  by (simp add: field_update)

lemma other_player_tick: "i \<noteq> pi \<Longrightarrow> player (player_tick g wx wz pi inp s) i = player s i"
proof -
  assume ne: "i \<noteq> pi"
  have x: "player (throw_extras pi as t) i = player t i" for as t
    using ne by (induction pi as t rule: throw_extras.induct) (simp_all add: Let_def split: option.split)
  have "player (bomb_button inp prev pi t) i = player t i" for prev t
    using ne by (simp add: bomb_button_def grab_def hold_def release_def empty_hands_def
      throw_single_def throw_spread_def Let_def x split: option.split)
  moreover have "player (set_button wx wz inp prev pi t) i = player t i" for prev t
    using ne by (simp add: set_button_def Let_def split: option.split)
  ultimately show ?thesis using ne by (simp add: player_tick_def live_tick_def Let_def)
qed

lemma cores_separate_pair: "cores (separate_pair ab s) i = cores s i"
proof -
  have "core (fst (separate p q)) = core p" "core (snd (separate p q)) = core q" for p q
    by (simp_all add: separate_def core_def Let_def split_beta)
  then show ?thesis
    unfolding separate_pair_def split_beta Let_def by (simp add: field_update)
qed

lemma cores_separate: "cores (separate_players s) i = cores s i"
  unfolding separate_players_def by (rule fold_keeps) (rule cores_separate_pair)

lemma cores_bomb_tick: "cores (bomb_tick g wx wz j s) i = cores s i"
proof -
  have "cores (stand_off b pj t) i = cores t i" for b pj t
    by (simp add: stand_off_def hold_off_def Let_def field_update core_def)
  then have "cores (fold (stand_off b) pjs t) i = cores t i" for b pjs t by (intro fold_keeps) simp
  then show ?thesis
    by (cases "bm_state (bomb s j)") (simp_all add: bomb_tick_def bomb_settled_def Let_def)
qed

lemma cores_bombs_tick: "cores (bombs_tick g wx wz s) i = cores s i"
  unfolding bombs_tick_def by (rule fold_keeps) (rule cores_bomb_tick)

lemma cores_detonations: "cores (detonations s) i = cores s i"
proof -
  have "cores (release_live o' t) i = cores t i" for o' t
    by (simp add: release_live_def Let_def field_update core_def)
  moreover have "cores (spawn_blast b t) i = cores t i" for b t
    by (simp add: spawn_blast_def split: option.split)
  ultimately have "cores (detonate k t) i = cores t i" for k t by (simp add: detonate_def Let_def)
  then show ?thesis unfolding detonations_def by (intro fold_keeps) simp
qed

text \<open>What the blasts of a tick can do to a player: nothing, or exactly one hit.\<close>

definition one_hit :: "ArenaPlayer \<Rightarrow> ArenaPlayer \<Rightarrow> bool" where
  "one_hit p q \<longleftrightarrow> vulnerable p \<and> pl_hp q = pl_hp p - 1 \<and>
     (if pl_hp q = 0 then pl_state q = PSTATE_DEAD \<and> pl_timer q = TUNE_RESPAWN_TICKS
      else pl_state q = PSTATE_TUMBLE \<and> pl_timer q = TUNE_TUMBLE_TICKS + TUNE_INVULN_TICKS)"

lemma one_hit_hurt: "vulnerable p \<Longrightarrow> one_hit p (hurt bl p)"
  by (simp add: one_hit_def hurt_def knock_def Let_def split_beta)

lemma vulnerable_core: "core q = core p \<Longrightarrow> vulnerable q = vulnerable p"
  by (simp add: vulnerable_def core_def)

lemma one_hit_core: "core q = core p \<Longrightarrow> one_hit q r = one_hit p r"
  by (simp add: one_hit_def vulnerable_def core_def)

lemma one_hit_safe: "one_hit p q \<Longrightarrow> \<not> vulnerable q"
  by (auto simp: one_hit_def vulnerable_def split: if_splits)

lemma blast_player_core:
  assumes inv: "arena_inv s" and pj: "pj < 4"
    and i: "cores s i = core p \<or> one_hit p (player s i)"
  shows "cores (blast_player bl pj s) i = core p \<or> one_hit p (player (blast_player bl pj s) i)"
proof -
  have len: "pj < length (st_players s)" using inv_lengths [OF inv] pj by simp
  show ?thesis
  proof (cases "i = pj \<and> vulnerable (player s pj) \<and> in_blast bl (player s pj)")
    case True
    then have c: "cores s i = core p" using i one_hit_safe by auto
    have "one_hit (player s i) (hurt bl (player s i))" using True by (intro one_hit_hurt) simp
    then have "one_hit p (hurt bl (player s i))" using one_hit_core [OF c] by simp
    then show ?thesis using True len by (simp add: blast_player_eq Let_def)
  next
    case False
    then have "player (blast_player bl pj s) i = player s i"
      using len by (auto simp: blast_player_eq Let_def)
    then show ?thesis using i by simp
  qed
qed

lemma blasts_core:
  assumes inv: "arena_inv s"
  shows "cores (blasts_tick s) i = cores s i \<or> one_hit (player s i) (player (blasts_tick s) i)"
proof -
  define P where
    "P t \<longleftrightarrow> arena_inv t \<and> (cores t i = cores s i \<or> one_hit (player s i) (player t i))" for t
  have hit: "P (blast_player bl pj t)" if "P t" "pj < 4" for bl pj t
    using that inv_blast_player blast_player_core unfolding P_def by blast
  have step: "P (blast_tick k t)" if t: "P t" for k t
  proof -
    let ?bl = "grow (blast t k)"
    let ?t1 = "set_blast k ?bl t"
    let ?t2 = "?t1\<lparr>st_bombs := map (chain ?bl) (st_bombs ?t1)\<rparr>"
    have t2: "P ?t2"
      using t soft_inv [OF soft_trans [OF soft_set_blast soft_chain_all]] by (simp add: P_def)
    then have n: "unat (st_num_players ?t2) \<le> 4" by (simp add: P_def arena_inv_def shape_def arena_sizes)
    have "P (fold (blast_player ?bl) [0..<unat (st_num_players ?t2)] ?t2)"
      by (rule fold_invariant_list [where P = P, OF t2]) (use n in \<open>simp add: hit\<close>)
    then show ?thesis using t by (simp add: blast_tick_def Let_def)
  qed
  have "P s" using inv by (simp add: P_def)
  then have "P (blasts_tick s)"
    unfolding blasts_tick_def by (rule fold_invariant_list [where P = P]) (rule step)
  then show ?thesis by (simp add: P_def)
qed

text \<open>The condition of a live player through its own tick.\<close>

lemma throw_extras_field:
  assumes "\<And>p n. f (p\<lparr>pl_live_bombs := n\<rparr>) = f p"
  shows "f (player (throw_extras pi as s) i) = f (player s i)"
  by (induction pi as s rule: throw_extras.induct)
    (simp_all add: Let_def field_update assms split: option.split)

lemma buttons_state [simp]:
  "pl_state (player (bomb_button inp prev pi s) i) = pl_state (player s i)"
  "pl_state (player (set_button wx wz inp prev pi s) i) = pl_state (player s i)"
  by (simp_all add: bomb_button_def grab_def hold_def release_def empty_hands_def throw_single_def
    throw_spread_def set_button_def Let_def field_update throw_extras_field [where f = pl_state]
    split: option.split)

lemma buttons_hp [simp]:
  "pl_hp (player (bomb_button inp prev pi s) i) = pl_hp (player s i)"
  "pl_hp (player (set_button wx wz inp prev pi s) i) = pl_hp (player s i)"
  by (simp_all add: bomb_button_def grab_def hold_def release_def empty_hands_def throw_single_def
    throw_spread_def set_button_def Let_def field_update throw_extras_field [where f = pl_hp]
    split: option.split)

lemma buttons_length [simp]:
  "length (st_players (bomb_button inp prev pi s)) = length (st_players s)"
  "length (st_players (set_button wx wz inp prev pi s)) = length (st_players s)"
proof -
  have "length (st_players (throw_extras pi as t)) = length (st_players t)" for as t
    by (induction pi as t rule: throw_extras.induct) (simp_all add: Let_def split: option.split)
  then show "length (st_players (bomb_button inp prev pi s)) = length (st_players s)"
    "length (st_players (set_button wx wz inp prev pi s)) = length (st_players s)"
    by (simp_all add: bomb_button_def grab_def hold_def release_def empty_hands_def throw_single_def
      throw_spread_def set_button_def Let_def split: option.split)
qed

lemma finish_hp [simp]: "pl_hp (finish_player g wx wz inp p) = pl_hp p"
  using soft_finish [of p g wx wz inp] by (simp add: soft_player_def)

lemma live_tick_hp:
  assumes "pi < length (st_players s)" and "pl_state (player s pi) \<noteq> PSTATE_DEAD"
  shows "pl_hp (player (player_tick g wx wz pi inp s) pi) = pl_hp (player s pi)"
  using assms soft_locomotion [OF assms(2), of "gameplay s" inp]
  by (simp add: player_tick_def live_tick_def Let_def soft_player_def)

lemma dead_tick_core:
  assumes "pi < length (st_players s)" and "pl_state (player s pi) = PSTATE_DEAD"
  shows "player (player_tick g wx wz pi inp s) pi = dead_tick (gameplay s) g pi inp (player s pi)"
  using assms by (simp add: player_tick_def Let_def)

definition revived :: "ArenaPlayer \<Rightarrow> ArenaPlayer \<Rightarrow> bool" where
  "revived p q \<longleftrightarrow> pl_state p = PSTATE_DEAD \<and> pl_hp q = TUNE_START_HP \<and> pl_state q = PSTATE_IDLE
     \<and> pl_timer q = TUNE_INVULN_TICKS"

lemma player_tick_hp:
  assumes "pi < length (st_players s)"
  shows "pl_hp (player (player_tick g wx wz pi inp s) pi) = pl_hp (player s pi)
    \<or> revived (player s pi) (player (player_tick g wx wz pi inp s) pi)"
proof (cases "pl_state (player s pi) = PSTATE_DEAD")
  case True
  then show ?thesis
    using dead_tick_core [OF assms True, of g wx wz inp]
    by (simp add: dead_tick_def respawn_player_def revived_def Let_def)
qed (simp add: live_tick_hp assms)

lemma players_tick_own:
  assumes inv: "arena_inv s" and i: "i < 4"
  shows "\<exists>t. arena_inv t \<and> clock t = clock s \<and> player t i = player s i
    \<and> player (players_tick g wx wz ins s) i = player (player_tick g wx wz i (ins ! i) t) i"
proof -
  let ?step = "\<lambda>k. player_tick g wx wz k (ins ! k)"
  have pass: "arena_inv (fold ?step ks u) \<and> clock (fold ?step ks u) = clock u
      \<and> player (fold ?step ks u) i = player u i"
    if "arena_inv u" "list_all (\<lambda>k. k < 4 \<and> k \<noteq> i) ks" for ks u
    using that by (induction ks arbitrary: u) (simp_all add: inv_player_tick frame other_player_tick)
  have split: "[0..<4] = [0..<i] @ i # [Suc i..<4]"
    using i upt_add_eq_append [of 0 i "4 - i"] by (simp add: upt_conv_Cons)
  let ?t = "fold ?step [0..<i] s"
  have t: "arena_inv ?t \<and> clock ?t = clock s \<and> player ?t i = player s i"
    using inv i by (intro pass) (auto simp: list_all_iff)
  then have "arena_inv (?step i ?t)" using i by (simp add: inv_player_tick)
  then have "player (fold ?step [Suc i..<4] (?step i ?t)) i = player (?step i ?t) i"
    using pass [of "?step i ?t" "[Suc i..<4]"] by (auto simp: list_all_iff)
  then have "player (players_tick g wx wz ins s) i = player (?step i ?t) i"
    by (simp add: players_tick_def arena_sizes split)
  then show ?thesis using t by blast
qed

lemma middle_core:
  "cores (detonations (bombs_tick g wx wz (separate_players s))) i = cores s i"
  by (simp add: cores_detonations cores_bombs_tick cores_separate)

lemma tick_phases_core:
  assumes inv: "arena_inv s"
    and p_def: "p = player (players_tick g wx wz ins s) i"
  shows "core (player (tick_phases g wx wz ins s) i) = core p
    \<or> one_hit p (player (tick_phases g wx wz ins s) i)"
proof -
  let ?s = "detonations (bombs_tick g wx wz (separate_players (players_tick g wx wz ins s)))"
  have "arena_inv ?s"
    by (intro inv_detonations soft_inv [OF soft_bombs_tick] soft_inv [OF soft_separate_players]
      inv_players_tick inv)
  note b = blasts_core [OF this, of i]
  have c: "core (player ?s i) = core p" unfolding p_def by (rule middle_core)
  have "tick_phases g wx wz ins s = blasts_tick ?s" by (simp add: tick_phases_def Let_def)
  then show ?thesis using b by (simp only: c one_hit_core [OF c])
qed

definition resets :: "ArenaState \<Rightarrow> bool" where
  "resets s \<longleftrightarrow> st_phase s = PHASE_ROUND_END \<and> st_phase (phase_tick s) = PHASE_COUNTDOWN"

lemma phase_tick_players: "\<not> resets s \<Longrightarrow> st_players (phase_tick s) = st_players s"
  by (cases "st_phase s") (auto simp: resets_def phase_tick_def Let_def split: if_splits)

lemma arena_tick_core:
  "cores (arena_tick ins s) i = cores (tick_phases (geom_of s) (wall_x_of (phase_tick s))
     (wall_z_of (phase_tick s)) ins (phase_tick s)) i"
  by (simp add: arena_tick_def round_end_def award_def Let_def field_update core_def)

lemma tick_hp:
  assumes inv: "arena_inv s" and i: "i < 4" and r: "\<not> resets s"
    and q_def: "q = player (arena_tick ins s) i"
  shows "pl_hp q = pl_hp (player s i)
    \<or> pl_hp (player s i) \<noteq> 0 \<and> pl_hp q = pl_hp (player s i) - 1 \<and>
      (if pl_hp q = 0 then pl_state q = PSTATE_DEAD \<and> pl_timer q = TUNE_RESPAWN_TICKS
       else pl_state q = PSTATE_TUMBLE \<and> pl_timer q = TUNE_TUMBLE_TICKS + TUNE_INVULN_TICKS)
    \<or> revived (player s i) q"
proof -
  let ?s = "phase_tick s" and ?g = "geom_of s"
  let ?wx = "wall_x_of ?s" and ?wz = "wall_z_of ?s"
  let ?p = "player (players_tick ?g ?wx ?wz ins ?s) i"
  have inv1: "arena_inv ?s" using inv by (rule inv_phase_tick)
  obtain t where t: "arena_inv t" "player t i = player ?s i"
    "?p = player (player_tick ?g ?wx ?wz i (ins ! i) t) i"
    using players_tick_own [OF inv1 i, of ?g ?wx ?wz ins] by blast
  have p0: "player ?s i = player s i" using r by (simp add: phase_tick_players)
  have p: "pl_hp ?p = pl_hp (player s i) \<or> revived (player s i) ?p"
    using player_tick_hp [of i t] inv_lengths [OF t(1)] i t p0 by simp
  have q: "core q = core ?p \<or> one_hit ?p q"
    using tick_phases_core [OF inv1 refl, of ?g ?wx ?wz ins i] arena_tick_core [of ins s i]
    by (auto simp: q_def one_hit_def core_def)
  have "\<not> one_hit ?p q" if "revived (player s i) ?p"
    using that by (simp add: revived_def one_hit_def vulnerable_def tune_values)
  then show ?thesis
    using p q by (auto simp: core_def revived_def one_hit_def vulnerable_def split: if_splits)
qed

section \<open>Grace after a hit\<close>

lemma tumble_locomotion: "pl_state p = PSTATE_TUMBLE \<Longrightarrow> locomotion gp inp p = p"
  by (simp add: locomotion_def steer_def accelerate_def jump_def Let_def)

lemma skid_timer [simp]: "pl_timer (skid p) = pl_timer p" "pl_hp (skid p) = pl_hp p"
  by (simp_all add: skid_def Let_def)

lemma move_core: "core (move_player g wx wz p) = core p"
  by (simp add: move_player_def core_def Let_def split_beta)

definition stunned :: "nat \<Rightarrow> u8 \<Rightarrow> ArenaPlayer \<Rightarrow> bool" where
  "stunned t h p \<longleftrightarrow> pl_hp p = h \<and> unat (pl_timer p) = t
     \<and> (pl_state p = PSTATE_TUMBLE \<or> pl_state p = PSTATE_IDLE \<and> t \<le> 60)"

lemma tumble_finish:
  assumes "pl_state p = PSTATE_TUMBLE" and "unat (pl_timer p) = Suc t"
  shows "stunned t (pl_hp p) (finish_player g wx wz inp p)"
proof -
  let ?m = "move_player g wx wz p"
  have m: "pl_state ?m = PSTATE_TUMBLE" "pl_hp ?m = pl_hp p" "pl_timer ?m = pl_timer p"
    using move_core [of g wx wz p] assms(1) by (simp_all add: core_def)
  have nz: "pl_timer p \<noteq> 0" using assms(2) by auto
  have t: "unat (pl_timer p - 1) = t" using unat_u16_pred [OF nz] assms(2) by simp
  define k where "k = pl_timer p - 1"
  define w where "w = skid (?m\<lparr>pl_timer := k\<rparr>)"
  have w: "pl_state w = PSTATE_TUMBLE" "pl_timer w = k" "pl_hp w = pl_hp p"
    by (simp_all add: w_def m)
  have "finish_player g wx wz inp p
      = (if k \<le> TUNE_INVULN_TICKS \<and> on_ground w
         then w\<lparr>pl_state := PSTATE_IDLE, pl_vel := (pl_vel w)\<lparr>vx := 0, vz := 0\<rparr>\<rparr> else w)\<lparr>pl_last_input := inp\<rparr>"
    using nz m w(2) by (simp add: finish_player_def upkeep_def tumble_upkeep_def Let_def word_gt_0 w_def k_def)
  then show ?thesis
    using w t by (simp add: stunned_def word_le_nat_alt tune_values k_def)
qed

lemma stunned_tick:
  assumes inv: "arena_inv s" and i: "i < 4" and r: "\<not> resets s"
    and st: "pl_state (player s i) = PSTATE_TUMBLE" "unat (pl_timer (player s i)) = Suc t" and t: "0 < t"
  shows "stunned t (pl_hp (player s i)) (player (arena_tick ins s) i)"
proof -
  let ?s = "phase_tick s" and ?g = "geom_of s"
  let ?wx = "wall_x_of ?s" and ?wz = "wall_z_of ?s"
  let ?p = "player (players_tick ?g ?wx ?wz ins ?s) i"
  have inv1: "arena_inv ?s" using inv by (rule inv_phase_tick)
  obtain u where u: "arena_inv u" "player u i = player ?s i"
    "?p = player (player_tick ?g ?wx ?wz i (ins ! i) u) i"
    using players_tick_own [OF inv1 i, of ?g ?wx ?wz ins] by blast
  have p0: "player ?s i = player s i" using r by (simp add: phase_tick_players)
  have len: "i < length (st_players u)" using inv_lengths [OF u(1)] i by simp
  have "?p = finish_player ?g ?wx ?wz (ins ! i) (player s i)"
    using st(1) len
    by (simp add: u(3) player_tick_def live_tick_def u(2) p0 tumble_locomotion bomb_button_def
      set_button_def Let_def)
  then have "stunned t (pl_hp (player s i)) ?p" using tumble_finish [OF st] by simp
  then have "stunned t (pl_hp (player s i)) ?p \<and> \<not> vulnerable ?p"
    using t by (auto simp: stunned_def vulnerable_def word_gt_0)
  moreover have "cores (arena_tick ins s) i = core ?p" if "\<not> vulnerable ?p"
    using tick_phases_core [OF inv1 refl, of ?g ?wx ?wz ins i] arena_tick_core [of ins s i] that
    by (auto simp: one_hit_def)
  ultimately show ?thesis by (simp add: stunned_def core_def)
qed

lemma stunned_run:
  "arena_inv s \<Longrightarrow> i < 4 \<Longrightarrow> pl_state (player s i) = PSTATE_TUMBLE \<Longrightarrow>
     60 + length inss \<le> unat (pl_timer (player s i)) \<Longrightarrow>
     (\<forall>k < length inss. \<not> resets (arena_run (take k inss) s)) \<Longrightarrow>
     pl_hp (player (arena_run inss s) i) = pl_hp (player s i)"
proof (induction inss arbitrary: s)
  case Nil
  then show ?case by simp
next
  case (Cons ins inss)
  let ?t = "arena_tick ins s"
  have r: "\<not> resets s" using Cons.prems(5) [rule_format, of 0] by simp
  obtain t where t: "unat (pl_timer (player s i)) = Suc t" "60 + length inss \<le> t"
    using Cons.prems(4) by (cases "unat (pl_timer (player s i))") auto
  have st: "stunned t (pl_hp (player s i)) (player ?t i)"
    using stunned_tick [OF Cons.prems(1,2) r Cons.prems(3) t(1)] t(2) by simp
  show ?case
  proof (cases inss)
    case Nil
    then show ?thesis using st by (simp add: stunned_def)
  next
    case (Cons ins' inss')
    have "pl_state (player ?t i) = PSTATE_TUMBLE" "60 + length inss \<le> unat (pl_timer (player ?t i))"
      using st t(2) Cons by (auto simp: stunned_def)
    moreover have "\<forall>k < length inss. \<not> resets (arena_run (take k inss) ?t)"
    proof (intro allI impI)
      fix k assume "k < length inss"
      then show "\<not> resets (arena_run (take k inss) ?t)"
        using Cons.prems(5) [rule_format, of "Suc k"] by simp
    qed
    ultimately have "pl_hp (player (arena_run inss ?t) i) = pl_hp (player ?t i)"
      using Cons.IH Cons.prems(1,2) inv_arena_tick by blast
    then show ?thesis using st by (simp add: stunned_def)
  qed
qed

section \<open>The life of a blast\<close>

lemma blasts_buttons [simp]:
  "st_blasts (bomb_button inp prev pi s) = st_blasts s"
  "st_blasts (set_button wx wz inp prev pi s) = st_blasts s"
proof -
  have "st_blasts (throw_extras pi as t) = st_blasts t" for as t
    by (induction pi as t rule: throw_extras.induct) (simp_all add: Let_def split: option.split)
  then show "st_blasts (bomb_button inp prev pi s) = st_blasts s"
    "st_blasts (set_button wx wz inp prev pi s) = st_blasts s"
    by (simp_all add: bomb_button_def grab_def hold_def release_def empty_hands_def throw_single_def
      throw_spread_def set_button_def Let_def split: option.split)
qed

lemma blasts_player_tick [simp]: "st_blasts (player_tick g wx wz pi inp s) = st_blasts s"
  by (simp add: player_tick_def live_tick_def Let_def)

lemma blasts_separate_pair [simp]: "st_blasts (separate_pair ab s) = st_blasts s"
  by (simp add: separate_pair_def split_beta Let_def)

lemma blasts_bomb_tick [simp]: "st_blasts (bomb_tick g wx wz i s) = st_blasts s"
proof -
  have "st_blasts (fold (stand_off b) pjs t) = st_blasts t" for b pjs t
    by (rule fold_keeps) (simp add: stand_off_def Let_def)
  then show ?thesis
    by (cases "bm_state (bomb s i)") (simp_all add: bomb_tick_def bomb_settled_def Let_def)
qed

lemma blasts_before_detonations:
  "st_blasts (bombs_tick g wx wz (separate_players (players_tick g' wx' wz' ins s))) = st_blasts s"
  by (simp add: bombs_tick_def separate_players_def players_tick_def fold_keeps [where f = st_blasts])

lemma detonate_blast_slot:
  "bl_ttl (blast s k) \<noteq> 0 \<Longrightarrow> blast (detonate i s) k = blast s k"
proof -
  assume "bl_ttl (blast s k) \<noteq> 0"
  then have "find_free_blast s \<noteq> Some k"
    using blast_pool.search_free [of "st_blasts s" k] by (auto simp: find_free_blast_def)
  then show ?thesis
    by (auto simp: detonate_def spawn_blast_def release_live_def Let_def split: option.split)
qed

lemma detonations_blast_slot:
  assumes "bl_ttl (blast s k) \<noteq> 0"
  shows "blast (detonations s) k = blast s k"
proof -
  have "blast (fold (\<lambda>i s. if bm_state (bomb s i) = BSTATE_EXPLODING then detonate i s else s) is s) k
      = blast s k" for "is"
    using assms by (induction "is" arbitrary: s) (simp_all add: detonate_blast_slot)
  then show ?thesis by (simp add: detonations_def)
qed

lemma blasts_blast_player [simp]: "st_blasts (blast_player bl pi s) = st_blasts s"
  by (simp add: blast_player_def drop_held_def check_death_def Let_def)

lemma st_blasts_blast_tick:
  "st_blasts (blast_tick i s) = (if bl_ttl (blast s i) = 0 then st_blasts s
     else (st_blasts s)[i := grow (blast s i)])"
  by (simp add: blast_tick_def Let_def fold_keeps [where f = st_blasts])

lemma blasts_tick_own_slot:
  assumes "bl_ttl (blast s k) \<noteq> 0" and "k < length (st_blasts s)" and "k < 16"
  shows "blast (blasts_tick s) k = grow (blast s k)"
proof -
  let ?f = "\<lambda>t. (length (st_blasts t), blast t k)"
  have "(\<lambda>(n, c). c = grow (blast s k)) (?f (fold blast_tick [0..<16] s))"
    by (rule fold_slot [where P = "\<lambda>(n, c). c = blast s k \<and> k < n"])
      (use assms in \<open>auto simp: st_blasts_blast_tick\<close>)
  then show ?thesis by (simp add: blasts_tick_def arena_sizes)
qed

lemma arena_tick_blast:
  assumes inv: "arena_inv s" and k: "k < 16" and r: "\<not> resets s" and ttl: "bl_ttl (blast s k) \<noteq> 0"
  shows "blast (arena_tick ins s) k = grow (blast s k)"
proof -
  let ?s = "phase_tick s"
  have same: "st_blasts ?s = st_blasts s"
    using r by (cases "st_phase s") (auto simp: resets_def phase_tick_def Let_def split: if_splits)
  let ?d = "detonations (bombs_tick (geom_of s) (wall_x_of ?s) (wall_z_of ?s)
     (separate_players (players_tick (geom_of s) (wall_x_of ?s) (wall_z_of ?s) ins ?s)))"
  have "arena_inv ?d"
    by (intro inv_detonations soft_inv [OF soft_bombs_tick] soft_inv [OF soft_separate_players]
      inv_players_tick inv_phase_tick inv)
  then have len: "length (st_blasts ?d) = 16" by (simp add: inv_lengths)
  have d: "blast ?d k = blast s k"
    using ttl by (simp add: detonations_blast_slot blasts_before_detonations same)
  have "blast (arena_tick ins s) k = blast (blasts_tick ?d) k"
    by (simp add: arena_tick_def tick_phases_def Let_def round_end_def award_def)
  also have "\<dots> = grow (blast s k)"
    using blasts_tick_own_slot [of ?d k] d ttl k len by simp
  finally show ?thesis .
qed

lemma grow_ttl: "bl_ttl (grow b) = bl_ttl b - 1" "bl_center (grow b) = bl_center b" "bl_owner (grow b) = bl_owner b"
  by (simp_all add: grow_def Let_def)

lemma blast_run:
  "arena_inv s \<Longrightarrow> k < 16 \<Longrightarrow> length inss \<le> unat (bl_ttl (blast s k)) \<Longrightarrow>
     (\<forall>m < length inss. \<not> resets (arena_run (take m inss) s)) \<Longrightarrow>
     unat (bl_ttl (blast (arena_run inss s) k)) = unat (bl_ttl (blast s k)) - length inss
     \<and> blast (arena_run inss s) k = (grow ^^ length inss) (blast s k)"
proof (induction inss arbitrary: s)
  case Nil
  then show ?case by simp
next
  case (Cons ins inss)
  let ?t = "arena_tick ins s"
  have r: "\<not> resets s" using Cons.prems(4) [rule_format, of 0] by simp
  have nz: "bl_ttl (blast s k) \<noteq> 0" using Cons.prems(3) by auto
  have b: "blast ?t k = grow (blast s k)"
    using Cons.prems(1,2) r nz by (rule arena_tick_blast)
  have ttl: "unat (bl_ttl (blast ?t k)) = unat (bl_ttl (blast s k)) - 1"
    unfolding b grow_ttl using nz by (rule u8_pred)
  have later: "\<forall>m < length inss. \<not> resets (arena_run (take m inss) ?t)"
  proof (intro allI impI)
    fix m assume "m < length inss"
    then show "\<not> resets (arena_run (take m inss) ?t)"
      using Cons.prems(4) [rule_format, of "Suc m"] by simp
  qed
  have "length inss \<le> unat (bl_ttl (blast ?t k))" using Cons.prems(3) ttl by simp
  note ih = Cons.IH [OF inv_arena_tick [OF Cons.prems(1)] Cons.prems(2) this later]
  have "unat (bl_ttl (blast (arena_run inss ?t) k)) = unat (bl_ttl (blast s k)) - length (ins # inss)"
    using ih [THEN conjunct1] ttl by simp
  moreover have "blast (arena_run inss ?t) k = (grow ^^ length (ins # inss)) (blast s k)"
    using ih [THEN conjunct2] by (simp add: b funpow_swap1)
  ultimately show ?case by (simp only: arena_run_simps)
qed

lemma blast_radius_value:
  assumes "unat (bl_radius_t b) \<le> 12"
  shows "blast_radius b = 6553 * int (unat (bl_radius_t b)) div 12"
proof -
  define r where "r = int (unat (bl_radius_t b))"
  have u: "uint (bl_radius_t b) = r" by (simp add: r_def)
  have r: "0 \<le> r" "r \<le> 12" using assms unfolding r_def by linarith+
  have "tdiv (6553 * r) 12 = 6553 * r div 12" using r by (intro tdiv_nonneg) simp_all
  moreover have "0 \<le> 6553 * r div 12" "6553 * r div 12 < 2147483648"
    using r by linarith+
  ultimately show ?thesis
    unfolding r_def [symmetric] by (simp add: blast_radius_def tune_values u i32_id)
qed

section \<open>The spread\<close>

definition free_slots :: "ArenaState \<Rightarrow> nat" where
  "free_slots s = length (filter (\<lambda>b. bm_state b = BSTATE_FREE) (st_bombs s))"

definition spread_bomb :: "nat \<Rightarrow> ArenaPlayer \<Rightarrow> int \<Rightarrow> ArenaBomb" where
  "spread_bomb pi p angle = throw_bomb p (pl_yaw p + word_of_int angle) TUNE_SPREAD_SPEED TUNE_SPREAD_UP
     (bomb_zero\<lparr>bm_owner := of_nat pi\<rparr>)"

lemma spread_bomb_cong:
  "pl_pos q = pl_pos p \<Longrightarrow> pl_yaw q = pl_yaw p \<Longrightarrow> spread_bomb pi q a = spread_bomb pi p a"
  by (simp add: spread_bomb_def throw_bomb_def)

lemma throw_extras_spec:
  "pi < length (st_players s) \<Longrightarrow> length as \<le> free_slots s \<Longrightarrow>
     \<exists>slots. length slots = length as \<and> distinct slots
       \<and> (\<forall>i \<in> set slots. i < length (st_bombs s) \<and> bm_state (bomb s i) = BSTATE_FREE)
       \<and> (\<forall>k < length as. bomb (throw_extras pi as s) (slots ! k) = spread_bomb pi (player s pi) (as ! k))
       \<and> (\<forall>j. j \<notin> set slots \<longrightarrow> bomb (throw_extras pi as s) j = bomb s j)
       \<and> player (throw_extras pi as s) pi
         = player s pi\<lparr>pl_live_bombs := pl_live_bombs (player s pi) + of_nat (length as)\<rparr>"
proof (induction as arbitrary: s)
  case Nil
  then show ?case by (intro exI [of _ "[]"]) simp
next
  case (Cons a as)
  have "filter (\<lambda>b. bm_state b = BSTATE_FREE) (st_bombs s) \<noteq> []"
    using Cons.prems(2) by (auto simp: free_slots_def)
  then have "\<not> (\<forall>b \<in> set (st_bombs s). bm_state b \<noteq> BSTATE_FREE)"
    by (simp add: filter_empty_conv)
  then obtain i where i: "find_free_bomb s = Some i"
    using bomb_pool.search_none_iff [of "st_bombs s"] by (cases "find_free_bomb s") (auto simp: find_free_bomb_def)
  note free = find_free_bombD [OF i]
  let ?p = "player s pi"
  let ?q = "?p\<lparr>pl_live_bombs := pl_live_bombs ?p + 1\<rparr>"
  let ?t = "set_player pi ?q (set_bomb i (spread_bomb pi ?p a) s)"
  have "spread_bomb pi ?q a = spread_bomb pi ?p a" by (rule spread_bomb_cong) simp_all
  then have step: "throw_extras pi (a # as) s = throw_extras pi as ?t"
    by (simp add: i Let_def spread_bomb_def)
  have "free_slots ?t + 1 = free_slots s"
    using count_update [of i "st_bombs s" "\<lambda>b. bm_state b = BSTATE_FREE" "spread_bomb pi ?p a"] free
    by (simp add: free_slots_def spread_bomb_def)
  then have "length as \<le> free_slots ?t" "pi < length (st_players ?t)" using Cons.prems by simp_all
  then obtain slots where sl: "length slots = length as" "distinct slots"
      "\<forall>j \<in> set slots. j < length (st_bombs ?t) \<and> bm_state (bomb ?t j) = BSTATE_FREE"
      "\<forall>k < length as. bomb (throw_extras pi as ?t) (slots ! k) = spread_bomb pi (player ?t pi) (as ! k)"
      "\<forall>j. j \<notin> set slots \<longrightarrow> bomb (throw_extras pi as ?t) j = bomb ?t j"
      "player (throw_extras pi as ?t) pi
        = player ?t pi\<lparr>pl_live_bombs := pl_live_bombs (player ?t pi) + of_nat (length as)\<rparr>"
    using Cons.IH by blast
  have q: "player ?t pi = ?q" using Cons.prems(1) by simp
  have ne: "i \<notin> set slots" using sl(3) free by (auto simp: spread_bomb_def)
  have "spread_bomb pi ?q c = spread_bomb pi ?p c" for c by (rule spread_bomb_cong) simp_all
  moreover have "bomb ?t j = (if j = i then spread_bomb pi ?p a else bomb s j)" for j
    using free by simp
  moreover have "j < length (st_bombs s) \<and> bm_state (bomb s j) = BSTATE_FREE" if "j \<in> set slots" for j
    using sl(3) that ne by (auto simp: nth_list_update_if split: if_splits)
  ultimately show ?case
    using sl free ne unfolding step q
    by (intro exI [of _ "i # slots"]) (auto simp: nth_Cons less_Suc_eq_0_disj split: nat.split)
qed

text \<open>The spread's throw, from a held bomb whose windup is complete.\<close>

lemma throw_spread_spec:
  assumes inv: "arena_inv s" and pi: "pi < 4" and held: "pl_held_bomb (player s pi) \<noteq> 0"
    and n: "n = nat (spread_extras s (player s pi))" and hi: "hi = unat (pl_held_bomb (player s pi) - 1)"
  shows "\<exists>slots. length slots = n \<and> distinct (hi # slots)
    \<and> (\<forall>i \<in> set slots. i < 16 \<and> bm_state (bomb s i) = BSTATE_FREE)
    \<and> bomb (throw_spread pi hi s) hi = throw_bomb (player s pi)
        (pl_yaw (player s pi) + word_of_int (fan ! n ! 0)) TUNE_SPREAD_SPEED TUNE_SPREAD_UP (bomb s hi)
    \<and> (\<forall>k < n. bomb (throw_spread pi hi s) (slots ! k) = spread_bomb pi (player s pi) (fan ! n ! (k + 1)))
    \<and> (\<forall>j. j \<noteq> hi \<and> j \<notin> set slots \<longrightarrow> bomb (throw_spread pi hi s) j = bomb s j)
    \<and> player (throw_spread pi hi s) pi
        = player s pi\<lparr>pl_live_bombs := pl_live_bombs (player s pi) + of_nat n\<rparr>"
proof -
  let ?p = "player s pi"
  note h = inv_held [OF inv pi held, folded hi]
  have len: "length (st_players s) = 4" "length (st_bombs s) = 16" using inv_lengths [OF inv] by auto
  have "n \<le> 3" using spread_extras_range(1,2) [of s ?p] n by simp
  then have row: "length (fan ! n) = 4" by (auto simp: fan_def le_Suc_eq numeral_3_eq_3)
  let ?as = "take n (drop 1 (fan ! n))"
  have as: "length ?as = n" "?as ! k = fan ! n ! (k + 1)" if "k < n" for k
    using row \<open>n \<le> 3\<close> that by simp_all
  have las: "length ?as = n" using row \<open>n \<le> 3\<close> by simp
  let ?b = "throw_bomb ?p (pl_yaw ?p + word_of_int (fan ! n ! 0)) TUNE_SPREAD_SPEED TUNE_SPREAD_UP (bomb s hi)"
  let ?t = "set_bomb hi ?b s"
  have ts: "throw_spread pi hi s = throw_extras pi ?as ?t"
    by (simp add: throw_spread_def Let_def n)
  have "free_slots ?t = free_slots s"
    using count_update [of hi "st_bombs s" "\<lambda>b. bm_state b = BSTATE_FREE" ?b] h len
    by (simp add: free_slots_def)
  moreover have "n \<le> free_slots s"
    unfolding n spread_extras_def free_slots_def Let_def by (split if_split)+ linarith
  ultimately have "length ?as \<le> free_slots ?t" using las by simp
  moreover have "pi < length (st_players ?t)" using len pi by simp
  ultimately obtain slots where sl: "length slots = n" "distinct slots"
      "\<forall>i \<in> set slots. i < length (st_bombs ?t) \<and> bm_state (bomb ?t i) = BSTATE_FREE"
      "\<forall>k < n. bomb (throw_extras pi ?as ?t) (slots ! k) = spread_bomb pi (player ?t pi) (?as ! k)"
      "\<forall>j. j \<notin> set slots \<longrightarrow> bomb (throw_extras pi ?as ?t) j = bomb ?t j"
      "player (throw_extras pi ?as ?t) pi
        = player ?t pi\<lparr>pl_live_bombs := pl_live_bombs (player ?t pi) + of_nat n\<rparr>"
    using throw_extras_spec [of pi ?t ?as] las by metis
  have ne: "hi \<notin> set slots" using sl(3) h len by auto
  have "i < 16 \<and> bm_state (bomb s i) = BSTATE_FREE" if "i \<in> set slots" for i
    using sl(3) that ne len by (auto simp: nth_list_update_if split: if_splits)
  then show ?thesis
    unfolding ts using sl ne h len as by (intro exI [of _ slots]) (auto simp: nth_list_update_if)
qed

section \<open>Properties\<close>

text \<open>Concrete states: one settled bomb; one player just hit; one fresh blast; one full windup.\<close>

abbreviation idle :: "nat \<Rightarrow> ArenaInput list list" where
  "idle n \<equiv> replicate n [0, 0, 0, 0]"

definition armed :: ArenaState where
  "armed = (let s = arena_init 0 4 7; p = player s 0 in
     set_player 0 (p\<lparr>pl_live_bombs := pl_live_bombs p + 1\<rparr>) (set_bomb 0 (laid_bomb 32426 32426 0 p) s))"

definition struck :: ArenaState where
  "struck = (let s = arena_init 0 4 7 in
     set_player 2 (player s 2\<lparr>pl_state := PSTATE_TUMBLE, pl_timer := 90\<rparr>) s)"

definition blazing :: ArenaState where
  "blazing = (let s = arena_init 0 4 7 in set_blast 5 (blast s 5\<lparr>bl_ttl := 20\<rparr>) s)"

definition wound_up :: ArenaState where
  "wound_up = (let s = arena_init 0 4 7; p = player s 2 in
     set_player 2 (p\<lparr>pl_live_bombs := pl_live_bombs p + 1, pl_held_bomb := 1, pl_timer := 200\<rparr>)
       (set_bomb 0 (bomb_zero\<lparr>bm_owner := 2, bm_state := BSTATE_HELD\<rparr>) s))"

lemma init_inv: "arena_inv (arena_init 0 4 7)"
  by (rule inv_init) (simp_all add: arena_geom_count)

lemma init_facts:
  "find_free_bomb (arena_init 0 4 7) = Some 0" "st_phase (arena_init 0 4 7) = PHASE_COUNTDOWN"
  "st_phase_timer (arena_init 0 4 7) = 180"
  "pl_live_bombs (player (arena_init 0 4 7) i) = 0 \<or> 4 \<le> i"
  "pl_held_bomb (player (arena_init 0 4 7) i) = 0 \<or> 4 \<le> i"
  "pl_state (player (arena_init 0 4 7) i) = PSTATE_IDLE \<or> 4 \<le> i"
  "vy (pl_pos (player (arena_init 0 4 7) i)) = 0 \<or> 4 \<le> i"
proof -
  have p: "player (arena_init 0 4 7) i = reset_player arena_nitros_standin 4 i player_zero" if "i < 4"
    using that by (simp add: arena_init_def round_reset_def state_zero_def geom_of_def arena_geoms_def
      arena_sizes)
  have y: "vy (spawns arena_nitros_standin ! i) = 0" if "i < 4"
    using that by (auto simp: less_Suc_eq numeral_eq_Suc)
  show "find_free_bomb (arena_init 0 4 7) = Some 0"
    by (simp add: find_free_bomb_def arena_init_def round_reset_def arena_sizes bomb_zero_def numeral_eq_Suc)
  show "st_phase (arena_init 0 4 7) = PHASE_COUNTDOWN" "st_phase_timer (arena_init 0 4 7) = 180"
    by (simp_all add: arena_init_def tune_values)
  show "pl_live_bombs (player (arena_init 0 4 7) i) = 0 \<or> 4 \<le> i"
    "pl_held_bomb (player (arena_init 0 4 7) i) = 0 \<or> 4 \<le> i"
    "pl_state (player (arena_init 0 4 7) i) = PSTATE_IDLE \<or> 4 \<le> i"
    "vy (pl_pos (player (arena_init 0 4 7) i)) = 0 \<or> 4 \<le> i"
    using p y by (auto simp: reset_player_def player_zero_def not_le)
qed

lemma no_reset_in_countdown:
  assumes "st_phase s = PHASE_COUNTDOWN" and "length inss \<le> unat (st_phase_timer s)"
  shows "\<forall>k < length inss. \<not> resets (arena_run (take k inss) s)"
proof (intro allI impI)
  fix k
  assume "k < length inss"
  then show "\<not> resets (arena_run (take k inss) s)"
    using assms run_countdown [of s "take k inss"] by (simp add: resets_def steps_left_def)
qed

lemma armed_facts: "arena_inv armed" "burning (bomb armed 0)" "fuse_left (bomb armed 0) = 152"
proof -
  let ?s = "arena_init 0 4 7"
  let ?b = "laid_bomb 32426 32426 0 (player ?s 0)"
  have b: "bm_state ?b = BSTATE_SETTLED" "bm_owner ?b = 0" "bm_fuse ?b = 150"
    using init_facts(7) [of 0] by (simp_all add: laid_bomb_def Let_def tune_values)
  show "arena_inv armed"
    unfolding armed_def Let_def
    by (rule inv_take [OF init_inv _ init_facts(1)])
      (use init_facts(4) [of 0] b in \<open>simp_all add: active_def\<close>)
  have "bomb armed 0 = ?b"
    using inv_lengths [OF init_inv] by (simp add: armed_def Let_def)
  then show "burning (bomb armed 0)" "fuse_left (bomb armed 0) = 152"
    using b by (simp_all add: burning_def fuse_left_def)
qed

lemma struck_facts:
  "arena_inv struck" "pl_state (player struck 2) = PSTATE_TUMBLE" "unat (pl_timer (player struck 2)) = 90"
  "st_phase struck = PHASE_COUNTDOWN" "st_phase_timer struck = 180"
proof -
  have "soft_player (player (arena_init 0 4 7) 2)
      (player (arena_init 0 4 7) 2\<lparr>pl_state := PSTATE_TUMBLE, pl_timer := 90\<rparr>)"
    using init_facts(6) [of 2] by (simp add: soft_player_def)
  then show "arena_inv struck"
    unfolding struck_def Let_def by (rule soft_inv [OF soft_set_player init_inv])
qed (use inv_lengths [OF init_inv] init_facts(2,3) in \<open>simp_all add: struck_def Let_def\<close>)

lemma blazing_facts:
  "arena_inv blazing" "unat (bl_ttl (blast blazing 5)) = 20"
  "st_phase blazing = PHASE_COUNTDOWN" "st_phase_timer blazing = 180"
  using soft_inv [OF soft_set_blast init_inv] inv_lengths [OF init_inv] init_facts(2,3)
  by (simp_all add: blazing_def Let_def)

lemma wound_up_facts: "arena_inv wound_up" "pl_held_bomb (player wound_up 2) = 1"
  "pl_timer (player wound_up 2) = 200"
proof -
  show "arena_inv wound_up"
    unfolding wound_up_def Let_def
    by (rule inv_take [OF init_inv _ init_facts(1)])
      (use init_facts(4,5,6) [of 2] in \<open>simp_all add: active_def bomb_zero_def\<close>)
qed (use inv_lengths [OF init_inv] in \<open>simp_all add: wound_up_def Let_def\<close>)

text \<open>A hit grants grace: a tumbling player loses no hit point as long as its timer is above the
  invulnerability part, hence not for the next 30 ticks after a hit (a hit loads the timer with 90),
  wherever it flies and whatever explodes.\<close>

theorem hit_grants_grace:
  assumes "arena_inv s" and "i < 4" and "pl_state (player s i) = PSTATE_TUMBLE"
    and "unat TUNE_INVULN_TICKS + length inss \<le> unat (pl_timer (player s i))"
    and "\<forall>k < length inss. \<not> resets (arena_run (take k inss) s)"
  shows "pl_hp (player (arena_run inss s) i) = pl_hp (player s i)"
  using assms by (intro stunned_run) (simp_all add: tune_values)

theorem hit_grants_grace_witness:
  "pl_hp (player (arena_run (idle 30) struck) 2) = pl_hp (player struck 2)"
proof -
  have "\<forall>k < length (idle 30). \<not> resets (arena_run (take k (idle 30)) struck)"
    by (rule no_reset_in_countdown) (simp_all add: struck_facts)
  then show ?thesis
    using hit_grants_grace [OF struck_facts(1) _ struck_facts(2), of "idle 30"]
    by (simp add: struck_facts(3) tune_values)
qed

text \<open>A blast lives exactly as long as its \<open>ttl\<close>: barring a round reset, for that many ticks its
  slot only ages, keeping its centre and owner and never handed to another bomb, and then it is free.\<close>

theorem blast_lifetime:
  assumes "arena_inv s" and "k < 16" and "length inss \<le> unat (bl_ttl (blast s k))"
    and "\<forall>m < length inss. \<not> resets (arena_run (take m inss) s)"
  shows "unat (bl_ttl (blast (arena_run inss s) k)) = unat (bl_ttl (blast s k)) - length inss
    \<and> blast (arena_run inss s) k = (grow ^^ length inss) (blast s k)"
  using assms by (rule blast_run)

theorem blast_lifetime_witness:
  "bl_ttl (blast (arena_run (idle 20) blazing) 5) = 0"
proof -
  have "\<forall>k < length (idle 20). \<not> resets (arena_run (take k (idle 20)) blazing)"
    by (rule no_reset_in_countdown) (simp_all add: blazing_facts)
  then have "unat (bl_ttl (blast (arena_run (idle 20) blazing) 5)) = 0"
    using blast_lifetime [OF blazing_facts(1), of 5 "idle 20", THEN conjunct1]
    by (simp only: blazing_facts(2)) simp
  then show ?thesis by (simp only: unat_eq_0)
qed

text \<open>A blast grows monotonically from nothing to its full radius in twelve ticks and never
  beyond it, without overflow.\<close>

theorem blast_grows_to_full_radius:
  assumes "bl_radius_t b \<le> TUNE_BLAST_GROW_TICKS"
  shows "0 \<le> blast_radius b \<and> blast_radius b \<le> blast_radius (grow b)
    \<and> blast_radius (grow b) \<le> TUNE_BLAST_RADIUS
    \<and> (bl_radius_t b = TUNE_BLAST_GROW_TICKS \<longrightarrow> blast_radius b = TUNE_BLAST_RADIUS)
    \<and> bl_radius_t (grow b) \<le> TUNE_BLAST_GROW_TICKS"
proof -
  have r: "unat (bl_radius_t b) \<le> 12" using assms by (simp add: word_le_nat_alt tune_values)
  have g: "unat (bl_radius_t (grow b)) = (if unat (bl_radius_t b) < 12 then unat (bl_radius_t b) + 1
      else unat (bl_radius_t b))"
    using r by (simp add: grow_def Let_def word_less_nat_alt tune_values unat_word_ariths)
  then have r': "unat (bl_radius_t (grow b)) \<le> 12" using r by simp
  have mono: "6553 * int m div 12 \<le> 6553 * int n div 12" if "m \<le> n" for m n
    using that by (intro zdiv_mono1) simp_all
  have full: "6553 * int 12 div 12 = 6553" by simp
  have "0 \<le> blast_radius b"
    unfolding blast_radius_value [OF r] using mono [of 0 "unat (bl_radius_t b)"] by simp
  moreover have "blast_radius b \<le> blast_radius (grow b)"
    unfolding blast_radius_value [OF r] blast_radius_value [OF r'] by (rule mono) (simp add: g)
  moreover have "blast_radius (grow b) \<le> 6553"
    unfolding blast_radius_value [OF r'] using mono [OF r'] full by simp
  moreover have "blast_radius b = 6553" if "bl_radius_t b = 12"
    using that by (simp add: blast_radius_value [OF r])
  ultimately show ?thesis
    using r' by (simp add: tune_values word_le_nat_alt)
qed

theorem blast_grows_to_full_radius_witness:
  "blast_radius (blast_zero\<lparr>bl_radius_t := 3\<rparr>) \<le> blast_radius (grow (blast_zero\<lparr>bl_radius_t := 3\<rparr>))"
  using blast_grows_to_full_radius [of "blast_zero\<lparr>bl_radius_t := 3\<rparr>"] by (simp add: tune_values)

text \<open>A full windup throws the whole spread the caps allow.  Releasing the button after at least
  \<open>TUNE_SPREAD_TICKS\<close> throws the held bomb and \<open>n\<close> extra ones, where \<open>n\<close> is the least of three, the
  free slots and the player's remaining allowance: each extra takes a distinct free slot and flies
  along its own angle of the fan's row \<open>n\<close>, every other slot is untouched, the hands are empty and
  the counter is charged for exactly the extras.\<close>

theorem spread_throws_the_fan:
  assumes "arena_inv s" and "pi < 4" and "pl_held_bomb (player s pi) \<noteq> 0"
    and "TUNE_SPREAD_TICKS \<le> pl_timer (player s pi)"
  shows "let p = player s pi; hi = unat (pl_held_bomb p - 1); t = release pi s;
      n = min 3 (min (length (filter (\<lambda>b. bm_state b = BSTATE_FREE) (st_bombs s)))
            (6 - unat (pl_live_bombs p)))
    in \<exists>slots. length slots = n \<and> distinct (hi # slots)
      \<and> (\<forall>i \<in> set slots. bm_state (bomb s i) = BSTATE_FREE)
      \<and> bomb t hi = throw_bomb p (pl_yaw p + word_of_int (fan ! n ! 0)) TUNE_SPREAD_SPEED
          TUNE_SPREAD_UP (bomb s hi)
      \<and> (\<forall>k < n. bomb t (slots ! k) = throw_bomb p (pl_yaw p + word_of_int (fan ! n ! (k + 1)))
          TUNE_SPREAD_SPEED TUNE_SPREAD_UP (bomb_zero\<lparr>bm_owner := of_nat pi\<rparr>))
      \<and> (\<forall>j. j \<noteq> hi \<and> j \<notin> set slots \<longrightarrow> bomb t j = bomb s j)
      \<and> player t pi = p\<lparr>pl_live_bombs := pl_live_bombs p + of_nat n, pl_held_bomb := 0, pl_timer := 0\<rparr>"
proof -
  let ?p = "player s pi"
  let ?n = "min 3 (min (length (filter (\<lambda>b. bm_state b = BSTATE_FREE) (st_bombs s)))
            (6 - unat (pl_live_bombs ?p)))"
  let ?hi = "unat (pl_held_bomb ?p - 1)"
  have live: "unat (pl_live_bombs ?p) \<le> 6"
    using inv_live [OF assms(1,2)] inv_owned [OF assms(1,2)] by simp
  have u: "uint (pl_live_bombs ?p) = int (unat (pl_live_bombs ?p))" by simp
  have n: "?n = nat (spread_extras s ?p)"
    using live unfolding spread_extras_def Let_def tune_values u by (split if_split)+ linarith
  have t: "release pi s = empty_hands pi (throw_spread pi ?hi s)"
    using assms(4) by (simp add: release_def Let_def not_le [symmetric])
  from throw_spread_spec [OF assms(1-3) n refl] obtain slots where sl:
    "length slots = ?n" "distinct (?hi # slots)"
    "\<forall>i \<in> set slots. i < 16 \<and> bm_state (bomb s i) = BSTATE_FREE"
    "bomb (throw_spread pi ?hi s) ?hi = throw_bomb ?p (pl_yaw ?p + word_of_int (fan ! ?n ! 0))
      TUNE_SPREAD_SPEED TUNE_SPREAD_UP (bomb s ?hi)"
    "\<forall>k < ?n. bomb (throw_spread pi ?hi s) (slots ! k) = spread_bomb pi ?p (fan ! ?n ! (k + 1))"
    "\<forall>j. j \<noteq> ?hi \<and> j \<notin> set slots \<longrightarrow> bomb (throw_spread pi ?hi s) j = bomb s j"
    "player (throw_spread pi ?hi s) pi = ?p\<lparr>pl_live_bombs := pl_live_bombs ?p + of_nat ?n\<rparr>"
    by blast
  have b: "bomb (release pi s) j = bomb (throw_spread pi ?hi s) j" for j
    unfolding t by (simp add: empty_hands_def)
  have "length (st_players (throw_extras pi as u)) = length (st_players u)" for as u
    by (induction pi as u rule: throw_extras.induct) (simp_all add: Let_def split: option.split)
  then have "length (st_players (throw_spread pi ?hi s)) = 4"
    using inv_lengths [OF assms(1)] by (simp add: throw_spread_def Let_def)
  then have "player (release pi s) pi
      = ?p\<lparr>pl_live_bombs := pl_live_bombs ?p + of_nat ?n, pl_held_bomb := 0, pl_timer := 0\<rparr>"
    unfolding t using assms(2) sl(7) by (simp add: empty_hands_def)
  then show ?thesis
    unfolding Let_def b using sl by (intro exI [of _ slots]) (simp only: spread_bomb_def, blast)
qed

theorem spread_throws_the_fan_witness:
  "\<exists>n. player (release 2 wound_up) 2
     = (player wound_up 2)\<lparr>pl_live_bombs := pl_live_bombs (player wound_up 2) + of_nat n,
          pl_held_bomb := 0, pl_timer := 0\<rparr>"
proof -
  have "(2 :: nat) < 4" "pl_held_bomb (player wound_up 2) \<noteq> 0" "TUNE_SPREAD_TICKS \<le> pl_timer (player wound_up 2)"
    by (simp_all add: wound_up_facts tune_values)
  from spread_throws_the_fan [OF wound_up_facts(1) this] show ?thesis
    unfolding Let_def by blast
qed

end
