(* ===== verification/Sim_Edge.thy ===== *)
theory Sim_Edge
  imports Sim_Combat
begin

text \<open>
  Where the simulation does something its comments do not intend: player slots beyond
  \<open>num_players\<close> come to life, the spawn facing is a quarter turn off, and the timer that counts a
  bomb hold doubles as invulnerability.
\<close>

lemma dead_tick_revives:
  assumes "pl_state p = PSTATE_DEAD" and "unat (pl_timer p) \<le> 1"
  shows "revived p (dead_tick True g pi inp p)"
proof -
  have "pl_timer p = 0 \<or> pl_timer p = 1"
    using assms(2) u16_one [of "pl_timer p"] unat_eq_0 [of "pl_timer p"] by linarith
  then show ?thesis
    using assms(1) by (auto simp: dead_tick_def respawn_player_def revived_def Let_def tune_values)
qed

lemma revive_tick:
  assumes inv: "arena_inv s" and i: "i < 4" and play: "gameplay (phase_tick s)"
    and dead: "pl_state (player s i) = PSTATE_DEAD" and t: "unat (pl_timer (player s i)) \<le> 1"
  shows "revived (player s i) (player (arena_tick ins s) i)"
proof -
  let ?s = "phase_tick s" and ?g = "geom_of s"
  let ?wx = "wall_x_of ?s" and ?wz = "wall_z_of ?s"
  let ?p = "player (players_tick ?g ?wx ?wz ins ?s) i"
  have inv1: "arena_inv ?s" using inv by (rule inv_phase_tick)
  obtain u where u: "arena_inv u" "clock u = clock ?s" "player u i = player ?s i"
    "?p = player (player_tick ?g ?wx ?wz i (ins ! i) u) i"
    using players_tick_own [OF inv1 i, of ?g ?wx ?wz ins] by blast
  have "\<not> resets s" using play by (auto simp: resets_def gameplay_def)
  then have p0: "player u i = player s i" using u(3) by (simp add: phase_tick_players)
  have "gameplay u" using play gameplay_clock [OF u(2)] by simp
  then have "revived (player s i) ?p"
    using dead_tick_core [of i u ?g ?wx ?wz "ins ! i"] inv_lengths [OF u(1)] i dead t
    by (simp add: u(4) p0 dead_tick_revives)
  moreover from this have "\<not> vulnerable ?p" by (simp add: revived_def vulnerable_def tune_values)
  then have "cores (arena_tick ins s) i = core ?p"
    using tick_phases_core [OF inv1 refl, of ?g ?wx ?wz ins i] arena_tick_core [of ins s i]
    by (auto simp: one_hit_def)
  ultimately show ?thesis by (simp add: revived_def core_def)
qed

lemma locomotion_timer:
  "pl_timer (locomotion gp inp p) = pl_timer p" "pl_held_bomb (locomotion gp inp p) = pl_held_bomb p"
  by (simp_all add: locomotion_def steer_def turn_toward_def accelerate_def jump_def Let_def split_beta)

lemma locomotion_state:
  "pl_state (locomotion gp inp p) = pl_state p \<or> pl_state (locomotion gp inp p) = PSTATE_JUMP"
proof -
  have "pl_state (fst (steer gp inp p)) = pl_state p" "pl_state (accelerate v q) = pl_state q" for v q
    by (simp_all add: steer_def turn_toward_def accelerate_def Let_def)
  then show ?thesis by (simp add: locomotion_def split_beta jump_def Let_def)
qed

lemma finish_holding:
  assumes "pl_state p \<noteq> PSTATE_TUMBLE" and "pl_held_bomb p \<noteq> 0" and "pl_timer p \<noteq> 0"
  shows "\<not> vulnerable (finish_player g wx wz inp p)"
proof -
  let ?m = "move_player g wx wz p"
  have m: "pl_state ?m = pl_state p" "pl_timer ?m = pl_timer p" "pl_held_bomb ?m = pl_held_bomb p"
    by (simp_all add: move_player_def Let_def split_beta)
  then show ?thesis
    using assms by (auto simp: finish_player_def upkeep_def ground_upkeep_def vulnerable_def Let_def word_gt_0)
qed

lemma hold_tick:
  assumes pi: "pi < length (st_players s)" and play: "gameplay s"
    and st: "pl_state (player s pi) \<notin> {PSTATE_DEAD, PSTATE_TUMBLE}"
    and held: "pl_held_bomb (player s pi) \<noteq> 0" and button: "arena_input_bomb inp"
  shows "\<not> vulnerable (player (player_tick g wx wz pi inp s) pi)"
proof -
  let ?p = "locomotion True inp (player s pi)"
  let ?q = "if pl_timer ?p < 0xFFFF then ?p\<lparr>pl_timer := pl_timer ?p + 1\<rparr> else ?p"
  let ?s = "set_player pi ?p s"
  have gp: "gameplay ?s" using play gameplay_clock [OF frame_set(1)] by simp
  have p: "pl_state ?p \<noteq> PSTATE_TUMBLE" "pl_held_bomb ?p \<noteq> 0"
    using st held locomotion_state [of True inp "player s pi"] by (auto simp: locomotion_timer)
  have "hold pi ?s = set_player pi ?q s"
    using pi by (simp add: hold_def Let_def set_player_def)
  then have b: "bomb_button inp prev pi ?s = set_player pi ?q s" for prev
    using gp p pi button by (simp add: bomb_button_def may_take_bomb_def Let_def)
  have q: "pl_state ?q \<noteq> PSTATE_TUMBLE" "pl_held_bomb ?q \<noteq> 0" using p by simp_all
  have "pl_timer ?q \<noteq> 0"
  proof (cases "pl_timer ?p < 0xFFFF")
    case True
    then have "unat (pl_timer ?p + 1) = unat (pl_timer ?p) + 1"
      by (simp add: word_less_nat_alt unat_word_ariths)
    then have "pl_timer ?p + 1 \<noteq> 0" by (metis add_is_0 unat_0 zero_neq_one)
    then show ?thesis using True by simp
  qed auto
  then have "\<not> vulnerable (finish_player g wx wz inp ?q)" by (rule finish_holding [OF q])
  moreover have "set_button wx wz inp prev pi (set_player pi ?q s) = set_player pi ?q s" for prev
    using q pi by (simp add: set_button_def may_take_bomb_def Let_def)
  ultimately show ?thesis
    using st play pi by (simp add: player_tick_def live_tick_def Let_def b)
qed

section \<open>Properties\<close>

definition two_player_match :: ArenaState where
  "two_player_match = (arena_init 0 2 7)\<lparr>st_phase := PHASE_PLAY\<rparr>"

lemma two_player_match_facts:
  "arena_inv two_player_match" "gameplay (phase_tick two_player_match)"
  "st_num_players two_player_match = 2"
  "pl_state (player two_player_match 3) = PSTATE_DEAD" "pl_timer (player two_player_match 3) = 0"
  "arena_inv (set_player 1 (player two_player_match 1\<lparr>pl_timer := 1\<rparr>) two_player_match)"
proof -
  have i: "arena_inv (arena_init 0 2 7)" by (rule inv_init) (simp_all add: arena_geom_count)
  show inv: "arena_inv two_player_match"
    unfolding two_player_match_def using soft_phase_fields(4) i by (rule soft_inv)
  show "gameplay (phase_tick two_player_match)"
    by (simp add: two_player_match_def phase_tick_def gameplay_def arena_init_def Let_def)
  show "arena_inv (set_player 1 (player two_player_match 1\<lparr>pl_timer := 1\<rparr>) two_player_match)"
    by (rule soft_inv [OF soft_set_player inv]) (simp add: soft_player_def)
  show "st_num_players two_player_match = 2"
    "pl_state (player two_player_match 3) = PSTATE_DEAD" "pl_timer (player two_player_match 3) = 0"
    by (simp_all add: two_player_match_def arena_init_def round_reset_def reset_player_def
      player_zero_def Let_def arena_sizes)
qed

text \<open>Slots that no player occupies come to life.  In a match of fewer than four players the slots
  from \<open>num_players\<close> on start dead with a timer of zero, and the respawn meant for players applies to
  every slot: the first tick of play puts each of them on its spawn with full hit points.\<close>

theorem unused_slots_respawn:
  assumes "arena_inv s" and "i < 4" and "unat (st_num_players s) \<le> i" and "gameplay (phase_tick s)"
    and "pl_state (player s i) = PSTATE_DEAD" and "unat (pl_timer (player s i)) \<le> 1"
  shows "pl_state (player (arena_tick ins s) i) = PSTATE_IDLE
    \<and> pl_hp (player (arena_tick ins s) i) = TUNE_START_HP"
  using revive_tick [OF assms(1,2,4-6), of ins] by (simp add: revived_def)

theorem unused_slots_respawn_witness:
  "st_num_players two_player_match = 2
   \<and> pl_state (player (arena_tick [0, 0, 0, 0] two_player_match) 3) = PSTATE_IDLE"
  using unused_slots_respawn [OF two_player_match_facts(1) _ _ two_player_match_facts(2,4)]
    two_player_match_facts(3,5) by simp

text \<open>Holding a bomb shields its holder.  The timer that counts the hold is the one the blasts
  read as invulnerability, so during play a player that already holds a bomb and keeps the button
  down leaves its own tick with the timer running, and \<open>blast_player\<close> does nothing to it.  In the tick of
  the grab itself the timer is set to zero, and the holder can be hurt.\<close>

theorem holding_a_bomb_shields:
  assumes "pi < length (st_players s)" and "gameplay s"
    and "pl_state (player s pi) \<notin> {PSTATE_DEAD, PSTATE_TUMBLE}"
    and "pl_held_bomb (player s pi) \<noteq> 0" and "arena_input_bomb inp"
  shows "blast_player bl pi (player_tick g wx wz pi inp s) = player_tick g wx wz pi inp s"
  using hold_tick [OF assms] by (auto simp: blast_player_def Let_def)

theorem holding_a_bomb_shields_witness:
  "let s = wound_up\<lparr>st_phase := PHASE_PLAY\<rparr>;
       t = player_tick arena_nitros_standin 32426 32426 2 (arena_input_pack 0 0 False True False) s
   in blast_player blast_zero 2 t = t"
proof -
  have "length (st_players wound_up) = 4" using inv_lengths [OF wound_up_facts(1)] by simp
  moreover have "pl_state (player wound_up 2) = PSTATE_IDLE"
    using init_facts(6) [of 2] inv_lengths [OF init_inv] by (simp add: wound_up_def Let_def)
  ultimately show ?thesis
    unfolding Let_def
    by (intro holding_a_bomb_shields) (simp_all add: gameplay_def wound_up_facts arena_input_roundtrip)
qed

text \<open>Players do not face the centre when they spawn, as the code's comment says: at every spawn
  of both maps the facing vector (sine, minus cosine) is perpendicular to the direction of the
  centre, not parallel to it.\<close>

theorem spawns_face_sideways:
  "list_all (\<lambda>pos. let yaw = spawn_yaw pos in
       qsin yaw * (- vx pos) + (- qcos yaw) * (- vz pos) = 0
       \<and> 0 < qsin yaw * qsin yaw + qcos yaw * qcos yaw \<and> 0 < vx pos * vx pos + vz pos * vz pos)
     (spawns arena_nitros_standin @ spawns arena_classic)"
proof -
  have "spawn_yaw \<lparr>vx = - 22528, vy = 0, vz = - 22528\<rparr> = 0x2000"
    "spawn_yaw \<lparr>vx = 22528, vy = 0, vz = 22528\<rparr> = 0xA000"
    "spawn_yaw \<lparr>vx = - 22528, vy = 0, vz = 22528\<rparr> = 0x6000"
    "spawn_yaw \<lparr>vx = 22528, vy = 0, vz = - 22528\<rparr> = 0xE000"
    "spawn_yaw \<lparr>vx = - 18432, vy = 0, vz = - 18432\<rparr> = 0x2000"
    "spawn_yaw \<lparr>vx = 18432, vy = 0, vz = 18432\<rparr> = 0xA000"
    "spawn_yaw \<lparr>vx = - 18432, vy = 0, vz = 18432\<rparr> = 0x6000"
    "spawn_yaw \<lparr>vx = 18432, vy = 0, vz = - 18432\<rparr> = 0xE000"
    by (simp_all add: spawn_yaw_def iatan2_def qabs_def qdiv_def qmul_def tdiv_def i32_def Q_ONE_def
      Qc_def Let_def)
  moreover have "qsin 0x2000 = 2896" "qcos 0x2000 = 2896" "qsin 0xA000 = - 2896" "qcos 0xA000 = - 2896"
    "qsin 0x6000 = 2896" "qcos 0x6000 = - 2896" "qsin 0xE000 = - 2896" "qcos 0xE000 = 2896"
    by (simp_all add: qsin_def qcos_def arena_sintab_def)
  ultimately show ?thesis by (simp add: Let_def)
qed

end
