(* ===== verification/Sim_Restart.thy ===== *)
theory Sim_Restart
  imports Sim_Rounds
begin

text \<open>
  What a restart leaves: the tick that resets a finished round runs the whole of \<open>arena_tick\<close> on the reset
  state, and changes nothing of it but the tick counter and the inputs last seen.  Every player of the match
  stands alive on its spawn with full hit points, no bomb and no blast is left, the walls are back.
\<close>

section \<open>Spawns\<close>

definition spread :: "Vec3q \<Rightarrow> Vec3q \<Rightarrow> bool" where
  "spread a b \<longleftrightarrow> \<bar>vx b - vx a\<bar> \<in> {0, 36864, 45056} \<and> \<bar>vz b - vz a\<bar> \<in> {0, 36864, 45056} \<and> (vx a \<noteq> vx b \<or> vz a \<noteq> vz b)"

definition clear_spawn :: "ArenaGeom \<Rightarrow> Vec3q \<Rightarrow> bool" where
  "clear_spawn g sp \<longleftrightarrow> vy sp = 0 \<and> \<bar>vx sp\<bar> \<le> 22528 \<and> \<bar>vz sp\<bar> \<le> 22528 \<and> \<bar>vx sp\<bar> + 1433 \<le> half_x g \<and> \<bar>vz sp\<bar> + 1433 \<le> half_z g
     \<and> (\<forall>b \<in> set (pillars g). 1433 \<le> \<bar>vx sp - qclamp (vx sp) (vx (bmin b)) (vx (bmax b))\<bar>
          \<and> \<bar>vx sp - qclamp (vx sp) (vx (bmin b)) (vx (bmax b))\<bar> \<le> 2 ^ 20
          \<and> \<bar>vz sp - qclamp (vz sp) (vz (bmin b)) (vz (bmax b))\<bar> \<le> 2 ^ 20)"

lemma geoms: "unat (st_arena_id s) < 2 \<Longrightarrow> geom_of s = arena_nitros_standin \<or> geom_of s = arena_classic"
  using arena_geoms_cases [of "unat (st_arena_id s)"] by (simp add: geom_of_def)

lemma four_cases: "i < 4 \<Longrightarrow> i = 0 \<or> i = 1 \<or> i = 2 \<or> i = (3 :: nat)"
  by linarith

lemma spawns_clear:
  assumes "g = arena_nitros_standin \<or> g = arena_classic" and "i < 4"
  shows "clear_spawn g (spawns g ! i)"
  using assms(1) four_cases [OF assms(2)]
  by (auto simp: clear_spawn_def classic_pillars_def Qc_def Q_ONE_def tdiv_def qclamp_def)

lemma spawns_spread:
  assumes "g = arena_nitros_standin \<or> g = arena_classic" and "i < j" and "j < 4"
  shows "spread (spawns g ! i) (spawns g ! j)"
proof -
  have "i < 4" using assms(2,3) by simp
  then show ?thesis using assms four_cases [OF assms(3)] four_cases [of i] by (auto simp: spread_def)
qed

section \<open>A player waiting on its spawn\<close>

definition waiting :: "Vec3q \<Rightarrow> ArenaPlayer \<Rightarrow> bool" where
  "waiting sp p \<longleftrightarrow> pl_pos p = sp \<and> pl_vel p = vec0 \<and> pl_state p = PSTATE_IDLE \<and> pl_timer p = 0"

lemma waiting_input [simp]: "waiting sp (p\<lparr>pl_last_input := w\<rparr>) = waiting sp p"
  by (simp add: waiting_def)

lemma zeros: "i32 0 = 0" "qmul a 0 = 0"
  by (simp_all add: qmul_def i32_def)

lemma at_rest_stays:
  assumes "pl_vel p = vec0" and "on_ground p" and "pl_state p = PSTATE_IDLE"
  shows "accelerate 0 p = p"
proof -
  have "(pl_vel p)\<lparr>vx := 0, vz := 0\<rparr> = pl_vel p" by (simp add: assms(1) vec0_def)
  moreover have "p\<lparr>pl_vel := pl_vel p\<rparr> = p" by simp
  moreover have "qlen2 (vx (pl_vel p)) (vz (pl_vel p)) = 0" by (simp add: assms(1) vec0_def)
  moreover have "qclamp 0 (- TUNE_RUN_FRICTION) TUNE_RUN_FRICTION = 0" by (simp add: qclamp_def tune_values)
  ultimately show ?thesis using assms(2,3) by (simp add: accelerate_def zeros Let_def)
qed

lemma waiting_moves_not:
  assumes "waiting sp p" and "vy sp = 0"
  shows "locomotion False inp p = p"
proof -
  have "on_ground p" using assms by (simp add: waiting_def on_ground_def vec0_def)
  then have "accelerate 0 p = p" using assms(1) by (simp add: waiting_def at_rest_stays)
  then show ?thesis by (simp add: locomotion_def steer_def jump_def)
qed

lemma pushed_not:
  assumes "clear_spawn g sp" and "b \<in> set (pillars g)"
  shows "pushout_aabb 1433 b sp = sp"
proof -
  let ?dx = "vx sp - qclamp (vx sp) (vx (bmin b)) (vx (bmax b))" and ?dz = "vz sp - qclamp (vz sp) (vz (bmin b)) (vz (bmax b))"
  have far: "1433 \<le> \<bar>?dx\<bar>" "\<bar>?dx\<bar> \<le> 2 ^ 20" "\<bar>?dz\<bar> \<le> 2 ^ 20" using assms unfolding clear_spawn_def by blast+
  have "i32 ?dx = ?dx" "i32 ?dz = ?dz" using far by (intro i32_abs [of _ "2 ^ 20"]; simp)+
  moreover have "\<bar>?dx\<bar> \<le> 2 ^ 30" "\<bar>?dz\<bar> \<le> 2 ^ 30" using far by simp_all
  then have "1433 \<le> qlen2 ?dx ?dz" using qlen2_ge_x [OF small_squares, of ?dx ?dz] far(1) by linarith
  ultimately show ?thesis by (simp add: pushout_aabb_def Let_def)
qed

lemma waiting_stands:
  assumes "waiting sp p" and "clear_spawn g sp" and "half_x g \<le> wx" and "half_z g \<le> wz" and "wx \<le> 32426" and "wz \<le> 32426"
  shows "finish_player g wx wz inp p = p\<lparr>pl_last_input := inp\<rparr>"
proof -
  have sp: "vy sp = 0" "\<bar>vx sp\<bar> \<le> 22528" "\<bar>vz sp\<bar> \<le> 22528" "\<bar>vx sp\<bar> + 1433 \<le> wx" "\<bar>vz sp\<bar> + 1433 \<le> wz"
    using assms(2-4) by (simp_all add: clear_spawn_def)
  have i: "i32 (vx sp) = vx sp" "i32 (vz sp) = vz sp" "i32 (wx - 1433) = wx - 1433" "i32 (wz - 1433) = wz - 1433"
    "i32 (1433 - wx) = 1433 - wx" "i32 (1433 - wz) = 1433 - wz" "i32 (- 71) = - 71"
    using sp assms(5,6) by (intro i32_abs [of _ 32426]; simp add: abs_le_iff)+
  have pillars: "fold (pushout_aabb 1433) (pillars g) sp = sp"
    by (rule fold_invariant_list [where P = "\<lambda>q. q = sp"]) (simp_all add: pushed_not [OF assms(2)])
  have vec: "\<lparr>vx = vx sp, vy = 0, vz = vz sp\<rparr> = sp" using sp(1) by simp
  have "collide_static 1433 g wx wz (\<lparr>vx = vx sp, vy = - 71, vz = vz sp\<rparr>, \<lparr>vx = 0, vy = - 71, vz = 0\<rparr>) = (sp, vec0)"
    using sp i
    by (simp add: collide_static_def clamp_floor_def clamp_x_def clamp_z_def Let_def vec0_def abs_le_iff vec pillars)
  then have "move_player g wx wz p = p"
    using assms(1) i sp by (simp add: move_player_def waiting_def vec0_def Let_def tune_values)
  then show ?thesis
    using assms(1) by (simp add: finish_player_def upkeep_def ground_upkeep_def waiting_def vec0_def Let_def Qc_def Q_ONE_def tdiv_def)
qed

section \<open>The tick of a reset state\<close>

definition ready :: "ArenaGeom \<Rightarrow> ArenaState \<Rightarrow> bool" where
  "ready g s \<longleftrightarrow> st_phase s = PHASE_COUNTDOWN \<and> length (st_players s) = 4
     \<and> st_bombs s = replicate 16 bomb_zero \<and> st_blasts s = replicate 16 blast_zero
     \<and> (\<forall>i < 4. pl_state (player s i) = PSTATE_DEAD \<or> waiting (spawns g ! i) (player s i))"

definition saw :: "ArenaInput list \<Rightarrow> ArenaState \<Rightarrow> ArenaState" where
  "saw ins s = s\<lparr>st_players := map (\<lambda>i. player s i\<lparr>pl_last_input := ins ! i\<rparr>) [0..<4]\<rparr>"

lemma ready_not_play: "ready g s \<Longrightarrow> \<not> gameplay s"
  by (simp add: ready_def gameplay_def)

lemma buttons_idle:
  assumes "\<not> gameplay s"
  shows "bomb_button inp prev i s = s" "set_button wx wz inp prev i s = s"
  using assms by (simp_all add: bomb_button_def set_button_def Let_def)

lemma set_player_same: "set_player i (player s i) s = s"
  by (simp add: set_player_def)

lemma ready_player_tick:
  assumes "ready g s" and "i < 4" and "g = arena_nitros_standin \<or> g = arena_classic" and "wx = half_x g" and "wz = half_z g"
  shows "player_tick g wx wz i inp s = set_player i (player s i\<lparr>pl_last_input := inp\<rparr>) s"
proof (cases "pl_state (player s i) = PSTATE_DEAD")
  case True
  then show ?thesis using ready_not_play [OF assms(1)] by (simp add: player_tick_def dead_tick_def)
next
  case False
  then have w: "waiting (spawns g ! i) (player s i)" using assms(1,2) by (auto simp: ready_def)
  have clear: "clear_spawn g (spawns g ! i)" "vy (spawns g ! i) = 0"
    using spawns_clear [OF assms(3,2)] by (simp_all add: clear_spawn_def)
  have "finish_player g wx wz inp (player s i) = player s i\<lparr>pl_last_input := inp\<rparr>"
    using assms(3-5) by (intro waiting_stands [OF w clear(1)]) auto
  then show ?thesis
    using False ready_not_play [OF assms(1)] waiting_moves_not [OF w clear(2)]
    by (simp add: player_tick_def live_tick_def buttons_idle set_player_same Let_def)
qed

lemma ready_saw_one:
  assumes "ready g s" and "i < 4"
  shows "ready g (set_player i (player s i\<lparr>pl_last_input := inp\<rparr>) s)"
  using assms by (auto simp: ready_def nth_list_update)

lemma ready_players:
  assumes "ready g s" and "g = arena_nitros_standin \<or> g = arena_classic" and "wx = half_x g" and "wz = half_z g"
  shows "players_tick g wx wz ins s = saw ins s"
proof -
  note step = ready_player_tick [OF _ _ assms(2-4)]
  obtain a b c d where l: "st_players s = [a, b, c, d]"
    using assms(1) by (auto simp: ready_def length_Suc_conv eval_nat_numeral)
  have "players_tick g wx wz ins s = fold (\<lambda>i s. set_player i (player s i\<lparr>pl_last_input := ins ! i\<rparr>) s) [0..<4] s \<and> ready g s"
  proof -
    have "fold (\<lambda>i. player_tick g wx wz i (ins ! i)) is s = fold (\<lambda>i s. set_player i (player s i\<lparr>pl_last_input := ins ! i\<rparr>) s) is s"
      if "ready g s" "\<forall>i \<in> set is. i < 4" for "is" s
      using that by (induction "is" arbitrary: s) (simp_all add: step ready_saw_one)
    then show ?thesis using assms(1) by (simp add: players_tick_def arena_sizes)
  qed
  moreover have "[0..<4] = [0, 1, 2, 3 :: nat]" by (simp add: upt_rec)
  ultimately show ?thesis by (simp add: saw_def l set_player_def)
qed

lemma ready_saw: "ready g s \<Longrightarrow> ready g (saw ins s)"
  by (auto simp: ready_def saw_def)

lemma fold_still: "(\<And>x. x \<in> set xs \<Longrightarrow> f x s = s) \<Longrightarrow> fold f xs s = s"
  by (induction xs) simp_all

lemma ready_separate:
  assumes "ready g s" and "g = arena_nitros_standin \<or> g = arena_classic"
  shows "separate_players s = s"
  unfolding separate_players_def
proof (rule fold_still)
  fix ab assume "ab \<in> set player_pairs"
  then obtain a b where ab: "ab = (a, b)" "a < b" "b < 4" by (auto simp: player_pairs_def arena_sizes)
  let ?p = "player s a" and ?q = "player s b"
  have "separate ?p ?q = (?p, ?q)"
  proof (cases "pl_state ?p = PSTATE_DEAD \<or> pl_state ?q = PSTATE_DEAD")
    case True
    then show ?thesis by (simp add: separate_def)
  next
    case False
    have "a < 4" using ab by simp
    moreover have "pl_state (player s i) = PSTATE_DEAD \<or> waiting (spawns g ! i) (player s i)" if "i < 4" for i
      using assms(1) that by (simp add: ready_def)
    ultimately have "waiting (spawns g ! a) ?p" "waiting (spawns g ! b) ?q" using ab False by blast+
    then have pos: "pl_pos ?p = spawns g ! a" "pl_pos ?q = spawns g ! b"
      using False by (auto simp: waiting_def)
    let ?dx = "vx (spawns g ! b) - vx (spawns g ! a)" and ?dz = "vz (spawns g ! b) - vz (spawns g ! a)"
    have d: "\<bar>?dx\<bar> \<in> {0, 36864, 45056}" "\<bar>?dz\<bar> \<in> {0, 36864, 45056}" "?dx \<noteq> 0 \<or> ?dz \<noteq> 0"
      using spawns_spread [OF assms(2) ab(2,3)] by (auto simp: spread_def)
    then have le: "\<bar>?dx\<bar> \<le> 2 ^ 30" "\<bar>?dz\<bar> \<le> 2 ^ 30" by auto
    have "36864 \<le> \<bar>?dx\<bar> \<or> 36864 \<le> \<bar>?dz\<bar>" using d by auto
    then have "2866 \<le> qlen2 ?dx ?dz" using qlen2_ge_x [OF small_squares, OF le] qlen2_ge_z [OF small_squares, OF le] by linarith
    moreover have "i32 ?dx = ?dx" "i32 ?dz = ?dz" using le by (intro i32_abs [of _ "2 ^ 30"]; simp)+
    moreover have "i32 2866 = 2866" by (simp add: i32_def)
    ultimately show ?thesis using False by (simp add: separate_def pos tune_values Let_def)
  qed
  then show "separate_pair ab s = s" by (simp add: ab(1) separate_pair_def set_player_def)
qed

lemma ready_bombs:
  assumes "ready g s"
  shows "bombs_tick h wx wz s = s" "detonations s = s" "blasts_tick s = s"
proof -
  have b: "bm_state (bomb s i) = BSTATE_FREE" "bl_ttl (blast s i) = 0" if "i < 16" for i
    using assms that by (simp_all add: ready_def bomb_zero_def blast_zero_def)
  show "bombs_tick h wx wz s = s" unfolding bombs_tick_def
    by (rule fold_still) (simp add: bomb_tick_def b arena_sizes)
  show "detonations s = s" unfolding detonations_def by (rule fold_still) (simp add: b arena_sizes)
  show "blasts_tick s = s" unfolding blasts_tick_def by (rule fold_still) (simp add: blast_tick_def b arena_sizes)
qed

definition reset_state :: "ArenaState \<Rightarrow> ArenaState" where
  "reset_state s = (round_reset s)\<lparr>st_phase := PHASE_COUNTDOWN, st_phase_timer := TUNE_COUNTDOWN_TICKS\<rparr>"

lemma reset_ready: "ready (geom_of s) (reset_state s)"
  by (auto simp: ready_def reset_state_def round_reset_def arena_sizes reset_player_def waiting_def player_zero_def Let_def)

lemma reset_tick:
  assumes "phase_tick s = reset_state t" and "geom_of s = geom_of t" and "unat (st_arena_id t) < 2"
  shows "arena_tick ins s = (saw ins (reset_state t))\<lparr>st_tick := st_tick t + 1\<rparr>"
proof -
  note r = reset_ready [of t] and g = geoms [OF assms(3)]
  have walls: "wall_x_of (reset_state t) = half_x (geom_of t)" "wall_z_of (reset_state t) = half_z (geom_of t)"
    using g by (auto simp: wall_x_of_def wall_z_of_def wall_shrink_def reset_state_def geom_of_def i32_def)
  have "tick_phases (geom_of t) (half_x (geom_of t)) (half_z (geom_of t)) ins (reset_state t) = saw ins (reset_state t)"
    using ready_players [OF r g refl refl] ready_separate [OF ready_saw [OF r] g] ready_bombs [OF ready_saw [OF r]]
    by (simp add: tick_phases_def Let_def)
  moreover have "round_end (saw ins (reset_state t)) = saw ins (reset_state t)"
    using ready_not_play [OF ready_saw [OF r]] by (simp add: round_end_def)
  moreover have "st_tick (saw ins (reset_state t)) = st_tick t" "st_tick (reset_state t) = st_tick t" by (simp_all add: saw_def reset_state_def round_reset_def)
  ultimately show ?thesis by (simp add: arena_tick_def Let_def assms(1,2) walls)
qed

section \<open>The restarting tick\<close>

lemma restart_phase:
  assumes "st_phase s = PHASE_ROUND_END" and "\<not> match_over s" and "unat (st_phase_timer s) \<le> 1"
  shows "\<exists>n. phase_tick s = reset_state (s\<lparr>st_phase_timer := n\<rparr>)"
proof -
  let ?t = "if st_phase_timer s > 0 then s\<lparr>st_phase_timer := st_phase_timer s - 1\<rparr> else s"
  have "st_phase_timer s = 0 \<or> st_phase_timer s = 1"
    using assms(3) by (simp add: le_Suc_eq u16_one unat_eq_0)
  then have t: "st_phase_timer ?t = 0" "?t = s\<lparr>st_phase_timer := 0\<rparr>" by (auto simp: word_gt_0)
  have "\<not> match_over (s\<lparr>st_phase_timer := 0\<rparr>)" using assms(2) by (simp add: match_over_def)
  then have "phase_tick s = reset_state (s\<lparr>st_phase_timer := 0\<rparr>)"
    unfolding phase_tick_def Let_def using assms(1) t by (simp add: reset_state_def)
  then show ?thesis by blast
qed

definition fresh_player :: "ArenaGeom \<Rightarrow> nat \<Rightarrow> ArenaPlayer \<Rightarrow> bool" where
  "fresh_player g i p \<longleftrightarrow> pl_pos p = spawns g ! i \<and> pl_vel p = vec0 \<and> pl_hp p = TUNE_START_HP
     \<and> pl_state p = PSTATE_IDLE \<and> pl_held_bomb p = 0 \<and> pl_live_bombs p = 0"

definition fresh_round :: "ArenaState \<Rightarrow> bool" where
  "fresh_round s \<longleftrightarrow> st_phase s = PHASE_COUNTDOWN \<and> st_phase_timer s = TUNE_COUNTDOWN_TICKS \<and> st_shrink_step s = 0
     \<and> st_bombs s = replicate 16 bomb_zero \<and> st_blasts s = replicate 16 blast_zero
     \<and> (\<forall>i < 4. if i < unat (st_num_players s) then fresh_player (geom_of s) i (player s i)
                else pl_state (player s i) = PSTATE_DEAD)"

lemma restart_tick:
  assumes "arena_inv s" and "st_phase s = PHASE_ROUND_END" and "\<not> match_over s" and "unat (st_phase_timer s) \<le> 1"
  shows "fresh_round (arena_tick ins s)"
proof -
  obtain n where n: "phase_tick s = reset_state (s\<lparr>st_phase_timer := n\<rparr>)" using restart_phase [OF assms(2-4)] by blast
  let ?t = "s\<lparr>st_phase_timer := n\<rparr>"
  have "unat (st_arena_id ?t) < 2" using assms(1) by (simp add: arena_inv_def shape_def arena_geom_count)
  moreover have "geom_of s = geom_of ?t" by (simp add: geom_of_def)
  ultimately have "arena_tick ins s = (saw ins (reset_state ?t))\<lparr>st_tick := st_tick ?t + 1\<rparr>"
    using reset_tick [OF n] by blast
  then show ?thesis
    by (simp add: fresh_round_def saw_def reset_state_def round_reset_def reset_player_def fresh_player_def
        player_zero_def arena_sizes geom_of_def Let_def)
qed

lemma run_fresh:
  "arena_inv s \<Longrightarrow> st_phase s = PHASE_ROUND_END \<Longrightarrow> \<not> match_over s \<Longrightarrow> length inss = steps_left s \<Longrightarrow>
     fresh_round (arena_run inss s)"
proof (induction inss arbitrary: s)
  case Nil
  then show ?case by (simp add: steps_left_def)
next
  case (Cons ins inss)
  show ?case
  proof (cases "unat (st_phase_timer s) > 1")
    case True
    note t = tick_round_end(1) [OF Cons.prems(2,1), of ins]
    have "steps_left (arena_tick ins s) = steps_left s - 1" using t True by (simp add: steps_left_def)
    then have "length inss = steps_left (arena_tick ins s)" using Cons.prems(4) by simp
    then show ?thesis using Cons.IH [OF inv_arena_tick [OF Cons.prems(1)]] Cons.prems(3) t True by simp
  next
    case False
    then have "inss = []" using Cons.prems by (simp add: steps_left_def max_def split: if_splits)
    then show ?thesis using restart_tick [OF Cons.prems(1-3)] False by simp
  qed
qed

text \<open>A round that has been fought: player 1 is dead, and a bomb player 0 laid is still burning.\<close>

definition after_fight :: ArenaState where
  "after_fight = set_bomb 0 (bomb_zero\<lparr>bm_pos := \<lparr>vx = 500, vy = 0, vz = 0\<rparr>, bm_state := BSTATE_SETTLED, bm_fuse := 9\<rparr>)
     (set_player 0 (player after_round 0\<lparr>pl_live_bombs := 1\<rparr>)
       (set_player 1 (player after_round 1\<lparr>pl_hp := 0, pl_state := PSTATE_DEAD, pl_timer := 90\<rparr>) after_round))"

lemma after_fight_facts:
  "arena_inv after_fight" "st_phase after_fight = PHASE_ROUND_END" "\<not> match_over after_fight"
  "steps_left after_fight = 2" "pl_state (player after_fight 1) = PSTATE_DEAD"
  by code_simp+

text \<open>C21: A finished round restarts.  From any consistent state in ROUND_END whose match is not
  decided, the phase stays ROUND_END for as many ticks as the phase timer says (at least one), whatever
  the inputs; then the round is fresh: COUNTDOWN with a full countdown, the walls back at their full
  span, no bomb and no blast left, every player of the match standing on its own spawn, at rest and with
  full hit points, with no bomb in hand and none charged to it, every unused seat dead.  The stocks are
  untouched.\<close>

theorem round_restarts:
  assumes "arena_inv s" and "st_phase s = PHASE_ROUND_END" and "\<not> match_over s"
    and "length inss = max 1 (unat (st_phase_timer s))"
  shows "(\<forall>k < length inss. st_phase (arena_run (take k inss) s) = PHASE_ROUND_END)
    \<and> fresh_round (arena_run inss s)
    \<and> stocks (arena_run inss s) = stocks s"
  using run_round_end [OF assms(1-3), of inss] run_round_end [OF assms(1-3), of "take _ inss"]
    run_fresh [OF assms(1-3), of inss] assms(4)
  by (auto simp: steps_left_def)

theorem round_restarts_witness:
  "st_phase after_fight = PHASE_ROUND_END \<and> pl_state (player after_fight 1) = PSTATE_DEAD
   \<and> fresh_round (arena_run [[0, 0, 0, 0], [1, 2, 3, 4]] after_fight)"
  using round_restarts [OF after_fight_facts(1-3), of "[[0, 0, 0, 0], [1, 2, 3, 4]]"] after_fight_facts(2,4,5)
  by (simp add: steps_left_def)

end
