(* ===== verification/Sim_Explode.thy ===== *)
theory Sim_Explode
  imports Sim_Combat Sim_Restart
begin

text \<open>
  The two promises of the bombs, over whole ticks: a laid bomb explodes in time, leaving a blast where it
  lay, and however many blasts overlap, a player loses one hit point a tick.
\<close>

section \<open>A detonation leaves a blast\<close>

definition fresh_blast :: "ArenaBomb \<Rightarrow> ArenaBlast \<Rightarrow> bool" where
  "fresh_blast b bl \<longleftrightarrow> bl_center bl = bm_pos b \<and> bl_owner bl = bm_owner b
     \<and> bl_radius_t bl = 0 \<and> bl_ttl bl = TUNE_BLAST_TTL"

definition boom :: "nat \<Rightarrow> ArenaState \<Rightarrow> ArenaState" where
  "boom i s = (if bm_state (bomb s i) = BSTATE_EXPLODING then detonate i s else s)"

lemma detonations_boom: "detonations = fold boom [0..<16]"
  by (simp add: detonations_def boom_def [abs_def] arena_sizes)

lemma st_blasts_boom: "st_blasts (boom i s) = (if bm_state (bomb s i) = BSTATE_EXPLODING
    then st_blasts (spawn_blast (bomb s i) s) else st_blasts s)"
  by (simp add: boom_def detonate_def release_live_def Let_def)

definition taken_or_same :: "ArenaState \<Rightarrow> ArenaState \<Rightarrow> bool" where
  "taken_or_same s t \<longleftrightarrow> length (st_blasts t) = length (st_blasts s) \<and> (\<forall>k < length (st_blasts s).
     blast t k = blast s k \<or> bl_ttl (blast s k) = 0 \<and> bl_ttl (blast t k) = TUNE_BLAST_TTL)"

lemma spawn_blast_Some:
  assumes "find_free_blast s = Some k"
  shows "k < length (st_blasts s)" "bl_ttl (blast s k) = 0" "fresh_blast b (blast (spawn_blast b s) k)"
proof -
  show k: "k < length (st_blasts s)" "bl_ttl (blast s k) = 0"
    using assms by (auto simp: find_free_blast_def dest: find_index_SomeD)
  show "fresh_blast b (blast (spawn_blast b s) k)" using assms k(1) by (simp add: spawn_blast_def fresh_blast_def)
qed

lemma spawn_blast_None:
  assumes "find_free_blast s = None"
  shows "k < length (st_blasts s) \<Longrightarrow> bl_ttl (blast s k) \<noteq> 0" "spawn_blast b s = s"
proof -
  show "k < length (st_blasts s) \<Longrightarrow> bl_ttl (blast s k) \<noteq> 0"
    using assms by (auto simp: find_free_blast_def find_index_from_None)
qed (simp add: spawn_blast_def assms)

lemma taken_or_same_boom:
  assumes "taken_or_same s t"
  shows "taken_or_same s (boom i t)"
proof (cases "bm_state (bomb t i) = BSTATE_EXPLODING")
  case False
  then show ?thesis using assms by (simp add: boom_def)
next
  case True
  then have b: "st_blasts (boom i t) = st_blasts (spawn_blast (bomb t i) t)" by (simp add: st_blasts_boom)
  show ?thesis
  proof (cases "find_free_blast t")
    case None
    then show ?thesis using assms b by (simp add: taken_or_same_def spawn_blast_None)
  next
    case (Some k)
    have old: "bl_ttl (blast s k) = 0" if "k < length (st_blasts s)"
      using assms spawn_blast_Some(2) [OF Some] that by (auto simp: taken_or_same_def tune_values)
    have new: "blast (boom i t) x = (if x = k
        then blast t k\<lparr>bl_center := bm_pos (bomb t i), bl_radius_t := 0, bl_owner := bm_owner (bomb t i), bl_ttl := TUNE_BLAST_TTL\<rparr>
        else blast t x)" for x
      using spawn_blast_Some(1) [OF Some] by (simp add: b spawn_blast_def Some)
    have "length (st_blasts (boom i t)) = length (st_blasts t)" using Some by (simp add: b spawn_blast_def)
    then show ?thesis
      using assms old by (auto simp: taken_or_same_def new)
  qed
qed

lemma boom_other: "i \<noteq> j \<Longrightarrow> bomb (boom i s) j = bomb s j"
  by (simp add: boom_def keep_detonate)

lemma detonations_light:
  assumes j: "j < 16" "bm_state (bomb s j) = BSTATE_EXPLODING" and len: "length (st_blasts s) = 16"
  shows "(\<exists>k < 16. bl_ttl (blast s k) = 0 \<and> fresh_blast (bomb s j) (blast (detonations s) k))
    \<or> (\<forall>k < 16. bl_ttl (blast s k) \<noteq> 0 \<or> bl_ttl (blast (detonations s) k) = TUNE_BLAST_TTL)"
proof -
  have parts: "[0..<16] = [0..<j] @ j # [Suc j..<16]"
    using j(1) upt_add_eq_append [of 0 j "16 - j"] by (simp add: upt_conv_Cons)
  let ?a = "fold boom [0..<j] s"
  have a: "bomb (fold boom is t) j = bomb t j \<and> (taken_or_same s t \<longrightarrow> taken_or_same s (fold boom is t))"
    if "j \<notin> set is" for "is" t
    using that by (induction "is" arbitrary: t) (auto simp: boom_other taken_or_same_boom)
  have aj: "bomb ?a j = bomb s j" and same: "taken_or_same s ?a" using a [of "[0..<j]" s] by (simp_all add: taken_or_same_def)
  have late: "blast (fold boom is t) k = blast t k" if "bl_ttl (blast t k) \<noteq> 0" for "is" t k
    using that by (induction "is" arbitrary: t) (simp_all add: boom_def detonate_blast_slot)
  have d: "detonations s = fold boom [Suc j..<16] (boom j ?a)" by (simp add: detonations_boom parts)
  have b: "st_blasts (boom j ?a) = st_blasts (spawn_blast (bomb s j) ?a)" using j(2) aj by (simp add: st_blasts_boom)
  have la: "length (st_blasts ?a) = 16" using same len by (simp add: taken_or_same_def)
  show ?thesis
  proof (cases "find_free_blast ?a")
    case None
    have "bl_ttl (blast s k) \<noteq> 0 \<or> bl_ttl (blast (detonations s) k) = TUNE_BLAST_TTL" if "k < 16" for k
    proof -
      have "bl_ttl (blast ?a k) \<noteq> 0" using spawn_blast_None(1) [OF None] that la by simp
      then have "blast (detonations s) k = blast ?a k" using late b by (simp add: d spawn_blast_None(2) [OF None])
      then show ?thesis using same that len \<open>bl_ttl (blast ?a k) \<noteq> 0\<close> by (auto simp: taken_or_same_def)
    qed
    then show ?thesis by blast
  next
    case (Some k)
    note k = spawn_blast_Some [OF Some]
    have f: "fresh_blast (bomb s j) (blast (boom j ?a) k)" using k(3) by (simp add: b)
    then have "bl_ttl (blast (boom j ?a) k) \<noteq> 0" by (simp add: fresh_blast_def tune_values)
    then have "fresh_blast (bomb s j) (blast (detonations s) k)" using f late by (simp add: d)
    moreover have "bl_ttl (blast s k) = 0" "k < 16"
      using same k(1,2) la len by (auto simp: taken_or_same_def tune_values)
    ultimately show ?thesis by blast
  qed
qed

section \<open>Laid bombs explode\<close>

text \<open>Slot \<open>j\<close> exploded between \<open>s\<close> and \<open>t\<close>: it was in use and is free, and a blast one tick old stands where
  the bomb was, with its owner, in a slot that was free.  When all sixteen slots are burning or taken in the
  same tick, \<open>detonate\<close> drops the blast; that is the only way a bomb ends without one.\<close>

definition exploded :: "ArenaState \<Rightarrow> ArenaState \<Rightarrow> nat \<Rightarrow> bool" where
  "exploded s t j \<longleftrightarrow> bm_state (bomb s j) \<noteq> BSTATE_FREE \<and> bm_state (bomb t j) = BSTATE_FREE \<and>
     ((\<exists>k < 16. bl_ttl (blast s k) = 0 \<and> bl_ttl (blast t k) = TUNE_BLAST_TTL - 1 \<and> bl_radius_t (blast t k) = 1
         \<and> bl_center (blast t k) = bm_pos (bomb t j) \<and> bl_owner (blast t k) = bm_owner (bomb t j))
      \<or> (\<forall>k < 16. bl_ttl (blast s k) \<noteq> 0 \<or> bl_ttl (blast t k) = TUNE_BLAST_TTL - 1))"

lemma phase_tick_pools: "\<not> resets s \<Longrightarrow> st_bombs (phase_tick s) = st_bombs s \<and> st_blasts (phase_tick s) = st_blasts s"
  by (cases "st_phase s") (auto simp: resets_def phase_tick_def Let_def split: if_splits)

lemma burnt_or_kicked: "burnt b c \<or> kicked b c \<Longrightarrow> bm_state c = BSTATE_EXPLODING \<or> burning c"
  by (auto simp: burnt_def kicked_def burning_def)

lemma tick_explodes:
  assumes inv: "arena_inv s" and j: "j < 16" and r: "\<not> resets s"
    and lit: "bm_state (bomb s j) = BSTATE_EXPLODING \<or> burning (bomb s j)"
    and free: "bm_state (bomb (arena_tick ins s) j) = BSTATE_FREE"
  shows "exploded s (arena_tick ins s) j"
proof -
  let ?s = "phase_tick s" and ?t = "arena_tick ins s"
  let ?s1 = "separate_players (players_tick (geom_of s) (wall_x_of ?s) (wall_z_of ?s) ins ?s)"
  let ?e = "bombs_tick (geom_of s) (wall_x_of ?s) (wall_z_of ?s) ?s1"
  let ?d = "detonations ?e"
  have inv0: "arena_inv ?s" using inv by (rule inv_phase_tick)
  have inv1: "arena_inv ?s1" by (intro soft_inv [OF soft_separate_players] inv_players_tick inv0)
  have inve: "arena_inv ?e" using soft_bombs_tick inv1 by (rule soft_inv)
  have invd: "arena_inv ?d" using inve by (rule inv_detonations)
  have pools: "bomb ?s j = bomb s j" "st_blasts ?e = st_blasts s"
    using phase_tick_pools [OF r] by (simp_all add: blasts_before_detonations)
  have "settled_slot (bomb ?s j)" using lit pools(1) by (auto simp: settled_slot_def burning_def)
  then have b1: "bomb ?s1 j = bomb s j" using inv0 pools(1) by (simp add: keep_players_tick)
  have t: "bomb ?t j = bomb (blasts_tick ?d) j" "st_blasts ?t = st_blasts (blasts_tick ?d)"
    by (simp_all add: arena_tick_def tick_phases_def Let_def round_end_def award_def)
  have dj: "bomb ?d j = (if bm_state (bomb ?e j) = BSTATE_EXPLODING
      then bomb ?e j\<lparr>bm_state := BSTATE_FREE\<rparr> else bomb ?e j)"
    using inv_lengths [OF inve] j by (simp add: detonations_slot)
  have ej: "bm_state (bomb ?e j) = BSTATE_EXPLODING \<or> burning (bomb ?e j)"
  proof (cases "bm_state (bomb s j) = BSTATE_EXPLODING")
    case True
    then show ?thesis using b1 j by (simp add: bombs_tick_exploding)
  next
    case False
    then have "burning (bomb ?s1 j)" using lit b1 by simp
    then show ?thesis using inv_lengths [OF inv1] j by (intro burnt_or_kicked [OF bombs_tick_burning]) simp_all
  qed
  have ch: "chained (bomb ?d j) (bomb ?t j)"
    unfolding t(1) using ej dj by (intro blasts_tick_slot invd j) (auto simp: burning_def)
  have e: "bm_state (bomb ?e j) = BSTATE_EXPLODING"
    using ej dj ch free by (auto simp: chained_def burning_def)
  then have tj: "bomb ?t j = bomb ?e j\<lparr>bm_state := BSTATE_FREE\<rparr>"
    using ch dj by (auto simp: chained_def chainable_def)
  have len: "length (st_blasts ?d) = 16" "length (st_blasts ?e) = 16" using inv_lengths [OF invd] inv_lengths [OF inve] by simp_all
  have grown: "blast ?t k = grow (blast ?d k)" if "k < 16" "bl_ttl (blast ?d k) \<noteq> 0" for k
    unfolding t(2) using that len by (intro blasts_tick_own_slot) simp_all
  have new: "bl_ttl (blast ?t k) = TUNE_BLAST_TTL - 1" if "k < 16" "bl_ttl (blast ?d k) = TUNE_BLAST_TTL" for k
    using grown [of k] that by (simp add: grow_ttl tune_values)
  have lay: "bl_center (blast ?t k) = bm_pos (bomb ?t j) \<and> bl_owner (blast ?t k) = bm_owner (bomb ?t j)
      \<and> bl_radius_t (blast ?t k) = 1" if "k < 16" "fresh_blast (bomb ?e j) (blast ?d k)" for k
    using grown [of k] that by (simp add: tj fresh_blast_def grow_def Let_def tune_values)
  show ?thesis
    using detonations_light [OF j e len(2)] new lay free lit
    unfolding exploded_def pools(2) [symmetric] by (auto simp: fresh_blast_def burning_def)
qed

lemma lit_bomb_explodes:
  "arena_inv s \<Longrightarrow> j < 16 \<Longrightarrow> bm_state (bomb s j) = BSTATE_EXPLODING \<or> burning (bomb s j) \<Longrightarrow>
     fuse_left (bomb s j) \<le> length inss \<Longrightarrow> \<forall>m < length inss. \<not> resets (arena_run (take m inss) s) \<Longrightarrow>
     \<exists>k < length inss. exploded (arena_run (take k inss) s) (arena_run (take (Suc k) inss) s) j"
proof (induction inss arbitrary: s)
  case Nil
  then show ?case by (auto simp: fuse_left_def split: if_splits)
next
  case (Cons ins inss)
  let ?t = "arena_tick ins s"
  have inv: "arena_inv ?t" using Cons.prems(1) by (rule inv_arena_tick)
  have r: "\<not> resets s" using Cons.prems(5) [rule_format, of 0] by simp
  note e = arena_tick_slot(1) [OF Cons.prems(1,2), of ins]
  note b = arena_tick_slot(2) [OF Cons.prems(1,2), of ins]
  show ?case
  proof (cases "bm_state (bomb ?t j) = BSTATE_FREE")
    case True
    have "exploded s ?t j" using Cons.prems(1,2) r Cons.prems(3) True by (rule tick_explodes)
    then show ?thesis by (intro exI [of _ 0]) simp
  next
    case False
    then have "burning (bomb s j)" using Cons.prems(3) e by blast
    with b False have t: "bm_state (bomb ?t j) = BSTATE_EXPLODING \<or> burning (bomb ?t j)"
        "fuse_left (bomb ?t j) \<le> length inss"
      using Cons.prems(4)
      by (auto simp: fuse_left_def burnt_def kicked_def burning_def split: if_splits)
    have later: "\<forall>m < length inss. \<not> resets (arena_run (take m inss) ?t)"
    proof (intro allI impI)
      fix m assume "m < length inss"
      then show "\<not> resets (arena_run (take m inss) ?t)" using Cons.prems(5) [rule_format, of "Suc m"] by simp
    qed
    obtain k where "k < length inss" "exploded (arena_run (take k inss) ?t) (arena_run (take (Suc k) inss) ?t) j"
      using Cons.IH [OF inv Cons.prems(2) t later] by blast
    then show ?thesis by (intro exI [of _ "Suc k"]) simp
  qed
qed

lemma armed_settled: "bm_state (bomb armed 0) = BSTATE_SETTLED" "unat (bm_fuse (bomb armed 0)) = 150"
  using inv_lengths [OF init_inv] init_facts(7) [of 0]
  by (simp_all add: armed_def Let_def laid_bomb_def tune_values)

text \<open>C36: Every laid bomb goes off: unless the round is reset before, a bomb that is settled, sliding or dropping
  with \<open>f\<close> ticks on its fuse explodes within \<open>f + 2\<close> ticks, whatever the players do.  In that tick its slot
  becomes free and a fresh blast of its owner stands where it was; only when every one of the sixteen blast
  slots is burning or was filled in the same tick does it end without a blast.  Kicks postpone it by at most
  one tick, chain reactions only hasten it.\<close>

theorem laid_bombs_go_off:
  assumes "arena_inv s" and "j < 16"
    and "bm_state (bomb s j) \<in> {BSTATE_SETTLED, BSTATE_SLIDING, BSTATE_FALLING}"
    and "length inss = unat (bm_fuse (bomb s j)) + 2"
    and "\<forall>m < length inss. \<not> resets (arena_run (take m inss) s)"
  shows "\<exists>k < length inss. exploded (arena_run (take k inss) s) (arena_run (take (Suc k) inss) s) j"
  using assms by (intro lit_bomb_explodes) (auto simp: burning_def fuse_left_def)

theorem laid_bombs_go_off_witness:
  "\<exists>k < 152. exploded (arena_run (take k (idle 152)) armed) (arena_run (take (Suc k) (idle 152)) armed) 0"
proof -
  have "st_phase armed = PHASE_COUNTDOWN" "unat (st_phase_timer armed) = 180"
    using init_facts(2,3) by (simp_all add: armed_def Let_def)
  then have "\<forall>m < length (idle 152). \<not> resets (arena_run (take m (idle 152)) armed)"
    by (intro no_reset_in_countdown) simp_all
  then show ?thesis
    using laid_bombs_go_off [OF armed_facts(1), of 0 "idle 152"] armed_settled by simp
qed

section \<open>One hit a tick\<close>

lemma reset_hp:
  assumes "arena_inv s" and "i < 4" and "resets s" and "q = player (arena_tick ins s) i"
  shows "if i < unat (st_num_players s) then pl_hp q = TUNE_START_HP \<and> pl_state q = PSTATE_IDLE
    else pl_hp q = 0 \<and> pl_state q = PSTATE_DEAD"
proof -
  have p: "st_phase s = PHASE_ROUND_END" "st_phase (phase_tick s) = PHASE_COUNTDOWN"
    using assms(3) by (simp_all add: resets_def)
  then have "\<not> match_over s" "unat (st_phase_timer s) \<le> 1"
    using phase_tick_round_end(1) [OF p(1) assms(1)] by (auto simp: not_less [symmetric])
  then have fresh: "fresh_round (arena_tick ins s)" using assms(1) p(1) by (intro restart_tick) auto
  have inv: "arena_inv (arena_tick ins s)" using assms(1) by (rule inv_arena_tick)
  have n: "st_num_players (arena_tick ins s) = st_num_players s" by simp
  have "pl_state q = PSTATE_DEAD \<longrightarrow> pl_hp q = 0"
    using inv assms(2) by (simp add: assms(4) arena_inv_def player_inv_def Let_def arena_sizes)
  then show ?thesis
    using fresh assms(2) n by (auto simp: fresh_round_def fresh_player_def assms(4))
qed

text \<open>C31: A tick costs a player at most one hit point, however many blasts overlap.  Every way a player's hit
  points can come out of a tick: the same; one less, with the player stunned (or dead, if that was the last
  one) and its timer freshly loaded; the full number of a player that was dead and has respawned; and, when
  the tick resets the round, the full number of a player of the match and none of an unused seat.\<close>

theorem at_most_one_hit_per_tick:
  assumes "arena_inv s" and "i < 4"
  shows "let p = player s i; q = player (arena_tick ins s) i in
    if resets s then
      (if i < unat (st_num_players s) then pl_hp q = TUNE_START_HP \<and> pl_state q = PSTATE_IDLE
       else pl_hp q = 0 \<and> pl_state q = PSTATE_DEAD)
    else
    pl_hp q = pl_hp p
    \<or> 0 < pl_hp p \<and> pl_hp q = pl_hp p - 1
       \<and> (if pl_hp q = 0 then pl_state q = PSTATE_DEAD \<and> pl_timer q = TUNE_RESPAWN_TICKS
          else pl_state q = PSTATE_TUMBLE \<and> pl_timer q = TUNE_TUMBLE_TICKS + TUNE_INVULN_TICKS)
    \<or> pl_state p = PSTATE_DEAD \<and> pl_hp q = TUNE_START_HP \<and> pl_state q = PSTATE_IDLE
       \<and> pl_timer q = TUNE_INVULN_TICKS"
  using tick_hp [OF assms _ refl, of ins] reset_hp [OF assms _ refl, of ins] by (simp add: Let_def revived_def word_gt_0)

theorem at_most_one_hit_per_tick_witness:
  "pl_hp (player (arena_tick [0, 0, 0, 0] struck) 2) = pl_hp (player struck 2)
   \<or> pl_hp (player (arena_tick [0, 0, 0, 0] struck) 2) = pl_hp (player struck 2) - 1"
proof -
  have "\<not> resets struck" by (simp add: resets_def struck_facts)
  then show ?thesis
    using at_most_one_hit_per_tick [OF struck_facts(1), of 2 "[0, 0, 0, 0]"] struck_facts(2)
    by (auto simp: Let_def)
qed

end
