(* ===== verification/Lobby_Proto.thy ===== *)
theory Lobby_Proto
  imports Arena_Prelude "HOL-Library.Monad_Syntax"
begin

text \<open>
  The wire format of \<open>src/src/lobby/lobby_proto.c\<close> and \<open>lobby_proto.h\<close>: \<open>lobby_pack\<close> and
  \<open>lobby_unpack\<close>.  A packet is a list of bytes.  Every read of the receive buffer is checked: a
  read past its end is \<open>None\<close> in the option monad, so that \<open>lobby_unpack\<close> has three outcomes,
  \<open>None\<close> (out of bounds, never reached), \<open>Some None\<close> (the C return value -1) and
  \<open>Some (Some m)\<close>.

  The tagged union \<open>LobbyMsg\<close> is a datatype with one constructor per message type, so messages
  with an undefined type byte, which \<open>lobby_pack\<close> refuses, are no values.  The payload length
  and pointer of RELAY and GAME are one byte list.
\<close>

section \<open>Constants\<close>

definition LOBBY_MAGIC :: u32 where "LOBBY_MAGIC = 0x41335256"
definition LOBBY_PROTO_VER :: u8 where "LOBBY_PROTO_VER = 1"
definition LOBBY_HDR_SIZE :: nat where "LOBBY_HDR_SIZE = 6"
definition LOBBY_DEFAULT_PORT :: u16 where "LOBBY_DEFAULT_PORT = 40064"
definition LOBBY_MAX_PACKET :: nat where "LOBBY_MAX_PACKET = 1200"
definition LOBBY_MAX_PAYLOAD :: nat where "LOBBY_MAX_PAYLOAD = 1024"
definition LOBBY_REQ_PAD_SIZE :: nat where "LOBBY_REQ_PAD_SIZE = 32"

lemmas lobby_sizes =
  LOBBY_HDR_SIZE_def LOBBY_MAX_PACKET_def LOBBY_MAX_PAYLOAD_def LOBBY_REQ_PAD_SIZE_def

record LobbyEndpoint =
  ep_ip :: u32
  ep_port :: u16

datatype LobbyMsg =
    LOBBY_HOST_REQ (hr_net_version: u32) (hr_num_players: u8) (hr_private_ep: LobbyEndpoint)
  | LOBBY_HOST_RESP (hs_session_id: u16)
  | LOBBY_JOIN_REQ (jr_session_id: u16) (jr_net_version: u32) (jr_private_ep: LobbyEndpoint)
  | LOBBY_JOIN_RESP (js_slot: u8) (js_num_players: u8)
  | LOBBY_REJECT (rj_reason: u8)
  | LOBBY_PEER_INTRO (pi_slot: u8) (pi_public_ep: LobbyEndpoint) (pi_private_ep: LobbyEndpoint)
  | LOBBY_PUNCH (pu_session_id: u16) (pu_from_slot: u8) (pu_nonce: u32)
  | LOBBY_PUNCH_ACK (pa_session_id: u16) (pa_from_slot: u8) (pa_nonce: u32)
  | LOBBY_PUNCH_REPORT (pr_session_id: u16) (pr_slot_a: u8) (pr_slot_b: u8) (pr_ok: u8)
  | LOBBY_PAIR_ROUTE (rt_slot_a: u8) (rt_slot_b: u8) (rt_route: u8)
  | LOBBY_RELAY (rl_session_id: u16) (rl_from_slot: u8) (rl_to_slot: u8) (rl_payload: "u8 list")
  | LOBBY_GAME (gm_session_id: u16) (gm_from_slot: u8) (gm_to_slot: u8) (gm_payload: "u8 list")
  | LOBBY_START (st_seed: u32) (st_arena: u8) (st_players_n: u8) (st_input_delay: u8)
  | LOBBY_START_ACK (sa_session_id: u16) (sa_slot: u8)
  | LOBBY_KEEPALIVE (ka_session_id: u16) (ka_slot: u8)

definition msg_type :: "LobbyMsg \<Rightarrow> u8" where
  "msg_type m = (case m of
       LOBBY_HOST_REQ _ _ _ \<Rightarrow> 1 | LOBBY_HOST_RESP _ \<Rightarrow> 2 | LOBBY_JOIN_REQ _ _ _ \<Rightarrow> 3
     | LOBBY_JOIN_RESP _ _ \<Rightarrow> 4 | LOBBY_REJECT _ \<Rightarrow> 5 | LOBBY_PEER_INTRO _ _ _ \<Rightarrow> 6
     | LOBBY_PUNCH _ _ _ \<Rightarrow> 7 | LOBBY_PUNCH_ACK _ _ _ \<Rightarrow> 8 | LOBBY_PUNCH_REPORT _ _ _ _ \<Rightarrow> 9
     | LOBBY_PAIR_ROUTE _ _ _ \<Rightarrow> 10 | LOBBY_RELAY _ _ _ _ \<Rightarrow> 11 | LOBBY_GAME _ _ _ _ \<Rightarrow> 12
     | LOBBY_START _ _ _ _ \<Rightarrow> 13 | LOBBY_START_ACK _ _ \<Rightarrow> 14 | LOBBY_KEEPALIVE _ _ \<Rightarrow> 15)"

definition LOBBY_MSG_MAX :: u8 where "LOBBY_MSG_MAX = 16"

definition LOBBY_REJ_BAD_SESSION :: u8 where "LOBBY_REJ_BAD_SESSION = 1"
definition LOBBY_REJ_FULL :: u8 where "LOBBY_REJ_FULL = 2"
definition LOBBY_REJ_VERSION_MISMATCH :: u8 where "LOBBY_REJ_VERSION_MISMATCH = 3"
definition LOBBY_REJ_EXPIRED :: u8 where "LOBBY_REJ_EXPIRED = 4"
definition LOBBY_ROUTE_DIRECT :: u8 where "LOBBY_ROUTE_DIRECT = 0"
definition LOBBY_ROUTE_RELAY :: u8 where "LOBBY_ROUTE_RELAY = 1"

lemmas reject_codes =
  LOBBY_REJ_BAD_SESSION_def LOBBY_REJ_FULL_def LOBBY_REJ_VERSION_MISMATCH_def LOBBY_REJ_EXPIRED_def
lemmas route_codes = LOBBY_ROUTE_DIRECT_def LOBBY_ROUTE_RELAY_def

text \<open>How the players reach each other, and the all-zero endpoint.\<close>

datatype NetRouteKind = NET_ROUTE_NONE | NET_ROUTE_DIRECT | NET_ROUTE_RELAY

record NetRoute =
  nr_kind :: NetRouteKind
  nr_ep :: LobbyEndpoint

definition endpoint_none :: LobbyEndpoint where
  "endpoint_none = \<lparr>ep_ip = 0, ep_port = 0\<rparr>"

text \<open>A datagram with the address it came from or goes to.\<close>

type_synonym Packet = "LobbyEndpoint \<times> u8 list"

section \<open>Packing\<close>

definition wr_ep :: "LobbyEndpoint \<Rightarrow> u8 list" where
  "wr_ep e = le32 (ep_ip e) @ le16 (ep_port e)"

definition wr_header :: "u8 \<Rightarrow> u8 list" where
  "wr_header t = le32 LOBBY_MAGIC @ [LOBBY_PROTO_VER, t]"

definition zero_pad :: "nat \<Rightarrow> u8 list" where
  "zero_pad used = replicate (LOBBY_REQ_PAD_SIZE - (LOBBY_HDR_SIZE + used)) 0"

definition wr_payload :: "u16 \<Rightarrow> u8 \<Rightarrow> u8 \<Rightarrow> u8 list \<Rightarrow> u8 list option" where
  "wr_payload sid from_slot to_slot payload =
     (if length payload > LOBBY_MAX_PAYLOAD then None
      else Some (le16 sid @ [from_slot, to_slot] @ le16 (of_nat (length payload)) @ payload))"

definition pack_body :: "LobbyMsg \<Rightarrow> u8 list option" where
  "pack_body m = (case m of
       LOBBY_HOST_REQ ver n pep \<Rightarrow> Some (le32 ver @ [n] @ wr_ep pep @ zero_pad 11)
     | LOBBY_HOST_RESP sid \<Rightarrow> Some (le16 sid)
     | LOBBY_JOIN_REQ sid ver pep \<Rightarrow> Some (le16 sid @ le32 ver @ wr_ep pep @ zero_pad 12)
     | LOBBY_JOIN_RESP slot n \<Rightarrow> Some [slot, n]
     | LOBBY_REJECT reason \<Rightarrow> Some [reason]
     | LOBBY_PEER_INTRO slot pub prv \<Rightarrow> Some ([slot] @ wr_ep pub @ wr_ep prv)
     | LOBBY_PUNCH sid from nonce \<Rightarrow> Some (le16 sid @ [from] @ le32 nonce)
     | LOBBY_PUNCH_ACK sid from nonce \<Rightarrow> Some (le16 sid @ [from] @ le32 nonce)
     | LOBBY_PUNCH_REPORT sid a b k \<Rightarrow> Some (le16 sid @ [a, b, k])
     | LOBBY_PAIR_ROUTE a b r \<Rightarrow> Some [a, b, r]
     | LOBBY_RELAY sid from to payload \<Rightarrow> wr_payload sid from to payload
     | LOBBY_GAME sid from to payload \<Rightarrow> wr_payload sid from to payload
     | LOBBY_START seed arena n delay \<Rightarrow> Some (le32 seed @ [arena, n, delay])
     | LOBBY_START_ACK sid slot \<Rightarrow> Some (le16 sid @ [slot])
     | LOBBY_KEEPALIVE sid slot \<Rightarrow> Some (le16 sid @ [slot]))"

definition lobby_pack :: "LobbyMsg \<Rightarrow> u8 list option" where
  "lobby_pack m = map_option (\<lambda>body. wr_header (msg_type m) @ body) (pack_body m)"

section \<open>Checked reads\<close>

definition byte_at :: "u8 list \<Rightarrow> nat \<Rightarrow> u8 option" where
  "byte_at buf i = (if i < length buf then Some (buf ! i) else None)"

definition join16 :: "u8 \<Rightarrow> u8 \<Rightarrow> u16" where
  "join16 a b = ucast a OR push_bit 8 (ucast b)"

definition join32 :: "u8 \<Rightarrow> u8 \<Rightarrow> u8 \<Rightarrow> u8 \<Rightarrow> u32" where
  "join32 a b c d = ucast a OR push_bit 8 (ucast b) OR push_bit 16 (ucast c) OR push_bit 24 (ucast d)"

definition rd16 :: "u8 list \<Rightarrow> nat \<Rightarrow> u16 option" where
  "rd16 buf i = do { a \<leftarrow> byte_at buf i; b \<leftarrow> byte_at buf (i + 1); Some (join16 a b) }"

definition rd32 :: "u8 list \<Rightarrow> nat \<Rightarrow> u32 option" where
  "rd32 buf i = do { a \<leftarrow> byte_at buf i; b \<leftarrow> byte_at buf (i + 1); c \<leftarrow> byte_at buf (i + 2);
     d \<leftarrow> byte_at buf (i + 3); Some (join32 a b c d) }"

definition rd_ep :: "u8 list \<Rightarrow> nat \<Rightarrow> LobbyEndpoint option" where
  "rd_ep buf i = do { ip \<leftarrow> rd32 buf i; port \<leftarrow> rd16 buf (i + 4); Some \<lparr>ep_ip = ip, ep_port = port\<rparr> }"

definition rd_slice :: "u8 list \<Rightarrow> nat \<Rightarrow> nat \<Rightarrow> u8 list option" where
  "rd_slice buf i n = (if i + n \<le> length buf then Some (take n (drop i buf)) else None)"

section \<open>Unpacking\<close>

definition reject :: "LobbyMsg option option" where
  "reject = Some None"

definition accept :: "LobbyMsg \<Rightarrow> LobbyMsg option option" where
  "accept m = Some (Some m)"

text \<open>The body starts at offset 6; \<open>body\<close> is what is left of the packet after the header.\<close>

definition rd_payload ::
  "(u16 \<Rightarrow> u8 \<Rightarrow> u8 \<Rightarrow> u8 list \<Rightarrow> LobbyMsg) \<Rightarrow> u8 list \<Rightarrow> nat \<Rightarrow> LobbyMsg option option" where
  "rd_payload mk buf body =
     (if body < 6 then reject
      else do {
        pl \<leftarrow> rd16 buf 10;
        if unat pl > LOBBY_MAX_PAYLOAD \<or> body < 6 + unat pl then reject
        else do {
          sid \<leftarrow> rd16 buf 6; from \<leftarrow> byte_at buf 8; to \<leftarrow> byte_at buf 9;
          payload \<leftarrow> rd_slice buf 12 (unat pl);
          accept (mk sid from to payload) } })"

definition unpack_body :: "u8 \<Rightarrow> u8 list \<Rightarrow> nat \<Rightarrow> LobbyMsg option option" where
  "unpack_body t buf body =
    (if t = 1 then
       (if length buf < LOBBY_REQ_PAD_SIZE then reject
        else do { ver \<leftarrow> rd32 buf 6; n \<leftarrow> byte_at buf 10; pep \<leftarrow> rd_ep buf 11;
                  accept (LOBBY_HOST_REQ ver n pep) })
     else if t = 2 then
       (if body < 2 then reject else do { sid \<leftarrow> rd16 buf 6; accept (LOBBY_HOST_RESP sid) })
     else if t = 3 then
       (if length buf < LOBBY_REQ_PAD_SIZE then reject
        else do { sid \<leftarrow> rd16 buf 6; ver \<leftarrow> rd32 buf 8; pep \<leftarrow> rd_ep buf 12;
                  accept (LOBBY_JOIN_REQ sid ver pep) })
     else if t = 4 then
       (if body < 2 then reject
        else do { slot \<leftarrow> byte_at buf 6; n \<leftarrow> byte_at buf 7; accept (LOBBY_JOIN_RESP slot n) })
     else if t = 5 then
       (if body < 1 then reject else do { r \<leftarrow> byte_at buf 6; accept (LOBBY_REJECT r) })
     else if t = 6 then
       (if body < 13 then reject
        else do { slot \<leftarrow> byte_at buf 6; pub \<leftarrow> rd_ep buf 7; prv \<leftarrow> rd_ep buf 13;
                  accept (LOBBY_PEER_INTRO slot pub prv) })
     else if t = 7 \<or> t = 8 then
       (if body < 7 then reject
        else do { sid \<leftarrow> rd16 buf 6; from \<leftarrow> byte_at buf 8; nonce \<leftarrow> rd32 buf 9;
                  accept (if t = 7 then LOBBY_PUNCH sid from nonce
                          else LOBBY_PUNCH_ACK sid from nonce) })
     else if t = 9 then
       (if body < 5 then reject
        else do { sid \<leftarrow> rd16 buf 6; a \<leftarrow> byte_at buf 8; b \<leftarrow> byte_at buf 9; k \<leftarrow> byte_at buf 10;
                  accept (LOBBY_PUNCH_REPORT sid a b k) })
     else if t = 10 then
       (if body < 3 then reject
        else do { a \<leftarrow> byte_at buf 6; b \<leftarrow> byte_at buf 7; r \<leftarrow> byte_at buf 8;
                  accept (LOBBY_PAIR_ROUTE a b r) })
     else if t = 11 then rd_payload LOBBY_RELAY buf body
     else if t = 12 then rd_payload LOBBY_GAME buf body
     else if t = 13 then
       (if body < 7 then reject
        else do { seed \<leftarrow> rd32 buf 6; arena \<leftarrow> byte_at buf 10; n \<leftarrow> byte_at buf 11;
                  delay \<leftarrow> byte_at buf 12; accept (LOBBY_START seed arena n delay) })
     else if t = 14 \<or> t = 15 then
       (if body < 3 then reject
        else do { sid \<leftarrow> rd16 buf 6; slot \<leftarrow> byte_at buf 8;
                  accept (if t = 14 then LOBBY_START_ACK sid slot else LOBBY_KEEPALIVE sid slot) })
     else reject)"

definition lobby_unpack :: "u8 list \<Rightarrow> LobbyMsg option option" where
  "lobby_unpack buf =
     (if length buf < LOBBY_HDR_SIZE then reject
      else do {
        magic \<leftarrow> rd32 buf 0; ver \<leftarrow> byte_at buf 4;
        if magic \<noteq> LOBBY_MAGIC \<or> ver \<noteq> LOBBY_PROTO_VER then reject
        else do {
          t \<leftarrow> byte_at buf 5;
          if t = 0 \<or> t \<ge> LOBBY_MSG_MAX then reject
          else unpack_body t buf (length buf - LOBBY_HDR_SIZE) } })"

section \<open>Fields read back what was written\<close>

text \<open>
  The contract of a field of the wire format: fixed width, and reading inside the buffer succeeds
  with exactly the value whose encoding stands there.
\<close>

locale wire_field =
  fixes enc :: "'a \<Rightarrow> u8 list" and rd :: "u8 list \<Rightarrow> nat \<Rightarrow> 'a option" and width :: nat
  assumes field_width: "length (enc x) = width"
    and field_read: "i + width \<le> length buf \<Longrightarrow> \<exists>x. rd buf i = Some x \<and> enc x = take width (drop i buf)"
    and field_inj: "enc x = enc y \<Longrightarrow> x = y"
begin

lemma read_in_bounds: "i + width \<le> length buf \<Longrightarrow> rd buf i \<noteq> None"
  using field_read by fastforce

lemma read_written: "rd (pre @ enc x @ post) (length pre) = Some x"
  using field_read [of "length pre" "pre @ enc x @ post"] field_width [of x] field_inj by auto

lemma read_here: "buf = pre @ enc x @ post \<Longrightarrow> i = length pre \<Longrightarrow> rd buf i = Some x"
  by (simp add: read_written)

lemma read_slice: "rd buf i = Some x \<Longrightarrow> i + width \<le> length buf \<Longrightarrow> enc x = take width (drop i buf)"
  using field_read by fastforce

end

lemma take_one: "i < length buf \<Longrightarrow> take (Suc 0) (drop i buf) = [buf ! i]"
  by (simp add: take_Suc_conv_app_nth)

lemma take_two: "i + 1 < length buf \<Longrightarrow> take 2 (drop i buf) = [buf ! i, buf ! (i + 1)]"
  by (simp add: take_Suc_conv_app_nth numeral_2_eq_2)

lemma take_four:
  "i + 3 < length buf \<Longrightarrow> take 4 (drop i buf) = [buf ! i, buf ! (i + 1), buf ! (i + 2), buf ! (i + 3)]"
  by (simp add: take_Suc_conv_app_nth numeral_eq_Suc)

lemma u8_no_bit: "8 \<le> n \<Longrightarrow> bit (a :: u8) n \<longleftrightarrow> False"
  by (auto dest: bit_imp_le_length)

lemma le16_join16: "le16 (join16 a b) = [a, b]"
proof -
  have "ucast (join16 a b) = a"
    by (rule bit_word_eqI) (auto simp: join16_def bit_simps u8_no_bit)
  moreover have "ucast (drop_bit 8 (join16 a b)) = b"
    by (rule bit_word_eqI) (auto simp: join16_def bit_simps u8_no_bit)
  ultimately show ?thesis by (simp add: le16_def)
qed

lemma le32_join32: "le32 (join32 a b c d) = [a, b, c, d]"
proof -
  have "ucast (join32 a b c d) = a"
    by (rule bit_word_eqI) (auto simp: join32_def bit_simps u8_no_bit)
  moreover have "ucast (drop_bit 8 (join32 a b c d)) = b"
    by (rule bit_word_eqI) (auto simp: join32_def bit_simps u8_no_bit)
  moreover have "ucast (drop_bit 16 (join32 a b c d)) = c"
    by (rule bit_word_eqI) (auto simp: join32_def bit_simps u8_no_bit)
  moreover have "ucast (drop_bit 24 (join32 a b c d)) = d"
    by (rule bit_word_eqI) (auto simp: join32_def bit_simps u8_no_bit)
  ultimately show ?thesis by (simp add: le32_def)
qed

interpretation f8: wire_field "\<lambda>b. [b]" byte_at 1
  by unfold_locales (auto simp: byte_at_def take_one)

interpretation f16: wire_field le16 rd16 2
proof unfold_locales
  show "\<exists>x. rd16 buf i = Some x \<and> le16 x = take 2 (drop i buf)" if "i + 2 \<le> length buf" for i buf
    using that by (simp add: rd16_def byte_at_def le16_join16 take_two)
qed (simp_all add: le16.enc_length le16.enc_eq_iff)

interpretation f32: wire_field le32 rd32 4
proof unfold_locales
  show "\<exists>x. rd32 buf i = Some x \<and> le32 x = take 4 (drop i buf)" if "i + 4 \<le> length buf" for i buf
    using that by (simp add: rd32_def byte_at_def le32_join32 take_four)
qed (simp_all add: le32.enc_length le32.enc_eq_iff)

lemma take_drop_append: "take m (drop i buf) @ take n (drop (i + m) buf) = take (m + n) (drop i buf)"
  by (simp add: take_add add.commute)

interpretation fep: wire_field wr_ep rd_ep 6
proof unfold_locales
  show "\<exists>x. rd_ep buf i = Some x \<and> wr_ep x = take 6 (drop i buf)" if b: "i + 6 \<le> length buf" for i buf
  proof -
    obtain ip where ip: "rd32 buf i = Some ip" "le32 ip = take 4 (drop i buf)"
      using f32.field_read [of i buf] b by auto
    obtain port where port: "rd16 buf (i + 4) = Some port" "le16 port = take 2 (drop (i + 4) buf)"
      using f16.field_read [of "i + 4" buf] b by auto
    show ?thesis
      using take_drop_append [of 4 i buf 2] by (simp add: rd_ep_def ip(1) port(1)) (simp add: wr_ep_def ip port)
  qed
  show "x = y" if "wr_ep x = wr_ep y" for x y
    using that by (intro LobbyEndpoint.equality) (simp_all add: wr_ep_def le16.enc_eq_iff le32.enc_eq_iff le32.enc_length)
qed (simp add: wr_ep_def le16.enc_length le32.enc_length)

section \<open>No read leaves the buffer\<close>

definition in_bounds :: "'a option \<Rightarrow> bool" where
  "in_bounds r \<longleftrightarrow> r \<noteq> None"

lemma in_bounds_bind: "in_bounds m \<Longrightarrow> (\<And>x. in_bounds (f x)) \<Longrightarrow> in_bounds (m \<bind> f)"
  by (cases m) (auto simp: in_bounds_def)

lemma in_bounds_answer: "in_bounds reject" "in_bounds (accept m)"
  by (simp_all add: reject_def accept_def in_bounds_def)

lemma in_bounds_slice: "i + n \<le> length buf \<Longrightarrow> in_bounds (rd_slice buf i n)"
  by (simp add: rd_slice_def in_bounds_def)

lemmas in_bounds_reads =
  f8.read_in_bounds [folded in_bounds_def] f16.read_in_bounds [folded in_bounds_def]
  f32.read_in_bounds [folded in_bounds_def] fep.read_in_bounds [folded in_bounds_def]
  in_bounds_bind in_bounds_answer in_bounds_slice

lemma rd_payload_in_bounds: "body \<le> length buf - 6 \<Longrightarrow> in_bounds (rd_payload mk buf body)"
  unfolding rd_payload_def by (auto intro!: in_bounds_reads)

lemma unpack_body_in_bounds: "in_bounds (unpack_body t buf (length buf - 6))"
  unfolding unpack_body_def
  by (auto intro!: in_bounds_reads rd_payload_in_bounds simp: lobby_sizes)

text \<open>C14: \<open>lobby_unpack\<close> returns on every byte sequence whatsoever, without one read past the end of
  the buffer: hostile packets are rejected or accepted, never a fault.\<close>

theorem unpack_stays_in_bounds: "\<exists>result. lobby_unpack buf = Some result"
proof -
  have "in_bounds (lobby_unpack buf)"
    unfolding lobby_unpack_def
    by (auto intro!: in_bounds_reads unpack_body_in_bounds simp: lobby_sizes)
  then show ?thesis by (simp add: in_bounds_def)
qed

section \<open>Round trip\<close>

lemma join16_parts: "join16 (ucast v) (ucast (drop_bit 8 v)) = v"
  by (rule le16_inj) (simp only: le16_join16, simp add: le16_def)

lemma join32_parts:
  "join32 (ucast v) (ucast (drop_bit 8 v)) (ucast (drop_bit 16 v)) (ucast (drop_bit 24 v)) = v"
  by (rule le32_inj) (simp only: le32_join32, simp add: le32_def)

lemmas read_back =
  rd16_def rd32_def rd_ep_def byte_at_def le16_def le32_def wr_ep_def join16_parts join32_parts

lemmas wire_defs =
  unpack_body_def rd_payload_def rd_slice_def reject_def accept_def lobby_sizes zero_pad_def

lemma unpack_header:
  assumes "t \<noteq> 0" and "t < LOBBY_MSG_MAX"
  shows "lobby_unpack (wr_header t @ body) = unpack_body t (wr_header t @ body) (length body)"
proof -
  have "rd32 (wr_header t @ body) 0 = Some LOBBY_MAGIC"
    by (rule f32.read_here [where pre = "[]"]) (simp_all add: wr_header_def)
  moreover have "byte_at (wr_header t @ body) 4 = Some LOBBY_PROTO_VER"
    by (simp add: wr_header_def le32_def byte_at_def)
  moreover have "byte_at (wr_header t @ body) 5 = Some t"
    by (simp add: wr_header_def le32_def byte_at_def)
  moreover have "\<not> LOBBY_MSG_MAX \<le> t"
    using assms(2) by (simp only: not_le)
  moreover have "length (wr_header t @ body) = 6 + length body"
    by (simp add: wr_header_def le32_def)
  ultimately show ?thesis
    using assms(1) by (simp add: lobby_unpack_def LOBBY_HDR_SIZE_def)
qed

lemma msg_type_range: "msg_type m \<noteq> 0 \<and> msg_type m < LOBBY_MSG_MAX"
  by (cases m) (simp_all add: msg_type_def LOBBY_MSG_MAX_def)

lemma payload_length: "length p \<le> 1024 \<Longrightarrow> unat (of_nat (length p) :: u16) = length p"
  by (simp add: unsigned_of_nat take_bit_nat_eq_self_iff)

lemma wr_payload_read_back:
  assumes "wr_payload sid from to p = Some body"
  shows "rd_payload mk (wr_header t @ body @ extra) (length body + length extra) = accept (mk sid from to p)"
  using assms payload_length [of p]
  by (auto simp: wr_payload_def wr_header_def read_back wire_defs split: if_splits)

lemma pack_body_read_back:
  assumes "pack_body m = Some body"
  shows "unpack_body (msg_type m) (wr_header (msg_type m) @ body @ extra) (length (body @ extra)) = accept m"
proof (cases m)
  case LOBBY_RELAY
  with assms show ?thesis
    by (simp add: unpack_body_def msg_type_def pack_body_def wr_payload_read_back del: append_assoc)
next
  case LOBBY_GAME
  with assms show ?thesis
    by (simp add: unpack_body_def msg_type_def pack_body_def wr_payload_read_back del: append_assoc)
qed (use assms in \<open>auto simp: pack_body_def msg_type_def wr_header_def read_back wire_defs\<close>)

lemma pack_read_back:
  assumes "lobby_pack m = Some bs"
  shows "lobby_unpack (bs @ extra) = Some (Some m)"
proof -
  obtain body where body: "pack_body m = Some body" "bs = wr_header (msg_type m) @ body"
    using assms by (auto simp: lobby_pack_def)
  then show ?thesis
    using pack_body_read_back [OF body(1), of extra] msg_type_range [of m]
    by (simp add: unpack_header accept_def)
qed

definition payload_of :: "LobbyMsg \<Rightarrow> u8 list" where
  "payload_of m = (case m of LOBBY_RELAY _ _ _ p \<Rightarrow> p | LOBBY_GAME _ _ _ p \<Rightarrow> p | _ \<Rightarrow> [])"

definition wire_size :: "LobbyMsg \<Rightarrow> nat" where
  "wire_size m = (case m of
       LOBBY_HOST_REQ _ _ _ \<Rightarrow> 32 | LOBBY_HOST_RESP _ \<Rightarrow> 8 | LOBBY_JOIN_REQ _ _ _ \<Rightarrow> 32
     | LOBBY_JOIN_RESP _ _ \<Rightarrow> 8 | LOBBY_REJECT _ \<Rightarrow> 7 | LOBBY_PEER_INTRO _ _ _ \<Rightarrow> 19
     | LOBBY_PUNCH _ _ _ \<Rightarrow> 13 | LOBBY_PUNCH_ACK _ _ _ \<Rightarrow> 13 | LOBBY_PUNCH_REPORT _ _ _ _ \<Rightarrow> 11
     | LOBBY_PAIR_ROUTE _ _ _ \<Rightarrow> 9 | LOBBY_RELAY _ _ _ p \<Rightarrow> 12 + length p
     | LOBBY_GAME _ _ _ p \<Rightarrow> 12 + length p
     | LOBBY_START _ _ _ _ \<Rightarrow> 13 | LOBBY_START_ACK _ _ \<Rightarrow> 9 | LOBBY_KEEPALIVE _ _ \<Rightarrow> 9)"

lemmas packed_size =
  wire_size_def lobby_pack_def pack_body_def wr_header_def wr_ep_def zero_pad_def wr_payload_def
  le16.enc_length le32.enc_length lobby_sizes

lemma pack_size: "lobby_pack m = Some bs \<Longrightarrow> length bs = wire_size m"
  by (cases m) (auto simp: packed_size split: if_splits)

lemma pack_defined: "(\<exists>bs. lobby_pack m = Some bs) \<longleftrightarrow> length (payload_of m) \<le> 1024"
  by (cases m) (auto simp: packed_size payload_of_def)

lemma pack_never_overflows: "lobby_pack m = Some bs \<Longrightarrow> length bs \<le> LOBBY_MAX_PACKET"
  by (cases m) (auto simp: packed_size split: if_splits)

text \<open>C15: Every message whose payload fits is packed into at most \<open>LOBBY_MAX_PACKET\<close> bytes, and
  \<open>lobby_unpack\<close> reads the same message back, whatever bytes follow the packet in the datagram.\<close>

theorem wire_round_trip:
  assumes "length (payload_of m) \<le> 1024"
  shows "\<exists>bs. lobby_pack m = Some bs \<and> length bs \<le> LOBBY_MAX_PACKET
    \<and> lobby_unpack (bs @ extra) = Some (Some m)"
  using assms pack_defined [of m] pack_read_back [of m] pack_never_overflows [of m] by blast

theorem wire_round_trip_witness:
  "\<exists>bs. lobby_pack (LOBBY_GAME 513 1 2 [7, 8, 9]) = Some bs \<and> length bs \<le> LOBBY_MAX_PACKET
    \<and> lobby_unpack (bs @ [255]) = Some (Some (LOBBY_GAME 513 1 2 [7, 8, 9]))"
  by (rule wire_round_trip) (simp add: payload_of_def)

section \<open>Canonicity\<close>

lemma read_iff:
  "byte_at buf i = Some a \<longleftrightarrow> i < length buf \<and> a = buf ! i"
  "rd16 buf i = Some h \<longleftrightarrow> i + 1 < length buf \<and> h = join16 (buf ! i) (buf ! (i + 1))"
  "rd32 buf i = Some w \<longleftrightarrow> i + 3 < length buf
     \<and> w = join32 (buf ! i) (buf ! (i + 1)) (buf ! (i + 2)) (buf ! (i + 3))"
  by (auto simp: byte_at_def rd16_def rd32_def)

lemma read_ep_iff:
  "rd_ep buf i = Some e \<longleftrightarrow> i + 5 < length buf
     \<and> wr_ep e = [buf ! i, buf ! (i + 1), buf ! (i + 2), buf ! (i + 3), buf ! (i + 4), buf ! (i + 5)]"
  (is "_ \<longleftrightarrow> _ \<and> wr_ep e = ?bytes")
proof -
  have slice: "take 6 (drop i buf) = ?bytes" if "i + 5 < length buf"
    using that by (simp add: take_Suc_conv_app_nth numeral_eq_Suc)
  have "i + 5 < length buf" if "rd_ep buf i = Some e"
    using that by (auto simp: rd_ep_def bind_eq_Some_conv read_iff)
  then show ?thesis
    using slice fep.read_slice [of buf i e] fep.field_read [of i buf] fep.field_inj by fastforce
qed

definition significant :: "LobbyMsg \<Rightarrow> nat" where
  "significant m = (case m of LOBBY_HOST_REQ _ _ _ \<Rightarrow> 17 | LOBBY_JOIN_REQ _ _ _ \<Rightarrow> 18 | _ \<Rightarrow> wire_size m)"

lemma bind_accept_iff: "(m \<bind> f = accept x) \<longleftrightarrow> (\<exists>a. m = Some a \<and> f a = accept x)"
  by (cases m) (auto simp: accept_def)

lemma accept_iff: "accept x = accept y \<longleftrightarrow> x = y" "reject = accept y \<longleftrightarrow> False"
  by (auto simp: accept_def reject_def)

lemmas accepted = bind_accept_iff accept_iff read_iff read_ep_iff

lemma take_body: "6 + n \<le> length buf \<Longrightarrow> take n (drop 6 buf) = map ((!) buf) [6..<6 + n]"
  by (simp add: list_eq_iff_nth_eq)

lemma payload_canonical:
  assumes "rd_payload mk buf (length buf - 6) = accept m"
  shows "\<exists>sid from to p body. m = mk sid from to p \<and> wr_payload sid from to p = Some body
    \<and> 12 + length p \<le> length buf \<and> body = take (6 + length p) (drop 6 buf)"
proof -
  from assms obtain pl sid frm to p where r: "rd16 buf 10 = Some pl" "unat pl \<le> 1024"
      "6 + unat pl \<le> length buf - 6" "rd16 buf 6 = Some sid" "byte_at buf 8 = Some frm"
      "byte_at buf 9 = Some to" "rd_slice buf 12 (unat pl) = Some p" "m = mk sid frm to p"
    by (auto simp: rd_payload_def bind_accept_iff accept_iff lobby_sizes split: if_splits)
  have p: "p = take (unat pl) (drop 12 buf)" "length p = unat pl"
    using r(3,7) by (auto simp: rd_slice_def split: if_splits)
  have "take (6 + unat pl) (drop 6 buf) = take 6 (drop 6 buf) @ p"
    using p(1) by (simp add: take_add)
  moreover have "take 6 (drop 6 buf) = le16 sid @ [frm, to] @ le16 pl"
    using r by (simp add: take_body read_iff le16_join16)
  moreover have "wr_payload sid frm to p = Some (le16 sid @ [frm, to] @ le16 pl @ p)"
    using r(2) p(2) by (simp add: wr_payload_def LOBBY_MAX_PAYLOAD_def)
  ultimately show ?thesis
    using r(3,8) p(2) by (intro exI [of _ sid] exI [of _ frm] exI [of _ to] exI [of _ p] exI) auto
qed

lemma body_canonical:
  assumes "unpack_body t buf (length buf - 6) = accept m"
  shows "msg_type m = t \<and> (\<exists>body. pack_body m = Some body \<and> wire_size m \<le> length buf
    \<and> take (significant m - 6) body = take (significant m - 6) (drop 6 buf))"
proof -
  have relay: ?thesis if "t = 11 \<and> mk = LOBBY_RELAY \<or> t = 12 \<and> mk = LOBBY_GAME"
      "rd_payload mk buf (length buf - 6) = accept m" for mk
    using payload_canonical [OF that(2)] that(1)
    by (auto simp: msg_type_def pack_body_def significant_def wire_size_def)
  show ?thesis
    using assms relay
    unfolding unpack_body_def
    by (auto split: if_splits simp: accepted take_body msg_type_def pack_body_def significant_def
        wire_size_def lobby_sizes fep.field_width le16_join16 le32_join32)
qed

lemma header_length: "length (wr_header t) = 6"
  by (simp add: wr_header_def le32.enc_length)

lemma unpack_accepts:
  assumes "lobby_unpack buf = Some (Some m)"
  shows "6 \<le> length buf" and "take 6 buf = wr_header (msg_type m)"
    and "unpack_body (msg_type m) buf (length buf - 6) = accept m"
proof -
  have len: "6 \<le> length buf" and "lobby_unpack buf = accept m"
    using assms by (auto simp: lobby_unpack_def reject_def accept_def LOBBY_HDR_SIZE_def split: if_splits)
  then obtain t where r: "rd32 buf 0 = Some LOBBY_MAGIC" "byte_at buf 4 = Some LOBBY_PROTO_VER"
      "byte_at buf 5 = Some t" "unpack_body t buf (length buf - 6) = accept m"
    by (auto simp: lobby_unpack_def bind_accept_iff accept_iff lobby_sizes split: if_splits)
  have t: "t = msg_type m" using body_canonical [OF r(4)] by simp
  show "6 \<le> length buf" "unpack_body (msg_type m) buf (length buf - 6) = accept m"
    using len r(4) t by simp_all
  have "take 6 buf = take 4 buf @ [buf ! 4, buf ! 5]"
    using len by (simp add: take_Suc_conv_app_nth numeral_eq_Suc)
  then show "take 6 buf = wr_header (msg_type m)"
    using r(2,3) t f32.read_slice [OF r(1)] len by (simp add: wr_header_def read_iff)
qed

text \<open>The wire format is canonical: a packet that \<open>lobby_unpack\<close> accepts as \<open>m\<close> carries, byte for
  byte, what \<open>lobby_pack m\<close> writes; only the zero padding of the two requests is not compared.
  Two packets that differ in a significant byte are never read as the same message, and every
  message type is accepted at one length only, or longer.\<close>

theorem accepted_packets_are_canonical:
  assumes "lobby_unpack buf = Some (Some m)"
  shows "\<exists>bs. lobby_pack m = Some bs \<and> length bs = wire_size m \<and> wire_size m \<le> length buf
    \<and> take (significant m) bs = take (significant m) buf"
proof -
  note a = unpack_accepts [OF assms]
  obtain body where body: "pack_body m = Some body" "wire_size m \<le> length buf"
      "take (significant m - 6) body = take (significant m - 6) (drop 6 buf)"
    using body_canonical [OF a(3)] by auto
  have "6 \<le> significant m"
    by (cases m) (simp_all add: significant_def wire_size_def)
  then have "take (significant m) buf = take 6 buf @ take (significant m - 6) (drop 6 buf)"
    by (simp flip: take_add)
  also have "\<dots> = take (significant m) (wr_header (msg_type m) @ body)"
    using \<open>6 \<le> significant m\<close> by (simp add: a(2) body(3) [symmetric] header_length)
  finally have "take (significant m) (wr_header (msg_type m) @ body) = take (significant m) buf"
    by (rule sym)
  moreover have "lobby_pack m = Some (wr_header (msg_type m) @ body)"
    by (simp add: lobby_pack_def body(1))
  ultimately show ?thesis
    using body(2) pack_size by blast
qed

theorem accepted_packets_are_canonical_witness:
  "\<exists>bs. lobby_pack (LOBBY_KEEPALIVE 258 3) = Some bs \<and> length bs = wire_size (LOBBY_KEEPALIVE 258 3)
    \<and> wire_size (LOBBY_KEEPALIVE 258 3) \<le> length [0x56, 0x52, 0x33, 0x41, 1, 15, 2, 1, 3, 99 :: u8]
    \<and> take (significant (LOBBY_KEEPALIVE 258 3)) bs
      = take (significant (LOBBY_KEEPALIVE 258 3)) [0x56, 0x52, 0x33, 0x41, 1, 15, 2, 1, 3, 99]"
  by (rule accepted_packets_are_canonical) code_simp

end
