(* ===== verification/Lobby_Code.thy ===== *)
theory Lobby_Code
  imports Lobby_Proto "HOL-Library.Char_ord"
begin

text \<open>
  Lobby codes, \<open>lobby_code_encode\<close> and \<open>lobby_code_decode\<close> of \<open>src/src/lobby/lobby_proto.c\<close>: the
  server endpoint, the session id and a CRC-8, 72 bits in all, as 15 symbols of Crockford's
  base 32 in three groups.  A C string is the list of its characters before the terminating
  zero.

  The main theorem characterises the decoder exactly: it accepts a string as \<open>(server, id)\<close> if and
  only if the symbols of the string, dashes dropped and aliases resolved, are those the encoder
  prints for \<open>(server, id)\<close>.
\<close>

section \<open>The code\<close>

definition B32 :: string where
  "B32 = ''0123456789ABCDEFGHJKMNPQRSTVWXYZ''"

definition crc8_bit :: "u8 \<Rightarrow> u8" where
  "crc8_bit c = (if c AND 0x80 \<noteq> 0 then push_bit 1 c XOR 0x07 else push_bit 1 c)"

definition crc8_byte :: "u8 \<Rightarrow> u8 \<Rightarrow> u8" where
  "crc8_byte b c = (crc8_bit ^^ 8) (c XOR b)"

definition crc8 :: "u8 list \<Rightarrow> u8" where
  "crc8 p = fold crc8_byte p 0"

definition code_payload :: "LobbyEndpoint \<Rightarrow> u16 \<Rightarrow> u8 list" where
  "code_payload server session_id =
     [ucast (drop_bit 24 (ep_ip server)), ucast (drop_bit 16 (ep_ip server)),
      ucast (drop_bit 8 (ep_ip server)), ucast (ep_ip server),
      ucast (drop_bit 8 (ep_port server)), ucast (ep_port server),
      ucast (drop_bit 8 session_id), ucast session_id]"

definition code_bytes :: "LobbyEndpoint \<Rightarrow> u16 \<Rightarrow> u8 list" where
  "code_bytes server session_id =
     code_payload server session_id @ [crc8 (code_payload server session_id)]"

definition code_bit :: "u8 list \<Rightarrow> nat \<Rightarrow> bool" where
  "code_bit d idx \<longleftrightarrow> idx < 72 \<and> bit (d ! (idx div 8)) (7 - idx mod 8)"

definition code_sym :: "u8 list \<Rightarrow> nat \<Rightarrow> nat" where
  "code_sym d s = fold (\<lambda>k acc. 2 * acc + of_bool (code_bit d (5 * s + k))) [0..<5] 0"

definition lobby_code_encode :: "LobbyEndpoint \<Rightarrow> u16 \<Rightarrow> string" where
  "lobby_code_encode server session_id =
     (let d = code_bytes server session_id in
      concat (map (\<lambda>s. (if s = 5 \<or> s = 10 then ''-'' else []) @ [B32 ! code_sym d s]) [0..<15]))"

definition to_upper :: "char \<Rightarrow> char" where
  "to_upper c = (if CHR ''a'' \<le> c \<and> c \<le> CHR ''z''
     then char_of (of_char c - (of_char CHR ''a'' - of_char CHR ''A'') :: nat) else c)"

definition b32val :: "char \<Rightarrow> nat option" where
  "b32val c =
     (if CHR ''0'' \<le> c \<and> c \<le> CHR ''9'' then Some (of_char c - of_char CHR ''0'')
      else let u = to_upper c in
        if u = CHR ''O'' then Some 0
        else if u = CHR ''I'' \<or> u = CHR ''L'' then Some 1
        else find_index_from 10 (\<lambda>b. b = u) (drop 10 B32))"

fun read_symbols :: "string \<Rightarrow> nat list \<Rightarrow> nat list option" where
  "read_symbols [] syms = Some syms"
| "read_symbols (p # str) syms =
     (if p = CHR ''-'' then read_symbols str syms
      else if 15 \<le> length syms then None
      else case b32val p of None \<Rightarrow> None | Some v \<Rightarrow> read_symbols str (syms @ [v]))"

definition sym_bit :: "nat list \<Rightarrow> nat \<Rightarrow> bool" where
  "sym_bit syms idx \<longleftrightarrow> bit (syms ! (idx div 5)) (4 - idx mod 5)"

definition set_byte_bit :: "nat \<Rightarrow> u8 list \<Rightarrow> u8 list" where
  "set_byte_bit idx d = d[idx div 8 := d ! (idx div 8) OR push_bit (7 - idx mod 8) 1]"

fun place_bits :: "nat list \<Rightarrow> nat list \<Rightarrow> u8 list \<Rightarrow> u8 list option" where
  "place_bits syms [] d = Some d"
| "place_bits syms (idx # rest_bits) d =
     (if idx < 72 then place_bits syms rest_bits (if sym_bit syms idx then set_byte_bit idx d else d)
      else if sym_bit syms idx then None else place_bits syms rest_bits d)"

definition code_fields :: "u8 list \<Rightarrow> LobbyEndpoint \<times> u16" where
  "code_fields d =
     (\<lparr>ep_ip = push_bit 24 (ucast (d ! 0)) OR push_bit 16 (ucast (d ! 1))
         OR push_bit 8 (ucast (d ! 2)) OR ucast (d ! 3),
       ep_port = push_bit 8 (ucast (d ! 4)) OR ucast (d ! 5)\<rparr>,
      push_bit 8 (ucast (d ! 6)) OR ucast (d ! 7))"

definition lobby_code_decode :: "string \<Rightarrow> (LobbyEndpoint \<times> u16) option" where
  "lobby_code_decode str = do {
     syms \<leftarrow> read_symbols str [];
     if length syms \<noteq> 15 then None
     else do {
       d \<leftarrow> place_bits syms [0..<75] (replicate 9 0);
       if crc8 (take 8 d) \<noteq> d ! 8 then None else Some (code_fields d) } }"

section \<open>Symbols and bits\<close>

lemma nat_below_bit: "a < 32 \<Longrightarrow> 5 \<le> n \<Longrightarrow> \<not> bit (a :: nat) n"
proof -
  assume "a < 32" "5 \<le> n"
  then have "take_bit 5 a = a" by (simp add: take_bit_nat_eq_self_iff)
  then have "bit a n = bit (take_bit 5 a) n" by simp
  with \<open>5 \<le> n\<close> show "\<not> bit a n" by (simp add: bit_take_bit_iff)
qed

lemma symbol_eqI:
  assumes "a < 32" and "b < 32" and "\<And>k. k < 5 \<Longrightarrow> bit (a :: nat) (4 - k) = bit b (4 - k)"
  shows "a = b"
proof (rule bit_eqI)
  fix n
  show "bit a n = bit b n"
    using assms(3) [of "4 - n"] nat_below_bit [OF assms(1), of n] nat_below_bit [OF assms(2), of n]
    by (cases "n < 5") auto
qed

lemma less_5_cases: "k < (5 :: nat) \<Longrightarrow> k = 0 \<or> k = 1 \<or> k = 2 \<or> k = 3 \<or> k = 4"
  by linarith

lemma upt_5: "[0..<5] = [0, 1, 2, 3, 4 :: nat]"
  by code_simp

lemma horner_5:
  fixes a :: "nat \<Rightarrow> bool"
  assumes "x = fold (\<lambda>k acc. 2 * acc + of_bool (a k)) [0..<5] (0 :: nat)"
  shows "x < 32" and "k < 5 \<Longrightarrow> bit x (4 - k) = a k"
proof -
  have x: "x = 2 * (2 * (2 * (2 * of_bool (a 0) + of_bool (a 1)) + of_bool (a 2)) + of_bool (a 3)) + of_bool (a 4)"
    by (simp add: assms upt_5)
  show "x < 32" by (simp add: x)
  show "bit x (4 - k) = a k" if "k < 5"
    using less_5_cases [OF that] unfolding x
    by (cases "a 0"; cases "a 1"; cases "a 2"; cases "a 3"; cases "a 4") (auto simp: bit_Suc_0_iff)
qed

lemma code_sym_less: "code_sym d s < 32"
  by (rule horner_5(1)) (simp add: code_sym_def)

lemma code_sym_bit: "k < 5 \<Longrightarrow> bit (code_sym d s) (4 - k) = code_bit d (5 * s + k)"
  by (rule horner_5(2) [where a = "\<lambda>k. code_bit d (5 * s + k)"]) (simp add: code_sym_def)

definition code_symbols :: "u8 list \<Rightarrow> nat list" where
  "code_symbols d = map (code_sym d) [0..<15]"

lemma sym_bit_code_symbols: "idx < 75 \<Longrightarrow> sym_bit (code_symbols d) idx = code_bit d idx"
  using code_sym_bit [of "idx mod 5" d "idx div 5"]
  by (simp add: sym_bit_def code_symbols_def)

lemma symbols_eqI:
  assumes "length xs = 15" and "length ys = 15" and "list_all (\<lambda>v. v < 32) xs"
    and "list_all (\<lambda>v. v < 32) ys" and "\<And>idx. idx < 75 \<Longrightarrow> sym_bit xs idx = sym_bit ys idx"
  shows "xs = ys"
proof (rule nth_equalityI)
  show "length xs = length ys" by (simp add: assms)
  fix s assume s: "s < length xs"
  show "xs ! s = ys ! s"
  proof (rule symbol_eqI)
    show "xs ! s < 32" "ys ! s < 32"
      using assms s by (auto simp: list_all_length)
    fix k :: nat assume "k < 5"
    then have "5 * s + k < 75" "(5 * s + k) div 5 = s" "(5 * s + k) mod 5 = k"
      using s assms(1) by auto
    then show "bit (xs ! s) (4 - k) = bit (ys ! s) (4 - k)"
      using assms(5) [of "5 * s + k"] by (simp add: sym_bit_def)
  qed
qed

lemma bytes_eqI:
  assumes "length d = 9" and "length e = 9" and "\<And>idx. idx < 72 \<Longrightarrow> code_bit d idx = code_bit e idx"
  shows "d = e"
proof (rule nth_equalityI)
  show "length d = length e" by (simp add: assms)
  fix j assume j: "j < length d"
  show "d ! j = e ! j"
  proof (rule bit_word_eqI)
    fix n assume "n < LENGTH(8)"
    then obtain m where "m < 8" "n = 7 - m"
      by (intro that [of "7 - n"]) auto
    then have "(8 * j + m) div 8 = j" "(8 * j + m) mod 8 = m" "8 * j + m < 72"
      using j assms(1) by auto
    with \<open>n = 7 - m\<close> show "bit (d ! j) n = bit (e ! j) n"
      using assms(3) [of "8 * j + m"] by (simp add: code_bit_def)
  qed
qed

lemma set_byte_bit:
  assumes "length d = 9" and "idx < 72"
  shows "code_bit (set_byte_bit idx d) i = (code_bit d i \<or> i = idx)"
proof -
  have same: "i div 8 = idx div 8 \<and> 7 - i mod 8 = 7 - idx mod 8 \<longleftrightarrow> i = idx"
  proof
    assume eq: "i div 8 = idx div 8 \<and> 7 - i mod 8 = 7 - idx mod 8"
    moreover have "i mod 8 < 8" "idx mod 8 < 8" by simp_all
    ultimately have "i mod 8 = idx mod 8" by linarith
    with eq show "i = idx" by (metis div_mult_mod_eq)
  qed simp
  show ?thesis
    using assms same by (auto simp: code_bit_def set_byte_bit_def nth_list_update bit_simps)
qed

section \<open>Placing the bits\<close>

lemma place_bits_append:
  "place_bits syms (xs @ ys) d = place_bits syms xs d \<bind> place_bits syms ys"
  by (induction xs arbitrary: d) auto

lemma no_bits: "code_bit (replicate 9 0) i \<longleftrightarrow> False"
  by (auto simp: code_bit_def)

lemma length_set_byte_bit: "length (set_byte_bit idx d) = length d"
  by (simp add: set_byte_bit_def)

lemma place_72:
  "n \<le> 72 \<Longrightarrow> \<exists>d. place_bits syms [0..<n] (replicate 9 0) = Some d \<and> length d = 9
     \<and> (\<forall>i. code_bit d i \<longleftrightarrow> i < n \<and> sym_bit syms i)"
proof (induction n)
  case 0
  then show ?case by (simp add: no_bits)
next
  case (Suc n)
  then obtain d where "place_bits syms [0..<n] (replicate 9 0) = Some d" "length d = 9"
      "\<forall>i. code_bit d i \<longleftrightarrow> i < n \<and> sym_bit syms i"
    by auto
  with Suc.prems show ?case
    by (auto simp: place_bits_append length_set_byte_bit set_byte_bit less_Suc_eq)
qed

lemma upt_75: "[0..<75] = [0..<72] @ [72, 73, 74]"
  by code_simp

lemma below_75: "(\<forall>i < 75. P i) \<longleftrightarrow> (\<forall>i < 72. P i) \<and> P 72 \<and> P 73 \<and> P (74 :: nat)"
proof
  assume *: "(\<forall>i < 72. P i) \<and> P 72 \<and> P 73 \<and> P 74"
  show "\<forall>i < 75. P i"
  proof (intro allI impI)
    fix i :: nat assume "i < 75"
    then consider "i < 72" | "i = 72" | "i = 73" | "i = 74" by linarith
    then show "P i" using * by cases auto
  qed
qed simp

lemma place_75:
  "place_bits syms [0..<75] (replicate 9 0) = Some d \<longleftrightarrow>
     length d = 9 \<and> (\<forall>i < 75. sym_bit syms i = code_bit d i)"
proof -
  obtain e where e: "place_bits syms [0..<72] (replicate 9 0) = Some e" "length e = 9"
      "\<forall>i. code_bit e i \<longleftrightarrow> i < 72 \<and> sym_bit syms i"
    using place_72 [of 72] by blast
  have eq: "(length d = 9 \<and> (\<forall>i < 72. sym_bit syms i = code_bit d i)) \<longleftrightarrow> d = e"
    using e(2,3) bytes_eqI [of d e] by blast
  have pads: "\<not> code_bit d 72" "\<not> code_bit d 73" "\<not> code_bit d 74"
    by (simp_all add: code_bit_def)
  show ?thesis
    using eq unfolding upt_75 place_bits_append e(1) below_75 by (auto simp: pads)
qed

lemma code_symbols_ok: "length (code_symbols d) = 15" "list_all (\<lambda>v. v < 32) (code_symbols d)"
  by (simp_all add: code_symbols_def code_sym_less list_all_iff)

lemma place_bits_iff:
  assumes "length syms = 15" and "list_all (\<lambda>v. v < 32) syms"
  shows "place_bits syms [0..<75] (replicate 9 0) = Some d \<longleftrightarrow> length d = 9 \<and> syms = code_symbols d"
proof -
  have "(\<forall>i < 75. sym_bit syms i = code_bit d i) \<longleftrightarrow> syms = code_symbols d"
    using symbols_eqI [OF assms(1) _ assms(2), of "code_symbols d"] code_symbols_ok [of d]
    by (auto simp: sym_bit_code_symbols)
  then show ?thesis by (simp add: place_75)
qed

section \<open>Fields of the code\<close>

lemma code_fields_join:
  "code_fields d =
     (\<lparr>ep_ip = join32 (d ! 3) (d ! 2) (d ! 1) (d ! 0), ep_port = join16 (d ! 5) (d ! 4)\<rparr>,
      join16 (d ! 7) (d ! 6))"
  by (simp add: code_fields_def join32_def join16_def ac_simps)

lemma code_fields_bytes: "code_fields (code_bytes ep sid) = (ep, sid)"
  by (simp add: code_fields_join code_bytes_def code_payload_def join32_parts join16_parts)

lemma join_parts:
  "ucast (join16 a b) = a" "ucast (drop_bit 8 (join16 a b)) = b"
  "ucast (join32 a b c d) = a" "ucast (drop_bit 8 (join32 a b c d)) = b"
  "ucast (drop_bit 16 (join32 a b c d)) = c" "ucast (drop_bit 24 (join32 a b c d)) = d"
  using le16_join16 [of a b] le32_join32 [of a b c d] by (simp_all only: le16_def le32_def list.inject)

lemma nine_bytes:
  "length d = 9 \<Longrightarrow> d = [d ! 0, d ! 1, d ! 2, d ! 3, d ! 4, d ! 5, d ! 6, d ! 7] @ [d ! 8]"
  by (simp add: list_eq_iff_nth_eq less_Suc_eq numeral_eq_Suc)

lemma code_bytes_iff:
  "length d = 9 \<and> crc8 (take 8 d) = d ! 8 \<and> code_fields d = (ep, sid) \<longleftrightarrow> d = code_bytes ep sid"
proof
  assume *: "length d = 9 \<and> crc8 (take 8 d) = d ! 8 \<and> code_fields d = (ep, sid)"
  let ?p = "[d ! 0, d ! 1, d ! 2, d ! 3, d ! 4, d ! 5, d ! 6, d ! 7]"
  have d: "d = ?p @ [d ! 8]" using * nine_bytes [of d] by blast
  have "take 8 d = ?p" by (subst d) simp
  moreover have "code_payload ep sid = ?p"
    using * by (auto simp: code_fields_join code_payload_def join_parts)
  ultimately show "d = code_bytes ep sid"
    using * d by (simp add: code_bytes_def)
next
  assume "d = code_bytes ep sid"
  then show "length d = 9 \<and> crc8 (take 8 d) = d ! 8 \<and> code_fields d = (ep, sid)"
    using code_fields_bytes [of ep sid] by (simp add: code_bytes_def code_payload_def)
qed

section \<open>Reading the symbols\<close>

definition symbol_values :: "string \<Rightarrow> nat list option" where
  "symbol_values str = those (map b32val (filter (\<lambda>c. c \<noteq> CHR ''-'') str))"

lemma read_symbols_iff:
  "length acc \<le> 15 \<Longrightarrow> read_symbols str acc = Some syms \<longleftrightarrow>
     (\<exists>vs. symbol_values str = Some vs \<and> syms = acc @ vs \<and> length syms \<le> 15)"
proof (induction str arbitrary: acc)
  case Nil
  then show ?case by (auto simp: symbol_values_def)
next
  case (Cons p str)
  then show ?case
    by (auto simp: symbol_values_def split: option.splits)
qed

lemma b32val_less: "b32val c = Some v \<Longrightarrow> v < 32"
  by (auto simp: b32val_def Let_def B32_def less_eq_char_def split: if_splits)

lemma symbol_values_less: "symbol_values str = Some vs \<Longrightarrow> list_all (\<lambda>v. v < 32) vs"
  unfolding symbol_values_def
  by (induction str arbitrary: vs) (auto split: if_splits option.splits dest: b32val_less)

section \<open>The decoder inverts the encoder and nothing else\<close>

lemma decode_iff:
  "lobby_code_decode str = Some (ep, sid) \<longleftrightarrow>
     symbol_values str = Some (code_symbols (code_bytes ep sid))"
proof -
  have "lobby_code_decode str = Some (ep, sid) \<longleftrightarrow>
      (\<exists>vs d. symbol_values str = Some vs \<and> length vs = 15
        \<and> place_bits vs [0..<75] (replicate 9 0) = Some d
        \<and> crc8 (take 8 d) = d ! 8 \<and> code_fields d = (ep, sid))"
    by (auto simp: lobby_code_decode_def bind_eq_Some_conv read_symbols_iff split: if_splits)
  also have "\<dots> \<longleftrightarrow> (\<exists>vs d. symbol_values str = Some vs \<and> length vs = 15 \<and> vs = code_symbols d
        \<and> length d = 9 \<and> crc8 (take 8 d) = d ! 8 \<and> code_fields d = (ep, sid))"
    using symbol_values_less by (metis place_bits_iff)
  also have "\<dots> \<longleftrightarrow> (\<exists>d. symbol_values str = Some (code_symbols d) \<and> d = code_bytes ep sid)"
    by (simp flip: code_bytes_iff) (auto simp: code_symbols_def)
  finally show ?thesis by simp
qed

lemma B32_symbols: "list_all (\<lambda>v. b32val (B32 ! v) = Some v \<and> B32 ! v \<noteq> CHR ''-'') [0..<32]"
  by code_simp

lemma B32_symbol: "v < 32 \<Longrightarrow> b32val (B32 ! v) = Some v" "v < 32 \<Longrightarrow> B32 ! v \<noteq> CHR ''-''"
  using B32_symbols by (auto simp: list_all_iff)

lemma those_append: "those (xs @ ys) = do { a \<leftarrow> those xs; b \<leftarrow> those ys; Some (a @ b) }"
proof (induction xs)
  case Nil
  then show ?case by (cases "those ys") simp_all
next
  case (Cons x xs)
  then show ?case by (cases x; cases "those xs"; cases "those ys") simp_all
qed

lemma symbol_values_append:
  "symbol_values (xs @ ys) = do { a \<leftarrow> symbol_values xs; b \<leftarrow> symbol_values ys; Some (a @ b) }"
  by (simp add: symbol_values_def those_append)

lemma symbol_values_groups:
  "symbol_values (concat (map (\<lambda>s. (if P s then ''-'' else []) @ [B32 ! code_sym d s]) xs))
     = Some (map (code_sym d) xs)"
proof (induction xs)
  case Nil
  then show ?case by (simp add: symbol_values_def)
next
  case (Cons s xs)
  have "symbol_values ((if P s then ''-'' else []) @ [B32 ! code_sym d s]) = Some [code_sym d s]"
    using B32_symbol [OF code_sym_less [of d s]] by (simp add: symbol_values_def)
  with Cons.IH show ?case
    by (simp only: list.map concat.simps symbol_values_append [of _ "concat _"]) simp
qed

lemma symbol_values_encode: "symbol_values (lobby_code_encode ep sid) = Some (code_symbols (code_bytes ep sid))"
  unfolding lobby_code_encode_def Let_def code_symbols_def by (rule symbol_values_groups)

text \<open>C34: \<open>lobby_code_decode\<close> inverts \<open>lobby_code_encode\<close>, and accepts nothing else: a string decodes
  to a server and a session id exactly when its symbols (dashes dropped, case and the aliases of
  0 and 1 resolved) are the symbols of the code printed for them.  So pad bits, checksum and
  length are all enforced, and no code has two meanings.\<close>

theorem code_round_trip:
  "lobby_code_decode str = Some (server, session_id) \<longleftrightarrow>
     symbol_values str = symbol_values (lobby_code_encode server session_id)"
  by (simp add: decode_iff symbol_values_encode)

section \<open>One wrong symbol is always caught\<close>

text \<open>
  The checksum one bit at a time.  A step is linear and injective, so the checksum of the
  difference of two codes vanishes, and a difference within eight consecutive bits is zero.
\<close>

definition crc_feed :: "bool \<Rightarrow> u8 \<Rightarrow> u8" where
  "crc_feed b c = crc8_bit (if b then c XOR 0x80 else c)"

lemma bit7: "(c :: u8) AND 0x80 \<noteq> 0 \<longleftrightarrow> bit c 7"
  using and_exp_eq_0_iff_not_bit [of c 7] by simp

lemma crc8_bit_alt: "crc8_bit c = push_bit 1 c XOR (if bit c 7 then 7 else 0)"
  by (simp add: crc8_bit_def bit7)

lemma crc8_bit_xor: "crc8_bit (x XOR y) = crc8_bit x XOR crc8_bit y"
  unfolding crc8_bit_alt
  by (cases "bit x 7"; cases "bit y 7") (simp_all add: push_bit_xor bit_xor_iff ac_simps)

lemma crc8_bit_zero: "crc8_bit c = 0 \<longleftrightarrow> c = 0"
proof
  assume z: "crc8_bit c = 0"
  have low: "\<not> bit (push_bit 1 c) 0" by (simp only: bit_push_bit_iff) simp
  have "\<not> bit c 7"
  proof
    assume "bit c 7"
    then have "bit (crc8_bit c) 0"
      unfolding crc8_bit_alt bit_xor_iff using low by simp
    with z show False by simp
  qed
  then have "push_bit 1 c = 0" using z by (simp add: crc8_bit_alt)
  then have shifted: "\<not> bit (push_bit 1 c) (Suc n)" for n by simp
  have "\<not> bit c n" if "n < 7" for n
    using shifted [of n] that unfolding bit_push_bit_iff by simp
  with \<open>\<not> bit c 7\<close> show "c = 0"
    by (intro bit_word_eqI) (auto simp: less_Suc_eq numeral_eq_Suc)
qed (simp add: crc8_bit_def)

lemma crc8_bits_zero: "(crc8_bit ^^ n) c = 0 \<longleftrightarrow> c = 0"
  by (induction n) (simp_all add: crc8_bit_zero)

definition crc_bits :: "bool list \<Rightarrow> u8 \<Rightarrow> u8" where
  "crc_bits = fold crc_feed"

lemma crc_bits_append: "crc_bits (as @ bs) x = crc_bits bs (crc_bits as x)"
  by (simp add: crc_bits_def)

lemma crc_feed_xor: "crc_feed (a = (\<not> b)) (x XOR y) = crc_feed a x XOR crc_feed b y"
  by (cases a; cases b) (simp_all add: crc_feed_def crc8_bit_xor ac_simps)

lemma crc_bits_xor:
  "length as = length bs \<Longrightarrow>
     crc_bits (map2 (\<lambda>a b. a = (\<not> b)) as bs) (x XOR y) = crc_bits as x XOR crc_bits bs y"
proof (induction as bs arbitrary: x y rule: list_induct2)
  case Nil
  then show ?case by (simp add: crc_bits_def)
next
  case (Cons a as b bs)
  then show ?case by (simp add: crc_bits_def crc_feed_xor)
qed

lemma crc_bits_pad: "crc_bits (replicate n False) x = 0 \<longleftrightarrow> x = 0"
  by (induction n arbitrary: x) (simp_all add: crc_bits_def crc_feed_def crc8_bit_zero)

lemma crc_shift_in:
  "n \<le> 8 \<Longrightarrow> (\<And>i. bit b i \<Longrightarrow> 8 \<le> i + n) \<Longrightarrow>
     (crc8_bit ^^ n) (c XOR b) = crc_bits (map (\<lambda>k. bit b (7 - k)) [0..<n]) c"
proof (induction n arbitrary: b c)
  case 0
  then have "b = 0" using bit_imp_le_length [of b] by (intro bit_word_eqI) fastforce
  then show ?case by (simp add: crc_bits_def)
next
  case (Suc n)
  let ?t = "if bit b 7 then 0x80 else (0 :: u8)"
  have t: "bit ?t i \<longleftrightarrow> bit b 7 \<and> i = 7" for i
    using bit_push_bit_iff [of 7 "1 :: u8" i] by (auto simp: bit_simps)
  have "b = ?t XOR (b XOR ?t)" by (simp add: ac_simps)
  then have "crc8_bit (c XOR b) = crc8_bit (c XOR ?t) XOR crc8_bit (b XOR ?t)"
    by (metis crc8_bit_xor xor.assoc)
  also have "crc8_bit (b XOR ?t) = push_bit 1 (b XOR ?t)"
    using t [of 7] by (simp add: crc8_bit_alt bit_xor_iff del: push_bit_xor)
  also have "\<dots> = push_bit 1 b"
  proof (rule bit_word_eqI)
    fix i assume "i < LENGTH(8)"
    then show "bit (push_bit 1 (b XOR ?t)) i = bit (push_bit 1 b) i"
      unfolding bit_push_bit_iff bit_xor_iff t by auto
  qed
  finally have step: "crc8_bit (c XOR b) = crc_feed (bit b 7) c XOR push_bit 1 b"
    by (simp add: crc_feed_def)
  have top: "8 \<le> i + n" if "bit (push_bit 1 b) i" for i
    using that Suc.prems(2) [of "i - 1"] unfolding bit_push_bit_iff by auto
  have "(crc8_bit ^^ n) (crc_feed (bit b 7) c XOR push_bit 1 b)
      = crc_bits (map (\<lambda>k. bit (push_bit 1 b) (7 - k)) [0..<n]) (crc_feed (bit b 7) c)"
    using Suc.prems(1) top by (intro Suc.IH) auto
  also have "map (\<lambda>k. bit (push_bit 1 b) (7 - k)) [0..<n] = map (\<lambda>k. bit b (7 - Suc k)) [0..<n]"
    using Suc.prems(1) unfolding bit_push_bit_iff by auto
  finally show ?case
    unfolding funpow_Suc_right comp_def step map_upt_Suc by (simp add: crc_bits_def)
qed

lemma crc8_byte_bits: "crc8_byte b c = crc_bits (map (\<lambda>k. bit b (7 - k)) [0..<8]) c"
  unfolding crc8_byte_def by (rule crc_shift_in) auto

lemma upt_blocks:
  "map f [0..<8 * n] = concat (map (\<lambda>j. map (\<lambda>k. f (8 * j + k)) [0..<8]) [0..<n])"
proof (induction n)
  case 0
  then show ?case by simp
next
  case (Suc n)
  have "[0..<8 * Suc n] = [0..<8 * n] @ map (\<lambda>k. k + 8 * n) [0..<8]"
    using upt_add_eq_append [of 0 "8 * n" 8] by (simp only: map_add_upt) (simp add: add.commute)
  then show ?case
    by (simp only: map_append Suc.IH upt_Suc_append [of 0 n] concat_append) (simp add: comp_def add.commute)
qed

lemma crc_blocks: "crc_bits (concat (map g js)) c = fold (\<lambda>j. crc_bits (g j)) js c"
  by (induction js arbitrary: c) (simp_all add: crc_bits_append, simp add: crc_bits_def)

lemma crc8_code_bits:
  assumes "length d = 9"
  shows "crc8 d = crc_bits (map (code_bit d) [0..<72]) 0"
proof -
  have "map (\<lambda>k. code_bit d (8 * j + k)) [0..<8] = map (\<lambda>k. bit (d ! j) (7 - k)) [0..<8]" if "j < 9" for j
    using that by (auto simp: code_bit_def)
  then have "map (\<lambda>j. map (\<lambda>k. code_bit d (8 * j + k)) [0..<8]) [0..<9]
      = map (\<lambda>j. map (\<lambda>k. bit (d ! j) (7 - k)) [0..<8]) [0..<9]"
    by (intro map_cong) auto
  with upt_blocks [of "code_bit d" 9]
  have "map (code_bit d) [0..<72] = concat (map (\<lambda>j. map (\<lambda>k. bit (d ! j) (7 - k)) [0..<8]) [0..<9])"
    by (simp only:) simp
  then have "crc_bits (map (code_bit d) [0..<72]) 0 = fold (\<lambda>j. crc8_byte (d ! j)) [0..<9] 0"
    by (simp only: crc_blocks crc8_byte_bits [abs_def])
  also have "\<dots> = fold crc8_byte (map ((!) d) [0..<9]) 0"
    by (simp only: fold_map comp_def)
  also have "map ((!) d) [0..<9] = d"
    using assms by (metis map_nth)
  finally show ?thesis by (simp add: crc8_def)
qed

lemma crc8_valid: "crc_bits (map (code_bit (code_bytes ep sid)) [0..<72]) 0 = 0"
proof -
  have "length (code_bytes ep sid) = 9"
    by (simp add: code_bytes_def code_payload_def)
  moreover have "crc8 (code_bytes ep sid) = 0"
    by (simp add: code_bytes_def crc8_def crc8_byte_def crc8_bits_zero)
  ultimately show ?thesis by (simp add: crc8_code_bits)
qed

lemma burst_of_n: "list_all (\<lambda>n. list_all (\<lambda>w. crc_bits w 0 = 0 \<longrightarrow> list_all Not w) (List.n_lists n [True, False])) [2, 5]"
  by code_simp

lemma burst_caught: "length w = 2 \<or> length w = 5 \<Longrightarrow> crc_bits w 0 = 0 \<Longrightarrow> list_all Not w"
  using burst_of_n by (auto simp: list_all_iff set_n_lists)

lemma crc_window:
  assumes zero: "crc_bits (map f [0..<72]) 0 = 0" and "m + l \<le> 72" and "l = 2 \<or> l = 5"
    and outside: "\<And>i. i < 72 \<Longrightarrow> i < m \<or> m + l \<le> i \<Longrightarrow> \<not> f i"
    and "i < 72"
  shows "\<not> f i"
proof -
  have pad: "map f [p..<q] = replicate (q - p) False" if "\<And>i. p \<le> i \<Longrightarrow> i < q \<Longrightarrow> \<not> f i" for p q
    using that by (auto simp: list_eq_iff_nth_eq)
  have "[0..<72] = [0..<m] @ [m..<m + l] @ [m + l..<72]"
    using assms(2) upt_add_eq_append [of 0 m "72 - m"] upt_add_eq_append [of m "m + l" "72 - (m + l)"] by simp
  moreover have "map f [0..<m] = replicate m False" "map f [m + l..<72] = replicate (72 - (m + l)) False"
    using pad [of 0 m] pad [of "m + l" 72] outside assms(2) by auto
  ultimately have "crc_bits (map f [m..<m + l]) (crc_bits (replicate m False) 0) = 0"
    using zero by (simp add: crc_bits_append crc_bits_pad)
  moreover have "crc_bits (replicate m False) 0 = 0" by (simp add: crc_bits_pad)
  ultimately have "list_all Not (map f [m..<m + l])"
    using assms(3) by (intro burst_caught) auto
  then show "\<not> f i"
    using outside [of i] \<open>i < 72\<close> by (cases "m \<le> i \<and> i < m + l") (auto simp: list_all_iff)
qed

lemma codes_differ_twice:
  assumes "code_symbols (code_bytes ep' sid') = (code_symbols (code_bytes ep sid))[s := v]"
  shows "(code_symbols (code_bytes ep sid))[s := v] = code_symbols (code_bytes ep sid)"
proof (cases "s < 15")
  case False
  then show ?thesis by (simp add: code_symbols_ok list_update_beyond)
next
  case True
  let ?d = "code_bytes ep sid" and ?e = "code_bytes ep' sid'"
  define f where "f i \<longleftrightarrow> code_bit ?d i = (\<not> code_bit ?e i)" for i
  have same: "sym_bit (code_symbols ?e) i = sym_bit (code_symbols ?d) i" if "i div 5 \<noteq> s" for i
    using that by (simp add: assms sym_bit_def)
  have "map2 (\<lambda>a b. a = (\<not> b)) (map (code_bit ?d) [0..<72]) (map (code_bit ?e) [0..<72]) = map f [0..<72]"
    by (simp add: f_def zip_map_map zip_same_conv_map)
  then have zero: "crc_bits (map f [0..<72]) 0 = 0"
    using crc_bits_xor [of "map (code_bit ?d) [0..<72]" "map (code_bit ?e) [0..<72]" 0 0]
    by (simp add: crc8_valid)
  define l :: nat where "l = (if s = 14 then 2 else 5)"
  have "\<not> f i" if "i < 72" for i
  proof (rule crc_window [OF zero, of "5 * s" l])
    show "5 * s + l \<le> 72" "l = 2 \<or> l = 5" using True by (auto simp: l_def)
    show "\<not> f i" if "i < 72" "i < 5 * s \<or> 5 * s + l \<le> i" for i
    proof -
      have "i div 5 \<noteq> s" using that by (auto simp: l_def split: if_splits)
      then show ?thesis
        using same [of i] that(1) by (simp add: f_def sym_bit_code_symbols)
    qed
  qed (rule that)
  then have "?d = ?e"
    by (intro bytes_eqI) (auto simp: f_def code_bytes_def code_payload_def)
  then show ?thesis using assms by simp
qed

text \<open>C35: One mistyped symbol is always caught: replace any one symbol of a valid code by another
  and the result is rejected.\<close>

theorem one_wrong_symbol_is_rejected:
  assumes "lobby_code_decode code = Some (server, session_id)"
    and "symbol_values code = Some values" and "v \<noteq> values ! s" and "s < length values"
    and "symbol_values typed = Some (values[s := v])"
  shows "lobby_code_decode typed = None"
proof (rule ccontr)
  assume "lobby_code_decode typed \<noteq> None"
  then obtain ep' sid' where "lobby_code_decode typed = Some (ep', sid')" by auto
  then have "values[s := v] = values"
    using assms(1,2,5) codes_differ_twice [of ep' sid' server session_id s v] by (simp add: decode_iff)
  with assms(3,4) show False by (metis nth_list_update_eq)
qed

theorem one_wrong_symbol_is_rejected_witness:
  "lobby_code_encode \<lparr>ep_ip = 0xC0A80001, ep_port = 40064\<rparr> 513 = ''R2M00-0CWG0-102P0''
    \<and> lobby_code_decode ''R2M00-0CWG0-102Q0'' = None"
proof -
  let ?code = "lobby_code_encode \<lparr>ep_ip = 0xC0A80001, ep_port = 40064\<rparr> 513"
  have v: "lobby_code_decode ?code = Some (\<lparr>ep_ip = 0xC0A80001, ep_port = 40064\<rparr>, 513)"
    by (simp add: decode_iff symbol_values_encode)
  have "?code = ''R2M00-0CWG0-102P0''" by code_simp
  moreover have "symbol_values ''R2M00-0CWG0-102P0'' = Some [24, 2, 20, 0, 0, 0, 12, 28, 16, 0, 1, 0, 2, 22, 0]"
      "symbol_values ''R2M00-0CWG0-102Q0'' = Some [24, 2, 20, 0, 0, 0, 12, 28, 16, 0, 1, 0, 2, 23, 0]"
    by code_simp+
  ultimately show ?thesis
    using one_wrong_symbol_is_rejected [OF v, of _ 23 13 "''R2M00-0CWG0-102Q0''"] by simp
qed

end
