(* ===== verification/Rv_Server.thy ===== *)
theory Rv_Server
  imports Lobby_Proto
begin

text \<open>
  The rendezvous server of \<open>src/src/lobby/rendezvous.c\<close> and \<open>rendezvous.h\<close>: its state, one
  definition per C function, and the two entry points \<open>rv_handle\<close> (one datagram) and \<open>rv_tick\<close>
  (the clock).  The callback \<open>RvEmit\<close> is the list of packets an operation sends, in order, each
  with its destination.  \<open>find_session\<close> and the C variables that point into the session table are
  indices.  \<open>start\<close> and \<open>have_start\<close> are one optional message.
\<close>

section \<open>State\<close>

definition RV_MAX_SESSIONS :: nat where "RV_MAX_SESSIONS = 64"
definition RV_MAX_PLAYERS :: nat where "RV_MAX_PLAYERS = 4"
definition RV_RATE_BUCKETS :: nat where "RV_RATE_BUCKETS = 256"
definition RV_RATE_PER_SEC :: u32 where "RV_RATE_PER_SEC = 20"
definition RV_RATE_BURST :: u32 where "RV_RATE_BURST = 40"
definition RV_LOBBY_EXPIRY_MS :: u32 where "RV_LOBBY_EXPIRY_MS = 10 * 60 * 1000"
definition RV_STARTED_EXPIRY_MS :: u32 where "RV_STARTED_EXPIRY_MS = 30 * 1000"
definition RV_RELAY_EXPIRY_MS :: u32 where "RV_RELAY_EXPIRY_MS = 60 * 1000"
definition RV_START_REFAN_MS :: u32 where "RV_START_REFAN_MS = 500"

lemmas rv_sizes = RV_MAX_SESSIONS_def RV_MAX_PLAYERS_def RV_RATE_BUCKETS_def

datatype RvPhase = RV_FREE | RV_LOBBY | RV_STARTING | RV_RUNNING

record RvPeer =
  pe_used :: bool
  pe_start_acked :: bool
  pe_public :: LobbyEndpoint
  pe_private :: LobbyEndpoint
  pe_last_seen :: u32

record RvSession =
  se_id :: u16
  se_phase :: RvPhase
  se_num_players :: u8
  se_joined :: u8
  se_net_version :: u32
  se_punch :: "int list list"
  se_route_sent :: "bool list list"
  se_route :: "u8 list list"
  se_peers :: "RvPeer list"
  se_start :: "LobbyMsg option"
  se_last_activity :: u32
  se_started :: u32
  se_last_refan :: u32
  se_last_relay :: u32

record RvRateBucket =
  tokens_milli :: u32
  last_ms :: u32

record Rendezvous =
  rv_sessions :: "RvSession list"
  rv_rate :: "RvRateBucket list"
  rv_rng :: u32
  rv_forwards :: u32

type_synonym Packets = "(LobbyEndpoint \<times> u8 list) list"

definition cell :: "'a list list \<Rightarrow> nat \<Rightarrow> nat \<Rightarrow> 'a" where
  "cell m a b = m ! a ! b"

definition set_cell :: "nat \<Rightarrow> nat \<Rightarrow> 'a \<Rightarrow> 'a list list \<Rightarrow> 'a list list" where
  "set_cell a b v m = m[a := (m ! a)[b := v]]"

section \<open>Helpers\<close>

definition xs32 :: "u32 \<Rightarrow> u32" where
  "xs32 x = xorshift32 x"

definition emit_msg :: "LobbyEndpoint \<Rightarrow> LobbyMsg \<Rightarrow> Packets" where
  "emit_msg dest m = (case lobby_pack m of None \<Rightarrow> [] | Some b \<Rightarrow> [(dest, b)])"

definition emit_reject :: "LobbyEndpoint \<Rightarrow> u8 \<Rightarrow> Packets" where
  "emit_reject dest reason = emit_msg dest (LOBBY_REJECT reason)"

definition endpoint_zero :: LobbyEndpoint where
  "endpoint_zero = \<lparr>ep_ip = 0, ep_port = 0\<rparr>"

definition peer_zero :: RvPeer where
  "peer_zero = \<lparr>pe_used = False, pe_start_acked = False, pe_public = endpoint_zero,
     pe_private = endpoint_zero, pe_last_seen = 0\<rparr>"

definition session_clear :: RvSession where
  "session_clear =
     \<lparr>se_id = 0, se_phase = RV_FREE, se_num_players = 0, se_joined = 0, se_net_version = 0,
      se_punch = replicate 4 (replicate 4 (- 1)),
      se_route_sent = replicate 4 (replicate 4 False), se_route = replicate 4 (replicate 4 0),
      se_peers = replicate 4 peer_zero, se_start = None,
      se_last_activity = 0, se_started = 0, se_last_refan = 0, se_last_relay = 0\<rparr>"

definition find_session :: "RvSession list \<Rightarrow> u16 \<Rightarrow> nat option" where
  "find_session ss sid =
     (if sid = 0 then None else find_index (\<lambda>s. se_phase s \<noteq> RV_FREE \<and> se_id s = sid) ss)"

definition peer_of :: "RvSession \<Rightarrow> LobbyEndpoint \<Rightarrow> nat option" where
  "peer_of s src = find_index (\<lambda>p. pe_used p \<and> pe_public p = src) (se_peers s)"

definition bucket_refill :: "u32 \<Rightarrow> RvRateBucket \<Rightarrow> RvRateBucket" where
  "bucket_refill now b =
     (let cap = RV_RATE_BURST * 1000; dt = now - last_ms b; t = tokens_milli b + dt * RV_RATE_PER_SEC in
      \<lparr>tokens_milli = (if cap div RV_RATE_PER_SEC < dt then cap else if cap < t then cap else t),
       last_ms = now\<rparr>)"

definition bucket_take :: "u32 \<Rightarrow> RvRateBucket \<Rightarrow> RvRateBucket \<times> bool" where
  "bucket_take now b =
     (let b = bucket_refill now b in
      if tokens_milli b < 1000 then (b, False)
      else (b\<lparr>tokens_milli := tokens_milli b - 1000\<rparr>, True))"

definition rate_take :: "Rendezvous \<Rightarrow> u32 \<Rightarrow> u32 \<Rightarrow> Rendezvous \<times> bool" where
  "rate_take rv now ip =
     (let k = unat ip mod RV_RATE_BUCKETS; (b, ok) = bucket_take now (rv_rate rv ! k) in
      (rv\<lparr>rv_rate := (rv_rate rv)[k := b]\<rparr>, ok))"

section \<open>Fan-out\<close>

definition intro_of :: "RvSession \<Rightarrow> nat \<Rightarrow> LobbyMsg" where
  "intro_of s i =
     LOBBY_PEER_INTRO (of_nat i) (pe_public (se_peers s ! i)) (pe_private (se_peers s ! i))"

definition fan_peer_intro :: "RvSession \<Rightarrow> nat \<Rightarrow> Packets" where
  "fan_peer_intro s newcomer =
     concat (map (\<lambda>i.
       if i = newcomer \<or> \<not> pe_used (se_peers s ! i) then []
       else emit_msg (pe_public (se_peers s ! i)) (intro_of s newcomer)
         @ emit_msg (pe_public (se_peers s ! newcomer)) (intro_of s i)) [0..<RV_MAX_PLAYERS])"

definition resend_intros_to :: "RvSession \<Rightarrow> nat \<Rightarrow> Packets" where
  "resend_intros_to s who =
     concat (map (\<lambda>i.
       if i = who \<or> \<not> pe_used (se_peers s ! i) then []
       else emit_msg (pe_public (se_peers s ! who)) (intro_of s i)) [0..<RV_MAX_PLAYERS])"

definition fan_start :: "RvSession \<Rightarrow> bool \<Rightarrow> Packets" where
  "fan_start s only_unacked =
     (case se_start s of None \<Rightarrow> []
      | Some m \<Rightarrow>
        concat (map (\<lambda>p.
          if \<not> pe_used p then []
          else if only_unacked \<and> pe_start_acked p then []
          else emit_msg (pe_public p) m) (se_peers s)))"

section \<open>Handlers\<close>

definition at_session :: "nat \<Rightarrow> (RvSession \<Rightarrow> RvSession) \<Rightarrow> Rendezvous \<Rightarrow> Rendezvous" where
  "at_session i f rv = rv\<lparr>rv_sessions := (rv_sessions rv)[i := f (rv_sessions rv ! i)]\<rparr>"

definition seen :: "u32 \<Rightarrow> nat \<Rightarrow> RvSession \<Rightarrow> RvSession" where
  "seen now p s = s\<lparr>se_last_activity := now,
     se_peers := (se_peers s)[p := (se_peers s ! p)\<lparr>pe_last_seen := now\<rparr>]\<rparr>"

fun pick_id :: "RvSession list \<Rightarrow> nat \<Rightarrow> u32 \<Rightarrow> u32 \<times> u16" where
  "pick_id ss 0 rng = (rng, 0)"
| "pick_id ss (Suc tries) rng =
     (let rng = xs32 rng; cand = ucast rng in
      if cand \<noteq> 0 \<and> find_session ss cand = None then (rng, cand) else pick_id ss tries rng)"

definition hosted_lobby :: "LobbyEndpoint \<Rightarrow> RvSession \<Rightarrow> bool" where
  "hosted_lobby src c \<longleftrightarrow>
     se_phase c = RV_LOBBY \<and> pe_used (se_peers c ! 0) \<and> pe_public (se_peers c ! 0) = src"

definition clamp_players :: "u8 \<Rightarrow> u8" where
  "clamp_players np = (let np = (if np < 2 then 2 else np) in if 4 < np then 4 else np)"

definition new_peer :: "u32 \<Rightarrow> LobbyEndpoint \<Rightarrow> LobbyEndpoint \<Rightarrow> RvPeer \<Rightarrow> RvPeer" where
  "new_peer now pub prv p =
     p\<lparr>pe_used := True, pe_public := pub, pe_private := prv, pe_last_seen := now\<rparr>"

definition new_lobby :: "u32 \<Rightarrow> LobbyEndpoint \<Rightarrow> u16 \<Rightarrow> u32 \<Rightarrow> u8 \<Rightarrow> LobbyEndpoint \<Rightarrow> RvSession" where
  "new_lobby now src sid ver np prv =
     session_clear\<lparr>se_id := sid, se_phase := RV_LOBBY, se_num_players := clamp_players np,
       se_net_version := ver,
       se_peers := (se_peers session_clear)[0 := new_peer now src prv (se_peers session_clear ! 0)],
       se_joined := 1, se_last_activity := now\<rparr>"

definition do_host_req ::
  "u32 \<Rightarrow> LobbyEndpoint \<Rightarrow> u32 \<Rightarrow> u8 \<Rightarrow> LobbyEndpoint \<Rightarrow> Rendezvous \<Rightarrow> Rendezvous \<times> Packets" where
  "do_host_req now src ver np prv rv =
     (case find_index (hosted_lobby src) (rv_sessions rv) of
        Some i \<Rightarrow>
          (let rv = at_session i (seen now 0) rv; c = rv_sessions rv ! i in
           (rv, emit_msg src (LOBBY_HOST_RESP (se_id c)) @ resend_intros_to c 0))
      | None \<Rightarrow>
          (case find_index (\<lambda>s. se_phase s = RV_FREE) (rv_sessions rv) of
             None \<Rightarrow> (rv, emit_reject src LOBBY_REJ_FULL)
           | Some i \<Rightarrow>
               (let (rng, sid) = pick_id (rv_sessions rv) 4096 (rv_rng rv); rv = rv\<lparr>rv_rng := rng\<rparr> in
                if sid = 0 then (rv, emit_reject src LOBBY_REJ_FULL)
                else (at_session i (\<lambda>_. new_lobby now src sid ver np prv) rv,
                      emit_msg src (LOBBY_HOST_RESP sid)))))"

definition add_peer :: "u32 \<Rightarrow> nat \<Rightarrow> LobbyEndpoint \<Rightarrow> LobbyEndpoint \<Rightarrow> RvSession \<Rightarrow> RvSession" where
  "add_peer now slot src prv s =
     s\<lparr>se_peers := (se_peers s)[slot := new_peer now src prv (se_peers s ! slot)],
       se_joined := se_joined s + 1, se_last_activity := now\<rparr>"

definition do_join_req ::
  "u32 \<Rightarrow> LobbyEndpoint \<Rightarrow> u16 \<Rightarrow> u32 \<Rightarrow> LobbyEndpoint \<Rightarrow> Rendezvous \<Rightarrow> Rendezvous \<times> Packets" where
  "do_join_req now src sid ver prv rv =
     (case find_session (rv_sessions rv) sid of
        None \<Rightarrow> (rv, emit_reject src LOBBY_REJ_BAD_SESSION)
      | Some i \<Rightarrow>
          (let s = rv_sessions rv ! i in
           if se_phase s \<noteq> RV_LOBBY then (rv, emit_reject src LOBBY_REJ_EXPIRED)
           else (case peer_of s src of
             Some p \<Rightarrow>
               (let rv = at_session i (seen now p) rv in
                (rv, emit_msg src (LOBBY_JOIN_RESP (of_nat p) (se_num_players s))
                     @ resend_intros_to (rv_sessions rv ! i) p))
           | None \<Rightarrow>
               if ver \<noteq> se_net_version s then (rv, emit_reject src LOBBY_REJ_VERSION_MISMATCH)
               else if se_num_players s \<le> se_joined s then (rv, emit_reject src LOBBY_REJ_FULL)
               else (case find_index (\<lambda>p. \<not> pe_used p) (se_peers s) of
                 None \<Rightarrow> (rv, emit_reject src LOBBY_REJ_FULL)
               | Some slot \<Rightarrow>
                   (let rv = at_session i (add_peer now slot src prv) rv in
                    (rv, emit_msg src (LOBBY_JOIN_RESP (of_nat slot) (se_num_players s))
                         @ fan_peer_intro (rv_sessions rv ! i) slot))))))"

definition punch_recorded :: "u32 \<Rightarrow> nat \<Rightarrow> nat \<Rightarrow> u8 \<Rightarrow> RvSession \<Rightarrow> RvSession" where
  "punch_recorded now rep oth ok s =
     (let s = seen now rep s in
      s\<lparr>se_punch := set_cell rep oth (if ok \<noteq> 0 then 1 else 0) (se_punch s)\<rparr>)"

definition route_decided :: "u32 \<Rightarrow> nat \<Rightarrow> nat \<Rightarrow> u8 \<Rightarrow> RvSession \<Rightarrow> RvSession" where
  "route_decided now a b route s =
     s\<lparr>se_route_sent := set_cell a b True (set_cell b a True (se_route_sent s)),
       se_route := set_cell a b route (set_cell b a route (se_route s)),
       se_last_relay := (if route = LOBBY_ROUTE_RELAY then now else se_last_relay s)\<rparr>"

definition verdict :: "RvSession \<Rightarrow> nat \<Rightarrow> nat \<Rightarrow> u8" where
  "verdict s a b =
     (if cell (se_punch s) a b \<noteq> 0 \<and> cell (se_punch s) b a \<noteq> 0
      then LOBBY_ROUTE_DIRECT else LOBBY_ROUTE_RELAY)"

definition fan_route :: "RvSession \<Rightarrow> LobbyMsg \<Rightarrow> Packets" where
  "fan_route s m =
     concat (map (\<lambda>p. if pe_used p then emit_msg (pe_public p) m else []) (se_peers s))"

definition report_punch ::
  "u32 \<Rightarrow> LobbyEndpoint \<Rightarrow> nat \<Rightarrow> nat \<Rightarrow> nat \<Rightarrow> nat \<Rightarrow> u8 \<Rightarrow> RvSession \<Rightarrow> RvSession \<times> Packets" where
  "report_punch now src rep oth sa sb ok s =
     (let s = punch_recorded now rep oth ok s;
          a = (if sa < sb then sa else sb); b = (if sa < sb then sb else sa) in
      if cell (se_punch s) a b < 0 \<or> cell (se_punch s) b a < 0 then (s, [])
      else if cell (se_route_sent s) a b then
        (s, emit_msg src (LOBBY_PAIR_ROUTE (of_nat a) (of_nat b) (cell (se_route s) a b)))
      else
        (let route = verdict s a b; s = route_decided now a b route s in
         (s, fan_route s (LOBBY_PAIR_ROUTE (of_nat a) (of_nat b) route))))"

definition do_punch_report ::
  "u32 \<Rightarrow> LobbyEndpoint \<Rightarrow> u16 \<Rightarrow> u8 \<Rightarrow> u8 \<Rightarrow> u8 \<Rightarrow> Rendezvous \<Rightarrow> Rendezvous \<times> Packets" where
  "do_punch_report now src sid slot_a slot_b ok rv =
     (case find_session (rv_sessions rv) sid of
        None \<Rightarrow> (rv, [])
      | Some i \<Rightarrow>
          (let s = rv_sessions rv ! i in
           case peer_of s src of
             None \<Rightarrow> (rv, [])
           | Some rep \<Rightarrow>
               (let sa = unat slot_a; sb = unat slot_b; oth = (if rep = sa then sb else sa) in
                if RV_MAX_PLAYERS \<le> sa \<or> RV_MAX_PLAYERS \<le> sb \<or> sa = sb then (rv, [])
                else if rep \<noteq> sa \<and> rep \<noteq> sb then (rv, [])
                else if \<not> pe_used (se_peers s ! oth) then (rv, [])
                else (let (s, out) = report_punch now src rep oth sa sb ok s in
                      (at_session i (\<lambda>_. s) rv, out)))))"

definition hosts :: "LobbyEndpoint \<Rightarrow> RvSession \<Rightarrow> bool" where
  "hosts src c \<longleftrightarrow>
     se_phase c \<noteq> RV_FREE \<and> pe_used (se_peers c ! 0) \<and> pe_public (se_peers c ! 0) = src"

definition start_session :: "u32 \<Rightarrow> LobbyMsg \<Rightarrow> RvSession \<Rightarrow> RvSession" where
  "start_session now m s =
     (let first = (se_phase s = RV_LOBBY); s = seen now 0 s in
      (if first then s\<lparr>se_phase := RV_STARTING, se_started := now, se_last_relay := now\<rparr> else s)
        \<lparr>se_start := Some m, se_last_refan := now\<rparr>)"

definition do_start ::
  "u32 \<Rightarrow> LobbyEndpoint \<Rightarrow> LobbyMsg \<Rightarrow> Rendezvous \<Rightarrow> Rendezvous \<times> Packets" where
  "do_start now src m rv =
     (case find_index (hosts src) (rv_sessions rv) of
        None \<Rightarrow> (rv, [])
      | Some i \<Rightarrow>
          if se_phase (rv_sessions rv ! i) = RV_RUNNING then (rv, [])
          else (let first = (se_phase (rv_sessions rv ! i) = RV_LOBBY);
                    rv = at_session i (start_session now m) rv in
                (rv, fan_start (rv_sessions rv ! i) (\<not> first))))"

definition ack_start :: "u32 \<Rightarrow> nat \<Rightarrow> RvSession \<Rightarrow> RvSession" where
  "ack_start now p s =
     (let s = seen now p s in
      if se_phase s \<noteq> RV_STARTING then s
      else (let s = s\<lparr>se_peers := (se_peers s)[p := (se_peers s ! p)\<lparr>pe_start_acked := True\<rparr>]\<rparr> in
            if list_ex (\<lambda>p. pe_used p \<and> \<not> pe_start_acked p) (se_peers s) then s
            else s\<lparr>se_phase := RV_RUNNING\<rparr>))"

definition do_start_ack :: "u32 \<Rightarrow> LobbyEndpoint \<Rightarrow> u16 \<Rightarrow> u8 \<Rightarrow> Rendezvous \<Rightarrow> Rendezvous" where
  "do_start_ack now src sid slot rv =
     (case find_session (rv_sessions rv) sid of
        None \<Rightarrow> rv
      | Some i \<Rightarrow>
          (case peer_of (rv_sessions rv ! i) src of
             None \<Rightarrow> rv
           | Some p \<Rightarrow> if slot \<noteq> of_nat p then rv else at_session i (ack_start now p) rv))"

definition do_keepalive :: "u32 \<Rightarrow> LobbyEndpoint \<Rightarrow> u16 \<Rightarrow> Rendezvous \<Rightarrow> Rendezvous" where
  "do_keepalive now src sid rv =
     (case find_session (rv_sessions rv) sid of
        None \<Rightarrow> rv
      | Some i \<Rightarrow>
          (case peer_of (rv_sessions rv ! i) src of
             None \<Rightarrow> rv
           | Some p \<Rightarrow> at_session i (seen now p) rv))"

definition relayed :: "u32 \<Rightarrow> nat \<Rightarrow> RvSession \<Rightarrow> RvSession" where
  "relayed now fs s = (seen now fs s)\<lparr>se_last_relay := now\<rparr>"

definition do_relay ::
  "u32 \<Rightarrow> LobbyEndpoint \<Rightarrow> u16 \<Rightarrow> u8 \<Rightarrow> u8 \<Rightarrow> u8 list \<Rightarrow> Rendezvous \<Rightarrow> Rendezvous \<times> Packets" where
  "do_relay now src sid from_slot to_slot buf rv =
     (case find_session (rv_sessions rv) sid of
        None \<Rightarrow> (rv, [])
      | Some i \<Rightarrow>
          (let s = rv_sessions rv ! i; fs = unat from_slot; ts = unat to_slot in
           if RV_MAX_PLAYERS \<le> fs \<or> RV_MAX_PLAYERS \<le> ts then (rv, [])
           else if \<not> pe_used (se_peers s ! fs) \<or> pe_public (se_peers s ! fs) \<noteq> src then (rv, [])
           else if \<not> pe_used (se_peers s ! ts) then (rv, [])
           else ((at_session i (relayed now fs) rv)\<lparr>rv_forwards := rv_forwards rv + 1\<rparr>,
                 [(pe_public (se_peers s ! ts), buf)])))"

section \<open>Entry points\<close>

definition rv_init :: "u32 \<Rightarrow> u32 \<Rightarrow> Rendezvous" where
  "rv_init now seed =
     \<lparr>rv_sessions = replicate RV_MAX_SESSIONS session_clear,
      rv_rate = replicate RV_RATE_BUCKETS \<lparr>tokens_milli = RV_RATE_BURST * 1000, last_ms = now\<rparr>,
      rv_rng = (if seed \<noteq> 0 then seed else 1), rv_forwards = 0\<rparr>"

definition rv_dispatch ::
  "u32 \<Rightarrow> LobbyEndpoint \<Rightarrow> u8 list \<Rightarrow> LobbyMsg \<Rightarrow> Rendezvous \<Rightarrow> Rendezvous \<times> Packets" where
  "rv_dispatch now src buf m rv = (case m of
       LOBBY_HOST_REQ ver np prv \<Rightarrow> do_host_req now src ver np prv rv
     | LOBBY_JOIN_REQ sid ver prv \<Rightarrow> do_join_req now src sid ver prv rv
     | LOBBY_PUNCH_REPORT sid a b ok \<Rightarrow> do_punch_report now src sid a b ok rv
     | LOBBY_START _ _ _ _ \<Rightarrow> do_start now src m rv
     | LOBBY_START_ACK sid slot \<Rightarrow> (do_start_ack now src sid slot rv, [])
     | LOBBY_KEEPALIVE sid slot \<Rightarrow> (do_keepalive now src sid rv, [])
     | LOBBY_RELAY sid fs ts payload \<Rightarrow> do_relay now src sid fs ts buf rv
     | _ \<Rightarrow> (rv, []))"

definition is_relay :: "LobbyMsg \<Rightarrow> bool" where
  "is_relay m = (case m of LOBBY_RELAY _ _ _ _ \<Rightarrow> True | _ \<Rightarrow> False)"

definition rv_handle ::
  "u32 \<Rightarrow> LobbyEndpoint \<Rightarrow> u8 list \<Rightarrow> Rendezvous \<Rightarrow> Rendezvous \<times> Packets" where
  "rv_handle now src buf rv =
     (case lobby_unpack buf of
        Some (Some m) \<Rightarrow>
          if is_relay m then rv_dispatch now src buf m rv
          else (let (rv, ok) = rate_take rv now (ep_ip src) in
                if ok then rv_dispatch now src buf m rv else (rv, []))
      | _ \<Rightarrow> (rv, []))"

definition has_relay :: "RvSession \<Rightarrow> bool" where
  "has_relay s = list_ex (\<lambda>a. list_ex (\<lambda>b.
     cell (se_route_sent s) a b \<and> cell (se_route s) a b = LOBBY_ROUTE_RELAY) [0..<4]) [0..<4]"

definition refan :: "u32 \<Rightarrow> RvSession \<Rightarrow> RvSession \<times> Packets" where
  "refan now s =
     (if se_phase s = RV_STARTING \<and> RV_START_REFAN_MS \<le> now - se_last_refan s
      then (s\<lparr>se_last_refan := now\<rparr>, fan_start s True) else (s, []))"

definition reap :: "u32 \<Rightarrow> RvSession \<Rightarrow> RvSession" where
  "reap now s =
     (if \<not> has_relay s
      then (if RV_STARTED_EXPIRY_MS < now - se_started s then session_clear else s)
      else (if RV_RELAY_EXPIRY_MS < now - se_last_relay s then session_clear else s))"

definition tick_session :: "u32 \<Rightarrow> RvSession \<Rightarrow> RvSession \<times> Packets" where
  "tick_session now s =
     (if se_phase s = RV_FREE then (s, [])
      else if se_phase s = RV_LOBBY then
        (if RV_LOBBY_EXPIRY_MS < now - se_last_activity s then session_clear else s, [])
      else (let (s, out) = refan now s in (reap now s, out)))"

definition rv_tick :: "u32 \<Rightarrow> Rendezvous \<Rightarrow> Rendezvous \<times> Packets" where
  "rv_tick now rv =
     (rv\<lparr>rv_sessions := map (fst \<circ> tick_session now) (rv_sessions rv)\<rparr>,
      concat (map (snd \<circ> tick_session now) (rv_sessions rv)))"

definition rv_active_sessions :: "Rendezvous \<Rightarrow> nat" where
  "rv_active_sessions rv = length (filter (\<lambda>s. se_phase s \<noteq> RV_FREE) (rv_sessions rv))"

definition rv_relay_forwards :: "Rendezvous \<Rightarrow> u32" where
  "rv_relay_forwards rv = rv_forwards rv"

end
