(* ===== verification/Rv_Inv.thy ===== *)
theory Rv_Inv
  imports Rv_Server
begin

text \<open>
  What holds in every state of the rendezvous server: the session table keeps one live session per
  id, every live session is a well-formed lobby, and the negotiated routes are consistent.  A
  session is seen through its seats (\<open>slots\<close>): which endpoint holds which player slot.
\<close>

section \<open>Tables without duplicates\<close>

definition unique_keys :: "'k option list \<Rightarrow> bool" where
  "unique_keys ks \<longleftrightarrow>
     (\<forall>i < length ks. \<forall>j < length ks. ks ! i \<noteq> None \<longrightarrow> ks ! i = ks ! j \<longrightarrow> i = j)"

lemma unique_keysD:
  "unique_keys ks \<Longrightarrow> i < length ks \<Longrightarrow> j < length ks \<Longrightarrow> ks ! i = Some k \<Longrightarrow> ks ! j = Some k \<Longrightarrow> i = j"
  by (auto simp: unique_keys_def)

lemma unique_keys_add:
  assumes "unique_keys ks" and "Some k \<notin> set ks"
  shows "unique_keys (ks[i := Some k])"
proof -
  have "ks ! j \<noteq> Some k" "Some k \<noteq> ks ! j" if "j < length ks" for j
    using assms(2) that by (metis nth_mem)+
  with assms(1) show ?thesis
    by (auto simp: unique_keys_def nth_list_update_if split: if_splits)
qed

lemma unique_keys_drop:
  assumes "unique_keys ks" and "length ks' = length ks" and "\<And>i. i < length ks \<Longrightarrow> ks' ! i = None \<or> ks' ! i = ks ! i"
  shows "unique_keys ks'"
  using assms unfolding unique_keys_def by metis

lemma unique_keys_replicate_None: "unique_keys (replicate n None)"
  by (simp add: unique_keys_def)

section \<open>Seats\<close>

definition slots :: "RvSession \<Rightarrow> LobbyEndpoint option list" where
  "slots s = map (\<lambda>p. if pe_used p then Some (pe_public p) else None) (se_peers s)"

definition taken :: "'a option list \<Rightarrow> nat" where
  "taken xs = length (filter (\<lambda>x. x \<noteq> None) xs)"

lemma slots_length [simp]: "length (slots s) = length (se_peers s)"
  by (simp add: slots_def)

lemma slots_nth:
  "i < length (se_peers s) \<Longrightarrow> slots s ! i = Some e \<longleftrightarrow> pe_used (se_peers s ! i) \<and> pe_public (se_peers s ! i) = e"
  "i < length (se_peers s) \<Longrightarrow> slots s ! i = None \<longleftrightarrow> \<not> pe_used (se_peers s ! i)"
  by (auto simp: slots_def)

lemma find_index_map: "find_index_from k P (map f xs) = find_index_from k (P \<circ> f) xs"
  by (induction xs arbitrary: k) simp_all

lemma find_index_cong: "(\<And>x. x \<in> set xs \<Longrightarrow> P x = Q x) \<Longrightarrow> find_index_from k P xs = find_index_from k Q xs"
  by (induction xs arbitrary: k) simp_all

lemma peer_of_slots: "peer_of s src = find_index (\<lambda>x. x = Some src) (slots s)"
  unfolding peer_of_def slots_def find_index_map by (rule find_index_cong) auto

lemma free_slot_slots: "find_index (\<lambda>p. \<not> pe_used p) (se_peers s) = find_index (\<lambda>x. x = None) (slots s)"
  unfolding slots_def find_index_map by (rule find_index_cong) auto

interpretation seat: first_fit "\<lambda>x :: LobbyEndpoint option. x = None" "find_index (\<lambda>x. x = None)"
  by (rule find_index_first_fit)

interpretation member: first_fit "\<lambda>x. x = Some src" "find_index (\<lambda>x. x = Some (src :: LobbyEndpoint))"
  for src
  by (rule find_index_first_fit)

lemma peer_of_SomeD: "peer_of s src = Some p \<Longrightarrow> p < length (se_peers s) \<and> slots s ! p = Some src"
  unfolding peer_of_slots using member.search_bound [of src "slots s" p] member.search_free [of src "slots s" p]
  by simp

lemma peer_of_None: "peer_of s src = None \<longleftrightarrow> Some src \<notin> set (slots s)"
  unfolding peer_of_slots by (auto simp: member.search_none_iff)

lemma taken_add: "i < length xs \<Longrightarrow> xs ! i = None \<Longrightarrow> taken (xs[i := Some v]) = Suc (taken xs)"
  using count_update [of i xs "\<lambda>x. x \<noteq> None" "Some v"] by (simp add: taken_def)

subsection \<open>What each operation does to the seats\<close>

lemma slots_seen [simp]: "slots (seen now p s) = slots s"
  by (cases "p < length (se_peers s)")
    (auto simp: slots_def seen_def map_update list_update_same_conv nth_map intro: nth_equalityI)

lemma slots_add_peer [simp]:
  "slot < length (se_peers s) \<Longrightarrow> slots (add_peer now slot src prv s) = (slots s)[slot := Some src]"
  by (simp add: slots_def add_peer_def new_peer_def map_update)

lemma slots_clear [simp]: "slots session_clear = replicate 4 None"
  by (simp add: slots_def session_clear_def peer_zero_def)

lemma slots_new_lobby [simp]: "slots (new_lobby now src sid ver np prv) = [Some src, None, None, None]"
  by (simp add: slots_def new_lobby_def session_clear_def peer_zero_def new_peer_def numeral_eq_Suc)

lemma slots_same: "se_peers s = se_peers t \<Longrightarrow> slots s = slots t"
  by (simp add: slots_def)

lemma slots_punch_recorded [simp]: "slots (punch_recorded now rep oth ok s) = slots s"
  using slots_seen [of now rep s] by (simp add: punch_recorded_def slots_def Let_def)

lemma slots_route_decided [simp]: "slots (route_decided now a b r s) = slots s"
  by (rule slots_same) (simp add: route_decided_def)

lemma slots_report_punch [simp]: "slots (fst (report_punch now src rep oth sa sb ok s)) = slots s"
  by (simp add: report_punch_def Let_def)

lemma slots_start [simp]: "slots (start_session now m s) = slots s"
  using slots_seen [of now 0 s] by (simp add: start_session_def slots_def Let_def)

lemma slots_peer_update:
  "pe_used q = pe_used (se_peers s ! p) \<Longrightarrow> pe_public q = pe_public (se_peers s ! p) \<Longrightarrow>
     slots (s\<lparr>se_peers := (se_peers s)[p := q]\<rparr>) = slots s"
  by (cases "p < length (se_peers s)")
    (auto simp: slots_def map_update list_update_beyond intro!: nth_equalityI simp: nth_list_update)

lemma slots_ack [simp]: "slots (ack_start now p s) = slots s"
  using slots_seen [of now p s]
    slots_peer_update [of "(se_peers (seen now p s) ! p)\<lparr>pe_start_acked := True\<rparr>" "seen now p s" p]
  by (simp add: ack_start_def slots_def Let_def)

lemma slots_relayed [simp]: "slots (relayed now p s) = slots s"
  using slots_seen [of now p s] by (simp add: relayed_def slots_def)

lemma slots_refan [simp]: "slots (fst (refan now s)) = slots s"
  by (simp add: refan_def slots_def)

section \<open>A well-formed session\<close>

text \<open>The membership part: who sits where, and the counter that the join check reads.\<close>

definition members_ok :: "RvSession \<Rightarrow> bool" where
  "members_ok s \<longleftrightarrow>
     se_id s \<noteq> 0 \<and> 2 \<le> unat (se_num_players s) \<and> unat (se_num_players s) \<le> 4
     \<and> unat (se_joined s) = taken (slots s) \<and> unat (se_joined s) \<le> unat (se_num_players s)
     \<and> slots s ! 0 \<noteq> None \<and> unique_keys (slots s)"

text \<open>The life cycle: what each phase says about the START message and its acknowledgements.\<close>

definition phase_ok :: "RvSession \<Rightarrow> bool" where
  "phase_ok s \<longleftrightarrow>
     (se_phase s = RV_LOBBY \<longrightarrow> se_start s = None \<and> list_all (\<lambda>p. \<not> pe_start_acked p) (se_peers s))
     \<and> (se_phase s = RV_STARTING \<or> se_phase s = RV_RUNNING \<longrightarrow>
          (\<exists>seed arena n delay. se_start s = Some (LOBBY_START seed arena n delay)))
     \<and> (se_phase s = RV_RUNNING \<longrightarrow> list_all (\<lambda>p. pe_used p \<longrightarrow> pe_start_acked p) (se_peers s))"

text \<open>The routes: symmetric, and only between two seated players that both reported.\<close>

definition routes_ok :: "RvSession \<Rightarrow> bool" where
  "routes_ok s \<longleftrightarrow> square (se_punch s) \<and> square (se_route_sent s) \<and> square (se_route s)
     \<and> (\<forall>a < 4. \<forall>b < 4.
          cell (se_route_sent s) a b = cell (se_route_sent s) b a
          \<and> cell (se_route s) a b = cell (se_route s) b a
          \<and> (cell (se_route_sent s) a b \<longrightarrow> a \<noteq> b \<and> slots s ! a \<noteq> None
               \<and> 0 \<le> cell (se_punch s) a b \<and> 0 \<le> cell (se_punch s) b a
               \<and> cell (se_route s) a b \<in> {LOBBY_ROUTE_DIRECT, LOBBY_ROUTE_RELAY}))"

definition session_ok :: "RvSession \<Rightarrow> bool" where
  "session_ok s \<longleftrightarrow> length (se_peers s) = 4
     \<and> (se_phase s = RV_FREE \<longrightarrow> s = session_clear)
     \<and> (se_phase s \<noteq> RV_FREE \<longrightarrow> members_ok s \<and> phase_ok s \<and> routes_ok s)"


section \<open>Operations on a session keep it well formed\<close>

lemma cell_set:
  assumes "square m" and "a < 4" and "b < 4" and "i < 4" and "j < 4"
  shows "cell (set_cell a b v m) i j = (if i = a \<and> j = b then v else cell m i j)"
  using assms by (auto simp: cell_def set_cell_def square_def list_all_length nth_list_update)

lemma square_set: "square m \<Longrightarrow> a < 4 \<Longrightarrow> square (set_cell a b v m)"
  by (auto simp: square_def set_cell_def list_all_length nth_list_update)

text \<open>The fields that a well-formed membership reads.\<close>

definition roster :: "RvSession \<Rightarrow> u16 \<times> u8 \<times> u8 \<times> u32 \<times> LobbyEndpoint option list" where
  "roster s = (se_id s, se_num_players s, se_joined s, se_net_version s, slots s)"

lemma roster_eq:
  "roster s = roster t \<longleftrightarrow> se_id s = se_id t \<and> se_num_players s = se_num_players t
     \<and> se_joined s = se_joined t \<and> se_net_version s = se_net_version t \<and> slots s = slots t"
  by (simp add: roster_def)

lemma members_ok_same: "roster s = roster t \<Longrightarrow> members_ok s = members_ok t"
  by (simp add: members_ok_def roster_eq)

lemma roster_seen [simp]: "roster (seen now p s) = roster s"
  by (simp add: roster_eq) (simp add: seen_def)

lemma roster_punch_recorded [simp]: "roster (punch_recorded now rep oth ok s) = roster s"
  by (simp add: roster_eq) (simp add: punch_recorded_def seen_def Let_def)

lemma roster_route_decided [simp]: "roster (route_decided now a b r s) = roster s"
  by (simp add: roster_eq) (simp add: route_decided_def)

lemma roster_report_punch [simp]: "roster (fst (report_punch now src rep oth sa sb ok s)) = roster s"
  by (simp add: report_punch_def Let_def)

lemma roster_start [simp]: "roster (start_session now m s) = roster s"
  by (simp add: roster_eq) (simp add: start_session_def seen_def Let_def)

lemma roster_ack [simp]: "roster (ack_start now p s) = roster s"
  by (simp add: roster_eq) (simp add: ack_start_def seen_def Let_def)

lemma roster_relayed [simp]: "roster (relayed now p s) = roster s"
  by (simp add: roster_eq) (simp add: relayed_def seen_def)

lemma roster_refan [simp]: "roster (fst (refan now s)) = roster s"
  by (simp add: roster_eq) (simp add: refan_def)

lemma members_add_peer:
  assumes "members_ok s" and "length (se_peers s) = 4" and "Some src \<notin> set (slots s)"
    and "se_joined s < se_num_players s" and "slots s ! slot = None" and "slot < 4"
  shows "members_ok (add_peer now slot src prv s)"
proof -
  have "unat (se_joined s + 1) = unat (se_joined s) + 1"
    using assms(1,4) by (intro u8_suc) (simp add: members_ok_def word_less_nat_alt)
  then show ?thesis
    using assms taken_add [of slot "slots s" src] unique_keys_add [of "slots s" src slot]
    by (auto simp: members_ok_def word_less_nat_alt nth_list_update) (simp_all add: add_peer_def)
qed

lemma clamp_players: "2 \<le> unat (clamp_players np) \<and> unat (clamp_players np) \<le> 4"
  by (auto simp: clamp_players_def Let_def word_less_nat_alt)

lemma members_new_lobby: "sid \<noteq> 0 \<Longrightarrow> members_ok (new_lobby now src sid ver np prv)"
  using clamp_players [of np]
  by (auto simp: members_ok_def taken_def unique_keys_def nth_Cons split: nat.splits)
    (auto simp: new_lobby_def)

text \<open>The fields that the life cycle reads.\<close>

definition acks :: "RvSession \<Rightarrow> (bool \<times> bool) list" where
  "acks s = map (\<lambda>p. (pe_used p, pe_start_acked p)) (se_peers s)"

lemma phase_ok_acks:
  "phase_ok s \<longleftrightarrow>
     (se_phase s = RV_LOBBY \<longrightarrow> se_start s = None \<and> list_all (\<lambda>(u, a). \<not> a) (acks s))
     \<and> (se_phase s = RV_STARTING \<or> se_phase s = RV_RUNNING \<longrightarrow>
          (\<exists>seed arena n delay. se_start s = Some (LOBBY_START seed arena n delay)))
     \<and> (se_phase s = RV_RUNNING \<longrightarrow> list_all (\<lambda>(u, a). u \<longrightarrow> a) (acks s))"
  by (simp add: phase_ok_def acks_def list.pred_map comp_def)

lemma acks_seen [simp]: "acks (seen now p s) = acks s"
  by (cases "p < length (se_peers s)")
    (auto simp: acks_def seen_def map_update list_update_same_conv intro: nth_equalityI)

lemma acks_add_peer:
  "slot < length (se_peers s) \<Longrightarrow>
     acks (add_peer now slot src prv s) = (acks s)[slot := (True, snd (acks s ! slot))]"
  by (simp add: acks_def add_peer_def new_peer_def map_update)

lemma phase_seen [simp]: "se_phase (seen now p s) = se_phase s" "se_start (seen now p s) = se_start s"
  by (simp_all add: seen_def)

lemma phase_ok_same:
  "se_phase s = se_phase t \<Longrightarrow> se_start s = se_start t \<Longrightarrow> acks s = acks t \<Longrightarrow> phase_ok s = phase_ok t"
  by (simp add: phase_ok_acks)

lemma phase_ok_seen: "phase_ok (seen now p s) = phase_ok s"
  by (rule phase_ok_same) simp_all

lemma phase_ok_report: "phase_ok (fst (report_punch now src rep oth sa sb ok s)) = phase_ok s"
proof -
  have "phase_ok (punch_recorded now rep oth ok s) = phase_ok s" for s
    using acks_seen [of now rep s]
    by (intro phase_ok_same) (simp_all add: punch_recorded_def Let_def acks_def)
  moreover have "phase_ok (route_decided now a b r s) = phase_ok s" for a b r s
    by (rule phase_ok_same) (simp_all add: route_decided_def acks_def)
  ultimately show ?thesis by (simp add: report_punch_def Let_def)
qed

lemma phase_ok_relayed: "phase_ok (relayed now p s) = phase_ok s"
  using acks_seen [of now p s] by (intro phase_ok_same) (simp_all add: relayed_def acks_def)

lemma phase_ok_refan: "phase_ok (fst (refan now s)) = phase_ok s"
  by (rule phase_ok_same) (simp_all add: refan_def acks_def)

lemma phase_ok_add_peer:
  assumes "phase_ok s" and "se_phase s = RV_LOBBY" and "slot < length (se_peers s)"
  shows "phase_ok (add_peer now slot src prv s)"
proof -
  have "list_all (\<lambda>(u, a). \<not> a) (acks s)" using assms by (simp add: phase_ok_acks)
  then have "list_all (\<lambda>(u, a). \<not> a) ((acks s)[slot := (True, snd (acks s ! slot))])"
    using assms(3) list_all_nthD [of _ "acks s" slot]
    by (intro list_all_update) (auto simp: acks_def)
  moreover have "se_phase (add_peer now slot src prv s) = RV_LOBBY" "se_start (add_peer now slot src prv s) = se_start s"
    using assms(2) by (simp_all add: add_peer_def)
  ultimately show ?thesis
    using assms by (simp add: phase_ok_acks acks_add_peer)
qed

lemma phase_ok_new_lobby: "phase_ok (new_lobby now src sid ver np prv)"
  by (auto simp: phase_ok_def new_lobby_def session_clear_def new_peer_def peer_zero_def
      numeral_eq_Suc)

lemma phase_ok_start:
  assumes "phase_ok s" and "se_phase s \<noteq> RV_FREE" and "se_phase s \<noteq> RV_RUNNING"
  shows "phase_ok (start_session now (LOBBY_START seed arena n delay) s)"
proof -
  have "se_phase (start_session now (LOBBY_START seed arena n delay) s) = RV_STARTING"
    using assms by (cases "se_phase s") (simp_all add: start_session_def Let_def)
  moreover have "se_start (start_session now (LOBBY_START seed arena n delay) s) = Some (LOBBY_START seed arena n delay)"
    by (simp add: start_session_def Let_def)
  ultimately show ?thesis by (simp add: phase_ok_def)
qed

lemma phase_ok_ack:
  assumes "phase_ok s"
  shows "phase_ok (ack_start now p s)"
proof (cases "se_phase s = RV_STARTING")
  case False
  then show ?thesis using assms by (simp add: ack_start_def Let_def phase_ok_seen)
next
  case True
  with assms show ?thesis
    by (auto simp: ack_start_def Let_def phase_ok_def list_all_iff list_ex_iff)
qed

lemma routes_ok_same:
  assumes "se_punch s = se_punch t" and "se_route_sent s = se_route_sent t" and "se_route s = se_route t"
    and "slots s = slots t"
  shows "routes_ok s = routes_ok t"
  using assms by (simp add: routes_ok_def)

lemma routes_frame:
  "se_punch (seen now p s) = se_punch s" "se_route_sent (seen now p s) = se_route_sent s"
  "se_route (seen now p s) = se_route s"
  "se_punch (start_session now m s) = se_punch s" "se_route_sent (start_session now m s) = se_route_sent s"
  "se_route (start_session now m s) = se_route s"
  "se_punch (ack_start now p s) = se_punch s" "se_route_sent (ack_start now p s) = se_route_sent s"
  "se_route (ack_start now p s) = se_route s"
  "se_punch (relayed now p s) = se_punch s" "se_route_sent (relayed now p s) = se_route_sent s"
  "se_route (relayed now p s) = se_route s"
  "se_punch (fst (refan now s)) = se_punch s" "se_route_sent (fst (refan now s)) = se_route_sent s"
  "se_route (fst (refan now s)) = se_route s"
  "se_punch (add_peer now slot src prv s) = se_punch s" "se_route_sent (add_peer now slot src prv s) = se_route_sent s"
  "se_route (add_peer now slot src prv s) = se_route s"
  by (simp_all add: seen_def start_session_def ack_start_def relayed_def refan_def add_peer_def Let_def)

lemma routes_ok_quiet:
  "routes_ok (seen now p s) = routes_ok s" "routes_ok (start_session now m s) = routes_ok s"
  "routes_ok (ack_start now p s) = routes_ok s" "routes_ok (relayed now p s) = routes_ok s"
  "routes_ok (fst (refan now s)) = routes_ok s"
  by (rule routes_ok_same; simp add: routes_frame)+

lemma square_replicate: "square (replicate 4 (replicate 4 v))"
  by (simp add: square_def list_all_iff)

lemma cell_replicate: "a < 4 \<Longrightarrow> b < 4 \<Longrightarrow> cell (replicate 4 (replicate 4 v)) a b = v"
  by (simp add: cell_def)

lemma routes_ok_new_lobby: "routes_ok (new_lobby now src sid ver np prv)"
  by (auto simp: routes_ok_def) (simp_all add: new_lobby_def session_clear_def square_replicate cell_replicate)

lemma routes_ok_add_peer:
  "routes_ok s \<Longrightarrow> slot < length (se_peers s) \<Longrightarrow> length (se_peers s) = 4 \<Longrightarrow>
     routes_ok (add_peer now slot src prv s)"
  unfolding routes_ok_def routes_frame by (auto simp: nth_list_update_if)

lemma routes_ok_punch_recorded:
  assumes "routes_ok s" and "rep < 4" and "oth < 4"
  shows "routes_ok (punch_recorded now rep oth ok s)"
proof -
  have f: "se_punch (punch_recorded now rep oth ok s) = set_cell rep oth (if ok \<noteq> 0 then 1 else 0) (se_punch s)"
    "se_route_sent (punch_recorded now rep oth ok s) = se_route_sent s"
    "se_route (punch_recorded now rep oth ok s) = se_route s"
    by (simp_all add: punch_recorded_def seen_def Let_def)
  show ?thesis
    using assms unfolding routes_ok_def f by (auto simp: cell_set square_set)
qed

lemma verdict_range: "verdict s a b \<in> {LOBBY_ROUTE_DIRECT, LOBBY_ROUTE_RELAY}"
  by (simp add: verdict_def)

lemma routes_ok_decided:
  assumes "routes_ok s" and "a < 4" and "b < 4" and "a \<noteq> b" and "slots s ! a \<noteq> None" and "slots s ! b \<noteq> None"
    and "0 \<le> cell (se_punch s) a b" and "0 \<le> cell (se_punch s) b a"
    and "r \<in> {LOBBY_ROUTE_DIRECT, LOBBY_ROUTE_RELAY}"
  shows "routes_ok (route_decided now a b r s)"
proof -
  have f: "se_punch (route_decided now a b r s) = se_punch s"
    "se_route_sent (route_decided now a b r s) = set_cell a b True (set_cell b a True (se_route_sent s))"
    "se_route (route_decided now a b r s) = set_cell a b r (set_cell b a r (se_route s))"
    by (simp_all add: route_decided_def)
  have sq: "square (se_route_sent s)" "square (se_route s)"
    using assms(1) by (simp_all add: routes_ok_def)
  have sent: "cell (se_route_sent (route_decided now a b r s)) i j
      = (i = a \<and> j = b \<or> i = b \<and> j = a \<or> cell (se_route_sent s) i j)" if "i < 4" "j < 4" for i j
    unfolding f cell_set [OF square_set [OF sq(1) assms(3)] assms(2,3) that]
      cell_set [OF sq(1) assms(3,2) that] by auto
  have route: "cell (se_route (route_decided now a b r s)) i j
      = (if i = a \<and> j = b \<or> i = b \<and> j = a then r else cell (se_route s) i j)" if "i < 4" "j < 4" for i j
    unfolding f cell_set [OF square_set [OF sq(2) assms(3)] assms(2,3) that]
      cell_set [OF sq(2) assms(3,2) that]
    by (cases "i = a \<and> j = b") (simp_all only: if_True if_False simp_thms)
  have "square (se_route_sent (route_decided now a b r s))" "square (se_route (route_decided now a b r s))"
    using sq assms(2,3) by (simp_all add: f square_set)
  then show ?thesis
    using assms unfolding routes_ok_def slots_route_decided f(1)
    by (simp add: sent route) blast
qed

lemma routes_ok_report:
  assumes "routes_ok s" and "sa < 4" and "sb < 4" and "sa \<noteq> sb"
    and "rep = sa \<and> oth = sb \<or> rep = sb \<and> oth = sa"
    and "slots s ! sa \<noteq> None" and "slots s ! sb \<noteq> None"
  shows "routes_ok (fst (report_punch now src rep oth sa sb ok s))"
proof -
  let ?p = "punch_recorded now rep oth ok s"
  have p: "routes_ok ?p" using assms by (intro routes_ok_punch_recorded) auto
  show ?thesis
    using assms p routes_ok_decided [of ?p sa sb "verdict ?p sa sb" now]
      routes_ok_decided [of ?p sb sa "verdict ?p sb sa" now] verdict_range [of ?p]
    by (auto simp: report_punch_def Let_def)
qed

section \<open>Every session operation keeps a well-formed session\<close>

lemma session_okI:
  "length (se_peers s) = 4 \<Longrightarrow> se_phase s \<noteq> RV_FREE \<Longrightarrow> members_ok s \<Longrightarrow> phase_ok s \<Longrightarrow> routes_ok s \<Longrightarrow>
     session_ok s"
  by (simp add: session_ok_def)

lemma session_okD:
  "session_ok s \<Longrightarrow> length (se_peers s) = 4"
  "session_ok s \<Longrightarrow> se_phase s = RV_FREE \<Longrightarrow> s = session_clear"
  "session_ok s \<Longrightarrow> se_phase s \<noteq> RV_FREE \<Longrightarrow> members_ok s"
  "session_ok s \<Longrightarrow> se_phase s \<noteq> RV_FREE \<Longrightarrow> phase_ok s"
  "session_ok s \<Longrightarrow> se_phase s \<noteq> RV_FREE \<Longrightarrow> routes_ok s"
  by (simp_all add: session_ok_def)

lemma peers_length:
  "length (se_peers (seen now p s)) = length (se_peers s)"
  "length (se_peers (fst (report_punch now src rep oth sa sb ok s))) = length (se_peers s)"
  "length (se_peers (start_session now m s)) = length (se_peers s)"
  "length (se_peers (ack_start now p s)) = length (se_peers s)"
  "length (se_peers (relayed now p s)) = length (se_peers s)"
  "length (se_peers (fst (refan now s))) = length (se_peers s)"
  "length (se_peers (add_peer now slot src prv s)) = length (se_peers s)"
  by (simp_all add: seen_def report_punch_def punch_recorded_def route_decided_def start_session_def
      ack_start_def relayed_def refan_def add_peer_def Let_def)

lemma report_phase: "se_phase (fst (report_punch now src rep oth sa sb ok s)) = se_phase s"
  by (simp add: report_punch_def punch_recorded_def route_decided_def Let_def)

lemma ack_phase: "se_phase s \<noteq> RV_FREE \<Longrightarrow> se_phase (ack_start now p s) \<noteq> RV_FREE"
  by (simp add: ack_start_def Let_def)

lemma relayed_phase: "se_phase (relayed now p s) = se_phase s"
  by (simp add: relayed_def)

lemma refan_phase: "se_phase (fst (refan now s)) = se_phase s"
  by (simp add: refan_def)

lemma session_ok_clear: "session_ok session_clear"
  by (simp add: session_ok_def session_clear_def)

lemma session_ok_seen: "session_ok s \<Longrightarrow> se_phase s \<noteq> RV_FREE \<Longrightarrow> session_ok (seen now p s)"
  using members_ok_same [OF roster_seen, of now p s]
  by (intro session_okI) (simp_all add: session_okD peers_length phase_ok_seen routes_ok_quiet)

lemma session_ok_new_lobby: "sid \<noteq> 0 \<Longrightarrow> session_ok (new_lobby now src sid ver np prv)"
  using members_new_lobby phase_ok_new_lobby routes_ok_new_lobby
  by (intro session_okI) (simp_all add: new_lobby_def session_clear_def)

lemma session_ok_add_peer:
  assumes "session_ok s" and "se_phase s = RV_LOBBY" and "Some src \<notin> set (slots s)"
    and "se_joined s < se_num_players s" and "slots s ! slot = None" and "slot < 4"
  shows "session_ok (add_peer now slot src prv s)"
proof -
  have "se_phase s \<noteq> RV_FREE" using assms(2) by simp
  then show ?thesis
    using assms members_add_peer [of s src slot now prv]
    by (intro session_okI)
      (simp_all add: session_okD peers_length phase_ok_add_peer routes_ok_add_peer, simp add: add_peer_def)
qed

lemma session_ok_report:
  assumes "session_ok s" and "se_phase s \<noteq> RV_FREE" and "sa < 4" and "sb < 4" and "sa \<noteq> sb"
    and "rep = sa \<and> oth = sb \<or> rep = sb \<and> oth = sa"
    and "slots s ! sa \<noteq> None" and "slots s ! sb \<noteq> None"
  shows "session_ok (fst (report_punch now src rep oth sa sb ok s))"
  using assms members_ok_same [OF roster_report_punch, of now src rep oth sa sb ok s]
    routes_ok_report [OF session_okD(5) [OF assms(1,2)] assms(3-8), of now src ok]
  by (intro session_okI) (simp_all add: session_okD peers_length phase_ok_report report_phase)

lemma session_ok_start:
  assumes "session_ok s" and "se_phase s \<noteq> RV_FREE" and "se_phase s \<noteq> RV_RUNNING"
  shows "session_ok (start_session now (LOBBY_START seed arena n delay) s)"
  using assms members_ok_same [OF roster_start, of now "LOBBY_START seed arena n delay" s]
    phase_ok_start [OF session_okD(4) [OF assms(1,2)] assms(2,3)]
  by (intro session_okI)
    (simp_all add: session_okD peers_length routes_ok_quiet, simp add: start_session_def Let_def)

lemma session_ok_ack: "session_ok s \<Longrightarrow> se_phase s \<noteq> RV_FREE \<Longrightarrow> session_ok (ack_start now p s)"
  using members_ok_same [OF roster_ack, of now p s]
  by (intro session_okI) (simp_all add: session_okD peers_length routes_ok_quiet phase_ok_ack ack_phase)

lemma session_ok_relayed: "session_ok s \<Longrightarrow> se_phase s \<noteq> RV_FREE \<Longrightarrow> session_ok (relayed now p s)"
  using members_ok_same [OF roster_relayed, of now p s]
  by (intro session_okI)
    (simp_all add: session_okD peers_length routes_ok_quiet phase_ok_relayed, simp add: relayed_def)

lemma session_ok_refan: "session_ok s \<Longrightarrow> se_phase s \<noteq> RV_FREE \<Longrightarrow> session_ok (fst (refan now s))"
  using members_ok_same [OF roster_refan, of now s]
  by (intro session_okI)
    (simp_all add: session_okD peers_length routes_ok_quiet phase_ok_refan, simp add: refan_def)

lemma session_ok_tick: "session_ok s \<Longrightarrow> session_ok (fst (tick_session now s))"
  using session_ok_refan [of s now] session_ok_clear
  by (auto simp: tick_session_def reap_def split: prod.splits)

section \<open>The packet step\<close>

text \<open>
  Everything one packet from \<open>src\<close> can do to one live session.  Each rule carries the
  authorisation that the handler checked.
\<close>

inductive session_step :: "u32 \<Rightarrow> LobbyEndpoint \<Rightarrow> RvSession \<Rightarrow> RvSession \<Rightarrow> bool"
  for now :: u32 and src :: LobbyEndpoint where
  step_seen: "se_phase s \<noteq> RV_FREE \<Longrightarrow> p < 4 \<Longrightarrow> slots s ! p = Some src \<Longrightarrow>
    session_step now src s (seen now p s)"
| step_join: "se_phase s = RV_LOBBY \<Longrightarrow> Some src \<notin> set (slots s) \<Longrightarrow> se_joined s < se_num_players s \<Longrightarrow>
    find_index (\<lambda>x. x = None) (slots s) = Some slot \<Longrightarrow>
    session_step now src s (add_peer now slot src prv s)"
| step_report: "se_phase s \<noteq> RV_FREE \<Longrightarrow> sa < 4 \<Longrightarrow> sb < 4 \<Longrightarrow> sa \<noteq> sb \<Longrightarrow>
    rep = sa \<and> oth = sb \<or> rep = sb \<and> oth = sa \<Longrightarrow> slots s ! rep = Some src \<Longrightarrow> slots s ! oth \<noteq> None \<Longrightarrow>
    session_step now src s (fst (report_punch now src rep oth sa sb ok s))"
| step_start: "se_phase s \<noteq> RV_FREE \<Longrightarrow> se_phase s \<noteq> RV_RUNNING \<Longrightarrow> slots s ! 0 = Some src \<Longrightarrow>
    session_step now src s (start_session now (LOBBY_START seed arena n delay) s)"
| step_ack: "se_phase s \<noteq> RV_FREE \<Longrightarrow> p < 4 \<Longrightarrow> slots s ! p = Some src \<Longrightarrow>
    session_step now src s (ack_start now p s)"
| step_relay: "se_phase s \<noteq> RV_FREE \<Longrightarrow> p < 4 \<Longrightarrow> slots s ! p = Some src \<Longrightarrow>
    session_step now src s (relayed now p s)"

inductive table_step :: "u32 \<Rightarrow> LobbyEndpoint \<Rightarrow> RvSession list \<Rightarrow> RvSession list \<Rightarrow> bool"
  for now :: u32 and src :: LobbyEndpoint where
  table_same: "table_step now src ss ss"
| table_one: "i < length ss \<Longrightarrow> session_step now src (ss ! i) s' \<Longrightarrow> table_step now src ss (ss[i := s'])"
| table_open: "i < length ss \<Longrightarrow> se_phase (ss ! i) = RV_FREE \<Longrightarrow> sid \<noteq> 0 \<Longrightarrow> find_session ss sid = None \<Longrightarrow>
    \<forall>c \<in> set ss. \<not> hosted_lobby src c \<Longrightarrow>
    table_step now src ss (ss[i := new_lobby now src sid ver np prv])"

inductive_cases session_stepE: "session_step now src s s'"
inductive_cases table_stepE: "table_step now src ss ss'"

lemma find_session_SomeD:
  "find_session ss sid = Some i \<Longrightarrow> i < length ss \<and> se_phase (ss ! i) \<noteq> RV_FREE \<and> se_id (ss ! i) = sid \<and> sid \<noteq> 0"
  by (auto simp: find_session_def dest: find_index_SomeD split: if_splits)

lemma at_session_table: "rv_sessions (at_session i f rv) = (rv_sessions rv)[i := f (rv_sessions rv ! i)]"
  by (simp add: at_session_def)

lemma pick_id_fresh: "pick_id ss n rng = (rng', sid) \<Longrightarrow> sid \<noteq> 0 \<Longrightarrow> find_session ss sid = None"
  by (induction ss n rng arbitrary: rng' sid rule: pick_id.induct) (auto simp: Let_def split: if_splits)

lemma find_index_NoneD: "find_index P xs = None \<Longrightarrow> \<forall>x \<in> set xs. \<not> P x"
  by (simp add: find_index_from_None)

lemma host_table:
  assumes "list_all session_ok (rv_sessions rv)"
  shows "table_step now src (rv_sessions rv) (rv_sessions (fst (do_host_req now src ver np prv rv)))"
proof (cases "find_index (hosted_lobby src) (rv_sessions rv)")
  case (Some i)
  then have i: "i < length (rv_sessions rv)" "hosted_lobby src (rv_sessions rv ! i)"
    by (auto dest: find_index_SomeD)
  then have "length (se_peers (rv_sessions rv ! i)) = 4"
    using assms by (auto dest: list_all_nthD session_okD(1))
  then have "session_step now src (rv_sessions rv ! i) (seen now 0 (rv_sessions rv ! i))"
    using i(2) by (intro step_seen) (auto simp: hosted_lobby_def slots_nth)
  then show ?thesis
    using Some i(1) table_one by (simp add: do_host_req_def at_session_table Let_def)
next
  case None
  then show ?thesis
    using pick_id_fresh [of "rv_sessions rv" 4096 "rv_rng rv"]
    by (auto simp: do_host_req_def at_session_table table_same Let_def find_index_from_None
        intro!: table_open dest: find_index_SomeD split: option.splits prod.splits)
qed

lemma live_session:
  assumes "list_all session_ok (rv_sessions rv)" and "find_session (rv_sessions rv) sid = Some i"
  shows "i < length (rv_sessions rv)" and "se_phase (rv_sessions rv ! i) \<noteq> RV_FREE"
    and "length (se_peers (rv_sessions rv ! i)) = 4"
  using find_session_SomeD [OF assms(2)] assms(1) by (auto dest: list_all_nthD session_okD(1))

lemma join_table:
  assumes "list_all session_ok (rv_sessions rv)"
  shows "table_step now src (rv_sessions rv) (rv_sessions (fst (do_join_req now src sid ver prv rv)))"
  using live_session [OF assms]
  by (auto simp: do_join_req_def at_session_table table_same Let_def peer_of_None not_le free_slot_slots
      intro!: table_one step_seen step_join dest!: peer_of_SomeD split: option.splits)

lemma report_table:
  assumes "list_all session_ok (rv_sessions rv)"
  shows "table_step now src (rv_sessions rv) (rv_sessions (fst (do_punch_report now src sid a b ok rv)))"
  using live_session [OF assms]
  by (auto simp: do_punch_report_def at_session_table table_same Let_def not_le case_prod_unfold rv_sizes slots_nth
      intro!: table_one step_report dest!: peer_of_SomeD split: option.splits)

lemma start_table:
  assumes "list_all session_ok (rv_sessions rv)"
  shows "table_step now src (rv_sessions rv)
     (rv_sessions (fst (do_start now src (LOBBY_START seed arena n delay) rv)))"
proof (cases "find_index (hosts src) (rv_sessions rv)")
  case (Some i)
  then have i: "i < length (rv_sessions rv)" "hosts src (rv_sessions rv ! i)"
    by (auto dest: find_index_SomeD)
  then have "length (se_peers (rv_sessions rv ! i)) = 4"
    using assms by (auto dest: list_all_nthD session_okD(1))
  then show ?thesis
    using Some i
    by (auto simp: do_start_def at_session_table table_same Let_def hosts_def slots_nth
        intro!: table_one step_start)
qed (simp add: do_start_def table_same)

lemma ack_table:
  assumes "list_all session_ok (rv_sessions rv)"
  shows "table_step now src (rv_sessions rv) (rv_sessions (do_start_ack now src sid slot rv))"
  using live_session [OF assms]
  by (auto simp: do_start_ack_def at_session_table table_same
      intro!: table_one step_ack dest!: peer_of_SomeD split: option.splits)

lemma keepalive_table:
  assumes "list_all session_ok (rv_sessions rv)"
  shows "table_step now src (rv_sessions rv) (rv_sessions (do_keepalive now src sid rv))"
  using live_session [OF assms]
  by (auto simp: do_keepalive_def at_session_table table_same
      intro!: table_one step_seen dest!: peer_of_SomeD split: option.splits)

lemma relay_table:
  assumes "list_all session_ok (rv_sessions rv)"
  shows "table_step now src (rv_sessions rv) (rv_sessions (fst (do_relay now src sid fs ts buf rv)))"
  using live_session [OF assms]
  by (auto simp: do_relay_def at_session_table table_same Let_def not_le rv_sizes slots_nth
      intro!: table_one step_relay split: option.splits)

lemma rate_take_table [simp]: "rv_sessions (fst (rate_take rv now ip)) = rv_sessions rv"
  by (simp add: rate_take_def Let_def split: prod.splits)

lemma dispatch_table:
  "list_all session_ok (rv_sessions rv) \<Longrightarrow>
     table_step now src (rv_sessions rv) (rv_sessions (fst (rv_dispatch now src buf m rv)))"
  by (cases m)
    (simp_all add: rv_dispatch_def table_same host_table join_table report_table start_table
      ack_table keepalive_table relay_table)

theorem handle_table:
  "list_all session_ok (rv_sessions rv) \<Longrightarrow>
     table_step now src (rv_sessions rv) (rv_sessions (fst (rv_handle now src buf rv)))"
  using dispatch_table [of rv] dispatch_table [of "fst (rate_take rv now (ep_ip src))"]
  by (auto simp: rv_handle_def table_same case_prod_unfold Let_def split: option.splits)

section \<open>The whole server\<close>

lemma session_step_ok: "session_step now src s s' \<Longrightarrow> session_ok s \<Longrightarrow> session_ok s'"
proof (induction rule: session_step.induct)
  case (step_join s slot prv)
  then have "slot < 4 \<and> slots s ! slot = None"
    using seat.search_bound [of "slots s" slot] seat.search_free [of "slots s" slot] by (simp add: session_okD)
  with step_join show ?case by (intro session_ok_add_peer) auto
next
  case (step_report s sa sb rep oth ok)
  then show ?case by (intro session_ok_report) auto
qed (simp_all add: session_ok_seen session_ok_start session_ok_ack session_ok_relayed)

definition session_key :: "RvSession \<Rightarrow> u16 option" where
  "session_key s = (if se_phase s = RV_FREE then None else Some (se_id s))"

lemma session_key_clear: "session_key session_clear = None"
  by (simp add: session_key_def session_clear_def)

lemma session_key_eq:
  "roster s' = roster s \<Longrightarrow> se_phase s \<noteq> RV_FREE \<Longrightarrow> se_phase s' \<noteq> RV_FREE \<Longrightarrow> session_key s' = session_key s"
  by (simp add: session_key_def roster_eq)

lemma session_step_key: "session_step now src s s' \<Longrightarrow> session_key s' = session_key s"
proof (induction rule: session_step.induct)
  case step_join
  then show ?case by (simp add: session_key_def add_peer_def)
next
  case step_start
  then show ?case by (intro session_key_eq roster_start) (simp_all add: start_session_def Let_def)
qed (intro session_key_eq; simp add: report_phase ack_phase relayed_phase)+

lemma session_step_live: "session_step now src s s' \<Longrightarrow> se_phase s' \<noteq> RV_FREE"
  by (induction rule: session_step.induct)
    (simp_all add: report_phase ack_phase relayed_phase, simp_all add: add_peer_def start_session_def Let_def)

lemma fresh_key:
  assumes "find_session ss sid = None" and "sid \<noteq> 0"
  shows "Some sid \<notin> set (map session_key ss)"
  using assms by (auto simp: find_session_def session_key_def find_index_from_None split: if_splits)

definition table_ok :: "RvSession list \<Rightarrow> bool" where
  "table_ok ss \<longleftrightarrow> length ss = 64 \<and> list_all session_ok ss \<and> unique_keys (map session_key ss)"

lemma find_session_unique:
  assumes "table_ok ss" and "i < 64" and "se_phase (ss ! i) \<noteq> RV_FREE"
  shows "find_session ss (se_id (ss ! i)) = Some i"
proof -
  have "session_ok (ss ! i)" "i < length ss" using assms(1,2) by (auto simp: table_ok_def dest: list_all_nthD)
  then have "se_id (ss ! i) \<noteq> 0" using assms(3) session_okD(3) by (auto simp: members_ok_def)
  then obtain k where k: "find_session ss (se_id (ss ! i)) = Some k"
    using \<open>i < length ss\<close> assms(3)
    by (cases "find_session ss (se_id (ss ! i))")
      (auto simp: find_session_def find_index_from_None split: if_splits)
  note found = find_session_SomeD [OF k]
  have "k = i"
    using assms found \<open>i < length ss\<close> unique_keysD [of "map session_key ss" k i "se_id (ss ! i)"]
    by (auto simp: table_ok_def session_key_def)
  with k show ?thesis by simp
qed

lemma table_step_ok: "table_step now src ss ss' \<Longrightarrow> table_ok ss \<Longrightarrow> table_ok ss'"
proof (induction rule: table_step.induct)
  case (table_same ss)
  then show ?case .
next
  case (table_one i ss s')
  then have "map session_key (ss[i := s']) = map session_key ss"
    using session_step_key [OF table_one(2)] by (simp add: map_update list_update_same_conv)
  moreover have "session_ok s'"
    using table_one session_step_ok by (auto simp: table_ok_def dest: list_all_nthD)
  ultimately show ?case
    using table_one by (simp add: table_ok_def list_all_update)
next
  case (table_open i ss sid ver np prv)
  moreover have "session_key (new_lobby now src sid ver np prv) = Some sid"
    by (simp add: session_key_def new_lobby_def)
  ultimately show ?case
    using unique_keys_add [of "map session_key ss" sid i] fresh_key [of ss sid]
    by (simp add: table_ok_def map_update list_all_update session_ok_new_lobby)
qed

lemma tick_session_cases:
  "fst (tick_session now s) = session_clear \<or> fst (tick_session now s) = s
     \<or> se_phase s \<noteq> RV_FREE \<and> fst (tick_session now s) = fst (refan now s)"
  by (simp add: tick_session_def reap_def case_prod_unfold Let_def)

lemma table_tick_ok:
  assumes "table_ok ss"
  shows "table_ok (map (fst \<circ> tick_session now) ss)"
proof -
  have "session_key (fst (tick_session now s)) = None \<or> session_key (fst (tick_session now s)) = session_key s" for s
    using tick_session_cases [of now s]
    by (metis session_key_clear session_key_eq [OF roster_refan] refan_phase)
  then have "unique_keys (map session_key (map (fst \<circ> tick_session now) ss))"
    using assms unique_keys_drop [of "map session_key ss" "map session_key (map (fst \<circ> tick_session now) ss)"]
    by (simp add: table_ok_def)
  with assms show ?thesis
    by (auto simp: table_ok_def list_all_iff session_ok_tick)
qed

definition limiter_ok :: "RvRateBucket list \<Rightarrow> bool" where
  "limiter_ok bs \<longleftrightarrow> length bs = 256 \<and> list_all (\<lambda>b. unat (tokens_milli b) \<le> 40000) bs"

lemma bucket_refill_cap: "unat (tokens_milli (bucket_refill now b)) \<le> 40000"
  by (auto simp: bucket_refill_def Let_def RV_RATE_BURST_def word_less_nat_alt)

lemma bucket_take_cap: "unat (tokens_milli (fst (bucket_take now b))) \<le> 40000"
  using bucket_refill_cap [of now b]
  by (auto simp: bucket_take_def Let_def word_less_nat_alt unat_sub_if' split: if_splits)

lemma limiter_take_ok: "limiter_ok (rv_rate rv) \<Longrightarrow> limiter_ok (rv_rate (fst (rate_take rv now ip)))"
  by (auto simp: limiter_ok_def rate_take_def Let_def bucket_take_cap intro!: list_all_update
      split: prod.splits) (metis bucket_take_cap fst_conv)

definition rv_ok :: "Rendezvous \<Rightarrow> bool" where
  "rv_ok rv \<longleftrightarrow> table_ok (rv_sessions rv) \<and> limiter_ok (rv_rate rv) \<and> rv_rng rv \<noteq> 0"

lemma pick_id_rng: "rng \<noteq> 0 \<Longrightarrow> fst (pick_id ss n rng) \<noteq> 0"
  by (induction ss n rng rule: pick_id.induct) (auto simp: Let_def xs32_def xorshift32_nonzero)

lemma dispatch_frame:
  "rv_rate (fst (rv_dispatch now src buf m rv)) = rv_rate rv"
  "rv_rng rv \<noteq> 0 \<Longrightarrow> rv_rng (fst (rv_dispatch now src buf m rv)) \<noteq> 0"
  using pick_id_rng [of "rv_rng rv" "rv_sessions rv" 4096]
  by (auto simp: rv_dispatch_def do_host_req_def do_join_req_def do_punch_report_def do_start_def
      do_start_ack_def do_keepalive_def do_relay_def at_session_def Let_def
      split: LobbyMsg.splits option.splits prod.splits)

lemma rate_take_rng [simp]: "rv_rng (fst (rate_take rv now ip)) = rv_rng rv"
  by (simp add: rate_take_def Let_def split: prod.splits)

lemma rv_handle_ok: "rv_ok rv \<Longrightarrow> rv_ok (fst (rv_handle now src buf rv))"
  using handle_table [of rv now src buf] table_step_ok limiter_take_ok [of rv now "ep_ip src"]
  by (auto simp: rv_ok_def table_ok_def rv_handle_def dispatch_frame case_prod_unfold Let_def
      split: option.splits)

lemma rv_tick_ok: "rv_ok rv \<Longrightarrow> rv_ok (fst (rv_tick now rv))"
  by (simp add: rv_ok_def rv_tick_def table_tick_ok)

lemma rv_init_ok: "rv_ok (rv_init now seed)"
  by (auto simp: rv_ok_def rv_init_def table_ok_def limiter_ok_def rv_sizes session_ok_clear list_all_iff
      session_key_clear unique_keys_replicate_None RV_RATE_BURST_def)

datatype RvEvent = Datagram u32 LobbyEndpoint "u8 list" | Clock u32

fun rv_step :: "RvEvent \<Rightarrow> Rendezvous \<Rightarrow> Rendezvous" where
  "rv_step (Datagram now src buf) rv = fst (rv_handle now src buf rv)"
| "rv_step (Clock now) rv = fst (rv_tick now rv)"

interpretation server: invariant_machine "\<lambda>rv. \<exists>now seed. rv = rv_init now seed" rv_step "\<lambda>_. True" rv_ok
proof unfold_locales
  show "rv_ok rv" if "\<exists>now seed. rv = rv_init now seed" for rv
    using that rv_init_ok by blast
  show "rv_ok (rv_step e rv)" if "rv_ok rv" for e rv
    using that by (cases e) (simp_all add: rv_handle_ok rv_tick_ok)
qed

definition rv_reached :: "Rendezvous \<Rightarrow> bool" where
  "rv_reached rv \<longleftrightarrow> (\<exists>now seed es. rv = fold rv_step es (rv_init now seed))"

lemma rv_reached_ok: "rv_reached rv \<Longrightarrow> rv_ok rv"
  unfolding rv_reached_def using server.inv_reached by (fastforce simp: list_all_iff)

end
