(* ===== verification/Rv_Example.thy ===== *)
theory Rv_Example
  imports Rv_Inv
begin

text \<open>
  A run of the rendezvous server on concrete datagrams: a two-player match is hosted, joined,
  punched, started and acknowledged, and the host opens its next lobby while the first match is
  still running.  The rate limiter never interferes with the first forty datagrams, so the run is
  computed on the session table alone.
\<close>

section \<open>The first forty datagrams pass the limiter\<close>

definition credit :: "nat \<Rightarrow> Rendezvous \<Rightarrow> bool" where
  "credit n rv \<longleftrightarrow> length (rv_rate rv) = 256
     \<and> list_all (\<lambda>b. 1000 * n \<le> unat (tokens_milli b) \<and> unat (tokens_milli b) \<le> 40000) (rv_rate rv)"

lemma unat_times_20: "unat (d :: u32) \<le> 2000 \<Longrightarrow> unat (d * 20) = unat d * 20"
  by (simp add: unat_word_ariths(2))

lemma refill_keeps:
  assumes "unat (tokens_milli b) \<le> 40000"
  shows "unat (tokens_milli b) \<le> unat (tokens_milli (bucket_refill now b))"
proof (cases "2000 < now - last_ms b")
  case True
  with assms show ?thesis by (simp add: bucket_refill_def RV_RATE_BURST_def RV_RATE_PER_SEC_def)
next
  case False
  then have dt: "unat (now - last_ms b) \<le> 2000" by (simp add: word_less_nat_alt)
  have m: "unat ((now - last_ms b) * 20) = unat (now - last_ms b) * 20"
    using dt by (rule unat_times_20)
  have "unat (tokens_milli b + (now - last_ms b) * 20) = unat (tokens_milli b) + unat (now - last_ms b) * 20"
    using dt m assms by (simp add: unat_word_ariths(1))
  with False assms show ?thesis
    by (auto simp: bucket_refill_def RV_RATE_BURST_def RV_RATE_PER_SEC_def word_less_nat_alt Let_def)
qed

lemma bucket_take_credit:
  assumes "1000 * Suc n \<le> unat (tokens_milli b)" and "unat (tokens_milli b) \<le> 40000"
  shows "snd (bucket_take now b)" and "1000 * n \<le> unat (tokens_milli (fst (bucket_take now b)))"
  using assms refill_keeps [OF assms(2), of now]
  by (auto simp: bucket_take_def Let_def word_less_nat_alt unat_sub_if' split: if_splits)

lemma rate_take_credit:
  assumes "credit (Suc n) rv"
  shows "snd (rate_take rv now ip)" and "credit n (fst (rate_take rv now ip))"
proof -
  let ?k = "unat ip mod 256"
  have k: "1000 * Suc n \<le> unat (tokens_milli (rv_rate rv ! ?k))" "unat (tokens_milli (rv_rate rv ! ?k)) \<le> 40000"
    using assms list_all_nthD [of _ "rv_rate rv" ?k] by (auto simp: credit_def)
  show "snd (rate_take rv now ip)"
    using bucket_take_credit(1) [OF k] by (simp add: rate_take_def rv_sizes Let_def case_prod_unfold)
  have "list_all (\<lambda>b. 1000 * n \<le> unat (tokens_milli b) \<and> unat (tokens_milli b) \<le> 40000) (rv_rate rv)"
    using assms by (auto simp: credit_def list_all_iff)
  then show "credit n (fst (rate_take rv now ip))"
    using assms bucket_take_credit(2) [OF k] bucket_take_cap
    by (simp add: credit_def rate_take_def rv_sizes Let_def case_prod_unfold list_all_update)
qed

lemma init_credit: "credit 40 (rv_init now seed)"
  by (simp add: credit_def rv_init_def rv_sizes RV_RATE_BURST_def list_all_iff)

section \<open>The run\<close>

abbreviation host_ep :: LobbyEndpoint where "host_ep \<equiv> \<lparr>ep_ip = 0x0A000001, ep_port = 5000\<rparr>"
abbreviation guest_ep :: LobbyEndpoint where "guest_ep \<equiv> \<lparr>ep_ip = 0x0A000002, ep_port = 5001\<rparr>"

definition packet_of :: "LobbyMsg \<Rightarrow> u8 list" where
  "packet_of m = (case lobby_pack m of None \<Rightarrow> [] | Some b \<Rightarrow> b)"

lemma unpack_packet_of: "length (payload_of m) \<le> 1024 \<Longrightarrow> lobby_unpack (packet_of m) = Some (Some m)"
  using pack_defined [of m] pack_read_back [of m _ "[]"] by (auto simp: packet_of_def)

definition example_events :: "(u32 \<times> LobbyEndpoint \<times> LobbyMsg) list" where
  "example_events =
     [(100, host_ep, LOBBY_HOST_REQ 7 2 host_ep), (200, guest_ep, LOBBY_JOIN_REQ 8225 7 guest_ep),
      (300, host_ep, LOBBY_PUNCH_REPORT 8225 0 1 1), (400, guest_ep, LOBBY_PUNCH_REPORT 8225 0 1 1),
      (500, host_ep, LOBBY_START 99 0 2 3), (600, guest_ep, LOBBY_START_ACK 8225 1),
      (700, host_ep, LOBBY_START_ACK 8225 0), (800, host_ep, LOBBY_HOST_REQ 7 2 host_ep)]"

fun play :: "Rendezvous \<Rightarrow> (u32 \<times> LobbyEndpoint \<times> LobbyMsg) list \<Rightarrow> Rendezvous" where
  "play rv [] = rv"
| "play rv ((now, src, m) # es) = play (fst (rv_handle now src (packet_of m) rv)) es"

lemma play_reached: "rv_reached rv \<Longrightarrow> rv_reached (play rv es)"
proof (induction rv es rule: play.induct)
  case (2 rv now src m es)
  from \<open>rv_reached rv\<close> obtain t seed evs where "rv = fold rv_step evs (rv_init t seed)"
    by (auto simp: rv_reached_def)
  then have "fst (rv_handle now src (packet_of m) rv) = fold rv_step (evs @ [Datagram now src (packet_of m)]) (rv_init t seed)"
    by simp
  then have "rv_reached (fst (rv_handle now src (packet_of m) rv))"
    unfolding rv_reached_def by blast
  then show ?case using 2 by simp
qed simp

definition example_server :: "nat \<Rightarrow> Rendezvous" where
  "example_server n = play (rv_init 0 1) (take n example_events)"

lemma example_reached: "rv_reached (example_server n)"
proof -
  have "rv_reached (rv_init 0 1)"
    unfolding rv_reached_def by (intro exI [of _ 0] exI [of _ 1] exI [of _ "[]"]) simp
  then show ?thesis unfolding example_server_def by (rule play_reached)
qed

text \<open>On the session table and the id generator, an unthrottled datagram is its dispatch.\<close>

definition bare :: "RvSession list \<Rightarrow> u32 \<Rightarrow> Rendezvous" where
  "bare ss rng = \<lparr>rv_sessions = ss, rv_rate = [], rv_rng = rng, rv_forwards = 0\<rparr>"

lemma bare_frame: "rv_sessions (bare ss rng) = ss" "rv_rng (bare ss rng) = rng"
  by (simp_all add: bare_def)

lemma dispatch_bare:
  "rv_sessions (fst (rv_dispatch now src buf m rv)) = rv_sessions (fst (rv_dispatch now src buf m (bare (rv_sessions rv) (rv_rng rv))))"
  "rv_rng (fst (rv_dispatch now src buf m rv)) = rv_rng (fst (rv_dispatch now src buf m (bare (rv_sessions rv) (rv_rng rv))))"
  by (cases m; simp add: rv_dispatch_def do_host_req_def do_join_req_def do_punch_report_def do_start_def
      do_start_ack_def do_keepalive_def do_relay_def at_session_def bare_frame Let_def
      split: option.split prod.split)+

fun play_bare :: "RvSession list \<times> u32 \<Rightarrow> (u32 \<times> LobbyEndpoint \<times> LobbyMsg) list \<Rightarrow> RvSession list \<times> u32" where
  "play_bare t [] = t"
| "play_bare t ((now, src, m) # es) =
     (let rv = fst (rv_dispatch now src [] m (bare (fst t) (snd t))) in
      play_bare (rv_sessions rv, rv_rng rv) es)"

lemma dispatch_no_relay: "\<not> is_relay m \<Longrightarrow> rv_dispatch now src buf m rv = rv_dispatch now src [] m rv"
  by (cases m) (simp_all add: rv_dispatch_def is_relay_def)

lemma handle_unthrottled:
  assumes "credit (Suc n) rv" and "\<not> is_relay m" and "length (payload_of m) \<le> 1024"
  shows "credit n (fst (rv_handle now src (packet_of m) rv))"
    and "rv_handle now src (packet_of m) rv = rv_dispatch now src [] m (fst (rate_take rv now (ep_ip src)))"
proof -
  show *: "rv_handle now src (packet_of m) rv = rv_dispatch now src [] m (fst (rate_take rv now (ep_ip src)))"
    using assms unpack_packet_of [of m] rate_take_credit(1) [OF assms(1)]
    by (simp add: rv_handle_def case_prod_unfold Let_def dispatch_no_relay [of m now src "packet_of m"])
  show "credit n (fst (rv_handle now src (packet_of m) rv))"
    using rate_take_credit(2) [OF assms(1), of now "ep_ip src"]
    by (simp add: * credit_def dispatch_frame)
qed

lemma play_unthrottled:
  assumes "credit (length es) rv" and "list_all (\<lambda>(now, src, m). \<not> is_relay m \<and> length (payload_of m) \<le> 1024) es"
  shows "(rv_sessions (play rv es), rv_rng (play rv es)) = play_bare (rv_sessions rv, rv_rng rv) es"
  using assms
proof (induction rv es rule: play.induct)
  case (2 rv now src m es)
  let ?rv = "fst (rv_handle now src (packet_of m) rv)"
  have ok: "credit (Suc (length es)) rv" "\<not> is_relay m" "length (payload_of m) \<le> 1024"
    using "2.prems" by simp_all
  note step = handle_unthrottled [OF ok, of now src]
  have "(rv_sessions (play ?rv es), rv_rng (play ?rv es)) = play_bare (rv_sessions ?rv, rv_rng ?rv) es"
    using "2.prems"(2) step(1) by (intro "2.IH") auto
  moreover have "rv_sessions ?rv = rv_sessions (fst (rv_dispatch now src [] m (bare (rv_sessions rv) (rv_rng rv))))"
    "rv_rng ?rv = rv_rng (fst (rv_dispatch now src [] m (bare (rv_sessions rv) (rv_rng rv))))"
    using dispatch_bare [of now src "[]" m "fst (rate_take rv now (ep_ip src))"] by (simp_all add: step(2))
  ultimately show ?case by (simp add: Let_def)
qed simp

lemma example_sessions:
  "n \<le> 8 \<Longrightarrow> (rv_sessions (example_server n), rv_rng (example_server n))
     = play_bare (replicate 64 session_clear, 1) (take n example_events)"
proof -
  assume "n \<le> 8"
  have "credit 40 (rv_init 0 1)" by (rule init_credit)
  then have "credit (length (take n example_events)) (rv_init 0 1)"
    using \<open>n \<le> 8\<close> by (auto simp: credit_def list_all_iff example_events_def)
  moreover have "list_all (\<lambda>(now, src, m). \<not> is_relay m \<and> length (payload_of m) \<le> 1024) example_events"
    by (simp add: example_events_def is_relay_def payload_of_def)
  then have "list_all (\<lambda>(now, src, m). \<not> is_relay m \<and> length (payload_of m) \<le> 1024) (take n example_events)"
    by (auto simp: list_all_iff dest: in_set_takeD)
  ultimately show ?thesis
    using play_unthrottled [of "take n example_events" "rv_init 0 1"]
    by (simp add: example_server_def) (simp add: rv_init_def rv_sizes)
qed

text \<open>What the run leaves in the first two sessions of the table.\<close>

lemma run_4:
  "(case play_bare (replicate 64 session_clear, 1) (take 4 example_events) of (ss, r) \<Rightarrow>
     (se_id (ss ! 0), se_phase (ss ! 0), slots (ss ! 0), se_joined (ss ! 0),
      cell (se_route_sent (ss ! 0)) 0 1, cell (se_route (ss ! 0)) 0 1))
   = (8225, RV_LOBBY, [Some host_ep, Some guest_ep, None, None], 2, True, LOBBY_ROUTE_DIRECT)"
  by code_simp

lemma run_3:
  "(case play_bare (replicate 64 session_clear, 1) (take 3 example_events) of (ss, r) \<Rightarrow>
     (se_phase (ss ! 0), slots (ss ! 0), cell (se_route_sent (ss ! 0)) 0 1, cell (se_punch (ss ! 0)) 0 1))
   = (RV_LOBBY, [Some host_ep, Some guest_ep, None, None], False, 1)"
  by code_simp

lemma run_8:
  "(case play_bare (replicate 64 session_clear, 1) (take 8 example_events) of (ss, r) \<Rightarrow>
     (se_id (ss ! 0), se_phase (ss ! 0), slots (ss ! 0),
      se_id (ss ! 1), se_phase (ss ! 1), slots (ss ! 1)))
   = (8225, RV_RUNNING, [Some host_ep, Some guest_ep, None, None],
      1537, RV_LOBBY, [Some host_ep, None, None, None])"
  by code_simp

lemma example_3: "se_phase (rv_sessions (example_server 3) ! 0) = RV_LOBBY"
  "slots (rv_sessions (example_server 3) ! 0) = [Some host_ep, Some guest_ep, None, None]"
  "\<not> cell (se_route_sent (rv_sessions (example_server 3) ! 0)) 0 1"
  using run_3 by (simp_all flip: example_sessions)

lemma example_4: "se_id (rv_sessions (example_server 4) ! 0) = 8225"
  "se_phase (rv_sessions (example_server 4) ! 0) = RV_LOBBY"
  "slots (rv_sessions (example_server 4) ! 0) = [Some host_ep, Some guest_ep, None, None]"
  "se_joined (rv_sessions (example_server 4) ! 0) = 2"
  "cell (se_route_sent (rv_sessions (example_server 4) ! 0)) 0 1"
  "cell (se_route (rv_sessions (example_server 4) ! 0)) 0 1 = LOBBY_ROUTE_DIRECT"
  using run_4 by (simp_all flip: example_sessions)

lemma example_8: "se_id (rv_sessions (example_server 8) ! 0) = 8225"
  "se_phase (rv_sessions (example_server 8) ! 0) = RV_RUNNING"
  "slots (rv_sessions (example_server 8) ! 0) = [Some host_ep, Some guest_ep, None, None]"
  "se_id (rv_sessions (example_server 8) ! 1) = 1537"
  "se_phase (rv_sessions (example_server 8) ! 1) = RV_LOBBY"
  "slots (rv_sessions (example_server 8) ! 1) = [Some host_ep, None, None, None]"
  using run_8 by (simp_all flip: example_sessions)

end
