(* ===== verification/Rv_Limits.thy ===== *)
theory Rv_Limits
  imports Rv_Example
begin

text \<open>
  What protects the rendezvous server and its victims: the bytes sent in answer to one datagram
  are bounded, and so is the number of datagrams per source that get past the token bucket.  The
  last section records a lobby that the server refuses to start.
\<close>

section \<open>Bytes per datagram\<close>

definition total_bytes :: "Packets \<Rightarrow> nat" where
  "total_bytes ps = sum_list (map (\<lambda>p. length (snd p)) ps)"

lemma total_simps [simp]:
  "total_bytes [] = 0" "total_bytes (p # ps) = length (snd p) + total_bytes ps"
  "total_bytes (ps @ qs) = total_bytes ps + total_bytes qs"
  by (simp_all add: total_bytes_def)

lemma total_emit: "total_bytes (emit_msg d m) \<le> wire_size m"
  using pack_size [of m] by (auto simp: emit_msg_def split: option.splits)

lemma total_concat: "(\<And>x. total_bytes (f x) \<le> k) \<Longrightarrow> total_bytes (concat (map f xs)) \<le> length xs * k"
  by (induction xs) (simp_all add: add_mono)

lemma upt_4: "[0..<RV_MAX_PLAYERS] = [0, 1, 2, 3]"
  unfolding rv_sizes by code_simp

lemma less_4: "i < (4 :: nat) \<Longrightarrow> i = 0 \<or> i = 1 \<or> i = 2 \<or> i = 3"
  by linarith

lemma total_intro: "total_bytes (emit_msg d (intro_of s i)) \<le> 19"
  using total_emit [of d "intro_of s i"] by (simp add: intro_of_def wire_size_def)

lemma total_fan_intro: "slot < 4 \<Longrightarrow> total_bytes (fan_peer_intro s slot) \<le> 114"
proof -
  let ?f = "\<lambda>i. if i = slot \<or> \<not> pe_used (se_peers s ! i) then []
       else emit_msg (pe_public (se_peers s ! i)) (intro_of s slot)
         @ emit_msg (pe_public (se_peers s ! slot)) (intro_of s i)"
  have f: "total_bytes (?f i) \<le> (if i = slot then 0 else 38)" for i
    using total_intro [of "pe_public (se_peers s ! i)" s slot] total_intro [of "pe_public (se_peers s ! slot)" s i]
    by simp
  assume "slot < 4"
  then show ?thesis
    using less_4 [of slot] f [of 0] f [of 1] f [of 2] f [of 3]
    unfolding fan_peer_intro_def upt_4 list.map concat.simps total_simps by auto
qed

lemma total_resend: "who < 4 \<Longrightarrow> total_bytes (resend_intros_to s who) \<le> 57"
proof -
  let ?f = "\<lambda>i. if i = who \<or> \<not> pe_used (se_peers s ! i) then []
       else emit_msg (pe_public (se_peers s ! who)) (intro_of s i)"
  have f: "total_bytes (?f i) \<le> (if i = who then 0 else 19)" for i
    using total_intro [of "pe_public (se_peers s ! who)" s i] by simp
  assume "who < 4"
  then show ?thesis
    using less_4 [of who] f [of 0] f [of 1] f [of 2] f [of 3]
    unfolding resend_intros_to_def upt_4 list.map concat.simps total_simps by auto
qed

lemma total_fan_start:
  assumes "se_start s = Some (LOBBY_START seed arena n delay)" and "length (se_peers s) = 4"
  shows "total_bytes (fan_start s unacked) \<le> 52"
proof -
  have "total_bytes (emit_msg d (LOBBY_START seed arena n delay)) \<le> 13" for d
    using total_emit [of d "LOBBY_START seed arena n delay"] by (simp add: wire_size_def)
  then show ?thesis
    using assms(2) total_concat [of "\<lambda>p. if \<not> pe_used p then [] else if unacked \<and> pe_start_acked p then []
        else emit_msg (pe_public p) (LOBBY_START seed arena n delay)" 13 "se_peers s"]
    by (simp add: fan_start_def assms(1))
qed

lemma total_fan_route:
  assumes "length (se_peers s) = 4"
  shows "total_bytes (fan_route s (LOBBY_PAIR_ROUTE a b r)) \<le> 36"
proof -
  have "total_bytes (emit_msg d (LOBBY_PAIR_ROUTE a b r)) \<le> 9" for d
    using total_emit [of d "LOBBY_PAIR_ROUTE a b r"] by (simp add: wire_size_def)
  then show ?thesis
    using assms total_concat [of "\<lambda>p. if pe_used p then emit_msg (pe_public p) (LOBBY_PAIR_ROUTE a b r) else []"
        9 "se_peers s"]
    by (simp add: fan_route_def)
qed

lemma total_reply:
  "total_bytes (emit_msg d (LOBBY_HOST_RESP sid)) \<le> 8" "total_bytes (emit_msg d (LOBBY_JOIN_RESP p n)) \<le> 8"
  "total_bytes (emit_reject d r) \<le> 7" "total_bytes (emit_msg d (LOBBY_PAIR_ROUTE a b rt)) \<le> 9"
  using total_emit [of d "LOBBY_HOST_RESP sid"] total_emit [of d "LOBBY_JOIN_RESP p n"]
    total_emit [of d "LOBBY_REJECT r"] total_emit [of d "LOBBY_PAIR_ROUTE a b rt"]
  by (simp_all add: wire_size_def emit_reject_def)

lemma host_bytes: "total_bytes (snd (do_host_req now src ver np prv rv)) \<le> 65"
proof (cases "find_index (hosted_lobby src) (rv_sessions rv)")
  case (Some i)
  then show ?thesis
    using add_mono [OF total_reply(1) total_resend [of 0]] by (simp add: do_host_req_def Let_def)
next
  case None
  then show ?thesis
    using le_trans [OF total_reply(1), of 65] le_trans [OF total_reply(3), of 65]
    by (auto simp: do_host_req_def Let_def split: option.split prod.split)
qed

lemma join_bytes:
  assumes "list_all session_ok (rv_sessions rv)"
  shows "total_bytes (snd (do_join_req now src sid ver prv rv)) \<le> 122"
proof (cases "find_session (rv_sessions rv) sid")
  case None
  then show ?thesis using le_trans [OF total_reply(3), of 122] by (simp add: do_join_req_def)
next
  case (Some i)
  note live = live_session [OF assms Some]
  let ?s = "rv_sessions rv ! i"
  have "total_bytes (emit_msg src (LOBBY_JOIN_RESP (of_nat p) n) @ resend_intros_to s p) \<le> 122"
    if "peer_of ?s src = Some p" for p n s
    using peer_of_SomeD [OF that] live(3) total_reply(2) [of src "of_nat p" n] total_resend [of p s] by simp
  moreover have "total_bytes (emit_msg src (LOBBY_JOIN_RESP (of_nat p) n) @ fan_peer_intro s p) \<le> 122"
    if "find_index (\<lambda>p. \<not> pe_used p) (se_peers ?s) = Some p" for p n s
    using find_index_SomeD [OF that] live(3) add_mono [OF total_reply(2) total_fan_intro [of p s]] by simp
  ultimately show ?thesis
    using Some le_trans [OF total_reply(3), of 122]
    by (auto simp: do_join_req_def Let_def split: option.split)
qed

lemma report_bytes:
  assumes "list_all session_ok (rv_sessions rv)"
  shows "total_bytes (snd (do_punch_report now src sid x y ok rv)) \<le> 36"
proof (cases "find_session (rv_sessions rv) sid")
  case None
  then show ?thesis by (simp add: do_punch_report_def)
next
  case (Some i)
  let ?s = "rv_sessions rv ! i"
  have "length (se_peers (route_decided now a b r (punch_recorded now rep oth ok ?s))) = 4" for a b r rep oth
    using live_session(3) [OF assms Some] by (simp add: route_decided_def punch_recorded_def seen_def Let_def)
  then have "total_bytes (snd (report_punch now src rep oth sa sb ok ?s)) \<le> 36" for rep oth sa sb
    using le_trans [OF total_reply(4), of 36] by (simp add: report_punch_def Let_def total_fan_route)
  then show ?thesis
    using Some by (auto simp: do_punch_report_def Let_def case_prod_unfold split: option.split)
qed

lemma start_bytes:
  assumes "list_all session_ok (rv_sessions rv)"
  shows "total_bytes (snd (do_start now src (LOBBY_START seed arena n delay) rv)) \<le> 52"
proof (cases "find_index (hosts src) (rv_sessions rv)")
  case None
  then show ?thesis by (simp add: do_start_def)
next
  case (Some i)
  then have "i < length (rv_sessions rv)" by (auto dest: find_index_SomeD)
  then have "length (se_peers (start_session now (LOBBY_START seed arena n delay) (rv_sessions rv ! i))) = 4"
    using assms by (auto simp: peers_length dest: list_all_nthD session_okD(1))
  moreover have "se_start (start_session now (LOBBY_START seed arena n delay) (rv_sessions rv ! i))
      = Some (LOBBY_START seed arena n delay)"
    by (simp add: start_session_def Let_def)
  ultimately show ?thesis
    using Some \<open>i < length (rv_sessions rv)\<close> total_fan_start
    by (simp add: do_start_def at_session_table Let_def)
qed

lemma relay_bytes: "total_bytes (snd (do_relay now src sid fs ts buf rv)) \<le> length buf"
  by (simp add: do_relay_def Let_def split: option.split)

definition control :: "u8 list \<Rightarrow> bool" where
  "control buf = (case lobby_unpack buf of Some (Some m) \<Rightarrow> \<not> is_relay m | _ \<Rightarrow> False)"

lemma dispatch_bytes:
  assumes "list_all session_ok (rv_sessions rv)"
  shows "total_bytes (snd (rv_dispatch now src buf m rv)) \<le> (if is_relay m then length buf else 122)"
  using le_trans [OF host_bytes, of 122] join_bytes [OF assms] le_trans [OF report_bytes [OF assms], of 122]
    le_trans [OF start_bytes [OF assms], of 122] relay_bytes
  by (cases m) (simp_all add: rv_dispatch_def is_relay_def)

text \<open>The server is a weak amplifier at most: all packets sent in answer to one control datagram together have
  at most 122 bytes (a join reply and six introductions); a relayed datagram is sent on once, so no more
  bytes leave than came.  A request has at least 32 bytes.\<close>

theorem answers_are_bounded:
  assumes "rv_reached rv"
  shows "total_bytes (snd (rv_handle now src buf rv)) \<le> (if control buf then 122 else length buf)"
proof -
  have "list_all session_ok (rv_sessions rv)"
    using rv_reached_ok [OF assms] by (simp add: rv_ok_def table_ok_def)
  moreover from this have "list_all session_ok (rv_sessions (fst (rate_take rv now (ep_ip src))))"
    by (simp add: rate_take_def case_prod_unfold Let_def)
  ultimately have "is_relay m \<Longrightarrow> total_bytes (snd (rv_dispatch now src buf m rv)) \<le> length buf"
    "\<not> is_relay m \<Longrightarrow> total_bytes (snd (rv_dispatch now src buf m (fst (rate_take rv now (ep_ip src))))) \<le> 122" for m
    using dispatch_bytes [of rv now src buf m] dispatch_bytes [of "fst (rate_take rv now (ep_ip src))" now src buf m] by simp_all
  then show ?thesis
    by (simp add: rv_handle_def control_def case_prod_unfold Let_def split: option.split)
qed

theorem answers_are_bounded_witness:
  "total_bytes (snd (rv_handle 900 guest_ep (packet_of (LOBBY_JOIN_REQ 8225 7 guest_ep)) (example_server 4)))
     \<le> 122"
proof -
  have "lobby_unpack (packet_of (LOBBY_JOIN_REQ 8225 7 guest_ep)) = Some (Some (LOBBY_JOIN_REQ 8225 7 guest_ep))"
    by (rule unpack_packet_of) (simp add: payload_of_def)
  then have "control (packet_of (LOBBY_JOIN_REQ 8225 7 guest_ep))" by (simp add: control_def is_relay_def)
  then show ?thesis
    using answers_are_bounded [OF example_reached, of 900 guest_ep "packet_of (LOBBY_JOIN_REQ 8225 7 guest_ep)" 4] by simp
qed

section \<open>Datagrams per second\<close>

definition bucket_of :: "LobbyEndpoint \<Rightarrow> nat" where
  "bucket_of src = unat (ep_ip src) mod 256"

text \<open>A datagram is acted upon when the server answers it or changes anything but its limiter.  \<open>acted\<close> counts
  the control datagrams of bucket \<open>k\<close> acted upon in a run of datagrams and clock ticks, \<open>span\<close> is the
  clock time from \<open>t\<close> over the control datagrams of that bucket.\<close>

definition acts_on :: "u32 \<Rightarrow> LobbyEndpoint \<Rightarrow> u8 list \<Rightarrow> Rendezvous \<Rightarrow> bool" where
  "acts_on now src buf rv \<longleftrightarrow>
     snd (rv_handle now src buf rv) \<noteq> [] \<or> (fst (rv_handle now src buf rv))\<lparr>rv_rate := rv_rate rv\<rparr> \<noteq> rv"

fun acted :: "nat \<Rightarrow> Rendezvous \<Rightarrow> RvEvent list \<Rightarrow> nat" where
  "acted k rv [] = 0"
| "acted k rv (Datagram now src buf # es) =
     (if control buf \<and> bucket_of src = k \<and> acts_on now src buf rv then 1 else 0)
     + acted k (rv_step (Datagram now src buf) rv) es"
| "acted k rv (Clock now # es) = acted k (rv_step (Clock now) rv) es"

fun span :: "nat \<Rightarrow> u32 \<Rightarrow> RvEvent list \<Rightarrow> nat" where
  "span k t [] = 0"
| "span k t (Datagram now src buf # es) =
     (if control buf \<and> bucket_of src = k then unat (now - t) + span k now es else span k t es)"
| "span k t (Clock now # es) = span k t es"

lemma throttled_is_ignored:
  assumes "control buf" and "\<not> snd (rate_take rv now (ep_ip src))"
  shows "\<not> acts_on now src buf rv"
proof -
  have "rv_handle now src buf rv = (fst (rate_take rv now (ep_ip src)), [])"
    using assms by (auto simp: rv_handle_def control_def case_prod_unfold Let_def split: option.splits)
  then show ?thesis by (simp add: acts_on_def rate_take_def case_prod_unfold Let_def)
qed

lemma refill_gain:
  assumes "unat (tokens_milli b) \<le> 40000"
  shows "unat (tokens_milli (bucket_refill now b)) \<le> unat (tokens_milli b) + 20 * unat (now - last_ms b)"
proof (cases "2000 < now - last_ms b")
  case True
  then show ?thesis
    by (simp add: bucket_refill_def RV_RATE_BURST_def RV_RATE_PER_SEC_def word_less_nat_alt)
next
  case False
  then have dt: "unat (now - last_ms b) \<le> 2000" by (simp add: word_less_nat_alt)
  have "unat (tokens_milli b + (now - last_ms b) * 20) = unat (tokens_milli b) + unat (now - last_ms b) * 20"
    using dt unat_times_20 [OF dt] assms by (simp add: unat_word_ariths(1))
  with False show ?thesis
    by (auto simp: bucket_refill_def RV_RATE_BURST_def RV_RATE_PER_SEC_def word_less_nat_alt Let_def)
qed

lemma take_pays:
  assumes "unat (tokens_milli b) \<le> 40000"
  shows "unat (tokens_milli (fst (bucket_take now b))) + (if snd (bucket_take now b) then 1000 else 0)
      \<le> unat (tokens_milli b) + 20 * unat (now - last_ms b)"
    and "last_ms (fst (bucket_take now b)) = now"
  using refill_gain [OF assms, of now]
  by (auto simp: bucket_take_def Let_def word_less_nat_alt unat_sub_if' bucket_refill_def [of now b] simp del: One_nat_def)

lemma handle_rate:
  "rv_rate (fst (rv_handle now src buf rv)) =
     (if control buf then rv_rate (fst (rate_take rv now (ep_ip src))) else rv_rate rv)"
  by (simp add: rv_handle_def control_def dispatch_frame case_prod_unfold Let_def split: option.split)

lemma rate_take_buckets:
  "rv_rate (fst (rate_take rv now (ep_ip src)))
     = (rv_rate rv)[bucket_of src := fst (bucket_take now (rv_rate rv ! bucket_of src))]"
  "snd (rate_take rv now (ep_ip src)) = snd (bucket_take now (rv_rate rv ! bucket_of src))"
  by (simp_all add: rate_take_def bucket_of_def rv_sizes Let_def case_prod_unfold)

lemma acted_bound:
  assumes "limiter_ok (rv_rate rv)" and "k < 256"
  shows "1000 * acted k rv es \<le> unat (tokens_milli (rv_rate rv ! k)) + 20 * span k (last_ms (rv_rate rv ! k)) es"
  using assms
proof (induction k rv es rule: acted.induct)
  case (2 k rv now src buf es)
  let ?rv = "rv_step (Datagram now src buf) rv" and ?b = "rv_rate rv ! k"
  have "limiter_ok (rv_rate ?rv)"
    using "2.prems"(1) limiter_take_ok by (simp add: handle_rate)
  then have IH: "1000 * acted k ?rv es \<le> unat (tokens_milli (rv_rate ?rv ! k)) + 20 * span k (last_ms (rv_rate ?rv ! k)) es"
    using "2.IH" "2.prems"(2) by simp
  have cap: "unat (tokens_milli ?b) \<le> 40000" and len: "length (rv_rate rv) = 256"
    using "2.prems" by (auto simp: limiter_ok_def dest: list_all_nthD)
  show ?case
  proof (cases "control buf \<and> bucket_of src = k")
    case True
    then have "rv_rate ?rv ! k = fst (bucket_take now ?b)"
      using len "2.prems"(2) by (auto simp: handle_rate rate_take_buckets)
    moreover have "acts_on now src buf rv \<longrightarrow> snd (bucket_take now ?b)"
      using True throttled_is_ignored [of buf rv now src] by (auto simp: rate_take_buckets)
    ultimately show ?thesis using IH True take_pays [OF cap, of now]
      by (auto split: if_splits)
  next
    case False
    then have "rv_rate ?rv ! k = ?b"
      by (auto simp: handle_rate rate_take_buckets)
    with IH False show ?thesis by auto
  qed
next
  case (3 k rv now es)
  then show ?case by (simp add: rv_tick_def)
qed simp

text \<open>C37: The token bucket holds over every run of datagrams and clock ticks: of the control datagrams from
  one bucket of addresses, the server acts upon at most 40 plus 20 per second of the time they span,
  whatever is sent and however it interleaves with other traffic.  The others get no answer and change
  no session, no counter and no random number: \<open>rv_handle\<close> drops them.\<close>

theorem control_rate_is_bounded:
  assumes "rv_reached rv" and "k < 256"
  shows "1000 * acted k rv es \<le> 40000 + 20 * span k (last_ms (rv_rate rv ! k)) es"
proof -
  have ok: "limiter_ok (rv_rate rv)" using rv_reached_ok [OF assms(1)] by (simp add: rv_ok_def)
  then have "unat (tokens_milli (rv_rate rv ! k)) \<le> 40000"
    using assms(2) by (auto simp: limiter_ok_def dest: list_all_nthD)
  with acted_bound [OF ok assms(2), of es] show ?thesis by linarith
qed

text \<open>A host that asks fifty times in one millisecond is answered at most forty times.\<close>

theorem control_rate_is_bounded_witness:
  "acted (bucket_of host_ep) (rv_init 0 7) (replicate 50 (Datagram 0 host_ep (packet_of (LOBBY_HOST_REQ 7 2 host_ep)))) \<le> 40"
proof -
  have init: "rv_reached (rv_init 0 7)"
    unfolding rv_reached_def by (intro exI [of _ 0] exI [of _ 7] exI [of _ "[]"]) simp
  have "span k 0 (replicate n (Datagram 0 host_ep buf)) = 0" for k n buf by (induction n) simp_all
  moreover have "bucket_of host_ep < 256" by (simp add: bucket_of_def)
  moreover have "last_ms (rv_rate (rv_init 0 7) ! bucket_of host_ep) = 0" by (simp add: rv_init_def rv_sizes bucket_of_def)
  ultimately show ?thesis
    using control_rate_is_bounded [OF init, of "bucket_of host_ep"
      "replicate 50 (Datagram 0 host_ep (packet_of (LOBBY_HOST_REQ 7 2 host_ep)))"] by simp
qed

section \<open>A lobby that cannot start\<close>

lemma example_hosts: "find_index (hosts host_ep) (rv_sessions (example_server 8)) = Some 0"
  "hosted_lobby host_ep (rv_sessions (example_server 8) ! Suc 0)"
proof -
  have ok: "length (rv_sessions (example_server 8)) = 64" "list_all session_ok (rv_sessions (example_server 8))"
    using rv_reached_ok [OF example_reached, of 8] by (simp_all add: rv_ok_def table_ok_def)
  then have peers: "length (se_peers (rv_sessions (example_server 8) ! 0)) = 4"
      "length (se_peers (rv_sessions (example_server 8) ! Suc 0)) = 4"
    by (simp_all add: list_all_length session_okD(1))
  show "hosted_lobby host_ep (rv_sessions (example_server 8) ! Suc 0)"
    using example_8(5,6) slots_nth(1) [of 0 "rv_sessions (example_server 8) ! Suc 0" host_ep] peers
    by (simp add: hosted_lobby_def)
  have "hosts host_ep (rv_sessions (example_server 8) ! 0)"
    using example_8(2,3) slots_nth(1) [of 0 "rv_sessions (example_server 8) ! 0" host_ep] peers
    by (simp add: hosts_def)
  then show "find_index (hosts host_ep) (rv_sessions (example_server 8)) = Some 0"
    using ok(1) by (cases "rv_sessions (example_server 8)") simp_all
qed

text \<open>START names no session, and \<open>do_start\<close> takes the first live session that the sender hosts.
  When that is a match already running, the START for the sender's next lobby is dropped without
  a word: nothing is sent and that lobby stays a lobby, until the old session is reaped.\<close>

theorem start_of_next_lobby_is_dropped:
  assumes "find_index (hosts src) (rv_sessions rv) = Some i" and "se_phase (rv_sessions rv ! i) = RV_RUNNING"
    and "hosted_lobby src (rv_sessions rv ! j)"
    and "lobby_unpack buf = Some (Some (LOBBY_START seed arena n delay))"
  shows "snd (rv_handle now src buf rv) = [] \<and> rv_sessions (fst (rv_handle now src buf rv)) = rv_sessions rv
    \<and> se_phase (rv_sessions (fst (rv_handle now src buf rv)) ! j) = RV_LOBBY"
proof -
  have "do_start now src (LOBBY_START seed arena n delay) (fst (rate_take rv now (ep_ip src)))
      = (fst (rate_take rv now (ep_ip src)), [])"
    using assms(1,2) by (simp add: do_start_def)
  then show ?thesis
    using assms(3,4) by (simp add: rv_handle_def is_relay_def rv_dispatch_def case_prod_unfold Let_def hosted_lobby_def)
qed

theorem start_of_next_lobby_is_dropped_witness:
  "snd (rv_handle 900 host_ep (packet_of (LOBBY_START 7 0 2 3)) (example_server 8)) = []
    \<and> se_phase (rv_sessions (fst (rv_handle 900 host_ep (packet_of (LOBBY_START 7 0 2 3)) (example_server 8))) ! 1) = RV_LOBBY"
proof -
  have "lobby_unpack (packet_of (LOBBY_START 7 0 2 3)) = Some (Some (LOBBY_START 7 0 2 3))"
    by (rule unpack_packet_of) (simp add: payload_of_def)
  from start_of_next_lobby_is_dropped [OF example_hosts(1) example_8(2) example_hosts(2) this, of 900]
  show ?thesis unfolding One_nat_def by blast
qed

end
