(* ===== verification/Rv_Book.thy ===== *)
theory Rv_Book
  imports Rv_Example
begin

text \<open>
  What the rendezvous server promises, without its tables: a book of lobbies, indexed by session
  id.  A lobby is its phase, its seats, its size and its version.  The book changes in six ways
  only (\<open>book_step\<close>), and each datagram that the server handles is one of them: the server's
  session table refines the book.
\<close>

section \<open>The book\<close>

record Lobby =
  lb_phase :: RvPhase
  lb_seats :: "LobbyEndpoint option list"
  lb_size :: nat
  lb_version :: u32

type_synonym Book = "u16 \<rightharpoonup> Lobby"

text \<open>One datagram from \<open>src\<close>, as the book sees it.\<close>

inductive book_step :: "LobbyEndpoint \<Rightarrow> Book \<Rightarrow> Book \<Rightarrow> bool" for src :: LobbyEndpoint where
  book_keep: "book_step src B B"
| book_open: "B sid = None \<Longrightarrow> sid \<noteq> 0 \<Longrightarrow> 2 \<le> cap \<Longrightarrow> cap \<le> 4 \<Longrightarrow>
    (\<And>x l. B x = Some l \<Longrightarrow> lb_phase l = RV_LOBBY \<Longrightarrow> lb_seats l ! 0 \<noteq> Some src) \<Longrightarrow>
    book_step src B (B(sid \<mapsto> \<lparr>lb_phase = RV_LOBBY, lb_seats = [Some src, None, None, None], lb_size = cap,
      lb_version = ver\<rparr>))"
| book_seat: "B sid = Some l \<Longrightarrow> lb_phase l = RV_LOBBY \<Longrightarrow> Some src \<notin> set (lb_seats l) \<Longrightarrow>
    taken (lb_seats l) < lb_size l \<Longrightarrow> find_index (\<lambda>x. x = None) (lb_seats l) = Some slot \<Longrightarrow>
    book_step src B (B(sid \<mapsto> l\<lparr>lb_seats := (lb_seats l)[slot := Some src]\<rparr>))"
| book_start: "B sid = Some l \<Longrightarrow> lb_phase l = RV_LOBBY \<Longrightarrow> lb_seats l ! 0 = Some src \<Longrightarrow>
    book_step src B (B(sid \<mapsto> l\<lparr>lb_phase := RV_STARTING\<rparr>))"
| book_run: "B sid = Some l \<Longrightarrow> lb_phase l = RV_STARTING \<Longrightarrow> Some src \<in> set (lb_seats l) \<Longrightarrow>
    book_step src B (B(sid \<mapsto> l\<lparr>lb_phase := RV_RUNNING\<rparr>))"

definition lobby_of :: "RvSession \<Rightarrow> Lobby" where
  "lobby_of s = \<lparr>lb_phase = se_phase s, lb_seats = slots s, lb_size = unat (se_num_players s),
     lb_version = se_net_version s\<rparr>"

definition book_of :: "RvSession list \<Rightarrow> Book" where
  "book_of ss sid = map_option (\<lambda>i. lobby_of (ss ! i)) (find_session ss sid)"

lemma session_key_Some: "session_key s = Some sid \<longleftrightarrow> se_phase s \<noteq> RV_FREE \<and> se_id s = sid"
  by (simp add: session_key_def)

lemma book_of_iff:
  assumes "table_ok ss"
  shows "book_of ss sid = Some l \<longleftrightarrow> (\<exists>i < 64. session_key (ss ! i) = Some sid \<and> l = lobby_of (ss ! i))"
proof
  assume "book_of ss sid = Some l"
  then obtain i where "find_session ss sid = Some i" "l = lobby_of (ss ! i)"
    by (auto simp: book_of_def)
  with find_session_SomeD [of ss sid i] assms show "\<exists>i < 64. session_key (ss ! i) = Some sid \<and> l = lobby_of (ss ! i)"
    by (auto simp: session_key_Some table_ok_def)
next
  assume "\<exists>i < 64. session_key (ss ! i) = Some sid \<and> l = lobby_of (ss ! i)"
  then obtain i where "i < 64" "session_key (ss ! i) = Some sid" "l = lobby_of (ss ! i)" by blast
  with find_session_unique [OF assms, of i] show "book_of ss sid = Some l"
    by (auto simp: book_of_def session_key_Some)
qed

lemma option_eqI: "(\<And>l. x = Some l \<longleftrightarrow> y = Some l) \<Longrightarrow> x = y"
  by (cases x; cases y) auto

lemma book_update:
  assumes "table_ok ss" and "table_ok (ss[i := s'])" and "i < 64" and "session_key s' = Some sid"
    and "session_key (ss ! i) = Some sid \<or> session_key (ss ! i) = None \<and> book_of ss sid = None"
  shows "book_of (ss[i := s']) = (book_of ss)(sid \<mapsto> lobby_of s')"
proof (rule ext)
  fix x
  have len: "length ss = 64" using assms(1) by (simp add: table_ok_def)
  show "book_of (ss[i := s']) x = ((book_of ss)(sid \<mapsto> lobby_of s')) x"
  proof (cases "x = sid")
    case True
    have "book_of (ss[i := s']) sid = Some (lobby_of s')"
      unfolding book_of_iff [OF assms(2)] using assms(3,4) len by (intro exI [of _ i]) simp
    with True show ?thesis by simp
  next
    case False
    then have "session_key (ss[i := s'] ! k) = Some x \<and> l = lobby_of (ss[i := s'] ! k)
        \<longleftrightarrow> session_key (ss ! k) = Some x \<and> l = lobby_of (ss ! k)" for k l
      using assms(3-5) len by (cases "k = i") auto
    then have "book_of (ss[i := s']) x = Some l \<longleftrightarrow> book_of ss x = Some l" for l
      unfolding book_of_iff [OF assms(1)] book_of_iff [OF assms(2)] by simp
    with False show ?thesis by (auto intro: option_eqI)
  qed
qed

lemma lobby_of_same: "roster s' = roster s \<Longrightarrow> se_phase s' = se_phase s \<Longrightarrow> lobby_of s' = lobby_of s"
  by (simp add: lobby_of_def roster_eq)

section \<open>The server refines it\<close>

lemma session_refines:
  assumes "session_step now src s s'" and "session_ok s" and "B (se_id s) = Some (lobby_of s)"
  shows "book_step src B (B(se_id s \<mapsto> lobby_of s'))"
proof -
  have keep: ?thesis if "lobby_of s' = lobby_of s"
    using book_keep [of src B] assms(3) that by (simp add: fun_upd_idem)
  from assms(1) show ?thesis
  proof cases
    case (step_join slot prv)
    have "slot < length (se_peers s)"
      using step_join seat.search_bound [of "slots s" slot] by simp
    then have "lobby_of s' = (lobby_of s)\<lparr>lb_seats := (slots s)[slot := Some src]\<rparr>"
      using step_join by (simp add: lobby_of_def) (simp add: add_peer_def)
    moreover have "taken (slots s) < unat (se_num_players s)"
      using step_join session_okD(3) [OF assms(2)] by (simp add: members_ok_def word_less_nat_alt)
    ultimately show ?thesis
      using step_join book_seat [of B "se_id s" "lobby_of s" src slot] assms(3) by (simp add: lobby_of_def)
  next
    case (step_start seed arena n delay)
    show ?thesis
    proof (cases "se_phase s = RV_LOBBY")
      case True
      then have "se_phase s' = RV_STARTING" using step_start by (simp add: start_session_def Let_def)
      then have "lobby_of s' = (lobby_of s)\<lparr>lb_phase := RV_STARTING\<rparr>"
        using step_start roster_start [of now "LOBBY_START seed arena n delay" s, unfolded roster_eq]
        by (simp add: lobby_of_def)
      then show ?thesis
        using True step_start book_start [of B "se_id s" "lobby_of s" src] assms(3) by (simp add: lobby_of_def)
    next
      case False
      then have "se_phase s' = se_phase s" using step_start by (cases "se_phase s") (simp_all add: start_session_def Let_def)
      then show ?thesis using step_start by (intro keep lobby_of_same) simp_all
    qed
  next
    case (step_ack p)
    show ?thesis
    proof (cases "se_phase s' = se_phase s")
      case True
      then show ?thesis using step_ack by (intro keep lobby_of_same) simp_all
    next
      case False
      then have ph: "se_phase s = RV_STARTING" "se_phase s' = RV_RUNNING"
        using step_ack by (auto simp: ack_start_def Let_def split: if_splits)
      then have "lobby_of s' = (lobby_of s)\<lparr>lb_phase := RV_RUNNING\<rparr>"
        using step_ack roster_ack [of now p s, unfolded roster_eq] by (simp add: lobby_of_def)
      moreover have "Some src \<in> set (slots s)"
        using step_ack session_okD(1) [OF assms(2)] by (auto simp: in_set_conv_nth)
      ultimately show ?thesis
        using ph book_run [of B "se_id s" "lobby_of s" src] assms(3) by (simp add: lobby_of_def)
    qed
  qed (intro keep lobby_of_same; simp add: report_phase relayed_phase)+
qed

lemma table_refines:
  assumes "table_step now src ss ss'" and "table_ok ss"
  shows "book_step src (book_of ss) (book_of ss')"
  using assms(1)
proof cases
  case table_same
  then show ?thesis by (simp add: book_keep)
next
  case (table_one i s')
  let ?s = "ss ! i"
  have i: "i < 64" "session_ok ?s" using table_one assms(2) by (auto simp: table_ok_def dest: list_all_nthD)
  have live: "se_phase ?s \<noteq> RV_FREE" using table_one(3) by cases simp_all
  then have key: "session_key ?s = Some (se_id ?s)" "session_key s' = Some (se_id ?s)"
    using session_step_key [OF table_one(3)] by (simp_all add: session_key_def)
  then have "book_of ss' = (book_of ss)(se_id ?s \<mapsto> lobby_of s')"
    using table_one(1) table_step_ok [OF assms] i(1) assms(2) by (simp add: book_update)
  moreover have "book_of ss (se_id ?s) = Some (lobby_of ?s)"
    using key(1) i(1) by (auto simp: book_of_iff [OF assms(2)])
  ultimately show ?thesis
    using session_refines [OF table_one(3) i(2)] by simp
next
  case (table_open i sid ver np prv)
  let ?n = "new_lobby now src sid ver np prv"
  have i: "i < 64" using table_open assms(2) by (simp add: table_ok_def)
  have fresh: "book_of ss sid = None" using table_open by (simp add: book_of_def)
  moreover have "session_key ?n = Some sid" "session_key (ss ! i) = None"
    using table_open by (simp_all add: session_key_def new_lobby_def)
  ultimately have "book_of ss' = (book_of ss)(sid \<mapsto> lobby_of ?n)"
    using table_open(1) table_step_ok [OF assms] i assms(2) by (simp add: book_update)
  moreover have "lobby_of ?n = \<lparr>lb_phase = RV_LOBBY, lb_seats = [Some src, None, None, None],
      lb_size = unat (clamp_players np), lb_version = ver\<rparr>"
    by (simp add: lobby_of_def) (simp add: new_lobby_def)
  moreover have "lb_seats l ! 0 \<noteq> Some src" if "book_of ss x = Some l" "lb_phase l = RV_LOBBY" for x l
  proof -
    obtain k where k: "k < 64" "l = lobby_of (ss ! k)"
      using \<open>book_of ss x = Some l\<close> by (auto simp: book_of_iff [OF assms(2)])
    then have "length (se_peers (ss ! k)) = 4" "ss ! k \<in> set ss"
      using assms(2) by (auto simp: table_ok_def list_all_length session_okD(1))
    with k \<open>lb_phase l = RV_LOBBY\<close> table_open(6) show ?thesis
      by (auto simp: lobby_of_def hosted_lobby_def slots_nth)
  qed
  ultimately show ?thesis
    using table_open(4) fresh clamp_players [of np] book_open [of "book_of ss" sid "unat (clamp_players np)" src ver]
    by simp
qed

lemma tick_refines:
  assumes "table_ok ss"
  shows "book_of (map (fst \<circ> tick_session now) ss) \<subseteq>\<^sub>m book_of ss"
proof -
  note ok = table_tick_ok [OF assms, of now]
  have len: "length ss = 64" using assms by (simp add: table_ok_def)
  have clear: "se_phase session_clear = RV_FREE" by (simp add: session_clear_def)
  have one: "session_key s = Some sid \<and> lobby_of (fst (tick_session now s)) = lobby_of s"
    if "session_key (fst (tick_session now s)) = Some sid" for s sid
    using tick_session_cases [of now s] that roster_refan [of now s, unfolded roster_eq]
    by (auto simp: clear session_key_Some refan_phase lobby_of_def)
  have "book_of ss sid = Some l" if b: "book_of (map (fst \<circ> tick_session now) ss) sid = Some l" for sid l
  proof -
    obtain k where k: "k < 64" "session_key (fst (tick_session now (ss ! k))) = Some sid"
        "l = lobby_of (fst (tick_session now (ss ! k)))"
      using b len unfolding book_of_iff [OF ok] by auto
    then show ?thesis
      unfolding book_of_iff [OF assms] using one [OF k(2)] by (intro exI [of _ k]) simp
  qed
  then show ?thesis by (auto simp: map_le_def dom_def)
qed

text \<open>C5: The server refines the book of lobbies.  Every datagram it handles, from any reachable state, is
  one step of the book by its sender: nothing, a fresh lobby for a host that has none open, the
  first free seat of an open and not full lobby for a newcomer, the start of a lobby by its host,
  or the acknowledgement of a member that sets the match running.  The clock only ever removes
  lobbies from the book.\<close>

theorem server_refines_book:
  assumes "rv_reached rv"
  shows "book_step src (book_of (rv_sessions rv)) (book_of (rv_sessions (fst (rv_handle now src buf rv))))
    \<and> book_of (rv_sessions (fst (rv_tick now rv))) \<subseteq>\<^sub>m book_of (rv_sessions rv)"
proof -
  have ok: "table_ok (rv_sessions rv)" using rv_reached_ok [OF assms] by (simp add: rv_ok_def)
  then have "list_all session_ok (rv_sessions rv)" by (simp add: table_ok_def)
  then show ?thesis
    using table_refines [OF handle_table ok] tick_refines [OF ok] by (simp add: rv_tick_def)
qed

theorem server_refines_book_witness:
  "book_step guest_ep (book_of (rv_sessions (example_server 1))) (book_of (rv_sessions (example_server 2)))"
proof -
  have "example_server 2 = fst (rv_handle 200 guest_ep (packet_of (LOBBY_JOIN_REQ 8225 7 guest_ep)) (example_server 1))"
    by (simp add: example_server_def example_events_def numeral_eq_Suc)
  then show ?thesis using server_refines_book [OF example_reached, of guest_ep 1] by simp
qed

section \<open>What the book guarantees\<close>

text \<open>While a lobby lives, its size and version are fixed, and whoever has a seat keeps that seat.\<close>

lemma seats_are_kept:
  assumes "book_step src B B'" and "B sid = Some l" and "B' sid = Some l'"
  shows "lb_size l' = lb_size l \<and> lb_version l' = lb_version l
    \<and> (\<forall>p < length (lb_seats l). lb_seats l ! p \<noteq> None \<longrightarrow> lb_seats l' ! p = lb_seats l ! p)"
  using assms(1)
proof cases
  case (book_seat k m slot)
  then have "lb_seats m ! slot = None" using seat.search_free [of "lb_seats m" slot] by simp
  with book_seat assms(2,3) show ?thesis by (auto simp: nth_list_update_if split: if_splits)
qed (use assms(2,3) in \<open>auto split: if_splits\<close>)

end
