(* ===== verification/Rv_Props.thy ===== *)
theory Rv_Props
  imports Rv_Example
begin

text \<open>
  What the invariant of the rendezvous server says of its users: sound lobbies, final routes,
  packets only to fellow members, bounded replies and a bounded rate.
\<close>

section \<open>Sound lobbies\<close>

lemma reached_session:
  assumes "rv_reached rv" and "i < 64" and "se_phase (rv_sessions rv ! i) \<noteq> RV_FREE"
  shows "session_ok (rv_sessions rv ! i)" and "members_ok (rv_sessions rv ! i)"
    and "phase_ok (rv_sessions rv ! i)" and "routes_ok (rv_sessions rv ! i)"
    and "length (se_peers (rv_sessions rv ! i)) = 4"
  using rv_reached_ok [OF assms(1)] assms(2,3)
  by (auto simp: rv_ok_def table_ok_def session_okD dest: list_all_nthD)

text \<open>C10: In every state the server can reach, whatever datagrams it was sent, every live session has a
  nonzero id that no other live session has, a capacity of two to four players, a host in slot 0,
  a \<open>joined\<close> counter that equals the number of taken seats and never passes the capacity, and no
  endpoint sits in two seats.\<close>

theorem lobbies_are_sound:
  assumes "rv_reached rv" and "i < 64" and "se_phase (rv_sessions rv ! i) \<noteq> RV_FREE"
    and "j < 64" and "se_phase (rv_sessions rv ! j) \<noteq> RV_FREE"
  shows "se_id (rv_sessions rv ! i) \<noteq> 0
    \<and> (se_id (rv_sessions rv ! i) = se_id (rv_sessions rv ! j) \<longleftrightarrow> i = j)
    \<and> 2 \<le> unat (se_num_players (rv_sessions rv ! i)) \<and> unat (se_num_players (rv_sessions rv ! i)) \<le> 4
    \<and> slots (rv_sessions rv ! i) ! 0 \<noteq> None
    \<and> unat (se_joined (rv_sessions rv ! i)) = taken (slots (rv_sessions rv ! i))
    \<and> unat (se_joined (rv_sessions rv ! i)) \<le> unat (se_num_players (rv_sessions rv ! i))
    \<and> unique_keys (slots (rv_sessions rv ! i))"
proof -
  have ok: "length (rv_sessions rv) = 64" "unique_keys (map session_key (rv_sessions rv))"
    using rv_reached_ok [OF assms(1)] by (simp_all add: rv_ok_def table_ok_def)
  have "se_id (rv_sessions rv ! i) = se_id (rv_sessions rv ! j) \<longleftrightarrow> i = j"
    using ok assms unique_keysD [OF ok(2), of i j "se_id (rv_sessions rv ! j)"]
    by (auto simp: session_key_def)
  then show ?thesis
    using reached_session(2) [OF assms(1-3)] by (simp add: members_ok_def)
qed

theorem lobbies_are_sound_witness:
  "se_id (rv_sessions (example_server 4) ! 0) = 8225
    \<and> unat (se_joined (rv_sessions (example_server 4) ! 0)) = 2
    \<and> unique_keys (slots (rv_sessions (example_server 4) ! 0))"
  using lobbies_are_sound [OF example_reached, of 0 4 0] example_4 by simp

section \<open>What one datagram does to one session\<close>

lemma handle_session:
  assumes "rv_reached rv" and "i < 64" and "se_phase (rv_sessions rv ! i) \<noteq> RV_FREE"
  shows "rv_sessions (fst (rv_handle now src buf rv)) ! i = rv_sessions rv ! i
    \<or> session_step now src (rv_sessions rv ! i) (rv_sessions (fst (rv_handle now src buf rv)) ! i)"
proof -
  have "list_all session_ok (rv_sessions rv)" "length (rv_sessions rv) = 64"
    using rv_reached_ok [OF assms(1)] by (simp_all add: rv_ok_def table_ok_def)
  with handle_table [of rv now src buf] show ?thesis
    using assms(2,3) by cases (auto simp: nth_list_update)
qed

section \<open>Routes are final\<close>

lemma decided_cells:
  assumes "square (se_route_sent s)" and "square (se_route s)" and "a < 4" and "b < 4" and "i < 4" and "j < 4"
  shows "cell (se_route_sent (route_decided now a b r s)) i j
      \<longleftrightarrow> i = a \<and> j = b \<or> i = b \<and> j = a \<or> cell (se_route_sent s) i j"
    and "cell (se_route (route_decided now a b r s)) i j
      = (if i = a \<and> j = b \<or> i = b \<and> j = a then r else cell (se_route s) i j)"
proof -
  have f: "se_route_sent (route_decided now a b r s) = set_cell a b True (set_cell b a True (se_route_sent s))"
    "se_route (route_decided now a b r s) = set_cell a b r (set_cell b a r (se_route s))"
    by (simp_all add: route_decided_def)
  show "cell (se_route_sent (route_decided now a b r s)) i j
      \<longleftrightarrow> i = a \<and> j = b \<or> i = b \<and> j = a \<or> cell (se_route_sent s) i j"
    unfolding f cell_set [OF square_set [OF assms(1,4)] assms(3,4,5,6)] cell_set [OF assms(1,4,3,5,6)] by auto
  show "cell (se_route (route_decided now a b r s)) i j
      = (if i = a \<and> j = b \<or> i = b \<and> j = a then r else cell (se_route s) i j)"
    unfolding f cell_set [OF square_set [OF assms(2,4)] assms(3,4,5,6)] cell_set [OF assms(2,4,3,5,6)]
    by (cases "i = a \<and> j = b") (simp_all only: if_True if_False simp_thms)
qed

definition route_kept :: "RvSession \<Rightarrow> RvSession \<Rightarrow> nat \<Rightarrow> nat \<Rightarrow> bool" where
  "route_kept s s' i j \<longleftrightarrow>
     (cell (se_route_sent s) i j \<longrightarrow>
        cell (se_route_sent s') i j \<and> cell (se_route s') i j = cell (se_route s) i j)
     \<and> (cell (se_route_sent s') i j \<and> \<not> cell (se_route_sent s) i j \<longrightarrow>
        cell (se_route s') i j =
          (if cell (se_punch s') i j \<noteq> 0 \<and> cell (se_punch s') j i \<noteq> 0
           then LOBBY_ROUTE_DIRECT else LOBBY_ROUTE_RELAY))"

text \<open>Who reported what: a punch cell changes only when the player of its row reports it.\<close>

lemma punch_update: "(i = k \<Longrightarrow> se_punch v = se_punch (ss ! k)) \<Longrightarrow> se_punch (ss[i := v] ! k) = se_punch (ss ! k)"
  by (cases "i < length ss"; cases "i = k") (simp_all add: list_update_beyond)

lemma quiet_punch:
  assumes "se_phase (rv_sessions rv ! k) \<noteq> RV_FREE"
  shows "se_punch (rv_sessions (fst (do_host_req now src ver np prv rv)) ! k) = se_punch (rv_sessions rv ! k)"
    "se_punch (rv_sessions (fst (do_join_req now src sid ver prv rv)) ! k) = se_punch (rv_sessions rv ! k)"
    "se_punch (rv_sessions (fst (do_start now src m rv)) ! k) = se_punch (rv_sessions rv ! k)"
    "se_punch (rv_sessions (do_start_ack now src sid slot rv) ! k) = se_punch (rv_sessions rv ! k)"
    "se_punch (rv_sessions (do_keepalive now src sid rv) ! k) = se_punch (rv_sessions rv ! k)"
    "se_punch (rv_sessions (fst (do_relay now src sid fs ts buf rv)) ! k) = se_punch (rv_sessions rv ! k)"
  using assms
  by (auto simp: do_host_req_def do_join_req_def do_start_def do_start_ack_def do_keepalive_def do_relay_def at_session_def
      routes_frame Let_def split: option.split prod.split dest!: find_index_SomeD intro!: punch_update)

definition reported :: "u8 list \<Rightarrow> LobbyEndpoint \<Rightarrow> RvSession \<Rightarrow> nat \<Rightarrow> nat \<Rightarrow> u8 \<Rightarrow> bool" where
  "reported buf src s i j ok \<longleftrightarrow>
     (\<exists>a b. lobby_unpack buf = Some (Some (LOBBY_PUNCH_REPORT (se_id s) a b ok)) \<and> {unat a, unat b} = {i, j} \<and> i \<noteq> j)
     \<and> peer_of s src = Some i"

lemma punch_change:
  assumes "se_phase (rv_sessions rv ! k) \<noteq> RV_FREE" and "square (se_punch (rv_sessions rv ! k))" and "i < 4" and "j < 4"
    and "s' = rv_sessions (fst (rv_handle now src buf rv)) ! k" and "cell (se_punch s') i j \<noteq> cell (se_punch (rv_sessions rv ! k)) i j"
  shows "\<exists>ok. reported buf src (rv_sessions rv ! k) i j ok \<and> cell (se_punch s') i j = (if ok \<noteq> 0 then 1 else 0)"
proof -
  have limiter: "rv_sessions (fst (rate_take rv now ip)) = rv_sessions rv" for ip by (simp add: rate_take_def Let_def case_prod_unfold)
  obtain m q where m: "lobby_unpack buf = Some (Some m)" "rv_sessions q = rv_sessions rv"
    "s' = rv_sessions (fst (rv_dispatch now src buf m q)) ! k"
    using assms(5,6) limiter [of "ep_ip src"] that [of _ rv] that [of _ "fst (rate_take rv now (ep_ip src))"]
    by (auto simp: rv_handle_def case_prod_unfold Let_def split: option.splits if_splits)
  have live: "se_phase (rv_sessions q ! k) \<noteq> RV_FREE" using assms(1) m(2) by simp
  obtain sid a b ok where r: "m = LOBBY_PUNCH_REPORT sid a b ok"
    using assms(6) m(2,3) quiet_punch [OF live] by (cases m) (simp_all add: rv_dispatch_def)
  have f: "se_punch (fst (report_punch now src rep oth sa sb ok s)) = set_cell rep oth (if ok \<noteq> 0 then 1 else 0) (se_punch s)"
    for rep oth sa sb s
    by (simp add: report_punch_def punch_recorded_def route_decided_def seen_def Let_def)
  have s': "s' = rv_sessions (fst (do_punch_report now src sid a b ok q)) ! k" using m(3) by (simp add: r rv_dispatch_def)
  show ?thesis
  proof (cases "find_session (rv_sessions q) sid")
    case None
    then show ?thesis using assms(6) s' m(2) by (simp add: do_punch_report_def)
  next
    case (Some n)
    note n = find_session_SomeD [OF Some]
    define ss where "ss = rv_sessions (fst (do_punch_report now src sid a b ok q))"
    have "ss = rv_sessions rv \<or> (\<exists>rep oth. peer_of (rv_sessions rv ! n) src = Some rep \<and> rep \<noteq> oth \<and> (rep = unat a \<and> oth = unat b \<or> rep = unat b \<and> oth = unat a)
        \<and> rep < 4 \<and> oth < 4 \<and> ss = (rv_sessions rv)[n := fst (report_punch now src rep oth (unat a) (unat b) ok (rv_sessions rv ! n))])"
      using Some by (auto simp: ss_def do_punch_report_def at_session_def case_prod_unfold Let_def m(2) rv_sizes split: option.split)
    moreover have "ss \<noteq> rv_sessions rv" using assms(6) by (auto simp: s' ss_def)
    ultimately obtain rep oth where ro: "peer_of (rv_sessions rv ! n) src = Some rep" "rep \<noteq> oth" "rep = unat a \<and> oth = unat b \<or> rep = unat b \<and> oth = unat a"
      "rep < 4" "oth < 4" "ss = (rv_sessions rv)[n := fst (report_punch now src rep oth (unat a) (unat b) ok (rv_sessions rv ! n))]" by blast
    have k: "n = k" using assms(6) by (rule contrapos_np) (simp add: s' ro(6) flip: ss_def)
    then have s: "se_punch s' = set_cell rep oth (if ok \<noteq> 0 then 1 else 0) (se_punch (rv_sessions rv ! k))"
      using n m(2) by (simp add: s' ro(6) f flip: ss_def)
    note cells = cell_set [OF assms(2) ro(4,5) assms(3,4)]
    have ij: "i = rep" "j = oth" using s assms(6) by (auto simp: cells split: if_splits)
    have "cell (se_punch s') i j = (if ok \<noteq> 0 then 1 else 0)" unfolding s cells using ij by simp
    then show ?thesis using m(1) n ro(1-3) k ij by (auto simp: reported_def r m(2))
  qed
qed

lemma route_kept_frame:
  "se_route_sent s' = se_route_sent s \<Longrightarrow> se_route s' = se_route s \<Longrightarrow> route_kept s s' i j"
  by (simp add: route_kept_def)

lemma punch_recorded_frame:
  "se_route_sent (punch_recorded now rep oth ok s) = se_route_sent s"
  "se_route (punch_recorded now rep oth ok s) = se_route s"
  by (simp_all add: punch_recorded_def seen_def Let_def)

lemma route_kept_decided:
  assumes "routes_ok s" and "a < 4" and "b < 4" and "i < 4" and "j < 4"
    and "se_route_sent p = se_route_sent s" and "se_route p = se_route s"
    and "\<not> cell (se_route_sent s) a b"
  shows "route_kept s (route_decided now a b (verdict p a b) p) i j"
proof -
  have sq: "square (se_route_sent p)" "square (se_route p)"
    and sym: "cell (se_route_sent s) a b = cell (se_route_sent s) b a"
    using assms by (auto simp: routes_ok_def)
  have "se_punch (route_decided now a b (verdict p a b) p) = se_punch p"
    by (simp add: route_decided_def)
  then show ?thesis
    using assms(6-8) sym unfolding route_kept_def decided_cells [OF sq assms(2-5)]
    by (auto simp: verdict_def)
qed

lemma route_kept_report:
  assumes "routes_ok s" and "sa < 4" and "sb < 4" and "i < 4" and "j < 4"
  shows "route_kept s (fst (report_punch now src rep oth sa sb ok s)) i j"
  using route_kept_decided [OF assms(1-5), of "punch_recorded now rep oth ok s"]
    route_kept_decided [OF assms(1,3,2,4,5), of "punch_recorded now rep oth ok s"]
    route_kept_frame [of "punch_recorded now rep oth ok s" s]
  by (auto simp: report_punch_def Let_def punch_recorded_frame)

lemma route_kept_step:
  "session_step now src s s' \<Longrightarrow> routes_ok s \<Longrightarrow> i < 4 \<Longrightarrow> j < 4 \<Longrightarrow> route_kept s s' i j"
  by (induction rule: session_step.induct) (simp_all add: route_kept_report route_kept_frame routes_frame)

lemma tick_routes:
  assumes "rv_reached rv" and "k < 64"
  shows "se_phase (rv_sessions (fst (rv_tick now rv)) ! k) = RV_FREE
    \<or> se_route_sent (rv_sessions (fst (rv_tick now rv)) ! k) = se_route_sent (rv_sessions rv ! k)
      \<and> se_route (rv_sessions (fst (rv_tick now rv)) ! k) = se_route (rv_sessions rv ! k)
      \<and> se_punch (rv_sessions (fst (rv_tick now rv)) ! k) = se_punch (rv_sessions rv ! k)"
proof -
  have "length (rv_sessions rv) = 64" using rv_reached_ok [OF assms(1)] by (simp add: rv_ok_def table_ok_def)
  then have "rv_sessions (fst (rv_tick now rv)) ! k = fst (tick_session now (rv_sessions rv ! k))"
    using assms(2) by (simp add: rv_tick_def)
  then show ?thesis using tick_session_cases [of now "rv_sessions rv ! k"] by (auto simp: routes_frame session_clear_def)
qed

text \<open>C17: A route, once handed out, is final: no datagram and no tick of the clock ever changes it while its session lives,
  and it is the same in both directions.  A datagram settles a route only when both sides have reported, and
  the route is direct when both reported an open hole, relayed otherwise.  Who has reported what changes only by a
  report of that session that comes from the address of the reporting seat, to what it reports.\<close>

theorem routes_are_final:
  assumes "rv_reached rv" and "k < 64" and "se_phase (rv_sessions rv ! k) \<noteq> RV_FREE"
    and "i < 4" and "j < 4"
    and "s = rv_sessions rv ! k" and "s' = rv_sessions (fst (rv_handle now src buf rv)) ! k"
    and "t = rv_sessions (fst (rv_tick now rv)) ! k"
  shows "(cell (se_route_sent s) i j \<longrightarrow>
        cell (se_route_sent s') i j \<and> cell (se_route s') i j = cell (se_route s) i j)
    \<and> (cell (se_route_sent s') i j \<and> \<not> cell (se_route_sent s) i j \<longrightarrow>
        0 \<le> cell (se_punch s') i j \<and> 0 \<le> cell (se_punch s') j i
        \<and> cell (se_route s') i j =
          (if 0 < cell (se_punch s') i j \<and> 0 < cell (se_punch s') j i
           then LOBBY_ROUTE_DIRECT else LOBBY_ROUTE_RELAY))
    \<and> cell (se_route_sent s') i j = cell (se_route_sent s') j i
    \<and> cell (se_route s') i j = cell (se_route s') j i
    \<and> (cell (se_punch s') i j \<noteq> cell (se_punch s) i j \<longrightarrow>
        (\<exists>ok. reported buf src s i j ok \<and> cell (se_punch s') i j = (if ok \<noteq> 0 then 1 else 0)))
    \<and> (se_phase t = RV_FREE \<or> se_route_sent t = se_route_sent s \<and> se_route t = se_route s \<and> se_punch t = se_punch s)"
proof -
  note ok = reached_session [OF assms(1-3), folded assms(6)]
  have step: "s' = s \<or> session_step now src s s'"
    using handle_session [OF assms(1-3), of now src buf] by (simp add: assms(6,7))
  then have kept: "route_kept s s' i j"
    using route_kept_step [OF _ ok(4) assms(4,5)] route_kept_frame by blast
  have "routes_ok s'"
  proof -
    have "session_ok s'" "se_phase s' \<noteq> RV_FREE"
      using step ok(1) assms(3,6) session_step_ok session_step_live by auto
    then show ?thesis by (rule session_okD(5))
  qed
  then have r: "cell (se_route_sent s') i j = cell (se_route_sent s') j i" "cell (se_route s') i j = cell (se_route s') j i"
    "cell (se_route_sent s') i j \<longrightarrow> 0 \<le> cell (se_punch s') i j \<and> 0 \<le> cell (se_punch s') j i"
    using assms(4,5) by (simp_all add: routes_ok_def)
  have "cell (se_punch s') i j \<noteq> cell (se_punch s) i j \<longrightarrow>
      (\<exists>ok. reported buf src s i j ok \<and> cell (se_punch s') i j = (if ok \<noteq> 0 then 1 else 0))"
    using punch_change [OF assms(3) _ assms(4,5,7)] ok(4) by (auto simp: routes_ok_def assms(6))
  moreover have "se_phase t = RV_FREE \<or> se_route_sent t = se_route_sent s \<and> se_route t = se_route s \<and> se_punch t = se_punch s"
    using tick_routes [OF assms(1,2), of now] by (simp add: assms(6,8))
  moreover have "c \<noteq> 0 \<longleftrightarrow> 0 < c" if "0 \<le> c" for c :: int using that by linarith
  ultimately show ?thesis using kept r unfolding route_kept_def by auto
qed

theorem routes_are_final_witness:
  "cell (se_route_sent (rv_sessions (example_server 4) ! 0)) 1 0
    \<and> cell (se_route (rv_sessions (example_server 4) ! 0)) 1 0 = LOBBY_ROUTE_DIRECT"
proof -
  have "example_server 4 =
      fst (rv_handle 400 guest_ep (packet_of (LOBBY_PUNCH_REPORT 8225 0 1 1)) (example_server 3))"
    by (simp add: example_server_def example_events_def numeral_eq_Suc)
  then show ?thesis
    using routes_are_final [OF example_reached, of 0 3 0 1, OF _ _ _ _ refl refl refl] example_3 example_4 by simp
qed

section \<open>Packets stay inside the session\<close>

lemma emit_to: "(d, b) \<in> set (emit_msg e m) \<Longrightarrow> d = e"
  by (auto simp: emit_msg_def split: option.splits)

lemma seated_iff: "Some e \<in> set (slots s) \<longleftrightarrow> (\<exists>p \<in> set (se_peers s). pe_used p \<and> pe_public p = e)"
  by (auto simp: slots_def image_iff)

lemma peer_seated: "i < length (se_peers s) \<Longrightarrow> pe_used (se_peers s ! i) \<Longrightarrow> Some (pe_public (se_peers s ! i)) \<in> set (slots s)"
  unfolding seated_iff by (intro bexI [of _ "se_peers s ! i"]) simp_all

lemma fan_peer_intro_to:
  "(d, b) \<in> set (fan_peer_intro s slot) \<Longrightarrow> length (se_peers s) = 4 \<Longrightarrow> slot < 4 \<Longrightarrow> pe_used (se_peers s ! slot) \<Longrightarrow>
     Some d \<in> set (slots s)"
  by (auto simp: fan_peer_intro_def rv_sizes peer_seated dest!: emit_to split: if_splits)

lemma resend_intros_to_to: "(d, b) \<in> set (resend_intros_to s who) \<Longrightarrow> d = pe_public (se_peers s ! who)"
  by (auto simp: resend_intros_to_def dest!: emit_to split: if_splits)

lemma fan_start_to: "(d, b) \<in> set (fan_start s unacked) \<Longrightarrow> Some d \<in> set (slots s)"
  by (auto simp: fan_start_def seated_iff dest!: emit_to split: option.splits if_splits)

lemma fan_route_to: "(d, b) \<in> set (fan_route s m) \<Longrightarrow> Some d \<in> set (slots s)"
  by (auto simp: fan_route_def seated_iff dest!: emit_to split: if_splits)

text \<open>The packets of one datagram: back to its sender, or to a seat of a session the sender sits in.\<close>

definition inside :: "LobbyEndpoint \<Rightarrow> RvSession list \<Rightarrow> LobbyEndpoint \<Rightarrow> bool" where
  "inside src ss d \<longleftrightarrow> d = src \<or> (\<exists>s \<in> set ss. Some src \<in> set (slots s) \<and> Some d \<in> set (slots s))"

lemma insideI: "i < length ss \<Longrightarrow> Some src \<in> set (slots (ss ! i)) \<Longrightarrow> Some d \<in> set (slots (ss ! i)) \<Longrightarrow> inside src ss d"
  unfolding inside_def by (metis nth_mem)

lemma host_inside:
  assumes "list_all session_ok (rv_sessions rv)" and "(d, b) \<in> set (snd (do_host_req now src ver np prv rv))"
  shows "d = src"
proof (cases "find_index (hosted_lobby src) (rv_sessions rv)")
  case (Some i)
  then have i: "i < length (rv_sessions rv)" "hosted_lobby src (rv_sessions rv ! i)"
    by (auto dest: find_index_SomeD)
  then have "length (se_peers (rv_sessions rv ! i)) = 4"
    using assms(1) by (auto dest: list_all_nthD session_okD(1))
  then have "pe_public (se_peers (seen now 0 (rv_sessions rv ! i)) ! 0) = src"
    using i(2) by (simp add: seen_def hosted_lobby_def)
  with Some i(1) assms(2) show ?thesis
    by (auto simp: do_host_req_def at_session_table Let_def dest!: emit_to resend_intros_to_to)
next
  case None
  with assms(2) show ?thesis
    by (auto simp: do_host_req_def emit_reject_def Let_def dest!: emit_to split: option.splits prod.splits if_splits)
qed

lemma seen_public: "pe_public (se_peers (seen now p s) ! i) = pe_public (se_peers s ! i)"
  unfolding seen_def by (simp add: field_update)

lemma join_inside:
  assumes "list_all session_ok (rv_sessions rv)" and "(d, b) \<in> set (snd (do_join_req now src sid ver prv rv))"
  shows "inside src (rv_sessions (fst (do_join_req now src sid ver prv rv))) d"
proof (cases "find_session (rv_sessions rv) sid")
  case None
  with assms(2) show ?thesis by (auto simp: do_join_req_def emit_reject_def inside_def dest!: emit_to)
next
  case (Some i)
  note live = live_session [OF assms(1) Some]
  let ?s = "rv_sessions rv ! i"
  have retry: "pe_public (se_peers (seen now p ?s) ! p) = src" if "peer_of ?s src = Some p" for p
    using peer_of_SomeD [OF that] live(3) by (auto simp: seen_public slots_nth)
  have joined: "inside src ((rv_sessions rv)[i := add_peer now slot src prv ?s]) d"
    if "find_index (\<lambda>p. \<not> pe_used p) (se_peers ?s) = Some slot"
      "(d, b) \<in> set (fan_peer_intro (add_peer now slot src prv ?s) slot)" for slot
  proof -
    have slot: "slot < 4" using that(1) live(3) by (auto dest: find_index_SomeD)
    then have "pe_used (se_peers (add_peer now slot src prv ?s) ! slot)"
      using live(3) by (simp add: add_peer_def new_peer_def)
    then have "Some d \<in> set (slots (add_peer now slot src prv ?s))"
      using fan_peer_intro_to [OF that(2)] slot live(3) by (simp add: peers_length)
    moreover have "Some src \<in> set (slots (add_peer now slot src prv ?s))"
      using slot live(3) by (simp add: set_update_memI)
    ultimately show ?thesis using live(1) by (intro insideI [of i]) auto
  qed
  show ?thesis
    using assms(2) Some live(1) retry joined
    by (auto simp: do_join_req_def emit_reject_def at_session_table Let_def inside_def
        dest!: emit_to resend_intros_to_to split: option.splits if_splits)
qed

lemma report_inside:
  assumes "list_all session_ok (rv_sessions rv)" and "(d, b) \<in> set (snd (do_punch_report now src sid x y ok rv))"
  shows "inside src (rv_sessions (fst (do_punch_report now src sid x y ok rv))) d"
proof (cases "find_session (rv_sessions rv) sid")
  case None
  with assms(2) show ?thesis by (simp add: do_punch_report_def)
next
  case (Some i)
  let ?s = "rv_sessions rv ! i"
  have out: "d = src \<or> Some d \<in> set (slots ?s)" if "(d, b) \<in> set (snd (report_punch now src rep oth sa sb ok ?s))" for rep oth sa sb
    using that by (auto simp: report_punch_def Let_def dest!: emit_to fan_route_to split: if_splits)
  show ?thesis
  proof (cases "peer_of ?s src")
    case None
    with assms(2) Some show ?thesis by (simp add: do_punch_report_def)
  next
    case rep: (Some rep)
    then have "Some src \<in> set (slots ?s)"
      using peer_of_None [of ?s src] by auto
    then show ?thesis
      using assms(2) Some rep live_session(1) [OF assms(1) Some] out
      by (auto simp: do_punch_report_def Let_def at_session_table case_prod_unfold inside_def
          intro!: bexI [of _ "fst (report_punch now src _ _ _ _ ok ?s)"] set_update_memI split: if_splits)
  qed
qed

lemma start_inside:
  assumes "list_all session_ok (rv_sessions rv)" and "(d, b) \<in> set (snd (do_start now src m rv))"
  shows "inside src (rv_sessions (fst (do_start now src m rv))) d"
proof (cases "find_index (hosts src) (rv_sessions rv)")
  case None
  with assms(2) show ?thesis by (simp add: do_start_def)
next
  case (Some i)
  then have i: "i < length (rv_sessions rv)" "hosts src (rv_sessions rv ! i)"
    by (auto dest: find_index_SomeD)
  let ?s = "start_session now m (rv_sessions rv ! i)"
  have "length (se_peers (rv_sessions rv ! i)) = 4"
    using assms(1) i(1) by (auto dest: list_all_nthD session_okD(1))
  then have "Some src \<in> set (slots ?s)"
    using i(2) peer_seated [of 0 "rv_sessions rv ! i"] by (simp add: hosts_def)
  moreover have "Some d \<in> set (slots ?s)"
    using assms(2) Some i(1) fan_start_to [of d b ?s]
    by (auto simp: do_start_def at_session_table Let_def split: if_splits)
  ultimately have "inside src ((rv_sessions rv)[i := ?s]) d"
    using i(1) by (intro insideI [of i]) auto
  then show ?thesis
    using assms(2) Some by (auto simp: do_start_def at_session_table Let_def split: if_splits)
qed

lemma relay_cases:
  assumes "list_all session_ok (rv_sessions rv)"
  shows "do_relay now src sid fs ts buf rv = (rv, [])
    \<or> (\<exists>i d. i < length (rv_sessions rv) \<and> se_phase (rv_sessions rv ! i) \<noteq> RV_FREE \<and> se_id (rv_sessions rv ! i) = sid
        \<and> unat fs < 4 \<and> unat ts < 4
        \<and> slots (rv_sessions rv ! i) ! unat fs = Some src \<and> slots (rv_sessions rv ! i) ! unat ts = Some d
        \<and> snd (do_relay now src sid fs ts buf rv) = [(d, buf)]
        \<and> rv_sessions (fst (do_relay now src sid fs ts buf rv))
          = (rv_sessions rv)[i := relayed now (unat fs) (rv_sessions rv ! i)]
        \<and> rv_forwards (fst (do_relay now src sid fs ts buf rv)) = rv_forwards rv + 1)"
proof (cases "find_session (rv_sessions rv) sid")
  case None
  then show ?thesis by (simp add: do_relay_def)
next
  case (Some i)
  note live = live_session [OF assms Some]
  show ?thesis
  proof (cases "do_relay now src sid fs ts buf rv = (rv, [])")
    case False
    then have g: "unat fs < 4" "unat ts < 4" "pe_used (se_peers (rv_sessions rv ! i) ! unat fs)"
        "pe_public (se_peers (rv_sessions rv ! i) ! unat fs) = src" "pe_used (se_peers (rv_sessions rv ! i) ! unat ts)"
      using Some by (auto simp: do_relay_def Let_def rv_sizes split: if_splits)
    then have "do_relay now src sid fs ts buf rv
        = ((at_session i (relayed now (unat fs)) rv)\<lparr>rv_forwards := rv_forwards rv + 1\<rparr>,
           [(pe_public (se_peers (rv_sessions rv ! i) ! unat ts), buf)])"
      using Some by (simp add: do_relay_def rv_sizes)
    then show ?thesis
      using g live find_session_SomeD [OF Some]
      by (intro disjI2 exI [of _ i] exI [of _ "pe_public (se_peers (rv_sessions rv ! i) ! unat ts)"])
        (simp add: slots_nth at_session_table)
  qed simp
qed

lemma relay_inside:
  assumes "list_all session_ok (rv_sessions rv)" and "(d, b) \<in> set (snd (do_relay now src sid fs ts buf rv))"
  shows "inside src (rv_sessions (fst (do_relay now src sid fs ts buf rv))) d"
  using relay_cases [OF assms(1), of now src sid fs ts buf]
proof
  assume "do_relay now src sid fs ts buf rv = (rv, [])"
  with assms(2) show ?thesis by simp
next
  assume "\<exists>i d. i < length (rv_sessions rv) \<and> se_phase (rv_sessions rv ! i) \<noteq> RV_FREE \<and> se_id (rv_sessions rv ! i) = sid
        \<and> unat fs < 4 \<and> unat ts < 4
        \<and> slots (rv_sessions rv ! i) ! unat fs = Some src \<and> slots (rv_sessions rv ! i) ! unat ts = Some d
        \<and> snd (do_relay now src sid fs ts buf rv) = [(d, buf)]
        \<and> rv_sessions (fst (do_relay now src sid fs ts buf rv))
          = (rv_sessions rv)[i := relayed now (unat fs) (rv_sessions rv ! i)]
        \<and> rv_forwards (fst (do_relay now src sid fs ts buf rv)) = rv_forwards rv + 1"
  then obtain i where i: "i < length (rv_sessions rv)" "unat fs < 4" "unat ts < 4"
      "slots (rv_sessions rv ! i) ! unat fs = Some src" "slots (rv_sessions rv ! i) ! unat ts = Some d"
      "rv_sessions (fst (do_relay now src sid fs ts buf rv))
        = (rv_sessions rv)[i := relayed now (unat fs) (rv_sessions rv ! i)]"
    using assms(2) by auto
  moreover have "length (se_peers (rv_sessions rv ! i)) = 4"
    using assms(1) i(1) by (auto dest: list_all_nthD session_okD(1))
  ultimately show ?thesis
    by (simp only:) (rule insideI [of i]; simp add: in_set_conv_nth; metis)
qed

lemma dispatch_inside:
  assumes "list_all session_ok (rv_sessions rv)" and "(d, b) \<in> set (snd (rv_dispatch now src buf m rv))"
  shows "inside src (rv_sessions (fst (rv_dispatch now src buf m rv))) d"
  using assms
  by (cases m) (auto simp: rv_dispatch_def join_inside report_inside start_inside relay_inside
      dest: host_inside, auto simp: inside_def dest: host_inside)

text \<open>C32: Nothing the server sends in answer to a datagram leaves the sender's own sessions: every packet
  goes back to the sender, or to an endpoint that sits in one session with it.\<close>

theorem packets_stay_inside:
  assumes "rv_reached rv" and "(dest, bytes) \<in> set (snd (rv_handle now src buf rv))"
  shows "dest = src
    \<or> (\<exists>s \<in> set (rv_sessions (fst (rv_handle now src buf rv))). Some src \<in> set (slots s) \<and> Some dest \<in> set (slots s))"
proof -
  have ok: "list_all session_ok (rv_sessions rv)"
    using rv_reached_ok [OF assms(1)] by (simp add: rv_ok_def table_ok_def)
  have "inside src (rv_sessions (fst (rv_handle now src buf rv))) dest"
    using assms(2) dispatch_inside [OF ok] dispatch_inside [of "fst (rate_take rv now (ep_ip src))"] ok
    by (auto simp: rv_handle_def case_prod_unfold Let_def split: option.splits if_splits)
  then show ?thesis by (simp add: inside_def)
qed

lemma find_session_first: "0 < length ss \<Longrightarrow> se_phase (ss ! 0) \<noteq> RV_FREE \<Longrightarrow> se_id (ss ! 0) \<noteq> 0 \<Longrightarrow> find_session ss (se_id (ss ! 0)) = Some 0"
  by (cases ss) (simp_all add: find_session_def)

lemma example_relay:
  "snd (rv_handle 450 guest_ep (packet_of (LOBBY_RELAY 8225 1 0 [1, 2, 3])) (example_server 4))
     = [(host_ep, packet_of (LOBBY_RELAY 8225 1 0 [1, 2, 3]))]"
proof -
  have len: "length (rv_sessions (example_server 4)) = 64"
    using rv_reached_ok [OF example_reached, of 4] by (simp add: rv_ok_def table_ok_def)
  have "length (se_peers (rv_sessions (example_server 4) ! 0)) = 4"
    using reached_session(5) [OF example_reached, of 0 4] example_4 by simp
  then have peers: "pe_used (se_peers (rv_sessions (example_server 4) ! 0) ! 0)"
      "pe_public (se_peers (rv_sessions (example_server 4) ! 0) ! 0) = host_ep"
      "pe_used (se_peers (rv_sessions (example_server 4) ! 0) ! Suc 0)"
      "pe_public (se_peers (rv_sessions (example_server 4) ! 0) ! Suc 0) = guest_ep"
    using example_4(3) slots_nth(1) [of 0 "rv_sessions (example_server 4) ! 0" host_ep]
      slots_nth(1) [of 1 "rv_sessions (example_server 4) ! 0" guest_ep] by simp_all
  have "find_session (rv_sessions (example_server 4)) 8225 = Some 0"
    using find_session_first [of "rv_sessions (example_server 4)"] len example_4 by simp
  then show ?thesis
    using unpack_packet_of [of "LOBBY_RELAY 8225 1 0 [1, 2, 3]"] peers
    by (simp add: rv_handle_def is_relay_def rv_dispatch_def do_relay_def rv_sizes payload_of_def)
qed

theorem packets_stay_inside_witness:
  "\<exists>s \<in> set (rv_sessions (fst (rv_handle 450 guest_ep (packet_of (LOBBY_RELAY 8225 1 0 [1, 2, 3])) (example_server 4)))).
     Some guest_ep \<in> set (slots s) \<and> Some host_ep \<in> set (slots s)"
  using packets_stay_inside [OF example_reached, of host_ep "packet_of (LOBBY_RELAY 8225 1 0 [1, 2, 3])" 450
      guest_ep "packet_of (LOBBY_RELAY 8225 1 0 [1, 2, 3])" 4] example_relay by simp

section \<open>The relay\<close>

definition may_relay :: "LobbyEndpoint \<Rightarrow> u16 \<Rightarrow> u8 \<Rightarrow> u8 \<Rightarrow> LobbyEndpoint \<Rightarrow> RvSession \<Rightarrow> bool" where
  "may_relay src sid fs ts d s \<longleftrightarrow> se_phase s \<noteq> RV_FREE \<and> se_id s = sid \<and> unat fs < 4 \<and> unat ts < 4
     \<and> slots s ! unat fs = Some src \<and> slots s ! unat ts = Some d"

lemma relay_reaches:
  assumes "rv_reached rv" and "i < 64" and "may_relay src sid fs ts d (rv_sessions rv ! i)"
  shows "snd (do_relay now src sid fs ts buf rv) = [(d, buf)]"
proof -
  have table: "table_ok (rv_sessions rv)" using rv_reached_ok [OF assms(1)] by (simp add: rv_ok_def)
  have "find_session (rv_sessions rv) sid = Some i"
    using find_session_unique [OF table assms(2)] assms(3) by (auto simp: may_relay_def)
  moreover have "length (se_peers (rv_sessions rv ! i)) = 4"
    using table assms(2) by (auto simp: table_ok_def dest: list_all_nthD session_okD(1))
  ultimately show ?thesis
    using assms(3) by (auto simp: do_relay_def rv_sizes may_relay_def slots_nth)
qed

lemma relay_forwards:
  assumes "rv_reached rv" and "lobby_unpack buf = Some (Some (LOBBY_RELAY sid fs ts payload))"
    and "i < 64" and "may_relay src sid fs ts d (rv_sessions rv ! i)"
  shows "snd (rv_handle now src buf rv) = [(d, buf)]"
  using relay_reaches [OF assms(1,3,4)] assms(2) by (simp add: rv_handle_def is_relay_def rv_dispatch_def)

text \<open>C18: A RELAY datagram is forwarded exactly when its session lives, its sender sits in the seat it
  claims and the target seat is taken; then one packet goes out, to the target, with the very
  bytes that came in, and the forward counter counts it.  Otherwise nothing happens at all.\<close>

theorem relay_is_authorised_and_verbatim:
  assumes "rv_reached rv" and "lobby_unpack buf = Some (Some (LOBBY_RELAY sid fs ts payload))"
  shows "(\<exists>i < 64. \<exists>dest. may_relay src sid fs ts dest (rv_sessions rv ! i)
      \<and> snd (rv_handle now src buf rv) = [(dest, buf)]
      \<and> rv_forwards (fst (rv_handle now src buf rv)) = rv_forwards rv + 1)
    \<or> (\<forall>i < 64. \<forall>dest. \<not> may_relay src sid fs ts dest (rv_sessions rv ! i)) \<and> rv_handle now src buf rv = (rv, [])"
proof -
  have table: "table_ok (rv_sessions rv)" and ok: "list_all session_ok (rv_sessions rv)" "length (rv_sessions rv) = 64"
    using rv_reached_ok [OF assms(1)] by (simp_all add: rv_ok_def table_ok_def)
  have h: "rv_handle now src buf rv = do_relay now src sid fs ts buf rv"
    using assms(2) by (simp add: rv_handle_def is_relay_def rv_dispatch_def)
  have forwarded: "do_relay now src sid fs ts buf rv \<noteq> (rv, [])"
    if "i < 64" "may_relay src sid fs ts d (rv_sessions rv ! i)" for i d
    using relay_reaches [OF assms(1) that, of now buf] by auto
  show ?thesis
    using relay_cases [OF ok(1), of now src sid fs ts buf] forwarded ok(2)
    unfolding h may_relay_def [symmetric] by (auto simp: may_relay_def)
qed

theorem relay_is_authorised_and_verbatim_witness:
  "rv_forwards (fst (rv_handle 450 guest_ep (packet_of (LOBBY_RELAY 8225 1 0 [1, 2, 3])) (example_server 4)))
     = rv_forwards (example_server 4) + 1"
proof -
  have "lobby_unpack (packet_of (LOBBY_RELAY 8225 1 0 [1, 2, 3])) = Some (Some (LOBBY_RELAY 8225 1 0 [1, 2, 3]))"
    by (rule unpack_packet_of) (simp add: payload_of_def)
  from relay_is_authorised_and_verbatim [OF example_reached this, of guest_ep 4 450] show ?thesis
    using example_relay by auto
qed

end
