(* ===== verification/Float32.thy ===== *)
theory Float32
  imports Arena_Prelude Complex_Main
begin

text \<open>
  C's \<open>float\<close> as the viewer uses it: IEEE 754 binary32, every operation rounded to nearest with ties
  to even, nothing contracted (\<open>FLT_EVAL_METHOD\<close> 0).  All of it computes on natural numbers; the value
  of a float is a real number in the lemmas only.  What the mathematical library leaves to the
  implementation (\<open>sinf\<close>, \<open>cosf\<close>, \<open>tanf\<close>) is the record \<open>Trig\<close>, an argument of what uses it.
\<close>

section \<open>Floats\<close>

text \<open>Sign, significand, exponent: the value is \<open>m * 2 ^ e\<close>.\<close>

datatype f32 = NaN | Infinite bool | Finite bool nat int

fun bits :: "nat \<Rightarrow> nat" where
  "bits n = (if n = 0 then 0 else Suc (bits (n div 2)))"

declare bits.simps [simp del]

text \<open>The integer nearest to \<open>p / q\<close>, the even one of two.\<close>

definition near :: "nat \<Rightarrow> nat \<Rightarrow> nat" where
  "near p q = (let k = p div q; r = 2 * (p mod q) in if q < r \<or> r = q \<and> odd k then k + 1 else k)"

text \<open>\<open>p / q\<close> divided by \<open>2 ^ e\<close>.\<close>

definition scaled :: "nat \<Rightarrow> nat \<Rightarrow> int \<Rightarrow> nat \<times> nat" where
  "scaled p q e = (if 0 \<le> e then (p, q * 2 ^ nat e) else (p * 2 ^ nat (- e), q))"

text \<open>The exponent of the last place: 24 bits of significand, at least \<open>- 149\<close>.\<close>

definition last_place :: "nat \<Rightarrow> nat \<Rightarrow> int" where
  "last_place p q =
     (let e = int (bits p) - int (bits q) - 24; (a, b) = scaled p q e
      in max (- 149) (if 2 ^ 24 * b \<le> a then e + 1 else e))"

definition pack_f32 :: "bool \<Rightarrow> nat \<Rightarrow> int \<Rightarrow> f32" where
  "pack_f32 neg m e = (if 104 < e then Infinite neg else Finite neg m e)"

definition fround :: "bool \<Rightarrow> nat \<Rightarrow> nat \<Rightarrow> f32" where
  "fround neg p q =
     (if p = 0 then Finite neg 0 (- 149)
      else (let e = last_place p q; (a, b) = scaled p q e; m = near a b
            in if m = 2 ^ 24 then pack_f32 neg (2 ^ 23) (e + 1) else pack_f32 neg m e))"

text \<open>A decimal literal \<open>p / q\<close> and the conversion of an integer.\<close>

definition lit :: "nat \<Rightarrow> nat \<Rightarrow> f32" where "lit p q = fround False p q"
definition fint :: "int \<Rightarrow> f32" where "fint i = fround (i < 0) (nat \<bar>i\<bar>) 1"

section \<open>Operations\<close>

definition with_sign :: "bool \<Rightarrow> nat \<Rightarrow> int" where
  "with_sign neg m = (if neg then - int m else int m)"

text \<open>\<open>n * 2 ^ e\<close> rounded.\<close>

definition fround_exp :: "bool \<Rightarrow> nat \<Rightarrow> nat \<Rightarrow> int \<Rightarrow> f32" where
  "fround_exp neg p q e = (if 0 \<le> e then fround neg (p * 2 ^ nat e) q else fround neg p (q * 2 ^ nat (- e)))"

fun fneg :: "f32 \<Rightarrow> f32" where
  "fneg NaN = NaN"
| "fneg (Infinite s) = Infinite (\<not> s)"
| "fneg (Finite s m e) = Finite (\<not> s) m e"

fun fadd :: "f32 \<Rightarrow> f32 \<Rightarrow> f32" where
  "fadd NaN y = NaN"
| "fadd (Infinite s) NaN = NaN"
| "fadd (Infinite s) (Infinite t) = (if s = t then Infinite s else NaN)"
| "fadd (Infinite s) (Finite t n f) = Infinite s"
| "fadd (Finite s m e) NaN = NaN"
| "fadd (Finite s m e) (Infinite t) = Infinite t"
| "fadd (Finite s m e) (Finite t n f) =
     (let g = min e f; k = with_sign s m * 2 ^ nat (e - g) + with_sign t n * 2 ^ nat (f - g)
      in fround_exp (if k = 0 then s \<and> t else k < 0) (nat \<bar>k\<bar>) 1 g)"

fun fmul :: "f32 \<Rightarrow> f32 \<Rightarrow> f32" where
  "fmul NaN y = NaN"
| "fmul (Infinite s) NaN = NaN"
| "fmul (Infinite s) (Infinite t) = Infinite (s \<noteq> t)"
| "fmul (Infinite s) (Finite t n f) = (if n = 0 then NaN else Infinite (s \<noteq> t))"
| "fmul (Finite s m e) NaN = NaN"
| "fmul (Finite s m e) (Infinite t) = (if m = 0 then NaN else Infinite (s \<noteq> t))"
| "fmul (Finite s m e) (Finite t n f) = fround_exp (s \<noteq> t) (m * n) 1 (e + f)"

fun fdiv :: "f32 \<Rightarrow> f32 \<Rightarrow> f32" where
  "fdiv NaN y = NaN"
| "fdiv (Infinite s) NaN = NaN"
| "fdiv (Infinite s) (Infinite t) = NaN"
| "fdiv (Infinite s) (Finite t n f) = Infinite (s \<noteq> t)"
| "fdiv (Finite s m e) NaN = NaN"
| "fdiv (Finite s m e) (Infinite t) = Finite (s \<noteq> t) 0 (- 149)"
| "fdiv (Finite s m e) (Finite t n f) =
     (if n = 0 then (if m = 0 then NaN else Infinite (s \<noteq> t)) else fround_exp (s \<noteq> t) m n (e - f))"

text \<open>The root of \<open>m * 2 ^ e\<close>: \<open>m\<close> is scaled to 50 bits or more and an even exponent, and the bit after
  the integer root says whether the root is larger, which is all that rounding can see.\<close>

definition root_parts :: "nat \<Rightarrow> int \<Rightarrow> nat \<times> int" where
  "root_parts m e =
     (let k = 50 - bits m + (if even (e - int (50 - bits m)) then 0 else 1) in (m * 2 ^ k, e - int k))"

definition next_root :: "nat \<Rightarrow> nat \<Rightarrow> nat" where
  "next_root n r = (if (2 * r + 1) * (2 * r + 1) \<le> n then 2 * r + 1 else 2 * r)"

fun iroot :: "nat \<Rightarrow> nat" where
  "iroot n = (if n = 0 then 0 else next_root n (iroot (n div 4)))"

declare iroot.simps [simp del]

definition sticky :: "nat \<Rightarrow> nat \<Rightarrow> nat" where
  "sticky n r = 2 * r + (if r * r = n then 0 else 1)"

fun fsqrt :: "f32 \<Rightarrow> f32" where
  "fsqrt NaN = NaN"
| "fsqrt (Infinite s) = (if s then NaN else Infinite s)"
| "fsqrt (Finite s m e) =
     (if m = 0 then Finite s m e else if s then NaN
      else (let (n, g) = root_parts m e in fround_exp False (sticky n (iroot n)) 1 (g div 2 - 1)))"

fun fabs :: "f32 \<Rightarrow> f32" where
  "fabs NaN = NaN"
| "fabs (Infinite s) = Infinite False"
| "fabs (Finite s m e) = Finite False m e"

fun fless :: "f32 \<Rightarrow> f32 \<Rightarrow> bool" where
  "fless NaN y = False"
| "fless (Infinite s) NaN = False"
| "fless (Infinite s) (Infinite t) = (s \<and> \<not> t)"
| "fless (Infinite s) (Finite t n f) = s"
| "fless (Finite s m e) NaN = False"
| "fless (Finite s m e) (Infinite t) = (\<not> t)"
| "fless (Finite s m e) (Finite t n f) =
     (with_sign s m * 2 ^ nat (e - min e f) < with_sign t n * 2 ^ nat (f - min e f))"

fun feq :: "f32 \<Rightarrow> f32 \<Rightarrow> bool" where
  "feq NaN y = False"
| "feq (Infinite s) NaN = False"
| "feq (Infinite s) (Infinite t) = (s = t)"
| "feq (Infinite s) (Finite t n f) = False"
| "feq (Finite s m e) NaN = False"
| "feq (Finite s m e) (Infinite t) = False"
| "feq (Finite s m e) (Finite t n f) =
     (with_sign s m * 2 ^ nat (e - min e f) = with_sign t n * 2 ^ nat (f - min e f))"

text \<open>\<open>lroundf\<close>: halves away from zero; the result for what is not a number is unspecified.\<close>

fun lroundf :: "f32 \<Rightarrow> int option" where
  "lroundf NaN = None"
| "lroundf (Infinite s) = None"
| "lroundf (Finite s m e) =
     Some (with_sign s (if 0 \<le> e then m * 2 ^ nat e else (2 * m + 2 ^ nat (- e)) div (2 * 2 ^ nat (- e))))"

instantiation f32 :: "{plus, minus, uminus, times, inverse, ord}"
begin

definition plus_f32 :: "f32 \<Rightarrow> f32 \<Rightarrow> f32" where "plus_f32 = fadd"
definition uminus_f32 :: "f32 \<Rightarrow> f32" where "uminus_f32 = fneg"
definition minus_f32 :: "f32 \<Rightarrow> f32 \<Rightarrow> f32" where "minus_f32 x y = fadd x (fneg y)"
definition times_f32 :: "f32 \<Rightarrow> f32 \<Rightarrow> f32" where "times_f32 = fmul"
definition divide_f32 :: "f32 \<Rightarrow> f32 \<Rightarrow> f32" where "divide_f32 = fdiv"
definition inverse_f32 :: "f32 \<Rightarrow> f32" where "inverse_f32 = fdiv (lit 1 1)"
definition less_f32 :: "f32 \<Rightarrow> f32 \<Rightarrow> bool" where "less_f32 = fless"
definition less_eq_f32 :: "f32 \<Rightarrow> f32 \<Rightarrow> bool" where "less_eq_f32 x y \<longleftrightarrow> fless x y \<or> feq x y"

instance ..

end

record Trig =
  tr_sin :: "f32 \<Rightarrow> f32"
  tr_cos :: "f32 \<Rightarrow> f32"
  tr_tan :: "f32 \<Rightarrow> f32"

lemmas float_defs = lit_def fint_def fround_def last_place_def scaled_def near_def pack_f32_def fround_exp_def with_sign_def
  root_parts_def sticky_def next_root_def plus_f32_def uminus_f32_def minus_f32_def times_f32_def divide_f32_def inverse_f32_def
  less_f32_def less_eq_f32_def

text \<open>Samples: \<open>0.1f\<close>, \<open>3.14159265f\<close>, \<open>sqrtf(2)\<close>, \<open>0.1f + 0.2f\<close>, \<open>1.0f / 3.0f\<close>.\<close>

lemma float_samples:
  "lit 1 10 = Finite False 13421773 (- 27)"
  "lit 314159265 100000000 = Finite False 13176795 (- 22)"
  "fsqrt (lit 2 1) = Finite False 11863283 (- 23)"
  "lit 1 10 + lit 2 10 = Finite False 10066330 (- 25)"
  "lit 1 1 / lit 3 1 = Finite False 11184811 (- 25)"
  by (simp_all add: float_defs bits.simps iroot.simps)

end
