(* ===== verification/C_Print.thy ===== *)
theory C_Print
  imports Float32
begin

text \<open>
  The conversions of \<open>printf\<close> that the program uses: \<open>%d\<close> and \<open>%u\<close>, \<open>%x\<close>, \<open>%f\<close> with a fixed number
  of decimals (the exact value rounded to nearest, ties to even), widths, and the truncation of \<open>snprintf\<close>.
\<close>

definition digit :: "nat \<Rightarrow> char" where
  "digit d = ''0123456789abcdef'' ! (d mod 16)"

fun numeral_text :: "nat \<Rightarrow> nat \<Rightarrow> string" where
  "numeral_text b n = (if b \<le> 1 \<or> n < b then [digit n] else numeral_text b (n div b) @ [digit (n mod b)])"

declare numeral_text.simps [simp del]

definition print_u :: "nat \<Rightarrow> string" where "print_u n = numeral_text 10 n"

definition print_d :: "int \<Rightarrow> string" where
  "print_d i = (if i < 0 then ''-'' else []) @ print_u (nat \<bar>i\<bar>)"

definition pad_left :: "char \<Rightarrow> nat \<Rightarrow> string \<Rightarrow> string" where
  "pad_left c w t = replicate (w - length t) c @ t"

definition pad_right :: "nat \<Rightarrow> string \<Rightarrow> string" where
  "pad_right w t = t @ replicate (w - length t) (CHR '' '')"

definition print_x8 :: "nat \<Rightarrow> string" where
  "print_x8 n = pad_left (CHR ''0'') 8 (numeral_text 16 n)"

text \<open>\<open>n\<close> counts of \<open>10 ^ - d\<close>.\<close>

definition print_places :: "nat \<Rightarrow> nat \<Rightarrow> string" where
  "print_places d n = print_u (n div 10 ^ d) @ ''.'' @ pad_left (CHR ''0'') d (print_u (n mod 10 ^ d))"

definition print_ratio :: "nat \<Rightarrow> nat \<Rightarrow> nat \<Rightarrow> string" where
  "print_ratio d p q = print_places d (near (p * 10 ^ d) q)"

text \<open>\<open>%+w.df\<close>.\<close>

fun print_f :: "nat \<Rightarrow> nat \<Rightarrow> f32 \<Rightarrow> string" where
  "print_f w d NaN = pad_left (CHR '' '') w ''+nan''"
| "print_f w d (Infinite s) = pad_left (CHR '' '') w ((if s then ''-'' else ''+'') @ ''inf'')"
| "print_f w d (Finite s m e) =
     pad_left (CHR '' '') w ((if s then ''-'' else ''+'')
       @ (if 0 \<le> e then print_ratio d (m * 2 ^ nat e) 1 else print_ratio d m (2 ^ nat (- e))))"

definition snprintf :: "nat \<Rightarrow> string \<Rightarrow> string" where
  "snprintf cap t = take (cap - 1) t"

section \<open>Lengths\<close>

lemma length_numeral: "2 \<le> b \<Longrightarrow> 0 < k \<Longrightarrow> n < b ^ k \<Longrightarrow> length (numeral_text b n) \<le> k"
proof (induction k arbitrary: n)
  case (Suc k)
  show ?case
  proof (cases "n < b")
    case True
    then show ?thesis by (simp add: numeral_text.simps)
  next
    case False
    then have "0 < k" using Suc.prems by (cases k) simp_all
    moreover have "n div b < b ^ k" using Suc.prems by (simp add: div_less_iff_less_mult mult.commute)
    ultimately show ?thesis using Suc False by (simp add: numeral_text.simps [of b n])
  qed
qed simp

lemma length_print_u: "0 < k \<Longrightarrow> n < 10 ^ k \<Longrightarrow> length (print_u n) \<le> k"
  using length_numeral [of 10 k n] by (simp add: print_u_def)

lemma length_pad_left: "length (pad_left c w t) = max w (length t)"
  by (simp add: pad_left_def)

lemma length_pad_right: "length (pad_right w t) = max w (length t)"
  by (simp add: pad_right_def)

lemma length_places:
  assumes "0 < d" "0 < k" "n < 10 ^ (k + d)"
  shows "length (print_places d n) \<le> k + d + 1"
proof -
  have "n div 10 ^ d < 10 ^ k" using assms(3) by (simp add: div_less_iff_less_mult power_add)
  then have "length (print_u (n div 10 ^ d)) \<le> k" by (rule length_print_u [OF assms(2)])
  moreover have "length (print_u (n mod 10 ^ d)) \<le> d" by (rule length_print_u [OF assms(1)]) simp
  ultimately show ?thesis by (simp add: print_places_def length_pad_left)
qed

lemma print_samples:
  "print_u 0 = ''0''" "print_d (- 42) = ''-42''" "print_x8 48879 = ''0000beef''"
  "print_ratio 3 618 4096 = ''0.151''" "print_f 6 2 (Finite True 13176795 (- 22)) = '' -3.14''"
  by (simp_all add: print_u_def print_d_def print_x8_def print_ratio_def print_places_def pad_left_def near_def
      numeral_text.simps digit_def) (simp add: numeral_eq_Suc)

end
