(* ===== verification/C_Scan.thy ===== *)
theory C_Scan
  imports C_Print Arena_Prelude
begin

text \<open>
  The number readers of the C library that the command lines use: \<open>atoi\<close>, \<open>strtoul\<close> with base 0 and the
  \<open>%u\<close> of \<open>sscanf\<close>.  What is undefined when a number does not fit is an argument; \<open>unsigned long\<close> has 64 bits.
\<close>

definition is_space :: "char \<Rightarrow> bool" where
  "is_space c \<longleftrightarrow> (of_char c :: nat) \<in> {9, 10, 11, 12, 13, 32}"

definition digit_value :: "char \<Rightarrow> nat" where
  "digit_value c =
     (let n = (of_char c :: nat) in
      if 48 \<le> n \<and> n \<le> 57 then n - 48 else if 97 \<le> n \<and> n \<le> 122 then n - 87 else if 65 \<le> n \<and> n \<le> 90 then n - 55 else 99)"

definition digits_of :: "nat \<Rightarrow> string \<Rightarrow> string" where
  "digits_of base t = takeWhile (\<lambda>c. digit_value c < base) t"

definition number_of :: "nat \<Rightarrow> string \<Rightarrow> nat" where
  "number_of base ds = foldl (\<lambda>n c. n * base + digit_value c) 0 ds"

text \<open>Blanks and a sign: whether it is a minus, and the rest.\<close>

definition scan_sign :: "string \<Rightarrow> bool \<times> string" where
  "scan_sign t = (case dropWhile is_space t of [] \<Rightarrow> (False, [])
     | c # cs \<Rightarrow> if c = CHR ''-'' then (True, cs) else if c = CHR ''+'' then (False, cs) else (False, c # cs))"

definition c_atoi :: "(string \<Rightarrow> int) \<Rightarrow> string \<Rightarrow> int" where
  "c_atoi undef t =
     (let (neg, r) = scan_sign t; n = int (number_of 10 (digits_of 10 r)); v = (if neg then - n else n)
      in if is_i32 v then v else undef t)"

text \<open>\<open>strtoul(t, NULL, 0)\<close>: the prefix chooses the base.\<close>

definition base_prefix :: "string \<Rightarrow> nat \<times> string" where
  "base_prefix r =
     (case r of c0 # cx # c # cs \<Rightarrow>
          if c0 = CHR ''0'' \<and> (cx = CHR ''x'' \<or> cx = CHR ''X'') \<and> digit_value c < 16 then (16, c # cs)
          else if c0 = CHR ''0'' then (8, r) else (10, r)
      | c0 # cs \<Rightarrow> (if c0 = CHR ''0'' then 8 else 10, r)
      | [] \<Rightarrow> (10, r))"

definition unsigned_long :: "bool \<Rightarrow> nat \<Rightarrow> u64" where
  "unsigned_long neg n = (if 2 ^ 64 \<le> n then - 1 else if neg then - of_nat n else of_nat n)"

definition c_strtoul0 :: "string \<Rightarrow> u64" where
  "c_strtoul0 t = (let (neg, r) = scan_sign t; (b, r) = base_prefix r in unsigned_long neg (number_of b (digits_of b r)))"

text \<open>\<open>%u\<close>: no digit is no match.  A number that does not fit is undefined.\<close>

definition scan_u :: "(string \<Rightarrow> u32) \<Rightarrow> string \<Rightarrow> (u32 \<times> string) option" where
  "scan_u undef t =
     (let (neg, r) = scan_sign t; ds = digits_of 10 r; n = number_of 10 ds in
      if ds = [] then None
      else Some (if 2 ^ 32 \<le> n then undef t else if neg then - of_nat n else of_nat n, drop (length ds) r))"

definition scan_char :: "char \<Rightarrow> string \<Rightarrow> string option" where
  "scan_char c t = (case t of x # xs \<Rightarrow> if x = c then Some xs else None | [] \<Rightarrow> None)"

section \<open>Printed numbers are read back\<close>

lemma digit_digit: "d < 10 \<Longrightarrow> digit_value (digit d) = d \<and> \<not> is_space (digit d) \<and> digit d \<noteq> CHR ''-'' \<and> digit d \<noteq> CHR ''+''"
proof -
  assume "d < 10"
  moreover have "\<forall>d \<in> set [0..<10]. digit_value (digit d) = d \<and> \<not> is_space (digit d) \<and> digit d \<noteq> CHR ''-'' \<and> digit d \<noteq> CHR ''+''"
    by code_simp
  ultimately show ?thesis by simp
qed

lemma print_u_digits: "\<forall>c \<in> set (print_u n). \<exists>d < 10. c = digit d"
  unfolding print_u_def
proof (induction n rule: less_induct)
  case (less n)
  show ?case
  proof (cases "n < 10")
    case True
    then show ?thesis by (auto simp: numeral_text.simps)
  next
    case False
    then have "\<forall>c \<in> set (numeral_text 10 (n div 10)). \<exists>d < 10. c = digit d" by (intro less) simp
    then show ?thesis using False by (auto simp: numeral_text.simps [of 10 n]) (metis mod_less_divisor zero_less_numeral)
  qed
qed

lemma print_u_nonempty [simp]: "print_u n \<noteq> []"
  by (simp add: print_u_def numeral_text.simps [of 10 n])

lemma number_print_u: "number_of 10 (print_u n) = n"
  unfolding print_u_def
proof (induction n rule: less_induct)
  case (less n)
  show ?case
  proof (cases "n < 10")
    case True
    then show ?thesis using digit_digit [of n] by (simp add: numeral_text.simps [of 10 n] number_of_def)
  next
    case False
    then have "number_of 10 (numeral_text 10 (n div 10)) = n div 10" by (intro less) simp
    then show ?thesis using False digit_digit [of "n mod 10"] by (simp add: numeral_text.simps [of 10 n] number_of_def)
  qed
qed

lemma scan_print_u:
  assumes "n < 2 ^ 32" "rest = [] \<or> 10 \<le> digit_value (hd rest)"
  shows "scan_u undef (print_u n @ rest) = Some (of_nat n, rest)"
proof -
  obtain c cs where c: "print_u n = c # cs" by (metis print_u_nonempty neq_Nil_conv)
  obtain d where d: "d < 10" "c = digit d" using print_u_digits [of n] c by auto
  have sign: "scan_sign (print_u n @ rest) = (False, print_u n @ rest)"
    using digit_digit [OF d(1)] d(2) by (simp add: scan_sign_def c)
  have "takeWhile (\<lambda>c. digit_value c < 10) (print_u n @ rest) = print_u n"
  proof -
    have all: "digit_value c < 10" if "c \<in> set (print_u n)" for c using print_u_digits [of n] digit_digit that by force
    have "takeWhile (\<lambda>c. digit_value c < 10) rest = []" using assms(2) by (cases rest) simp_all
    then show ?thesis using all by (simp add: takeWhile_append2)
  qed
  then show ?thesis using assms(1) by (simp add: scan_u_def sign digits_of_def number_print_u)
qed

end
