(* ===== verification/Rv_Main.thy ===== *)
theory Rv_Main
  imports Rv_Props C_Scan
begin

text \<open>
  The process around the server (\<open>src/src/lobby/rendezvous_main.c\<close>): start-up and the body of its
  endless loop.  The socket and the clock are arguments: what \<open>udp_recv\<close> returned (\<open>None\<close> for
  nothing or an error) and the time read after it.  Sending never blocks the loop; what is
  emitted is returned, and so are the lines printed.
\<close>

section \<open>The port\<close>

text \<open>The last \<open>--port\<close> counts.\<close>

definition server_port :: "(string \<Rightarrow> int) \<Rightarrow> string list \<Rightarrow> u16" where
  "server_port undef argv =
     fold (\<lambda>(a, v) port. if a = ''--port'' then of_int (c_atoi undef v) else port) (zip (tl argv) (tl (tl argv))) LOBBY_DEFAULT_PORT"

section \<open>The loop\<close>

datatype ServerLog = LogListening u16 | LogSessions nat | LogRelayActive

record ServerLoop =
  sl_rv :: Rendezvous
  sl_last_tick :: u32
  sl_last_sessions :: nat
  sl_relay_logged :: bool

text \<open>\<open>None\<close> is the exit with code 1 when the socket cannot be bound.\<close>

definition server_start :: "bool \<Rightarrow> u32 \<Rightarrow> u16 \<Rightarrow> (ServerLoop \<times> ServerLog list) option" where
  "server_start bound boot port =
     (if bound
      then Some (\<lparr>sl_rv = rv_init boot (boot XOR 0xA3A3A3A3), sl_last_tick = boot, sl_last_sessions = 0,
                  sl_relay_logged = False\<rparr>, [LogListening port])
      else None)"

definition server_receive :: "(LobbyEndpoint \<times> u8 list) option \<Rightarrow> u32 \<Rightarrow> Rendezvous \<Rightarrow> Rendezvous \<times> Packets" where
  "server_receive got now rv = (case got of None \<Rightarrow> (rv, []) | Some (src, buf) \<Rightarrow> rv_handle now src buf rv)"

definition server_clock :: "u32 \<Rightarrow> ServerLoop \<Rightarrow> ServerLoop \<times> Packets" where
  "server_clock now s =
     (if 100 \<le> now - sl_last_tick s
      then (let (rv, out) = rv_tick now (sl_rv s) in (s\<lparr>sl_rv := rv, sl_last_tick := now\<rparr>, out))
      else (s, []))"

definition server_log :: "ServerLoop \<Rightarrow> ServerLoop \<times> ServerLog list" where
  "server_log s =
     (let cur = rv_active_sessions (sl_rv s);
          relay = (\<not> sl_relay_logged s \<and> 0 < rv_relay_forwards (sl_rv s))
      in (s\<lparr>sl_last_sessions := cur, sl_relay_logged := (sl_relay_logged s \<or> relay)\<rparr>,
          (if cur \<noteq> sl_last_sessions s then [LogSessions cur] else []) @ (if relay then [LogRelayActive] else [])))"

definition server_turn ::
  "(LobbyEndpoint \<times> u8 list) option \<Rightarrow> u32 \<Rightarrow> ServerLoop \<Rightarrow> ServerLoop \<times> Packets \<times> ServerLog list" where
  "server_turn got now s =
     (let (rv, out) = server_receive got now (sl_rv s);
          (s, later) = server_clock now (s\<lparr>sl_rv := rv\<rparr>);
          (s, lines) = server_log s
      in (s, out @ later, lines))"

inductive serving :: "ServerLoop \<Rightarrow> bool" where
  serving_start: "server_start True boot port = Some (s, lines) \<Longrightarrow> serving s"
| serving_turn: "serving s \<Longrightarrow> server_turn got now s = (s', out, lines) \<Longrightarrow> serving s'"

section \<open>What the loop keeps\<close>

lemma reached_step: "rv_reached rv \<Longrightarrow> rv_reached (rv_step e rv)"
proof -
  assume "rv_reached rv"
  then obtain t seed evs where "rv = fold rv_step evs (rv_init t seed)" by (auto simp: rv_reached_def)
  then have "rv_step e rv = fold rv_step (evs @ [e]) (rv_init t seed)" by simp
  then show ?thesis unfolding rv_reached_def by blast
qed

lemma server_turn_rv:
  "sl_rv (fst (server_turn got now s)) = (let rv = fst (server_receive got now (sl_rv s)) in
     if 100 \<le> now - sl_last_tick s then fst (rv_tick now rv) else rv)"
  "sl_last_tick (fst (server_turn got now s)) = (if 100 \<le> now - sl_last_tick s then now else sl_last_tick s)"
  "sl_last_sessions (fst (server_turn got now s)) = rv_active_sessions (sl_rv (fst (server_turn got now s)))"
  by (simp_all add: server_turn_def server_clock_def server_log_def case_prod_unfold Let_def)

lemma serving_reached: "serving s \<Longrightarrow> rv_reached (sl_rv s)"
proof (induction rule: serving.induct)
  case (serving_start boot port s lines)
  then have "sl_rv s = fold rv_step [] (rv_init boot (boot XOR 0xA3A3A3A3))" by (auto simp: server_start_def)
  then show ?case unfolding rv_reached_def by blast
next
  case (serving_turn s got now s' out lines)
  have "rv_reached (fst (server_receive got now (sl_rv s)))"
  proof (cases got)
    case (Some r)
    obtain src buf where r: "r = (src, buf)" by fastforce
    show ?thesis using reached_step [OF serving_turn.IH, of "Datagram now src buf"] by (simp add: server_receive_def Some r)
  qed (simp add: server_receive_def serving_turn.IH)
  then show ?case
    using reached_step [of "fst (server_receive got now (sl_rv s))" "Clock now"] server_turn_rv(1) [of got now s]
    by (simp add: serving_turn.hyps(2) Let_def)
qed

text \<open>A live session is kept while it is young enough for its phase.\<close>

definition young :: "u32 \<Rightarrow> RvSession \<Rightarrow> bool" where
  "young now s \<longleftrightarrow> (case se_phase s of
       RV_FREE \<Rightarrow> True
     | RV_LOBBY \<Rightarrow> now - se_last_activity s \<le> RV_LOBBY_EXPIRY_MS
     | _ \<Rightarrow> if has_relay s then now - se_last_relay s \<le> RV_RELAY_EXPIRY_MS else now - se_started s \<le> RV_STARTED_EXPIRY_MS)"

lemma young_tick: "young now (fst (tick_session now s))"
proof -
  have clear: "se_phase session_clear = RV_FREE" by (simp add: session_clear_def)
  have reap: "young now (reap now t)" if "se_phase t = RV_STARTING \<or> se_phase t = RV_RUNNING" for t
    using that by (auto simp: reap_def young_def clear)
  show ?thesis
  proof (cases "se_phase s")
    case RV_FREE
    then show ?thesis by (simp add: tick_session_def young_def)
  next
    case RV_LOBBY
    then show ?thesis by (auto simp: tick_session_def young_def clear)
  qed (simp_all add: tick_session_def refan_def reap case_prod_unfold Let_def)
qed

section \<open>Properties\<close>

text \<open>C38: The server cannot fill up with dead lobbies: the loop only ever drives the server through states
  its theorems cover, runs the clock in every turn that comes 100 ms or more after the last run, and
  after such a turn no session is left that has been idle (10 minutes), running without a relay
  (30 s) or silent on the relay (60 s) for longer; the count it logged is the count of live sessions.\<close>

theorem stale_sessions_are_reaped:
  assumes "serving s" and "server_turn got now s = (s', out, lines)"
  shows "rv_reached (sl_rv s') \<and> now - sl_last_tick s' < 100
    \<and> (100 \<le> now - sl_last_tick s \<longrightarrow> list_all (young now) (rv_sessions (sl_rv s')))
    \<and> sl_last_sessions s' = rv_active_sessions (sl_rv s')
    \<and> (sl_last_sessions s' \<noteq> sl_last_sessions s \<longleftrightarrow> LogSessions (sl_last_sessions s') \<in> set lines)"
proof -
  have s': "s' = fst (server_turn got now s)" by (simp add: assms(2))
  have "list_all (young now) (rv_sessions (sl_rv s'))" if "100 \<le> now - sl_last_tick s"
    using that young_tick by (simp add: s' server_turn_rv(1) rv_tick_def list_all_iff Let_def)
  moreover have "now - sl_last_tick s' < 100" by (simp add: s' server_turn_rv(2) not_le)
  moreover have "lines = snd (snd (server_turn got now s))" by (simp add: assms(2))
  then have "sl_last_sessions s' \<noteq> sl_last_sessions s \<longleftrightarrow> LogSessions (sl_last_sessions s') \<in> set lines"
    by (simp add: s' server_turn_def server_clock_def server_log_def case_prod_unfold Let_def)
  ultimately show ?thesis
    using serving_reached [OF serving_turn [OF assms]] server_turn_rv(3) [of got now s] s' by simp
qed

text \<open>An idle server, half a second after it started.\<close>

theorem stale_sessions_are_reaped_witness:
  "\<exists>s s' out lines. server_start True 1000 40064 = Some (s, [LogListening 40064])
    \<and> server_turn None 1500 s = (s', out, lines) \<and> sl_last_sessions s' = rv_active_sessions (sl_rv s')
    \<and> list_all (young 1500) (rv_sessions (sl_rv s'))"
proof -
  obtain s where s: "server_start True 1000 40064 = Some (s, [LogListening 40064])" "sl_last_tick s = 1000"
    by (simp add: server_start_def)
  obtain s' out lines where t: "server_turn None 1500 s = (s', out, lines)" by (metis prod.collapse)
  show ?thesis using stale_sessions_are_reaped [OF serving_start [OF s(1)] t] s t by auto
qed

end
