(* ===== verification/Net_Version.thy ===== *)
theory Net_Version
  imports Sim_Tick Lobby_Proto
begin

text \<open>
  \<open>arena_net_version\<close> of \<open>src/src/lobby/lobby_proto.c\<close>: the checksum under which two builds may
  play together, FNV-1a over the protocol version, the tuning version, the size of the state and
  the hash of the scripted match, as four little-endian words.  The C function caches the value
  and uses 0 for "not computed yet", so 0 itself is folded to 1.
\<close>

definition net_version_of :: "u32 list \<Rightarrow> u32" where
  "net_version_of v = (let h = fnv1a (concat (map le32 v)) in if h \<noteq> 0 then h else 1)"

definition arena_net_version :: u32 where
  "arena_net_version =
     net_version_of [ucast LOBBY_PROTO_VER, TUNE_VERSION, 944, arena_scripted_match_hash]"

lemma net_version_nonzero: "net_version_of v \<noteq> 0"
  by (simp add: net_version_of_def Let_def)

lemma arena_net_version_nonzero: "arena_net_version \<noteq> 0"
  unfolding arena_net_version_def by (rule net_version_nonzero)

lemma net_version_sees_tuning_bump:
  fixes t t' :: u8
  assumes "t \<noteq> t'"
    and "fnv1a (concat (map le32 [p, ucast t, n, h])) \<noteq> 0" "fnv1a (concat (map le32 [p, ucast t', n, h])) \<noteq> 0"
  shows "net_version_of [p, ucast t, n, h] \<noteq> net_version_of [p, ucast t', n, h]"
proof -
  let ?bs = "concat (map le32 [p, ucast t, n, h])"
  have high: "(ucast (drop_bit k (ucast (x :: u8) :: u32)) :: u8) = 0" if "8 \<le> k" for k x
    using that by (intro bit_word_eqI) (auto simp: bit_simps dest: bit_imp_le_length)
  have low: "(ucast (ucast (x :: u8) :: u32) :: u8) = x" for x
    by (intro bit_word_eqI) (auto simp: bit_simps dest: bit_imp_le_length)
  have "concat (map le32 [p, ucast t', n, h]) = ?bs[4 := t']"
    by (simp add: le32_def high low)
  moreover have "?bs ! 4 = t" "length ?bs = 16"
    by (simp_all add: le32_def low)
  ultimately have "fnv1a (concat (map le32 [p, ucast t', n, h])) \<noteq> fnv1a ?bs"
    using assms(1) fnv1a_single_byte [of 4 ?bs t'] by simp
  with assms(2,3) show ?thesis by (simp add: net_version_of_def Let_def)
qed

end
