(* ===== verification/Net_Adapter.thy ===== *)
theory Net_Adapter
  imports Lobby_Proto Arena_State "HOL-Library.Multiset"
begin

text \<open>
  The network adapter between the game's rollback library and the one UDP socket
  (\<open>src/src/netplay/net_adapter.c\<close>, \<open>net_adapter.h\<close>): it wraps game payloads for the route of each
  player, delays or loses them under an impairment profile, and sorts what arrives into game
  payloads and lobby packets.  The static variable \<open>g\<close> is the record \<open>NetAdapter\<close>.  The socket is
  not part of it: datagrams that arrive are an argument, those sent are the list of packets
  returned, and the millisecond clock is an argument.
\<close>

section \<open>State\<close>

definition NA_DELAY_QUEUE :: nat where "NA_DELAY_QUEUE = 512"
definition NA_LOBBY_RING :: nat where "NA_LOBBY_RING = 16"
definition NA_MAX_RESULTS :: nat where "NA_MAX_RESULTS = 64"

lemmas na_sizes = NA_DELAY_QUEUE_def NA_LOBBY_RING_def NA_MAX_RESULTS_def

record DelayedPkt =
  dp_due_ms :: u32
  dp_to :: LobbyEndpoint
  dp_buf :: "u8 list"

record NetImpairment =
  im_seed :: u32
  im_delay_ms :: u16
  im_jitter_ms :: u16
  im_loss_pct :: u8
  im_reorder_pct :: u8

text \<open>The delay queue is the array \<open>dq\<close> with \<open>dq_n\<close> entries in use, the lobby ring a circular
  buffer of packets with their senders.  The byte buffers with their length fields are byte lists.\<close>

record NetAdapter =
  na_active :: bool
  na_session_id :: u16
  na_local_slot :: u8
  na_route :: "NetRoute list"
  na_relay :: LobbyEndpoint
  na_imp :: NetImpairment
  na_imp_on :: bool
  na_imp_rng :: u32
  na_dq :: "DelayedPkt list"
  na_dq_n :: nat
  na_lobbyq :: "Packet list"
  na_lobbyq_head :: nat
  na_lobbyq_count :: nat
  na_drop_count :: u32
  na_loss_count :: u32
  na_overflow_count :: u32

definition delayed_zero :: DelayedPkt where
  "delayed_zero = \<lparr>dp_due_ms = 0, dp_to = endpoint_none, dp_buf = []\<rparr>"

definition impairment_zero :: NetImpairment where
  "impairment_zero = \<lparr>im_seed = 0, im_delay_ms = 0, im_jitter_ms = 0, im_loss_pct = 0, im_reorder_pct = 0\<rparr>"

definition adapter_zero :: NetAdapter where
  "adapter_zero =
     \<lparr>na_active = False, na_session_id = 0, na_local_slot = 0,
      na_route = replicate ARENA_MAX_PLAYERS \<lparr>nr_kind = NET_ROUTE_NONE, nr_ep = endpoint_none\<rparr>,
      na_relay = endpoint_none, na_imp = impairment_zero, na_imp_on = False, na_imp_rng = 0,
      na_dq = replicate NA_DELAY_QUEUE delayed_zero, na_dq_n = 0,
      na_lobbyq = replicate NA_LOBBY_RING (endpoint_none, []), na_lobbyq_head = 0, na_lobbyq_count = 0,
      na_drop_count = 0, na_loss_count = 0, na_overflow_count = 0\<rparr>"

definition na_dropped :: "NetAdapter \<Rightarrow> NetAdapter" where
  "na_dropped g = g\<lparr>na_drop_count := na_drop_count g + 1\<rparr>"

section \<open>Impairment\<close>

definition na_rand :: "NetAdapter \<Rightarrow> u32 \<times> NetAdapter" where
  "na_rand g = (let x = xorshift32 (if na_imp_rng g \<noteq> 0 then na_imp_rng g else 1) in (x, g\<lparr>na_imp_rng := x\<rparr>))"

definition jittered :: "NetAdapter \<Rightarrow> int \<times> NetAdapter" where
  "jittered g =
     (let d = uint (im_delay_ms (na_imp g)); j = uint (im_jitter_ms (na_imp g)) in
      if j \<noteq> 0
      then (let (r, g) = na_rand g; d = d + uint (r mod of_int (2 * j + 1)) - j in (if d < 0 then 0 else d, g))
      else (d, g))"

definition park :: "u32 \<Rightarrow> int \<Rightarrow> bool \<Rightarrow> LobbyEndpoint \<Rightarrow> u8 list \<Rightarrow> NetAdapter \<Rightarrow> NetAdapter" where
  "park now d reorder dest buf g =
     (let n = na_dq_n g;
          dq = (na_dq g)[n := \<lparr>dp_due_ms = now + of_int d, dp_to = dest, dp_buf = buf\<rparr>];
          dq = (if reorder \<and> 2 \<le> n + 1
                then dq[n - 1 := (dq ! (n - 1))\<lparr>dp_due_ms := dp_due_ms (dq ! (n - 1)) + 1\<rparr>] else dq)
      in g\<lparr>na_dq := dq, na_dq_n := n + 1\<rparr>)"

definition impaired_send :: "u32 \<Rightarrow> LobbyEndpoint \<Rightarrow> u8 list \<Rightarrow> NetAdapter \<Rightarrow> NetAdapter \<times> Packet list" where
  "impaired_send now dest buf g =
     (if \<not> na_imp_on g then (g, [(dest, buf)])
      else (let (r, g) = na_rand g in
            if r mod 100 < ucast (im_loss_pct (na_imp g)) then (g\<lparr>na_loss_count := na_loss_count g + 1\<rparr>, [])
            else (let (d, g) = jittered g; (r, g) = na_rand g; reorder = (r mod 100 < ucast (im_reorder_pct (na_imp g))) in
                  if d = 0 then (g, [(dest, buf)])
                  else if NA_DELAY_QUEUE \<le> na_dq_n g
                  then (g\<lparr>na_overflow_count := na_overflow_count g + 1\<rparr>, [(dest, buf)])
                  else (park now d reorder dest buf g, []))))"

text \<open>A packet is due by the signed difference, which is right across the wrap of the clock.\<close>

definition due :: "u32 \<Rightarrow> DelayedPkt \<Rightarrow> bool" where
  "due now p \<longleftrightarrow> 0 \<le> sint (now - dp_due_ms p)"

definition packet_in :: "DelayedPkt \<Rightarrow> Packet" where
  "packet_in p = (dp_to p, dp_buf p)"

definition flush_step ::
  "u32 \<Rightarrow> nat \<Rightarrow> DelayedPkt list \<times> nat \<times> Packet list \<Rightarrow> DelayedPkt list \<times> nat \<times> Packet list" where
  "flush_step now i = (\<lambda>(dq, w, out).
     if due now (dq ! i) then (dq, w, out @ [packet_in (dq ! i)])
     else (if w \<noteq> i then dq[w := dq ! i] else dq, w + 1, out))"

definition flush_due :: "u32 \<Rightarrow> NetAdapter \<Rightarrow> NetAdapter \<times> Packet list" where
  "flush_due now g =
     (if na_dq_n g = 0 then (g, [])
      else (let (dq, w, out) = fold (flush_step now) [0..<na_dq_n g] (na_dq g, 0, [])
            in (g\<lparr>na_dq := dq, na_dq_n := w\<rparr>, out)))"

section \<open>The interface of the rollback library\<close>

text \<open>An address of the library is a byte string, the first byte of which is the slot; \<open>None\<close> is a null
  pointer.  \<open>len\<close> is the length the library gives; \<open>bytes\<close> is the memory it points to.\<close>

definition wrapped :: "u8 \<Rightarrow> u8 list \<Rightarrow> NetAdapter \<Rightarrow> (LobbyMsg \<times> LobbyEndpoint) option" where
  "wrapped slot payload g = (case nr_kind (na_route g ! unat slot) of
       NET_ROUTE_DIRECT \<Rightarrow> Some (LOBBY_GAME (na_session_id g) (na_local_slot g) slot payload, nr_ep (na_route g ! unat slot))
     | NET_ROUTE_RELAY \<Rightarrow> Some (LOBBY_RELAY (na_session_id g) (na_local_slot g) slot payload, na_relay g)
     | NET_ROUTE_NONE \<Rightarrow> None)"

definition na_send :: "u32 \<Rightarrow> u8 list option \<Rightarrow> u8 list \<Rightarrow> int \<Rightarrow> NetAdapter \<Rightarrow> NetAdapter \<times> Packet list" where
  "na_send now addr bytes len g =
     (case addr of None \<Rightarrow> (g, []) | Some a \<Rightarrow>
      if \<not> na_active g \<or> a = [] then (g, [])
      else if len < 0 \<or> LOBBY_MAX_PAYLOAD < nat len then (na_dropped g, [])
      else if ARENA_MAX_PLAYERS \<le> unat (a ! 0) then (na_dropped g, [])
      else (case wrapped (a ! 0) (take (nat len) bytes) g of
              None \<Rightarrow> (na_dropped g, [])
            | Some (m, dest) \<Rightarrow>
                (case lobby_pack m of
                   None \<Rightarrow> (na_dropped g, [])
                 | Some buf \<Rightarrow> impaired_send now dest buf g)))"

definition lobby_ring_push :: "LobbyEndpoint \<Rightarrow> u8 list \<Rightarrow> NetAdapter \<Rightarrow> NetAdapter" where
  "lobby_ring_push src buf g =
     (if na_lobbyq_count g < NA_LOBBY_RING
      then g\<lparr>na_lobbyq := (na_lobbyq g)[(na_lobbyq_head g + na_lobbyq_count g) mod NA_LOBBY_RING := (src, buf)],
             na_lobbyq_count := na_lobbyq_count g + 1\<rparr>
      else g\<lparr>na_lobbyq := (na_lobbyq g)[na_lobbyq_head g := (src, buf)],
             na_lobbyq_head := (na_lobbyq_head g + 1) mod NA_LOBBY_RING\<rparr>)"

text \<open>A result handed to the library: the one address byte and the payload.  \<open>memory\<close> says whether
  the three allocations for it succeed.\<close>

type_synonym GekkoResult = "u8 list \<times> u8 list"

definition game_result :: "bool \<Rightarrow> u16 \<Rightarrow> u8 \<Rightarrow> u8 \<Rightarrow> u8 list \<Rightarrow> NetAdapter \<Rightarrow> NetAdapter \<times> GekkoResult list" where
  "game_result memory sid frm dst payload g =
     (if sid \<noteq> na_session_id g \<or> dst \<noteq> na_local_slot g then (na_dropped g, [])
      else if \<not> memory then (na_dropped g, [])
      else (g, [([frm], payload)]))"

definition sort_in :: "bool \<Rightarrow> Packet \<Rightarrow> NetAdapter \<Rightarrow> NetAdapter \<times> GekkoResult list" where
  "sort_in memory d g = (case lobby_unpack (snd d) of
       Some (Some (LOBBY_GAME sid frm dst payload)) \<Rightarrow> game_result memory sid frm dst payload g
     | Some (Some (LOBBY_RELAY sid frm dst payload)) \<Rightarrow> game_result memory sid frm dst payload g
     | Some (Some _) \<Rightarrow> (lobby_ring_push (fst d) (snd d) g, [])
     | _ \<Rightarrow> (na_dropped g, []))"

fun sort_all :: "(Packet \<times> bool) list \<Rightarrow> NetAdapter \<Rightarrow> NetAdapter \<times> GekkoResult list" where
  "sort_all [] g = (g, [])"
| "sort_all ((d, memory) # ds) g =
     (let (g, rs) = sort_in memory d g; (g, rest) = sort_all ds g in (g, rs @ rest))"

definition na_recv :: "u32 \<Rightarrow> (Packet \<times> bool) list \<Rightarrow> NetAdapter \<Rightarrow> NetAdapter \<times> Packet list \<times> GekkoResult list" where
  "na_recv now inbox g =
     (if \<not> na_active g then (g, [], [])
      else (let (g, out) = flush_due now g; (g, rs) = sort_all (take NA_MAX_RESULTS inbox) g in (g, out, rs)))"

section \<open>Set-up and the lobby packets\<close>

definition net_adapter_init :: "u16 \<Rightarrow> u8 \<Rightarrow> NetAdapter \<Rightarrow> NetAdapter option" where
  "net_adapter_init sid slot g =
     (if na_active g \<or> ARENA_MAX_PLAYERS \<le> unat slot then None
      else Some (adapter_zero\<lparr>na_active := True, na_session_id := sid, na_local_slot := slot\<rparr>))"

definition net_adapter_set_route :: "u8 \<Rightarrow> NetRoute \<Rightarrow> NetAdapter \<Rightarrow> NetAdapter" where
  "net_adapter_set_route slot r g =
     (if \<not> na_active g \<or> ARENA_MAX_PLAYERS \<le> unat slot then g
      else g\<lparr>na_route := (na_route g)[unat slot := r]\<rparr>)"

definition net_adapter_set_relay :: "LobbyEndpoint \<Rightarrow> NetAdapter \<Rightarrow> NetAdapter" where
  "net_adapter_set_relay relay g = (if \<not> na_active g then g else g\<lparr>na_relay := relay\<rparr>)"

definition net_adapter_impair :: "NetImpairment option \<Rightarrow> NetAdapter \<Rightarrow> NetAdapter" where
  "net_adapter_impair imp g =
     (if \<not> na_active g then g
      else (case imp of
              None \<Rightarrow> g\<lparr>na_imp_on := False\<rparr>
            | Some i \<Rightarrow> g\<lparr>na_imp := i, na_imp_on := True, na_imp_rng := (if im_seed i \<noteq> 0 then im_seed i else 1)\<rparr>))"

text \<open>The C function returns the length; a packet taken is never empty, so its 0 is \<open>None\<close> here.\<close>

definition net_adapter_take_lobby_packet :: "nat \<Rightarrow> NetAdapter \<Rightarrow> (Packet \<times> NetAdapter) option" where
  "net_adapter_take_lobby_packet cap g =
     (if \<not> na_active g \<or> na_lobbyq_count g = 0 then None
      else (let d = na_lobbyq g ! na_lobbyq_head g in
            if cap < length (snd d) then None
            else Some (d, g\<lparr>na_lobbyq_head := (na_lobbyq_head g + 1) mod NA_LOBBY_RING,
                            na_lobbyq_count := na_lobbyq_count g - 1\<rparr>)))"

definition net_adapter_shutdown :: "NetAdapter \<Rightarrow> NetAdapter" where
  "net_adapter_shutdown g = adapter_zero"

end
