(* ===== verification/Lobby_Client.thy ===== *)
theory Lobby_Client
  imports Lobby_Code Net_Version Net_Adapter
begin

text \<open>
  The client half of the lobby, \<open>src/src/netplay/lobby_client.c\<close> and \<open>lobby_client.h\<close>: one
  definition per C function, the \<open>switch\<close> of \<open>handle_msg\<close> and of \<open>lobby_poll\<close> split into one
  definition per case.  The socket is not part of the state: what \<open>udp_recv\<close> delivers during a poll
  is an argument (at most 128 datagrams are read), what \<open>udp_send\<close> is given is the list of packets
  returned, and the two values the operating system supplies at the start, the bound port and the
  local endpoint, are arguments too.
\<close>

section \<open>State\<close>

definition LOBBY_RETRY_MS :: u32 where "LOBBY_RETRY_MS = 500"
definition LOBBY_RETRY_MAX :: u8 where "LOBBY_RETRY_MAX = 10"
definition LOBBY_PUNCH_PERIOD_MS :: u32 where "LOBBY_PUNCH_PERIOD_MS = 250"
definition LOBBY_PUNCH_BUDGET_MS :: u32 where "LOBBY_PUNCH_BUDGET_MS = 3000"
definition LOBBY_TIMEOUT_MS :: u32 where "LOBBY_TIMEOUT_MS = 30000"
definition LOBBY_KEEPALIVE_MS :: u32 where "LOBBY_KEEPALIVE_MS = 10000"

datatype LobbyClientStage =
    LOBBY_C_IDLE | LOBBY_C_REGISTERING | LOBBY_C_JOINING | LOBBY_C_WAITING_PEERS
  | LOBBY_C_PUNCHING | LOBBY_C_AWAITING_START | LOBBY_C_READY | LOBBY_C_FAILED

text \<open>The stages are compared as the integers of the C enumeration.\<close>

primrec stage_code :: "LobbyClientStage \<Rightarrow> nat" where
  "stage_code LOBBY_C_IDLE = 0"
| "stage_code LOBBY_C_REGISTERING = 1"
| "stage_code LOBBY_C_JOINING = 2"
| "stage_code LOBBY_C_WAITING_PEERS = 3"
| "stage_code LOBBY_C_PUNCHING = 4"
| "stage_code LOBBY_C_AWAITING_START = 5"
| "stage_code LOBBY_C_READY = 6"
| "stage_code LOBBY_C_FAILED = 7"

lemma stage_code_inj: "stage_code a = stage_code b \<Longrightarrow> a = b"
  by (cases a; cases b) simp_all

instantiation LobbyClientStage :: linorder
begin

definition less_eq_LobbyClientStage :: "LobbyClientStage \<Rightarrow> LobbyClientStage \<Rightarrow> bool" where
  "less_eq_LobbyClientStage a b \<longleftrightarrow> stage_code a \<le> stage_code b"

definition less_LobbyClientStage :: "LobbyClientStage \<Rightarrow> LobbyClientStage \<Rightarrow> bool" where
  "less_LobbyClientStage a b \<longleftrightarrow> stage_code a < stage_code b"

instance
  by standard (auto simp: less_eq_LobbyClientStage_def less_LobbyClientStage_def dest: stage_code_inj)

end

lemmas stage_order = less_eq_LobbyClientStage_def less_LobbyClientStage_def

record LobbyResult =
  lr_local_slot :: u8
  lr_num_players :: u8
  lr_arena_id :: u8
  lr_input_delay :: u8
  lr_session_id :: u16
  lr_seed :: u32
  lr_route :: "NetRoute list"
  lr_server :: LobbyEndpoint

record ClientPeer =
  cp_present :: bool
  cp_acked :: bool
  cp_reported :: bool
  cp_pub :: LobbyEndpoint
  cp_priv :: LobbyEndpoint
  cp_chosen :: LobbyEndpoint
  cp_nonce :: u32
  cp_punch_begin :: u32
  cp_last_punch :: u32
  cp_last_report :: u32
  cp_route :: int
  cp_punch_alt :: bool

record LobbyClient =
  lc_stage :: LobbyClientStage
  lc_is_host :: bool
  lc_forced_relay :: bool
  lc_server :: LobbyEndpoint
  lc_private_ep :: LobbyEndpoint
  lc_session_id :: u16
  lc_local_slot :: u8
  lc_num_players :: u8
  lc_net_ver :: u32
  lc_seed :: u32
  lc_arena_id :: u8
  lc_input_delay :: u8
  lc_begin :: u32
  lc_last_send :: u32
  lc_rng :: u32
  lc_retries :: u8
  lc_last_keepalive :: u32
  lc_last_start :: u32
  lc_start_seen :: bool
  lc_host_start_sent :: bool
  lc_route_known :: "bool list list"
  lc_peers :: "ClientPeer list"
  lc_result :: LobbyResult
  lc_code :: string
  lc_fail_stage :: string

abbreviation peer :: "LobbyClient \<Rightarrow> nat \<Rightarrow> ClientPeer" where
  "peer lc i \<equiv> lc_peers lc ! i"

definition at_peer :: "nat \<Rightarrow> (ClientPeer \<Rightarrow> ClientPeer) \<Rightarrow> LobbyClient \<Rightarrow> LobbyClient" where
  "at_peer i f lc = lc\<lparr>lc_peers := (lc_peers lc)[i := f (peer lc i)]\<rparr>"

section \<open>Helpers\<close>

definition client_rng :: "u32 \<Rightarrow> u32" where
  "client_rng x = xorshift32 (if x \<noteq> 0 then x else 1)"

definition stage_name :: "LobbyClientStage \<Rightarrow> string" where
  "stage_name st = (case st of
       LOBBY_C_REGISTERING \<Rightarrow> ''REGISTERING'' | LOBBY_C_JOINING \<Rightarrow> ''JOINING''
     | LOBBY_C_WAITING_PEERS \<Rightarrow> ''WAITING_PEERS'' | LOBBY_C_PUNCHING \<Rightarrow> ''PUNCHING''
     | LOBBY_C_AWAITING_START \<Rightarrow> ''AWAITING_START'' | LOBBY_C_READY \<Rightarrow> ''READY''
     | LOBBY_C_FAILED \<Rightarrow> ''FAILED'' | _ \<Rightarrow> ''IDLE'')"

definition set_fail_text :: "string \<Rightarrow> string \<Rightarrow> LobbyClient \<Rightarrow> LobbyClient" where
  "set_fail_text a b lc = lc\<lparr>lc_fail_stage := take 23 (a @ b)\<rparr>"

definition fail_here :: "LobbyClient \<Rightarrow> LobbyClient" where
  "fail_here lc = (set_fail_text (stage_name (lc_stage lc)) [] lc)\<lparr>lc_stage := LOBBY_C_FAILED\<rparr>"

definition send_msg :: "LobbyEndpoint \<Rightarrow> LobbyMsg \<Rightarrow> Packet list" where
  "send_msg dest m = (case lobby_pack m of None \<Rightarrow> [] | Some b \<Rightarrow> [(dest, b)])"

definition send_host_req :: "LobbyClient \<Rightarrow> Packet list" where
  "send_host_req lc = send_msg (lc_server lc) (LOBBY_HOST_REQ (lc_net_ver lc) (lc_num_players lc) (lc_private_ep lc))"

definition send_join_req :: "LobbyClient \<Rightarrow> Packet list" where
  "send_join_req lc = send_msg (lc_server lc) (LOBBY_JOIN_REQ (lc_session_id lc) (lc_net_ver lc) (lc_private_ep lc))"

definition send_punch_to :: "LobbyClient \<Rightarrow> nat \<Rightarrow> LobbyEndpoint \<Rightarrow> Packet list" where
  "send_punch_to lc slot dest =
     send_msg dest (LOBBY_PUNCH (lc_session_id lc) (lc_local_slot lc) (cp_nonce (peer lc slot)))"

definition send_punch_report :: "LobbyClient \<Rightarrow> u8 \<Rightarrow> u8 \<Rightarrow> Packet list" where
  "send_punch_report lc oth ok =
     send_msg (lc_server lc) (LOBBY_PUNCH_REPORT (lc_session_id lc)
       (if lc_local_slot lc < oth then lc_local_slot lc else oth)
       (if lc_local_slot lc < oth then oth else lc_local_slot lc) ok)"

definition send_start_ack :: "LobbyClient \<Rightarrow> Packet list" where
  "send_start_ack lc = send_msg (lc_server lc) (LOBBY_START_ACK (lc_session_id lc) (lc_local_slot lc))"

definition send_start :: "LobbyClient \<Rightarrow> Packet list" where
  "send_start lc = send_msg (lc_server lc)
     (LOBBY_START (lc_seed lc) (lc_arena_id lc) (lc_num_players lc) (lc_input_delay lc))"

definition send_keepalive :: "LobbyClient \<Rightarrow> Packet list" where
  "send_keepalive lc = send_msg (lc_server lc) (LOBBY_KEEPALIVE (lc_session_id lc) (lc_local_slot lc))"

section \<open>Readiness\<close>

definition all_peers_present :: "LobbyClient \<Rightarrow> bool" where
  "all_peers_present lc \<longleftrightarrow> lc_num_players lc \<noteq> 0
     \<and> list_all (\<lambda>i. cp_present (peer lc i)) [0..<unat (lc_num_players lc)]"

definition local_routes_decided :: "LobbyClient \<Rightarrow> bool" where
  "local_routes_decided lc \<longleftrightarrow> lc_num_players lc \<noteq> 0
     \<and> list_all (\<lambda>i. i = unat (lc_local_slot lc) \<or> \<not> cp_route (peer lc i) < 0) [0..<unat (lc_num_players lc)]"

definition all_pairs_decided :: "LobbyClient \<Rightarrow> bool" where
  "all_pairs_decided lc \<longleftrightarrow> \<not> lc_num_players lc < 2
     \<and> list_all (\<lambda>a. list_all (\<lambda>b. lc_route_known lc ! a ! b) [a + 1..<unat (lc_num_players lc)])
         [0..<unat (lc_num_players lc)]"

definition result_route :: "LobbyClient \<Rightarrow> nat \<Rightarrow> NetRoute" where
  "result_route lc i =
     (if i = unat (lc_local_slot lc) \<or> unat (lc_num_players lc) \<le> i
      then \<lparr>nr_kind = NET_ROUTE_NONE, nr_ep = endpoint_none\<rparr>
      else if cp_route (peer lc i) = uint LOBBY_ROUTE_DIRECT
      then \<lparr>nr_kind = NET_ROUTE_DIRECT, nr_ep = cp_chosen (peer lc i)\<rparr>
      else \<lparr>nr_kind = NET_ROUTE_RELAY, nr_ep = endpoint_none\<rparr>)"

definition fill_result :: "LobbyClient \<Rightarrow> LobbyClient" where
  "fill_result lc = lc\<lparr>lc_result :=
     \<lparr>lr_local_slot = lc_local_slot lc, lr_num_players = lc_num_players lc, lr_arena_id = lc_arena_id lc,
      lr_input_delay = lc_input_delay lc, lr_session_id = lc_session_id lc, lr_seed = lc_seed lc,
      lr_route = map (result_route lc) [0..<4], lr_server = lc_server lc\<rparr>\<rparr>"

definition start_punch_clock :: "u32 \<Rightarrow> ClientPeer \<Rightarrow> ClientPeer" where
  "start_punch_clock now p =
     p\<lparr>cp_punch_begin := now, cp_last_punch := now - LOBBY_PUNCH_PERIOD_MS, cp_last_report := now\<rparr>"

definition enter_punching :: "u32 \<Rightarrow> LobbyClient \<Rightarrow> LobbyClient" where
  "enter_punching now lc =
     fold (\<lambda>i lc. if i = unat (lc_local_slot lc) then lc else at_peer i (start_punch_clock now) lc)
       [0..<unat (lc_num_players lc)] (lc\<lparr>lc_stage := LOBBY_C_PUNCHING\<rparr>)"

definition reject_name :: "u8 \<Rightarrow> string" where
  "reject_name reason =
     (if reason = LOBBY_REJ_BAD_SESSION then ''BAD_SESSION''
      else if reason = LOBBY_REJ_FULL then ''FULL''
      else if reason = LOBBY_REJ_VERSION_MISMATCH then ''VERSION''
      else if reason = LOBBY_REJ_EXPIRED then ''EXPIRED''
      else ''UNKNOWN'')"

section \<open>Receiving\<close>

definition on_host_resp :: "u16 \<Rightarrow> LobbyClient \<Rightarrow> LobbyClient" where
  "on_host_resp sid lc =
     (if lc_stage lc \<noteq> LOBBY_C_REGISTERING \<or> sid = 0 then lc
      else (at_peer 0 (\<lambda>p. p\<lparr>cp_present := True\<rparr>) lc)
        \<lparr>lc_session_id := sid, lc_code := lobby_code_encode (lc_server lc) sid, lc_local_slot := 0,
         lc_retries := 0, lc_stage := LOBBY_C_WAITING_PEERS\<rparr>)"

definition on_join_resp :: "u8 \<Rightarrow> u8 \<Rightarrow> LobbyClient \<Rightarrow> LobbyClient" where
  "on_join_resp slot n lc =
     (if lc_stage lc \<noteq> LOBBY_C_JOINING then lc
      else if ARENA_MAX_PLAYERS \<le> unat slot then lc
      else if unat n < 2 \<or> ARENA_MAX_PLAYERS < unat n then lc
      else (at_peer (unat slot) (\<lambda>p. p\<lparr>cp_present := True\<rparr>) lc)
        \<lparr>lc_local_slot := slot, lc_num_players := n, lc_retries := 0, lc_stage := LOBBY_C_WAITING_PEERS\<rparr>)"

definition on_reject :: "u8 \<Rightarrow> LobbyClient \<Rightarrow> LobbyClient" where
  "on_reject reason lc =
     (if lc_stage lc \<noteq> LOBBY_C_JOINING \<and> lc_stage lc \<noteq> LOBBY_C_REGISTERING then lc
      else (set_fail_text ''REJECTED:'' (reject_name reason) lc)\<lparr>lc_stage := LOBBY_C_FAILED\<rparr>)"

definition refresh_peer :: "LobbyEndpoint \<Rightarrow> LobbyEndpoint \<Rightarrow> ClientPeer \<Rightarrow> ClientPeer" where
  "refresh_peer pub prv p = p\<lparr>cp_pub := pub, cp_priv := prv\<rparr>"

definition meet_peer :: "u32 \<Rightarrow> u32 \<Rightarrow> ClientPeer \<Rightarrow> ClientPeer" where
  "meet_peer now nonce p =
     p\<lparr>cp_present := True, cp_route := - 1, cp_nonce := nonce, cp_punch_begin := now,
       cp_last_punch := now - LOBBY_PUNCH_PERIOD_MS\<rparr>"

definition on_peer_intro :: "u32 \<Rightarrow> u8 \<Rightarrow> LobbyEndpoint \<Rightarrow> LobbyEndpoint \<Rightarrow> LobbyClient \<Rightarrow> LobbyClient" where
  "on_peer_intro now s pub prv lc =
     (if lc_stage lc < LOBBY_C_REGISTERING \<or> LOBBY_C_AWAITING_START < lc_stage lc then lc
      else if ARENA_MAX_PLAYERS \<le> unat s \<or> s = lc_local_slot lc then lc
      else (let lc = at_peer (unat s) (refresh_peer pub prv) lc in
            if cp_present (peer lc (unat s)) then lc
            else (let nonce = client_rng (lc_rng lc) in
                  at_peer (unat s) (meet_peer now nonce) (lc\<lparr>lc_rng := nonce\<rparr>))))"

definition on_punch :: "LobbyEndpoint \<Rightarrow> u16 \<Rightarrow> u32 \<Rightarrow> LobbyClient \<Rightarrow> Packet list" where
  "on_punch src sid nonce lc =
     (if sid \<noteq> lc_session_id lc \<or> lc_session_id lc = 0 then []
      else send_msg src (LOBBY_PUNCH_ACK (lc_session_id lc) (lc_local_slot lc) nonce))"

definition ack_peer :: "u32 \<Rightarrow> LobbyEndpoint \<Rightarrow> ClientPeer \<Rightarrow> ClientPeer" where
  "ack_peer now src p =
     p\<lparr>cp_acked := True, cp_chosen := src, cp_reported := True, cp_last_report := now\<rparr>"

definition on_punch_ack :: "u32 \<Rightarrow> LobbyEndpoint \<Rightarrow> u16 \<Rightarrow> u8 \<Rightarrow> u32 \<Rightarrow> LobbyClient \<Rightarrow> LobbyClient \<times> Packet list" where
  "on_punch_ack now src sid s nonce lc =
     (if sid \<noteq> lc_session_id lc \<or> lc_session_id lc = 0 then (lc, [])
      else if ARENA_MAX_PLAYERS \<le> unat s \<or> s = lc_local_slot lc then (lc, [])
      else if \<not> cp_present (peer lc (unat s)) \<or> cp_nonce (peer lc (unat s)) = 0 then (lc, [])
      else if nonce \<noteq> cp_nonce (peer lc (unat s)) then (lc, [])
      else if cp_acked (peer lc (unat s)) then (lc, [])
      else (at_peer (unat s) (ack_peer now src) lc, send_punch_report lc s 1))"

definition know_pair :: "nat \<Rightarrow> nat \<Rightarrow> LobbyClient \<Rightarrow> LobbyClient" where
  "know_pair a b lc =
     lc\<lparr>lc_route_known := (let m = (lc_route_known lc)[b := (lc_route_known lc ! b)[a := True]]
                            in m[a := (m ! a)[b := True]])\<rparr>"

definition on_pair_route :: "u8 \<Rightarrow> u8 \<Rightarrow> u8 \<Rightarrow> LobbyClient \<Rightarrow> LobbyClient" where
  "on_pair_route a b route lc =
     (if ARENA_MAX_PLAYERS \<le> unat a \<or> ARENA_MAX_PLAYERS \<le> unat b \<or> a = b then lc
      else if LOBBY_ROUTE_RELAY < route then lc
      else (let lc = know_pair (unat a) (unat b) lc;
                lc = (if a = lc_local_slot lc
                      then at_peer (unat b) (\<lambda>p. p\<lparr>cp_route := uint route\<rparr>) lc else lc)
            in if b = lc_local_slot lc
               then at_peer (unat a) (\<lambda>p. p\<lparr>cp_route := uint route\<rparr>) lc else lc))"

definition start_seen :: "LobbyClient \<Rightarrow> LobbyClient \<times> Packet list" where
  "start_seen lc = (lc\<lparr>lc_start_seen := True\<rparr>, send_start_ack lc)"

definition on_start :: "u32 \<Rightarrow> u8 \<Rightarrow> u8 \<Rightarrow> u8 \<Rightarrow> LobbyClient \<Rightarrow> LobbyClient \<times> Packet list" where
  "on_start seed arena n delay lc =
     (if lc_stage lc < LOBBY_C_WAITING_PEERS \<or> LOBBY_C_AWAITING_START < lc_stage lc then (lc, [])
      else if lc_is_host lc then
        (if seed \<noteq> lc_seed lc \<or> arena \<noteq> lc_arena_id lc \<or> n \<noteq> lc_num_players lc \<or> delay \<noteq> lc_input_delay lc
         then ((set_fail_text ''START_ECHO'' [] lc)\<lparr>lc_stage := LOBBY_C_FAILED\<rparr>, [])
         else start_seen lc)
      else if unat n < 2 \<or> ARENA_MAX_PLAYERS < unat n then (lc, [])
      else start_seen (lc\<lparr>lc_seed := seed, lc_arena_id := arena, lc_num_players := n, lc_input_delay := delay\<rparr>))"

definition handle_msg :: "u32 \<Rightarrow> LobbyEndpoint \<Rightarrow> LobbyMsg \<Rightarrow> LobbyClient \<Rightarrow> LobbyClient \<times> Packet list" where
  "handle_msg now src m lc = (case m of
       LOBBY_HOST_RESP sid \<Rightarrow> (on_host_resp sid lc, [])
     | LOBBY_JOIN_RESP slot n \<Rightarrow> (on_join_resp slot n lc, [])
     | LOBBY_REJECT reason \<Rightarrow> (on_reject reason lc, [])
     | LOBBY_PEER_INTRO s pub prv \<Rightarrow> (on_peer_intro now s pub prv lc, [])
     | LOBBY_PUNCH sid _ nonce \<Rightarrow> (lc, on_punch src sid nonce lc)
     | LOBBY_PUNCH_ACK sid s nonce \<Rightarrow> on_punch_ack now src sid s nonce lc
     | LOBBY_PAIR_ROUTE a b route \<Rightarrow> (on_pair_route a b route lc, [])
     | LOBBY_START seed arena n delay \<Rightarrow> on_start seed arena n delay lc
     | _ \<Rightarrow> (lc, []))"

section \<open>Beginning\<close>

definition client_peer_zero :: ClientPeer where
  "client_peer_zero =
     \<lparr>cp_present = False, cp_acked = False, cp_reported = False, cp_pub = endpoint_none, cp_priv = endpoint_none,
      cp_chosen = endpoint_none, cp_nonce = 0, cp_punch_begin = 0, cp_last_punch = 0, cp_last_report = 0,
      cp_route = - 1, cp_punch_alt = False\<rparr>"

definition lobby_result_zero :: LobbyResult where
  "lobby_result_zero =
     \<lparr>lr_local_slot = 0, lr_num_players = 0, lr_arena_id = 0, lr_input_delay = 0, lr_session_id = 0, lr_seed = 0,
      lr_route = replicate 4 \<lparr>nr_kind = NET_ROUTE_NONE, nr_ep = endpoint_none\<rparr>, lr_server = endpoint_none\<rparr>"

definition client_init :: "u16 \<Rightarrow> u32 \<Rightarrow> LobbyClient" where
  "client_init bound_port now =
     (let rng = (now * 2654435761) XOR push_bit 13 (ucast bound_port) XOR 0x9E3779B9 in
      \<lparr>lc_stage = LOBBY_C_IDLE, lc_is_host = False, lc_forced_relay = False, lc_server = endpoint_none,
       lc_private_ep = endpoint_none, lc_session_id = 0, lc_local_slot = 0, lc_num_players = 0, lc_net_ver = 0,
       lc_seed = 0, lc_arena_id = 0, lc_input_delay = 0, lc_begin = now, lc_last_send = 0,
       lc_rng = (if rng \<noteq> 0 then rng else 1), lc_retries = 0, lc_last_keepalive = 0, lc_last_start = 0,
       lc_start_seen = False, lc_host_start_sent = False,
       lc_route_known = replicate 4 (replicate 4 False), lc_peers = replicate 4 client_peer_zero,
       lc_result = lobby_result_zero, lc_code = [], lc_fail_stage = []\<rparr>)"

definition lobby_host_begin ::
  "u16 \<Rightarrow> LobbyEndpoint \<Rightarrow> LobbyEndpoint \<Rightarrow> u8 \<Rightarrow> u32 \<Rightarrow> u8 \<Rightarrow> u8 \<Rightarrow> u32 \<Rightarrow> (LobbyClient \<times> Packet list) option" where
  "lobby_host_begin bound_port local_ep server n seed arena delay now =
     (if unat n < 2 \<or> ARENA_MAX_PLAYERS < unat n then None
      else (let lc = (client_init bound_port now)
                  \<lparr>lc_is_host := True, lc_server := server, lc_num_players := n, lc_seed := seed,
                   lc_arena_id := arena, lc_input_delay := delay, lc_net_ver := arena_net_version,
                   lc_private_ep := local_ep, lc_stage := LOBBY_C_REGISTERING, lc_last_send := now\<rparr>
            in Some (lc, send_host_req lc)))"

definition lobby_join_begin ::
  "u16 \<Rightarrow> LobbyEndpoint \<Rightarrow> string \<Rightarrow> u32 \<Rightarrow> (LobbyClient \<times> Packet list) option" where
  "lobby_join_begin bound_port local_ep code now =
     (case lobby_code_decode code of
        None \<Rightarrow> None
      | Some (server, sid) \<Rightarrow>
          (let lc = (client_init bound_port now)
                 \<lparr>lc_server := server, lc_session_id := sid, lc_net_ver := arena_net_version,
                  lc_private_ep := local_ep, lc_stage := LOBBY_C_JOINING, lc_last_send := now\<rparr>
           in Some (lc, send_join_req lc)))"

definition lobby_set_forced_relay :: "LobbyClient \<Rightarrow> LobbyClient" where
  "lobby_set_forced_relay lc = lc\<lparr>lc_forced_relay := True\<rparr>"

definition lobby_result :: "LobbyClient \<Rightarrow> LobbyResult option" where
  "lobby_result lc = (if lc_stage lc = LOBBY_C_READY then Some (lc_result lc) else None)"

section \<open>Polling\<close>

text \<open>The drain stops at the first failure; the flag says so.\<close>

fun drain :: "u32 \<Rightarrow> (LobbyEndpoint \<times> u8 list) list \<Rightarrow> LobbyClient \<Rightarrow> LobbyClient \<times> Packet list" where
  "drain now [] lc = (lc, [])"
| "drain now ((src, buf) # ds) lc =
     (case lobby_unpack buf of
        Some (Some m) \<Rightarrow>
          (let (lc, out) = handle_msg now src m lc in
           if lc_stage lc = LOBBY_C_FAILED then (lc, out)
           else (let (lc, more) = drain now ds lc in (lc, out @ more)))
      | _ \<Rightarrow> drain now ds lc)"

definition request_retry :: "u32 \<Rightarrow> LobbyClient \<Rightarrow> LobbyClient \<times> Packet list" where
  "request_retry now lc =
     (if LOBBY_RETRY_MS \<le> now - lc_last_send lc
      then (let lc = lc\<lparr>lc_last_send := now, lc_retries := lc_retries lc + 1\<rparr> in
            if LOBBY_RETRY_MAX < lc_retries lc then (fail_here lc, [])
            else (lc, if lc_stage lc = LOBBY_C_REGISTERING then send_host_req lc else send_join_req lc))
      else (lc, []))"

definition wait_for_peers :: "u32 \<Rightarrow> LobbyClient \<Rightarrow> LobbyClient \<times> Packet list" where
  "wait_for_peers now lc =
     (if all_peers_present lc then (enter_punching now lc, [])
      else if LOBBY_RETRY_MS \<le> now - lc_last_send lc
      then (let lc = lc\<lparr>lc_last_send := now\<rparr> in
            (lc, if lc_is_host lc then send_host_req lc else send_join_req lc))
      else (lc, []))"

definition reported_at :: "u32 \<Rightarrow> ClientPeer \<Rightarrow> ClientPeer" where
  "reported_at now p = p\<lparr>cp_reported := True, cp_last_report := now\<rparr>"

definition probe_dest :: "ClientPeer \<Rightarrow> LobbyEndpoint" where
  "probe_dest p =
     (let dest = (if cp_punch_alt p then cp_pub p else cp_priv p) in
      if ep_port dest = 0 then (if cp_punch_alt p then cp_priv p else cp_pub p) else dest)"

definition probe :: "u32 \<Rightarrow> nat \<Rightarrow> LobbyClient \<Rightarrow> LobbyClient \<times> Packet list" where
  "probe now i lc =
     (let dest = probe_dest (peer lc i); lc = at_peer i (\<lambda>p. p\<lparr>cp_punch_alt := \<not> cp_punch_alt p\<rparr>) lc in
      if ep_port dest = 0 then (lc, [])
      else (at_peer i (\<lambda>p. p\<lparr>cp_last_punch := now\<rparr>) lc, send_punch_to lc i dest))"

definition punch_peer :: "u32 \<Rightarrow> nat \<Rightarrow> LobbyClient \<Rightarrow> LobbyClient \<times> Packet list" where
  "punch_peer now i lc =
     (let p = peer lc i in
      if i = unat (lc_local_slot lc) then (lc, [])
      else if 0 \<le> cp_route p then (lc, [])
      else if cp_reported p then
        (if LOBBY_RETRY_MS \<le> now - cp_last_report p
         then (let lc = at_peer i (\<lambda>p. p\<lparr>cp_last_report := now\<rparr>) lc in
               (lc, send_punch_report lc (of_nat i) (if cp_acked p then 1 else 0)))
         else (lc, []))
      else if lc_forced_relay lc then
        (at_peer i (reported_at now) lc, send_punch_report lc (of_nat i) 0)
      else if LOBBY_PUNCH_BUDGET_MS < now - cp_punch_begin p then
        (at_peer i (reported_at now) lc, send_punch_report lc (of_nat i) 0)
      else if LOBBY_PUNCH_PERIOD_MS \<le> now - cp_last_punch p then probe now i lc
      else (lc, []))"

definition collect :: "(LobbyClient \<Rightarrow> LobbyClient \<times> Packet list) \<Rightarrow> LobbyClient \<times> Packet list \<Rightarrow> LobbyClient \<times> Packet list" where
  "collect f r = (let (lc, out) = f (fst r) in (lc, snd r @ out))"

definition punch_peers :: "u32 \<Rightarrow> LobbyClient \<Rightarrow> LobbyClient \<times> Packet list" where
  "punch_peers now lc = fold (\<lambda>i. collect (punch_peer now i)) [0..<unat (lc_num_players lc)] (lc, [])"

definition stage_duty :: "u32 \<Rightarrow> LobbyClient \<Rightarrow> LobbyClient \<times> Packet list" where
  "stage_duty now lc = (case lc_stage lc of
       LOBBY_C_REGISTERING \<Rightarrow> request_retry now lc
     | LOBBY_C_JOINING \<Rightarrow> request_retry now lc
     | LOBBY_C_WAITING_PEERS \<Rightarrow> wait_for_peers now lc
     | LOBBY_C_PUNCHING \<Rightarrow> punch_peers now lc
     | _ \<Rightarrow> (lc, []))"

definition host_duty :: "u32 \<Rightarrow> LobbyClient \<Rightarrow> LobbyClient \<times> Packet list" where
  "host_duty now lc =
     (if lc_is_host lc \<and> lc_session_id lc \<noteq> 0 \<and> \<not> lc_start_seen lc
         \<and> LOBBY_C_WAITING_PEERS \<le> lc_stage lc \<and> all_pairs_decided lc
         \<and> (\<not> lc_host_start_sent lc \<or> LOBBY_RETRY_MS \<le> now - lc_last_start lc)
      then (let lc = lc\<lparr>lc_host_start_sent := True, lc_last_start := now\<rparr> in (lc, send_start lc))
      else (lc, []))"

definition settle :: "LobbyClient \<Rightarrow> LobbyClient" where
  "settle lc =
     (if (lc_stage lc = LOBBY_C_PUNCHING \<or> lc_stage lc = LOBBY_C_AWAITING_START) \<and> local_routes_decided lc
      then (if lc_start_seen lc then (fill_result lc)\<lparr>lc_stage := LOBBY_C_READY\<rparr>
            else lc\<lparr>lc_stage := LOBBY_C_AWAITING_START\<rparr>)
      else lc)"

definition keep_alive :: "u32 \<Rightarrow> LobbyClient \<Rightarrow> LobbyClient \<times> Packet list" where
  "keep_alive now lc =
     (if lc_session_id lc \<noteq> 0 \<and> LOBBY_C_WAITING_PEERS \<le> lc_stage lc \<and> lc_stage lc \<le> LOBBY_C_AWAITING_START
      then (if lc_last_keepalive lc = 0 then (lc\<lparr>lc_last_keepalive := now\<rparr>, [])
            else if LOBBY_KEEPALIVE_MS \<le> now - lc_last_keepalive lc
            then (lc\<lparr>lc_last_keepalive := now\<rparr>, send_keepalive lc)
            else (lc, []))
      else (lc, []))"

definition lobby_poll :: "u32 \<Rightarrow> (LobbyEndpoint \<times> u8 list) list \<Rightarrow> LobbyClient \<Rightarrow> LobbyClient \<times> Packet list" where
  "lobby_poll now inbox lc =
     (if lc_stage lc = LOBBY_C_READY \<or> lc_stage lc = LOBBY_C_FAILED \<or> lc_stage lc = LOBBY_C_IDLE then (lc, [])
      else (let (lc, out) = drain now (take 128 inbox) lc in
            if lc_stage lc = LOBBY_C_FAILED then (lc, out)
            else if LOBBY_TIMEOUT_MS < now - lc_begin lc then (fail_here lc, out)
            else (let (lc, duty) = stage_duty now lc in
                  if lc_stage lc = LOBBY_C_FAILED then (lc, out @ duty)
                  else (let (lc, host) = host_duty now lc; lc = settle lc; (lc, alive) = keep_alive now lc
                        in (lc, out @ duty @ host @ alive)))))"

definition post_packet :: "LobbyEndpoint \<times> u8 list \<Rightarrow> LobbyClient \<Rightarrow> Packet list" where
  "post_packet d lc = (case lobby_unpack (snd d) of
       Some (Some (LOBBY_START _ _ _ _)) \<Rightarrow> send_start_ack lc
     | Some (Some (LOBBY_PUNCH sid _ nonce)) \<Rightarrow>
         (if sid = lc_session_id lc
          then send_msg (fst d) (LOBBY_PUNCH_ACK (lc_session_id lc) (lc_local_slot lc) nonce) else [])
     | _ \<Rightarrow> [])"

text \<open>After READY the adapter owns the socket, and what it kept for the lobby is taken from its ring,
  one packet after the other, until there is none (or, as the loop tests the length, an empty one).\<close>

function take_lobby_packets :: "LobbyClient \<Rightarrow> NetAdapter \<Rightarrow> NetAdapter \<times> Packet list" where
  "take_lobby_packets lc g =
     (case net_adapter_take_lobby_packet LOBBY_MAX_PACKET g of
        None \<Rightarrow> (g, [])
      | Some (d, g) \<Rightarrow>
          if snd d = [] then (g, [])
          else (let (g, out) = take_lobby_packets lc g in (g, post_packet d lc @ out)))"
  by pat_completeness auto

termination
  by (relation "measure (\<lambda>(lc, g). na_lobbyq_count g)")
    (auto simp: net_adapter_take_lobby_packet_def Let_def split: if_splits)

declare take_lobby_packets.simps [simp del]

definition lobby_post_poll :: "LobbyClient \<Rightarrow> NetAdapter \<Rightarrow> NetAdapter \<times> Packet list" where
  "lobby_post_poll lc g = (if lc_stage lc \<noteq> LOBBY_C_READY then (g, []) else take_lobby_packets lc g)"

end
