(* ===== verification/Client_Props.thy ===== *)
theory Client_Props
  imports Client_Inv
begin

text \<open>
  What the lobby client guarantees to the game that polls it.
\<close>

section \<open>Reachable states\<close>

lemma poll_live:
  assumes "client_ok lc" and "lc_stage lc \<noteq> LOBBY_C_IDLE"
  shows "lc_stage (fst (lobby_poll now inbox lc)) \<noteq> LOBBY_C_IDLE"
    and "LOBBY_TIMEOUT_MS < now - lc_begin lc \<Longrightarrow> booting lc \<Longrightarrow> lc_stage (fst (lobby_poll now inbox lc)) = LOBBY_C_FAILED"
proof -
  let ?d = "fst (drain now (take 128 inbox) lc)"
  let ?s = "fst (stage_duty now ?d)"
  have poll: "lc_stage (fst (lobby_poll now inbox lc)) =
      (if lc_stage ?d = LOBBY_C_FAILED then LOBBY_C_FAILED
       else if LOBBY_TIMEOUT_MS < now - lc_begin ?d then LOBBY_C_FAILED
       else if lc_stage ?s = LOBBY_C_FAILED then LOBBY_C_FAILED
       else lc_stage (settle (fst (host_duty now ?s))))" if "booting lc"
    using that
    by (simp add: lobby_poll_def booting_iff case_prod_unfold Let_def keep_alive_stage)
      (simp add: fail_here_def)
  have d: "ranges_ok ?d" "booting ?d \<or> lc_stage ?d = LOBBY_C_FAILED" if "booting lc"
    using drain_ok [of lc now "take 128 inbox"] assms(1) that by (simp_all add: client_ok_def)
  show "lc_stage (fst (lobby_poll now inbox lc)) \<noteq> LOBBY_C_IDLE"
  proof (cases "booting lc")
    case True
    have "booting (fst (host_duty now ?s))" if "lc_stage ?d \<noteq> LOBBY_C_FAILED" "lc_stage ?s \<noteq> LOBBY_C_FAILED"
      using d [OF True] that duty_ok(2) [OF d(1) [OF True], of now] by (simp add: booting_iff host_duty_ok)
    moreover have "ranges_ok (fst (host_duty now ?s))" if "lc_stage ?d \<noteq> LOBBY_C_FAILED"
      using d [OF True] that duty_ok(1) [OF d(1) [OF True], of now] by (simp add: booting_iff host_duty_ok)
    ultimately have "lc_stage (settle (fst (host_duty now ?s))) \<noteq> LOBBY_C_IDLE"
      if "lc_stage ?d \<noteq> LOBBY_C_FAILED" "lc_stage ?s \<noteq> LOBBY_C_FAILED"
      using that settle_ok(2) [of "fst (host_duty now ?s)"] by (auto simp: booting_iff)
    then show ?thesis by (simp add: poll [OF True])
  next
    case False
    then show ?thesis using assms(2) by (auto simp: booting_iff lobby_poll_def)
  qed
  show "lc_stage (fst (lobby_poll now inbox lc)) = LOBBY_C_FAILED" if "LOBBY_TIMEOUT_MS < now - lc_begin lc" "booting lc"
  proof -
    have "charter ?d = charter lc"
      using charter_drain [of lc now "take 128 inbox"] assms(1) that(2) by (simp add: client_ok_def)
    then have "lc_begin ?d = lc_begin lc" by (simp add: charter_def)
    with that(1) show ?thesis by (simp add: poll [OF that(2)])
  qed
qed

lemma reach_ok: "client_reach log lc \<Longrightarrow> client_ok lc \<and> lc_stage lc \<noteq> LOBBY_C_IDLE"
proof (induction rule: client_reach.induct)
  case reach_host
  then show ?case using host_begin_ok by (auto simp: booting_iff)
next
  case reach_join
  then show ?case using join_begin_ok by (auto simp: booting_iff)
next
  case reach_poll
  then show ?case using poll_ok poll_live(1) by blast
next
  case reach_force
  then show ?case by (simp add: force_ok) (simp add: lobby_set_forced_relay_def)
qed

section \<open>An example client\<close>

text \<open>A host for two players that gets its session, meets its guest, is answered by it and is told the route.\<close>

abbreviation server_ep :: LobbyEndpoint where "server_ep \<equiv> \<lparr>ep_ip = 0x08080808, ep_port = 40064\<rparr>"
abbreviation me_ep :: LobbyEndpoint where "me_ep \<equiv> \<lparr>ep_ip = 0x0A000001, ep_port = 5000\<rparr>"
abbreviation mate_ep :: LobbyEndpoint where "mate_ep \<equiv> \<lparr>ep_ip = 0x0A000002, ep_port = 5001\<rparr>"

definition letter :: "LobbyEndpoint \<Rightarrow> LobbyMsg \<Rightarrow> LobbyEndpoint \<times> u8 list" where
  "letter src m = (src, case lobby_pack m of None \<Rightarrow> [] | Some b \<Rightarrow> b)"

definition example_begun :: "u32 \<Rightarrow> LobbyClient" where
  "example_begun v = (client_init 5000 100)
     \<lparr>lc_is_host := True, lc_server := server_ep, lc_num_players := 2, lc_seed := 99, lc_arena_id := 0,
      lc_input_delay := 3, lc_net_ver := v, lc_private_ep := me_ep, lc_stage := LOBBY_C_REGISTERING, lc_last_send := 100\<rparr>"

definition example_mail :: "(LobbyEndpoint \<times> u8 list) list" where
  "example_mail =
     [letter server_ep (LOBBY_HOST_RESP 8225), letter server_ep (LOBBY_PEER_INTRO 1 mate_ep mate_ep),
      letter mate_ep (LOBBY_PUNCH_ACK 8225 1 272288546), letter server_ep (LOBBY_PAIR_ROUTE 0 1 0),
      letter server_ep (LOBBY_START 99 0 2 3)]"

definition example_run :: "u32 \<Rightarrow> LobbyClient" where
  "example_run v = fst (lobby_poll 200 example_mail (example_begun v))"

abbreviation example_client :: LobbyClient where "example_client \<equiv> example_run arena_net_version"

lemma example_begun_reach: "client_reach [] (example_begun arena_net_version)"
  by (rule reach_host [of 5000 me_ep server_ep 2 99 0 3 100 _ "send_host_req (example_begun arena_net_version)"])
    (simp add: lobby_host_begin_def example_begun_def ARENA_MAX_PLAYERS_def Let_def)

lemma example_reach: "client_reach example_mail example_client"
  using reach_poll [OF example_begun_reach, of example_mail 200]
  by (simp add: example_run_def)

lemma drain_letter:
  "length (payload_of m) \<le> 1024 \<Longrightarrow> drain now (letter src m # ds) lc =
     (let (lc, out) = handle_msg now src m lc in
      if lc_stage lc = LOBBY_C_FAILED then (lc, out)
      else (let (lc, more) = drain now ds lc in (lc, out @ more)))"
  using pack_defined [of m] pack_read_back [of m _ "[]"] by (auto simp: letter_def)

lemma upt_12: "[0..<2] = [0, 1 :: nat]" "[1..<2] = [1 :: nat]" "[2..<2] = ([] :: nat list)" "[0..<4] = [0, 1, 2, 3 :: nat]"
  by code_simp+

lemma example_drain:
  "fst (drain 200 example_mail (example_begun v)) = (example_begun v)
     \<lparr>lc_session_id := 8225, lc_code := lobby_code_encode server_ep 8225, lc_stage := LOBBY_C_WAITING_PEERS,
      lc_peers := [client_peer_zero\<lparr>cp_present := True\<rparr>,
        client_peer_zero\<lparr>cp_present := True, cp_pub := mate_ep, cp_priv := mate_ep,
          cp_nonce := 272288546, cp_punch_begin := 200,
          cp_last_punch := 200 - 250, cp_route := 0, cp_acked := True, cp_chosen := mate_ep,
          cp_reported := True, cp_last_report := 200\<rparr>, client_peer_zero, client_peer_zero],
      lc_rng := 272288546, lc_start_seen := True,
      lc_route_known := [[False, True, False, False], [True, False, False, False],
        [False, False, False, False], [False, False, False, False]]\<rparr>"
proof -
  have r4: "replicate 4 x = [x, x, x, x]" for x :: 'x by (simp add: numeral_eq_Suc)
  have b: "lc_peers (example_begun v) = [client_peer_zero, client_peer_zero, client_peer_zero, client_peer_zero]"
    "lc_route_known (example_begun v) = [[False, False, False, False], [False, False, False, False],
        [False, False, False, False], [False, False, False, False]]"
    by (simp_all add: example_begun_def client_init_def r4 Let_def)
  have nonce: "client_rng (lc_rng (client_init 5000 100)) = 272288546" by code_simp
  have f: "lc_stage (example_begun v) = LOBBY_C_REGISTERING" "lc_is_host (example_begun v)"
    "lc_seed (example_begun v) = 99" "lc_arena_id (example_begun v) = 0" "lc_num_players (example_begun v) = 2"
    "lc_input_delay (example_begun v) = 3" "lc_server (example_begun v) = server_ep" "lc_local_slot (example_begun v) = 0"
    "lc_retries (example_begun v) = 0" "lc_rng (example_begun v) = lc_rng (client_init 5000 100)"
    by (simp_all add: example_begun_def client_init_def Let_def)
  show ?thesis
    unfolding example_mail_def
    by (simp add: drain_letter nonce on_punch_ack_def ack_peer_def payload_of_def handle_msg_def on_host_resp_def on_peer_intro_def on_pair_route_def
        on_start_def start_seen_def refresh_peer_def meet_peer_def know_pair_def at_peer_def stage_order f b
        client_peer_zero_def ARENA_MAX_PLAYERS_def LOBBY_ROUTE_RELAY_def LOBBY_PUNCH_PERIOD_MS_def Let_def)
qed

lemma example_ready:
  "lc_stage (example_run v) = LOBBY_C_READY" "lc_num_players (example_run v) = 2" "lc_local_slot (example_run v) = 0"
  "lc_is_host (example_run v)" "lc_seed (example_run v) = 99"
  "result_route (example_run v) 1 = \<lparr>nr_kind = NET_ROUTE_DIRECT, nr_ep = mate_ep\<rparr>"
proof -
  let ?d = "fst (drain 200 example_mail (example_begun v))"
  have b: "lc_stage (example_begun v) = LOBBY_C_REGISTERING" "lc_num_players (example_begun v) = 2"
    "lc_local_slot (example_begun v) = 0" "lc_begin (example_begun v) = 100" "lc_is_host (example_begun v)"
    "lc_seed (example_begun v) = 99"
    by (simp_all add: example_begun_def client_init_def Let_def)
  have d: "lc_stage ?d = LOBBY_C_WAITING_PEERS" "lc_num_players ?d = 2" "lc_local_slot ?d = 0" "lc_begin ?d = 100"
    "lc_is_host ?d" "lc_seed ?d = 99" "lc_start_seen ?d" "cp_present (peer ?d 0)" "cp_present (peer ?d (Suc 0))"
    "cp_route (peer ?d (Suc 0)) = 0" "cp_chosen (peer ?d (Suc 0)) = mate_ep" "cp_nonce (peer ?d (Suc 0)) = 272288546" "length (lc_peers ?d) = 4"
    unfolding example_drain by (simp_all add: b client_peer_zero_def)
  define p where "p = enter_punching 200 ?d"
  have p: "p = at_peer (Suc 0) (start_punch_clock 200) (?d\<lparr>lc_stage := LOBBY_C_PUNCHING\<rparr>)"
    by (simp add: p_def enter_punching_def d upt_12)
  have ps: "lc_stage p = LOBBY_C_PUNCHING" by (simp add: p at_peer_def)
  have pf: "lc_num_players p = 2" "lc_local_slot p = 0" "lc_is_host p" "lc_seed p = 99"
    by (simp_all add: p at_peer_def d)
  have pr: "cp_route (peer p (Suc 0)) = 0" "cp_chosen (peer p (Suc 0)) = mate_ep"
    by (simp_all add: p at_peer_def d start_punch_clock_def)
  have duty: "stage_duty 200 ?d = (p, [])"
    by (simp add: stage_duty_def d wait_for_peers_def all_peers_present_def upt_12 p_def)
  have host: "host_duty 200 p = (p, [])"
    by (simp add: host_duty_def p at_peer_def d)
  have ready: "settle p = (fill_result p)\<lparr>lc_stage := LOBBY_C_READY\<rparr>"
    by (simp add: settle_def local_routes_decided_def p at_peer_def d upt_12 start_punch_clock_def)
  have alive: "keep_alive 200 (settle p) = (settle p, [])"
    by (simp add: keep_alive_def ready stage_order)
  have inbox: "take 128 example_mail = example_mail" by (simp add: example_mail_def)
  have "example_run v = settle p"
    using d(1,4) unfolding example_run_def lobby_poll_def inbox
    by (simp add: b ps case_prod_unfold Let_def duty host alive LOBBY_TIMEOUT_MS_def)
  then show "lc_stage (example_run v) = LOBBY_C_READY" "lc_num_players (example_run v) = 2" "lc_local_slot (example_run v) = 0"
    "lc_is_host (example_run v)" "lc_seed (example_run v) = 99"
    "result_route (example_run v) 1 = \<lparr>nr_kind = NET_ROUTE_DIRECT, nr_ep = mate_ep\<rparr>"
    using pf pr by (simp_all add: ready fill_result_def result_route_def LOBBY_ROUTE_DIRECT_def)
qed

section \<open>Indices\<close>

text \<open>The client never leaves its arrays: in every state it can be driven to, by any datagrams from
  anyone, the local slot is below four and the player count at most four, and at least two from
  the moment it waits for its peers.\<close>

theorem client_indices_in_range:
  assumes "client_reach log lc"
  shows "length (lc_peers lc) = 4 \<and> square (lc_route_known lc)
    \<and> unat (lc_local_slot lc) < 4 \<and> unat (lc_num_players lc) \<le> 4
    \<and> (LOBBY_C_WAITING_PEERS \<le> lc_stage lc \<and> lc_stage lc \<le> LOBBY_C_READY \<longrightarrow> 2 \<le> unat (lc_num_players lc))"
  using reach_ok [OF assms] by (simp add: client_ok_def ranges_ok_def)

theorem client_indices_in_range_witness:
  "length (lc_peers example_client) = 4 \<and> unat (lc_local_slot example_client) < 4"
  using client_indices_in_range [OF example_reach] by simp

section \<open>Every bootstrap ends\<close>

text \<open>C22: No bootstrap hangs: a client polled more than thirty seconds after it began is READY or
  FAILED when the poll returns, whatever it has received, and stays so for good; the moment it
  began never changes.\<close>

theorem every_bootstrap_ends:
  assumes "client_reach log lc" and "LOBBY_TIMEOUT_MS < now - lc_begin lc"
    and "lc' = fst (lobby_poll now inbox lc)"
  shows "(lc_stage lc' = LOBBY_C_READY \<or> lc_stage lc' = LOBBY_C_FAILED)
    \<and> lobby_poll now' inbox' lc' = (lc', []) \<and> lc_begin lc' = lc_begin lc"
proof -
  have ok: "client_ok lc" "lc_stage lc \<noteq> LOBBY_C_IDLE" using reach_ok [OF assms(1)] by simp_all
  have over: "lc_stage lc' = LOBBY_C_READY \<or> lc_stage lc' = LOBBY_C_FAILED"
  proof (cases "booting lc")
    case True
    then show ?thesis using poll_live(2) [OF ok assms(2)] assms(3) by simp
  next
    case False
    then show ?thesis using ok(2) assms(3) by (auto simp: booting_iff lobby_poll_def)
  qed
  have "charter lc' = charter lc"
    using charter_poll ok(1) assms(3) by (simp add: client_ok_def)
  with over show ?thesis by (auto simp: lobby_poll_def charter_def)
qed

theorem every_bootstrap_ends_witness:
  "lc_stage (fst (lobby_poll 40000 [] (example_begun arena_net_version))) = LOBBY_C_READY
    \<or> lc_stage (fst (lobby_poll 40000 [] (example_begun arena_net_version))) = LOBBY_C_FAILED"
proof -
  have "lc_begin (example_begun arena_net_version) = 100"
    by (simp add: example_begun_def client_init_def Let_def)
  then have "LOBBY_TIMEOUT_MS < 40000 - lc_begin (example_begun arena_net_version)"
    by (simp add: LOBBY_TIMEOUT_MS_def)
  from every_bootstrap_ends [OF example_begun_reach this refl] show ?thesis by blast
qed

section \<open>READY means a complete match\<close>

lemma ready_fields:
  assumes "client_reach log lc" and "lobby_result lc = Some r"
  shows "lc_stage lc = LOBBY_C_READY" "2 \<le> unat (lr_num_players r)" "unat (lr_num_players r) \<le> 4"
    "unat (lr_local_slot r) < 4" "length (lr_route r) = 4" "i < 4 \<Longrightarrow> lr_route r ! i = result_route lc i"
    "lr_num_players r = lc_num_players lc" "lr_local_slot r = lc_local_slot lc" "lr_server r = lc_server lc"
    "lr_seed r = lc_seed lc" "lr_arena_id r = lc_arena_id lc" "lr_input_delay r = lc_input_delay lc"
proof -
  have ok: "ranges_ok lc" "ready_ok lc" using reach_ok [OF assms(1)] by (simp_all add: client_ok_def)
  have ready: "lc_stage lc = LOBBY_C_READY" "r = lc_result lc"
    using assms(2) by (simp_all add: lobby_result_def split: if_splits)
  then have r: "r = lc_result (fill_result lc)" using ok(2) by (simp add: ready_ok_def)
  show "lc_stage lc = LOBBY_C_READY" by (rule ready(1))
  show "2 \<le> unat (lr_num_players r)" "unat (lr_num_players r) \<le> 4"
    "unat (lr_local_slot r) < 4" "length (lr_route r) = 4" "i < 4 \<Longrightarrow> lr_route r ! i = result_route lc i"
    "lr_num_players r = lc_num_players lc" "lr_local_slot r = lc_local_slot lc" "lr_server r = lc_server lc"
    "lr_seed r = lc_seed lc" "lr_arena_id r = lc_arena_id lc" "lr_input_delay r = lc_input_delay lc"
    using ok(1) ready(1) by (simp_all add: r fill_result_def ranges_ok_def stage_order)
qed

text \<open>What the game does with a client it has begun: it polls it, at any times and with any datagrams
  waiting, and may force the relay.\<close>

datatype ClientEvent = Polled u32 "(LobbyEndpoint \<times> u8 list) list" | RelayForced

fun client_step :: "ClientEvent \<Rightarrow> LobbyClient \<Rightarrow> LobbyClient" where
  "client_step (Polled now inbox) lc = fst (lobby_poll now inbox lc)"
| "client_step RelayForced lc = lobby_set_forced_relay lc"

definition client_begun :: "LobbyClient \<Rightarrow> bool" where
  "client_begun lc \<longleftrightarrow>
     (\<exists>port local_ep server n seed arena delay now out. lobby_host_begin port local_ep server n seed arena delay now = Some (lc, out))
     \<or> (\<exists>port local_ep code now out. lobby_join_begin port local_ep code now = Some (lc, out))"

lemma run_reaches:
  assumes "client_begun lc"
  shows "\<exists>log. client_reach log (fold client_step es lc)"
proof -
  have begun: "client_reach [] lc" using assms unfolding client_begun_def by (blast intro: reach_host reach_join)
  have "\<exists>log'. client_reach log' (fold client_step es lc)" if "client_reach log lc" for log lc
    using that
  proof (induction es arbitrary: log lc)
    case (Cons e es)
    have "\<exists>log'. client_reach log' (client_step e lc)"
      using Cons.prems by (cases e) (auto intro: reach_poll reach_force)
    then show ?case using Cons.IH by auto
  qed auto
  then show ?thesis using begun by blast
qed

lemma charter_force: "charter (lobby_set_forced_relay lc) = charter lc"
  by (simp add: charter_def lobby_set_forced_relay_def)

lemma run_charter:
  assumes "client_begun lc"
  shows "charter (fold client_step es lc) = charter lc"
proof (induction es rule: rev_induct)
  case (snoc e es)
  obtain log where "client_reach log (fold client_step es lc)" using run_reaches [OF assms] by blast
  then have "ranges_ok (fold client_step es lc)" using reach_ok by (simp add: client_ok_def)
  then have "charter (client_step e (fold client_step es lc)) = charter (fold client_step es lc)"
    using charter_force by (cases e) (simp_all add: charter_poll)
  then show ?case using snoc by simp
qed simp

text \<open>C26: READY is only reached with a complete result: two to four players, no route for the own
  slot, a direct or relayed route for every other seat, none beyond, and for a host exactly the
  match it asked for: the seed, the map, the number of players, the delay and the server are the
  arguments of its \<open>lobby_host_begin\<close>, however it was polled since and whatever datagrams came.\<close>

theorem ready_result_is_complete:
  assumes "client_begun lc" and "lobby_result (fold client_step es lc) = Some r" and "i < 4"
  shows "2 \<le> unat (lr_num_players r) \<and> unat (lr_num_players r) \<le> 4
    \<and> (nr_kind (lr_route r ! i) = NET_ROUTE_NONE \<longleftrightarrow> i = unat (lr_local_slot r) \<or> unat (lr_num_players r) \<le> i)
    \<and> (\<forall>port local_ep server n seed arena delay now out.
        lobby_host_begin port local_ep server n seed arena delay now = Some (lc, out) \<longrightarrow>
        lr_server r = server \<and> lr_num_players r = n \<and> lr_seed r = seed \<and> lr_arena_id r = arena \<and> lr_input_delay r = delay)"
proof (intro conjI allI impI)
  obtain log where reach: "client_reach log (fold client_step es lc)" using run_reaches [OF assms(1)] by blast
  note r = ready_fields [OF reach assms(2)]
  show "2 \<le> unat (lr_num_players r)" "unat (lr_num_players r) \<le> 4" using r by simp_all
  show "nr_kind (lr_route r ! i) = NET_ROUTE_NONE \<longleftrightarrow> i = unat (lr_local_slot r) \<or> unat (lr_num_players r) \<le> i"
    using r assms(3) by (simp add: result_route_def)
  fix port local_ep server n seed arena delay now out
  assume "lobby_host_begin port local_ep server n seed arena delay now = Some (lc, out)"
  then have "charter lc = (now, True, server, Some (seed, arena, n, delay))"
    by (auto simp: lobby_host_begin_def client_init_def charter_def Let_def split: if_splits)
  then have "charter (fold client_step es lc) = (now, True, server, Some (seed, arena, n, delay))"
    by (simp add: run_charter [OF assms(1)])
  then show "lr_server r = server" "lr_num_players r = n" "lr_seed r = seed" "lr_arena_id r = arena" "lr_input_delay r = delay"
    using r by (auto simp: charter_def split: if_splits)
qed

theorem ready_result_is_complete_witness:
  "\<exists>r. lobby_result example_client = Some r \<and> lr_seed r = 99 \<and> lr_arena_id r = 0 \<and> lr_num_players r = 2
    \<and> nr_kind (lr_route r ! 1) \<noteq> NET_ROUTE_NONE"
proof -
  let ?lc = "example_begun arena_net_version"
  have host: "lobby_host_begin 5000 me_ep server_ep 2 99 0 3 100 = Some (?lc, send_host_req ?lc)"
    by (simp add: lobby_host_begin_def example_begun_def ARENA_MAX_PLAYERS_def Let_def)
  then have begun: "client_begun ?lc" unfolding client_begun_def by blast
  have ready: "lobby_result (fold client_step [Polled 200 example_mail] ?lc) = Some (lc_result example_client)"
    using example_ready by (simp add: lobby_result_def example_run_def)
  have slot: "lr_local_slot (lc_result example_client) = 0"
    using ready_fields [OF example_reach, of "lc_result example_client"] example_ready by (simp add: lobby_result_def)
  note complete = ready_result_is_complete [OF begun ready, of 1]
  have "lr_num_players (lc_result example_client) = 2 \<and> lr_seed (lc_result example_client) = 99
      \<and> lr_arena_id (lc_result example_client) = 0"
    using complete host by simp blast
  moreover from this have "nr_kind (lr_route (lc_result example_client) ! 1) \<noteq> NET_ROUTE_NONE"
    using complete slot by simp
  ultimately show ?thesis using example_ready(1) by (simp add: lobby_result_def)
qed

section \<open>Direct routes lead to addresses that answered\<close>

definition answered :: "(LobbyEndpoint \<times> u8 list) list \<Rightarrow> u16 \<Rightarrow> nat \<Rightarrow> u32 \<Rightarrow> LobbyEndpoint \<Rightarrow> bool" where
  "answered log sid i nonce e \<longleftrightarrow>
     (\<exists>buf. (e, buf) \<in> set log \<and> lobby_unpack buf = Some (Some (LOBBY_PUNCH_ACK sid (of_nat i) nonce)))"

definition told :: "(LobbyEndpoint \<times> u8 list) list \<Rightarrow> nat \<Rightarrow> bool" where
  "told log i \<longleftrightarrow> (\<exists>src buf a b. (src, buf) \<in> set log
     \<and> lobby_unpack buf = Some (Some (LOBBY_PAIR_ROUTE a b LOBBY_ROUTE_DIRECT)) \<and> (unat a = i \<or> unat b = i))"

lemma direct_codes [simp]:
  "uint r = uint LOBBY_ROUTE_DIRECT \<longleftrightarrow> r = LOBBY_ROUTE_DIRECT" "- 1 \<noteq> uint LOBBY_ROUTE_DIRECT"
  by (simp add: word_uint_eq_iff) (simp add: LOBBY_ROUTE_DIRECT_def)

definition ack_ok :: "(LobbyEndpoint \<times> u8 list) list \<Rightarrow> u16 \<Rightarrow> nat \<Rightarrow> ClientPeer \<Rightarrow> bool" where
  "ack_ok log sid i p \<longleftrightarrow>
     (if cp_acked p then cp_present p \<and> cp_nonce p \<noteq> 0 \<and> sid \<noteq> 0 \<and> answered log sid i (cp_nonce p) (cp_chosen p)
      else cp_chosen p = endpoint_none)
     \<and> (cp_route p = uint LOBBY_ROUTE_DIRECT \<longrightarrow> told log i)"

definition acks_ok :: "(LobbyEndpoint \<times> u8 list) list \<Rightarrow> LobbyClient \<Rightarrow> bool" where
  "acks_ok log lc \<longleftrightarrow> length (lc_peers lc) = 4 \<and> (\<forall>i < 4. ack_ok log (lc_session_id lc) i (peer lc i))
     \<and> (lc_stage lc = LOBBY_C_REGISTERING \<longrightarrow> lc_session_id lc = 0)"

lemma ack_ok_more: "ack_ok log sid i p \<Longrightarrow> ack_ok (log @ extra) sid i p"
  by (fastforce simp: ack_ok_def answered_def told_def)

lemma acks_ok_more: "acks_ok log lc \<Longrightarrow> acks_ok (log @ extra) lc"
  by (auto simp: acks_ok_def ack_ok_more)

lemma ack_ok_same:
  "cp_acked q = cp_acked p \<Longrightarrow> cp_present q = cp_present p \<Longrightarrow> cp_nonce q = cp_nonce p \<Longrightarrow> cp_chosen q = cp_chosen p \<Longrightarrow>
     cp_route q = cp_route p \<Longrightarrow> ack_ok log sid i q = ack_ok log sid i p"
  by (simp add: ack_ok_def)

lemma acks_at_peer:
  "acks_ok log lc \<Longrightarrow> (i < 4 \<Longrightarrow> ack_ok log (lc_session_id lc) i (f (peer lc i))) \<Longrightarrow> acks_ok log (at_peer i f lc)"
  by (auto simp: acks_ok_def at_peer_def nth_list_update_if)

lemma acks_at_peer_same:
  assumes "\<And>p. cp_acked (f p) = cp_acked p" "\<And>p. cp_present (f p) = cp_present p"
    "\<And>p. cp_nonce (f p) = cp_nonce p" "\<And>p. cp_chosen (f p) = cp_chosen p"
    "\<And>p. cp_route (f p) = cp_route p"
  shows "acks_ok log lc \<Longrightarrow> acks_ok log (at_peer i f lc)"
  using ack_ok_same [of "f p" p for p] assms by (intro acks_at_peer) (auto simp: acks_ok_def)

lemma acks_frame:
  assumes "lc_peers lc' = lc_peers lc" and "lc_session_id lc' = lc_session_id lc"
    and "lc_stage lc' = LOBBY_C_REGISTERING \<Longrightarrow> lc_stage lc = LOBBY_C_REGISTERING"
  shows "acks_ok log lc \<Longrightarrow> acks_ok log lc'"
  using assms by (auto simp: acks_ok_def)

lemma acks_host_resp:
  assumes "acks_ok log lc"
  shows "acks_ok log (on_host_resp sid lc)"
proof (cases "lc_stage lc \<noteq> LOBBY_C_REGISTERING \<or> sid = 0")
  case True
  then show ?thesis using assms by (simp add: on_host_resp_def)
next
  case False
  then have old: "ack_ok log 0 i (peer lc i)" if "i < 4" for i
    using assms that by (auto simp: acks_ok_def)
  have idle: "\<not> cp_acked (peer lc i) \<and> cp_chosen (peer lc i) = endpoint_none" if "i < 4" for i
    using old [OF that] by (simp add: ack_ok_def split: if_splits)
  then show ?thesis
    using False assms by (auto simp: on_host_resp_def acks_ok_def at_peer_def ack_ok_def nth_list_update_if)
qed

lemma acks_intro:
  assumes "acks_ok log lc"
  shows "acks_ok log (on_peer_intro now s pub prv lc)"
proof -
  have r: "acks_ok log (at_peer (unat s) (refresh_peer pub prv) lc)"
    by (rule acks_at_peer_same [OF _ _ _ _ _ assms]) (simp_all add: refresh_peer_def)
  have "acks_ok log (at_peer i (meet_peer now n) (lc'\<lparr>lc_rng := n\<rparr>))"
    if ok: "acks_ok log lc'" and "\<not> cp_present (peer lc' i)" for lc' n i
  proof (rule acks_at_peer)
    show "acks_ok log (lc'\<lparr>lc_rng := n\<rparr>)" using ok by (rule acks_frame [rotated 3]) simp_all
    assume "i < 4"
    then have "ack_ok log (lc_session_id lc') i (peer lc' i)" using ok by (simp add: acks_ok_def)
    with that(2) show "ack_ok log (lc_session_id (lc'\<lparr>lc_rng := n\<rparr>)) i (meet_peer now n (peer (lc'\<lparr>lc_rng := n\<rparr>) i))"
      by (auto simp: ack_ok_def meet_peer_def split: if_splits)
  qed
  then show ?thesis using assms r by (simp add: on_peer_intro_def Let_def)
qed

lemma acks_punch_ack:
  assumes "acks_ok log lc" and "(src, buf) \<in> set log"
    and "lobby_unpack buf = Some (Some (LOBBY_PUNCH_ACK sid s nonce))"
  shows "acks_ok log (fst (on_punch_ack now src sid s nonce lc))"
proof (cases "fst (on_punch_ack now src sid s nonce lc) = lc")
  case False
  then have g: "sid = lc_session_id lc" "lc_session_id lc \<noteq> 0" "cp_present (peer lc (unat s))"
      "cp_nonce (peer lc (unat s)) \<noteq> 0" "nonce = cp_nonce (peer lc (unat s))"
      "fst (on_punch_ack now src sid s nonce lc) = at_peer (unat s) (ack_peer now src) lc"
    by (auto simp: on_punch_ack_def split: if_splits)
  have "answered log (lc_session_id lc) (unat s) (cp_nonce (peer lc (unat s))) src"
    unfolding answered_def using assms(2,3) g(1,5) by (intro exI [of _ buf]) simp
  moreover have "ack_ok log (lc_session_id lc) i (peer lc i)" if "i < 4" for i
    using assms(1) that by (simp add: acks_ok_def)
  ultimately show ?thesis
    unfolding g(6) using g(2-4) by (intro acks_at_peer [OF assms(1)]) (simp add: ack_ok_def ack_peer_def)
qed (simp add: assms(1))

lemma acks_know_pair: "acks_ok log lc \<Longrightarrow> acks_ok log (know_pair a b lc)"
  by (rule acks_frame [of "know_pair a b lc" lc]) (simp_all add: know_pair_def)

lemma acks_routed:
  assumes "acks_ok log lc" and "r = LOBBY_ROUTE_DIRECT \<Longrightarrow> told log i"
  shows "acks_ok log (at_peer i (\<lambda>p. p\<lparr>cp_route := uint r\<rparr>) lc)"
proof (rule acks_at_peer [OF assms(1)])
  assume "i < 4"
  then have "ack_ok log (lc_session_id lc) i (peer lc i)" using assms(1) by (simp add: acks_ok_def)
  then show "ack_ok log (lc_session_id lc) i ((peer lc i)\<lparr>cp_route := uint r\<rparr>)"
    using assms(2) by (auto simp: ack_ok_def)
qed

lemma acks_pair_route:
  assumes "acks_ok log lc" and "(src, buf) \<in> set log" and "lobby_unpack buf = Some (Some (LOBBY_PAIR_ROUTE a b r))"
  shows "acks_ok log (on_pair_route a b r lc)"
proof -
  have "told log (unat a)" "told log (unat b)" if "r = LOBBY_ROUTE_DIRECT"
    unfolding told_def using assms(2,3) that by blast+
  then show ?thesis
    using assms(1) by (simp add: on_pair_route_def Let_def acks_routed acks_know_pair)
qed

lemma acks_join_resp: "acks_ok log lc \<Longrightarrow> acks_ok log (on_join_resp slot n lc)"
proof -
  assume ok: "acks_ok log lc"
  have "acks_ok log (at_peer i (\<lambda>p. p\<lparr>cp_present := True\<rparr>) lc)" for i
    using ok by (intro acks_at_peer) (auto simp: acks_ok_def ack_ok_def)
  then have "acks_ok log ((at_peer i (\<lambda>p. p\<lparr>cp_present := True\<rparr>) lc)
      \<lparr>lc_local_slot := slot, lc_num_players := n, lc_retries := 0, lc_stage := LOBBY_C_WAITING_PEERS\<rparr>)" for i
    by (rule acks_frame [rotated 3]) simp_all
  then show ?thesis using ok by (simp add: on_join_resp_def)
qed

lemma acks_start: "acks_ok log lc \<Longrightarrow> acks_ok log (fst (on_start seed arena n delay lc))"
  by (erule acks_frame [rotated 3]) (auto simp: on_start_def start_seen_def set_fail_text_def split: if_splits)

lemma acks_reject: "acks_ok log lc \<Longrightarrow> acks_ok log (on_reject r lc)"
  by (erule acks_frame [rotated 3]) (simp_all add: on_reject_def set_fail_text_def split: if_splits)

lemma acks_handle:
  assumes "acks_ok log lc" and "(src, buf) \<in> set log" and "lobby_unpack buf = Some (Some m)"
  shows "acks_ok log (fst (handle_msg now src m lc))"
  using assms(1) acks_punch_ack [OF assms(1,2)] acks_pair_route [OF assms(1,2)] assms(3)
  by (cases m) (simp_all add: handle_msg_def acks_host_resp acks_join_resp acks_reject acks_intro acks_start)

lemma acks_drain: "acks_ok log lc \<Longrightarrow> set ds \<subseteq> set log \<Longrightarrow> acks_ok log (fst (drain now ds lc))"
proof (induction ds arbitrary: lc)
  case (Cons d ds)
  obtain src buf where d: "d = (src, buf)" by (cases d)
  show ?case
  proof (cases "\<exists>m. lobby_unpack buf = Some (Some m)")
    case True
    then obtain m where m: "lobby_unpack buf = Some (Some m)" by blast
    have h: "acks_ok log (fst (handle_msg now src m lc))"
      using acks_handle [OF Cons.prems(1) _ m] Cons.prems(2) d by simp
    show ?thesis
      using h Cons.IH [OF h] Cons.prems(2) by (auto simp: d m case_prod_unfold Let_def)
  next
    case False
    then have "drain now (d # ds) lc = drain now ds lc"
      by (auto simp: d split: option.splits)
    then show ?thesis using Cons by simp
  qed
qed simp

lemma acks_punch: "acks_ok log lc \<Longrightarrow> acks_ok log (fst (punch_peer now i lc))"
  by (auto simp: punch_peer_def probe_def reported_at_def Let_def intro!: acks_at_peer_same)

lemma acks_fail: "acks_ok log lc \<Longrightarrow> acks_ok log (fail_here lc)"
  by (erule acks_frame [rotated 3]) (simp_all add: fail_here_def set_fail_text_def)

lemma acks_duty:
  assumes "acks_ok log lc"
  shows "acks_ok log (fst (stage_duty now lc))"
proof -
  have upd: "acks_ok log (lc\<lparr>lc_last_send := now, lc_retries := n\<rparr>)" "acks_ok log (lc\<lparr>lc_last_send := now\<rparr>)" for n
    using assms by (rule acks_frame [rotated 3]; simp)+
  have "acks_ok log (lc\<lparr>lc_stage := LOBBY_C_PUNCHING\<rparr>)"
    using assms by (rule acks_frame [rotated 3]) simp_all
  then have "acks_ok log (enter_punching now lc)"
    unfolding enter_punching_def
    by (rule fold_invariant_list) (auto intro!: acks_at_peer_same simp: start_punch_clock_def)
  moreover have "acks_ok log (fst (punch_peers now lc))"
    unfolding punch_peers_def
    by (rule fold_invariant_list [where P = "\<lambda>r. acks_ok log (fst r)"]) (simp_all add: collect_fst acks_punch assms)
  moreover have "acks_ok log (fst (request_retry now lc))"
    using assms upd acks_fail [OF upd(1)] by (simp add: request_retry_def Let_def)
  ultimately show ?thesis
    using assms upd by (simp add: stage_duty_def wait_for_peers_def Let_def split: LobbyClientStage.split)
qed

lemma acks_rest:
  "acks_ok log lc \<Longrightarrow> acks_ok log (fst (host_duty now lc))" "acks_ok log lc \<Longrightarrow> acks_ok log (settle lc)"
  "acks_ok log lc \<Longrightarrow> acks_ok log (fst (keep_alive now lc))"
  by (erule acks_frame [rotated 3]; simp add: host_duty_def settle_def keep_alive_def fill_result_def Let_def split: if_splits)+

lemma acks_poll:
  assumes "acks_ok log lc"
  shows "acks_ok (log @ inbox) (fst (lobby_poll now inbox lc))"
proof -
  have ok: "acks_ok (log @ inbox) lc" using assms by (rule acks_ok_more)
  have "acks_ok (log @ inbox) (fst (drain now (take 128 inbox) lc))"
    using acks_drain [OF ok, of "take 128 inbox"] set_take_subset [of 128 inbox] by auto
  then show ?thesis
    using ok by (simp add: lobby_poll_def case_prod_unfold Let_def acks_duty acks_rest acks_fail)
qed

lemma reach_acks: "client_reach log lc \<Longrightarrow> acks_ok log lc"
proof (induction rule: client_reach.induct)
  case (reach_host port local_ep server n seed arena delay now lc out)
  then show ?case
    by (auto simp: lobby_host_begin_def client_init_def acks_ok_def ack_ok_def client_peer_zero_def Let_def split: if_splits)
next
  case (reach_join port local_ep code now lc out)
  then show ?case
    by (auto simp: lobby_join_begin_def client_init_def acks_ok_def ack_ok_def client_peer_zero_def Let_def split: option.splits)
next
  case reach_poll
  then show ?case by (simp add: acks_poll)
next
  case (reach_force log lc)
  show ?case
    by (rule acks_frame [OF _ _ _ reach_force.IH]) (simp_all add: lobby_set_forced_relay_def)
qed

text \<open>C25: A direct route is never a guess: the client only hands the game a direct route for a seat after a
  PAIR_ROUTE that declared that seat direct.  Its address is then one from which a PUNCH_ACK came that named
  this session and this seat and echoed the client's own nonce for it; the one exception is a peer that
  never answered the client at all, for which the direct route carries the empty address 0.0.0.0:0.\<close>

theorem direct_routes_answered:
  assumes "client_reach log lc" and "lobby_result lc = Some r" and "i < 4"
    and "nr_kind (lr_route r ! i) = NET_ROUTE_DIRECT"
  shows "(\<exists>src buf a b. (src, buf) \<in> set log
      \<and> lobby_unpack buf = Some (Some (LOBBY_PAIR_ROUTE a b LOBBY_ROUTE_DIRECT)) \<and> (unat a = i \<or> unat b = i))
    \<and> (if cp_acked (peer lc i)
       then \<exists>buf. (nr_ep (lr_route r ! i), buf) \<in> set log
         \<and> lobby_unpack buf = Some (Some (LOBBY_PUNCH_ACK (lr_session_id r) (of_nat i) (cp_nonce (peer lc i))))
       else nr_ep (lr_route r ! i) = endpoint_none)"
proof -
  have ready: "lc_stage lc = LOBBY_C_READY" "r = lc_result lc"
    using assms(2) by (simp_all add: lobby_result_def split: if_splits)
  then have r: "r = lc_result (fill_result lc)"
    using reach_ok [OF assms(1)] by (simp add: client_ok_def ready_ok_def)
  then have route: "lr_route r ! i = result_route lc i" "lr_session_id r = lc_session_id lc"
    using assms(3) by (simp_all add: fill_result_def)
  then have "nr_ep (lr_route r ! i) = cp_chosen (peer lc i)" "cp_route (peer lc i) = uint LOBBY_ROUTE_DIRECT"
    using assms(4) by (simp_all add: result_route_def split: if_splits)
  moreover have "ack_ok log (lc_session_id lc) i (peer lc i)"
    using reach_acks [OF assms(1)] assms(3) by (simp add: acks_ok_def)
  ultimately show ?thesis
    using route(2) by (auto simp: ack_ok_def answered_def told_def)
qed

theorem direct_routes_answered_witness:
  "\<exists>buf. (mate_ep, buf) \<in> set example_mail
    \<and> lobby_unpack buf = Some (Some (LOBBY_PUNCH_ACK (lr_session_id (lc_result example_client)) 1 (cp_nonce (peer example_client 1))))"
proof -
  let ?lc = example_client
  have ready: "lc_result ?lc = lc_result (fill_result ?lc)"
    using reach_ok [OF example_reach] example_ready(1) by (simp add: client_ok_def ready_ok_def)
  then have route: "lr_route (lc_result ?lc) ! 1 = \<lparr>nr_kind = NET_ROUTE_DIRECT, nr_ep = mate_ep\<rparr>"
    using example_ready(6) by (simp add: fill_result_def)
  have result: "lobby_result ?lc = Some (lc_result ?lc)" by (simp add: lobby_result_def example_ready)
  show ?thesis
    using direct_routes_answered [OF example_reach result, of 1] by (simp add: route [unfolded One_nat_def] endpoint_none_def split: if_splits)
qed

end
