(* ===== verification/Adapter_Inv.thy ===== *)
theory Adapter_Inv
  imports Net_Adapter
begin

text \<open>
  What holds of the network adapter in every state: the delay queue and the lobby ring stay inside
  their arrays, the ring is a queue that keeps the newest sixteen packets, and the compacting loop
  of \<open>flush_due\<close> is a filter.
\<close>

section \<open>Queues that keep the newest entries\<close>

definition newest :: "nat \<Rightarrow> 'a list \<Rightarrow> 'a list" where
  "newest n xs = drop (length xs - n) xs"

lemma newest_append: "newest n (newest n xs @ ys) = newest n (xs @ ys)"
  by (cases "length xs \<le> n") (simp_all add: newest_def drop_append add.commute)

lemma newest_short: "length xs \<le> n \<Longrightarrow> newest n xs = xs"
  by (simp add: newest_def)

lemma newest_length: "length (newest n xs) = min n (length xs)"
  by (simp add: newest_def)

locale newest_queue =
  fixes cap :: nat and fits :: "'a \<Rightarrow> bool" and ok :: "'s \<Rightarrow> bool" and contents :: "'s \<Rightarrow> 'a list"
    and push :: "'a \<Rightarrow> 's \<Rightarrow> 's" and pop :: "'s \<Rightarrow> ('a \<times> 's) option"
  assumes push_ok: "ok s \<Longrightarrow> fits x \<Longrightarrow> ok (push x s)"
    and push_contents: "ok s \<Longrightarrow> fits x \<Longrightarrow> contents (push x s) = newest cap (contents s @ [x])"
    and pop_ok: "ok s \<Longrightarrow> pop s = Some (x, s') \<Longrightarrow> ok s' \<and> contents s = x # contents s'"
    and pop_none: "ok s \<Longrightarrow> pop s = None \<longleftrightarrow> contents s = []"
begin

lemma push_all:
  "ok s \<Longrightarrow> contents s = newest cap xs \<Longrightarrow> list_all fits ys \<Longrightarrow>
     ok (fold push ys s) \<and> contents (fold push ys s) = newest cap (xs @ ys)"
proof (induction ys arbitrary: s xs)
  case (Cons y ys)
  have "contents (push y s) = newest cap (xs @ [y])"
    using Cons.prems by (simp add: push_contents newest_append)
  then show ?case using Cons.IH [of "push y s" "xs @ [y]"] Cons.prems by (simp add: push_ok)
qed simp

lemma pop_oldest:
  assumes "ok s" and "contents s = x # xs"
  shows "\<exists>s'. pop s = Some (x, s') \<and> ok s' \<and> contents s' = xs"
proof (cases "pop s")
  case None
  then show ?thesis using pop_none [OF assms(1)] assms(2) by simp
next
  case (Some r)
  obtain y s' where r: "r = (y, s')" by (cases r)
  then show ?thesis using pop_ok [OF assms(1), of y s'] Some assms(2) by simp
qed

end

section \<open>The invariant\<close>

definition ring_index :: "NetAdapter \<Rightarrow> nat \<Rightarrow> nat" where
  "ring_index g k = (na_lobbyq_head g + k) mod 16"

definition ring :: "NetAdapter \<Rightarrow> Packet list" where
  "ring g = map (\<lambda>k. na_lobbyq g ! ring_index g k) [0..<na_lobbyq_count g]"

definition ring_ok :: "NetAdapter \<Rightarrow> bool" where
  "ring_ok g \<longleftrightarrow> length (na_lobbyq g) = 16 \<and> na_lobbyq_head g < 16 \<and> na_lobbyq_count g \<le> 16"

definition delayed :: "NetAdapter \<Rightarrow> DelayedPkt list" where
  "delayed g = take (na_dq_n g) (na_dq g)"

definition adapter_ok :: "NetAdapter \<Rightarrow> bool" where
  "adapter_ok g \<longleftrightarrow> length (na_dq g) = 512 \<and> na_dq_n g \<le> 512 \<and> ring_ok g \<and> length (na_route g) = 4
     \<and> (na_active g \<longrightarrow> unat (na_local_slot g) < 4)"

section \<open>The ring\<close>

lemma ring_wrap: "h < 16 \<Longrightarrow> i \<le> 16 \<Longrightarrow> (h + i) mod 16 = (if h + i < 16 then h + i else h + i - (16 :: nat))"
  by (simp add: mod_if)

lemma ring_index_inj:
  "h < 16 \<Longrightarrow> i < 16 \<Longrightarrow> j < 16 \<Longrightarrow> (h + i) mod 16 = (h + j) mod 16 \<Longrightarrow> i = (j :: nat)"
  using ring_wrap [of h i] ring_wrap [of h j] by (auto split: if_splits)

lemma ring_length [simp]: "length (ring g) = na_lobbyq_count g"
  by (simp add: ring_def)

lemma ring_nth: "k < na_lobbyq_count g \<Longrightarrow> ring g ! k = na_lobbyq g ! ring_index g k"
  by (simp add: ring_def)

lemma ring_push_ok: "ring_ok g \<Longrightarrow> ring_ok (lobby_ring_push src buf g)"
  by (simp add: lobby_ring_push_def ring_ok_def na_sizes)

lemma ring_push:
  assumes "ring_ok g"
  shows "ring (lobby_ring_push src buf g) = newest 16 (ring g @ [(src, buf)])"
proof (cases "na_lobbyq_count g < 16")
  case True
  have "(na_lobbyq_head g + na_lobbyq_count g) mod 16 \<noteq> (na_lobbyq_head g + k) mod 16" if "k < na_lobbyq_count g" for k
    using ring_index_inj [of "na_lobbyq_head g" k "na_lobbyq_count g"] True that assms by (auto simp: ring_ok_def)
  then show ?thesis
    using True assms
    by (auto simp: lobby_ring_push_def na_sizes ring_def ring_index_def ring_ok_def newest_short intro!: map_cong)
next
  case False
  then have full: "na_lobbyq_count g = 16" using assms by (simp add: ring_ok_def)
  let ?g = "lobby_ring_push src buf g"
  show ?thesis
  proof (rule nth_equalityI)
    show "length (ring ?g) = length (newest 16 (ring g @ [(src, buf)]))"
      by (simp add: newest_length full) (simp add: lobby_ring_push_def full na_sizes)
    fix k
    assume "k < length (ring ?g)"
    then have k: "k < 16" by (simp add: lobby_ring_push_def full na_sizes)
    have at: "ring ?g ! k = ((na_lobbyq g)[na_lobbyq_head g := (src, buf)]) ! ((na_lobbyq_head g + Suc k) mod 16)"
      using k by (simp add: ring_nth lobby_ring_push_def full na_sizes ring_index_def) (simp add: mod_simps)
    have h: "na_lobbyq_head g < 16" "length (na_lobbyq g) = 16" using assms by (simp_all add: ring_ok_def)
    show "ring ?g ! k = newest 16 (ring g @ [(src, buf)]) ! k"
    proof (cases "k = 15")
      case True
      then show ?thesis using h unfolding at by (simp add: newest_def nth_append full)
    next
      case False
      then have "na_lobbyq_head g \<noteq> (na_lobbyq_head g + Suc k) mod 16" using k h ring_wrap [of "na_lobbyq_head g" "Suc k"] by (simp split: if_splits)
      then show ?thesis using False k by (simp add: at newest_def nth_append full ring_nth ring_index_def)
    qed
  qed
qed

lemma ring_take:
  assumes "ring_ok g" and "net_adapter_take_lobby_packet cap g = Some (d, g')"
  shows "ring_ok g' \<and> ring g = d # ring g'"
proof -
  have g: "na_lobbyq_count g \<noteq> 0" "d = na_lobbyq g ! na_lobbyq_head g"
    "g' = g\<lparr>na_lobbyq_head := (na_lobbyq_head g + 1) mod 16, na_lobbyq_count := na_lobbyq_count g - 1\<rparr>"
    using assms(2) by (auto simp: net_adapter_take_lobby_packet_def na_sizes Let_def split: if_splits)
  then obtain n where n: "na_lobbyq_count g = Suc n" by (cases "na_lobbyq_count g") auto
  have "ring g = na_lobbyq g ! ring_index g 0 # map (\<lambda>k. na_lobbyq g ! ring_index g (Suc k)) [0..<n]"
    unfolding ring_def n by (simp add: upt_conv_Cons map_Suc_upt [symmetric] del: upt_Suc)
  moreover have "ring_index g' k = ring_index g (Suc k)" for k
    by (simp add: ring_index_def g(3) mod_simps)
  ultimately show ?thesis
    using assms(1) by (auto simp: ring_def ring_ok_def g n ring_index_def)
qed

text \<open>A packet fits when it is not empty and no longer than the buffer of the caller, which is
  \<open>LOBBY_MAX_PACKET\<close> bytes everywhere.\<close>

definition fits :: "Packet \<Rightarrow> bool" where
  "fits d \<longleftrightarrow> snd d \<noteq> [] \<and> length (snd d) \<le> 1200"

definition ring_fits :: "NetAdapter \<Rightarrow> bool" where
  "ring_fits g \<longleftrightarrow> na_active g \<and> ring_ok g \<and> list_all fits (ring g)"

lemma newest_all: "list_all P xs \<Longrightarrow> list_all P (newest n xs)"
  by (auto simp: newest_def list_all_iff dest: in_set_dropD)

interpretation lobby_ring: newest_queue 16 fits ring_fits ring
  "\<lambda>d. lobby_ring_push (fst d) (snd d)" "net_adapter_take_lobby_packet 1200"
proof unfold_locales
  fix s :: NetAdapter and x :: Packet
  assume ok: "ring_fits s" "fits x"
  have "na_active (lobby_ring_push (fst x) (snd x) s) = na_active s" by (simp add: lobby_ring_push_def)
  then show "ring_fits (lobby_ring_push (fst x) (snd x) s)"
    using ok by (simp add: ring_fits_def ring_push_ok ring_push newest_all)
  show "ring (lobby_ring_push (fst x) (snd x) s) = newest 16 (ring s @ [x])"
    using ok by (simp add: ring_fits_def ring_push)
next
  fix s s' :: NetAdapter and x :: Packet
  assume ok: "ring_fits s" and taken: "net_adapter_take_lobby_packet 1200 s = Some (x, s')"
  have "na_active s' = na_active s"
    using taken by (auto simp: net_adapter_take_lobby_packet_def Let_def split: if_splits)
  then show "ring_fits s' \<and> ring s = x # ring s'"
    using ok ring_take [OF _ taken] by (auto simp: ring_fits_def)
next
  fix s :: NetAdapter
  assume ok: "ring_fits s"
  have "length (snd (na_lobbyq s ! na_lobbyq_head s)) \<le> 1200" if "na_lobbyq_count s \<noteq> 0"
  proof -
    have "ring s ! 0 = na_lobbyq s ! na_lobbyq_head s"
      using that ok by (simp add: ring_nth ring_index_def ring_fits_def ring_ok_def)
    moreover have "fits (ring s ! 0)" using ok that by (simp add: ring_fits_def list_all_length)
    ultimately show ?thesis by (simp add: fits_def)
  qed
  then show "net_adapter_take_lobby_packet 1200 s = None \<longleftrightarrow> ring s = []"
    using ok by (cases "na_lobbyq_count s = 0")
      (simp_all add: net_adapter_take_lobby_packet_def ring_fits_def Let_def flip: length_0_conv)
qed

section \<open>The delay queue\<close>

lemma flush_scan:
  assumes "n \<le> length dq0"
  shows "fold (flush_step now) [0..<n] (dq0, 0, []) = (dq, w, out) \<Longrightarrow>
     w \<le> n \<and> length dq = length dq0 \<and> take w dq = filter (\<lambda>p. \<not> due now p) (take n dq0)
     \<and> drop n dq = drop n dq0 \<and> out = map packet_in (filter (due now) (take n dq0))"
  using assms
proof (induction n arbitrary: dq w out)
  case (Suc n)
  obtain dq1 w1 out1 where before: "fold (flush_step now) [0..<n] (dq0, 0, []) = (dq1, w1, out1)"
    by (cases "fold (flush_step now) [0..<n] (dq0, 0, [])") auto
  note IH = Suc.IH [OF before] 
  have len: "n < length dq0" "length dq1 = length dq0" "w1 \<le> n" and tail: "drop n dq1 = drop n dq0"
    using IH Suc.prems(2) by simp_all
  have here: "dq1 ! n = dq0 ! n"
    using tail len nth_drop [of n dq1 0] nth_drop [of n dq0 0] by simp
  have rest: "drop (Suc n) dq1 = drop (Suc n) dq0"
    using arg_cong [OF tail, of "drop 1"] by simp
  have step: "flush_step now n (dq1, w1, out1) = (dq, w, out)"
    using Suc.prems(1) by (simp add: before)
  have grow: "take (Suc n) dq0 = take n dq0 @ [dq0 ! n]"
    using len by (simp add: take_Suc_conv_app_nth)
  show ?case
  proof (cases "due now (dq0 ! n)")
    case True
    then show ?thesis
      using step IH len rest by (auto simp: flush_step_def here grow)
  next
    case False
    have "take (w1 + 1) (dq1[w1 := dq0 ! n]) = take w1 dq1 @ [dq0 ! n]"
      using len by (simp add: take_Suc_conv_app_nth take_update_cancel)
    moreover have "take (n + 1) dq1 = take n dq1 @ [dq0 ! n]"
      using len by (simp add: take_Suc_conv_app_nth here)
    ultimately show ?thesis
      using False step IH len rest by (auto simp: flush_step_def here grow split: if_splits)
  qed
qed simp

lemma flush_due_filters:
  assumes "adapter_ok g"
  shows "snd (flush_due now g) = map packet_in (filter (due now) (delayed g))"
    and "delayed (fst (flush_due now g)) = filter (\<lambda>p. \<not> due now p) (delayed g)"
    and "adapter_ok (fst (flush_due now g))"
proof -
  obtain dq w out where scan: "fold (flush_step now) [0..<na_dq_n g] (na_dq g, 0, []) = (dq, w, out)"
    by (cases "fold (flush_step now) [0..<na_dq_n g] (na_dq g, 0, [])") auto
  have "na_dq_n g \<le> length (na_dq g)" using assms by (simp add: adapter_ok_def)
  note f = flush_scan [OF this scan]
  show "snd (flush_due now g) = map packet_in (filter (due now) (delayed g))"
    using f by (simp add: flush_due_def scan delayed_def)
  show "delayed (fst (flush_due now g)) = filter (\<lambda>p. \<not> due now p) (delayed g)"
    using f by (simp add: flush_due_def scan delayed_def)
  show "adapter_ok (fst (flush_due now g))"
    using f assms by (auto simp: flush_due_def scan adapter_ok_def ring_ok_def)
qed

end
