(* ===== verification/Adapter_Props.thy ===== *)
theory Adapter_Props
  imports Adapter_Inv
begin

text \<open>
  What the game can rely on when it sends and receives through the network adapter: payloads arrive
  as they were sent, the impairment profile loses only what it counts, delayed packets leave in
  order, and the lobby ring keeps the newest packets.
\<close>

section \<open>One send under impairment\<close>

lemma na_rand_frame: "\<exists>x. na_rand g = (x, g\<lparr>na_imp_rng := x\<rparr>)"
  by (simp add: na_rand_def Let_def)

lemma jittered_frame: "\<exists>d x. jittered g = (d, g\<lparr>na_imp_rng := x\<rparr>) \<and> 0 \<le> d"
proof -
  obtain x where x: "na_rand g = (x, g\<lparr>na_imp_rng := x\<rparr>)" using na_rand_frame by blast
  show ?thesis
  proof (cases "uint (im_jitter_ms (na_imp g)) = 0")
    case True
    then show ?thesis by (simp add: jittered_def Let_def) (rule exI [of _ "na_imp_rng g"], simp)
  next
    case False
    then show ?thesis by (auto simp: jittered_def x Let_def)
  qed
qed

lemma map_update_same: "i < length xs \<Longrightarrow> f y = f (xs ! i) \<Longrightarrow> map f (xs[i := y]) = map f xs"
  by (simp add: map_update list_update_same_conv)

lemma park_delayed:
  assumes "adapter_ok g" and "na_dq_n g < 512"
  shows "map packet_in (delayed (park now d reorder dest buf g)) = map packet_in (delayed g) @ [(dest, buf)]"
    and "adapter_ok (park now d reorder dest buf g)"
proof -
  let ?n = "na_dq_n g"
  let ?q = "(na_dq g)[?n := \<lparr>dp_due_ms = now + of_int d, dp_to = dest, dp_buf = buf\<rparr>]"
  have n: "?n < length ?q" "length ?q = 512" using assms by (simp_all add: adapter_ok_def)
  have base: "map packet_in (take (?n + 1) ?q) = map packet_in (delayed g) @ [(dest, buf)]"
    using n by (simp add: take_Suc_conv_app_nth take_update_cancel delayed_def packet_in_def)
  have bump: "map packet_in (take m (?q[i := (?q ! i)\<lparr>dp_due_ms := x\<rparr>])) = map packet_in (take m ?q)" if "i < length ?q" for i m x
    using map_update_same [of i ?q packet_in "(?q ! i)\<lparr>dp_due_ms := x\<rparr>"] that
    by (simp only: take_map [symmetric]) (simp add: packet_in_def)
  show "map packet_in (delayed (park now d reorder dest buf g)) = map packet_in (delayed g) @ [(dest, buf)]"
    using base bump [of "?n - 1" "?n + 1"] n by (simp add: park_def delayed_def Let_def)
  show "adapter_ok (park now d reorder dest buf g)"
    using assms by (simp add: park_def adapter_ok_def ring_ok_def Let_def)
qed

definition same_but_queue :: "NetAdapter \<Rightarrow> NetAdapter \<Rightarrow> bool" where
  "same_but_queue g g' \<longleftrightarrow> na_active g' = na_active g \<and> na_lobbyq g' = na_lobbyq g \<and> na_lobbyq_head g' = na_lobbyq_head g
     \<and> na_lobbyq_count g' = na_lobbyq_count g"

lemma same_ring: "same_but_queue g g' \<Longrightarrow> ring g' = ring g"
  by (simp add: same_but_queue_def ring_def ring_index_def)

lemma impaired_send_shape:
  "\<exists>x d r.
     impaired_send now dest buf g = (g, [(dest, buf)])
     \<or> impaired_send now dest buf g = (g\<lparr>na_imp_rng := x\<rparr>, [(dest, buf)])
     \<or> impaired_send now dest buf g = (g\<lparr>na_imp_rng := x, na_loss_count := na_loss_count g + 1\<rparr>, [])
     \<or> impaired_send now dest buf g = (g\<lparr>na_imp_rng := x, na_overflow_count := na_overflow_count g + 1\<rparr>, [(dest, buf)])
     \<or> impaired_send now dest buf g = (park now d r dest buf (g\<lparr>na_imp_rng := x\<rparr>), []) \<and> na_dq_n g < 512"
proof -
  obtain x where x: "na_rand g = (x, g\<lparr>na_imp_rng := x\<rparr>)" using na_rand_frame by blast
  obtain d y where d: "jittered (g\<lparr>na_imp_rng := x\<rparr>) = (d, g\<lparr>na_imp_rng := y\<rparr>)"
    using jittered_frame [of "g\<lparr>na_imp_rng := x\<rparr>"] by auto
  obtain z where z: "na_rand (g\<lparr>na_imp_rng := y\<rparr>) = (z, g\<lparr>na_imp_rng := z\<rparr>)"
    using na_rand_frame [of "g\<lparr>na_imp_rng := y\<rparr>"] by auto
  consider "\<not> na_imp_on g" | "na_imp_on g" "x mod 100 < ucast (im_loss_pct (na_imp g))"
    | "na_imp_on g" "\<not> x mod 100 < ucast (im_loss_pct (na_imp g))" by blast
  then show ?thesis
  proof cases
    case 1
    then show ?thesis by (simp add: impaired_send_def)
  next
    case 2
    then have "impaired_send now dest buf g = (g\<lparr>na_imp_rng := x, na_loss_count := na_loss_count g + 1\<rparr>, [])"
      by (simp add: impaired_send_def x)
    then show ?thesis by blast
  next
    case 3
    then have "impaired_send now dest buf g =
       (if d = 0 then (g\<lparr>na_imp_rng := z\<rparr>, [(dest, buf)])
        else if 512 \<le> na_dq_n g then (g\<lparr>na_imp_rng := z, na_overflow_count := na_overflow_count g + 1\<rparr>, [(dest, buf)])
        else (park now d (z mod 100 < ucast (im_reorder_pct (na_imp g))) dest buf (g\<lparr>na_imp_rng := z\<rparr>), []))"
      by (simp add: impaired_send_def x d z na_sizes)
    then show ?thesis by (metis not_le)
  qed
qed

definition sent_parked_or_lost :: "Packet \<Rightarrow> NetAdapter \<Rightarrow> NetAdapter \<Rightarrow> Packet list \<Rightarrow> bool" where
  "sent_parked_or_lost p g g' out \<longleftrightarrow>
     out = [p] \<and> delayed g' = delayed g \<and> na_loss_count g' = na_loss_count g
     \<or> out = [] \<and> map packet_in (delayed g') = map packet_in (delayed g) @ [p] \<and> na_loss_count g' = na_loss_count g
     \<or> out = [] \<and> delayed g' = delayed g \<and> na_loss_count g' = na_loss_count g + 1"

lemma impaired_send_ok:
  assumes "adapter_ok g" and "impaired_send now dest buf g = (g', out)"
  shows "adapter_ok g'" and "same_but_queue g g'" and "sent_parked_or_lost (dest, buf) g g' out"
proof -
  have all: "adapter_ok g' \<and> same_but_queue g g' \<and> sent_parked_or_lost (dest, buf) g g' out"
    using impaired_send_shape [of now dest buf g] unfolding assms(2)
  proof (elim exE disjE conjE)
    fix x d r
    assume "(g', out) = (park now d r dest buf (g\<lparr>na_imp_rng := x\<rparr>), [])" and room: "na_dq_n g < 512"
    then have g': "g' = park now d r dest buf (g\<lparr>na_imp_rng := x\<rparr>)" "out = []" by simp_all
    have "adapter_ok (g\<lparr>na_imp_rng := x\<rparr>)" using assms(1) by (simp add: adapter_ok_def ring_ok_def)
    note parked = park_delayed [OF this, of now d r dest buf]
    have "delayed (g\<lparr>na_imp_rng := x\<rparr>) = delayed g" by (simp add: delayed_def)
    moreover have "na_loss_count g' = na_loss_count g" "same_but_queue g g'"
      by (simp_all add: g' park_def same_but_queue_def Let_def)
    ultimately show ?thesis using parked room by (simp add: g' sent_parked_or_lost_def)
  qed (use assms(1) in \<open>simp_all add: adapter_ok_def ring_ok_def same_but_queue_def sent_parked_or_lost_def delayed_def\<close>)
  then show "adapter_ok g'" "same_but_queue g g'" "sent_parked_or_lost (dest, buf) g g' out" by simp_all
qed

section \<open>Traffic\<close>

definition send_list :: "LobbyEndpoint \<Rightarrow> u8 list option \<Rightarrow> Packet list" where
  "send_list dest b = (case b of None \<Rightarrow> [] | Some buf \<Rightarrow> [(dest, buf)])"

text \<open>What one call of \<open>na_send\<close> asks to be sent, if anything.\<close>

definition asked :: "u8 list option \<Rightarrow> u8 list \<Rightarrow> int \<Rightarrow> NetAdapter \<Rightarrow> Packet list" where
  "asked addr bytes len g = (case addr of None \<Rightarrow> [] | Some [] \<Rightarrow> []
     | Some (slot # _) \<Rightarrow>
         if na_active g \<and> 0 \<le> len \<and> len \<le> 1024 \<and> unat slot < 4
         then (case wrapped slot (take (nat len) bytes) g of
                 None \<Rightarrow> [] | Some (m, dest) \<Rightarrow> send_list dest (lobby_pack m))
         else [])"

lemma na_send_asked:
  "na_send now addr bytes len g = (case asked addr bytes len g of
       [] \<Rightarrow> (fst (na_send now addr bytes len g), []) | p # _ \<Rightarrow> impaired_send now (fst p) (snd p) g)"
  "asked addr bytes len g = [] \<Longrightarrow> fst (na_send now addr bytes len g) = g \<or> fst (na_send now addr bytes len g) = na_dropped g"
  by (auto simp: na_send_def asked_def send_list_def lobby_sizes ARENA_MAX_PLAYERS_def nat_le_iff zless_nat_eq_int_zless
      split: option.splits list.splits)

inductive traffic :: "Packet list \<Rightarrow> Packet list \<Rightarrow> NetAdapter \<Rightarrow> bool" where
  traffic_open: "net_adapter_init sid slot g0 = Some g \<Longrightarrow> traffic [] [] g"
| traffic_send: "traffic asks sent g \<Longrightarrow> na_send now addr bytes len g = (g', out) \<Longrightarrow>
    traffic (asks @ asked addr bytes len g) (sent @ out) g'"
| traffic_recv: "traffic asks sent g \<Longrightarrow> list_all (\<lambda>d. fits (fst d)) inbox \<Longrightarrow> na_recv now inbox g = (g', out, rs) \<Longrightarrow>
    traffic asks (sent @ out) g'"
| traffic_route: "traffic asks sent g \<Longrightarrow> traffic asks sent (net_adapter_set_route slot r g)"
| traffic_relay: "traffic asks sent g \<Longrightarrow> traffic asks sent (net_adapter_set_relay e g)"
| traffic_impair: "traffic asks sent g \<Longrightarrow> traffic asks sent (net_adapter_impair imp g)"
| traffic_take: "traffic asks sent g \<Longrightarrow> net_adapter_take_lobby_packet cap g = Some (d, g') \<Longrightarrow> traffic asks sent g'"

definition accounted :: "Packet list \<Rightarrow> Packet list \<Rightarrow> NetAdapter \<Rightarrow> bool" where
  "accounted asks sent g \<longleftrightarrow>
     (\<exists>lost. mset asks = mset sent + mset (map packet_in (delayed g)) + lost \<and> na_loss_count g = of_nat (size lost))"

definition adapter_sound :: "NetAdapter \<Rightarrow> bool" where
  "adapter_sound g \<longleftrightarrow> adapter_ok g \<and> ring_fits g"

lemma accounted_same:
  "delayed g' = delayed g \<Longrightarrow> na_loss_count g' = na_loss_count g \<Longrightarrow> accounted asks sent g' = accounted asks sent g"
  by (simp add: accounted_def)

lemma accounted_one:
  assumes "accounted asks sent g" and "sent_parked_or_lost p g g' out"
  shows "accounted (asks @ [p]) (sent @ out) g'"
proof -
  obtain lost where lost: "mset asks = mset sent + mset (map packet_in (delayed g)) + lost"
    "na_loss_count g = of_nat (size lost)"
    using assms(1) by (auto simp: accounted_def)
  from assms(2) show ?thesis unfolding sent_parked_or_lost_def
  proof (elim disjE conjE)
    assume "out = []" "delayed g' = delayed g" "na_loss_count g' = na_loss_count g + 1"
    then show ?thesis unfolding accounted_def using lost by (intro exI [of _ "add_mset p lost"]) simp
  next
    assume parked: "out = []" "map packet_in (delayed g') = map packet_in (delayed g) @ [p]"
      "na_loss_count g' = na_loss_count g"
    show ?thesis unfolding accounted_def parked(1,2) using lost parked(3) by (intro exI [of _ lost]) simp
  qed (use lost in \<open>auto simp: accounted_def intro!: exI [of _ lost]\<close>)
qed

lemma flush_accounted:
  assumes "accounted asks sent g" and "adapter_ok g"
  shows "accounted asks (sent @ snd (flush_due now g)) (fst (flush_due now g))"
proof -
  let ?ps = "mset (map packet_in (delayed g))"
  have "mset (map packet_in (filter (due now) (delayed g)))
      + mset (map packet_in (filter (\<lambda>p. \<not> due now p) (delayed g))) = ?ps"
    by (simp flip: image_mset_union)
  moreover have "na_loss_count (fst (flush_due now g)) = na_loss_count g"
    by (simp add: flush_due_def case_prod_unfold Let_def)
  ultimately show ?thesis
    using assms(1) by (auto simp: accounted_def flush_due_filters [OF assms(2)] ac_simps)
qed

lemma dropped_frame:
  "delayed (na_dropped g) = delayed g" "na_loss_count (na_dropped g) = na_loss_count g"
  "na_active (na_dropped g) = na_active g" "adapter_ok (na_dropped g) = adapter_ok g" "ring_fits (na_dropped g) = ring_fits g"
  by (simp_all add: na_dropped_def adapter_ok_def ring_ok_def ring_fits_def ring_def ring_index_def delayed_def)

lemma sort_in_shape:
  "fst (sort_in memory d g) = g \<or> fst (sort_in memory d g) = na_dropped g
     \<or> fst (sort_in memory d g) = lobby_ring_push (fst d) (snd d) g"
  by (auto simp: sort_in_def game_result_def split: option.splits LobbyMsg.splits)

lemma sort_in_frame:
  assumes "adapter_ok g" and "ring_fits g" and "fits d"
  shows "adapter_ok (fst (sort_in memory d g))" and "ring_fits (fst (sort_in memory d g))"
    and "delayed (fst (sort_in memory d g)) = delayed g"
    and "na_loss_count (fst (sort_in memory d g)) = na_loss_count g"
    and "na_active (fst (sort_in memory d g)) = na_active g"
proof -
  let ?push = "lobby_ring_push (fst d) (snd d) g"
  note shape = sort_in_shape [of memory d g]
  have push: "adapter_ok ?push" "ring_fits ?push"
    using assms lobby_ring.push_ok [of g d] ring_push_ok [of g "fst d" "snd d"]
    by (simp_all add: adapter_ok_def lobby_ring_push_def)
  have same: "delayed ?push = delayed g" "na_loss_count ?push = na_loss_count g" "na_active ?push = na_active g"
    by (simp_all add: lobby_ring_push_def delayed_def)
  show "adapter_ok (fst (sort_in memory d g))" "ring_fits (fst (sort_in memory d g))"
    "delayed (fst (sort_in memory d g)) = delayed g" "na_loss_count (fst (sort_in memory d g)) = na_loss_count g"
    "na_active (fst (sort_in memory d g)) = na_active g"
    using shape push same dropped_frame [of g] assms(1,2) by metis+
qed

lemma sort_all_frame:
  "adapter_ok g \<Longrightarrow> ring_fits g \<Longrightarrow> list_all (\<lambda>d. fits (fst d)) ds \<Longrightarrow>
     adapter_ok (fst (sort_all ds g)) \<and> ring_fits (fst (sort_all ds g)) \<and> delayed (fst (sort_all ds g)) = delayed g
     \<and> na_loss_count (fst (sort_all ds g)) = na_loss_count g"
proof (induction ds arbitrary: g)
  case (Cons d ds)
  obtain p memory where d: "d = (p, memory)" by (cases d)
  have "fits p" using Cons.prems(3) by (simp add: d)
  note here = sort_in_frame [OF Cons.prems(1,2) this, of memory]
  show ?case using Cons.IH [OF here(1,2)] Cons.prems(3) here(3,4) by (simp add: d case_prod_unfold Let_def)
qed simp

lemma flush_ring: "same_but_queue g (fst (flush_due now g))"
  by (simp add: flush_due_def same_but_queue_def case_prod_unfold Let_def)

lemma same_fits: "same_but_queue g g' \<Longrightarrow> ring_fits g \<Longrightarrow> ring_fits g'"
  using same_ring [of g g'] by (simp add: ring_fits_def ring_ok_def same_but_queue_def)

lemma traffic_ok: "traffic asks sent g \<Longrightarrow> adapter_ok g \<and> ring_fits g \<and> accounted asks sent g"
proof (induction rule: traffic.induct)
  case (traffic_open sid slot g0 g)
  then show ?case
    by (auto simp: net_adapter_init_def adapter_zero_def adapter_ok_def ring_ok_def ring_fits_def ring_def delayed_def
        accounted_def na_sizes ARENA_MAX_PLAYERS_def split: if_splits)
next
  case (traffic_send asks sent g now addr bytes len g' out)
  then have ok: "adapter_ok g" "ring_fits g" "accounted asks sent g" by simp_all
  show ?case
  proof (cases "asked addr bytes len g")
    case Nil
    then have "g' = g \<or> g' = na_dropped g" "out = []"
      using traffic_send.hyps(2) na_send_asked(2) [OF Nil, of now] na_send_asked(1) [of now addr bytes len g] by auto
    moreover have "accounted asks sent (na_dropped g) = accounted asks sent g"
      using dropped_frame(1,2) by (rule accounted_same)
    ultimately show ?thesis using ok Nil dropped_frame(4,5) by auto
  next
    case (Cons p ps)
    then have one: "ps = []" by (auto simp: asked_def send_list_def split: option.splits list.splits if_splits)
    have sent: "impaired_send now (fst p) (snd p) g = (g', out)"
      using traffic_send.hyps(2) na_send_asked(1) [of now addr bytes len g] by (simp add: Cons)
    note step = impaired_send_ok [OF ok(1) sent]
    show ?thesis
      using accounted_one [OF ok(3), of p g' out] step same_fits [OF step(2) ok(2)] by (simp add: Cons one)
  qed
next
  case (traffic_recv asks sent g inbox now g' out rs)
  then have ok: "adapter_ok g" "ring_fits g" "accounted asks sent g" by simp_all
  let ?f = "fst (flush_due now g)"
  have r: "sort_all (take 64 inbox) ?f = (g', rs)" "out = snd (flush_due now g)"
    using traffic_recv.hyps(3) ok(2)
    by (auto simp: na_recv_def ring_fits_def na_sizes case_prod_unfold Let_def split: if_splits)
  have "list_all (\<lambda>d. fits (fst d)) (take 64 inbox)"
    using traffic_recv.hyps(2) by (auto simp: list_all_iff dest: in_set_takeD)
  note sorted = sort_all_frame [OF flush_due_filters(3) [OF ok(1)] same_fits [OF flush_ring ok(2)] this, of now, unfolded r(1) fst_conv]
  then show ?case using flush_accounted [OF ok(3,1), of now] accounted_same [of g' ?f] r(2) by simp
next
  case (traffic_route asks sent g slot r)
  then show ?case
    by (auto simp: net_adapter_set_route_def adapter_ok_def ring_ok_def ring_fits_def ring_def ring_index_def accounted_def delayed_def)
next
  case (traffic_relay asks sent g e)
  then show ?case
    by (auto simp: net_adapter_set_relay_def adapter_ok_def ring_ok_def ring_fits_def ring_def ring_index_def accounted_def delayed_def)
next
  case (traffic_impair asks sent g imp)
  then show ?case
    by (auto simp: net_adapter_impair_def adapter_ok_def ring_ok_def ring_fits_def ring_def ring_index_def accounted_def delayed_def
        split: option.splits)
next
  case (traffic_take asks sent g cap d g')
  then have ok: "adapter_ok g" "ring_fits g" "accounted asks sent g" by simp_all
  have g': "g' = g\<lparr>na_lobbyq_head := na_lobbyq_head g', na_lobbyq_count := na_lobbyq_count g'\<rparr>"
    using traffic_take.hyps(2) by (auto simp: net_adapter_take_lobby_packet_def Let_def split: if_splits)
  have "ring_ok g' \<and> ring g = d # ring g'"
    using ring_take [OF _ traffic_take.hyps(2)] ok(2) by (simp add: ring_fits_def)
  moreover have "delayed g' = delayed g" "na_loss_count g' = na_loss_count g" "na_active g' = na_active g"
    "length (na_dq g') = length (na_dq g)" "na_dq_n g' = na_dq_n g" "na_route g' = na_route g"
    "na_local_slot g' = na_local_slot g"
    by (subst g', simp add: delayed_def)+
  ultimately show ?case using ok accounted_same [of g' g] by (simp add: adapter_ok_def ring_fits_def)
qed

section \<open>Packets are accounted for\<close>

definition example_adapter :: NetAdapter where
  "example_adapter = adapter_zero\<lparr>na_active := True, na_session_id := 8225, na_local_slot := 1\<rparr>"

lemma example_open: "net_adapter_init 8225 1 adapter_zero = Some example_adapter"
  by (simp add: net_adapter_init_def example_adapter_def adapter_zero_def ARENA_MAX_PLAYERS_def)

text \<open>C11: Nothing vanishes in the adapter: over every run of sends, receives and settings, the packets
  it was asked to send are exactly those that left, those still in the delay queue and those the
  loss profile took, each counted once in \<open>loss_count\<close> (which wraps at 32 bits); and the queue
  never holds more than its 512 entries.\<close>

theorem packets_are_accounted_for:
  assumes "traffic asks sent g"
  shows "(\<exists>lost. mset asks = mset sent + mset (map packet_in (delayed g)) + lost \<and> na_loss_count g = of_nat (size lost))
    \<and> length (na_dq g) = 512 \<and> na_dq_n g \<le> 512 \<and> length (delayed g) = na_dq_n g"
  using traffic_ok [OF assms] by (auto simp: accounted_def adapter_ok_def delayed_def)

theorem packets_are_accounted_for_witness:
  "length (na_dq example_adapter) = 512 \<and> na_dq_n example_adapter \<le> 512"
  using packets_are_accounted_for [OF traffic_open [OF example_open]] by blast

section \<open>One receive\<close>

text \<open>The reference: which packets are for the lobby, and what a game packet gives the library.\<close>

definition is_game :: "LobbyMsg \<Rightarrow> bool" where
  "is_game m = (case m of LOBBY_GAME _ _ _ _ \<Rightarrow> True | LOBBY_RELAY _ _ _ _ \<Rightarrow> True | _ \<Rightarrow> False)"

definition for_lobby :: "Packet \<Rightarrow> bool" where
  "for_lobby d \<longleftrightarrow> (\<exists>m. lobby_unpack (snd d) = Some (Some m) \<and> \<not> is_game m)"

definition for_game :: "u16 \<Rightarrow> u8 \<Rightarrow> Packet \<times> bool \<Rightarrow> GekkoResult list" where
  "for_game sid slot d = (case lobby_unpack (snd (fst d)) of
       Some (Some (LOBBY_GAME s frm dst payload)) \<Rightarrow> if s = sid \<and> dst = slot \<and> snd d then [([frm], payload)] else []
     | Some (Some (LOBBY_RELAY s frm dst payload)) \<Rightarrow> if s = sid \<and> dst = slot \<and> snd d then [([frm], payload)] else []
     | _ \<Rightarrow> [])"

lemma sort_in_ring:
  assumes "ring_ok g"
  shows "ring (fst (sort_in memory d g)) = (if for_lobby d then newest 16 (ring g @ [d]) else ring g)"
    and "snd (sort_in memory d g) = for_game (na_session_id g) (na_local_slot g) (d, memory)"
    and "na_session_id (fst (sort_in memory d g)) = na_session_id g"
    and "na_local_slot (fst (sort_in memory d g)) = na_local_slot g"
proof -
  have dropped: "ring (na_dropped g) = ring g" by (simp add: na_dropped_def ring_def ring_index_def)
  show "ring (fst (sort_in memory d g)) = (if for_lobby d then newest 16 (ring g @ [d]) else ring g)"
    by (auto simp: sort_in_def for_lobby_def is_game_def game_result_def dropped ring_push [OF assms]
        split: option.splits LobbyMsg.splits)
  show "snd (sort_in memory d g) = for_game (na_session_id g) (na_local_slot g) (d, memory)"
    by (auto simp: sort_in_def for_game_def game_result_def split: option.splits LobbyMsg.splits)
  show "na_session_id (fst (sort_in memory d g)) = na_session_id g" "na_local_slot (fst (sort_in memory d g)) = na_local_slot g"
    by (auto simp: sort_in_def game_result_def na_dropped_def lobby_ring_push_def split: option.splits LobbyMsg.splits)
qed

lemma sort_in_ring_ok: "ring_ok g \<Longrightarrow> ring_ok (fst (sort_in memory d g))"
  by (auto simp: sort_in_def game_result_def ring_push_ok split: option.splits LobbyMsg.splits)
    (simp_all add: na_dropped_def ring_ok_def)

lemma sort_all_sorts:
  assumes "ring_ok g" and "ring g = newest 16 xs"
  shows "ring (fst (sort_all ds g)) = newest 16 (xs @ filter for_lobby (map fst ds))
    \<and> snd (sort_all ds g) = concat (map (for_game (na_session_id g) (na_local_slot g)) ds)"
  using assms
proof (induction ds arbitrary: g xs)
  case (Cons d ds)
  obtain p memory where d: "d = (p, memory)" by (cases d)
  let ?g = "fst (sort_in memory p g)"
  note here = sort_in_ring [OF Cons.prems(1), of memory p]
  have "ring ?g = newest 16 (xs @ filter for_lobby [p])"
    using here(1) Cons.prems(2) by (simp add: newest_append)
  from Cons.IH [OF sort_in_ring_ok [OF Cons.prems(1)] this] show ?case
    using here(2-4) by (simp add: d case_prod_unfold Let_def)
qed simp

lemma sort_all_delayed: "delayed (fst (sort_all ds g)) = delayed g"
proof (induction ds arbitrary: g)
  case (Cons d ds)
  have "delayed (fst (sort_in memory p g)) = delayed g" for memory p
    using sort_in_shape [of memory p g] dropped_frame(1) by (auto simp: lobby_ring_push_def delayed_def)
  then show ?case using Cons by (cases d) (simp add: case_prod_unfold Let_def)
qed simp

text \<open>C24: One receive of the library is three things at once: the delayed packets that are due leave in
  the order they were queued and the others stay in theirs; of the first 64 datagrams exactly the
  game packets of this session for this seat become results, in order, direct or relayed alike; and
  the lobby packets among them queue up behind those already waiting, of which the sixteen newest
  are kept.\<close>

theorem receive_sorts_packets:
  assumes "traffic asks sent g" and "na_recv now inbox g = (g', out, rs)"
  shows "out = map packet_in (filter (due now) (delayed g))
    \<and> delayed g' = filter (\<lambda>p. \<not> due now p) (delayed g)
    \<and> rs = concat (map (for_game (na_session_id g) (na_local_slot g)) (take 64 inbox))
    \<and> ring g' = newest 16 (ring g @ filter for_lobby (map fst (take 64 inbox)))"
proof -
  have ok: "adapter_ok g" "ring_fits g" using traffic_ok [OF assms(1)] by simp_all
  let ?f = "fst (flush_due now g)"
  have r: "sort_all (take 64 inbox) ?f = (g', rs)" "out = snd (flush_due now g)"
    using assms(2) ok(2) by (auto simp: na_recv_def ring_fits_def na_sizes case_prod_unfold Let_def split: if_splits)
  have f: "ring_ok ?f" "ring ?f = newest 16 (ring g)"
    using flush_due_filters(3) [OF ok(1)] same_ring [OF flush_ring] ok(1)
    by (simp_all add: adapter_ok_def ring_ok_def newest_short)
  have same: "na_session_id ?f = na_session_id g" "na_local_slot ?f = na_local_slot g"
    by (simp_all add: flush_due_def case_prod_unfold Let_def)
  have "delayed g' = delayed ?f" using sort_all_delayed [of "take 64 inbox" ?f] by (simp add: r(1))
  then show ?thesis
    using sort_all_sorts [OF f, of "take 64 inbox"] flush_due_filters(1,2) [OF ok(1), of now] r same by simp
qed

theorem receive_sorts_packets_witness:
  "\<exists>g' buf. lobby_pack (LOBBY_GAME 8225 0 1 [7]) = Some buf
     \<and> na_recv 5 [((endpoint_none, buf), True)] example_adapter = (g', [], [([0], [7])])"
proof -
  obtain buf where buf: "lobby_pack (LOBBY_GAME 8225 0 1 [7]) = Some buf"
    using pack_defined [of "LOBBY_GAME 8225 0 1 [7]"] by (auto simp: payload_of_def)
  then have read: "lobby_unpack buf = Some (Some (LOBBY_GAME 8225 0 1 [7]))"
    using pack_read_back [of _ buf "[]"] by simp
  obtain g' out rs where recv: "na_recv 5 [((endpoint_none, buf), True)] example_adapter = (g', out, rs)"
    by (cases "na_recv 5 [((endpoint_none, buf), True)] example_adapter") auto
  have "delayed example_adapter = []" by (simp add: example_adapter_def adapter_zero_def delayed_def)
  then show ?thesis
    using receive_sorts_packets [OF traffic_open [OF example_open] recv] buf recv
    by (auto simp: for_game_def read example_adapter_def)
qed

section \<open>Game payloads arrive\<close>

lemma wrapped_routes:
  assumes "nr_kind (na_route g ! unat slot) \<noteq> NET_ROUTE_NONE" and "length payload \<le> 1024"
  shows "\<exists>m dest buf. wrapped slot payload g = Some (m, dest) \<and> lobby_pack m = Some buf
     \<and> dest = (if nr_kind (na_route g ! unat slot) = NET_ROUTE_DIRECT then nr_ep (na_route g ! unat slot) else na_relay g)
     \<and> lobby_unpack buf = Some (Some m) \<and> for_game (na_session_id g) slot ((src, buf), True) = [([na_local_slot g], payload)]
     \<and> m = (if nr_kind (na_route g ! unat slot) = NET_ROUTE_DIRECT then LOBBY_GAME (na_session_id g) (na_local_slot g) slot payload
            else LOBBY_RELAY (na_session_id g) (na_local_slot g) slot payload)"
proof -
  let ?m = "if nr_kind (na_route g ! unat slot) = NET_ROUTE_DIRECT then LOBBY_GAME (na_session_id g) (na_local_slot g) slot payload
    else LOBBY_RELAY (na_session_id g) (na_local_slot g) slot payload"
  have "length (payload_of ?m) \<le> 1024" using assms(2) by (simp add: payload_of_def)
  then obtain buf where buf: "lobby_pack ?m = Some buf" using pack_defined [of ?m] by auto
  then have "lobby_unpack buf = Some (Some ?m)" using pack_read_back [of _ buf "[]"] by simp
  then show ?thesis
    using assms(1) buf
    by (cases "nr_kind (na_route g ! unat slot)") (auto simp: wrapped_def for_game_def)
qed

lemma na_send_plain:
  assumes "na_active g" and "unat slot < 4" and "length payload \<le> 1024" and "\<not> na_imp_on g"
    and "wrapped slot payload g = Some (m, dest)" and "lobby_pack m = Some buf"
  shows "na_send now (Some [slot]) payload (int (length payload)) g = (g, [(dest, buf)])"
  using assms
  by (simp add: na_send_def lobby_sizes ARENA_MAX_PLAYERS_def impaired_send_def)

lemma recv_one:
  assumes "traffic asks sent h"
  shows "snd (snd (na_recv now [((src, buf), True)] h)) = for_game (na_session_id h) (na_local_slot h) ((src, buf), True)"
proof -
  have "na_active h" "adapter_ok h" using traffic_ok [OF assms] by (simp_all add: ring_fits_def)
  moreover have "na_session_id (fst (flush_due now h)) = na_session_id h" "na_local_slot (fst (flush_due now h)) = na_local_slot h"
    by (simp_all add: flush_due_def case_prod_unfold Let_def)
  moreover have "ring_ok (fst (flush_due now h))"
    using flush_due_filters(3) \<open>adapter_ok h\<close> by (auto simp: adapter_ok_def)
  ultimately show ?thesis
    using sort_in_ring(2) [of "fst (flush_due now h)" True "(src, buf)"]
    by (simp add: na_recv_def case_prod_unfold Let_def na_sizes)
qed

text \<open>A payload the library sends to a seat with a route leaves as one datagram, to the address of
  the direct route or to the relay, and the adapter of that seat, when it receives that datagram,
  hands its library the same payload with the sender's slot as the address: whatever the two
  adapters did before, as long as no impairment is on.\<close>

theorem game_payloads_arrive:
  assumes "traffic asks sent g" and "unat slot < 4" and "nr_kind (na_route g ! unat slot) \<noteq> NET_ROUTE_NONE"
    and "length payload \<le> 1024" and "\<not> na_imp_on g"
    and "traffic asks' sent' h" and "na_session_id h = na_session_id g" and "na_local_slot h = slot"
  shows "\<exists>buf. na_send now (Some [slot]) payload (int (length payload)) g =
      (g, [(if nr_kind (na_route g ! unat slot) = NET_ROUTE_DIRECT then nr_ep (na_route g ! unat slot) else na_relay g, buf)])
    \<and> snd (snd (na_recv now' [((src, buf), True)] h)) = [([na_local_slot g], payload)]"
proof -
  have active: "na_active g" using traffic_ok [OF assms(1)] by (simp add: ring_fits_def)
  obtain m dest buf where w: "wrapped slot payload g = Some (m, dest)" "lobby_pack m = Some buf"
    "dest = (if nr_kind (na_route g ! unat slot) = NET_ROUTE_DIRECT then nr_ep (na_route g ! unat slot) else na_relay g)"
    "for_game (na_session_id g) slot ((src, buf), True) = [([na_local_slot g], payload)]"
    using wrapped_routes [OF assms(3,4), of src] by blast
  show ?thesis
    using na_send_plain [OF active assms(2,4,5) w(1,2)] recv_one [OF assms(6), of now' src buf] w(3,4) assms(7,8) by auto
qed

definition example_peer :: NetAdapter where
  "example_peer = net_adapter_set_route 1 \<lparr>nr_kind = NET_ROUTE_DIRECT, nr_ep = \<lparr>ep_ip = 9, ep_port = 9\<rparr>\<rparr>
     (adapter_zero\<lparr>na_active := True, na_session_id := 8225\<rparr>)"

lemma example_peer_traffic: "traffic [] [] example_peer"
proof -
  have "net_adapter_init 8225 0 adapter_zero = Some (adapter_zero\<lparr>na_active := True, na_session_id := 8225\<rparr>)"
    by (simp add: net_adapter_init_def adapter_zero_def ARENA_MAX_PLAYERS_def)
  then show ?thesis unfolding example_peer_def by (intro traffic_route traffic_open)
qed

lemma example_peer_fields:
  "na_session_id example_peer = 8225" "na_local_slot example_peer = 0" "\<not> na_imp_on example_peer"
  "na_route example_peer ! 1 = \<lparr>nr_kind = NET_ROUTE_DIRECT, nr_ep = \<lparr>ep_ip = 9, ep_port = 9\<rparr>\<rparr>"
  by (simp_all add: example_peer_def net_adapter_set_route_def adapter_zero_def ARENA_MAX_PLAYERS_def)

theorem game_payloads_arrive_witness:
  "\<exists>buf. na_send 10 (Some [1]) [1, 2, 3] 3 example_peer = (example_peer, [(\<lparr>ep_ip = 9, ep_port = 9\<rparr>, buf)])
    \<and> snd (snd (na_recv 12 [((endpoint_none, buf), True)] example_adapter)) = [([0], [1, 2, 3])]"
proof -
  have "na_session_id example_adapter = na_session_id example_peer" "na_local_slot example_adapter = 1"
    by (simp_all add: example_adapter_def example_peer_fields)
  from game_payloads_arrive [OF example_peer_traffic _ _ _ example_peer_fields(3) traffic_open [OF example_open] this,
      of "[1, 2, 3]" 10 12 endpoint_none]
  show ?thesis using example_peer_fields by (simp add: example_peer_fields [unfolded One_nat_def])
qed

section \<open>The reorder percentage\<close>

lemma sint_small: "uint x < 2 ^ 31 \<Longrightarrow> sint (x :: u32) = uint x"
  by (simp add: sint_uint signed_take_bit_int_eq_self_iff) (rule order_trans [OF _ uint_ge_0], simp)

lemma sint_nonneg: "0 \<le> sint (x :: u32) \<Longrightarrow> uint x = sint x"
  using sint_less [of x] by (simp add: uint_sint [of x] take_bit_int_eq_self_iff)

lemma later_still_due:
  assumes "0 \<le> sint (a :: u32)" and "sint a < 2 ^ 30" and "0 < sint (k :: u32)" and "sint k < 2 ^ 30" and "b = 0 \<or> b = 1"
  shows "0 \<le> sint (a + k - b)"
proof -
  have ak: "uint a < 2 ^ 30" "0 < uint k" "uint k < 2 ^ 30"
    using sint_nonneg [of a] sint_nonneg [of k] assms by simp_all
  then have sum: "uint (a + k) = uint a + uint k"
    by (simp add: uint_word_ariths)
  have "(uint a + uint k - 1) mod 4294967296 = uint a + uint k - 1"
    using ak [simplified] uint_ge_0 [of a] by (intro mod_pos_pos_trivial) linarith+
  then have "uint (a + k - b) = uint a + uint k - uint b"
    using ak assms(5) by (auto simp: uint_word_ariths sum)
  then have "uint (a + k - b) < 2 ^ 31" using ak assms(5) by auto
  from sint_small [OF this] show ?thesis by simp
qed

lemma parked_without_jitter:
  assumes "na_imp_on g" and "im_jitter_ms (na_imp g) = 0" and "impaired_send now dest buf g = (g', [])"
    and "na_dq_n g' = na_dq_n g + 1"
  shows "\<exists>x r. g' = park now (uint (im_delay_ms (na_imp g))) r dest buf (g\<lparr>na_imp_rng := x\<rparr>) \<and> na_dq_n g < 512"
proof -
  obtain x where x: "na_rand g = (x, g\<lparr>na_imp_rng := x\<rparr>)" using na_rand_frame by blast
  have j: "jittered (g\<lparr>na_imp_rng := x\<rparr>) = (uint (im_delay_ms (na_imp g)), g\<lparr>na_imp_rng := x\<rparr>)"
    using assms(2) by (simp add: jittered_def)
  obtain z where z: "na_rand (g\<lparr>na_imp_rng := x\<rparr>) = (z, g\<lparr>na_imp_rng := z\<rparr>)"
    using na_rand_frame [of "g\<lparr>na_imp_rng := x\<rparr>"] by auto
  show ?thesis
    using assms(1,3,4) by (auto simp: impaired_send_def x j z na_sizes Let_def not_le split: if_splits)
qed

lemma park_last:
  assumes "length (na_dq g) = 512" and "na_dq_n g < 512"
  shows "na_dq (park now d r dest buf g) ! na_dq_n g = \<lparr>dp_due_ms = now + of_int d, dp_to = dest, dp_buf = buf\<rparr>"
    and "na_dq_n (park now d r dest buf g) = na_dq_n g + 1"
  using assms by (cases "na_dq_n g"; simp add: park_def Let_def)+

lemma park_after:
  assumes "length (na_dq g) = 512" and "na_dq_n g < 512" and "na_dq_n g = Suc m"
  shows "delayed (park now d r dest buf g) = butlast (delayed g)
    @ [(na_dq g ! m)\<lparr>dp_due_ms := dp_due_ms (na_dq g ! m) + (if r then 1 else 0)\<rparr>,
       \<lparr>dp_due_ms = now + of_int d, dp_to = dest, dp_buf = buf\<rparr>]"
  using assms by (simp add: park_def delayed_def Let_def take_Suc_conv_app_nth take_update_cancel)

text \<open>The reorder percentage hardly reorders: with a fixed delay (no jitter), when two packets are parked
  one after the other at different milliseconds, no flush ever sends the second before the first,
  reorder bit or not: it sends neither, only the first, or the first and then the second.\<close>

theorem reorder_never_swaps:
  assumes "traffic asks sent g" and "na_imp_on g" and "im_jitter_ms (na_imp g) = 0"
    and "impaired_send t1 e1 b1 g = (g1, [])" and "na_dq_n g1 = na_dq_n g + 1"
    and "impaired_send t2 e2 b2 g1 = (g2, [])" and "na_dq_n g2 = na_dq_n g1 + 1"
    and "0 < sint (t2 - t1)" and "sint (t2 - t1) < 2 ^ 30"
    and "sint (now - (t2 + ucast (im_delay_ms (na_imp g)))) < 2 ^ 30"
  shows "\<exists>k. snd (flush_due now g2) =
    map packet_in (filter (due now) (butlast (delayed g1))) @ take k [(e1, b1), (e2, b2)]"
proof -
  let ?n = "na_dq_n g" and ?d = "ucast (im_delay_ms (na_imp g)) :: u32"
  have dly: "word_of_int (uint (im_delay_ms (na_imp g))) = ?d" by simp
  have ok: "adapter_ok g" using traffic_ok [OF assms(1)] by simp
  obtain x r where g1: "g1 = park t1 (uint (im_delay_ms (na_imp g))) r e1 b1 (g\<lparr>na_imp_rng := x\<rparr>)" "?n < 512"
    using parked_without_jitter [OF assms(2-5)] by blast
  have imp: "na_imp_on g1" "na_imp g1 = na_imp g" using assms(2) by (simp_all add: g1 park_def Let_def)
  obtain y q where g2: "g2 = park t2 (uint (im_delay_ms (na_imp g))) q e2 b2 (g1\<lparr>na_imp_rng := y\<rparr>)" "na_dq_n g1 < 512"
    using parked_without_jitter [OF imp(1) _ assms(6,7)] assms(3) imp(2) by auto
  have ok1: "adapter_ok g1" and ok2: "adapter_ok g2"
    using impaired_send_ok(1) [OF ok assms(4)] impaired_send_ok(1) [OF _ assms(6)] by blast+
  have len: "length (na_dq g) = 512" "length (na_dq g1) = 512" using ok ok1 by (simp_all add: adapter_ok_def)
  let ?p = "\<lparr>dp_due_ms = t1 + ?d + (if q then 1 else 0), dp_to = e1, dp_buf = b1\<rparr>"
  let ?q = "\<lparr>dp_due_ms = t2 + ?d, dp_to = e2, dp_buf = b2\<rparr>"
  have last1: "na_dq g1 ! ?n = \<lparr>dp_due_ms = t1 + ?d, dp_to = e1, dp_buf = b1\<rparr>" "na_dq_n g1 = Suc ?n"
    using park_last [of "g\<lparr>na_imp_rng := x\<rparr>" t1 "uint (im_delay_ms (na_imp g))" r e1 b1] len g1(2) by (simp_all add: g1(1) dly)
  have q2: "delayed g2 = butlast (delayed g1) @ [?p, ?q]"
    using park_after [of "g1\<lparr>na_imp_rng := y\<rparr>" ?n t2 "uint (im_delay_ms (na_imp g))" q e2 b2] len g2(2) last1
    by (simp add: g2(1) dly) (simp add: delayed_def)
  have "due now ?q \<Longrightarrow> due now ?p"
  proof -
    assume q_due: "due now ?q"
    have "now - dp_due_ms ?p = now - (t2 + ?d) + (t2 - t1) - (if q then 1 else 0)" by simp
    moreover have "0 \<le> sint (now - (t2 + ?d) + (t2 - t1) - (if q then 1 else 0))"
      using q_due assms(8-10) by (intro later_still_due) (simp_all add: due_def)
    ultimately show "due now ?p" by (simp only: due_def)
  qed
  moreover have "packet_in ?p = (e1, b1)" "packet_in ?q = (e2, b2)" by (simp_all add: packet_in_def)
  ultimately have "map packet_in (filter (due now) [?p, ?q])
      = take (if due now ?q then 2 else if due now ?p then 1 else 0) [(e1, b1), (e2, b2)]" by simp
  then show ?thesis using flush_due_filters(1) [OF ok2, of now] 
    unfolding q2 filter_append map_append by (intro exI) (simp only: )
qed

text \<open>Two packets at 100 ms and 116 ms, 50 ms delay, every packet with the reorder bit.\<close>

definition example_profile :: NetImpairment where
  "example_profile = \<lparr>im_seed = 1, im_delay_ms = 50, im_jitter_ms = 0, im_loss_pct = 0, im_reorder_pct = 100\<rparr>"

definition example_slow :: NetAdapter where
  "example_slow = net_adapter_impair (Some example_profile) example_adapter"

lemma example_parks:
  assumes "na_imp_on g" and "na_imp g = example_profile" and "na_dq_n g < 512" and "length (na_dq g) = 512"
  shows "\<exists>g'. impaired_send now dest buf g = (g', []) \<and> na_imp_on g' \<and> na_imp g' = example_profile
     \<and> na_dq_n g' = na_dq_n g + 1 \<and> length (na_dq g') = 512"
proof -
  have "jittered g = (50, g)" if "na_imp g = example_profile" for g
    using that by (simp add: jittered_def example_profile_def)
  then show ?thesis
    using assms
    by (simp add: impaired_send_def na_rand_def na_sizes example_profile_def Let_def) (simp add: park_def Let_def)
qed

theorem reorder_never_swaps_witness:
  "\<exists>g1 g2 k. impaired_send 100 endpoint_none [1] example_slow = (g1, []) \<and> impaired_send 116 endpoint_none [2] g1 = (g2, [])
     \<and> snd (flush_due 170 g2) = map packet_in (filter (due 170) (butlast (delayed g1)))
         @ take k [(endpoint_none, [1]), (endpoint_none, [2])]"
proof -
  have t: "traffic [] [] example_slow"
    unfolding example_slow_def by (rule traffic_impair [OF traffic_open [OF example_open]])
  have s: "na_imp_on example_slow" "na_imp example_slow = example_profile" "na_dq_n example_slow = 0" "length (na_dq example_slow) = 512"
    by (simp_all add: example_slow_def net_adapter_impair_def example_adapter_def adapter_zero_def na_sizes)
  obtain g1 where g1: "impaired_send 100 endpoint_none [1] example_slow = (g1, [])" "na_imp_on g1" "na_imp g1 = example_profile"
    "na_dq_n g1 = na_dq_n example_slow + 1" "length (na_dq g1) = 512"
    using example_parks [OF s(1,2) _ s(4)] s(3) by fastforce
  obtain g2 where g2: "impaired_send 116 endpoint_none [2] g1 = (g2, [])" "na_dq_n g2 = na_dq_n g1 + 1"
    using example_parks [OF g1(2,3) _ g1(5)] g1(4) s(3) by fastforce
  show ?thesis
    using reorder_never_swaps [OF t s(1) _ g1(1,4) g2, of 170] g1(1) g2(1) s(2) by (auto simp: example_profile_def)
qed

end
