(* ===== verification/Match_Link.thy ===== *)
theory Match_Link
  imports Client_Props Adapter_Props Rv_Props
begin

text \<open>
  The parts working together: a client that joins sits where the server seated it, what the adapter
  kept for the lobby after READY is answered to the last packet, and a relayed payload crosses the
  server unchanged.
\<close>

section \<open>Joining\<close>

definition reply_to :: "LobbyEndpoint \<Rightarrow> LobbyMsg \<Rightarrow> Packets \<Rightarrow> bool" where
  "reply_to src m out \<longleftrightarrow> (\<exists>buf rest. out = (src, buf) # rest \<and> lobby_unpack buf = Some (Some m))"

lemma reply_emit: "length (payload_of m) \<le> 1024 \<Longrightarrow> reply_to src m (emit_msg src m @ rest)"
  using pack_defined [of m] pack_read_back [of m _ "[]"] by (auto simp: reply_to_def emit_msg_def)

lemma reply_reject: "reply_to src (LOBBY_REJECT r) (emit_reject src r)"
  using reply_emit [of "LOBBY_REJECT r" src "[]"] by (simp add: emit_reject_def payload_of_def)

definition seated :: "LobbyEndpoint \<Rightarrow> u16 \<Rightarrow> u8 \<Rightarrow> u8 \<Rightarrow> RvSession \<Rightarrow> bool" where
  "seated src sid slot n s \<longleftrightarrow> se_phase s = RV_LOBBY \<and> se_id s = sid \<and> unat slot < 4
     \<and> slots s ! unat slot = Some src \<and> se_num_players s = n"

lemma unat_slot: "p < 4 \<Longrightarrow> unat (of_nat p :: u8) = p"
  by (simp add: unat_of_nat)

lemma join_reply:
  assumes "list_all session_ok (rv_sessions rv)" and "length (rv_sessions rv) = 64"
  shows "(\<exists>r. reply_to src (LOBBY_REJECT r) (snd (do_join_req now src sid ver prv rv)))
    \<or> (\<exists>slot n. reply_to src (LOBBY_JOIN_RESP slot n) (snd (do_join_req now src sid ver prv rv))
        \<and> (\<exists>i < 64. seated src sid slot n (rv_sessions (fst (do_join_req now src sid ver prv rv)) ! i)))"
proof (cases "find_session (rv_sessions rv) sid")
  case None
  then have "reply_to src (LOBBY_REJECT LOBBY_REJ_BAD_SESSION) (snd (do_join_req now src sid ver prv rv))"
    by (simp add: do_join_req_def reply_reject)
  then show ?thesis by blast
next
  case (Some i)
  let ?s = "rv_sessions rv ! i"
  note live = live_session [OF assms(1) Some] find_session_SomeD [OF Some]
  consider (late) "se_phase ?s \<noteq> RV_LOBBY" | (again) p where "se_phase ?s = RV_LOBBY" "peer_of ?s src = Some p"
    | (version) "se_phase ?s = RV_LOBBY" "peer_of ?s src = None" "ver \<noteq> se_net_version ?s"
    | (full) "se_phase ?s = RV_LOBBY" "peer_of ?s src = None" "ver = se_net_version ?s"
        "se_num_players ?s \<le> se_joined ?s \<or> find_index (\<lambda>p. \<not> pe_used p) (se_peers ?s) = None"
    | (seat) p where "se_phase ?s = RV_LOBBY" "peer_of ?s src = None" "ver = se_net_version ?s"
        "\<not> se_num_players ?s \<le> se_joined ?s" "find_index (\<lambda>p. \<not> pe_used p) (se_peers ?s) = Some p"
    by (cases "peer_of ?s src"; cases "find_index (\<lambda>p. \<not> pe_used p) (se_peers ?s)") auto
  then show ?thesis
  proof cases
    case late
    then have "reply_to src (LOBBY_REJECT LOBBY_REJ_EXPIRED) (snd (do_join_req now src sid ver prv rv))"
      by (simp add: do_join_req_def Some reply_reject)
    then show ?thesis by blast
  next
    case again
    have p: "p < 4" "slots ?s ! p = Some src" using peer_of_SomeD [OF again(2)] live(3) by simp_all
    have "reply_to src (LOBBY_JOIN_RESP (of_nat p) (se_num_players ?s)) (snd (do_join_req now src sid ver prv rv))"
      using again by (simp add: do_join_req_def Some reply_emit payload_of_def Let_def)
    moreover have "seated src sid (of_nat p) (se_num_players ?s) (rv_sessions (fst (do_join_req now src sid ver prv rv)) ! i)"
      using again p live(1,4)
      by (simp add: do_join_req_def Some Let_def at_session_table seated_def unat_slot) (simp add: seen_def)
    ultimately show ?thesis using live(1) assms(2) by metis
  next
    case version
    then have "reply_to src (LOBBY_REJECT LOBBY_REJ_VERSION_MISMATCH) (snd (do_join_req now src sid ver prv rv))"
      by (simp add: do_join_req_def Some reply_reject)
    then show ?thesis by blast
  next
    case full
    then have "reply_to src (LOBBY_REJECT LOBBY_REJ_FULL) (snd (do_join_req now src sid ver prv rv))"
      by (auto simp: do_join_req_def Some reply_reject Let_def split: option.split)
    then show ?thesis by blast
  next
    case seat
    have p: "p < 4" using find_index_SomeD [OF seat(5)] live(3) by simp
    have "reply_to src (LOBBY_JOIN_RESP (of_nat p) (se_num_players ?s)) (snd (do_join_req now src sid ver prv rv))"
      using seat by (simp add: do_join_req_def Some reply_emit payload_of_def Let_def)
    moreover have "seated src sid (of_nat p) (se_num_players ?s) (rv_sessions (fst (do_join_req now src sid ver prv rv)) ! i)"
      using seat p live(1,3,4)
      by (simp add: do_join_req_def Some Let_def at_session_table seated_def unat_slot) (simp add: add_peer_def)
    ultimately show ?thesis using live(1) assms(2) by metis
  qed
qed

text \<open>C16: The two halves of joining agree: whatever the server answers first to a client's join request
  goes back to the client, is understood by it, and either fails it with the reason or makes it wait
  for its peers in the very seat that the server's lobby of that id keeps for the client's address,
  with the server's number of players.\<close>

theorem join_seats_the_client:
  assumes "rv_reached rv" and "client_reach log lc" and "lc_stage lc = LOBBY_C_JOINING"
    and "send_join_req lc = [(lc_server lc, buf)]" and "rv_handle now src buf rv = (rv', out)" and "out \<noteq> []"
  shows "\<exists>m reply rest. out = (src, reply) # rest \<and> lobby_unpack reply = Some (Some m)
    \<and> (lc_stage (fst (handle_msg now' e m lc)) = LOBBY_C_FAILED
       \<or> lc_stage (fst (handle_msg now' e m lc)) = LOBBY_C_WAITING_PEERS
         \<and> (\<exists>i < 64. seated src (lc_session_id lc) (lc_local_slot (fst (handle_msg now' e m lc)))
              (lc_num_players (fst (handle_msg now' e m lc))) (rv_sessions rv' ! i)))"
proof -
  let ?m = "LOBBY_JOIN_REQ (lc_session_id lc) (lc_net_ver lc) (lc_private_ep lc)"
  let ?t = "fst (rate_take rv now (ep_ip src))"
  let ?r = "do_join_req now src (lc_session_id lc) (lc_net_ver lc) (lc_private_ep lc) ?t"
  have "lobby_pack ?m = Some buf"
    using assms(4) by (auto simp: send_join_req_def send_msg_def split: option.splits)
  then have read: "lobby_unpack buf = Some (Some ?m)" using pack_read_back [of _ buf "[]"] by simp
  have table: "list_all session_ok (rv_sessions ?t)" "length (rv_sessions ?t) = 64"
    using rv_reached_ok [OF assms(1)] by (simp_all add: rv_ok_def table_ok_def)
  have r: "(rv', out) = ?r"
    using assms(5,6) by (auto simp: rv_handle_def read is_relay_def rv_dispatch_def case_prod_unfold Let_def split: if_splits)
  have reached: "rv_ok rv'" using rv_handle_ok [OF rv_reached_ok [OF assms(1)], of now src buf] assms(5) by simp
  from join_reply [OF table, of src now "lc_session_id lc" "lc_net_ver lc" "lc_private_ep lc"] show ?thesis
    unfolding r [symmetric] fst_conv snd_conv
  proof (elim disjE exE conjE)
    fix r
    assume "reply_to src (LOBBY_REJECT r) out"
    moreover have "lc_stage (fst (handle_msg now' e (LOBBY_REJECT r) lc)) = LOBBY_C_FAILED"
      using assms(3) by (simp add: handle_msg_def on_reject_def)
    ultimately show ?thesis unfolding reply_to_def by metis
  next
    fix slot n i
    assume reply: "reply_to src (LOBBY_JOIN_RESP slot n) out" and i: "i < 64"
      and seat: "seated src (lc_session_id lc) slot n (rv_sessions rv' ! i)"
    have "session_ok (rv_sessions rv' ! i)"
      using reached i by (auto simp: rv_ok_def table_ok_def dest: list_all_nthD)
    then have "2 \<le> unat n" "unat n \<le> 4"
      using session_okD(3) [of "rv_sessions rv' ! i"] seat by (simp_all add: seated_def members_ok_def)
    then have "lc_stage (fst (handle_msg now' e (LOBBY_JOIN_RESP slot n) lc)) = LOBBY_C_WAITING_PEERS
        \<and> lc_local_slot (fst (handle_msg now' e (LOBBY_JOIN_RESP slot n) lc)) = slot
        \<and> lc_num_players (fst (handle_msg now' e (LOBBY_JOIN_RESP slot n) lc)) = n"
      using assms(3) seat by (simp add: handle_msg_def on_join_resp_def seated_def ARENA_MAX_PLAYERS_def)
    then show ?thesis using reply i seat unfolding reply_to_def by metis
  qed
qed

lemma play_credit:
  "credit (n + length es) rv \<Longrightarrow> list_all (\<lambda>(now, src, m). \<not> is_relay m \<and> length (payload_of m) \<le> 1024) es \<Longrightarrow>
     credit n (play rv es)"
proof (induction rv es rule: play.induct)
  case (2 rv now src m es)
  have "credit (Suc (n + length es)) rv" "\<not> is_relay m" "length (payload_of m) \<le> 1024" using "2.prems" by simp_all
  from handle_unthrottled(1) [OF this] show ?case using "2.IH" "2.prems"(2) by simp
qed simp

lemma example_credit: "credit 36 (example_server 4)"
proof -
  have "credit (36 + length (take 4 example_events)) (rv_init 0 1)" using init_credit by (simp add: example_events_def)
  then show ?thesis unfolding example_server_def by (rule play_credit) (simp add: example_events_def is_relay_def payload_of_def)
qed

text \<open>The guest of the example lobby asks again, which the server answers with the seat it has.\<close>

definition example_guest :: LobbyClient where
  "example_guest = (client_init 5001 100)\<lparr>lc_server := server_ep, lc_session_id := 8225, lc_net_ver := arena_net_version,
     lc_private_ep := guest_ep, lc_stage := LOBBY_C_JOINING, lc_last_send := 100\<rparr>"

lemma example_guest_reach: "client_reach [] example_guest"
proof -
  have "lobby_code_decode (lobby_code_encode server_ep 8225) = Some (server_ep, 8225)"
    by (simp add: decode_iff symbol_values_encode)
  then show ?thesis
    by (intro reach_join [of 5001 guest_ep "lobby_code_encode server_ep 8225" 100 _ "send_join_req example_guest"])
      (simp add: lobby_join_begin_def example_guest_def Let_def)
qed

theorem join_seats_the_client_witness:
  "\<exists>buf out m reply. send_join_req example_guest = [(server_ep, buf)] \<and> out = snd (rv_handle 450 guest_ep buf (example_server 4))
    \<and> hd out = (guest_ep, reply) \<and> lobby_unpack reply = Some (Some m)
    \<and> lc_stage (fst (handle_msg 460 server_ep m example_guest)) \<in> {LOBBY_C_FAILED, LOBBY_C_WAITING_PEERS}"
proof -
  let ?m = "LOBBY_JOIN_REQ 8225 arena_net_version guest_ep"
  have g: "lc_server example_guest = server_ep" "lc_session_id example_guest = 8225" "lc_stage example_guest = LOBBY_C_JOINING"
    "send_join_req example_guest = send_msg server_ep ?m"
    by (simp_all add: example_guest_def send_join_req_def)
  obtain buf where buf: "lobby_pack ?m = Some buf" using pack_defined [of ?m] by (auto simp: payload_of_def)
  have sent: "send_join_req example_guest = [(server_ep, buf)]" "buf = packet_of ?m"
    using g(4) buf by (simp_all add: send_msg_def packet_of_def)
  let ?t = "fst (rate_take (example_server 4) 450 (ep_ip guest_ep))"
  have "credit (Suc 35) (example_server 4)" using example_credit by simp
  from handle_unthrottled(2) [OF this, of ?m 450 guest_ep]
  have handled: "rv_handle 450 guest_ep buf (example_server 4) = do_join_req 450 guest_ep 8225 arena_net_version guest_ep ?t"
    by (simp add: sent(2) is_relay_def payload_of_def rv_dispatch_def)
  have "list_all session_ok (rv_sessions ?t)" "length (rv_sessions ?t) = 64"
    using rv_reached_ok [OF example_reached] by (simp_all add: rv_ok_def table_ok_def)
  from join_reply [OF this, of guest_ep 450 8225 arena_net_version guest_ep]
  have "snd (rv_handle 450 guest_ep buf (example_server 4)) \<noteq> []" by (auto simp: handled reply_to_def)
  moreover obtain rv' out where h: "rv_handle 450 guest_ep buf (example_server 4) = (rv', out)" by fastforce
  ultimately have "out \<noteq> []" by simp
  from join_seats_the_client [OF example_reached example_guest_reach g(3) sent(1) [folded g(1)] h this, of 460 server_ep]
  show ?thesis using sent(1) h by fastforce
qed

section \<open>After READY\<close>

lemma take_packets:
  assumes "ring_fits g" and "ring g = ds"
  shows "\<exists>g'. take_lobby_packets lc g = (g', concat (map (\<lambda>d. post_packet d lc) ds)) \<and> ring g' = [] \<and> ring_fits g'"
  using assms
proof (induction ds arbitrary: g)
  case Nil
  then have "net_adapter_take_lobby_packet LOBBY_MAX_PACKET g = None"
    using lobby_ring.pop_none by (simp add: lobby_sizes)
  then show ?case using Nil by (subst take_lobby_packets.simps) simp
next
  case (Cons d ds)
  obtain g1 where g1: "net_adapter_take_lobby_packet LOBBY_MAX_PACKET g = Some (d, g1)" "ring_fits g1" "ring g1 = ds"
    using lobby_ring.pop_oldest [OF Cons.prems] by (auto simp: lobby_sizes)
  have "snd d \<noteq> []" using Cons.prems by (simp add: ring_fits_def fits_def)
  moreover obtain g' where "take_lobby_packets lc g1 = (g', concat (map (\<lambda>d. post_packet d lc) ds))" "ring g' = []" "ring_fits g'"
    using Cons.IH [OF g1(2,3)] by blast
  ultimately show ?case by (subst take_lobby_packets.simps) (simp add: g1)
qed

text \<open>After READY one call of \<open>lobby_post_poll\<close> answers every packet the adapter kept for the lobby, the
  oldest first, and leaves the ring empty; the loop ends because every packet taken is one fewer.\<close>

theorem post_poll_empties_the_ring:
  assumes "traffic asks sent g" and "lc_stage lc = LOBBY_C_READY"
  shows "\<exists>g'. lobby_post_poll lc g = (g', concat (map (\<lambda>d. post_packet d lc) (ring g))) \<and> ring g' = []"
  using take_packets [OF _ refl, of g lc] traffic_ok [OF assms(1)] assms(2) by (auto simp: lobby_post_poll_def)

theorem post_poll_empties_the_ring_witness:
  "\<exists>g'. lobby_post_poll example_client example_adapter = (g', []) \<and> ring g' = []"
proof -
  have "ring example_adapter = []" by (simp add: example_adapter_def adapter_zero_def ring_def)
  then show ?thesis
    using post_poll_empties_the_ring [OF traffic_open [OF example_open] example_ready(1)] by simp
qed

section \<open>Through the relay\<close>

text \<open>C9: A payload sent over a relayed route crosses the whole system: the sender's adapter hands one
  datagram to the server, the server passes exactly that datagram on to the address that holds the
  target seat, and the adapter there gives its library the payload with the sender's slot, provided
  the server's session of that id seats the sender where it says it sits.\<close>

theorem relayed_payloads_arrive:
  assumes "traffic asks sent g" and "unat slot < 4" and "nr_kind (na_route g ! unat slot) = NET_ROUTE_RELAY"
    and "length payload \<le> 1024" and "\<not> na_imp_on g"
    and "rv_reached rv" and "i < 64" and "may_relay src (na_session_id g) (na_local_slot g) slot dest (rv_sessions rv ! i)"
    and "traffic asks' sent' h" and "na_session_id h = na_session_id g" and "na_local_slot h = slot"
  shows "\<exists>buf. snd (na_send t1 (Some [slot]) payload (int (length payload)) g) = [(na_relay g, buf)]
    \<and> snd (rv_handle t2 src buf rv) = [(dest, buf)]
    \<and> snd (snd (na_recv t3 [((relay, buf), True)] h)) = [([na_local_slot g], payload)]"
proof -
  have active: "na_active g" using traffic_ok [OF assms(1)] by (simp add: ring_fits_def)
  obtain m d buf where w: "wrapped slot payload g = Some (m, d)" "lobby_pack m = Some buf" "d = na_relay g"
    "lobby_unpack buf = Some (Some m)" "m = LOBBY_RELAY (na_session_id g) (na_local_slot g) slot payload"
    "for_game (na_session_id g) slot ((relay, buf), True) = [([na_local_slot g], payload)]"
    using wrapped_routes [of g slot payload relay] assms(3,4) by auto
  have "snd (na_send t1 (Some [slot]) payload (int (length payload)) g) = [(na_relay g, buf)]"
    using na_send_plain [OF active assms(2,4,5) w(1,2)] by (simp add: w(3))
  moreover have "snd (rv_handle t2 src buf rv) = [(dest, buf)]"
    using relay_forwards [OF assms(6) w(4) [unfolded w(5)] assms(7,8)] .
  moreover have "snd (snd (na_recv t3 [((relay, buf), True)] h)) = [([na_local_slot g], payload)]"
    using recv_one [OF assms(9), of t3 relay buf] w(6) assms(10,11) by simp
  ultimately show ?thesis by blast
qed

definition example_relayed :: NetAdapter where
  "example_relayed = net_adapter_set_relay server_ep (net_adapter_set_route 1 \<lparr>nr_kind = NET_ROUTE_RELAY, nr_ep = endpoint_none\<rparr>
     (adapter_zero\<lparr>na_active := True, na_session_id := 8225\<rparr>))"

lemma example_relayed_traffic: "traffic [] [] example_relayed"
proof -
  have "net_adapter_init 8225 0 adapter_zero = Some (adapter_zero\<lparr>na_active := True, na_session_id := 8225\<rparr>)"
    by (simp add: net_adapter_init_def adapter_zero_def ARENA_MAX_PLAYERS_def)
  then show ?thesis unfolding example_relayed_def by (intro traffic_relay traffic_route traffic_open)
qed

lemma example_relayed_fields:
  "na_session_id example_relayed = 8225" "na_local_slot example_relayed = 0" "\<not> na_imp_on example_relayed"
  "nr_kind (na_route example_relayed ! Suc 0) = NET_ROUTE_RELAY" "na_relay example_relayed = server_ep"
  by (simp_all add: example_relayed_def net_adapter_set_relay_def net_adapter_set_route_def adapter_zero_def ARENA_MAX_PLAYERS_def)

theorem relayed_payloads_arrive_witness:
  "\<exists>buf. snd (na_send 10 (Some [1]) [1, 2, 3] 3 example_relayed) = [(server_ep, buf)]
    \<and> snd (rv_handle 450 host_ep buf (example_server 4)) = [(guest_ep, buf)]
    \<and> snd (snd (na_recv 12 [((server_ep, buf), True)] example_adapter)) = [([0], [1, 2, 3])]"
proof -
  have "may_relay host_ep (na_session_id example_relayed) (na_local_slot example_relayed) 1 guest_ep (rv_sessions (example_server 4) ! 0)"
    by (simp add: may_relay_def example_4 example_relayed_fields)
  moreover have "na_session_id example_adapter = na_session_id example_relayed" "na_local_slot example_adapter = 1"
    by (simp_all add: example_adapter_def example_relayed_fields)
  ultimately show ?thesis
    using relayed_payloads_arrive [OF example_relayed_traffic, of 1 "[1, 2, 3]" "example_server 4" 0 host_ep guest_ep
        "[]" "[]" example_adapter 10 450 12 server_ep]
    by (simp add: example_relayed_fields example_reached traffic_open [OF example_open])
qed

end
