(* ===== verification/Sync_Session.thy ===== *)
theory Sync_Session
  imports Net_Version
begin

text \<open>
  The rollback session around the simulation (\<open>src/src/netplay/sync_session.c\<close>, \<open>sync_session.h\<close> and
  the constants of \<open>desync_bundle.h\<close>).  GekkoNet, the rollback library, is not part of the
  repository: what it answers (handles of actors, session events, game events) is an argument of
  the definitions, and what it is asked is the list of calls returned.  Allocation and file
  operations may fail; whether they do is an argument too.
\<close>

section \<open>What is exchanged with the library\<close>

datatype GekkoCall =
    GekkoCreate bool
  | GekkoStart nat nat nat nat bool bool nat nat
  | GekkoSetAdapter
  | GekkoSetDefaultAdapter u16
  | GekkoAddLocal
  | GekkoSetLocalDelay int u8
  | GekkoAddRemote "u8 list"
  | GekkoPoll
  | GekkoAddInput int ArenaInput
  | GekkoDestroy
  | GekkoDestroyDefaultAdapter

datatype GekkoSessionEvent =
    GekkoSessionStarted
  | GekkoPlayerDisconnected
  | GekkoDesyncDetected (ds_frame: int) (ds_local: u32) (ds_remote: u32) (ds_handle: int)
  | GekkoOtherSessionEvent

datatype GekkoGameEvent =
    GekkoSave
  | GekkoLoad ArenaState
  | GekkoAdvance bool "ArenaInput list"
  | GekkoOtherGameEvent

section \<open>State\<close>

definition BUNDLE_MAGIC :: u32 where "BUNDLE_MAGIC = 0x41334442"
definition BUNDLE_VERSION :: u32 where "BUNDLE_VERSION = 1"
definition BUNDLE_MAX_TICKS :: nat where "BUNDLE_MAX_TICKS = 36000"
definition BUNDLE_RING :: nat where "BUNDLE_RING = 256"

datatype SyncMode = SYNC_COUCH | SYNC_ONLINE | SYNC_STRESS

record SyncConfig =
  cf_mode :: SyncMode
  cf_num_players :: u8
  cf_local_mask :: u8
  cf_local_port :: u16
  cf_peer_addr :: "u8 list list"
  cf_seed :: u32
  cf_arena_id :: u8
  cf_input_delay :: u8
  cf_adapter :: bool

record SyncStats =
  sx_rollback_ticks :: u32
  sx_max_rollback_depth :: u32
  sx_stall_frames :: u32
  sx_pumps :: u32
  sx_rbhist :: "u32 list"

record SyncDesyncInfo =
  di_tick :: u32
  di_local_hash :: u32
  di_remote_hash :: u32
  di_remote_slot :: int

text \<open>\<open>rec\<close> is an array of rows of four inputs, a row per tick; \<open>ring\<close> holds pairs of a tick and a hash.\<close>

record SyncSession =
  ss_mode :: SyncMode
  ss_num_players :: u8
  ss_local_mask :: u8
  ss_online_adapter :: bool
  ss_state :: ArenaState
  ss_connected :: bool
  ss_desynced :: bool
  ss_handle :: "int list"
  ss_slot_addr :: "u8 list"
  ss_ring :: "(u32 \<times> u32) list"
  ss_stats :: SyncStats
  ss_started :: bool
  ss_seed :: u32
  ss_local_slot :: u8
  ss_rec :: "ArenaInput list list"
  ss_rec_count :: u32
  ss_dinfo :: SyncDesyncInfo
  ss_have_dinfo :: bool
  ss_corrupt_pending :: bool

section \<open>Creation and destruction\<close>

definition is_local :: "u8 \<Rightarrow> nat \<Rightarrow> bool" where
  "is_local m i \<longleftrightarrow> m AND push_bit i 1 \<noteq> 0"

definition first_local :: "u8 \<Rightarrow> u8" where
  "first_local m = (case find_index (is_local m) [0..<ARENA_MAX_PLAYERS] of None \<Rightarrow> 0 | Some i \<Rightarrow> of_nat i)"

definition sync_blank :: "SyncConfig \<Rightarrow> SyncSession" where
  "sync_blank cfg =
     \<lparr>ss_mode = cf_mode cfg, ss_num_players = cf_num_players cfg, ss_local_mask = cf_local_mask cfg,
      ss_online_adapter = False,
      ss_state = arena_init (cf_arena_id cfg) (cf_num_players cfg) (cf_seed cfg),
      ss_connected = False, ss_desynced = False,
      ss_handle = replicate ARENA_MAX_PLAYERS 0, ss_slot_addr = replicate ARENA_MAX_PLAYERS 0,
      ss_ring = replicate BUNDLE_RING (0, 0),
      ss_stats = \<lparr>sx_rollback_ticks = 0, sx_max_rollback_depth = 0, sx_stall_frames = 0, sx_pumps = 0,
                   sx_rbhist = replicate 9 0\<rparr>,
      ss_started = False, ss_seed = cf_seed cfg, ss_local_slot = first_local (cf_local_mask cfg),
      ss_rec = replicate BUNDLE_MAX_TICKS (replicate ARENA_MAX_PLAYERS 0), ss_rec_count = 0,
      ss_dinfo = \<lparr>di_tick = 0, di_local_hash = 0, di_remote_hash = 0, di_remote_slot = 0\<rparr>,
      ss_have_dinfo = False, ss_corrupt_pending = False\<rparr>"

text \<open>\<open>handle_of\<close> is what \<open>gekko_add_actor\<close> returns for the slot; the peer addresses are the strings of
  the configuration.\<close>

definition add_actor :: "(nat \<Rightarrow> int) \<Rightarrow> SyncConfig \<Rightarrow> nat \<Rightarrow> SyncSession \<times> GekkoCall list \<Rightarrow> SyncSession \<times> GekkoCall list" where
  "add_actor handle_of cfg i = (\<lambda>(s, calls).
     let s' = s\<lparr>ss_handle := (ss_handle s)[i := handle_of i]\<rparr> in
     if is_local (cf_local_mask cfg) i
     then (s', calls @ [GekkoAddLocal, GekkoSetLocalDelay (handle_of i) (cf_input_delay cfg)])
     else if cf_adapter cfg
     then (s'\<lparr>ss_slot_addr := (ss_slot_addr s')[i := of_nat i]\<rparr>, calls @ [GekkoAddRemote [of_nat i]])
     else (s', calls @ [GekkoAddRemote (cf_peer_addr cfg ! i)]))"

definition adapter_calls :: "SyncConfig \<Rightarrow> GekkoCall list" where
  "adapter_calls cfg =
     (if cf_mode cfg \<noteq> SYNC_ONLINE then []
      else if cf_adapter cfg then [GekkoSetAdapter] else [GekkoSetDefaultAdapter (cf_local_port cfg)])"

definition start_calls :: "SyncConfig \<Rightarrow> GekkoCall list" where
  "start_calls cfg =
     [GekkoCreate (cf_mode cfg = SYNC_STRESS),
      GekkoStart (unat (cf_num_players cfg)) 0 2 944 False True 8 (if cf_mode cfg = SYNC_STRESS then 8 else 0)]"

definition sync_create ::
  "bool \<Rightarrow> bool \<Rightarrow> (nat \<Rightarrow> int) \<Rightarrow> SyncConfig option \<Rightarrow> (SyncSession \<times> GekkoCall list) option" where
  "sync_create memory created handle_of config = (case config of None \<Rightarrow> None | Some cfg \<Rightarrow>
     if unat (cf_num_players cfg) < 2 \<or> ARENA_MAX_PLAYERS < unat (cf_num_players cfg) then None
     else if \<not> memory then None
     else if \<not> created then None
     else (let s = sync_blank cfg;
               s = s\<lparr>ss_online_adapter := (cf_mode cfg = SYNC_ONLINE \<and> \<not> cf_adapter cfg)\<rparr>;
               (s, calls) = fold (add_actor handle_of cfg) [0..<unat (cf_num_players cfg)]
                              (s, start_calls cfg @ adapter_calls cfg)
           in Some (s\<lparr>ss_connected := (cf_mode cfg \<noteq> SYNC_ONLINE)\<rparr>, calls)))"

definition sync_destroy :: "SyncSession option \<Rightarrow> GekkoCall list" where
  "sync_destroy session = (case session of None \<Rightarrow> []
     | Some s \<Rightarrow> GekkoDestroy # (if ss_online_adapter s then [GekkoDestroyDefaultAdapter] else []))"

section \<open>Reading\<close>

definition sync_state_debug_mut :: "SyncSession \<Rightarrow> ArenaState option" where
  "sync_state_debug_mut s = (if ss_mode s = SYNC_COUCH then Some (ss_state s) else None)"

definition sync_present_tick :: "SyncSession \<Rightarrow> u32" where
  "sync_present_tick s = st_tick (ss_state s)"

definition sync_present_hash :: "SyncSession \<Rightarrow> u32" where
  "sync_present_hash s = arena_hash (ss_state s)"

definition ring_slot :: "u32 \<Rightarrow> nat" where
  "ring_slot tick = unat (tick AND 255)"

definition sync_hash_at :: "SyncSession \<Rightarrow> u32 \<Rightarrow> u32" where
  "sync_hash_at s tick =
     (let th = ss_ring s ! ring_slot tick in if fst th = tick then snd th else 0)"

definition sync_stats :: "SyncSession option \<Rightarrow> SyncStats option" where
  "sync_stats session = map_option ss_stats session"

definition sync_desync_info :: "SyncSession \<Rightarrow> SyncDesyncInfo option" where
  "sync_desync_info s = (if ss_have_dinfo s then Some (ss_dinfo s) else None)"

definition sync_debug_corrupt :: "SyncSession \<Rightarrow> SyncSession" where
  "sync_debug_corrupt s = s\<lparr>ss_corrupt_pending := True\<rparr>"

section \<open>The bundle\<close>

definition bundle_header :: "SyncSession \<Rightarrow> u8 list" where
  "bundle_header s =
     le32 BUNDLE_MAGIC @ le32 BUNDLE_VERSION @ le32 arena_net_version @ le32 (ss_seed s)
     @ [st_arena_id (ss_state s), ss_num_players s, ss_local_slot s, 0]
     @ le32 (if ss_have_dinfo s then di_tick (ss_dinfo s) else 0)
     @ le32 (if ss_have_dinfo s then di_local_hash (ss_dinfo s) else 0)
     @ le32 (if ss_have_dinfo s then di_remote_hash (ss_dinfo s) else 0)
     @ le32 (word_of_int (if ss_have_dinfo s then di_remote_slot (ss_dinfo s) else - 1))"

definition ring_bytes :: "(u32 \<times> u32) list \<Rightarrow> u8 list" where
  "ring_bytes ring = concat (map (\<lambda>(t, h). le32 t @ le32 h) ring)"

definition input_bytes :: "ArenaInput list list \<Rightarrow> u8 list" where
  "input_bytes rows = concat (map (\<lambda>row. concat (map le16 row)) rows)"

definition bundle_bytes :: "SyncSession \<Rightarrow> u8 list" where
  "bundle_bytes s =
     bundle_header s @ ring_bytes (ss_ring s) @ arena_bytes (ss_state s)
     @ le32 (ss_rec_count s) @ input_bytes (take (unat (ss_rec_count s)) (ss_rec s))"

text \<open>The result code, and the file written when it could be opened.\<close>

definition sync_dump_bundle :: "bool \<Rightarrow> bool \<Rightarrow> bool \<Rightarrow> SyncSession option \<Rightarrow> string option \<Rightarrow> int \<times> u8 list option" where
  "sync_dump_bundle opened written closed session path =
     (case (session, path) of
        (Some s, Some _) \<Rightarrow>
          if \<not> opened then (- 1, None)
          else (if written \<and> closed then 0 else - 1, Some (bundle_bytes s))
      | _ \<Rightarrow> (- 1, None))"

section \<open>One frame\<close>

definition feed_inputs :: "ArenaInput list \<Rightarrow> SyncSession \<Rightarrow> GekkoCall list" where
  "feed_inputs inputs s =
     concat (map (\<lambda>i. if is_local (ss_local_mask s) i then [GekkoAddInput (ss_handle s ! i) (inputs ! i)] else [])
       [0..<unat (ss_num_players s)])"

definition slot_of_handle :: "int \<Rightarrow> SyncSession \<Rightarrow> int" where
  "slot_of_handle h s =
     (case find_index (\<lambda>x. x = h) (take (unat (ss_num_players s)) (ss_handle s)) of None \<Rightarrow> - 1 | Some k \<Rightarrow> int k)"

definition session_event :: "GekkoSessionEvent \<Rightarrow> SyncSession \<Rightarrow> SyncSession" where
  "session_event e s = (case e of
       GekkoSessionStarted \<Rightarrow> s\<lparr>ss_connected := True, ss_started := True\<rparr>
     | GekkoPlayerDisconnected \<Rightarrow> s\<lparr>ss_connected := False\<rparr>
     | GekkoDesyncDetected frame lh rh h \<Rightarrow>
         (if ss_have_dinfo s then s
          else s\<lparr>ss_dinfo := \<lparr>di_tick = word_of_int frame, di_local_hash = lh, di_remote_hash = rh,
                                di_remote_slot = slot_of_handle h s\<rparr>,
                 ss_have_dinfo := True\<rparr>)\<lparr>ss_desynced := True\<rparr>
     | GekkoOtherSessionEvent \<Rightarrow> s)"

text \<open>The inputs of a tick: the library's, one per player, the rest zero.\<close>

definition tick_inputs :: "ArenaInput list \<Rightarrow> SyncSession \<Rightarrow> ArenaInput list" where
  "tick_inputs ins s =
     (let n = unat (ss_num_players s) in take n ins @ drop n (replicate ARENA_MAX_PLAYERS 0))"

definition record_inputs :: "ArenaInput list \<Rightarrow> SyncSession \<Rightarrow> SyncSession" where
  "record_inputs ins s =
     (let t = st_tick (ss_state s) in
      if unat t < BUNDLE_MAX_TICKS
      then s\<lparr>ss_rec := (ss_rec s)[unat t := ins],
             ss_rec_count := (if ss_rec_count s < t + 1 then t + 1 else ss_rec_count s)\<rparr>
      else s)"

definition corrupt_once :: "bool \<Rightarrow> SyncSession \<Rightarrow> SyncSession" where
  "corrupt_once rolling s =
     (if ss_corrupt_pending s \<and> \<not> rolling
      then s\<lparr>ss_state := (ss_state s)\<lparr>st_rng := st_rng (ss_state s) XOR 1\<rparr>, ss_corrupt_pending := False\<rparr>
      else s)"

definition record_hash :: "SyncSession \<Rightarrow> SyncSession" where
  "record_hash s =
     (let t = st_tick (ss_state s) in s\<lparr>ss_ring := (ss_ring s)[ring_slot t := (t, arena_hash (ss_state s))]\<rparr>)"

definition advance :: "bool \<Rightarrow> ArenaInput list \<Rightarrow> SyncSession \<Rightarrow> SyncSession" where
  "advance rolling inputs s =
     (let ins = tick_inputs inputs s; s = record_inputs ins s;
          s = s\<lparr>ss_state := arena_tick ins (ss_state s)\<rparr>
      in record_hash (corrupt_once rolling s))"

text \<open>A save hands the library a copy of the state with its checksum: the second component.\<close>

definition game_event :: "GekkoGameEvent \<Rightarrow> SyncSession \<Rightarrow> SyncSession \<times> (ArenaState \<times> u32) list" where
  "game_event e s = (case e of
       GekkoSave \<Rightarrow> (s, [(ss_state s, arena_hash (ss_state s))])
     | GekkoLoad st \<Rightarrow> (s\<lparr>ss_state := st\<rparr>, [])
     | GekkoAdvance rolling inputs \<Rightarrow> (advance rolling inputs s, [])
     | GekkoOtherGameEvent \<Rightarrow> (s, []))"

fun game_events :: "GekkoGameEvent list \<Rightarrow> SyncSession \<Rightarrow> SyncSession \<times> (ArenaState \<times> u32) list" where
  "game_events [] s = (s, [])"
| "game_events (e # es) s =
     (let (s, saved) = game_event e s; (s, later) = game_events es s in (s, saved @ later))"

definition is_advance :: "bool \<Rightarrow> GekkoGameEvent \<Rightarrow> bool" where
  "is_advance rolling e = (case e of GekkoAdvance r _ \<Rightarrow> r = rolling | _ \<Rightarrow> False)"

definition count_pump :: "nat \<Rightarrow> nat \<Rightarrow> SyncSession \<Rightarrow> SyncSession" where
  "count_pump fresh rb s =
     (if ss_mode s = SYNC_ONLINE \<and> ss_started s
      then (let x = ss_stats s; k = (if 8 < rb then 8 else rb) in
            s\<lparr>ss_stats :=
              \<lparr>sx_rollback_ticks = sx_rollback_ticks x + of_nat rb,
               sx_max_rollback_depth = (if sx_max_rollback_depth x < of_nat rb then of_nat rb else sx_max_rollback_depth x),
               sx_stall_frames = sx_stall_frames x + (if fresh = 0 \<and> ss_connected s then 1 else 0),
               sx_pumps = sx_pumps x + 1,
               sx_rbhist = (sx_rbhist x)[k := sx_rbhist x ! k + 1]\<rparr>\<rparr>)
      else s)"

definition sync_frame ::
  "GekkoSessionEvent list \<Rightarrow> GekkoGameEvent list \<Rightarrow> ArenaInput list \<Rightarrow> SyncSession
     \<Rightarrow> nat \<times> SyncSession \<times> GekkoCall list \<times> (ArenaState \<times> u32) list" where
  "sync_frame sev gev inputs s =
     (let calls = (if ss_mode s = SYNC_ONLINE then [GekkoPoll] else []) @ feed_inputs inputs s;
          s = fold session_event sev s;
          (s, saved) = game_events gev s;
          fresh = length (filter (is_advance False) gev); rb = length (filter (is_advance True) gev)
      in (fresh, count_pump fresh rb s, calls, saved))"

end
