(* ===== verification/Sim_Image.thy ===== *)
theory Sim_Image
  imports Sim_Rounds
begin

text \<open>
  What the code around the simulation relies on: a tick counts itself and leaves the match's
  parameters alone, the image of a reachable state has 944 bytes, and its checksum sees one
  flipped bit of the generator.
\<close>

lemma phase_tick_sel [simp]:
  "st_tick (phase_tick s) = st_tick s" "st_arena_id (phase_tick s) = st_arena_id s"
  "st_num_players (phase_tick s) = st_num_players s"
  by (simp_all add: phase_tick_def Let_def split: Phase.split)

lemma round_end_sel [simp]:
  "st_tick (round_end s) = st_tick s" "st_arena_id (round_end s) = st_arena_id s"
  "st_num_players (round_end s) = st_num_players s"
  by (simp_all add: round_end_def Let_def)

lemma tick_number [simp]:
  "st_tick (arena_tick ins s) = st_tick s + 1" "st_arena_id (arena_tick ins s) = st_arena_id s"
  "st_num_players (arena_tick ins s) = st_num_players s"
  by (simp_all add: arena_tick_def Let_def)

lemma init_number [simp]:
  "st_tick (arena_init a n seed) = 0" "st_arena_id (arena_init a n seed) = a" "st_num_players (arena_init a n seed) = n"
  by (simp_all add: arena_init_def state_zero_def)

lemma image_length: "arena_inv s \<Longrightarrow> length (arena_bytes s) = 944"
  by (simp add: arena_bytes_def arena_inv_def shape_def arena_sizes le16.enc_length le32.enc_length
    player_codec.concat_length bomb_codec.concat_length blast_codec.concat_length)

lemma flip_low_bit:
  "ucast (r XOR 1) \<noteq> (ucast (r :: u32) :: u8)" "0 < k \<Longrightarrow> drop_bit k (r XOR 1) = drop_bit k (r :: u32)"
proof -
  show "ucast (r XOR 1) \<noteq> (ucast r :: u8)"
  proof
    assume "ucast (r XOR 1) = (ucast r :: u8)"
    then have "bit (ucast (r XOR 1) :: u8) 0 = bit (ucast r :: u8) 0" by simp
    then show False by (simp add: bit_ucast_iff bit_xor_iff bit_1_iff)
  qed
  show "drop_bit k (r XOR 1) = drop_bit k r" if "0 < k"
    using that by (intro bit_word_eqI) (auto simp: bit_drop_bit_eq bit_xor_iff bit_1_iff)
qed

lemma hash_sees_rng_bit:
  "arena_hash (s\<lparr>st_rng := st_rng s XOR 1\<rparr>) \<noteq> arena_hash s"
proof -
  let ?t = "s\<lparr>st_rng := st_rng s XOR 1\<rparr>"
  have "arena_bytes ?t = (arena_bytes s)[4 := ucast (st_rng s XOR 1)]"
    by (simp add: arena_bytes_def le32_def flip_low_bit(2))
  moreover have "arena_bytes s ! 4 = ucast (st_rng s)" "4 < length (arena_bytes s)"
    by (simp_all add: arena_bytes_def le32_def)
  ultimately show ?thesis
    using fnv1a_single_byte [of 4 "arena_bytes s" "ucast (st_rng s XOR 1)"] flip_low_bit(1) by (simp add: arena_hash_def)
qed

lemma inv_rng: "arena_inv s \<Longrightarrow> arena_inv (s\<lparr>st_rng := r\<rparr>)"
  by (rule soft_inv [of s]) (simp_all add: soft_def list_all2_refl)

end
