(* ===== verification/Sync_Inv.thy ===== *)
theory Sync_Inv
  imports Sync_Session Sim_Image
begin

text \<open>
  Rollback is invisible: however often GekkoNet rolls the session back and runs it forward again,
  its state is the one the simulation reaches from the opening on the recorded inputs, and the hash
  ring says the truth about it.  The library is trusted for one thing, that it loads only states
  it was given to save and that are still current: \<open>legal_event\<close>.
\<close>

section \<open>What the library may ask\<close>

type_synonym store = "u32 \<rightharpoonup> ArenaState"

text \<open>The saved states by tick.  An advance at a tick makes those of later ticks stale; they are saved
  again before they are loaded.  An advance brings an input for every player.  The tick counter
  does not wrap (it would after 828 days).\<close>

definition store_after :: "GekkoGameEvent \<Rightarrow> SyncSession \<Rightarrow> store \<Rightarrow> store" where
  "store_after e s M = (case e of
       GekkoSave \<Rightarrow> M(st_tick (ss_state s) \<mapsto> ss_state s)
     | GekkoAdvance _ _ \<Rightarrow> M |` {t. t \<le> st_tick (ss_state s)}
     | _ \<Rightarrow> M)"

definition legal_event :: "GekkoGameEvent \<Rightarrow> SyncSession \<Rightarrow> store \<Rightarrow> bool" where
  "legal_event e s M = (case e of
       GekkoLoad st \<Rightarrow> M (st_tick st) = Some st
     | GekkoAdvance _ ins \<Rightarrow> length ins = unat (ss_num_players s) \<and> st_tick (ss_state s) < 0xFFFFFFFF
     | _ \<Rightarrow> True)"

fun legal_events :: "GekkoGameEvent list \<Rightarrow> SyncSession \<Rightarrow> store \<Rightarrow> bool" where
  "legal_events [] s M \<longleftrightarrow> True"
| "legal_events (e # es) s M \<longleftrightarrow>
     legal_event e s M \<and> legal_events es (fst (game_event e s)) (store_after e s M)"

fun store_all :: "GekkoGameEvent list \<Rightarrow> SyncSession \<Rightarrow> store \<Rightarrow> store" where
  "store_all [] s M = M"
| "store_all (e # es) s M = store_all es (fst (game_event e s)) (store_after e s M)"

inductive honest :: "store \<Rightarrow> SyncSession \<Rightarrow> bool" where
  honest_open: "sync_create memory created handle_of (Some cfg) = Some (s, calls) \<Longrightarrow>
    unat (cf_arena_id cfg) < ARENA_GEOM_COUNT \<Longrightarrow> honest Map.empty s"
| honest_frame: "honest M s \<Longrightarrow> legal_events gev (fold session_event sev s) M \<Longrightarrow>
    sync_frame sev gev inputs s = (fresh, s', calls, saved) \<Longrightarrow>
    honest (store_all gev (fold session_event sev s) M) s'"

section \<open>The invariant\<close>

definition first_state :: "SyncSession \<Rightarrow> ArenaState" where
  "first_state s = arena_init (st_arena_id (ss_state s)) (ss_num_players s) (ss_seed s)"

definition replayed :: "SyncSession \<Rightarrow> nat \<Rightarrow> ArenaState" where
  "replayed s n = arena_run (take n (ss_rec s)) (first_state s)"

definition session_shape :: "SyncSession \<Rightarrow> bool" where
  "session_shape s \<longleftrightarrow> length (ss_rec s) = 36000 \<and> list_all (\<lambda>row. length row = 4) (ss_rec s)
     \<and> length (ss_ring s) = 256 \<and> 2 \<le> unat (ss_num_players s) \<and> unat (ss_num_players s) \<le> 4
     \<and> unat (ss_rec_count s) \<le> 36000"

text \<open>A state agrees with the log: within the recorded ticks it is the replay.\<close>

definition faithful :: "SyncSession \<Rightarrow> ArenaState \<Rightarrow> bool" where
  "faithful s st \<longleftrightarrow> arena_inv st \<and> st_arena_id st = st_arena_id (ss_state s)
     \<and> (unat (st_tick st) \<le> 36000 \<longrightarrow> unat (st_tick st) \<le> unat (ss_rec_count s) \<and> st = replayed s (unat (st_tick st)))"

definition ring_true :: "SyncSession \<Rightarrow> u32 \<Rightarrow> bool" where
  "ring_true s bound \<longleftrightarrow> (\<forall>k < 256. \<forall>t h. ss_ring s ! k = (t, h) \<longrightarrow> t \<noteq> 0 \<longrightarrow>
     ring_slot t = k \<and> (t \<le> bound \<and> unat t \<le> 36000 \<longrightarrow> h = arena_hash (replayed s (unat t))))"

definition log_ok :: "store \<Rightarrow> SyncSession \<Rightarrow> bool" where
  "log_ok M s \<longleftrightarrow> session_shape s \<and> \<not> ss_corrupt_pending s \<and> faithful s (ss_state s)
     \<and> ring_true s (st_tick (ss_state s))
     \<and> (\<forall>t st. M t = Some st \<longrightarrow> st_tick st = t \<and> faithful s st \<and> ring_true s t)"

lemma faithfulD:
  "faithful s st \<Longrightarrow> arena_inv st" "faithful s st \<Longrightarrow> st_arena_id st = st_arena_id (ss_state s)"
  "faithful s st \<Longrightarrow> unat (st_tick st) \<le> 36000 \<Longrightarrow>
     unat (st_tick st) \<le> unat (ss_rec_count s) \<and> st = replayed s (unat (st_tick st))"
  unfolding faithful_def by blast+

lemma log_okD:
  "log_ok M s \<Longrightarrow> session_shape s" "log_ok M s \<Longrightarrow> \<not> ss_corrupt_pending s"
  "log_ok M s \<Longrightarrow> faithful s (ss_state s)" "log_ok M s \<Longrightarrow> ring_true s (st_tick (ss_state s))"
  "log_ok M s \<Longrightarrow> M t = Some st \<Longrightarrow> st_tick st = t \<and> faithful s st \<and> ring_true s t"
  unfolding log_ok_def by blast+

section \<open>Session events and statistics touch nothing of it\<close>

definition same_log :: "SyncSession \<Rightarrow> SyncSession \<Rightarrow> bool" where
  "same_log s t \<longleftrightarrow> ss_rec t = ss_rec s \<and> ss_ring t = ss_ring s \<and> ss_num_players t = ss_num_players s
     \<and> ss_rec_count t = ss_rec_count s \<and> ss_corrupt_pending t = ss_corrupt_pending s \<and> ss_state t = ss_state s
     \<and> ss_seed t = ss_seed s \<and> ss_local_mask t = ss_local_mask s"

lemma same_log_ok: "same_log s t \<Longrightarrow> log_ok M t = log_ok M s"
  by (simp add: same_log_def log_ok_def session_shape_def faithful_def ring_true_def replayed_def first_state_def)

lemma same_log_event: "same_log s (session_event e s)"
  by (simp add: same_log_def session_event_def split: GekkoSessionEvent.split)

lemma same_log_events: "same_log s (fold session_event es s)"
  by (rule fold_invariant_list [where P = "same_log s"])
    (use same_log_event in \<open>auto simp: same_log_def\<close>)

lemma same_log_pump: "same_log s (count_pump fresh rb s)"
  by (simp add: same_log_def count_pump_def Let_def)

section \<open>Game events\<close>

lemma ring_slot_mod: "ring_slot t = unat t mod 256"
proof -
  have "t AND 255 = take_bit 8 t" by (simp add: take_bit_eq_mask mask_eq_exp_minus_1)
  then show ?thesis by (simp add: ring_slot_def take_bit_eq_mod unat_mod_distrib)
qed

lemma ring_slot_bound: "ring_slot t < 256"
  by (simp add: ring_slot_mod)

lemma tick_inputs_length:
  "unat (ss_num_players s) \<le> 4 \<Longrightarrow> length ins = unat (ss_num_players s) \<Longrightarrow> length (tick_inputs ins s) = 4"
  by (simp add: tick_inputs_def Let_def ARENA_MAX_PLAYERS_def)

lemma log_save: "log_ok M s \<Longrightarrow> log_ok (M(st_tick (ss_state s) \<mapsto> ss_state s)) s"
  by (auto simp: log_ok_def)

lemma log_frame:
  assumes "log_ok M s" and "st_arena_id (ss_state t) = st_arena_id (ss_state s)"
    and "ss_rec t = ss_rec s" "ss_num_players t = ss_num_players s" "ss_seed t = ss_seed s" "ss_ring t = ss_ring s"
    "ss_rec_count t = ss_rec_count s" "ss_corrupt_pending t = ss_corrupt_pending s"
    and "faithful s (ss_state t)" "ring_true s (st_tick (ss_state t))"
  shows "log_ok M t"
proof -
  have "first_state t = first_state s" using assms(2,4,5) by (simp add: first_state_def)
  then have r: "replayed t = replayed s" using assms(3) by (intro ext) (simp add: replayed_def)
  have f: "faithful t = faithful s" using assms(2,7) by (intro ext) (simp add: faithful_def r)
  have g: "ring_true t = ring_true s" using assms(6) by (intro ext) (simp add: ring_true_def r)
  have "session_shape t" using log_okD(1) [OF assms(1)] assms(3-7) by (simp add: session_shape_def)
  moreover have "\<not> ss_corrupt_pending t" using log_okD(2) [OF assms(1)] assms(8) by simp
  ultimately show ?thesis using assms(9,10) log_okD(5) [OF assms(1)] unfolding log_ok_def f g by blast
qed

lemma log_load:
  assumes "log_ok M s" and "M (st_tick st) = Some st"
  shows "log_ok M (s\<lparr>ss_state := st\<rparr>)"
proof -
  have st: "faithful s st" "ring_true s (st_tick st)" using log_okD(5) [OF assms] by blast+
  show ?thesis by (rule log_frame [OF assms(1)]) (simp_all add: faithfulD(2) [OF st(1)] st)
qed

subsection \<open>An advance\<close>

text \<open>Without a pending corruption an advance is the tick on the inputs it records.\<close>

definition advanced :: "ArenaInput list \<Rightarrow> SyncSession \<Rightarrow> SyncSession" where
  "advanced ins s = record_hash ((record_inputs ins s)\<lparr>ss_state := arena_tick ins (ss_state s)\<rparr>)"

lemma advance_clean: "\<not> ss_corrupt_pending s \<Longrightarrow> advance rolling inputs s = advanced (tick_inputs inputs s) s"
  by (simp add: advance_def advanced_def corrupt_once_def record_inputs_def Let_def)

lemma advanced_fields:
  "ss_state (advanced ins s) = arena_tick ins (ss_state s)"
  "ss_num_players (advanced ins s) = ss_num_players s" "ss_seed (advanced ins s) = ss_seed s"
  "ss_corrupt_pending (advanced ins s) = ss_corrupt_pending s"
  "ss_ring (advanced ins s) = (ss_ring s)[ring_slot (st_tick (ss_state s) + 1) :=
     (st_tick (ss_state s) + 1, arena_hash (arena_tick ins (ss_state s)))]"
  "ss_rec (advanced ins s) = (if unat (st_tick (ss_state s)) < 36000
     then (ss_rec s)[unat (st_tick (ss_state s)) := ins] else ss_rec s)"
  "ss_rec_count (advanced ins s) = (if unat (st_tick (ss_state s)) < 36000 \<and> ss_rec_count s < st_tick (ss_state s) + 1
     then st_tick (ss_state s) + 1 else ss_rec_count s)"
  by (simp_all add: advanced_def record_hash_def record_inputs_def BUNDLE_MAX_TICKS_def Let_def)

lemma tick_succ: "(t :: u32) < 0xFFFFFFFF \<Longrightarrow> unat (t + 1) = unat t + 1"
  by (simp add: word_less_nat_alt unat_word_ariths)

lemma advanced_replay:
  assumes "session_shape s"
  shows "n \<le> unat (st_tick (ss_state s)) \<Longrightarrow> replayed (advanced ins s) n = replayed s n"
    and "unat (st_tick (ss_state s)) < 36000 \<Longrightarrow> replayed (advanced ins s) (Suc (unat (st_tick (ss_state s))))
      = arena_tick ins (replayed s (unat (st_tick (ss_state s))))"
proof -
  let ?T = "unat (st_tick (ss_state s))"
  have first: "first_state (advanced ins s) = first_state s"
    by (simp add: first_state_def advanced_fields tick_number)
  show "n \<le> ?T \<Longrightarrow> replayed (advanced ins s) n = replayed s n"
    by (simp add: replayed_def first advanced_fields take_update_cancel)
  show "?T < 36000 \<Longrightarrow> replayed (advanced ins s) (Suc ?T) = arena_tick ins (replayed s ?T)"
    using assms by (simp add: replayed_def first advanced_fields session_shape_def take_Suc_conv_app_nth take_update_cancel arena_run_def)
qed

lemma advanced_shape:
  assumes "session_shape s" and "length ins = 4" and "st_tick (ss_state s) < 0xFFFFFFFF"
  shows "session_shape (advanced ins s)" and "unat (ss_rec_count s) \<le> unat (ss_rec_count (advanced ins s))"
    and "unat (st_tick (ss_state s)) < 36000 \<Longrightarrow> unat (st_tick (ss_state s)) + 1 \<le> unat (ss_rec_count (advanced ins s))"
proof -
  have t: "unat (st_tick (ss_state s) + 1) = unat (st_tick (ss_state s)) + 1" using tick_succ assms(3) by simp
  show "session_shape (advanced ins s)"
    using assms(1,2) by (auto simp: session_shape_def advanced_fields t list_all_length nth_list_update)
  show "unat (ss_rec_count s) \<le> unat (ss_rec_count (advanced ins s))"
    "unat (st_tick (ss_state s)) < 36000 \<Longrightarrow> unat (st_tick (ss_state s)) + 1 \<le> unat (ss_rec_count (advanced ins s))"
    using t by (auto simp: advanced_fields word_less_nat_alt)
qed

lemma faithful_kept:
  assumes "session_shape s" and "length ins = 4" and "st_tick (ss_state s) < 0xFFFFFFFF"
    and "faithful s st" and "st_tick st \<le> st_tick (ss_state s)"
  shows "faithful (advanced ins s) st"
proof -
  have "unat (st_tick st) \<le> unat (st_tick (ss_state s))" using assms(5) by (simp add: word_le_nat_alt)
  then have "replayed (advanced ins s) (unat (st_tick st)) = replayed s (unat (st_tick st))"
    by (rule advanced_replay(1) [OF assms(1)])
  then show ?thesis
    using faithfulD [OF assms(4)] advanced_shape(2) [OF assms(1-3)]
    unfolding faithful_def advanced_fields(1) tick_number by auto
qed

lemma faithful_advanced:
  assumes "log_ok M s" and "length ins = 4" and "st_tick (ss_state s) < 0xFFFFFFFF"
  shows "faithful (advanced ins s) (ss_state (advanced ins s))"
proof -
  let ?T = "unat (st_tick (ss_state s))"
  note shape = log_okD(1) [OF assms(1)] and now = faithfulD [OF log_okD(3) [OF assms(1)]]
  have t: "unat (st_tick (ss_state (advanced ins s))) = Suc ?T"
    using tick_succ [OF assms(3)] by (simp add: advanced_fields tick_number)
  have "ss_state (advanced ins s) = replayed (advanced ins s) (Suc ?T)" if "?T < 36000"
  proof -
    have "ss_state s = replayed s ?T" using now(3) that by simp
    then show ?thesis using advanced_replay(2) [OF shape that, of ins] by (simp only: advanced_fields)
  qed
  then show ?thesis
    using now(1) advanced_shape(3) [OF shape assms(2,3)] unfolding faithful_def t
    by (simp add: advanced_fields inv_arena_tick tick_number)
qed

lemma ring_advanced:
  assumes "session_shape s" and "ring_true s b" and "b \<le> st_tick (ss_state s)" and "st_tick (ss_state s) < 0xFFFFFFFF"
  shows "ring_true (advanced ins s) b"
proof -
  let ?c = "st_tick (ss_state s) + 1"
  have len: "length (ss_ring s) = 256" using assms(1) by (simp add: session_shape_def)
  show ?thesis unfolding ring_true_def
  proof (intro allI impI)
    fix k t h
    assume k: "k < 256" and here: "ss_ring (advanced ins s) ! k = (t, h)" and t: "t \<noteq> 0"
    show "ring_slot t = k \<and> (t \<le> b \<and> unat t \<le> 36000 \<longrightarrow> h = arena_hash (replayed (advanced ins s) (unat t)))"
    proof (cases "k = ring_slot ?c")
      case True
      then have "t = ?c" using here len k by (simp add: advanced_fields)
      moreover have "\<not> ?c \<le> b" using tick_succ [OF assms(4)] assms(3) by (simp add: word_le_nat_alt)
      ultimately show ?thesis using True by simp
    next
      case False
      then have "ss_ring s ! k = (t, h)" using here by (simp add: advanced_fields)
      then have old: "ring_slot t = k \<and> (t \<le> b \<and> unat t \<le> 36000 \<longrightarrow> h = arena_hash (replayed s (unat t)))"
        using assms(2) k t unfolding ring_true_def by blast
      have "replayed (advanced ins s) (unat t) = replayed s (unat t)" if "t \<le> b"
        using advanced_replay(1) [OF assms(1), of "unat t"] order_trans [OF that assms(3)] by (simp add: word_le_nat_alt)
      then show ?thesis using old by simp
    qed
  qed
qed

lemma ring_true_now:
  assumes "log_ok M s" and "length ins = 4" and "st_tick (ss_state s) < 0xFFFFFFFF"
  shows "ring_true (advanced ins s) (st_tick (ss_state s) + 1)"
proof -
  let ?c = "st_tick (ss_state s) + 1"
  note shape = log_okD(1) [OF assms(1)]
  have old: "ring_true (advanced ins s) (st_tick (ss_state s))"
    by (rule ring_advanced [OF shape log_okD(4) [OF assms(1)] order_refl assms(3)])
  have len: "length (ss_ring s) = 256" using shape by (simp add: session_shape_def)
  have c: "unat ?c = unat (st_tick (ss_state s)) + 1" using tick_succ [OF assms(3)] .
  show ?thesis unfolding ring_true_def
  proof (intro allI impI)
    fix k t h
    assume k: "k < 256" and here: "ss_ring (advanced ins s) ! k = (t, h)" and t: "t \<noteq> 0"
    have o: "ring_slot t = k \<and> (t \<le> st_tick (ss_state s) \<and> unat t \<le> 36000 \<longrightarrow> h = arena_hash (replayed (advanced ins s) (unat t)))"
      using old k here t unfolding ring_true_def by blast
    moreover have "h = arena_hash (replayed (advanced ins s) (unat t))" if "t = ?c" "unat t \<le> 36000"
    proof -
      have "h = arena_hash (ss_state (advanced ins s))"
        using here o that(1) len k by (auto simp: advanced_fields)
      moreover have "unat (st_tick (ss_state (advanced ins s))) = unat t"
        using that(1) by (simp add: advanced_fields tick_number)
      ultimately show ?thesis
        using faithfulD(3) [OF faithful_advanced [OF assms]] that(2) by simp
    qed
    moreover have "t \<le> st_tick (ss_state s)" if "t \<le> ?c" "t \<noteq> ?c"
    proof -
      have "unat t \<noteq> unat ?c" using that(2) by (simp add: word_unat_eq_iff)
      then show ?thesis using that(1) c by (simp add: word_le_nat_alt)
    qed
    ultimately show "ring_slot t = k \<and> (t \<le> ?c \<and> unat t \<le> 36000 \<longrightarrow> h = arena_hash (replayed (advanced ins s) (unat t)))"
      by blast
  qed
qed

lemma log_advanced:
  assumes "log_ok M s" and "length ins = 4" and "st_tick (ss_state s) < 0xFFFFFFFF"
  shows "log_ok (M |` {t. t \<le> st_tick (ss_state s)}) (advanced ins s)"
proof -
  note shape = log_okD(1) [OF assms(1)]
  have "st_tick st = t \<and> faithful (advanced ins s) st \<and> ring_true (advanced ins s) t"
    if kept: "(M |` {t. t \<le> st_tick (ss_state s)}) t = Some st" for t st
  proof -
    have t: "t \<le> st_tick (ss_state s)" "M t = Some st" using kept by (auto simp: restrict_map_def split: if_splits)
    note st = log_okD(5) [OF assms(1) t(2)]
    then show ?thesis
      using faithful_kept [OF shape assms(2,3), of st] ring_advanced [OF shape _ t(1) assms(3)] t(1) by blast
  qed
  moreover have "ring_true (advanced ins s) (st_tick (ss_state (advanced ins s)))"
    using ring_true_now [OF assms] by (simp add: advanced_fields tick_number)
  moreover have "\<not> ss_corrupt_pending (advanced ins s)" using log_okD(2) [OF assms(1)] by (simp add: advanced_fields)
  ultimately show ?thesis
    using advanced_shape(1) [OF shape assms(2,3)] faithful_advanced [OF assms] unfolding log_ok_def by blast
qed

subsection \<open>Whole runs\<close>

lemma log_event:
  assumes "log_ok M s" and "legal_event e s M"
  shows "log_ok (store_after e s M) (fst (game_event e s))"
proof (cases e)
  case (GekkoAdvance rolling ins)
  have "length (tick_inputs ins s) = 4"
    using log_okD(1) [OF assms(1)] assms(2) by (simp add: GekkoAdvance legal_event_def session_shape_def tick_inputs_length)
  then show ?thesis
    using log_advanced [OF assms(1)] assms(2) log_okD(2) [OF assms(1)]
    by (simp add: GekkoAdvance store_after_def game_event_def legal_event_def advance_clean)
qed (use assms in \<open>simp_all add: store_after_def game_event_def legal_event_def log_save log_load\<close>)

lemma log_events:
  "log_ok M s \<Longrightarrow> legal_events es s M \<Longrightarrow> log_ok (store_all es s M) (fst (game_events es s))"
  by (induction es arbitrary: s M) (simp_all add: log_event case_prod_unfold Let_def)

lemma frame_state:
  "sync_frame sev gev inputs s = (fresh, s', calls, saved) \<Longrightarrow>
     same_log (fst (game_events gev (fold session_event sev s))) s'"
  by (auto simp: sync_frame_def case_prod_unfold Let_def same_log_pump)

lemma add_actor_frame: "same_log (fst r) (fst (add_actor handle_of cfg i r))"
  by (cases r) (simp add: add_actor_def same_log_def Let_def)

lemma create_frame:
  assumes "sync_create memory created handle_of (Some cfg) = Some (s, calls)"
  shows "same_log (sync_blank cfg) s" and "2 \<le> unat (cf_num_players cfg)" and "unat (cf_num_players cfg) \<le> 4"
proof -
  let ?b = "(sync_blank cfg)\<lparr>ss_online_adapter := (cf_mode cfg = SYNC_ONLINE \<and> \<not> cf_adapter cfg)\<rparr>"
  let ?r = "fold (add_actor handle_of cfg) [0..<unat (cf_num_players cfg)] (?b, start_calls cfg @ adapter_calls cfg)"
  have "same_log (sync_blank cfg) (fst ?r)"
    by (rule fold_invariant_list [where P = "\<lambda>r. same_log (sync_blank cfg) (fst r)"])
      (use add_actor_frame in \<open>auto simp: same_log_def\<close>)
  then show "same_log (sync_blank cfg) s"
    using assms by (auto simp: sync_create_def case_prod_unfold Let_def same_log_def split: if_splits)
  show "2 \<le> unat (cf_num_players cfg)" "unat (cf_num_players cfg) \<le> 4"
    using assms by (auto simp: sync_create_def ARENA_MAX_PLAYERS_def split: if_splits)
qed

lemma log_blank:
  assumes "2 \<le> unat (cf_num_players cfg)" and "unat (cf_num_players cfg) \<le> 4" and "unat (cf_arena_id cfg) < ARENA_GEOM_COUNT"
  shows "log_ok Map.empty (sync_blank cfg)"
proof -
  let ?s = "sync_blank cfg"
  have "session_shape ?s"
    using assms by (simp add: session_shape_def sync_blank_def BUNDLE_MAX_TICKS_def BUNDLE_RING_def ARENA_MAX_PLAYERS_def list_all_iff)
  moreover have "ring_true ?s b" for b by (simp add: ring_true_def sync_blank_def BUNDLE_RING_def)
  moreover have "faithful ?s (ss_state ?s)"
    using inv_init [OF assms(3,2), of "cf_seed cfg"]
    unfolding faithful_def by (simp add: sync_blank_def init_number replayed_def first_state_def arena_run_def)
  moreover have "\<not> ss_corrupt_pending ?s" by (simp add: sync_blank_def)
  ultimately show ?thesis by (simp add: log_ok_def)
qed

lemma honest_log: "honest M s \<Longrightarrow> log_ok M s"
proof (induction rule: honest.induct)
  case (honest_open memory created handle_of cfg s calls)
  note c = create_frame [OF honest_open(1)]
  show ?case using log_blank [OF c(2,3) honest_open(2)] same_log_ok [OF c(1)] by simp
next
  case (honest_frame M s gev sev inputs fresh s' calls saved)
  have "log_ok M (fold session_event sev s)" using honest_frame.IH same_log_ok [OF same_log_events] by simp
  from log_events [OF this honest_frame.hyps(2)] show ?case
    using same_log_ok [OF frame_state [OF honest_frame.hyps(3)]] by simp
qed

section \<open>An example session\<close>

text \<open>Two local players; a frame saves, advances, rolls back to the saved state and advances on other inputs.\<close>

definition example_cfg :: SyncConfig where
  "example_cfg = \<lparr>cf_mode = SYNC_COUCH, cf_num_players = 2, cf_local_mask = 3, cf_local_port = 0, cf_peer_addr = [],
     cf_seed = 7, cf_arena_id = 0, cf_input_delay = 0, cf_adapter = False\<rparr>"

definition example_begin :: SyncSession where
  "example_begin = fst (the (sync_create True True int (Some example_cfg)))"

definition example_frame :: "GekkoGameEvent list" where
  "example_frame = [GekkoSave, GekkoAdvance False [0, 0], GekkoLoad (ss_state example_begin), GekkoAdvance True [1, 2]]"

definition example_session :: SyncSession where
  "example_session = fst (snd (sync_frame [] example_frame [] example_begin))"

lemma example_opened: "\<exists>calls. sync_create True True int (Some example_cfg) = Some (example_begin, calls)"
  by (simp add: example_begin_def sync_create_def example_cfg_def ARENA_MAX_PLAYERS_def case_prod_unfold Let_def)

lemma example_begin_honest: "honest Map.empty example_begin"
  using example_opened honest_open by (force simp: example_cfg_def arena_geom_count)

lemma example_begin_fields: "ss_num_players example_begin = 2" "st_tick (ss_state example_begin) = 0" "\<not> ss_corrupt_pending example_begin"
  and example_begin_count: "ss_rec_count example_begin = 0"
proof -
  obtain calls where c: "sync_create True True int (Some example_cfg) = Some (example_begin, calls)"
    using example_opened by blast
  show "ss_num_players example_begin = 2" "st_tick (ss_state example_begin) = 0" "\<not> ss_corrupt_pending example_begin"
    "ss_rec_count example_begin = 0"
    using create_frame(1) [OF c] by (simp_all add: same_log_def sync_blank_def example_cfg_def init_number)
qed

lemma example_session_honest: "\<exists>M. honest M example_session"
proof -
  have "legal_events example_frame example_begin Map.empty"
    using example_begin_fields
    by (simp add: example_frame_def legal_event_def store_after_def game_event_def advance_clean advanced_fields restrict_map_def)
  moreover obtain fresh calls saved where "sync_frame [] example_frame [] example_begin = (fresh, example_session, calls, saved)"
    unfolding example_session_def by (metis prod.collapse)
  ultimately show ?thesis
    using honest_frame [OF example_begin_honest, of example_frame "[]"] by fastforce
qed

lemma example_session_tick: "st_tick (ss_state example_session) = 1"
proof -
  have "st_tick (ss_state (fst (game_events example_frame example_begin))) = 1"
    using example_begin_fields
    by (simp add: example_frame_def game_event_def advance_clean advanced_fields case_prod_unfold Let_def tick_number)
  then show ?thesis
    by (simp add: example_session_def sync_frame_def case_prod_unfold Let_def count_pump_def)
qed

lemma example_session_count: "ss_rec_count example_session = 1"
proof -
  have "ss_rec_count (fst (game_events example_frame example_begin)) = 1"
    using example_begin_fields example_begin_count
    by (simp add: example_frame_def game_event_def advance_clean advanced_fields case_prod_unfold Let_def)
  then show ?thesis
    by (simp add: example_session_def sync_frame_def case_prod_unfold Let_def count_pump_def)
qed

section \<open>Properties\<close>

text \<open>C1: Rollback is invisible: whatever the library rolls back and runs again, after every frame the
  session's state is the one the simulation reaches from the opening on the inputs recorded so far
  (for the first ten minutes, which the record holds).\<close>

theorem rollback_is_invisible:
  assumes "honest M s" and "unat (sync_present_tick s) \<le> 36000"
  shows "ss_state s = arena_run (take (unat (sync_present_tick s)) (ss_rec s))
      (arena_init (st_arena_id (ss_state s)) (ss_num_players s) (ss_seed s))
    \<and> unat (sync_present_tick s) \<le> unat (ss_rec_count s)"
  using faithfulD(3) [OF log_okD(3) [OF honest_log [OF assms(1)]]] assms(2)
  unfolding sync_present_tick_def replayed_def first_state_def by blast

theorem rollback_is_invisible_witness:
  "\<exists>M. honest M example_session \<and> ss_state example_session
    = arena_run (take 1 (ss_rec example_session))
      (arena_init (st_arena_id (ss_state example_session)) (ss_num_players example_session) (ss_seed example_session))"
proof -
  obtain M where M: "honest M example_session" using example_session_honest by blast
  have t: "unat (sync_present_tick example_session) = 1" by (simp add: sync_present_tick_def example_session_tick)
  then show ?thesis using rollback_is_invisible [OF M] M by (metis one_le_numeral)
qed

text \<open>C23: The hash ring tells the truth: for every tick from 1 up to the present one, \<open>sync_hash_at\<close> returns 0 (the
  entry is gone) or the checksum of the state that the recorded inputs lead to at that tick, never
  that of a timeline that was rolled back.\<close>

theorem hash_ring_is_true:
  assumes "honest M s" and "t \<noteq> 0" and "t \<le> sync_present_tick s" and "unat t \<le> 36000"
  shows "sync_hash_at s t = 0 \<or> sync_hash_at s t = arena_hash (arena_run (take (unat t) (ss_rec s))
      (arena_init (st_arena_id (ss_state s)) (ss_num_players s) (ss_seed s)))"
proof -
  have ok: "log_ok M s" using assms(1) by (rule honest_log)
  obtain t' h where th: "ss_ring s ! ring_slot t = (t', h)" by fastforce
  have "h = arena_hash (replayed s (unat t))" if "t' = t"
    using log_okD(4) [OF ok] th ring_slot_bound [of t] that assms(2-4)
    unfolding ring_true_def sync_present_tick_def by blast
  then show ?thesis
    by (auto simp: sync_hash_at_def th replayed_def first_state_def)
qed

text \<open>In the example the first run of tick 1 was rolled back; the ring holds the second.\<close>

theorem hash_ring_is_true_witness:
  "sync_hash_at example_session 1 = 0 \<or> sync_hash_at example_session 1
    = arena_hash (arena_run (take 1 (ss_rec example_session))
      (arena_init (st_arena_id (ss_state example_session)) (ss_num_players example_session) (ss_seed example_session)))"
proof -
  obtain M where M: "honest M example_session" using example_session_honest by blast
  have "1 \<le> sync_present_tick example_session" by (simp add: sync_present_tick_def example_session_tick)
  then show ?thesis using hash_ring_is_true [OF M, of 1] by simp
qed

end
