(* ===== verification/Replay_Bundle.thy ===== *)
theory Replay_Bundle
  imports Sync_Session
begin

text \<open>
  The offline tool that finds where a session left its own inputs (\<open>src/tools/replay_bundle.c\<close>): the
  reader of the bundle file, the replay, the comparison with the hash ring and the report.  A file
  is its bytes, or \<open>None\<close> when it cannot be opened; whether an allocation succeeds is an argument.
  The lines printed are the values of the report; their layout is not modelled.
\<close>

section \<open>Reading\<close>

datatype BundleError =
    CannotOpen | ShortHeader | BadMagic u32 | BadVersion u32 | BadPlayers u8 | ShortRing | ShortState
  | BadInputCount | OutOfMemory | ShortInputs nat

record BundleHeader =
  bh_magic :: u32
  bh_version :: u32
  bh_net_version :: u32
  bh_seed :: u32
  bh_arena_id :: u8
  bh_num_players :: u8
  bh_local_slot :: u8
  bh_detect_tick :: u32
  bh_local_checksum :: u32
  bh_remote_checksum :: u32
  bh_remote_slot :: int

record Bundle =
  bd_h :: BundleHeader
  bd_ring :: "(u32 \<times> u32) list"
  bd_snap :: "u8 list"
  bd_rec_count :: u32
  bd_rec :: "ArenaInput list list"

text \<open>A read gives what was read and the rest of the file; \<open>fread\<close> of n bytes fails on fewer.\<close>

type_synonym 'a reader = "u8 list \<Rightarrow> ('a \<times> u8 list) option"

definition rd :: "nat \<Rightarrow> u8 list reader" where
  "rd n f = (if n \<le> length f then Some (take n f, drop n f) else None)"

fun word32 :: "u8 list \<Rightarrow> u32" where
  "word32 [a, b, c, d] = ucast a OR push_bit 8 (ucast b) OR push_bit 16 (ucast c) OR push_bit 24 (ucast d)"
| "word32 _ = 0"

fun word16 :: "u8 list \<Rightarrow> u16" where
  "word16 [a, b] = ucast a OR push_bit 8 (ucast b)"
| "word16 _ = 0"

definition file32 :: "u32 reader" where
  "file32 f = map_option (\<lambda>(b, f). (word32 b, f)) (rd 4 f)"

definition file16 :: "u16 reader" where
  "file16 f = map_option (\<lambda>(b, f). (word16 b, f)) (rd 2 f)"

text \<open>\<open>n\<close> items one after the other; the error is the index of the first one that is missing.\<close>

fun rd_list :: "'a reader \<Rightarrow> nat \<Rightarrow> nat \<Rightarrow> u8 list \<Rightarrow> nat + 'a list \<times> u8 list" where
  "rd_list r k 0 f = Inr ([], f)"
| "rd_list r k (Suc n) f =
     (case r f of None \<Rightarrow> Inl k
      | Some (x, f) \<Rightarrow> (case rd_list r (Suc k) n f of Inl e \<Rightarrow> Inl e | Inr (xs, f) \<Rightarrow> Inr (x # xs, f)))"

definition rd_entry :: "(u32 \<times> u32) reader" where
  "rd_entry f = do { (t, f) \<leftarrow> file32 f; (h, f) \<leftarrow> file32 f; Some ((t, h), f) }"

definition rd_row :: "ArenaInput list reader" where
  "rd_row f = (case rd_list file16 0 4 f of Inl _ \<Rightarrow> None | Inr r \<Rightarrow> Some r)"

definition rd_header :: "BundleHeader reader" where
  "rd_header f = do {
     (magic, f) \<leftarrow> file32 f; (version, f) \<leftarrow> file32 f; (net, f) \<leftarrow> file32 f; (seed, f) \<leftarrow> file32 f;
     (hb, f) \<leftarrow> rd 4 f; (tick, f) \<leftarrow> file32 f; (lc, f) \<leftarrow> file32 f; (rc, f) \<leftarrow> file32 f; (rs, f) \<leftarrow> file32 f;
     Some (\<lparr>bh_magic = magic, bh_version = version, bh_net_version = net, bh_seed = seed,
            bh_arena_id = hb ! 0, bh_num_players = hb ! 1, bh_local_slot = hb ! 2,
            bh_detect_tick = tick, bh_local_checksum = lc, bh_remote_checksum = rc, bh_remote_slot = sint rs\<rparr>, f) }"

definition bundle_load :: "bool \<Rightarrow> u8 list option \<Rightarrow> BundleError + Bundle" where
  "bundle_load memory file = (case file of None \<Rightarrow> Inl CannotOpen | Some f \<Rightarrow>
     (case rd_header f of None \<Rightarrow> Inl ShortHeader | Some (h, f) \<Rightarrow>
      if bh_magic h \<noteq> BUNDLE_MAGIC then Inl (BadMagic (bh_magic h))
      else if bh_version h \<noteq> BUNDLE_VERSION then Inl (BadVersion (bh_version h))
      else if unat (bh_num_players h) < 2 \<or> ARENA_MAX_PLAYERS < unat (bh_num_players h) then Inl (BadPlayers (bh_num_players h))
      else (case rd_list rd_entry 0 BUNDLE_RING f of Inl _ \<Rightarrow> Inl ShortRing | Inr (ring, f) \<Rightarrow>
      (case rd 944 f of None \<Rightarrow> Inl ShortState | Some (snap, f) \<Rightarrow>
      (case file32 f of None \<Rightarrow> Inl BadInputCount | Some (count, f) \<Rightarrow>
       if BUNDLE_MAX_TICKS < unat count then Inl BadInputCount
       else if \<not> memory then Inl OutOfMemory
       else (case rd_list rd_row 0 (unat count) f of Inl t \<Rightarrow> Inl (ShortInputs t) | Inr (rows, f) \<Rightarrow>
             Inr \<lparr>bd_h = h, bd_ring = ring, bd_snap = snap, bd_rec_count = count, bd_rec = rows\<rparr>))))))"

section \<open>Replaying\<close>

definition bundle_start :: "Bundle \<Rightarrow> ArenaState" where
  "bundle_start b = arena_init (bh_arena_id (bd_h b)) (bh_num_players (bd_h b)) (bh_seed (bd_h b))"

definition replay_step :: "ArenaInput list \<Rightarrow> ArenaState \<times> u32 list \<Rightarrow> ArenaState \<times> u32 list" where
  "replay_step ins = (\<lambda>(s, hashes). let s = arena_tick ins s in (s, hashes[unat (st_tick s) := arena_hash s]))"

definition replay :: "Bundle \<Rightarrow> u32 list" where
  "replay b =
     (let s = bundle_start b; hashes = (replicate (unat (bd_rec_count b) + 2) 0)[0 := arena_hash s]
      in snd (fold replay_step (take (unat (bd_rec_count b)) (bd_rec b)) (s, hashes)))"

text \<open>The earliest tick at which the ring disagrees with the replay, with the two hashes; tick 0 for none.\<close>

definition divergence_step :: "u32 \<Rightarrow> u32 list \<Rightarrow> u32 \<times> u32 \<Rightarrow> u32 \<times> u32 \<times> u32 \<Rightarrow> u32 \<times> u32 \<times> u32" where
  "divergence_step count hashes e best =
     (let (t, h) = e in
      if t = 0 \<or> count < t then best
      else if h = hashes ! unat t then best
      else if fst best = 0 \<or> t < fst best then (t, h, hashes ! unat t) else best)"

definition first_divergence :: "Bundle \<Rightarrow> u32 list \<Rightarrow> u32 \<times> u32 \<times> u32" where
  "first_divergence b hashes = fold (divergence_step (bd_rec_count b) hashes) (bd_ring b) (0, 0, 0)"

definition dump_around :: "Bundle \<Rightarrow> u32 \<Rightarrow> (ArenaState \<times> ArenaState) option" where
  "dump_around b n =
     (if n = 0 \<or> bd_rec_count b < n then None
      else (let s = arena_run (take (unat n - 1) (bd_rec b)) (bundle_start b)
            in Some (s, arena_tick (bd_rec b ! (unat n - 1)) s)))"

section \<open>The report\<close>

datatype Culprit = CulpritFirst | CulpritSecond | CulpritBoth | CulpritNone

datatype ReplayOutcome =
    Unreadable BundleError
  | VersionMismatch u32 u32
  | NoMemoryToReplay
  | Report (rp_inputs: "(nat \<times> nat \<times> ArenaInput \<times> ArenaInput) option option")
      (rp_a: "u32 \<times> u32 \<times> u32") (rp_b: "(u32 \<times> u32 \<times> u32) option") (rp_culprit: "Culprit option")
      (rp_dump: "(bool \<times> (ArenaState \<times> ArenaState) option) option")

text \<open>The first tick and player whose inputs differ over the shared ticks.\<close>

definition inputs_differ :: "Bundle \<Rightarrow> Bundle \<Rightarrow> (nat \<times> nat \<times> ArenaInput \<times> ArenaInput) option" where
  "inputs_differ a b =
     (let n = (if bd_rec_count a < bd_rec_count b then unat (bd_rec_count a) else unat (bd_rec_count b)) in
      case find_index (\<lambda>(t, p). bd_rec a ! t ! p \<noteq> bd_rec b ! t ! p)
             (List.product [0..<n] [0..<ARENA_MAX_PLAYERS]) of
        None \<Rightarrow> None
      | Some i \<Rightarrow>
          (let (t, p) = List.product [0..<n] [0..<ARENA_MAX_PLAYERS] ! i
           in Some (t, p, bd_rec a ! t ! p, bd_rec b ! t ! p)))"

definition culprit :: "u32 \<Rightarrow> u32 \<Rightarrow> Culprit" where
  "culprit ta tb =
     (if ta \<noteq> 0 \<and> tb = 0 then CulpritFirst else if tb \<noteq> 0 \<and> ta = 0 then CulpritSecond
      else if ta \<noteq> 0 \<and> tb \<noteq> 0 then CulpritBoth else CulpritNone)"

definition report_one :: "Bundle \<Rightarrow> ReplayOutcome" where
  "report_one a =
     (let da = first_divergence a (replay a)
      in Report None da None None (if fst da \<noteq> 0 then Some (True, dump_around a (fst da)) else None))"

definition report_two :: "Bundle \<Rightarrow> Bundle \<Rightarrow> ReplayOutcome" where
  "report_two a b =
     (let da = first_divergence a (replay a); db = first_divergence b (replay b); ta = fst da; tb = fst db
      in Report (Some (inputs_differ a b)) da (Some db) (Some (culprit ta tb))
           (if ta \<noteq> 0 \<and> (tb = 0 \<or> ta \<le> tb) then Some (True, dump_around a ta)
            else if tb \<noteq> 0 then Some (False, dump_around b tb) else None))"

text \<open>\<open>main\<close> with one or two files; \<open>memory\<close> says whether the input arrays can be allocated and
  \<open>memory2\<close> whether the hash arrays can.  All outcomes but \<open>Report\<close> are exits with code 1.\<close>

definition replay_bundle :: "bool \<Rightarrow> bool \<Rightarrow> u8 list option \<Rightarrow> u8 list option option \<Rightarrow> ReplayOutcome" where
  "replay_bundle memory memory2 fa second = (case bundle_load memory fa of Inl e \<Rightarrow> Unreadable e | Inr a \<Rightarrow>
     (case second of None \<Rightarrow> if memory2 then report_one a else NoMemoryToReplay
      | Some fb \<Rightarrow> (case bundle_load memory fb of Inl e \<Rightarrow> Unreadable e | Inr b \<Rightarrow>
          if bh_net_version (bd_h a) \<noteq> bh_net_version (bd_h b)
          then VersionMismatch (bh_net_version (bd_h a)) (bh_net_version (bd_h b))
          else if memory2 then report_two a b else NoMemoryToReplay)))"

end
