(* ===== verification/Replay_Props.thy ===== *)
theory Replay_Props
  imports Sync_Inv Replay_Bundle
begin

text \<open>
  From a session to its bundle to the verdict of the tool: the bundle reads back, an honest session
  is found consistent, and a corrupted one is found out at the very tick it was corrupted.
\<close>

section \<open>Reading back\<close>

text \<open>A written item followed by anything reads back, and so do items in a row.\<close>

locale file_item =
  fixes valid :: "'a \<Rightarrow> bool" and enc :: "'a \<Rightarrow> u8 list" and read :: "'a reader"
  assumes read_front: "valid x \<Longrightarrow> read (enc x @ rest) = Some (x, rest)"
begin

lemma read_all:
  "list_all valid xs \<Longrightarrow> rd_list read k (length xs) (concat (map enc xs) @ rest) = Inr (xs, rest)"
  by (induction xs arbitrary: k) (simp_all add: read_front)

end

interpretation item32: file_item "\<lambda>_. True" le32 file32
proof
  show "file32 (le32 x @ rest) = Some (x, rest)" for x rest
    using join32_parts [of x] by (simp add: file32_def rd_def le32_def join32_def)
qed

interpretation item16: file_item "\<lambda>_. True" le16 file16
proof
  show "file16 (le16 x @ rest) = Some (x, rest)" for x rest
    using join16_parts [of x] by (simp add: file16_def rd_def le16_def join16_def)
qed

interpretation entry: file_item "\<lambda>_. True" "\<lambda>(t, h). le32 t @ le32 h" rd_entry
  by unfold_locales (auto simp: rd_entry_def item32.read_front)

interpretation row: file_item "\<lambda>row. length row = 4" "\<lambda>row. concat (map le16 row)" rd_row
proof
  show "rd_row (concat (map le16 row) @ rest) = Some (row, rest)" if "length row = 4" for row rest
    using item16.read_all [of row 0 rest] that by (simp add: rd_row_def list_all_iff)
qed

definition bundle_of :: "SyncSession \<Rightarrow> Bundle \<Rightarrow> bool" where
  "bundle_of s b \<longleftrightarrow> bh_net_version (bd_h b) = arena_net_version \<and> bh_seed (bd_h b) = ss_seed s
     \<and> bh_arena_id (bd_h b) = st_arena_id (ss_state s) \<and> bh_num_players (bd_h b) = ss_num_players s
     \<and> bh_local_slot (bd_h b) = ss_local_slot s
     \<and> bh_detect_tick (bd_h b) = (if ss_have_dinfo s then di_tick (ss_dinfo s) else 0)
     \<and> bd_ring b = ss_ring s \<and> bd_snap b = arena_bytes (ss_state s)
     \<and> bd_rec_count b = ss_rec_count s \<and> bd_rec b = take (unat (ss_rec_count s)) (ss_rec s)"

lemma header_reads_back:
  "\<exists>h. rd_header (bundle_header s @ rest) = Some (h, rest) \<and> bh_magic h = BUNDLE_MAGIC \<and> bh_version h = BUNDLE_VERSION
     \<and> bh_net_version h = arena_net_version \<and> bh_seed h = ss_seed s \<and> bh_arena_id h = st_arena_id (ss_state s)
     \<and> bh_num_players h = ss_num_players s \<and> bh_local_slot h = ss_local_slot s
     \<and> bh_detect_tick h = (if ss_have_dinfo s then di_tick (ss_dinfo s) else 0)"
proof -
  have four: "rd 4 (a # b # c # d # rest) = Some ([a, b, c, d], rest)" for a b c d rest by (simp add: rd_def)
  show ?thesis
    unfolding bundle_header_def rd_header_def append_assoc
    by (cases "ss_have_dinfo s") (simp_all add: item32.read_front four)
qed

lemma bundle_reads_back:
  assumes "session_shape s" and "arena_inv (ss_state s)"
  shows "\<exists>b. bundle_load True (Some (bundle_bytes s)) = Inr b \<and> bundle_of s b"
proof -
  let ?n = "unat (ss_rec_count s)"
  have shape: "length (ss_ring s) = 256" "2 \<le> unat (ss_num_players s)" "unat (ss_num_players s) \<le> 4"
    "?n \<le> 36000" "length (ss_rec s) = 36000" "list_all (\<lambda>row. length row = 4) (ss_rec s)"
    using assms(1) by (simp_all add: session_shape_def)
  let ?r3 = "input_bytes (take ?n (ss_rec s))"
  let ?r2 = "arena_bytes (ss_state s) @ le32 (ss_rec_count s) @ ?r3"
  let ?r1 = "ring_bytes (ss_ring s) @ ?r2"
  obtain h where h: "rd_header (bundle_header s @ ?r1) = Some (h, ?r1)" "bh_magic h = BUNDLE_MAGIC" "bh_version h = BUNDLE_VERSION"
    "bh_net_version h = arena_net_version" "bh_seed h = ss_seed s" "bh_arena_id h = st_arena_id (ss_state s)"
    "bh_num_players h = ss_num_players s" "bh_local_slot h = ss_local_slot s"
    "bh_detect_tick h = (if ss_have_dinfo s then di_tick (ss_dinfo s) else 0)"
    using header_reads_back [of s ?r1] by blast
  have ring: "rd_list rd_entry 0 BUNDLE_RING ?r1 = Inr (ss_ring s, ?r2)"
    using entry.read_all [of "ss_ring s" 0 ?r2] shape(1) by (simp add: ring_bytes_def BUNDLE_RING_def list_all_iff)
  have snap: "rd 944 ?r2 = Some (arena_bytes (ss_state s), le32 (ss_rec_count s) @ ?r3)"
    using image_length [OF assms(2)] by (simp add: rd_def)
  have "list_all (\<lambda>row. length row = 4) (take ?n (ss_rec s))" using shape(6) by (auto simp: list_all_iff dest: in_set_takeD)
  from row.read_all [OF this, of 0 "[]"]
  have rows: "rd_list rd_row 0 ?n ?r3 = Inr (take ?n (ss_rec s), [])" using shape(4,5) by (simp add: input_bytes_def)
  show ?thesis
    unfolding bundle_load_def bundle_bytes_def append_assoc
    using shape(2-4)
    by (simp add: h ring snap item32.read_front rows BUNDLE_MAX_TICKS_def ARENA_MAX_PLAYERS_def bundle_of_def)
qed

section \<open>The replay\<close>

lemma replay_fold:
  "unat (st_tick s) + length rows < 2 ^ 32 \<Longrightarrow> unat (st_tick s) + length rows < length hashes \<Longrightarrow>
     length (snd (fold replay_step rows (s, hashes))) = length hashes
     \<and> (\<forall>j. snd (fold replay_step rows (s, hashes)) ! j =
          (if unat (st_tick s) < j \<and> j \<le> unat (st_tick s) + length rows
           then arena_hash (arena_run (take (j - unat (st_tick s)) rows) s) else hashes ! j))"
proof (induction rows arbitrary: s hashes)
  case (Cons ins rows)
  let ?s = "arena_tick ins s" and ?T = "unat (st_tick s)"
  have t: "unat (st_tick ?s) = Suc ?T"
    using Cons.prems(1) tick_succ [of "st_tick s"] by (simp add: tick_number word_less_nat_alt)
  let ?h = "hashes[Suc ?T := arena_hash ?s]"
  have step: "replay_step ins (s, hashes) = (?s, ?h)" using t by (simp add: replay_step_def Let_def)
  have IH: "length (snd (fold replay_step rows (?s, ?h))) = length ?h
     \<and> (\<forall>j. snd (fold replay_step rows (?s, ?h)) ! j =
          (if Suc ?T < j \<and> j \<le> Suc ?T + length rows
           then arena_hash (arena_run (take (j - Suc ?T) rows) ?s) else ?h ! j))"
    using Cons.IH [of ?s ?h] Cons.prems t by simp
  have "(if Suc ?T < j \<and> j \<le> Suc ?T + length rows then arena_hash (arena_run (take (j - Suc ?T) rows) ?s) else ?h ! j)
     = (if ?T < j \<and> j \<le> ?T + length (ins # rows) then arena_hash (arena_run (take (j - ?T) (ins # rows)) s) else hashes ! j)" for j
  proof (cases "j = Suc ?T")
    case True
    then show ?thesis using Cons.prems(2) by (simp add: arena_run_def)
  next
    case False
    then have "?T < j \<Longrightarrow> j - ?T = Suc (j - Suc ?T)" by linarith
    then show ?thesis using False by (auto simp: arena_run_def le_Suc_eq)
  qed
  then show ?case using IH by (simp add: step)
qed auto

lemma replay_nth:
  assumes "bundle_of s b" and "session_shape s" and "t \<noteq> 0" and "t \<le> ss_rec_count s"
  shows "replay b ! unat t = arena_hash (replayed s (unat t))"
proof -
  let ?n = "unat (ss_rec_count s)" and ?hs = "(replicate (unat (ss_rec_count s) + 2) 0)[0 := arena_hash (first_state s)]"
  have len: "?n \<le> 36000" "length (ss_rec s) = 36000" using assms(2) by (simp_all add: session_shape_def)
  have start: "bundle_start b = first_state s" using assms(1) by (simp add: bundle_start_def bundle_of_def first_state_def)
  have tick: "unat (st_tick (first_state s)) = 0" by (simp add: first_state_def)
  have t: "0 < unat t" "unat t \<le> ?n" using assms(3,4) by (simp_all add: word_le_nat_alt unat_gt_0)
  have "replay b ! unat t = arena_hash (arena_run (take (unat t) (take ?n (ss_rec s))) (first_state s))"
    using replay_fold [of "first_state s" "take ?n (ss_rec s)" ?hs] len tick t assms(1)
    by (simp add: replay_def bundle_of_def start Let_def)
  then show ?thesis using t(2) by (simp add: replayed_def min_def)
qed

lemma divergence_quiet:
  "(\<And>t h. (t, h) \<in> set ring \<Longrightarrow> t = 0 \<or> count < t \<or> h = hashes ! unat t) \<Longrightarrow>
     fold (divergence_step count hashes) ring (0, 0, 0) = (0, 0, 0)"
  by (rule fold_invariant_list [where P = "\<lambda>r. r = (0, 0, 0)"]) (fastforce simp: divergence_step_def)+

text \<open>The scan keeps the least tick of a wrong entry.\<close>

lemma divergence_least:
  assumes "(t, h) \<in> set ring" "t \<noteq> 0" "t \<le> count" "h \<noteq> hashes ! unat t"
    and "\<And>t' h'. (t', h') \<in> set ring \<Longrightarrow> t' \<noteq> 0 \<Longrightarrow> t' < t \<Longrightarrow> h' = hashes ! unat t'"
  shows "fst (fold (divergence_step count hashes) ring (0, 0, 0)) = t"
proof -
  let ?ok = "\<lambda>e. fst e = 0 \<or> t \<le> fst e"
  have scan: "fst r \<noteq> 0 \<and> t \<le> fst r \<or> fst r = 0 \<Longrightarrow>
      (\<And>t' h'. (t', h') \<in> set es \<Longrightarrow> t' \<noteq> 0 \<Longrightarrow> t' < t \<Longrightarrow> h' = hashes ! unat t') \<Longrightarrow>
      (let r' = fold (divergence_step count hashes) es r in
        (fst r' = 0 \<or> t \<le> fst r') \<and> ((t, h) \<in> set es \<or> fst r = t \<longrightarrow> fst r' = t))" for es r
  proof (induction es arbitrary: r)
    case (Cons e es)
    let ?r = "divergence_step count hashes e r"
    obtain t1 h1 where e: "e = (t1, h1)" by fastforce
    have wrong: "t \<le> t1" if "t1 \<noteq> 0" "h1 \<noteq> hashes ! unat t1"
      using Cons.prems(2) [of t1 h1] that by (cases "t1 < t") (auto simp: e)
    have "fst ?r \<noteq> 0 \<and> t \<le> fst ?r \<or> fst ?r = 0"
      using Cons.prems(1) wrong by (auto simp: divergence_step_def e)
    moreover have "fst ?r = t" if "e = (t, h) \<or> fst r = t"
      using that Cons.prems(1) wrong assms(2-4) by (auto simp: divergence_step_def e)
    ultimately show ?case using Cons.IH [of ?r] Cons.prems(2) by (auto simp: Let_def)
  qed auto
  show ?thesis using scan [of "(0, 0, 0)" ring] assms(1,5) by (simp add: Let_def)
qed

lemma report_of_session:
  assumes "session_shape s" and "arena_inv (ss_state s)"
  shows "\<exists>b. bundle_of s b \<and> replay_bundle True True (Some (bundle_bytes s)) None = report_one b"
  using bundle_reads_back [OF assms] by (auto simp: replay_bundle_def)

lemma ring_entry:
  assumes "ring_true s b" and "length (ss_ring s) = 256" and "(t, h) \<in> set (ss_ring s)"
    and "t \<noteq> 0" and "t \<le> b" and "unat t \<le> 36000"
  shows "h = arena_hash (replayed s (unat t))"
  using assms unfolding ring_true_def by (metis in_set_conv_nth)

lemma consistent_report:
  assumes "log_ok M s" and "ss_rec_count s \<le> st_tick (ss_state s)"
  shows "replay_bundle True True (Some (bundle_bytes s)) None = Report None (0, 0, 0) None None None"
proof -
  note shape = log_okD(1) [OF assms(1)]
  have size: "length (ss_ring s) = 256" "unat (ss_rec_count s) \<le> 36000" using shape by (simp_all add: session_shape_def)
  obtain b where b: "bundle_of s b" and r: "replay_bundle True True (Some (bundle_bytes s)) None = report_one b"
    using report_of_session [OF shape faithfulD(1) [OF log_okD(3) [OF assms(1)]]] by blast
  have "h = replay b ! unat t" if "(t, h) \<in> set (ss_ring s)" "t \<noteq> 0" "\<not> ss_rec_count s < t" for t h
  proof -
    have t: "t \<le> ss_rec_count s" "t \<le> st_tick (ss_state s)" "unat t \<le> 36000"
      using that(3) assms(2) size(2) by (simp_all add: word_le_nat_alt word_less_nat_alt)
    show ?thesis
      using ring_entry [OF log_okD(4) [OF assms(1)] size(1) that(1,2) t(2,3)] replay_nth [OF b shape that(2) t(1)] by simp
  qed
  then have "first_divergence b (replay b) = (0, 0, 0)"
    unfolding first_divergence_def using b by (intro divergence_quiet) (auto simp: bundle_of_def)
  then show ?thesis by (simp add: r report_one_def)
qed

section \<open>A corrupted session\<close>

text \<open>The session after tick \<open>T\<close> was left with a state its inputs do not lead to: the entry of \<open>T + 1\<close> is
  wrong, those before are right.\<close>

definition tainted :: "u32 \<Rightarrow> SyncSession \<Rightarrow> bool" where
  "tainted T s \<longleftrightarrow> session_shape s \<and> \<not> ss_corrupt_pending s \<and> arena_inv (ss_state s)
     \<and> st_tick (ss_state s) \<le> ss_rec_count s \<and> T < st_tick (ss_state s)
     \<and> (\<exists>h. ss_ring s ! ring_slot (T + 1) = (T + 1, h) \<and> h \<noteq> arena_hash (replayed s (unat (T + 1))))
     \<and> (\<forall>t h. (t, h) \<in> set (ss_ring s) \<longrightarrow> t \<noteq> 0 \<longrightarrow> t \<le> T \<longrightarrow> h = arena_hash (replayed s (unat t)))"

lemma taintedD:
  assumes "tainted T s"
  shows "session_shape s" "\<not> ss_corrupt_pending s" "arena_inv (ss_state s)" "st_tick (ss_state s) \<le> ss_rec_count s"
    "T < st_tick (ss_state s)"
    "\<exists>h. ss_ring s ! ring_slot (T + 1) = (T + 1, h) \<and> h \<noteq> arena_hash (replayed s (unat (T + 1)))"
    "(t, h) \<in> set (ss_ring s) \<Longrightarrow> t \<noteq> 0 \<Longrightarrow> t \<le> T \<Longrightarrow> h = arena_hash (replayed s (unat t))"
  using assms unfolding tainted_def by blast+

lemma early: "unat (t :: u32) < 36000 \<Longrightarrow> t < 0xFFFFFFFF \<and> unat (t + 1) = unat t + 1"
  using tick_succ [of t] by (simp add: word_less_nat_alt)

lemma ring_slot_apart:
  assumes "unat t < unat u" and "unat u < unat t + 256"
  shows "ring_slot u \<noteq> ring_slot t"
proof
  assume "ring_slot u = ring_slot t"
  then have "256 dvd unat u - unat t" using assms(1) by (simp add: ring_slot_mod mod_eq_dvd_iff_nat)
  then show False using assms by (auto dest: dvd_imp_le)
qed

lemma in_updated: "x \<in> set (xs[i := y]) \<Longrightarrow> x = y \<or> x \<in> set xs"
  using set_update_subset_insert [of xs i y] by blast

lemma tainted_step:
  assumes "tainted T s" and "length ins = 4" and "unat (st_tick (ss_state s)) < 36000"
    and "unat (st_tick (ss_state s)) < unat T + 256"
  shows "tainted T (advanced ins s)"
proof -
  let ?c = "st_tick (ss_state s)"
  note now = taintedD [OF assms(1)]
  note c = early [OF assms(3)]
  note shape = advanced_shape(1) [OF now(1) assms(2) conjunct1 [OF c]]
  have T: "unat T < unat ?c" using now(5) by (simp add: word_less_nat_alt)
  then have t: "unat (T + 1) = unat T + 1" using early [of T] assms(3) by simp
  have keep: "replayed (advanced ins s) n = replayed s n" if "n \<le> unat ?c" for n
    using advanced_replay(1) [OF now(1) that] .
  have apart: "ring_slot (?c + 1) \<noteq> ring_slot (T + 1)"
    using T t c assms(4) by (intro ring_slot_apart) simp_all
  obtain h where h: "ss_ring s ! ring_slot (T + 1) = (T + 1, h)" "h \<noteq> arena_hash (replayed s (unat (T + 1)))"
    using now(6) by blast
  have wrong: "ss_ring (advanced ins s) ! ring_slot (T + 1) = (T + 1, h)"
    "h \<noteq> arena_hash (replayed (advanced ins s) (unat (T + 1)))"
    using apart h keep [of "unat (T + 1)"] T t by (simp_all add: advanced_fields)
  have right: "k = arena_hash (replayed (advanced ins s) (unat t))"
    if k: "(t, k) \<in> set (ss_ring (advanced ins s))" "t \<noteq> 0" "t \<le> T" for t k
  proof -
    have le: "unat t \<le> unat T" using k(3) by (simp add: word_le_nat_alt)
    then have "t \<noteq> ?c + 1" using T c by auto
    then have "(t, k) \<in> set (ss_ring s)"
      using in_updated [OF k(1) [unfolded advanced_fields]] by simp
    then show ?thesis using now(7) [OF _ k(2,3)] keep [of "unat t"] le T by simp
  qed
  have count: "?c + 1 \<le> ss_rec_count (advanced ins s)"
    using assms(3) by (auto simp: advanced_fields not_less)
  have "tainted T (advanced ins s) = (session_shape (advanced ins s) \<and> T < ?c + 1)"
    unfolding tainted_def using count now(2) inv_arena_tick [OF now(3)] wrong right
    by (simp add: advanced_fields(1,4))
  then show ?thesis using shape T c by (simp add: word_less_nat_alt)
qed

definition spoiled :: "ArenaInput list \<Rightarrow> SyncSession \<Rightarrow> SyncSession" where
  "spoiled ins s = (let st = arena_tick ins (ss_state s); bad = st\<lparr>st_rng := st_rng st XOR 1\<rparr> in
     (advanced ins s)\<lparr>ss_state := bad,
        ss_ring := (ss_ring s)[ring_slot (st_tick (ss_state s) + 1) := (st_tick (ss_state s) + 1, arena_hash bad)]\<rparr>)"

lemma advance_spoiled:
  "\<not> ss_corrupt_pending s \<Longrightarrow> advance False inputs (sync_debug_corrupt s) = spoiled (tick_inputs inputs s) s"
  by (simp add: advance_def spoiled_def advanced_def sync_debug_corrupt_def tick_inputs_def corrupt_once_def
    record_inputs_def record_hash_def Let_def)

lemma tainted_first:
  assumes "log_ok M s" and "ss_rec_count s = st_tick (ss_state s)" and "length ins = 4"
    and "unat (st_tick (ss_state s)) < 36000"
  shows "tainted (st_tick (ss_state s)) (spoiled ins s)"
proof -
  let ?c = "st_tick (ss_state s)" and ?t = "spoiled ins s"
  note c = early [OF assms(4)] and shape = log_okD(1) [OF assms(1)]
  have len: "length (ss_ring s) = 256" using shape by (simp add: session_shape_def)
  have sh: "session_shape ?t"
    using advanced_shape(1) [OF shape assms(3) conjunct1 [OF c]] len
    by (simp add: spoiled_def session_shape_def Let_def)
  have rep: "replayed ?t = replayed (advanced ins s)"
    by (intro ext) (simp add: replayed_def first_state_def spoiled_def Let_def advanced_fields)
  have fields: "ss_rec_count ?t = ?c + 1" "st_tick (ss_state ?t) = ?c + 1" "\<not> ss_corrupt_pending ?t"
    using assms(2,4) c log_okD(2) [OF assms(1)]
    by (simp_all add: spoiled_def advanced_fields word_less_nat_alt Let_def)
  have inv: "arena_inv (ss_state ?t)"
    using inv_rng [OF inv_arena_tick [OF faithfulD(1) [OF log_okD(3) [OF assms(1)]]]] by (simp add: spoiled_def Let_def)
  have good: "replayed ?t (unat (?c + 1)) = arena_tick ins (ss_state s)"
    using advanced_replay(2) [OF shape assms(4), of ins] faithfulD(3) [OF log_okD(3) [OF assms(1)]] assms(4) c
    unfolding rep by simp
  have wrong: "\<exists>h. ss_ring ?t ! ring_slot (?c + 1) = (?c + 1, h) \<and> h \<noteq> arena_hash (replayed ?t (unat (?c + 1)))"
    unfolding good using ring_slot_bound [of "?c + 1"] len hash_sees_rng_bit [of "arena_tick ins (ss_state s)"]
    by (simp add: spoiled_def Let_def)
  have right: "h = arena_hash (replayed ?t (unat t))" if k: "(t, h) \<in> set (ss_ring ?t)" "t \<noteq> 0" "t \<le> ?c" for t h
  proof -
    have le: "unat t \<le> unat ?c" using k(3) by (simp add: word_le_nat_alt)
    then have "t \<noteq> ?c + 1" using c by auto
    then have "(t, h) \<in> set (ss_ring s)"
      using in_updated [of "(t, h)" "ss_ring s"] k(1) by (auto simp: spoiled_def Let_def)
    then show ?thesis
      using ring_entry [OF log_okD(4) [OF assms(1)] len _ k(2,3)] le assms(4) advanced_replay(1) [OF shape le, of ins]
      by (simp add: rep)
  qed
  have "?c < ?c + 1" using c by (simp add: word_less_nat_alt)
  then show ?thesis using sh fields(3) inv wrong right unfolding tainted_def fields(1,2) by blast
qed

text \<open>What the library asks while nothing is rolled back: saves, and advances with an input for every player.\<close>

definition fresh_event :: "nat \<Rightarrow> GekkoGameEvent \<Rightarrow> bool" where
  "fresh_event n e = (case e of GekkoSave \<Rightarrow> True | GekkoAdvance rolling ins \<Rightarrow> \<not> rolling \<and> length ins = n | _ \<Rightarrow> False)"

abbreviation advances :: "GekkoGameEvent list \<Rightarrow> nat" where
  "advances es \<equiv> length (filter (is_advance False) es)"

lemma is_advance_simps [simp]: "\<not> is_advance r GekkoSave" "is_advance r (GekkoAdvance q ins) \<longleftrightarrow> q = r"
  by (simp_all add: is_advance_def)

lemma fresh_cases:
  assumes "fresh_event n e"
  obtains "e = GekkoSave" | ins where "e = GekkoAdvance False ins" "length ins = n"
  using assms by (cases e) (auto simp: fresh_event_def)

lemma four_inputs: "session_shape s \<Longrightarrow> length ins = unat (ss_num_players s) \<Longrightarrow> length (tick_inputs ins s) = 4"
  by (simp add: session_shape_def tick_inputs_length)

text \<open>What is loaded afterwards was saved after the corruption: the states in the store descend from it.\<close>

definition tainted_store :: "u32 \<Rightarrow> SyncSession \<Rightarrow> store \<Rightarrow> bool" where
  "tainted_store T s M \<longleftrightarrow> (\<forall>t st. M t = Some st \<longrightarrow> arena_inv st \<and> T < st_tick st \<and> st_tick st \<le> ss_rec_count s
     \<and> st_arena_id st = st_arena_id (ss_state s))"

text \<open>The session after any number of the events.\<close>

abbreviation after_events :: "GekkoGameEvent list \<Rightarrow> SyncSession \<Rightarrow> SyncSession" where
  "after_events es s \<equiv> fst (game_events es s)"

abbreviation tick_of :: "SyncSession \<Rightarrow> nat" where
  "tick_of s \<equiv> unat (st_tick (ss_state s))"

lemma tainted_event:
  assumes "tainted T s" and "tainted_store T s M" and "legal_event e s M"
    and "tick_of (fst (game_event e s)) \<le> 36000" and "tick_of (fst (game_event e s)) \<le> unat T + 256"
  shows "tainted T (fst (game_event e s)) \<and> tainted_store T (fst (game_event e s)) (store_after e s M)"
proof (cases e)
  case GekkoSave
  then show ?thesis using assms(1,2) taintedD(3-5) [OF assms(1)] by (simp add: game_event_def tainted_store_def store_after_def)
next
  case (GekkoLoad st)
  then have "M (st_tick st) = Some st" using assms(3) by (simp add: legal_event_def)
  then have st: "arena_inv st" "T < st_tick st" "st_tick st \<le> ss_rec_count s" "st_arena_id st = st_arena_id (ss_state s)"
    using assms(2) unfolding tainted_store_def by blast+
  have "replayed (s\<lparr>ss_state := st\<rparr>) = replayed s" by (intro ext) (simp add: replayed_def first_state_def st(4))
  then have "tainted T (s\<lparr>ss_state := st\<rparr>)" using assms(1) st by (simp add: tainted_def session_shape_def)
  then show ?thesis using assms(2) st(4) by (simp add: GekkoLoad game_event_def tainted_store_def store_after_def)
next
  case (GekkoAdvance rolling ins)
  let ?s = "advanced (tick_inputs ins s) s"
  have eq: "fst (game_event e s) = ?s" by (simp add: GekkoAdvance game_event_def advance_clean [OF taintedD(2) [OF assms(1)]])
  have legal: "length ins = unat (ss_num_players s)" "st_tick (ss_state s) < 0xFFFFFFFF"
    using assms(3) by (simp_all add: GekkoAdvance legal_event_def)
  have "tick_of ?s = tick_of s + 1" using tick_succ [OF legal(2)] by (simp add: advanced_fields)
  then have room: "tick_of s < 36000" "tick_of s < unat T + 256" using assms(4,5) by (simp_all add: eq)
  have "ss_rec_count s \<le> ss_rec_count ?s" using early [OF room(1)] by (auto simp: advanced_fields not_less)
  then have "tainted_store T ?s M" using assms(2) order_trans unfolding tainted_store_def by (fastforce simp: advanced_fields)
  then show ?thesis
    using tainted_step [OF assms(1) four_inputs [OF taintedD(1) [OF assms(1)] legal(1)] room]
    unfolding eq by (simp add: GekkoAdvance store_after_def tainted_store_def restrict_map_def split: if_splits)
next
  case GekkoOtherGameEvent
  then show ?thesis using assms(1,2) by (simp add: game_event_def store_after_def)
qed

lemma after_Cons: "after_events (e # es) s = after_events es (fst (game_event e s))"
  by (simp add: case_prod_unfold Let_def)

lemma tainted_events:
  assumes "tainted T s" and "tainted_store T s M" and "legal_events es s M"
    and "\<forall>k \<le> length es. tick_of (after_events (take k es) s) \<le> min 36000 (unat T + 256)"
  shows "tainted T (after_events es s)"
  using assms
proof (induction es arbitrary: s M)
  case (Cons e es)
  have within: "tick_of (after_events (take k es) (fst (game_event e s))) \<le> min 36000 (unat T + 256)" if "k \<le> length es" for k
    using Cons.prems(4) that by (auto simp: after_Cons simp del: game_events.simps(2) dest!: spec [of _ "Suc k"])
  have "tainted T (fst (game_event e s)) \<and> tainted_store T (fst (game_event e s)) (store_after e s M)"
    using Cons.prems(3) within [of 0] by (intro tainted_event Cons.prems(1,2)) simp_all
  then show ?case
    unfolding after_Cons using Cons.prems(3) within by (intro Cons.IH) auto
qed simp

lemma corrupted_events:
  assumes "log_ok M s" and "ss_rec_count s = st_tick (ss_state s)" and "length ins = unat (ss_num_players s)"
    and "legal_events es (advance False ins (sync_debug_corrupt s)) Map.empty"
    and "\<forall>k \<le> length es. tick_of (after_events (take k es) (advance False ins (sync_debug_corrupt s))) \<le> min 36000 (tick_of s + 256)"
    and "tick_of s < 36000"
  shows "tainted (st_tick (ss_state s)) (after_events es (advance False ins (sync_debug_corrupt s)))"
proof -
  note eq = advance_spoiled [OF log_okD(2) [OF assms(1)], of ins]
  have "tainted (st_tick (ss_state s)) (advance False ins (sync_debug_corrupt s))"
    unfolding eq by (rule tainted_first [OF assms(1,2) four_inputs [OF log_okD(1) [OF assms(1)] assms(3)] assms(6)])
  then show ?thesis by (rule tainted_events [OF _ _ assms(4,5)]) (simp add: tainted_store_def)
qed

lemma tainted_report:
  assumes "tainted T s"
  shows "\<exists>h h' d. replay_bundle True True (Some (bundle_bytes s)) None
           = Report None (T + 1, h, h') None None (Some (True, d))"
proof -
  note now = taintedD [OF assms]
  have len: "length (ss_ring s) = 256" "unat (ss_rec_count s) \<le> 36000" using now(1) by (simp_all add: session_shape_def)
  have T: "unat T < unat (ss_rec_count s)" using now(4,5) by (simp add: word_less_nat_alt word_le_nat_alt)
  then have t: "unat (T + 1) = unat T + 1" using early [of T] len(2) by simp
  have next': "T + 1 \<noteq> 0" "T + 1 \<le> ss_rec_count s"
    using t T by (auto simp: word_le_nat_alt unat_eq_0 [symmetric] simp del: unat_eq_0)
  obtain b where b: "bundle_of s b" and r: "replay_bundle True True (Some (bundle_bytes s)) None = report_one b"
    using report_of_session [OF now(1,3)] by blast
  obtain h where h: "ss_ring s ! ring_slot (T + 1) = (T + 1, h)" "h \<noteq> arena_hash (replayed s (unat (T + 1)))"
    using now(6) by blast
  have "(T + 1, h) \<in> set (ss_ring s)" using h(1) nth_mem [of "ring_slot (T + 1)" "ss_ring s"] ring_slot_bound len(1) by metis
  moreover have "h \<noteq> replay b ! unat (T + 1)" using h(2) replay_nth [OF b now(1) next'] by simp
  moreover have "h' = replay b ! unat t'" if "(t', h') \<in> set (ss_ring s)" "t' \<noteq> 0" "t' < T + 1" for t' h'
  proof -
    have "t' \<le> T" using that(3) t by (simp add: word_le_nat_alt word_less_nat_alt)
    moreover have "t' \<le> ss_rec_count s" using that(3) next'(2) by simp
    ultimately show ?thesis using now(7) [OF that(1,2)] replay_nth [OF b now(1) that(2)] by simp
  qed
  ultimately have "fst (first_divergence b (replay b)) = T + 1"
    unfolding first_divergence_def using b next' by (intro divergence_least) (auto simp: bundle_of_def)
  then obtain k k' where "first_divergence b (replay b) = (T + 1, k, k')" by (metis prod.collapse)
  then show ?thesis using next'(1) by (simp add: r report_one_def)
qed

section \<open>Past the record\<close>

text \<open>After 36000 ticks an advance records no inputs, only the hash.\<close>

lemma advance_late:
  assumes "session_shape s" and "arena_inv (ss_state s)" and "36000 \<le> unat (st_tick (ss_state s))"
  shows "session_shape (advance r ins s)" and "arena_inv (ss_state (advance r ins s))"
    and "st_tick (ss_state (advance r ins s)) = st_tick (ss_state s) + 1"
    and "ss_num_players (advance r ins s) = ss_num_players s"
    and "\<exists>h. ss_ring (advance r ins s)
        = (ss_ring s)[ring_slot (st_tick (ss_state s) + 1) := (st_tick (ss_state s) + 1, h)]"
proof -
  have *: "advance r ins s = record_hash (corrupt_once r (s\<lparr>ss_state := arena_tick (tick_inputs ins s) (ss_state s)\<rparr>))"
    using assms(3) by (simp add: advance_def record_inputs_def BUNDLE_MAX_TICKS_def Let_def)
  show "session_shape (advance r ins s)" "arena_inv (ss_state (advance r ins s))"
    "st_tick (ss_state (advance r ins s)) = st_tick (ss_state s) + 1" "ss_num_players (advance r ins s) = ss_num_players s"
    "\<exists>h. ss_ring (advance r ins s) = (ss_ring s)[ring_slot (st_tick (ss_state s) + 1) := (st_tick (ss_state s) + 1, h)]"
    using assms(1) inv_arena_tick [OF assms(2)] inv_rng [OF inv_arena_tick [OF assms(2)]]
    by (auto simp: * record_hash_def corrupt_once_def session_shape_def Let_def)
qed

definition ring_late :: "nat \<Rightarrow> nat \<Rightarrow> SyncSession \<Rightarrow> bool" where
  "ring_late T m s \<longleftrightarrow> session_shape s \<and> arena_inv (ss_state s) \<and> unat (st_tick (ss_state s)) = T + m
     \<and> (\<forall>j. 1 \<le> j \<longrightarrow> j \<le> m \<longrightarrow> 36000 < unat (fst (ss_ring s ! ((T + j) mod 256))))"

lemma ring_late_step:
  assumes "ring_late T m s" and "36000 \<le> T" and "T + m < 2 ^ 32 - 1"
  shows "ring_late T (Suc m) (advance r ins s)"
proof -
  have s: "session_shape s" "arena_inv (ss_state s)" "unat (st_tick (ss_state s)) = T + m" using assms(1) by (simp_all add: ring_late_def)
  note a = advance_late [OF s(1,2), of r ins]
  have t: "unat (st_tick (ss_state s) + 1) = Suc (T + m)"
    using tick_succ [of "st_tick (ss_state s)"] s(3) assms(3) by (simp add: word_less_nat_alt)
  obtain h where ring: "ss_ring (advance r ins s)
      = (ss_ring s)[ring_slot (st_tick (ss_state s) + 1) := (st_tick (ss_state s) + 1, h)]"
    using a(5) s(3) assms(2) by auto
  have len: "length (ss_ring s) = 256" using s(1) by (simp add: session_shape_def)
  have "36000 < unat (fst (ss_ring (advance r ins s) ! ((T + j) mod 256)))" if j: "1 \<le> j" "j \<le> Suc m" for j
  proof (cases "(T + j) mod 256 = ring_slot (st_tick (ss_state s) + 1)")
    case True
    then show ?thesis using len t assms(2) ring_slot_bound by (simp add: ring)
  next
    case False
    then have "j \<le> m" using j(2) t by (auto simp: ring_slot_mod le_Suc_eq)
    then show ?thesis using False assms(1) j(1) by (simp add: ring ring_late_def)
  qed
  then show ?thesis using a s(3) assms(2) t by (simp add: ring_late_def)
qed

lemma ring_late_events:
  "ring_late T m s \<Longrightarrow> 36000 \<le> T \<Longrightarrow> list_all (fresh_event n) es \<Longrightarrow> T + m + advances es < 2 ^ 32 \<Longrightarrow>
     ring_late T (m + advances es) (fst (game_events es s))"
proof (induction es arbitrary: s m)
  case (Cons e es)
  have "fresh_event n e" using Cons.prems(3) by simp
  then show ?case
  proof (cases rule: fresh_cases)
    case 1
    then show ?thesis using Cons.prems Cons.IH by (simp add: 1 game_event_def case_prod_unfold Let_def)
  next
    case (2 ins)
    have "ring_late T (Suc m) (advance False ins s)"
      using Cons.prems(1,2,4) by (intro ring_late_step) (simp_all add: 2)
    then have "ring_late T (Suc m + advances es) (fst (game_events es (advance False ins s)))"
      using Cons.prems(2-4) by (intro Cons.IH) (simp_all add: 2)
    then show ?thesis by (simp add: 2 game_event_def case_prod_unfold Let_def)
  qed
qed simp

lemma slots_covered:
  assumes "k < 256"
  shows "\<exists>j. 1 \<le> j \<and> j \<le> 256 \<and> (T + j) mod 256 = (k :: nat)"
proof -
  define r q where "r = T mod 256" and "q = T div 256"
  then have r: "r < 256" "T = q * 256 + r" by (simp_all add: mult.commute)
  have "(T + (if r < k then k - r else k + 256 - r)) mod 256 = k"
  proof (cases "r < k")
    case True
    then have "T + (k - r) = k + q * 256" using r(2) by simp
    then show ?thesis using True assms by simp
  next
    case False
    then have "T + (k + 256 - r) = k + (q + 1) * 256" using r by simp
    then show ?thesis using False assms by (simp only: if_False mod_mult_self1 mod_less)
  qed
  then show ?thesis using r(1) assms by (intro exI [of _ "if r < k then k - r else k + 256 - r"]) auto
qed

lemma late_report:
  assumes "ring_late T m s" and "256 \<le> m"
  shows "replay_bundle True True (Some (bundle_bytes s)) None = Report None (0, 0, 0) None None None"
proof -
  have s: "session_shape s" "arena_inv (ss_state s)" using assms(1) by (simp_all add: ring_late_def)
  have len: "length (ss_ring s) = 256" "unat (ss_rec_count s) \<le> 36000" using s(1) by (simp_all add: session_shape_def)
  obtain b where b: "bundle_of s b" and r: "replay_bundle True True (Some (bundle_bytes s)) None = report_one b"
    using report_of_session [OF s] by blast
  have "ss_rec_count s < t" if here: "(t, h) \<in> set (ss_ring s)" for t h
  proof -
    obtain k where k: "k < 256" "ss_ring s ! k = (t, h)" using here len(1) by (metis in_set_conv_nth)
    obtain j where j: "1 \<le> j" "j \<le> 256" "(T + j) mod 256 = k" using slots_covered [OF k(1)] by blast
    have "36000 < unat (fst (ss_ring s ! ((T + j) mod 256)))"
      using assms(1) j(1) order_trans [OF j(2) assms(2)] unfolding ring_late_def by blast
    then show ?thesis using len(2) by (simp add: j(3) k(2) word_less_nat_alt)
  qed
  then have "first_divergence b (replay b) = (0, 0, 0)"
    unfolding first_divergence_def using b by (intro divergence_quiet) (auto simp: bundle_of_def)
  then show ?thesis by (simp add: r report_one_def)
qed

lemma honest_reaches:
  "n < 2 ^ 32 \<Longrightarrow> \<exists>M s. honest M s \<and> unat (st_tick (ss_state s)) = n \<and> ss_num_players s = 2"
proof (induction n)
  case 0
  then show ?case using example_begin_honest example_begin_fields by (metis unat_0)
next
  case (Suc n)
  then obtain M s where s: "honest M s" "unat (st_tick (ss_state s)) = n" "ss_num_players s = 2" by auto
  have t: "st_tick (ss_state s) < 0xFFFFFFFF" "unat (st_tick (ss_state s) + 1) = Suc n"
    using Suc.prems s(2) tick_succ [of "st_tick (ss_state s)"] by (simp_all add: word_less_nat_alt)
  obtain fresh s' calls saved where f: "sync_frame [] [GekkoAdvance False [0, 0]] [] s = (fresh, s', calls, saved)"
    by (metis prod.collapse)
  have "legal_events [GekkoAdvance False [0, 0]] (fold session_event [] s) M"
    using t s(3) by (simp add: legal_event_def)
  from honest_frame [OF s(1) this f] obtain M' where "honest M' s'" by blast
  moreover have "same_log (advanced (tick_inputs [0, 0] s) s) s'"
    using frame_state [OF f] log_okD(2) [OF honest_log [OF s(1)]]
    by (simp add: game_event_def advance_clean case_prod_unfold Let_def)
  ultimately have "honest M' s' \<and> unat (st_tick (ss_state s')) = Suc n \<and> ss_num_players s' = 2"
    using t(2) s(3) by (simp add: same_log_def advanced_fields)
  then show ?case by blast
qed

section \<open>Properties\<close>

text \<open>C33: The bundle of a session reads back: the tool loads the bytes \<open>sync_dump_bundle\<close> wrote, and the
  seed, the players, the ring, the image of the state and every recorded input are the session's.\<close>

theorem bundle_round_trip:
  assumes "honest M s"
  shows "\<exists>b. bundle_load True (Some (bundle_bytes s)) = Inr b \<and> bh_seed (bd_h b) = ss_seed s
    \<and> bh_num_players (bd_h b) = ss_num_players s \<and> bh_arena_id (bd_h b) = st_arena_id (ss_state s)
    \<and> bh_net_version (bd_h b) = arena_net_version \<and> bd_ring b = ss_ring s \<and> bd_snap b = arena_bytes (ss_state s)
    \<and> bd_rec b = take (unat (ss_rec_count s)) (ss_rec s)"
proof -
  note ok = honest_log [OF assms]
  show ?thesis
    using bundle_reads_back [OF log_okD(1) [OF ok] faithfulD(1) [OF log_okD(3) [OF ok]]] by (auto simp: bundle_of_def)
qed

theorem bundle_round_trip_witness:
  "\<exists>b. bundle_load True (Some (bundle_bytes example_session)) = Inr b \<and> bd_ring b = ss_ring example_session"
proof -
  obtain M where M: "honest M example_session" using example_session_honest by blast
  from bundle_round_trip [OF M] show ?thesis by blast
qed

text \<open>C7: No false alarm: after any frames, rollbacks included, the bundle of a session whose
  simulation did what its inputs say is reported CONSISTENT (unless it stands rolled back behind its record).\<close>

theorem honest_bundle_is_consistent:
  assumes "honest M s" and "ss_rec_count s \<le> sync_present_tick s"
  shows "replay_bundle True True (Some (bundle_bytes s)) None = Report None (0, 0, 0) None None None"
  using consistent_report [OF honest_log [OF assms(1)]] assms(2) by (simp add: sync_present_tick_def)

theorem honest_bundle_is_consistent_witness:
  "replay_bundle True True (Some (bundle_bytes example_session)) None = Report None (0, 0, 0) None None None"
proof -
  obtain M where M: "honest M example_session" using example_session_honest by blast
  have "ss_rec_count example_session \<le> sync_present_tick example_session"
    using example_session_count by (simp add: sync_present_tick_def example_session_tick)
  then show ?thesis by (rule honest_bundle_is_consistent [OF M])
qed

text \<open>C6: A corrupted state is found: when the state is corrupted in the tick that follows \<open>s\<close>, the tool names exactly that
  tick from the bundle of the session as it stands after any legal events, rollbacks among them, as
  long as these load only what was saved after the corruption and stay within 256 ticks of it, the size of the
  hash ring, and within the ten minutes of the record.  (A rollback to an earlier state simulates the
  corrupted tick anew and leaves nothing to find: \<open>rollback_erases_corruption\<close>.)\<close>

theorem corruption_is_found_at_its_tick:
  assumes "honest M s" and "ss_rec_count s = sync_present_tick s" and "unat (sync_present_tick s) < 36000"
    and "length ins = unat (ss_num_players s)" and "s1 = advance False ins (sync_debug_corrupt s)"
    and "legal_events es s1 Map.empty"
    and "\<forall>k \<le> length es. unat (sync_present_tick (after_events (take k es) s1)) \<le> min 36000 (unat (sync_present_tick s) + 256)"
  shows "\<exists>h h' d. replay_bundle True True (Some (bundle_bytes (after_events es s1))) None
    = Report None (sync_present_tick s + 1, h, h') None None (Some (True, d))"
  using tainted_report [OF corrupted_events [OF honest_log [OF assms(1)] _ assms(4)]] assms
  by (simp add: sync_present_tick_def)

text \<open>Two ticks after the corruption the session is rolled back to the state saved just after it.\<close>

theorem corruption_is_found_at_its_tick_witness:
  "\<exists>st h h' d. replay_bundle True True (Some (bundle_bytes (after_events
      [GekkoSave, GekkoAdvance False [1, 0], GekkoLoad st, GekkoAdvance True [2, 0]]
      (advance False [0, 0] (sync_debug_corrupt example_begin))))) None
    = Report None (1, h, h') None None (Some (True, d))"
proof -
  define s1 where "s1 = advance False [0, 0] (sync_debug_corrupt example_begin)"
  define es where "es = [GekkoSave, GekkoAdvance False [1, 0], GekkoLoad (ss_state s1), GekkoAdvance True [2, 0]]"
  have tick: "st_tick (ss_state (advance r ins s)) = st_tick (ss_state s) + 1" "ss_num_players (advance r ins s) = ss_num_players s"
    for r ins s
    by (simp_all add: advance_def record_hash_def corrupt_once_def record_inputs_def Let_def)
  have s1: "st_tick (ss_state s1) = 1" "ss_num_players s1 = 2"
    using example_begin_fields by (simp_all add: s1_def tick sync_debug_corrupt_def)
  have "legal_events es s1 Map.empty"
    by (simp add: es_def legal_event_def store_after_def game_event_def tick s1)
  moreover have "\<forall>k \<le> length es. unat (sync_present_tick (after_events (take k es) s1)) \<le> min 36000 (unat (sync_present_tick example_begin) + 256)"
    using example_begin_fields
    by (auto simp: es_def sync_present_tick_def game_event_def tick s1 le_Suc_eq Let_def)
  ultimately show ?thesis
    using corruption_is_found_at_its_tick [OF example_begin_honest _ _ _ s1_def, of es] example_begin_fields example_begin_count
    by (auto simp: sync_present_tick_def es_def s1_def)
qed

text \<open>A rollback behind the corrupted tick erases the corruption: the session is the one that was never corrupted.\<close>

theorem rollback_erases_corruption:
  assumes "\<not> ss_corrupt_pending s" and "unat (sync_present_tick s) < 36000"
  shows "after_events [GekkoAdvance False ins, GekkoLoad (ss_state s), GekkoAdvance True ins'] (sync_debug_corrupt s)
    = after_events [GekkoAdvance False ins'] s"
  using assms early [of "sync_present_tick s"]
  by (simp add: game_event_def advance_def record_hash_def corrupt_once_def record_inputs_def sync_debug_corrupt_def
      tick_inputs_def sync_present_tick_def BUNDLE_MAX_TICKS_def Let_def)

text \<open>After ten minutes the tool is blind: a session corrupted at tick 36000 or later is reported
  CONSISTENT once 256 more ticks have run, because every entry of the ring lies past the record.\<close>

theorem late_desync_looks_consistent:
  assumes "honest M s" and "36000 \<le> unat (sync_present_tick s)"
    and "list_all (fresh_event (unat (ss_num_players s))) es" and "256 \<le> advances es"
    and "unat (sync_present_tick s) + advances es < 2 ^ 32"
  shows "replay_bundle True True (Some (bundle_bytes (fst (game_events es (sync_debug_corrupt s))))) None
    = Report None (0, 0, 0) None None None"
proof -
  note ok = honest_log [OF assms(1)]
  have "ring_late (unat (sync_present_tick s)) 0 (sync_debug_corrupt s)"
    using log_okD(1) [OF ok] faithfulD(1) [OF log_okD(3) [OF ok]]
    by (simp add: ring_late_def sync_debug_corrupt_def session_shape_def sync_present_tick_def)
  from ring_late_events [OF this assms(2,3)] show ?thesis
    using assms(4,5) by (intro late_report) simp_all
qed

theorem late_desync_looks_consistent_witness:
  "\<exists>M s. honest M s \<and> unat (sync_present_tick s) = 36000
    \<and> replay_bundle True True (Some (bundle_bytes (fst (game_events (replicate 256 (GekkoAdvance False [0, 0]))
        (sync_debug_corrupt s))))) None = Report None (0, 0, 0) None None None"
proof -
  obtain M s where s: "honest M s" "unat (st_tick (ss_state s)) = 36000" "ss_num_players s = 2"
    using honest_reaches [of 36000] by auto
  have "advances (replicate 256 (GekkoAdvance False [0, 0])) = 256" by simp
  then show ?thesis
    using late_desync_looks_consistent [OF s(1), of "replicate 256 (GekkoAdvance False [0, 0])"] s
    by (auto simp: sync_present_tick_def fresh_event_def list_all_iff)
qed

end
