(* ===== verification/Viewer_Match.thy ===== *)
theory Viewer_Match
  imports Match_Link Replay_Props
begin

text \<open>
  The part of the viewer that runs a match (\<open>src/tools/viewer/viewer_main.c\<close>): from the lobby's
  result to the adapter and the session, and the frame loop around \<open>sync_frame\<close>.  Outside the model
  and arguments here: what SDL reports (events, gamepads, keyboard), how the camera turns a stick
  (floating point), how many ticks the clock grants a frame, what GekkoNet answers, whether
  allocations and files succeed.  Drawing and the keys of the clock and the camera are in \<open>Viewer_Frame\<close>, the
  sticks in \<open>Viewer_Input\<close>, the command line and the lobby loop in \<open>Viewer_Start\<close>.
  \<open>None\<close> is the exit of the process with code 1.
\<close>

section \<open>Gamepads and inputs\<close>

text \<open>The joystick in each of the four seats.\<close>

type_synonym Pads = "nat option list"

text \<open>A gamepad that cannot be opened leaves its seat empty.\<close>

definition pads_add :: "bool \<Rightarrow> nat \<Rightarrow> Pads \<Rightarrow> Pads" where
  "pads_add opened joy p = (case find_index (\<lambda>x. x = None) p of
       None \<Rightarrow> p | Some i \<Rightarrow> p[i := if opened then Some joy else None])"

definition pads_remove :: "nat \<Rightarrow> Pads \<Rightarrow> Pads" where
  "pads_remove joy p = (case find_index (\<lambda>x. x = Some joy) p of None \<Rightarrow> p | Some i \<Rightarrow> p[i := None])"

definition keyboard_player :: "Pads \<Rightarrow> nat option" where
  "keyboard_player p = find_index (\<lambda>x. x = None) p"

text \<open>Stick after the camera, jump, bomb, set: of a gamepad and of the keyboard.\<close>

type_synonym Reading = "int \<times> int \<times> bool \<times> bool \<times> bool"

record Devices =
  dv_pad :: "nat \<Rightarrow> Reading"
  dv_keys :: Reading

definition read_input :: "Devices \<Rightarrow> Pads \<Rightarrow> nat \<Rightarrow> ArenaInput" where
  "read_input dv pads i =
     (let (sx, sy, jump, bomb, set) =
        (if pads ! i \<noteq> None then dv_pad dv (the (pads ! i))
         else if keyboard_player pads = Some i then dv_keys dv
         else (0, 0, False, False, False))
      in arena_input_pack sx sy jump bomb set)"

definition wanted_players :: "Pads \<Rightarrow> nat" where
  "wanted_players p =
     (let devices = length (filter (\<lambda>x. x \<noteq> None) p) + (if keyboard_player p \<noteq> None then 1 else 0)
      in if devices < 2 then 2 else devices)"

section \<open>Sessions\<close>

text \<open>Whether the allocations and \<open>gekko_create\<close> succeed, and the handles of the actors.\<close>

record Host =
  ho_memory :: bool
  ho_gekko :: bool
  ho_handle :: "nat \<Rightarrow> int"

definition new_session :: "Host \<Rightarrow> SyncConfig \<Rightarrow> SyncSession option" where
  "new_session ho cfg = map_option fst (sync_create (ho_memory ho) (ho_gekko ho) (ho_handle ho) (Some cfg))"

definition couch_config :: "int \<Rightarrow> u32 \<Rightarrow> SyncConfig" where
  "couch_config players seed =
     (let n = (of_int (if players < 2 then 2 else players) :: u8) in
      \<lparr>cf_mode = SYNC_COUCH, cf_num_players = n, cf_local_mask = ucast (push_bit (unat n) (1 :: u32) - 1),
       cf_local_port = 0, cf_peer_addr = [], cf_seed = seed, cf_arena_id = 0, cf_input_delay = 0, cf_adapter = False\<rparr>)"

definition make_couch :: "Host \<Rightarrow> int \<Rightarrow> u32 \<Rightarrow> SyncSession option" where
  "make_couch ho players seed = new_session ho (couch_config players seed)"

definition online_config :: "LobbyResult \<Rightarrow> SyncConfig" where
  "online_config lr =
     \<lparr>cf_mode = SYNC_ONLINE, cf_num_players = lr_num_players lr,
      cf_local_mask = ucast (push_bit (unat (lr_local_slot lr)) (1 :: u32)),
      cf_local_port = 0, cf_peer_addr = [], cf_seed = lr_seed lr, cf_arena_id = lr_arena_id lr,
      cf_input_delay = lr_input_delay lr, cf_adapter = True\<rparr>"

definition wire_routes :: "LobbyResult \<Rightarrow> NetAdapter \<Rightarrow> NetAdapter" where
  "wire_routes lr g =
     fold (\<lambda>i g. if i \<noteq> unat (lr_local_slot lr) then net_adapter_set_route (of_nat i) (lr_route lr ! i) g else g)
       [0..<unat (lr_num_players lr)] g"

definition online_match :: "Host \<Rightarrow> LobbyClient \<Rightarrow> NetAdapter \<Rightarrow> (NetAdapter \<times> SyncSession \<times> nat) option" where
  "online_match ho lc g0 = (case lobby_result lc of None \<Rightarrow> None | Some lr \<Rightarrow>
     (case net_adapter_init (lr_session_id lr) (lr_local_slot lr) g0 of None \<Rightarrow> None | Some g \<Rightarrow>
      (let g = net_adapter_set_relay (lr_server lr) (wire_routes lr g) in
       case new_session ho (online_config lr) of None \<Rightarrow> None
       | Some s \<Rightarrow> Some (g, s, unat (lr_local_slot lr)))))"

section \<open>State of the loop\<close>

record Viewer =
  vw_smoke :: bool
  vw_online :: bool
  vw_state :: ArenaState
  vw_session :: SyncSession
  vw_seed :: u32
  vw_local :: nat
  vw_inject :: int
  vw_latched :: bool
  vw_allow_sd :: bool
  vw_running :: bool
  vw_pads :: Pads
  vw_target :: nat
  vw_frame :: int
  vw_limit :: int
  vw_lobby :: LobbyClient
  vw_adapter :: NetAdapter

text \<open>What is shown: the smoke run's own state, or the session's.\<close>

definition shown :: "Viewer \<Rightarrow> ArenaState" where
  "shown v = (if vw_smoke v then vw_state v else ss_state (vw_session v))"

abbreviation couch :: "Viewer \<Rightarrow> bool" where
  "couch v \<equiv> \<not> vw_smoke v \<and> \<not> vw_online v"

section \<open>Events\<close>

text \<open>The events that touch the match.  \<open>EvRestart\<close> carries whether shift is held.  The loop keeps the
  pointer \<open>rs\<close> into the session's state; a restart frees the session first and then reads the number
  of players through it, and so does a later \<open>EvTab\<close> of the same frame.  The byte such an event
  carries is what it reads from freed memory.\<close>

datatype ViewerEvent =
    EvQuit | EvPadAdded nat bool | EvPadRemoved nat | EvEscape | EvTab u8 | EvSuddenDeath | EvRestart bool u8 | EvOther

definition restart :: "Host \<Rightarrow> bool \<Rightarrow> u8 \<Rightarrow> Viewer \<Rightarrow> Viewer option" where
  "restart ho shift freed v =
     (let seed = (if shift then vw_seed v * 1664525 + 1013904223 else vw_seed v) in
      case make_couch ho (uint freed) seed of None \<Rightarrow> None
      | Some s \<Rightarrow> Some (v\<lparr>vw_seed := seed, vw_session := s\<rparr>))"

text \<open>The flag says that \<open>rs\<close> is stale; a remainder by zero ends the process.\<close>

definition viewer_event :: "Host \<Rightarrow> ViewerEvent \<Rightarrow> bool \<times> Viewer \<Rightarrow> (bool \<times> Viewer) option" where
  "viewer_event ho e = (\<lambda>(stale, v). case e of
       EvQuit \<Rightarrow> Some (stale, v\<lparr>vw_running := False\<rparr>)
     | EvPadAdded joy opened \<Rightarrow> Some (stale, v\<lparr>vw_pads := pads_add opened joy (vw_pads v)\<rparr>)
     | EvPadRemoved joy \<Rightarrow> Some (stale, v\<lparr>vw_pads := pads_remove joy (vw_pads v)\<rparr>)
     | EvEscape \<Rightarrow> Some (stale, v\<lparr>vw_running := False\<rparr>)
     | EvTab freed \<Rightarrow>
         (let n = unat (if stale then freed else st_num_players (shown v)) in
          if n = 0 then None else Some (stale, v\<lparr>vw_target := (vw_target v + 1) mod n\<rparr>))
     | EvSuddenDeath \<Rightarrow> Some (stale, v\<lparr>vw_allow_sd := \<not> vw_allow_sd v\<rparr>)
     | EvRestart shift freed \<Rightarrow>
         (if couch v then map_option (Pair True) (restart ho shift freed v) else Some (stale, v))
     | EvOther \<Rightarrow> Some (stale, v))"

fun viewer_events :: "Host \<Rightarrow> ViewerEvent list \<Rightarrow> bool \<times> Viewer \<Rightarrow> (bool \<times> Viewer) option" where
  "viewer_events ho [] sv = Some sv"
| "viewer_events ho (e # es) sv = (case viewer_event ho e sv of None \<Rightarrow> None | Some sv \<Rightarrow> viewer_events ho es sv)"

section \<open>One frame\<close>

text \<open>Couch: the players follow the devices, and a change starts a new session.\<close>

definition couch_resize :: "Host \<Rightarrow> Viewer \<Rightarrow> Viewer option" where
  "couch_resize ho v =
     (if couch v \<and> wanted_players (vw_pads v) \<noteq> unat (st_num_players (shown v))
      then (case make_couch ho (int (wanted_players (vw_pads v))) (vw_seed v) of None \<Rightarrow> None
            | Some s \<Rightarrow> Some (v\<lparr>vw_session := s\<rparr>))
      else Some v)"

definition inject_now :: "Viewer \<Rightarrow> Viewer" where
  "inject_now v =
     (if 0 \<le> vw_inject v \<and> vw_inject v \<le> sint (sync_present_tick (vw_session v))
      then v\<lparr>vw_session := sync_debug_corrupt (vw_session v), vw_inject := - 1\<rparr> else v)"

text \<open>Online: answer late lobby packets, inject the test corruption, and stop at the first desync with
  a bundle, which is the second component when its file can be opened.\<close>

definition online_watch :: "bool \<Rightarrow> Viewer \<Rightarrow> Viewer \<times> u8 list option \<times> Packet list" where
  "online_watch opened v =
     (if \<not> vw_online v then (v, None, [])
      else (let (g, out) = lobby_post_poll (vw_lobby v) (vw_adapter v);
                v = inject_now (v\<lparr>vw_adapter := g\<rparr>)
            in if ss_desynced (vw_session v) \<and> \<not> vw_latched v
               then (v\<lparr>vw_latched := True\<rparr>, if opened then Some (bundle_bytes (vw_session v)) else None, out)
               else (v, None, out)))"

definition frame_inputs :: "Devices \<Rightarrow> Viewer \<Rightarrow> ArenaInput list" where
  "frame_inputs dv v =
     (if vw_online v then (replicate ARENA_MAX_PLAYERS 0)[vw_local v := read_input dv (vw_pads v) 0]
      else fold (\<lambda>i ins. ins[i := read_input dv (vw_pads v) i]) [0..<unat (st_num_players (shown v))]
             (replicate ARENA_MAX_PLAYERS 0))"

text \<open>A tick of the frame with what the library answers in it.\<close>

definition viewer_tick :: "Devices \<Rightarrow> GekkoSessionEvent list \<times> GekkoGameEvent list \<Rightarrow> Viewer \<Rightarrow> Viewer" where
  "viewer_tick dv = (\<lambda>(sev, gev) v.
     if vw_smoke v then v\<lparr>vw_state := arena_tick (replicate ARENA_MAX_PLAYERS 0) (vw_state v)\<rparr>
     else (let (fresh, s, calls, saved) = sync_frame sev gev (frame_inputs dv v) (vw_session v) in v\<lparr>vw_session := s\<rparr>))"

definition viewer_ticks :: "Devices \<Rightarrow> (GekkoSessionEvent list \<times> GekkoGameEvent list) list \<Rightarrow> Viewer \<Rightarrow> Viewer" where
  "viewer_ticks dv replies v = (if vw_latched v then v else fold (viewer_tick dv) replies v)"

text \<open>Couch: the walls are held open by undoing sudden death after the ticks.\<close>

definition hold_walls_open :: "Viewer \<Rightarrow> Viewer" where
  "hold_walls_open v =
     (if \<not> couch v then v
      else (case sync_state_debug_mut (vw_session v) of None \<Rightarrow> v
            | Some s \<Rightarrow>
                if \<not> vw_allow_sd v \<and> st_phase s = PHASE_SUDDEN_DEATH
                then v\<lparr>vw_session := (vw_session v)\<lparr>ss_state :=
                       s\<lparr>st_phase := PHASE_PLAY, st_phase_timer := 0, st_shrink_step := 0\<rparr>\<rparr>\<rparr>
                else v))"

definition keep_target :: "Viewer \<Rightarrow> Viewer" where
  "keep_target v = (if unat (st_num_players (shown v)) \<le> vw_target v then v\<lparr>vw_target := 0\<rparr> else v)"

definition count_frame :: "Viewer \<Rightarrow> Viewer" where
  "count_frame v =
     (let f = vw_frame v + 1
      in v\<lparr>vw_frame := f, vw_running := (vw_running v \<and> \<not> (0 \<le> vw_limit v \<and> vw_limit v \<le> f))\<rparr>)"

definition viewer_frame ::
  "Host \<Rightarrow> ViewerEvent list \<Rightarrow> bool \<Rightarrow> Devices \<Rightarrow> (GekkoSessionEvent list \<times> GekkoGameEvent list) list
     \<Rightarrow> Viewer \<Rightarrow> (Viewer \<times> u8 list option \<times> Packet list) option" where
  "viewer_frame ho evs opened dv replies v =
     (case viewer_events ho evs (False, v) of None \<Rightarrow> None | Some (stale, v) \<Rightarrow>
      (case couch_resize ho v of None \<Rightarrow> None | Some v \<Rightarrow>
       (let (v, bundle, out) = online_watch opened v;
            v = count_frame (keep_target (hold_walls_open (viewer_ticks dv replies v)))
        in Some (v, bundle, out))))"

text \<open>The loop over its frames, with the bundles it leaves behind.\<close>

type_synonym Frame =
  "ViewerEvent list \<times> bool \<times> Devices \<times> (GekkoSessionEvent list \<times> GekkoGameEvent list) list"

fun viewer_run :: "Host \<Rightarrow> Frame list \<Rightarrow> Viewer \<Rightarrow> (Viewer \<times> u8 list list) option" where
  "viewer_run ho [] v = Some (v, [])"
| "viewer_run ho ((evs, opened, dv, replies) # fs) v =
     (if \<not> vw_running v then Some (v, [])
      else (case viewer_frame ho evs opened dv replies v of None \<Rightarrow> None
            | Some (v, bundle, out) \<Rightarrow> map_option (apsnd ((@) (case bundle of None \<Rightarrow> [] | Some b \<Rightarrow> [b]))) (viewer_run ho fs v)))"

text \<open>The start of a run without a network: the smoke run keeps its own state and has no session.\<close>

definition viewer_blank :: "u32 \<Rightarrow> int \<Rightarrow> SyncSession \<Rightarrow> Viewer" where
  "viewer_blank seed limit s =
     \<lparr>vw_smoke = (0 \<le> limit), vw_online = False, vw_state = arena_init 0 2 seed, vw_session = s, vw_seed = seed,
      vw_local = 0, vw_inject = - 1, vw_latched = False, vw_allow_sd = False, vw_running = True,
      vw_pads = replicate ARENA_MAX_PLAYERS None, vw_target = 0, vw_frame = 0, vw_limit = limit,
      vw_lobby = client_init 0 0, vw_adapter = adapter_zero\<rparr>"

text \<open>The session of a smoke run stands for the null pointer; nothing reads it.\<close>

definition viewer_smoke :: "u32 \<Rightarrow> nat \<Rightarrow> Viewer" where
  "viewer_smoke seed limit = viewer_blank seed (int limit) (sync_blank (couch_config 2 seed))"

definition viewer_couch :: "Host \<Rightarrow> u32 \<Rightarrow> Viewer option" where
  "viewer_couch ho seed = map_option (viewer_blank seed (- 1)) (make_couch ho 2 seed)"

definition viewer_online :: "Host \<Rightarrow> u32 \<Rightarrow> int \<Rightarrow> LobbyClient \<Rightarrow> NetAdapter \<Rightarrow> Viewer option" where
  "viewer_online ho seed inject lc g0 = (case online_match ho lc g0 of None \<Rightarrow> None
     | Some (g, s, slot) \<Rightarrow> Some ((viewer_blank seed (- 1) s)
         \<lparr>vw_online := True, vw_local := slot, vw_inject := inject, vw_lobby := lc, vw_adapter := g\<rparr>))"

end
