(* ===== verification/Viewer_Props.thy ===== *)
theory Viewer_Props
  imports Viewer_Match
begin

text \<open>
  The viewer's match: what the lobby agreed on is what the adapter and the session run, a desync stops
  it for good with one bundle, and where the program trusts what it should not.
\<close>

section \<open>From the lobby to the match\<close>

lemma set_route_fields:
  "na_active (net_adapter_set_route i r g) = na_active g" "length (na_route (net_adapter_set_route i r g)) = length (na_route g)"
  "na_session_id (net_adapter_set_route i r g) = na_session_id g" "na_local_slot (net_adapter_set_route i r g) = na_local_slot g"
  by (simp_all add: net_adapter_set_route_def)

lemma wire_routes_spec:
  assumes "na_active g" and "length (na_route g) = 4" and "n \<le> 4"
    and "h = fold (\<lambda>i g. if i \<noteq> l then net_adapter_set_route (of_nat i) (rs ! i) g else g) [0..<n] g"
  shows "na_active h \<and> length (na_route h) = 4 \<and> na_session_id h = na_session_id g \<and> na_local_slot h = na_local_slot g
     \<and> (\<forall>i < 4. na_route h ! i = (if i < n \<and> i \<noteq> l then rs ! i else na_route g ! i))"
  using assms(3,4)
proof (induction n arbitrary: h)
  case 0
  then show ?case using assms(1,2) by simp
next
  case (Suc n)
  define k where "k = fold (\<lambda>i g. if i \<noteq> l then net_adapter_set_route (of_nat i) (rs ! i) g else g) [0..<n] g"
  have h: "h = (if n \<noteq> l then net_adapter_set_route (of_nat n) (rs ! n) k else k)" using Suc.prems(2) by (simp add: k_def)
  have IH: "na_active k \<and> length (na_route k) = 4 \<and> na_session_id k = na_session_id g \<and> na_local_slot k = na_local_slot g
     \<and> (\<forall>i < 4. na_route k ! i = (if i < n \<and> i \<noteq> l then rs ! i else na_route g ! i))"
    using Suc.IH [OF _ k_def] Suc.prems(1) by simp
  have n: "n < 4" "unat (of_nat n :: u8) = n" using Suc.prems(1) by (simp_all add: unat_slot)
  then have hr: "na_route h = (if n \<noteq> l then (na_route k)[n := rs ! n] else na_route k)"
    using IH by (simp add: h net_adapter_set_route_def ARENA_MAX_PLAYERS_def)
  have "na_route h ! i = (if i < Suc n \<and> i \<noteq> l then rs ! i else na_route g ! i)" if "i < 4" for i
  proof (cases "i = n")
    case True
    then show ?thesis using IH that n(1) by (auto simp: hr)
  next
    case False
    then have "i < Suc n \<longleftrightarrow> i < n" by linarith
    then show ?thesis using IH that False by (simp add: hr)
  qed
  then show ?case using IH by (simp add: h set_route_fields)
qed

lemma is_local_bit: "is_local m i \<longleftrightarrow> bit m i"
  using and_exp_eq_0_iff_not_bit [of m i] by (simp add: is_local_def push_bit_eq_mult)

lemma single_local: "k < 4 \<Longrightarrow> i < 4 \<Longrightarrow> is_local (ucast (push_bit k (1 :: u32))) i \<longleftrightarrow> i = k"
  by (auto simp: is_local_bit bit_ucast_iff bit_push_bit_iff bit_1_iff bit_exp_iff)

definition all_well :: Host where
  "all_well = \<lparr>ho_memory = True, ho_gekko = True, ho_handle = int\<rparr>"

lemma new_session_some:
  assumes "ho_memory ho" and "ho_gekko ho" and "2 \<le> unat (cf_num_players cfg)" and "unat (cf_num_players cfg) \<le> 4"
  shows "\<exists>s calls. new_session ho cfg = Some s \<and> sync_create True True (ho_handle ho) (Some cfg) = Some (s, calls)"
  using assms by (simp add: new_session_def sync_create_def ARENA_MAX_PLAYERS_def case_prod_unfold Let_def)

lemma new_session_fields:
  assumes "new_session ho cfg = Some s"
  shows "same_log (sync_blank cfg) s" "2 \<le> unat (cf_num_players cfg)" "unat (cf_num_players cfg) \<le> 4"
proof -
  obtain calls where c: "sync_create (ho_memory ho) (ho_gekko ho) (ho_handle ho) (Some cfg) = Some (s, calls)"
    using assms by (auto simp: new_session_def)
  show "same_log (sync_blank cfg) s" "2 \<le> unat (cf_num_players cfg)" "unat (cf_num_players cfg) \<le> 4"
    by (rule create_frame [OF c])+
qed

lemma online_match_some:
  assumes "client_reach log lc" and "lobby_result lc = Some r" and "\<not> na_active g0" and "ho_memory ho" and "ho_gekko ho"
  obtains g s calls where "online_match ho lc g0 = Some (g, s, unat (lr_local_slot r))"
    "sync_create True True (ho_handle ho) (Some (online_config r)) = Some (s, calls)"
    "na_session_id g = lr_session_id r" "na_local_slot g = lr_local_slot r" "na_relay g = lr_server r" "na_active g"
    "\<forall>i < 4. na_route g ! i = (if i < unat (lr_num_players r) \<and> i \<noteq> unat (lr_local_slot r) then lr_route r ! i
       else \<lparr>nr_kind = NET_ROUTE_NONE, nr_ep = endpoint_none\<rparr>)"
proof -
  note r = ready_fields [OF assms(1,2)]
  let ?g = "adapter_zero\<lparr>na_active := True, na_session_id := lr_session_id r, na_local_slot := lr_local_slot r\<rparr>"
  have init: "net_adapter_init (lr_session_id r) (lr_local_slot r) g0 = Some ?g"
    using assms(3) r(4) by (simp add: net_adapter_init_def ARENA_MAX_PLAYERS_def)
  obtain s calls where s: "new_session ho (online_config r) = Some s"
    "sync_create True True (ho_handle ho) (Some (online_config r)) = Some (s, calls)"
    using new_session_some [OF assms(4,5), of "online_config r"] r(2,3) by (auto simp: online_config_def)
  have zero: "na_route adapter_zero = replicate 4 \<lparr>nr_kind = NET_ROUTE_NONE, nr_ep = endpoint_none\<rparr>"
    by (simp add: adapter_zero_def ARENA_MAX_PLAYERS_def)
  have w: "na_active (wire_routes r ?g) \<and> length (na_route (wire_routes r ?g)) = 4
     \<and> na_session_id (wire_routes r ?g) = na_session_id ?g \<and> na_local_slot (wire_routes r ?g) = na_local_slot ?g
     \<and> (\<forall>i < 4. na_route (wire_routes r ?g) ! i =
          (if i < unat (lr_num_players r) \<and> i \<noteq> unat (lr_local_slot r) then lr_route r ! i else na_route ?g ! i))"
    by (rule wire_routes_spec [of ?g "unat (lr_num_players r)"]) (use r(3) in \<open>simp_all add: zero wire_routes_def\<close>)
  have m: "online_match ho lc g0 = Some (net_adapter_set_relay (lr_server r) (wire_routes r ?g), s, unat (lr_local_slot r))"
    by (simp add: online_match_def assms(2) init s(1) Let_def)
  show ?thesis
    by (rule that [OF m s(2)]) (use w zero in \<open>simp_all add: net_adapter_set_relay_def\<close>)
qed

section \<open>After a desync\<close>

lemma event_online:
  "viewer_event ho e (b, v) = Some (b', v') \<Longrightarrow> \<not> couch v \<Longrightarrow>
     vw_session v' = vw_session v \<and> vw_online v' = vw_online v \<and> vw_smoke v' = vw_smoke v \<and> vw_latched v' = vw_latched v"
  by (auto simp: viewer_event_def Let_def split: ViewerEvent.splits if_splits)

lemma events_online:
  "viewer_events ho es (b, v) = Some (b', v') \<Longrightarrow> \<not> couch v \<Longrightarrow>
     vw_session v' = vw_session v \<and> vw_online v' = vw_online v \<and> vw_smoke v' = vw_smoke v \<and> vw_latched v' = vw_latched v"
proof (induction es arbitrary: b v)
  case (Cons e es)
  then obtain b1 v1 where e: "viewer_event ho e (b, v) = Some (b1, v1)" "viewer_events ho es (b1, v1) = Some (b', v')"
    by (auto split: option.splits)
  note one = event_online [OF e(1) Cons.prems(2)]
  then show ?case using Cons.IH [OF e(2)] Cons.prems(2) by simp
qed simp

lemma pending_self: "\<exists>c. s = s\<lparr>ss_corrupt_pending := c\<rparr>" for s :: SyncSession
  by (rule exI [of _ "ss_corrupt_pending s"]) simp

lemma inject_fields:
  "vw_online (inject_now v) = vw_online v" "vw_smoke (inject_now v) = vw_smoke v" "vw_latched (inject_now v) = vw_latched v"
  "\<exists>c. vw_session (inject_now v) = (vw_session v)\<lparr>ss_corrupt_pending := c\<rparr>"
  using pending_self [of "vw_session v"] by (auto simp: inject_now_def sync_debug_corrupt_def)

lemma bundle_pending: "bundle_bytes (s\<lparr>ss_corrupt_pending := c\<rparr>) = bundle_bytes s"
  by (simp add: bundle_bytes_def bundle_header_def)

lemma frame_end_fields:
  "vw_session (count_frame (keep_target v)) = vw_session v" "vw_online (count_frame (keep_target v)) = vw_online v" "vw_smoke (count_frame (keep_target v)) = vw_smoke v"
  "vw_latched (count_frame (keep_target v)) = vw_latched v"
  by (simp_all add: count_frame_def keep_target_def Let_def)

lemma frozen_frame:
  assumes "vw_online v" "ss_desynced (vw_session v)" "viewer_frame ho evs opened dv replies v = Some (v', dump, out)"
  shows "\<exists>c. vw_session v' = (vw_session v)\<lparr>ss_corrupt_pending := c\<rparr>" and "vw_online v'" and "vw_latched v'"
    and "dump = None \<or> \<not> vw_latched v \<and> dump = Some (bundle_bytes (vw_session v))"
proof -
  obtain b v1 where ev: "viewer_events ho evs (False, v) = Some (b, v1)"
    using assms(3) by (auto simp: viewer_frame_def split: option.splits)
  have v1: "vw_session v1 = vw_session v" "vw_online v1" "vw_latched v1 = vw_latched v"
    using events_online [OF ev] assms(1) by simp_all
  define w where "w = inject_now (v1\<lparr>vw_adapter := fst (lobby_post_poll (vw_lobby v1) (vw_adapter v1))\<rparr>)"
  obtain c where c: "vw_session w = (vw_session v)\<lparr>ss_corrupt_pending := c\<rparr>"
    using inject_fields(4) [of "v1\<lparr>vw_adapter := fst (lobby_post_poll (vw_lobby v1) (vw_adapter v1))\<rparr>"] v1(1)
    by (auto simp: w_def)
  have w: "vw_online w" "vw_latched w = vw_latched v" "ss_desynced (vw_session w)"
    using v1 assms(2) c by (simp_all add: w_def inject_fields)
  let ?w = "w\<lparr>vw_latched := True\<rparr>"
  have "couch_resize ho v1 = Some v1" using v1(2) by (simp add: couch_resize_def)
  moreover have "\<exists>out. online_watch opened v1 = (?w, if opened \<and> \<not> vw_latched v then Some (bundle_bytes (vw_session w)) else None, out)"
    using v1(2) w by (cases "vw_latched v") (simp_all add: online_watch_def case_prod_unfold Let_def w_def [symmetric])
  ultimately have "v' = count_frame (keep_target (hold_walls_open (viewer_ticks dv replies ?w)))"
    and dump: "dump = (if opened \<and> \<not> vw_latched v then Some (bundle_bytes (vw_session w)) else None)"
    using assms(3) by (auto simp: viewer_frame_def ev Let_def)
  then have v': "v' = count_frame (keep_target ?w)" using w(1) by (simp add: viewer_ticks_def hold_walls_open_def)
  show "\<exists>c. vw_session v' = (vw_session v)\<lparr>ss_corrupt_pending := c\<rparr>" "vw_online v'" "vw_latched v'"
    "dump = None \<or> \<not> vw_latched v \<and> dump = Some (bundle_bytes (vw_session v))"
    using w c by (auto simp: v' frame_end_fields dump bundle_pending)
qed

lemma frozen_run:
  assumes "vw_online v" "ss_desynced (vw_session v)" "viewer_run ho fs v = Some (v', bundles)"
  shows "(\<exists>c. vw_session v' = (vw_session v)\<lparr>ss_corrupt_pending := c\<rparr>)
    \<and> (bundles = [] \<or> \<not> vw_latched v \<and> bundles = [bundle_bytes (vw_session v)])"
  using assms
proof (induction fs arbitrary: v v' bundles)
  case Nil
  then show ?case using pending_self [of "vw_session v"] by simp
next
  case (Cons f fs)
  obtain evs opened dv replies where f: "f = (evs, opened, dv, replies)" by (cases f)
  show ?case
  proof (cases "vw_running v")
    case False
    then show ?thesis using Cons.prems(3) pending_self [of "vw_session v"] by (simp add: f)
  next
    case True
    then obtain v1 dump out bs where one: "viewer_frame ho evs opened dv replies v = Some (v1, dump, out)"
      and rest: "viewer_run ho fs v1 = Some (v', bs)" "bundles = (case dump of None \<Rightarrow> [] | Some b \<Rightarrow> [b]) @ bs"
      using Cons.prems(3) by (auto simp: f split: option.splits)
    note frame = frozen_frame [OF Cons.prems(1,2) one]
    obtain c where c: "vw_session v1 = (vw_session v)\<lparr>ss_corrupt_pending := c\<rparr>" using frame(1) by blast
    have "ss_desynced (vw_session v1)" using Cons.prems(2) c by simp
    from Cons.IH [OF frame(2) this rest(1)] show ?thesis
      using frame(3,4) by (auto simp: rest(2) c bundle_pending)
  qed
qed

section \<open>A match on any map\<close>

text \<open>A guest that is seated third of four, meets both peers, is told to relay, and gets a START for two
  players on the map \<open>a\<close>.\<close>

definition strange_mail :: "u8 \<Rightarrow> (LobbyEndpoint \<times> u8 list) list" where
  "strange_mail a =
     [letter server_ep (LOBBY_JOIN_RESP 3 4), letter server_ep (LOBBY_PEER_INTRO 0 mate_ep mate_ep),
      letter server_ep (LOBBY_PEER_INTRO 1 mate_ep mate_ep), letter server_ep (LOBBY_PAIR_ROUTE 0 3 1),
      letter server_ep (LOBBY_PAIR_ROUTE 1 3 1), letter server_ep (LOBBY_START 99 a 2 3)]"

definition strange_guest :: "u8 \<Rightarrow> LobbyClient" where
  "strange_guest a = fst (lobby_poll 200 (strange_mail a) example_guest)"

lemma strange_reach: "client_reach (strange_mail a) (strange_guest a)"
  using reach_poll [OF example_guest_reach, of "strange_mail a" 200] by (simp add: strange_guest_def)

lemma strange_drain:
  fixes a
  defines "d \<equiv> fst (drain 200 (strange_mail a) example_guest)"
  shows "lc_stage d = LOBBY_C_WAITING_PEERS" "lc_begin d = 100" "\<not> lc_is_host d" "lc_local_slot d = 3"
    "lc_num_players d = 2" "lc_arena_id d = a" "lc_start_seen d" "length (lc_peers d) = 4"
    "cp_present (peer d 0)" "cp_present (peer d (Suc 0))" "cp_route (peer d 0) = 1" "cp_route (peer d (Suc 0)) = 1"
proof -
  have r4: "replicate 4 x = [x, x, x, x]" for x :: 'x by (simp add: numeral_eq_Suc)
  have b: "lc_peers example_guest = [client_peer_zero, client_peer_zero, client_peer_zero, client_peer_zero]"
    "lc_route_known example_guest = [[False, False, False, False], [False, False, False, False],
        [False, False, False, False], [False, False, False, False]]"
    by (simp_all add: example_guest_def client_init_def r4 Let_def)
  have f: "lc_stage example_guest = LOBBY_C_JOINING" "\<not> lc_is_host example_guest"
    "lc_server example_guest = server_ep" "lc_session_id example_guest = 8225"
    "lc_retries example_guest = 0" "lc_begin example_guest = 100" "lc_rng example_guest = lc_rng (client_init 5001 100)"
    by (simp_all add: example_guest_def client_init_def Let_def)
  show "lc_stage d = LOBBY_C_WAITING_PEERS" "lc_begin d = 100" "\<not> lc_is_host d" "lc_local_slot d = 3"
    "lc_num_players d = 2" "lc_arena_id d = a" "lc_start_seen d" "length (lc_peers d) = 4"
    "cp_present (peer d 0)" "cp_present (peer d (Suc 0))" "cp_route (peer d 0) = 1" "cp_route (peer d (Suc 0)) = 1"
    unfolding strange_mail_def d_def
    by (simp_all add: drain_letter payload_of_def handle_msg_def on_join_resp_def on_peer_intro_def on_pair_route_def
        on_start_def start_seen_def refresh_peer_def meet_peer_def know_pair_def at_peer_def stage_order f b
        client_peer_zero_def ARENA_MAX_PLAYERS_def LOBBY_ROUTE_RELAY_def LOBBY_PUNCH_PERIOD_MS_def Let_def)
qed

lemma strange_ready:
  "lc_stage (strange_guest a) = LOBBY_C_READY" "lc_num_players (strange_guest a) = 2" "lc_local_slot (strange_guest a) = 3"
  "lc_arena_id (strange_guest a) = a"
proof -
  let ?d = "fst (drain 200 (strange_mail a) example_guest)"
  note d = strange_drain [of a]
  have g: "lc_stage example_guest = LOBBY_C_JOINING" "lc_begin example_guest = 100" "\<not> lc_is_host example_guest"
    by (simp_all add: example_guest_def client_init_def Let_def)
  define e where "e = enter_punching 200 ?d"
  have e: "lc_stage e = LOBBY_C_PUNCHING" "lc_num_players e = 2" "lc_local_slot e = 3" "lc_arena_id e = a" "lc_start_seen e"
    "\<not> lc_is_host e" "cp_route (peer e 0) = 1" "cp_route (peer e (Suc 0)) = 1"
    by (simp_all add: e_def enter_punching_def d upt_12 at_peer_def start_punch_clock_def)
  have duty: "stage_duty 200 ?d = (e, [])"
    by (simp add: stage_duty_def d wait_for_peers_def all_peers_present_def upt_12 e_def)
  have host: "host_duty 200 e = (e, [])" by (simp add: host_duty_def e)
  have ready: "settle e = (fill_result e)\<lparr>lc_stage := LOBBY_C_READY\<rparr>"
    by (simp add: settle_def local_routes_decided_def e upt_12)
  have alive: "keep_alive 200 (settle e) = (settle e, [])" by (simp add: keep_alive_def ready stage_order)
  have inbox: "take 128 (strange_mail a) = strange_mail a" by (simp add: strange_mail_def)
  have "strange_guest a = settle e"
    unfolding strange_guest_def lobby_poll_def inbox
    by (simp add: g d e case_prod_unfold Let_def duty host alive LOBBY_TIMEOUT_MS_def)
  then show "lc_stage (strange_guest a) = LOBBY_C_READY" "lc_num_players (strange_guest a) = 2"
    "lc_local_slot (strange_guest a) = 3" "lc_arena_id (strange_guest a) = a"
    by (simp_all add: ready fill_result_def e)
qed

section \<open>Properties\<close>

text \<open>C12: The match the viewer starts is the match the lobby agreed on: the adapter has a route for exactly
  the other seats and relays through the lobby's server, the session starts from the agreed seed,
  map and players with the own seat as its only local one, and is a session the rollback theorems
  speak about.\<close>

theorem online_match_is_wired:
  assumes "client_reach log lc" and "lobby_result lc = Some r" and "\<not> na_active g0"
    and "ho_memory ho" and "ho_gekko ho" and "unat (lr_arena_id r) < ARENA_GEOM_COUNT"
  shows "\<exists>g s. online_match ho lc g0 = Some (g, s, unat (lr_local_slot r)) \<and> honest Map.empty s
    \<and> ss_state s = arena_init (lr_arena_id r) (lr_num_players r) (lr_seed r)
    \<and> na_session_id g = lr_session_id r \<and> na_local_slot g = lr_local_slot r \<and> na_relay g = lr_server r
    \<and> (\<forall>i < 4. (nr_kind (na_route g ! i) = NET_ROUTE_NONE \<longleftrightarrow> i = unat (lr_local_slot r) \<or> unat (lr_num_players r) \<le> i)
         \<and> (is_local (ss_local_mask s) i \<longleftrightarrow> i = unat (lr_local_slot r)))"
proof -
  note r = ready_fields [OF assms(1,2)]
  obtain g s calls where m: "online_match ho lc g0 = Some (g, s, unat (lr_local_slot r))"
    "sync_create True True (ho_handle ho) (Some (online_config r)) = Some (s, calls)"
    "na_session_id g = lr_session_id r" "na_local_slot g = lr_local_slot r" "na_relay g = lr_server r"
    "\<forall>i < 4. na_route g ! i = (if i < unat (lr_num_players r) \<and> i \<noteq> unat (lr_local_slot r) then lr_route r ! i
       else \<lparr>nr_kind = NET_ROUTE_NONE, nr_ep = endpoint_none\<rparr>)"
    using online_match_some [OF assms(1-5)] by metis
  have "honest Map.empty s" using honest_open [OF m(2)] assms(6) by (simp add: online_config_def)
  moreover have "ss_state s = arena_init (lr_arena_id r) (lr_num_players r) (lr_seed r)"
    "ss_local_mask s = ucast (push_bit (unat (lr_local_slot r)) (1 :: u32))"
    using create_frame(1) [OF m(2)] by (simp_all add: same_log_def sync_blank_def online_config_def)
  moreover have "nr_kind (na_route g ! i) = NET_ROUTE_NONE \<longleftrightarrow> i = unat (lr_local_slot r) \<or> unat (lr_num_players r) \<le> i"
    if "i < 4" for i
    using m(6) that r(6) [OF that] r(7,8) by (auto simp: result_route_def)
  ultimately show ?thesis using m(1,3-5) single_local [OF r(4)] by auto
qed

lemma example_arena: "lc_arena_id example_client = 0" "lc_num_players example_client = 2"
proof -
  have "client_ok (example_begun arena_net_version)" using reach_ok [OF example_begun_reach] by simp
  then have "charter example_client = charter (example_begun arena_net_version)"
    using charter_poll by (simp add: example_run_def client_ok_def)
  then show "lc_arena_id example_client = 0" "lc_num_players example_client = 2"
    using example_ready(2,4) by (simp_all add: charter_def example_begun_def)
qed

theorem online_match_is_wired_witness:
  "\<exists>g s. online_match all_well example_client adapter_zero = Some (g, s, 0) \<and> honest Map.empty s
    \<and> nr_kind (na_route g ! 1) \<noteq> NET_ROUTE_NONE \<and> is_local (ss_local_mask s) 0"
proof -
  have r: "lobby_result example_client = Some (lc_result example_client)" using example_ready(1) by (simp add: lobby_result_def)
  note f = ready_fields [OF example_reach r]
  have "\<not> na_active adapter_zero" "ho_memory all_well" "ho_gekko all_well" "unat (lr_arena_id (lc_result example_client)) < ARENA_GEOM_COUNT"
    using f(11) example_arena(1) by (simp_all add: adapter_zero_def all_well_def arena_geom_count)
  from online_match_is_wired [OF example_reach r this]
  obtain g s where "online_match all_well example_client adapter_zero = Some (g, s, 0)" "honest Map.empty s"
    "\<forall>i < 4. (nr_kind (na_route g ! i) = NET_ROUTE_NONE \<longleftrightarrow> i = 0 \<or> 2 \<le> i) \<and> (is_local (ss_local_mask s) i \<longleftrightarrow> i = 0)"
    using f(7,8) example_arena(2) example_ready(3) by auto
  then show ?thesis by fastforce
qed

text \<open>C19: A desync stops the match for good: once the session has reported one, no frame of the loop,
  whatever events and answers it gets, changes the session again (but for the flag of the test
  hook), and at most one bundle is written, of exactly the stopped session.\<close>

theorem desync_stops_the_match:
  assumes "vw_online v" and "ss_desynced (vw_session v)" and "viewer_run ho fs v = Some (v', dumps)"
  shows "(\<exists>c. vw_session v' = (vw_session v)\<lparr>ss_corrupt_pending := c\<rparr>)
    \<and> (dumps = [] \<or> \<not> vw_latched v \<and> dumps = [bundle_bytes (vw_session v)])"
  by (rule frozen_run [OF assms])

definition example_devices :: Devices where
  "example_devices = \<lparr>dv_pad = (\<lambda>_. (0, 0, False, False, False)), dv_keys = (31, 0, False, False, False)\<rparr>"

definition example_stopped :: Viewer where
  "example_stopped = (viewer_blank 7 (- 1) (session_event (GekkoDesyncDetected 1 2 3 0) example_session))\<lparr>vw_online := True\<rparr>"

theorem desync_stops_the_match_witness:
  "\<exists>v' dumps. viewer_run all_well [([EvSuddenDeath, EvRestart True 9], True, example_devices, [([], [GekkoAdvance False [0, 0]])])] example_stopped = Some (v', dumps)
    \<and> ss_state (vw_session v') = ss_state example_session \<and> length dumps \<le> 1"
proof -
  have s: "vw_online example_stopped" "ss_desynced (vw_session example_stopped)" "vw_running example_stopped"
    "ss_state (vw_session example_stopped) = ss_state example_session" "\<not> vw_smoke example_stopped"
    by (simp_all add: example_stopped_def viewer_blank_def session_event_def)
  obtain v' dumps where run: "viewer_run all_well
      [([EvSuddenDeath, EvRestart True 9], True, example_devices, [([], [GekkoAdvance False [0, 0]])])] example_stopped = Some (v', dumps)"
    using s by (auto simp: viewer_frame_def viewer_event_def couch_resize_def case_prod_unfold Let_def)
  from desync_stops_the_match [OF s(1,2) run] show ?thesis using s(4) run by auto
qed

lemma byte_players:
  "(of_int (if uint p < 2 then 2 else uint p) :: u8) = (if unat p < 2 then 2 else p)" for p :: u8
proof -
  have "uint p < 2 \<longleftrightarrow> unat p < 2" using uint_nat [of p] by linarith
  then show ?thesis by simp
qed

text \<open>The restart key reads the number of players through a pointer into the session it has just
  freed: whatever the match was, the new one has as many players as the byte left there says, and
  with a byte above four the viewer exits.\<close>

theorem restart_reads_freed_memory:
  assumes "couch v" and "ho_memory ho" and "ho_gekko ho"
  shows "(2 \<le> unat p \<and> unat p \<le> 4 \<longrightarrow>
      (\<exists>v'. viewer_events ho [EvRestart shift p] (False, v) = Some (True, v') \<and> st_num_players (shown v') = p))
    \<and> (4 < unat p \<longrightarrow> viewer_frame ho [EvRestart shift p] opened dv replies v = None)"
proof (intro conjI impI; (elim conjE)?)
  assume p: "2 \<le> unat p" "unat p \<le> 4"
  define seed where "seed = (if shift then vw_seed v * 1664525 + 1013904223 else vw_seed v)"
  have n: "cf_num_players (couch_config (uint p) seed) = p"
    using byte_players(1) [of p] p(1) by (simp add: couch_config_def)
  then obtain s where s: "make_couch ho (uint p) seed = Some s"
    using new_session_some [OF assms(2,3), of "couch_config (uint p) seed"] p by (auto simp: make_couch_def)
  have "st_num_players (ss_state s) = p"
    using new_session_fields(1) [of ho "couch_config (uint p) seed" s] s n
    by (simp add: make_couch_def same_log_def sync_blank_def)
  then show "\<exists>v'. viewer_events ho [EvRestart shift p] (False, v) = Some (True, v') \<and> st_num_players (shown v') = p"
    using assms(1) s by (auto simp: viewer_event_def restart_def shown_def seed_def Let_def)
next
  assume "4 < unat p"
  then have "make_couch ho (uint p) seed = None" for seed
    using byte_players(1) [of p]
    by (simp add: make_couch_def new_session_def sync_create_def couch_config_def ARENA_MAX_PLAYERS_def)
  then show "viewer_frame ho [EvRestart shift p] opened dv replies v = None"
    using assms(1) by (simp add: viewer_frame_def viewer_event_def restart_def Let_def)
qed

theorem restart_reads_freed_memory_witness:
  "\<exists>v. viewer_couch all_well 7 = Some v \<and> st_num_players (shown v) = 2
    \<and> (\<exists>v'. viewer_events all_well [EvRestart False 4] (False, v) = Some (True, v') \<and> st_num_players (shown v') = 4)
    \<and> viewer_frame all_well [EvRestart False 171] True example_devices [] v = None"
proof -
  have w: "ho_memory all_well" "ho_gekko all_well" by (simp_all add: all_well_def)
  have n: "cf_num_players (couch_config 2 7) = 2" by (simp add: couch_config_def)
  then obtain s where s: "make_couch all_well 2 7 = Some s"
    using new_session_some [OF w, of "couch_config 2 7"] by (auto simp: make_couch_def)
  then have "st_num_players (ss_state s) = 2"
    using new_session_fields(1) [of all_well "couch_config 2 7" s] n by (simp add: make_couch_def same_log_def sync_blank_def)
  moreover have c: "couch (viewer_blank 7 (- 1) s)" by (simp add: viewer_blank_def)
  ultimately show ?thesis
    using restart_reads_freed_memory [OF c w, of 4 False True example_devices "[]"]
      restart_reads_freed_memory [OF c w, of 171 False True example_devices "[]"] s
    by (simp add: viewer_couch_def shown_def viewer_blank_def)
qed

text \<open>A guest believes any START: for every byte \<open>a\<close> there is a client that joined, was seated third of
  four, became READY and starts a match for two players on map \<open>a\<close>, of which there are two, and
  none of whose players is local; the viewer creates that session without complaint.\<close>

theorem any_start_is_believed:
  "\<exists>log lc r g s. client_reach log lc \<and> lobby_result lc = Some r \<and> online_match all_well lc adapter_zero = Some (g, s, 3)
    \<and> st_arena_id (ss_state s) = a \<and> ARENA_GEOM_COUNT = 2 \<and> ss_num_players s = 2 \<and> feed_inputs inputs s = []"
proof -
  have r: "lobby_result (strange_guest a) = Some (lc_result (strange_guest a))" using strange_ready(1) by (simp add: lobby_result_def)
  note f = ready_fields [OF strange_reach r]
  let ?r = "lc_result (strange_guest a)"
  have e: "\<not> na_active adapter_zero" "ho_memory all_well" "ho_gekko all_well" by (simp_all add: adapter_zero_def all_well_def)
  obtain g s calls where m: "online_match all_well (strange_guest a) adapter_zero = Some (g, s, unat (lr_local_slot ?r))"
    "sync_create True True (ho_handle all_well) (Some (online_config ?r)) = Some (s, calls)"
    using online_match_some [OF strange_reach r e] by metis
  have s: "ss_state s = arena_init a 2 (lr_seed ?r)" "ss_num_players s = 2" "ss_local_mask s = ucast (push_bit 3 (1 :: u32))"
    using create_frame(1) [OF m(2)] f(7,8,11) strange_ready
    by (simp_all add: same_log_def sync_blank_def online_config_def)
  have "feed_inputs inputs s = []"
    using single_local [of 3 0] single_local [of 3 "Suc 0"] by (simp add: feed_inputs_def s(2,3) upt_12)
  moreover have "online_match all_well (strange_guest a) adapter_zero = Some (g, s, 3)"
    using m(1) f(8) strange_ready(3) by simp
  moreover have "st_arena_id (ss_state s) = a" by (simp add: s(1) init_number)
  ultimately show ?thesis using strange_reach [of a] r s(2) arena_geom_count by blast
qed

text \<open>The word for a seat without a player is not neutral: \<open>advance\<close> gives every seat beyond the players
  the input 0, which the simulation reads as the stick pushed past its far corner, and the smoke
  run feeds it to all four seats; the neutral word is another one.\<close>

theorem empty_seats_push_the_stick:
  assumes "length ins = unat (ss_num_players s)" and "unat (ss_num_players s) \<le> i" and "i < 4"
  shows "arena_input_sx (tick_inputs ins s ! i) = - 32 \<and> arena_input_sy (tick_inputs ins s ! i) = - 32
    \<and> vw_state (viewer_tick dv reply (viewer_smoke seed n)) = arena_tick (replicate 4 0) (arena_init 0 2 seed)
    \<and> arena_input_sx (arena_input_pack 0 0 j b t) = 0 \<and> arena_input_sy (arena_input_pack 0 0 j b t) = 0"
proof -
  have "tick_inputs ins s ! i = 0"
    using assms by (simp add: tick_inputs_def nth_append ARENA_MAX_PLAYERS_def Let_def)
  then show ?thesis
    by (simp add: arena_input_sx_def [of 0] arena_input_sy_def [of 0] arena_input_roundtrip stick_clamp_def AIN_STICK_MAX_def
        viewer_tick_def viewer_smoke_def viewer_blank_def ARENA_MAX_PLAYERS_def split: prod.split)
qed

theorem empty_seats_push_the_stick_witness:
  "arena_input_sx (tick_inputs [2080, 2080] example_begin ! 3) = - 32"
  using empty_seats_push_the_stick [of "[2080, 2080]" example_begin 3] example_begin_fields(1) by simp

end
