(* ===== verification/Trace_Tool.thy ===== *)
theory Trace_Tool
  imports Sim_Tick
begin

text \<open>
  The tools that print the scripted match: its hash (\<open>src/tools/arena_hash.c\<close>) and the state after
  every tick (\<open>src/tools/arena_trace.c\<close>), with the tick counter kept at its 32 bits.  The trace
  has its own copy of the script; the theorem says that the copy is exact.
\<close>

section \<open>The hash\<close>

definition arena_hash_tool :: u32 where
  "arena_hash_tool = arena_scripted_match_hash"

section \<open>The trace\<close>

text \<open>The options in order; \<open>None\<close> is the exit with code 2.\<close>

datatype TraceArg = TraceTicks u32 | TracePlayer int | TraceUnknown

fun trace_args :: "TraceArg list \<Rightarrow> u32 \<times> int \<Rightarrow> (u32 \<times> int) option" where
  "trace_args [] r = Some r"
| "trace_args (a # as) (ticks, only) = (case a of
       TraceTicks n \<Rightarrow> trace_args as (n, only)
     | TracePlayer p \<Rightarrow> if p < 0 \<or> 4 \<le> p then None else trace_args as (ticks, p)
     | TraceUnknown \<Rightarrow> None)"

record TraceRow =
  tr_tick :: u32
  tr_hash :: u32
  tr_players :: "(q32 \<times> q32 \<times> q32 \<times> q32 \<times> q32 \<times> u16 \<times> u8 \<times> u8) list"
  tr_live_bombs :: nat
  tr_phase :: u8

definition trace_row :: "int \<Rightarrow> ArenaState \<Rightarrow> TraceRow" where
  "trace_row only s =
     (let lo = (if only < 0 then 0 else nat only); hi = (if only < 0 then 3 else nat only) in
      \<lparr>tr_tick = st_tick s, tr_hash = arena_hash s,
       tr_players = map (\<lambda>p. let pl = player s p in
           (vx (pl_pos pl), vy (pl_pos pl), vz (pl_pos pl), vx (pl_vel pl), vz (pl_vel pl), pl_yaw pl,
            pstate_code (pl_state pl), pl_hp pl)) [lo..<hi + 1],
       tr_live_bombs = length (filter (\<lambda>b. bm_state b \<noteq> BSTATE_FREE) (st_bombs s)),
       tr_phase = phase_code (st_phase s)\<rparr>)"

definition trace_input :: "u32 \<Rightarrow> nat \<Rightarrow> u32 \<Rightarrow> ArenaInput" where
  "trace_input t i r =
     (let sx = uint (r AND 63) - 32; sx = (if sx < - 31 then - 31 else sx);
          sy = uint (drop_bit 6 r AND 63) - 32; sy = (if sy < - 31 then - 31 else sy);
          st = ((t + of_nat (i * 53)) mod 137 = 0);
          bomb_held = ((t + of_nat (i * 37)) mod (90 + of_nat (i * 80)) < of_nat (30 + i * 40))
      in arena_input_pack sx sy (drop_bit 12 r AND 31 = 0) bomb_held st)"

fun trace_inputs :: "u32 \<Rightarrow> nat list \<Rightarrow> u32 \<Rightarrow> ArenaInput list \<times> u32" where
  "trace_inputs t [] r = ([], r)"
| "trace_inputs t (i # is) r =
     (let r = xorshift32 r; (ins, r') = trace_inputs t is r in (trace_input t i r # ins, r'))"

fun trace_rows :: "int \<Rightarrow> nat list \<Rightarrow> u32 \<Rightarrow> ArenaState \<Rightarrow> TraceRow list" where
  "trace_rows only [] r s = []"
| "trace_rows only (t # ts) r s =
     (let (ins, r) = trace_inputs (of_nat t) [0, 1, 2, 3] r; s = arena_tick ins s
      in trace_row only s # trace_rows only ts r s)"

definition arena_trace :: "TraceArg list \<Rightarrow> TraceRow list option" where
  "arena_trace args = map_option (\<lambda>(ticks, only).
     trace_rows only [0..<unat ticks] 0xC0FFEE01 (arena_init 0 4 0xB0BB1E5)) (trace_args args (5400, - 1))"

section \<open>The copy is exact\<close>

lemma trace_input_exact:
  assumes "t < 5400" and "i < 4"
  shows "trace_input (of_nat t) i r = script_input t i r"
proof -
  have w: "unat (of_nat n :: u32) = n" if "n < 10000" for n
    using that by (simp add: unat_of_nat take_bit_nat_eq_self_iff)
  have m: "unat (of_nat a mod of_nat b :: u32) = a mod b" if "a < 10000" "b < 10000" for a b
    using w [OF that(1)] w [OF that(2)] by (simp add: unat_mod_distrib)
  have st: "(of_nat t + of_nat (i * 53)) mod (137 :: u32) = 0 \<longleftrightarrow> (t + i * 53) mod 137 = 0"
    using m [of "t + i * 53" 137] assms by (simp add: word_unat_eq_iff)
  have bomb: "(of_nat t + of_nat (i * 37)) mod (90 + of_nat (i * 80)) < (of_nat (30 + i * 40) :: u32)
      \<longleftrightarrow> (t + i * 37) mod (90 + i * 80) < 30 + i * 40"
    using m [of "t + i * 37" "90 + i * 80"] w [of "30 + i * 40"] assms by (simp add: word_less_nat_alt)
  show ?thesis unfolding trace_input_def script_input_def st bomb ..
qed

lemma trace_inputs_exact: "t < 5400 \<Longrightarrow> list_all (\<lambda>i. i < 4) is \<Longrightarrow> trace_inputs (of_nat t) is r = script_inputs t is r"
  by (induction "is" arbitrary: r) (simp_all add: trace_input_exact Let_def)

lemma trace_rows_exact:
  "list_all (\<lambda>t. t < 5400) ts \<Longrightarrow>
     trace_rows only ts r s = map (\<lambda>k. trace_row only (script_run (take (Suc k) ts) r s)) [0..<length ts]"
proof (induction ts arbitrary: r s)
  case (Cons t ts)
  have "trace_inputs (of_nat t) [0, 1, 2, 3] r = script_inputs t [0, 1, 2, 3] r"
    using Cons.prems by (intro trace_inputs_exact) simp_all
  then show ?case
    using Cons.IH Cons.prems
    by (simp add: map_upt_Suc case_prod_unfold Let_def del: trace_inputs.simps script_inputs.simps upt_Suc)
qed simp

text \<open>The trace explains the pinned hash: whatever player is selected, row \<open>k\<close> of the trace shows the state of the
  scripted match after \<open>k + 1\<close> ticks, and the last of its 5400 rows carries the hash that
  \<open>arena_hash\<close> prints, although the tool has its own copy of the script.\<close>

theorem trace_explains_the_pin:
  assumes "arena_trace args = Some rows" and "trace_args args (5400, - 1) = Some (5400, only)"
  shows "rows = map (\<lambda>k. trace_row only (script_run [0..<Suc k] 0xC0FFEE01 (arena_init 0 4 0xB0BB1E5))) [0..<5400]
    \<and> tr_hash (last rows) = arena_hash_tool"
proof -
  let ?s = "arena_init 0 4 0xB0BB1E5"
  have "rows = trace_rows only [0..<5400] 0xC0FFEE01 ?s" using assms by (simp add: arena_trace_def)
  also have "\<dots> = map (\<lambda>k. trace_row only (script_run (take (Suc k) [0..<5400]) 0xC0FFEE01 ?s)) [0..<5400]"
    using trace_rows_exact [of "[0..<5400]" only "0xC0FFEE01" ?s] by (simp add: list_all_iff)
  also have "\<dots> = map (\<lambda>k. trace_row only (script_run [0..<Suc k] 0xC0FFEE01 ?s)) [0..<5400]"
    by (rule map_cong) (simp_all add: take_upt del: upt_Suc)
  finally have rows: "rows = map (\<lambda>k. trace_row only (script_run [0..<Suc k] 0xC0FFEE01 ?s)) [0..<5400]" .
  have "last rows = trace_row only (script_run [0..<Suc 5399] 0xC0FFEE01 ?s)"
    using last_map [of "[0..<5400]" "\<lambda>k. trace_row only (script_run [0..<Suc k] 0xC0FFEE01 ?s)"] last_upt [of 0 5400]
    by (simp add: rows del: upt_Suc)
  then have "tr_hash (last rows) = arena_hash_tool"
    by (simp add: trace_row_def arena_hash_tool_def arena_scripted_match_hash_def Let_def del: upt_Suc)
  with rows show ?thesis by blast
qed

theorem trace_explains_the_pin_witness:
  "\<exists>rows. arena_trace [TracePlayer 2] = Some rows \<and> tr_hash (last rows) = arena_hash_tool"
proof -
  obtain rows where rows: "arena_trace [TracePlayer 2] = Some rows" by (simp add: arena_trace_def)
  have "trace_args [TracePlayer 2] (5400, - 1) = Some (5400, 2)" by simp
  from conjunct2 [OF trace_explains_the_pin [OF rows this]] show ?thesis using rows by blast
qed

end
