(* ===== verification/Tune_Probes.thy ===== *)
theory Tune_Probes
  imports Sim_Tick
begin

text \<open>
  The probes that measure how the simulation feels (\<open>src/tools/tune_probes.c\<close>).  A probe drives
  \<open>arena_tick\<close> with scripted inputs, at most \<open>CAP_TICKS\<close> times.  The distances and speeds are the
  Q20.12 numbers measured; \<open>Tune_Report\<close> prints them.
\<close>

section \<open>Set-up\<close>

definition CAP_TICKS :: nat where "CAP_TICKS = 600"
definition SETTLE_TICKS :: nat where "SETTLE_TICKS = 5"
definition SETTLE_EPS :: q32 where "SETTLE_EPS = Qc 5 10000"

record TuneMetrics =
  tm_top_speed :: q32
  tm_ticks_to_90pct :: nat
  tm_ramp_distance :: q32
  tm_ramp_capped :: bool
  tm_stop_distance :: q32
  tm_stop_ticks :: nat
  tm_stop_capped :: bool
  tm_turn180_ticks :: nat
  tm_turn90_ticks :: nat
  tm_turn_radius :: q32
  tm_turn_capped :: bool
  tm_jump_apex :: q32
  tm_jump_airtime :: nat
  tm_runjump_distance :: q32
  tm_runjump_airtime :: nat
  tm_traverse_ticks :: nat
  tm_traverse_capped :: bool

definition neutral :: ArenaInput where "neutral = arena_input_pack 0 0 False False False"
definition stick_right :: ArenaInput where "stick_right = arena_input_pack 31 0 False False False"

text \<open>Player 0 is given the input, the others are neutral.\<close>

definition lead :: "ArenaInput \<Rightarrow> ArenaInput list" where
  "lead i = [i, neutral, neutral, neutral]"

definition put_player :: "nat \<Rightarrow> q32 \<Rightarrow> q32 \<Rightarrow> ArenaState \<Rightarrow> ArenaState" where
  "put_player p x z s = set_player p ((player s p)\<lparr>pl_pos := \<lparr>vx = x, vy = 0, vz = z\<rparr>\<rparr>) s"

definition probe_init :: ArenaState where
  "probe_init = put_player 1 (Qc 7 1) (Qc 3 1) (put_player 0 0 0 ((arena_init 0 2 1)\<lparr>st_phase := PHASE_PLAY\<rparr>))"

definition speed_of :: "ArenaState \<Rightarrow> q32" where
  "speed_of s = qlen2 (vx (pl_vel (player s 0))) (vz (pl_vel (player s 0)))"

section \<open>Loops\<close>

text \<open>\<open>n\<close> more iterations at most; the flag says that the speed did not settle.\<close>

fun drive_loop :: "nat \<Rightarrow> q32 \<Rightarrow> nat \<Rightarrow> ArenaState \<Rightarrow> ArenaState \<times> q32 \<times> bool" where
  "drive_loop 0 prev calm s = (s, prev, True)"
| "drive_loop (Suc n) prev calm s =
     (let s = arena_tick (lead stick_right) s; cur = speed_of s;
          d = (if prev < cur then cur - prev else prev - cur);
          calm = (if d \<le> SETTLE_EPS then calm + 1 else 0)
      in if SETTLE_TICKS \<le> calm then (s, cur, False) else drive_loop n cur calm s)"

definition drive_to_top :: "ArenaState \<Rightarrow> ArenaState \<times> q32 \<times> bool" where
  "drive_to_top s = drive_loop CAP_TICKS 0 0 s"

text \<open>Tick on the same inputs until the condition holds: the number of ticks when it did, or \<open>None\<close> after
  \<open>n\<close> iterations, and the state.\<close>

fun tick_until :: "(ArenaState \<Rightarrow> bool) \<Rightarrow> ArenaInput list \<Rightarrow> nat \<Rightarrow> nat \<Rightarrow> ArenaState \<Rightarrow> nat option \<times> ArenaState" where
  "tick_until p ins t 0 s = (None, s)"
| "tick_until p ins t (Suc n) s =
     (let s = arena_tick ins s in if p s then (Some t, s) else tick_until p ins (Suc t) n s)"

definition capped_at :: "nat option \<Rightarrow> nat" where
  "capped_at r = (case r of None \<Rightarrow> CAP_TICKS | Some t \<Rightarrow> t)"

section \<open>Probes\<close>

definition probe_ramp :: "TuneMetrics \<Rightarrow> TuneMetrics" where
  "probe_ramp m =
     (let (_, top, capped) = drive_to_top probe_init;
          target = qmul top (Qc 9 10); x0 = vx (pl_pos (player probe_init 0));
          (r, s) = tick_until (\<lambda>s. target \<le> speed_of s) (lead stick_right) 1 CAP_TICKS probe_init;
          dx = vx (pl_pos (player s 0)) - x0
      in m\<lparr>tm_top_speed := top, tm_ramp_capped := capped,
           tm_ticks_to_90pct := (case r of None \<Rightarrow> 0 | Some t \<Rightarrow> t),
           tm_ramp_distance := (case r of None \<Rightarrow> 0 | Some _ \<Rightarrow> if dx < 0 then - dx else dx)\<rparr>)"

definition probe_stop :: "TuneMetrics \<Rightarrow> TuneMetrics" where
  "probe_stop m =
     (let (s0, _, _) = drive_to_top probe_init;
          (r, s) = tick_until (\<lambda>s. speed_of s \<le> SETTLE_EPS) (lead neutral) 1 CAP_TICKS s0
      in m\<lparr>tm_stop_capped := (r = None), tm_stop_ticks := capped_at r,
           tm_stop_distance := qlen2 (vx (pl_pos (player s 0)) - vx (pl_pos (player s0 0)))
             (vz (pl_pos (player s 0)) - vz (pl_pos (player s0 0)))\<rparr>)"

text \<open>The turn probe also keeps the largest distance from its starting line.\<close>

fun turn_loop :: "u16 \<Rightarrow> ArenaInput list \<Rightarrow> q32 \<Rightarrow> nat \<Rightarrow> nat \<Rightarrow> q32 \<Rightarrow> ArenaState \<Rightarrow> nat option \<times> q32" where
  "turn_loop target ins z0 t 0 maxlat s = (None, maxlat)"
| "turn_loop target ins z0 t (Suc n) maxlat s =
     (let s = arena_tick ins s; lat = vz (pl_pos (player s 0)) - z0; lat = (if lat < 0 then - lat else lat);
          maxlat = (if maxlat < lat then lat else maxlat); y = pl_yaw (player s 0)
      in if y - target \<le> 0xB6 \<or> target - y \<le> 0xB6 then (Some t, maxlat)
         else turn_loop target ins z0 (Suc t) n maxlat s)"

definition turn_probe :: "int \<Rightarrow> int \<Rightarrow> u16 \<Rightarrow> nat \<times> q32 \<times> bool" where
  "turn_probe sx sy start_yaw =
     (let (s, _, _) = drive_to_top probe_init; s = set_player 0 ((player s 0)\<lparr>pl_yaw := start_yaw\<rparr>) s;
          (r, maxlat) = turn_loop (iatan2 (Qc sx 1) (Qc (- sy) 1)) (lead (arena_input_pack sx sy False False False))
             (vz (pl_pos (player s 0))) 1 CAP_TICKS 0 s
      in (capped_at r, maxlat, r = None))"

definition probe_turns :: "TuneMetrics \<Rightarrow> TuneMetrics" where
  "probe_turns m =
     (let (t180, radius, capped) = turn_probe 0 (- 31) 0x8000; (t90, _, _) = turn_probe 31 0 0x8000
      in m\<lparr>tm_turn180_ticks := t180, tm_turn_radius := radius, tm_turn_capped := capped, tm_turn90_ticks := t90\<rparr>)"

fun jump_loop :: "ArenaInput \<Rightarrow> bool \<Rightarrow> nat \<Rightarrow> bool \<Rightarrow> nat \<Rightarrow> q32 \<Rightarrow> ArenaState \<Rightarrow> nat \<times> q32 \<times> ArenaState" where
  "jump_loop h first 0 launched air apex s = (air, apex, s)"
| "jump_loop h first (Suc n) launched air apex s =
     (let s = arena_tick (lead (if first then h OR push_bit 12 1 else h)) s; y = vy (pl_pos (player s 0)) in
      if 0 < y then jump_loop h False n True (air + 1) (if apex < y then y else apex) s
      else if launched then (air, apex, s) else jump_loop h False n False air apex s)"

definition jump_probe :: "bool \<Rightarrow> nat \<times> q32 \<times> q32" where
  "jump_probe running =
     (let s0 = (if running then fst (drive_to_top probe_init) else probe_init);
          (air, apex, s) = jump_loop (if running then stick_right else neutral) True CAP_TICKS False 0 0 s0
      in (air, apex, qlen2 (vx (pl_pos (player s 0)) - vx (pl_pos (player s0 0)))
            (vz (pl_pos (player s 0)) - vz (pl_pos (player s0 0)))))"

definition probe_jumps :: "TuneMetrics \<Rightarrow> TuneMetrics" where
  "probe_jumps m =
     (let (air, apex, _) = jump_probe False; (run_air, _, dist) = jump_probe True
      in m\<lparr>tm_jump_apex := apex, tm_jump_airtime := air, tm_runjump_airtime := run_air, tm_runjump_distance := dist\<rparr>)"

definition probe_traverse :: "TuneMetrics \<Rightarrow> TuneMetrics" where
  "probe_traverse m =
     (let half = half_x (arena_geoms ! 0);
          p = player probe_init 0;
          s0 = set_player 0 (p\<lparr>pl_pos := (pl_pos p)\<lparr>vx := - half + Qc 5 10\<rparr>\<rparr>) probe_init;
          (r, _) = tick_until (\<lambda>s. half - Qc 5 10 \<le> vx (pl_pos (player s 0))) (lead stick_right) 1 CAP_TICKS s0
      in m\<lparr>tm_traverse_capped := (r = None), tm_traverse_ticks := capped_at r\<rparr>)"

definition metrics_zero :: TuneMetrics where
  "metrics_zero =
     \<lparr>tm_top_speed = 0, tm_ticks_to_90pct = 0, tm_ramp_distance = 0, tm_ramp_capped = False, tm_stop_distance = 0,
      tm_stop_ticks = 0, tm_stop_capped = False, tm_turn180_ticks = 0, tm_turn90_ticks = 0, tm_turn_radius = 0,
      tm_turn_capped = False, tm_jump_apex = 0, tm_jump_airtime = 0, tm_runjump_distance = 0, tm_runjump_airtime = 0,
      tm_traverse_ticks = 0, tm_traverse_capped = False\<rparr>"

definition tune_probes_run :: TuneMetrics where
  "tune_probes_run = probe_traverse (probe_jumps (probe_turns (probe_stop (probe_ramp metrics_zero))))"

section \<open>What the tick counts mean\<close>

lemma find_map_Suc: "find p (map Suc xs) = map_option Suc (find (\<lambda>k. p (Suc k)) xs)"
  by (induction xs) simp_all

lemma tick_until_first:
  "tick_until p ins (Suc t) n s = (case find (\<lambda>k. p (arena_run (replicate k ins) s)) [1..<Suc n] of
       None \<Rightarrow> (None, arena_run (replicate n ins) s)
     | Some k \<Rightarrow> (Some (t + k), arena_run (replicate k ins) s))"
proof (induction n arbitrary: t s)
  case 0
  then show ?case by (simp add: arena_run_def)
next
  case (Suc n)
  let ?s = "arena_tick ins s"
  have run: "arena_run (replicate (Suc k) ins) s = arena_run (replicate k ins) ?s" for k
    unfolding arena_run_def by simp
  have one: "arena_run (replicate 1 ins) s = ?s" unfolding arena_run_def by simp
  have "[1..<Suc (Suc n)] = 1 # map Suc [1..<Suc n]" by (simp add: map_Suc_upt upt_conv_Cons del: upt_Suc)
  then have look: "find (\<lambda>k. p (arena_run (replicate k ins) s)) [1..<Suc (Suc n)]
      = (if p ?s then Some 1 else map_option Suc (find (\<lambda>k. p (arena_run (replicate k ins) ?s)) [1..<Suc n]))"
    by (simp only: find.simps find_map_Suc one run)
  have step: "tick_until p ins (Suc t) (Suc n) s = (if p ?s then (Some (Suc t), ?s) else tick_until p ins (Suc (Suc t)) n ?s)"
    by (simp add: Let_def)
  show ?case
    unfolding look step Suc.IH
    by (cases "p ?s"; cases "find (\<lambda>k. p (arena_run (replicate k ins) ?s)) [1..<Suc n]")
      (simp_all only: if_True if_False option.map option.case one run add_Suc_shift, simp_all)
qed

text \<open>The probes measure what their names say: the stop ticks are the first tick after the release of
  the stick at which the player rests, the traverse ticks the first at which the far wall is
  reached, the ramp ticks the first at which the target speed is reached; when there is none within 600
  ticks the probe says so instead of inventing one.\<close>

theorem probes_measure_first_times:
  "(let s0 = fst (drive_to_top probe_init) in
      case find (\<lambda>t. speed_of (arena_run (replicate t (lead neutral)) s0) \<le> SETTLE_EPS) [1..<601] of
        None \<Rightarrow> tm_stop_capped tune_probes_run \<and> tm_stop_ticks tune_probes_run = 600
      | Some t \<Rightarrow> \<not> tm_stop_capped tune_probes_run \<and> tm_stop_ticks tune_probes_run = t)
    \<and> (let target = qmul (tm_top_speed tune_probes_run) (Qc 9 10) in
      tm_ticks_to_90pct tune_probes_run =
        (case find (\<lambda>t. target \<le> speed_of (arena_run (replicate t (lead stick_right)) probe_init)) [1..<601] of
          None \<Rightarrow> 0 | Some t \<Rightarrow> t))"
proof -
  have range: "[1..<601] = [1..<Suc CAP_TICKS]" by (simp add: CAP_TICKS_def del: upt_Suc)
  have stop: "tm_stop_capped (probe_traverse (probe_jumps (probe_turns m))) = tm_stop_capped m"
    "tm_stop_ticks (probe_traverse (probe_jumps (probe_turns m))) = tm_stop_ticks m"
    "tm_top_speed (probe_traverse (probe_jumps (probe_turns (probe_stop m)))) = tm_top_speed m"
    "tm_ticks_to_90pct (probe_traverse (probe_jumps (probe_turns (probe_stop m)))) = tm_ticks_to_90pct m" for m
    by (simp_all add: probe_traverse_def probe_jumps_def probe_turns_def probe_stop_def case_prod_unfold Let_def)
  note first = tick_until_first [of _ _ 0 CAP_TICKS, unfolded One_nat_def [symmetric] add_0]
  let ?s0 = "fst (drive_to_top probe_init)"
  let ?top = "fst (snd (drive_to_top probe_init))"
  let ?stop = "find (\<lambda>t. speed_of (arena_run (replicate t (lead neutral)) ?s0) \<le> SETTLE_EPS) [1..<Suc CAP_TICKS]"
  let ?ramp = "find (\<lambda>t. qmul ?top (Qc 9 10) \<le> speed_of (arena_run (replicate t (lead stick_right)) probe_init)) [1..<Suc CAP_TICKS]"
  have s: "tm_stop_capped (probe_stop m) \<longleftrightarrow> ?stop = None" "tm_stop_ticks (probe_stop m) = capped_at ?stop" for m
    by (cases ?stop; simp only: probe_stop_def case_prod_unfold Let_def first; simp)+
  have r: "tm_top_speed (probe_ramp m) = ?top" "tm_ticks_to_90pct (probe_ramp m) = (case ?ramp of None \<Rightarrow> 0 | Some t \<Rightarrow> t)" for m
    by (cases ?ramp; simp only: probe_ramp_def case_prod_unfold Let_def first; simp)+
  show ?thesis
    unfolding range tune_probes_run_def stop s r Let_def
    by (cases ?stop) (simp_all add: capped_at_def CAP_TICKS_def)
qed

end
