(* ===== verification/Udp_Socket.thy ===== *)
theory Udp_Socket
  imports Lobby_Proto
begin

text \<open>
  The portable UDP layer (\<open>src/src/netplay/udp_socket.c\<close>), in its POSIX branch.  The operating system
  is an argument: what each call answers.  Every function returns what it asked of the system, in
  order, so that the theorem can say that no descriptor leaks.  The conversions between host and
  network byte order cancel out and are left out.
\<close>

section \<open>The system\<close>

datatype OsCall =
    OsSocket | OsBind int u16 | OsNonblock int | OsClose int | OsConnect int LobbyEndpoint | OsGetsockname int
  | OsSendto int LobbyEndpoint "u8 list" | OsRecvfrom int nat

text \<open>The descriptor \<open>socket\<close> returns, whether the calls on it succeed, and its local name.\<close>

record Os =
  os_socket :: "int option"
  os_bind :: bool
  os_nonblock :: bool
  os_connect :: bool
  os_name :: "LobbyEndpoint option"

datatype OsRecv = OsDatagram LobbyEndpoint "u8 list" | OsAgain | OsInterrupted | OsFailed

text \<open>The descriptor of a \<open>UdpSocket\<close>; \<open>None\<close> is -1.  A null pointer is \<open>None\<close> of the argument.\<close>

type_synonym UdpSocket = "int option"

section \<open>The functions\<close>

text \<open>The first component is the C result, the second the socket afterwards.\<close>

definition udp_open :: "Os \<Rightarrow> UdpSocket option \<Rightarrow> u16 \<Rightarrow> int \<times> UdpSocket option \<times> OsCall list" where
  "udp_open os s port =
     (if s = None then (- 1, None, [])
      else (case os_socket os of None \<Rightarrow> (- 1, Some None, [OsSocket])
        | Some fd \<Rightarrow>
            if \<not> os_bind os then (- 1, Some None, [OsSocket, OsBind fd port, OsClose fd])
            else if \<not> os_nonblock os then (- 1, Some None, [OsSocket, OsBind fd port, OsNonblock fd, OsClose fd])
            else (0, Some (Some fd), [OsSocket, OsBind fd port, OsNonblock fd])))"

definition udp_bound_port :: "Os \<Rightarrow> UdpSocket option \<Rightarrow> u16" where
  "udp_bound_port os s = (case s of Some (Some fd) \<Rightarrow> (case os_name os of None \<Rightarrow> 0 | Some e \<Rightarrow> ep_port e) | _ \<Rightarrow> 0)"

text \<open>\<open>sent\<close> is what \<open>sendto\<close> returns; \<open>buf\<close> is \<open>None\<close> for a null pointer with a length that is not zero.\<close>

definition udp_send :: "int \<Rightarrow> UdpSocket option \<Rightarrow> LobbyEndpoint \<Rightarrow> u8 list option \<Rightarrow> int \<times> OsCall list" where
  "udp_send sent s dest buf = (case (s, buf) of
       (Some (Some fd), Some b) \<Rightarrow> (if sent = int (length b) then 0 else - 1, [OsSendto fd dest b])
     | _ \<Rightarrow> (- 1, []))"

text \<open>A datagram longer than the buffer is cut to it.\<close>

definition udp_recv ::
  "OsRecv \<Rightarrow> UdpSocket option \<Rightarrow> nat \<Rightarrow> int \<times> (LobbyEndpoint \<times> u8 list) option \<times> OsCall list" where
  "udp_recv got s cap = (case s of
       Some (Some fd) \<Rightarrow> (case got of
           OsDatagram e b \<Rightarrow> (int (length (take cap b)), Some (e, take cap b), [OsRecvfrom fd cap])
         | OsAgain \<Rightarrow> (0, None, [OsRecvfrom fd cap])
         | OsInterrupted \<Rightarrow> (0, None, [OsRecvfrom fd cap])
         | OsFailed \<Rightarrow> (- 1, None, [OsRecvfrom fd cap]))
     | _ \<Rightarrow> (- 1, None, []))"

definition udp_local_endpoint_for :: "Os \<Rightarrow> LobbyEndpoint \<Rightarrow> u16 \<Rightarrow> LobbyEndpoint option \<times> OsCall list" where
  "udp_local_endpoint_for os remote bound_port = (case os_socket os of
       None \<Rightarrow> (None, [OsSocket])
     | Some t \<Rightarrow>
         if \<not> os_connect os then (None, [OsSocket, OsConnect t remote, OsClose t])
         else (map_option (\<lambda>me. me\<lparr>ep_port := bound_port\<rparr>) (os_name os),
               [OsSocket, OsConnect t remote, OsGetsockname t, OsClose t]))"

definition udp_now_ms :: "(u64 \<times> u64) option \<Rightarrow> u32" where
  "udp_now_ms ts = (case ts of None \<Rightarrow> 0 | Some (sec, nsec) \<Rightarrow> ucast (sec * 1000 + nsec div 1000000))"

definition udp_sleep_ms :: "u32 \<Rightarrow> u32 \<times> u32" where
  "udp_sleep_ms ms = (ms div 1000, (ms mod 1000) * 1000000)"

definition udp_close :: "UdpSocket option \<Rightarrow> UdpSocket option \<times> OsCall list" where
  "udp_close s = (case s of Some (Some fd) \<Rightarrow> (Some None, [OsClose fd]) | _ \<Rightarrow> (s, []))"

section \<open>Nothing leaks\<close>

text \<open>Descriptors obtained and not given back by a list of calls: \<open>socket\<close> returned \<open>fd\<close> each time.\<close>

definition open_after :: "OsCall list \<Rightarrow> int \<Rightarrow> int" where
  "open_after calls fd = int (length (filter (\<lambda>c. c = OsSocket) calls)) - int (length (filter (\<lambda>c. c = OsClose fd) calls))"

text \<open>A socket that was opened is the only one held, a failed opening holds none, the probe for the
  local address gives back what it took, and closing twice closes once.\<close>

theorem sockets_do_not_leak:
  assumes "os_socket os = Some fd"
  shows "(case udp_open os (Some s) port of (rc, s', calls) \<Rightarrow>
      (rc = 0 \<and> s' = Some (Some fd) \<and> open_after calls fd = 1 \<and> open_after (calls @ snd (udp_close s')) fd = 0)
      \<or> (rc = - 1 \<and> s' = Some None \<and> open_after calls fd = 0 \<and> snd (udp_close s') = []))
    \<and> open_after (snd (udp_local_endpoint_for os remote port)) fd = 0
    \<and> snd (udp_close (fst (udp_close t))) = []"
  using assms
  by (auto simp: udp_open_def udp_local_endpoint_for_def udp_close_def open_after_def split: option.splits)

definition example_os :: Os where
  "example_os = \<lparr>os_socket = Some 5, os_bind = True, os_nonblock = False, os_connect = True, os_name = None\<rparr>"

theorem sockets_do_not_leak_witness:
  "open_after (snd (udp_local_endpoint_for example_os endpoint_none 40064)) 5 = 0"
  using sockets_do_not_leak [of example_os 5] by (simp add: example_os_def)

text \<open>The two parts of a sleep add up to it, and the nanoseconds are in range.\<close>

lemma sleep_is_exact:
  "1000 * unat (fst (udp_sleep_ms ms)) * 1000000 + unat (snd (udp_sleep_ms ms)) = unat ms * 1000000
   \<and> unat (snd (udp_sleep_ms ms)) < 1000000000"
proof -
  have m: "unat (ms mod 1000) < 1000" by (simp add: unat_mod_distrib)
  then have n: "unat ((ms mod 1000) * 1000000) = unat ms mod 1000 * 1000000"
    by (simp add: unat_word_ariths)
  have "1000 * (unat ms div 1000) + unat ms mod 1000 = unat ms" by simp
  then have "1000 * (unat ms div 1000) * 1000000 + unat ms mod 1000 * 1000000 = unat ms * 1000000" by linarith
  then show ?thesis using m n by (simp add: udp_sleep_ms_def unat_div_distrib)
qed

end
