(* ===== verification/Client_Mail.thy ===== *)
theory Client_Mail
  imports Client_Inv
begin

text \<open>
  What a lobby client says and what it goes by: each packet it sends speaks for the role and the
  match it was begun with, and what it has come to know it was told in a message it received.
\<close>

section \<open>What a client says\<close>

type_synonym Terms = "u32 \<times> u8 \<times> u8 \<times> u8"

definition terms :: "LobbyClient \<Rightarrow> Terms" where
  "terms lc = (lc_seed lc, lc_arena_id lc, lc_num_players lc, lc_input_delay lc)"

definition start_of :: "Terms \<Rightarrow> LobbyMsg" where
  "start_of t = (case t of (seed, arena, n, delay) \<Rightarrow> LOBBY_START seed arena n delay)"

lemma start_of_inj [simp]: "start_of s = start_of t \<longleftrightarrow> s = t"
  by (cases s; cases t) (simp add: start_of_def)

text \<open>Only a host asks to host and sends START, only a guest asks to join, and neither ever answers
  for the server.\<close>

definition says :: "LobbyClient \<Rightarrow> LobbyEndpoint \<Rightarrow> LobbyMsg \<Rightarrow> bool" where
  "says lc dst m = (case m of
       LOBBY_HOST_REQ _ _ _ \<Rightarrow> lc_is_host lc
     | LOBBY_JOIN_REQ sid _ _ \<Rightarrow> \<not> lc_is_host lc \<and> sid = lc_session_id lc
     | LOBBY_START _ _ _ _ \<Rightarrow> lc_is_host lc \<and> dst = lc_server lc \<and> m = start_of (terms lc)
     | LOBBY_HOST_RESP _ \<Rightarrow> False
     | LOBBY_JOIN_RESP _ _ \<Rightarrow> False
     | _ \<Rightarrow> True)"

definition mail_ok :: "LobbyClient \<Rightarrow> Packet list \<Rightarrow> bool" where
  "mail_ok lc out \<longleftrightarrow> (\<forall>(dst, buf) \<in> set out. \<exists>m. lobby_unpack buf = Some (Some m) \<and> says lc dst m)"

lemma mail_ok_append [simp]: "mail_ok lc (a @ b) \<longleftrightarrow> mail_ok lc a \<and> mail_ok lc b"
  by (simp add: mail_ok_def ball_Un)

lemma mail_ok_Nil [simp]: "mail_ok lc []"
  by (simp add: mail_ok_def)

lemma mail_send: "says lc dst m \<Longrightarrow> mail_ok lc (send_msg dst m)"
  using pack_read_back [of m _ "[]"] by (auto simp: mail_ok_def send_msg_def split: option.split)

text \<open>What never changes: the charter, and for a guest the session it was asked to join.\<close>

definition errand :: "LobbyClient \<Rightarrow> _ \<times> u16 option" where
  "errand lc = (charter lc, if lc_is_host lc then None else Some (lc_session_id lc))"

lemma says_errand: "errand lc' = errand lc \<Longrightarrow> says lc' = says lc"
  by (intro ext) (auto simp: errand_def charter_def says_def terms_def split: LobbyMsg.split if_splits)

lemma mail_errand: "errand lc' = errand lc \<Longrightarrow> mail_ok lc' out = mail_ok lc out"
  using says_errand [of lc' lc] by (simp add: mail_ok_def)

lemma errand_at_peer [simp]: "errand (at_peer i f lc) = errand lc"
  by (simp add: errand_def) (simp add: at_peer_def)

lemma errandI:
  assumes "charter lc' = charter lc" and "\<not> lc_is_host lc \<Longrightarrow> lc_session_id lc' = lc_session_id lc"
  shows "errand lc' = errand lc"
  using assms by (auto simp: errand_def charter_def)

lemma errand_handle:
  assumes "ranges_ok lc"
  shows "errand (fst (handle_msg now src m lc)) = errand lc"
proof (rule errandI)
  show "charter (fst (handle_msg now src m lc)) = charter lc" using assms by (rule charter_handle)
  show "lc_session_id (fst (handle_msg now src m lc)) = lc_session_id lc" if "\<not> lc_is_host lc"
    using assms that
    by (cases m)
      (auto simp: handle_msg_def on_host_resp_def on_join_resp_def on_reject_def on_peer_intro_def on_punch_ack_def
        on_pair_route_def on_start_def start_seen_def set_fail_text_def know_pair_def at_peer_def
        ranges_ok_def Let_def)
qed

lemma mail_handle: "mail_ok lc (snd (handle_msg now src m lc))"
  by (cases m)
    (auto simp: handle_msg_def on_punch_def on_punch_ack_def on_start_def start_seen_def send_punch_report_def
      send_start_ack_def says_def intro!: mail_send)

lemma drain_skip: "\<nexists>m. lobby_unpack buf = Some (Some m) \<Longrightarrow> drain now ((src, buf) # ds) lc = drain now ds lc"
  by (auto split: option.splits)

lemma drain_mail:
  "ranges_ok lc \<Longrightarrow> booting lc \<Longrightarrow> errand (fst (drain now ds lc)) = errand lc \<and> mail_ok lc (snd (drain now ds lc))"
proof (induction ds arbitrary: lc)
  case (Cons d ds)
  obtain src buf where d: "d = (src, buf)" by (cases d)
  show ?case
  proof (cases "\<exists>m. lobby_unpack buf = Some (Some m)")
    case True
    then obtain m where m: "lobby_unpack buf = Some (Some m)" by blast
    note h = handle_msg_ok [OF Cons.prems, of now src m] errand_handle [OF Cons.prems(1), of now src m]
      mail_handle [of lc now src m]
    show ?thesis
      using h Cons.IH [OF h(1)] mail_errand [OF h(3)] by (auto simp: d m case_prod_unfold Let_def)
  next
    case False
    then show ?thesis using Cons drain_skip [OF False] by (simp add: d)
  qed
qed simp

lemma errand_punch: "errand (fst (punch_peer now i lc)) = errand lc"
  by (simp add: punch_peer_def probe_def Let_def)

lemma mail_punch: "mail_ok lc (snd (punch_peer now i lc))"
  by (auto simp: punch_peer_def probe_def send_punch_to_def send_punch_report_def says_def Let_def intro!: mail_send)

lemma punch_peers_mail: "errand (fst (punch_peers now lc)) = errand lc \<and> mail_ok lc (snd (punch_peers now lc))"
  unfolding punch_peers_def
proof (rule fold_invariant_list)
  fix i r
  assume "errand (fst r) = errand lc \<and> mail_ok lc (snd r)"
  then show "errand (fst (collect (punch_peer now i) r)) = errand lc \<and> mail_ok lc (snd (collect (punch_peer now i) r))"
    using mail_punch [of "fst r" now i] mail_errand [of "fst r" lc]
    by (simp add: collect_def case_prod_unfold Let_def errand_punch)
qed simp

lemma mail_requests:
  "lc_is_host lc \<Longrightarrow> mail_ok lc (send_host_req lc)" "\<not> lc_is_host lc \<Longrightarrow> mail_ok lc (send_join_req lc)"
  by (auto simp: send_host_req_def send_join_req_def says_def intro!: mail_send)

lemma errand_update:
  "errand (lc\<lparr>lc_last_send := t\<rparr>) = errand lc" "errand (lc\<lparr>lc_last_send := t, lc_retries := n\<rparr>) = errand lc"
  "errand (lc\<lparr>lc_stage := st\<rparr>) = errand lc" "errand (fail_here lc) = errand lc"
  "errand (lc\<lparr>lc_host_start_sent := b, lc_last_start := t\<rparr>) = errand lc"
  "errand (lc\<lparr>lc_last_keepalive := t\<rparr>) = errand lc" "errand (lobby_set_forced_relay lc) = errand lc"
  by (simp_all add: errand_def charter_def fail_here_def set_fail_text_def lobby_set_forced_relay_def)

lemma duty_mail:
  assumes "ranges_ok lc"
  shows "errand (fst (stage_duty now lc)) = errand lc \<and> mail_ok lc (snd (stage_duty now lc))"
proof -
  have "errand (enter_punching now lc) = errand lc" for lc
    unfolding enter_punching_def
    by (rule fold_invariant_list) (simp_all add: errand_update)
  moreover have "mail_ok lc (if lc_is_host lc then send_host_req (lc\<lparr>lc_last_send := now\<rparr>) else send_join_req (lc\<lparr>lc_last_send := now\<rparr>))"
    using mail_requests [of "lc\<lparr>lc_last_send := now\<rparr>"] mail_errand [OF errand_update(1)] by simp
  moreover have "errand (fst (request_retry now lc)) = errand lc \<and> mail_ok lc (snd (request_retry now lc))"
    if "lc_stage lc = LOBBY_C_REGISTERING \<or> lc_stage lc = LOBBY_C_JOINING"
    using assms that mail_requests [of "lc\<lparr>lc_last_send := now, lc_retries := lc_retries lc + 1\<rparr>"]
      mail_errand [OF errand_update(2)]
    by (auto simp: request_retry_def errand_update ranges_ok_def Let_def)
  ultimately show ?thesis
    using punch_peers_mail [of now lc]
    by (simp add: stage_duty_def wait_for_peers_def errand_update Let_def split: LobbyClientStage.split)
qed

lemma rest_mail:
  "errand (fst (host_duty now lc)) = errand lc" "mail_ok lc (snd (host_duty now lc))"
  "errand (settle lc) = errand lc" "errand (fst (keep_alive now lc)) = errand lc" "mail_ok lc (snd (keep_alive now lc))"
proof -
  let ?u = "lc\<lparr>lc_host_start_sent := True, lc_last_start := now\<rparr>"
  have "mail_ok ?u (send_start ?u)" if "lc_is_host lc"
    using that by (auto simp: send_start_def says_def terms_def start_of_def intro!: mail_send)
  then show "mail_ok lc (snd (host_duty now lc))"
    using mail_errand [OF errand_update(5)] by (auto simp: host_duty_def Let_def)
  show "errand (fst (host_duty now lc)) = errand lc"
    by (simp add: host_duty_def errand_update Let_def)
  show "errand (settle lc) = errand lc"
    by (simp add: settle_def errand_update) (simp add: fill_result_def errand_def charter_def)
  show "errand (fst (keep_alive now lc)) = errand lc"
    by (simp add: keep_alive_def errand_update)
  show "mail_ok lc (snd (keep_alive now lc))"
    by (auto simp: keep_alive_def send_keepalive_def says_def intro!: mail_send)
qed

lemma poll_mail:
  assumes "ranges_ok lc"
  shows "errand (fst (lobby_poll now inbox lc)) = errand lc \<and> mail_ok lc (snd (lobby_poll now inbox lc))"
proof (cases "booting lc")
  case True
  let ?d = "fst (drain now (take 128 inbox) lc)"
  let ?s = "fst (stage_duty now ?d)"
  let ?h = "fst (host_duty now ?s)"
  note d = drain_mail [OF assms True, of now "take 128 inbox"] drain_ok [OF assms True, of now "take 128 inbox"]
  have s: "errand ?s = errand ?d" "mail_ok ?d (snd (stage_duty now ?d))" using duty_mail d(2) by blast+
  have "errand ?d = errand lc" "errand ?s = errand lc" "errand (settle ?h) = errand lc"
    using d s by (simp_all add: rest_mail)
  then have "mail_ok ?d = mail_ok lc" "mail_ok ?s = mail_ok lc" "mail_ok (settle ?h) = mail_ok lc"
    by (intro ext mail_errand; simp)+
  then have "mail_ok lc (snd (stage_duty now ?d))" "mail_ok lc (snd (host_duty now ?s))"
    "mail_ok lc (snd (keep_alive now (settle ?h)))"
    using s(2) rest_mail(2) [of ?s now] rest_mail(5) [of "settle ?h" now] by simp_all
  then show ?thesis
    using True d by (simp add: lobby_poll_def booting_iff case_prod_unfold Let_def errand_update rest_mail s)
next
  case False
  then show ?thesis by (auto simp: lobby_poll_def booting_iff)
qed

lemma begin_mail:
  "lobby_host_begin port local_ep sv n seed arena delay now = Some (lc, out) \<Longrightarrow> mail_ok lc out"
  "lobby_join_begin port local_ep code now = Some (lc, out) \<Longrightarrow> mail_ok lc out"
  by (auto simp: lobby_host_begin_def lobby_join_begin_def client_init_def Let_def intro!: mail_requests
      split: if_splits option.splits)

lemma post_mail: "mail_ok lc (post_packet d lc)"
  by (auto simp: post_packet_def send_start_ack_def says_def intro!: mail_send split: option.split LobbyMsg.split)

section \<open>What a client goes by\<close>

text \<open>\<open>M\<close> are the messages delivered to it: a host has its session id, a guest its seat and the
  match from one of them.\<close>

definition heard :: "LobbyMsg set \<Rightarrow> LobbyClient \<Rightarrow> bool" where
  "heard M lc \<longleftrightarrow>
     (lc_is_host lc \<longrightarrow> lc_local_slot lc = 0 \<and> (lc_session_id lc = 0 \<or> LOBBY_HOST_RESP (lc_session_id lc) \<in> M)
        \<and> (LOBBY_C_WAITING_PEERS \<le> lc_stage lc \<and> lc_stage lc \<le> LOBBY_C_READY \<longrightarrow> lc_session_id lc \<noteq> 0))
     \<and> (\<not> lc_is_host lc \<and> lc_start_seen lc \<longrightarrow> lc_stage lc \<noteq> LOBBY_C_JOINING \<and> start_of (terms lc) \<in> M)
     \<and> (\<not> lc_is_host lc \<and> LOBBY_C_WAITING_PEERS \<le> lc_stage lc \<and> lc_stage lc \<le> LOBBY_C_READY \<longrightarrow>
          (\<exists>n. LOBBY_JOIN_RESP (lc_local_slot lc) n \<in> M))"

lemma heard_more: "heard M lc \<Longrightarrow> M \<subseteq> N \<Longrightarrow> heard N lc"
  by (auto simp: heard_def)

text \<open>The fields it reads.\<close>

lemma heard_frame:
  assumes "lc_is_host lc' = lc_is_host lc" and "lc_local_slot lc' = lc_local_slot lc"
    and "lc_session_id lc' = lc_session_id lc" and "terms lc' = terms lc"
    and "lc_start_seen lc' = lc_start_seen lc" and "lc_stage lc' = lc_stage lc"
  shows "heard M lc' = heard M lc"
  using assms by (simp add: heard_def)

lemma heard_at_peer [simp]: "heard M (at_peer i f lc) = heard M lc"
  by (rule heard_frame) (simp_all add: at_peer_def terms_def)

lemma heard_later:
  assumes "heard M lc" and "LOBBY_C_WAITING_PEERS \<le> lc_stage lc \<and> lc_stage lc \<le> LOBBY_C_READY \<or> st = LOBBY_C_FAILED"
    and "st \<noteq> LOBBY_C_JOINING"
  shows "heard M (lc\<lparr>lc_stage := st\<rparr>)"
  using assms by (auto simp: heard_def terms_def stage_order)

lemma heard_handle:
  assumes "heard M lc" and "ranges_ok lc" and "m \<in> M"
  shows "heard M (fst (handle_msg now src m lc))"
proof -
  have fail: "heard M ((set_fail_text a b lc)\<lparr>lc_stage := LOBBY_C_FAILED\<rparr>)" for a b
    using heard_later [of M "set_fail_text a b lc" LOBBY_C_FAILED] assms(1) heard_frame [of "set_fail_text a b lc" lc M]
    by (simp add: set_fail_text_def terms_def)
  show ?thesis
  proof (cases m)
    case (LOBBY_HOST_RESP sid)
    then show ?thesis
      using assms by (auto simp: handle_msg_def on_host_resp_def heard_def at_peer_def ranges_ok_def stage_order)
  next
    case (LOBBY_JOIN_RESP slot n)
    then show ?thesis
      using assms by (auto simp: handle_msg_def on_join_resp_def heard_def at_peer_def ranges_ok_def stage_order)
  next
    case (LOBBY_REJECT r)
    then show ?thesis using assms(1) fail by (simp add: handle_msg_def on_reject_def)
  next
    case (LOBBY_PEER_INTRO s pub prv)
    have "heard M (lc'\<lparr>lc_rng := x\<rparr>) = heard M lc'" for lc' x
      by (rule heard_frame) (simp_all add: terms_def)
    then show ?thesis using LOBBY_PEER_INTRO assms(1) by (simp add: handle_msg_def on_peer_intro_def Let_def)
  next
    case LOBBY_PUNCH_ACK
    then show ?thesis using assms(1) by (simp add: handle_msg_def on_punch_ack_def)
  next
    case (LOBBY_PAIR_ROUTE a b r)
    have "heard M (know_pair x y lc) = heard M lc" for x y
      by (rule heard_frame) (simp_all add: know_pair_def terms_def)
    then show ?thesis using LOBBY_PAIR_ROUTE assms(1) by (simp add: handle_msg_def on_pair_route_def Let_def)
  next
    case (LOBBY_START seed arena n delay)
    let ?lc = "lc\<lparr>lc_seed := seed, lc_arena_id := arena, lc_num_players := n, lc_input_delay := delay\<rparr>"
    have "heard M (?lc\<lparr>lc_start_seen := True\<rparr>)" if "\<not> lc_is_host lc" "lc_stage lc \<noteq> LOBBY_C_JOINING"
      using assms(1,3) that LOBBY_START by (auto simp: heard_def terms_def start_of_def)
    moreover have "heard M (lc\<lparr>lc_start_seen := True\<rparr>)" if "lc_is_host lc" "lc_stage lc \<noteq> LOBBY_C_JOINING"
      using assms(1) that by (auto simp: heard_def terms_def)
    moreover have "lc_stage lc \<noteq> LOBBY_C_JOINING" if "\<not> lc_stage lc < LOBBY_C_WAITING_PEERS"
      using that by (auto simp: stage_order)
    ultimately show ?thesis
      using LOBBY_START assms(1) fail by (simp add: handle_msg_def on_start_def start_seen_def)
  qed (use assms(1) in \<open>simp_all add: handle_msg_def\<close>)
qed

lemma heard_drain:
  "heard M lc \<Longrightarrow> ranges_ok lc \<Longrightarrow> booting lc \<Longrightarrow>
     \<forall>(src, buf) \<in> set ds. \<forall>m. lobby_unpack buf = Some (Some m) \<longrightarrow> m \<in> M \<Longrightarrow> heard M (fst (drain now ds lc))"
proof (induction ds arbitrary: lc)
  case (Cons d ds)
  obtain src buf where d: "d = (src, buf)" by (cases d)
  show ?case
  proof (cases "\<exists>m. lobby_unpack buf = Some (Some m)")
    case True
    then obtain m where m: "lobby_unpack buf = Some (Some m)" by blast
    have h: "heard M (fst (handle_msg now src m lc))"
      using heard_handle [OF Cons.prems(1,2)] Cons.prems(4) by (simp add: d m)
    note ok = handle_msg_ok [OF Cons.prems(2,3), of now src m]
    show ?thesis
      using h ok Cons.IH [OF h ok(1)] Cons.prems(4) by (auto simp: d m case_prod_unfold Let_def)
  next
    case False
    then show ?thesis using Cons drain_skip [OF False] by (simp add: d)
  qed
qed simp

lemma heard_update:
  "heard M (lc\<lparr>lc_last_send := t\<rparr>) = heard M lc" "heard M (lc\<lparr>lc_last_send := t, lc_retries := n\<rparr>) = heard M lc"
  "heard M (lc\<lparr>lc_host_start_sent := b, lc_last_start := t\<rparr>) = heard M lc"
  "heard M (lc\<lparr>lc_last_keepalive := t\<rparr>) = heard M lc" "heard M (lobby_set_forced_relay lc) = heard M lc"
  "heard M (set_fail_text a c lc) = heard M lc" "heard M (lc\<lparr>lc_result := r\<rparr>) = heard M lc"
  by (simp_all add: heard_def terms_def set_fail_text_def lobby_set_forced_relay_def)

lemma heard_fail: "heard M lc \<Longrightarrow> heard M (fail_here lc)"
  unfolding fail_here_def by (rule heard_later) (simp_all add: heard_update)

lemma heard_punch: "heard M (fst (punch_peer now i lc)) = heard M lc"
  by (simp add: punch_peer_def probe_def Let_def)

lemma heard_duty:
  assumes "heard M lc"
  shows "heard M (fst (stage_duty now lc))"
proof -
  have "heard M (enter_punching now lc)" if "lc_stage lc = LOBBY_C_WAITING_PEERS"
    unfolding enter_punching_def
    by (rule fold_invariant_list) (use that assms in \<open>simp_all add: heard_later stage_order\<close>)
  moreover have "heard M (fst (punch_peers now lc))"
    unfolding punch_peers_def
    by (rule fold_invariant_list) (simp_all add: collect_fst heard_punch assms)
  moreover have "heard M (fst (request_retry now lc))"
    using assms heard_fail [of M "lc\<lparr>lc_last_send := now, lc_retries := lc_retries lc + 1\<rparr>"]
    by (simp add: request_retry_def heard_update Let_def)
  ultimately show ?thesis
    using assms by (simp add: stage_duty_def wait_for_peers_def heard_update Let_def split: LobbyClientStage.split)
qed

lemma heard_rest:
  "heard M (fst (host_duty now lc)) = heard M lc" "heard M (fst (keep_alive now lc)) = heard M lc"
  "heard M lc \<Longrightarrow> heard M (settle lc)"
  by (auto simp: host_duty_def keep_alive_def settle_def fill_result_def heard_update Let_def stage_order intro!: heard_later)

lemma heard_poll:
  assumes "heard M lc" and "ranges_ok lc" and "booting lc"
    and "\<forall>(src, buf) \<in> set inbox. \<forall>m. lobby_unpack buf = Some (Some m) \<longrightarrow> m \<in> M"
  shows "heard M (fst (lobby_poll now inbox lc))"
proof -
  have "heard M (fst (drain now (take 128 inbox) lc))"
    using assms by (intro heard_drain) (auto dest: in_set_takeD)
  then show ?thesis
    using assms(1) by (simp add: lobby_poll_def case_prod_unfold Let_def heard_duty heard_rest heard_fail)
qed

lemma heard_begin:
  "lobby_host_begin port local_ep sv n seed arena delay now = Some (lc, out) \<Longrightarrow> heard {} lc"
  "lobby_join_begin port local_ep code now = Some (lc, out) \<Longrightarrow> heard {} lc"
  by (auto simp: lobby_host_begin_def lobby_join_begin_def client_init_def heard_def stage_order Let_def
      split: if_splits option.splits)

end
