(* ===== verification/Lobby_Rolls.thy ===== *)
theory Lobby_Rolls
  imports Rv_Inv
begin

text \<open>
  The server seen from outside: the seats of its live lobbies and the matches ordered in them, what
  one datagram can change of these, and what the packets the server sends say about them.
\<close>

section \<open>Seats and orders\<close>

definition seats_in :: "RvSession \<Rightarrow> (u16 \<times> nat \<times> LobbyEndpoint) set" where
  "seats_in s = (if se_phase s = RV_FREE then {} else {(se_id s, p, e) |p e. p < 4 \<and> slots s ! p = Some e})"

definition orders_in :: "RvSession \<Rightarrow> (u16 \<times> LobbyMsg) set" where
  "orders_in s = (if se_phase s = RV_FREE then {} else {(se_id s, m) |m. se_start s = Some m})"

definition seats_of :: "RvSession list \<Rightarrow> (u16 \<times> nat \<times> LobbyEndpoint) set" where
  "seats_of ss = (\<Union>s \<in> set ss. seats_in s)"

definition orders_of :: "RvSession list \<Rightarrow> (u16 \<times> LobbyMsg) set" where
  "orders_of ss = (\<Union>s \<in> set ss. orders_in s)"

lemma Union_update_same: "i < length xs \<Longrightarrow> f x = f (xs ! i) \<Longrightarrow> (\<Union>y \<in> set (xs[i := x]). f y) = (\<Union>y \<in> set xs. f y)"
  by (metis list.set_map list_update_id map_update)

lemma Union_update_sub: "(\<Union>y \<in> set (xs[i := x]). f y) \<subseteq> (\<Union>y \<in> set xs. f y) \<union> f x"
  using set_update_subset_insert [of xs i x] by blast

lemma seats_update: "i < length ss \<Longrightarrow> seats_in s = seats_in (ss ! i) \<Longrightarrow> seats_of (ss[i := s]) = seats_of ss"
  by (simp add: seats_of_def Union_update_same)

lemma orders_update: "i < length ss \<Longrightarrow> orders_in s = orders_in (ss ! i) \<Longrightarrow> orders_of (ss[i := s]) = orders_of ss"
  by (simp add: orders_of_def Union_update_same)

lemma seats_in_roster: "roster s = roster t \<Longrightarrow> se_phase s \<noteq> RV_FREE \<Longrightarrow> se_phase t \<noteq> RV_FREE \<Longrightarrow> seats_in s = seats_in t"
  by (simp add: seats_in_def roster_eq)

lemma orders_in_same:
  "roster s = roster t \<Longrightarrow> se_phase s \<noteq> RV_FREE \<Longrightarrow> se_phase t \<noteq> RV_FREE \<Longrightarrow> se_start s = se_start t \<Longrightarrow>
     orders_in s = orders_in t"
  by (simp add: orders_in_def roster_eq)

lemma seat_cases: "p < 4 \<longleftrightarrow> p = 0 \<or> p = 1 \<or> p = 2 \<or> p = (3 :: nat)"
  by auto

lemma seats_memI: "i < length ss \<Longrightarrow> x \<in> seats_in (ss ! i) \<Longrightarrow> x \<in> seats_of ss"
  by (auto simp: seats_of_def)

lemma orders_memI: "i < length ss \<Longrightarrow> x \<in> orders_in (ss ! i) \<Longrightarrow> x \<in> orders_of ss"
  by (auto simp: orders_of_def)

lemma seats_at:
  assumes "table_ok ss" and "i < 64" and "se_phase (ss ! i) \<noteq> RV_FREE"
  shows "(se_id (ss ! i), p, e) \<in> seats_of ss \<longleftrightarrow> p < 4 \<and> slots (ss ! i) ! p = Some e"
proof
  assume "(se_id (ss ! i), p, e) \<in> seats_of ss"
  then obtain j where j: "j < length ss" "se_phase (ss ! j) \<noteq> RV_FREE" "se_id (ss ! j) = se_id (ss ! i)"
      "p < 4" "slots (ss ! j) ! p = Some e"
    by (auto simp: seats_of_def seats_in_def in_set_conv_nth split: if_splits)
  then have "j = i"
    using find_session_unique [OF assms] find_session_unique [OF assms(1) _ j(2)] assms(1) by (simp add: table_ok_def)
  then show "p < 4 \<and> slots (ss ! i) ! p = Some e" using j by simp
next
  assume "p < 4 \<and> slots (ss ! i) ! p = Some e"
  then show "(se_id (ss ! i), p, e) \<in> seats_of ss"
    using assms by (intro seats_memI [of i]) (auto simp: seats_in_def table_ok_def)
qed

lemma live_has_host:
  assumes "table_ok ss" and "i < 64" and "se_phase (ss ! i) \<noteq> RV_FREE"
  shows "\<exists>h. (se_id (ss ! i), 0, h) \<in> seats_of ss"
proof -
  have "members_ok (ss ! i)"
    using assms session_okD(3) by (auto simp: table_ok_def dest: list_all_nthD)
  then show ?thesis using seats_at [OF assms, of 0] by (auto simp: members_ok_def)
qed

lemma seats_id_live:
  assumes "find_session ss sid = None" and "sid \<noteq> 0"
  shows "sid \<notin> fst ` seats_of ss"
  using assms
  by (auto simp: find_session_def seats_of_def seats_in_def find_index_from_None split: if_splits)

section \<open>What the server says\<close>

definition voice :: "(u16 \<times> nat \<times> LobbyEndpoint) set \<Rightarrow> (u16 \<times> LobbyMsg) set \<Rightarrow> LobbyEndpoint \<Rightarrow> LobbyMsg \<Rightarrow> bool" where
  "voice seats orders dst m = (case m of
       LOBBY_HOST_RESP sid \<Rightarrow> (sid, 0, dst) \<in> seats
     | LOBBY_JOIN_RESP slot _ \<Rightarrow> (\<exists>sid. (sid, unat slot, dst) \<in> seats)
     | LOBBY_START _ _ _ _ \<Rightarrow> (\<exists>sid p. (sid, p, dst) \<in> seats \<and> (sid, m) \<in> orders)
     | LOBBY_HOST_REQ _ _ _ \<Rightarrow> False
     | LOBBY_JOIN_REQ _ _ _ \<Rightarrow> False
     | _ \<Rightarrow> True)"

definition voiced :: "(u16 \<times> nat \<times> LobbyEndpoint) set \<Rightarrow> (u16 \<times> LobbyMsg) set \<Rightarrow> Packets \<Rightarrow> bool" where
  "voiced seats orders out \<longleftrightarrow> (\<forall>(dst, buf) \<in> set out. \<exists>m. lobby_unpack buf = Some (Some m) \<and> voice seats orders dst m)"

lemma voiced_append [simp]: "voiced S R (a @ b) \<longleftrightarrow> voiced S R a \<and> voiced S R b"
  by (simp add: voiced_def ball_Un)

lemma voiced_Nil [simp]: "voiced S R []"
  by (simp add: voiced_def)

lemma voiced_concat: "(\<And>x. x \<in> set xs \<Longrightarrow> voiced S R (f x)) \<Longrightarrow> voiced S R (concat (map f xs))"
  by (induction xs) simp_all

lemma voiced_emit: "voice S R dst m \<Longrightarrow> voiced S R (emit_msg dst m)"
  using pack_read_back [of m _ "[]"] by (auto simp: voiced_def emit_msg_def split: option.split)

lemma voiced_quiet:
  "voiced S R (emit_reject dst r)" "voiced S R (resend_intros_to s p)" "voiced S R (fan_peer_intro s p)"
  "voiced S R (fan_route s (LOBBY_PAIR_ROUTE a b r))"
  by (auto simp: emit_reject_def resend_intros_to_def fan_peer_intro_def fan_route_def intro_of_def voice_def
      intro!: voiced_concat voiced_emit)

lemma voiced_fan_start:
  assumes "seats_in s \<subseteq> S" and "orders_in s \<subseteq> R" and "se_phase s \<noteq> RV_FREE" and "length (se_peers s) = 4"
    and "\<And>m. se_start s = Some m \<Longrightarrow> \<exists>seed arena n delay. m = LOBBY_START seed arena n delay"
  shows "voiced S R (fan_start s unacked)"
proof (cases "se_start s")
  case None
  then show ?thesis by (simp add: fan_start_def)
next
  case (Some m)
  have "voiced S R (emit_msg (pe_public p) m)" if p: "p \<in> set (se_peers s)" "pe_used p" for p
  proof (rule voiced_emit)
    from p obtain i where "i < 4" "se_peers s ! i = p" using assms(4) by (auto simp: in_set_conv_nth)
    then have "(se_id s, i, pe_public p) \<in> S"
      using assms(1,3,4) p(2) slots_nth(1) [of i s] by (auto simp: seats_in_def)
    moreover have "(se_id s, m) \<in> R" using assms(2,3) Some by (auto simp: orders_in_def)
    ultimately show "voice S R (pe_public p) m" using assms(5) [OF Some] by (force simp: voice_def)
  qed
  then show ?thesis by (auto simp: fan_start_def Some intro!: voiced_concat)
qed

section \<open>What one datagram changes\<close>

text \<open>Who may take which seat by message \<open>m\<close> from \<open>src\<close>: seat 0 of a new lobby, or a free one of the
  lobby it names.\<close>

definition fresh_seats :: "LobbyEndpoint \<Rightarrow> LobbyMsg \<Rightarrow> RvSession list \<Rightarrow> (u16 \<times> nat \<times> LobbyEndpoint) set" where
  "fresh_seats src m ss = (case m of
       LOBBY_HOST_REQ _ _ _ \<Rightarrow> {(sid, 0, src) |sid. sid \<notin> fst ` seats_of ss}
     | LOBBY_JOIN_REQ sid _ _ \<Rightarrow>
         {(sid, p, src) |p. 0 < p \<and> sid \<in> fst ` seats_of ss \<and> (\<forall>e. (sid, p, e) \<notin> seats_of ss)}
     | _ \<Rightarrow> {})"

definition ordered_by :: "LobbyEndpoint \<Rightarrow> LobbyMsg \<Rightarrow> RvSession list \<Rightarrow> (u16 \<times> LobbyMsg) set" where
  "ordered_by src m ss = (case m of
       LOBBY_START _ _ _ _ \<Rightarrow> {(sid, m) |sid. (sid, 0, src) \<in> seats_of ss}
     | _ \<Rightarrow> {})"

definition served :: "LobbyEndpoint \<Rightarrow> LobbyMsg \<Rightarrow> RvSession list \<Rightarrow> RvSession list \<Rightarrow> Packets \<Rightarrow> bool" where
  "served src m ss ss' out \<longleftrightarrow>
     seats_of ss \<subseteq> seats_of ss' \<and> seats_of ss' \<subseteq> seats_of ss \<union> fresh_seats src m ss
     \<and> orders_of ss' \<subseteq> orders_of ss \<union> ordered_by src m ss
     \<and> voiced (seats_of ss') (orders_of ss') out"

lemma served_same: "voiced (seats_of ss) (orders_of ss) out \<Longrightarrow> served src m ss ss out"
  by (simp add: served_def)

text \<open>An operation that leaves the members and the START message alone.\<close>

lemma served_keep:
  assumes "i < length ss" and "se_phase (ss ! i) \<noteq> RV_FREE" and "se_phase s \<noteq> RV_FREE"
    and "roster s = roster (ss ! i)" and "se_start s = se_start (ss ! i)"
    and "voiced (seats_of ss) (orders_of ss) out"
  shows "served src m ss (ss[i := s]) out"
  using assms seats_in_roster [OF assms(4,3,2)] orders_in_same [OF assms(4,3,2,5)]
  by (simp add: served_def seats_update orders_update)

lemma report_start: "se_start (fst (report_punch now src rep oth sa sb ok s)) = se_start s"
  by (simp add: report_punch_def punch_recorded_def route_decided_def Let_def)

lemma ack_start_start: "se_start (ack_start now p s) = se_start s" "se_start (relayed now p s) = se_start s"
  by (simp_all add: ack_start_def relayed_def Let_def)

lemma table_at: "table_ok ss \<Longrightarrow> i < length ss \<Longrightarrow> i < 64 \<and> length (se_peers (ss ! i)) = 4 \<and> session_ok (ss ! i)"
  by (auto simp: table_ok_def dest: list_all_nthD session_okD(1))

lemma voice_emit_host: "(sid, 0, src) \<in> S \<Longrightarrow> voiced S R (emit_msg src (LOBBY_HOST_RESP sid))"
  by (rule voiced_emit) (simp add: voice_def)

lemma voice_emit_join: "(sid, p, src) \<in> S \<Longrightarrow> p < 4 \<Longrightarrow> voiced S R (emit_msg src (LOBBY_JOIN_RESP (of_nat p) n))"
  by (rule voiced_emit) (auto simp: voice_def unat_of_nat)

lemma host_served:
  assumes "table_ok (rv_sessions rv)"
  shows "served src (LOBBY_HOST_REQ ver np prv) (rv_sessions rv) (rv_sessions (fst (do_host_req now src ver np prv rv)))
    (snd (do_host_req now src ver np prv rv))"
proof (cases "find_index (hosted_lobby src) (rv_sessions rv)")
  case (Some i)
  let ?ss = "rv_sessions rv"
  have i: "i < length ?ss" "hosted_lobby src (?ss ! i)" using Some by (auto dest: find_index_SomeD)
  note at = table_at [OF assms i(1)]
  have live: "se_phase (?ss ! i) \<noteq> RV_FREE" "slots (?ss ! i) ! 0 = Some src"
    using i(2) at by (auto simp: hosted_lobby_def slots_nth)
  then have "(se_id (?ss ! i), 0, src) \<in> seats_of ?ss" using seats_at [OF assms _ live(1)] at by simp
  then have "served src (LOBBY_HOST_REQ ver np prv) ?ss (?ss[i := seen now 0 (?ss ! i)])
      (emit_msg src (LOBBY_HOST_RESP (se_id (?ss ! i))) @ resend_intros_to (seen now 0 (?ss ! i)) 0)"
    using live by (intro served_keep [OF i(1)]) (simp_all add: voiced_quiet voice_emit_host)
  moreover have "se_id (seen now 0 (?ss ! i)) = se_id (?ss ! i)" by (simp add: seen_def)
  ultimately show ?thesis using i(1) by (simp add: do_host_req_def Some Let_def at_session_table)
next
  case None
  let ?ss = "rv_sessions rv"
  have open_lobby: "served src (LOBBY_HOST_REQ ver np prv) ?ss (?ss[i := new_lobby now src sid ver np prv])
      (emit_msg src (LOBBY_HOST_RESP sid))"
    if "i < length ?ss" "se_phase (?ss ! i) = RV_FREE" "find_session ?ss sid = None" "sid \<noteq> 0" for i sid
  proof -
    let ?n = "new_lobby now src sid ver np prv"
    have n: "se_phase ?n \<noteq> RV_FREE" "se_id ?n = sid" "se_start ?n = None" by (simp_all add: new_lobby_def session_clear_def)
    then have new: "seats_in ?n = {(sid, 0, src)}" "orders_in ?n = {}"
      by (auto simp: seats_in_def orders_in_def seat_cases)
    have "?ss = (?ss[i := ?n])[i := ?ss ! i]" by simp
    then have "seats_of ?ss \<subseteq> seats_of (?ss[i := ?n])"
      using Union_update_sub [of seats_in "?ss[i := ?n]" i "?ss ! i"] that(2)
      by (simp add: seats_of_def seats_in_def)
    moreover have "seats_of (?ss[i := ?n]) \<subseteq> seats_of ?ss \<union> {(sid, 0, src)}" "orders_of (?ss[i := ?n]) \<subseteq> orders_of ?ss"
      using Union_update_sub [of seats_in ?ss i ?n] Union_update_sub [of orders_in ?ss i ?n]
      by (simp_all add: seats_of_def orders_of_def new)
    moreover have "(sid, 0, src) \<in> seats_of (?ss[i := ?n])"
      using that(1) new by (intro seats_memI [of i]) simp_all
    moreover have "(sid, 0, src) \<in> fresh_seats src (LOBBY_HOST_REQ ver np prv) ?ss"
      using seats_id_live [OF that(3,4)] by (simp add: fresh_seats_def)
    ultimately show ?thesis by (auto simp: served_def voice_emit_host)
  qed
  show ?thesis
    using pick_id_fresh [of ?ss 4096 "rv_rng rv"]
    by (auto simp: do_host_req_def None Let_def at_session_table served_same voiced_quiet
        intro!: open_lobby dest: find_index_SomeD split: option.splits prod.splits)
qed

lemma join_served:
  assumes "table_ok (rv_sessions rv)"
  shows "served src (LOBBY_JOIN_REQ sid ver prv) (rv_sessions rv) (rv_sessions (fst (do_join_req now src sid ver prv rv)))
    (snd (do_join_req now src sid ver prv rv))"
proof (cases "find_session (rv_sessions rv) sid")
  case None
  then show ?thesis by (simp add: do_join_req_def served_same voiced_quiet)
next
  case (Some i)
  let ?ss = "rv_sessions rv" and ?s = "rv_sessions rv ! i"
  have i: "i < length ?ss" "se_phase ?s \<noteq> RV_FREE" "se_id ?s = sid" using find_session_SomeD [OF Some] by simp_all
  note at = table_at [OF assms i(1)]
  have again: "served src (LOBBY_JOIN_REQ sid ver prv) ?ss (?ss[i := seen now p ?s])
      (emit_msg src (LOBBY_JOIN_RESP (of_nat p) n) @ resend_intros_to (seen now p ?s) p)" if "peer_of ?s src = Some p" for p n
  proof -
    have p: "p < 4" "slots ?s ! p = Some src" using peer_of_SomeD [OF that] at by simp_all
    then have "(sid, p, src) \<in> seats_of ?ss" using seats_at [OF assms _ i(2), of p src] at i(3) by simp
    then show ?thesis using i(2) p(1) by (intro served_keep [OF i(1)]) (simp_all add: voiced_quiet voice_emit_join)
  qed
  have seat: "served src (LOBBY_JOIN_REQ sid ver prv) ?ss (?ss[i := add_peer now p src prv ?s])
      (emit_msg src (LOBBY_JOIN_RESP (of_nat p) n) @ fan_peer_intro (add_peer now p src prv ?s) p)"
    if "find_index (\<lambda>p. \<not> pe_used p) (se_peers ?s) = Some p" for p n
  proof -
    let ?n = "add_peer now p src prv ?s"
    have p: "p < 4" "slots ?s ! p = None" using find_index_SomeD [OF that] at by (simp_all add: slots_nth)
    obtain h where h: "(sid, 0, h) \<in> seats_of ?ss" using live_has_host [OF assms _ i(2)] at i(3) by blast
    then have "p \<noteq> 0" using p(2) seats_at [OF assms _ i(2), of 0 h] at i(3) by (intro notI) simp
    have n: "se_phase ?n = se_phase ?s" "se_id ?n = sid" "se_start ?n = se_start ?s" using i(3) by (simp_all add: add_peer_def)
    then have new: "seats_in ?n = insert (sid, p, src) (seats_in ?s)" "orders_in ?n = orders_in ?s"
      using i p at by (auto simp: seats_in_def orders_in_def nth_list_update_if split: if_splits)
    have eq: "?ss = (?ss[i := ?n])[i := ?s]" by simp
    have "seats_of ?ss \<subseteq> seats_of (?ss[i := ?n])"
      using Union_update_sub [of seats_in "?ss[i := ?n]" i ?s] i(1) seats_memI [of i "?ss[i := ?n]"]
      unfolding eq [symmetric] by (auto simp: seats_of_def new)
    moreover have "seats_of (?ss[i := ?n]) \<subseteq> seats_of ?ss \<union> {(sid, p, src)}"
      using Union_update_sub [of seats_in ?ss i ?n] seats_memI [of i ?ss] i(1) by (auto simp: seats_of_def new)
    moreover have "orders_of (?ss[i := ?n]) = orders_of ?ss" using i(1) new(2) by (rule orders_update)
    moreover have "(sid, p, src) \<in> seats_of (?ss[i := ?n])" using i(1) new by (intro seats_memI [of i]) simp_all
    moreover have "(sid, p, src) \<in> fresh_seats src (LOBBY_JOIN_REQ sid ver prv) ?ss"
      using h p seats_at [OF assms _ i(2), of p] at i(3) \<open>p \<noteq> 0\<close> by (force simp: fresh_seats_def)
    ultimately show ?thesis using p(1) by (auto simp: served_def voice_emit_join voiced_quiet)
  qed
  show ?thesis
    using i(1) again seat
    by (auto simp: do_join_req_def Some Let_def at_session_table served_same voiced_quiet split: option.split)
qed

lemma report_served:
  assumes "table_ok (rv_sessions rv)"
  shows "served src m (rv_sessions rv) (rv_sessions (fst (do_punch_report now src sid a b ok rv)))
    (snd (do_punch_report now src sid a b ok rv))"
proof -
  have "voiced S R (snd (report_punch now src rep oth sa sb ok s))" for S R rep oth sa sb s
    by (simp add: report_punch_def Let_def voiced_quiet) (auto intro!: voiced_emit simp: voice_def)
  moreover have "served src m (rv_sessions rv) ((rv_sessions rv)[i := fst (report_punch now src rep oth sa sb ok (rv_sessions rv ! i))]) out"
    if "find_session (rv_sessions rv) sid = Some i" "\<And>S R. voiced S R out" for i rep oth sa sb out
    using find_session_SomeD [OF that(1)] that(2) by (intro served_keep) (simp_all add: report_phase report_start)
  ultimately show ?thesis
    by (simp add: do_punch_report_def at_session_table served_same Let_def case_prod_unfold split: option.split)
qed

lemma start_served:
  assumes "table_ok (rv_sessions rv)" and m: "m = LOBBY_START seed arena n delay"
  shows "served src m (rv_sessions rv) (rv_sessions (fst (do_start now src m rv))) (snd (do_start now src m rv))"
proof (cases "find_index (hosts src) (rv_sessions rv)")
  case None
  then show ?thesis by (simp add: do_start_def served_same)
next
  case (Some i)
  let ?ss = "rv_sessions rv" and ?s = "rv_sessions rv ! i"
  let ?n = "start_session now m ?s"
  have i: "i < length ?ss" "hosts src ?s" using Some by (auto dest: find_index_SomeD)
  note at = table_at [OF assms(1) i(1)]
  have s: "se_phase ?s \<noteq> RV_FREE" "slots ?s ! 0 = Some src" using i(2) at by (auto simp: hosts_def slots_nth)
  have n: "se_phase ?n \<noteq> RV_FREE" "se_start ?n = Some m" using s(1) by (simp_all add: start_session_def Let_def)
  have same_roster: "roster ?n = roster ?s" by simp
  then have id: "se_id ?n = se_id ?s" unfolding roster_eq by blast
  have same: "seats_of (?ss[i := ?n]) = seats_of ?ss" using seats_in_roster [OF same_roster n(1) s(1)] i(1) by (simp add: seats_update)
  have "(se_id ?s, 0, src) \<in> seats_of ?ss" using seats_at [OF assms(1) _ s(1), of 0 src] at s(2) by simp
  then have "orders_in ?n \<subseteq> ordered_by src m ?ss"
    using n id by (auto simp: orders_in_def ordered_by_def m)
  then have "orders_of (?ss[i := ?n]) \<subseteq> orders_of ?ss \<union> ordered_by src m ?ss"
    using Union_update_sub [of orders_in ?ss i ?n] by (auto simp: orders_of_def)
  moreover have "voiced (seats_of (?ss[i := ?n])) (orders_of (?ss[i := ?n])) (fan_start ?n unacked)" for unacked
  proof (rule voiced_fan_start)
    show "seats_in ?n \<subseteq> seats_of (?ss[i := ?n])" using i(1) seats_memI [of i "?ss[i := ?n]"] by auto
    show "orders_in ?n \<subseteq> orders_of (?ss[i := ?n])" using i(1) orders_memI [of i "?ss[i := ?n]"] by auto
    show "length (se_peers ?n) = 4" using at by (simp add: peers_length)
  qed (use n m in auto)
  ultimately have "served src m ?ss (?ss[i := ?n]) (fan_start ?n unacked)" for unacked
    using same by (simp add: served_def)
  then show ?thesis
    using i(1) by (simp add: do_start_def Some Let_def at_session_table served_same)
qed

lemma quiet_served:
  "served src m (rv_sessions rv) (rv_sessions (do_start_ack now src sid slot rv)) []"
  "served src m (rv_sessions rv) (rv_sessions (do_keepalive now src sid rv)) []"
  by (auto simp: do_start_ack_def do_keepalive_def at_session_table served_same ack_phase ack_start_start
      intro!: served_keep dest!: find_session_SomeD split: option.splits)

lemma relay_served:
  assumes "lobby_unpack buf = Some (Some (LOBBY_RELAY sid' fs' ts' payload))"
  shows "served src m (rv_sessions rv) (rv_sessions (fst (do_relay now src sid fs ts buf rv))) (snd (do_relay now src sid fs ts buf rv))"
proof -
  have "voiced S R [(dst, buf)]" for S R dst using assms by (simp add: voiced_def voice_def)
  then show ?thesis
    by (auto simp: do_relay_def at_session_table served_same Let_def relayed_phase ack_start_start
        intro!: served_keep dest!: find_session_SomeD split: option.splits)
qed

lemma dispatch_served:
  assumes "table_ok (rv_sessions rv)" and "lobby_unpack buf = Some (Some m)"
  shows "served src m (rv_sessions rv) (rv_sessions (fst (rv_dispatch now src buf m rv))) (snd (rv_dispatch now src buf m rv))"
  using assms
  by (cases m) (simp_all add: rv_dispatch_def host_served join_served report_served start_served quiet_served
      relay_served served_same)

lemma handle_served:
  assumes "table_ok (rv_sessions rv)"
  shows "rv_sessions (fst (rv_handle now src buf rv)) = rv_sessions rv \<and> snd (rv_handle now src buf rv) = []
    \<or> (\<exists>m. lobby_unpack buf = Some (Some m)
        \<and> served src m (rv_sessions rv) (rv_sessions (fst (rv_handle now src buf rv))) (snd (rv_handle now src buf rv)))"
proof (cases "\<exists>m. lobby_unpack buf = Some (Some m)")
  case True
  then obtain m where m: "lobby_unpack buf = Some (Some m)" by blast
  show ?thesis
    using dispatch_served [OF assms m, of src now] dispatch_served [of "fst (rate_take rv now (ep_ip src))", OF _ m, of src now] assms
    by (simp add: rv_handle_def m case_prod_unfold Let_def)
next
  case False
  then have "rv_handle now src buf rv = (rv, [])"
    by (auto simp: rv_handle_def split: option.splits)
  then show ?thesis by simp
qed

section \<open>What the clock changes\<close>

lemma tick_session_seats:
  "seats_in (fst (tick_session now s)) = {} \<and> orders_in (fst (tick_session now s)) = {}
     \<or> seats_in (fst (tick_session now s)) = seats_in s \<and> orders_in (fst (tick_session now s)) = orders_in s"
proof -
  have clear: "seats_in session_clear = {}" "orders_in session_clear = {}"
    by (simp_all add: seats_in_def orders_in_def session_clear_def)
  have "se_start (fst (refan now s)) = se_start s" by (simp add: refan_def)
  then show ?thesis
    using tick_session_cases [of now s] clear seats_in_roster [OF roster_refan [of now s]]
      orders_in_same [OF roster_refan [of now s]]
    by (auto simp: refan_phase)
qed

lemma tick_seats:
  assumes "table_ok ss"
  shows "seats_of (map (fst \<circ> tick_session now) ss) \<subseteq> seats_of ss"
    and "orders_of (map (fst \<circ> tick_session now) ss) \<subseteq> orders_of ss"
    and "(sid, p, e) \<in> seats_of ss \<Longrightarrow> sid \<in> fst ` seats_of (map (fst \<circ> tick_session now) ss) \<Longrightarrow>
      (sid, p, e) \<in> seats_of (map (fst \<circ> tick_session now) ss)"
proof -
  show "seats_of (map (fst \<circ> tick_session now) ss) \<subseteq> seats_of ss" "orders_of (map (fst \<circ> tick_session now) ss) \<subseteq> orders_of ss"
    using tick_session_seats [of now] by (fastforce simp: seats_of_def orders_of_def)+
  assume seat: "(sid, p, e) \<in> seats_of ss" and "sid \<in> fst ` seats_of (map (fst \<circ> tick_session now) ss)"
  then obtain s p' e' where s: "s \<in> set ss" "(sid, p', e') \<in> seats_in (fst (tick_session now s))"
    by (auto simp: seats_of_def)
  then have whole: "seats_in (fst (tick_session now s)) = seats_in s" using tick_session_seats [of now s] by auto
  from s(1) obtain i where i: "i < length ss" "ss ! i = s" by (auto simp: in_set_conv_nth)
  have "se_phase (ss ! i) \<noteq> RV_FREE" "se_id (ss ! i) = sid"
    using s(2) whole i(2) by (auto simp: seats_in_def split: if_splits)
  then have "p < 4 \<and> slots s ! p = Some e" "se_phase s \<noteq> RV_FREE" "se_id s = sid"
    using seats_at [OF assms, of i p e] seat table_at [OF assms i(1)] i(2) by auto
  then have "(sid, p, e) \<in> seats_in s" by (simp add: seats_in_def)
  then show "(sid, p, e) \<in> seats_of (map (fst \<circ> tick_session now) ss)"
    using s(1) whole by (auto simp: seats_of_def)
qed

lemma tick_voiced:
  assumes "table_ok ss"
  shows "voiced (seats_of ss) (orders_of ss) (concat (map (snd \<circ> tick_session now) ss))"
proof (rule voiced_concat)
  fix s assume s: "s \<in> set ss"
  then have ok: "session_ok s" using assms by (simp add: table_ok_def list_all_iff)
  have "voiced (seats_of ss) (orders_of ss) (fan_start s True)" if "se_phase s \<noteq> RV_FREE"
  proof (rule voiced_fan_start)
    show "seats_in s \<subseteq> seats_of ss" "orders_in s \<subseteq> orders_of ss" using s by (auto simp: seats_of_def orders_of_def)
    show "\<exists>seed arena n delay. m = LOBBY_START seed arena n delay" if "se_start s = Some m" for m
      using session_okD(4) [OF ok \<open>se_phase s \<noteq> RV_FREE\<close>] that \<open>se_phase s \<noteq> RV_FREE\<close>
      by (cases "se_phase s") (auto simp: phase_ok_def)
  qed (use that ok session_okD(1) in auto)
  then show "voiced (seats_of ss) (orders_of ss) ((snd \<circ> tick_session now) s)"
    by (simp add: tick_session_def refan_def case_prod_unfold Let_def)
qed

end
