(* ===== verification/Lobby_System.thy ===== *)
theory Lobby_System
  imports Client_Mail Lobby_Rolls
begin

text \<open>
  The lobby as a whole: one rendezvous server, any number of clients and the network between them.
  The network is the set of all datagrams ever sent, with sender and destination: what is received
  was sent, but may be lost, late, repeated or out of order, which is all that UDP promises.  A
  client is known by the address the server sees; each address begins at most one bootstrap.  Game
  traffic, and any other bytes but five messages, may come from anywhere under any sender's name.
\<close>

section \<open>The system\<close>

record LobbySystem =
  sy_server :: Rendezvous
  sy_client :: "LobbyEndpoint \<rightharpoonup> LobbyClient"
  sy_air :: "(LobbyEndpoint \<times> LobbyEndpoint \<times> u8 list) set"
  sy_seats :: "(u16 \<times> nat \<times> LobbyEndpoint) set"
  sy_opened :: "u16 list"

text \<open>The last two fields record the past: every seat the server ever gave in a lobby of an id, and the
  ids in the order it opened lobbies under them.\<close>

definition live_ids :: "Rendezvous \<Rightarrow> u16 list" where
  "live_ids rv = map se_id (filter (\<lambda>s. se_phase s \<noteq> RV_FREE) (rv_sessions rv))"

definition post :: "LobbyEndpoint \<Rightarrow> Packets \<Rightarrow> LobbySystem \<Rightarrow> LobbySystem" where
  "post e out y = y\<lparr>sy_air := sy_air y \<union> (\<lambda>(dst, buf). (e, dst, buf)) ` set out\<rparr>"

definition set_client :: "LobbyEndpoint \<Rightarrow> LobbyClient \<Rightarrow> LobbySystem \<Rightarrow> LobbySystem" where
  "set_client e lc y = y\<lparr>sy_client := (sy_client y)(e \<mapsto> lc)\<rparr>"

definition set_server :: "Rendezvous \<Rightarrow> LobbySystem \<Rightarrow> LobbySystem" where
  "set_server rv y = y\<lparr>sy_server := rv, sy_seats := sy_seats y \<union> seats_of (rv_sessions rv),
     sy_opened := sy_opened y @ filter (\<lambda>i. i \<notin> set (live_ids (sy_server y))) (live_ids rv)\<rparr>"

text \<open>The five messages that carry who hosts, who sits where and what is played.\<close>

definition binding :: "LobbyMsg \<Rightarrow> bool" where
  "binding m = (case m of
       LOBBY_HOST_REQ _ _ _ \<Rightarrow> True | LOBBY_HOST_RESP _ \<Rightarrow> True | LOBBY_JOIN_REQ _ _ _ \<Rightarrow> True
     | LOBBY_JOIN_RESP _ _ \<Rightarrow> True | LOBBY_START _ _ _ _ \<Rightarrow> True | _ \<Rightarrow> False)"

inductive lobby_run :: "LobbyEndpoint \<Rightarrow> LobbySystem \<Rightarrow> bool" for sv :: LobbyEndpoint where
  run_boot: "lobby_run sv \<lparr>sy_server = rv_init now seed, sy_client = Map.empty, sy_air = {}, sy_seats = {}, sy_opened = []\<rparr>"
| run_host: "lobby_run sv y \<Longrightarrow> e \<noteq> sv \<Longrightarrow> sy_client y e = None \<Longrightarrow>
    lobby_host_begin port local_ep sv n seed arena delay now = Some (lc, out) \<Longrightarrow>
    lobby_run sv (post e out (set_client e lc y))"
| run_join: "lobby_run sv y \<Longrightarrow> e \<noteq> sv \<Longrightarrow> sy_client y e = None \<Longrightarrow>
    lobby_join_begin port local_ep code now = Some (lc, out) \<Longrightarrow> lc_server lc = sv \<Longrightarrow>
    lobby_run sv (post e out (set_client e lc y))"
| run_poll: "lobby_run sv y \<Longrightarrow> sy_client y e = Some lc \<Longrightarrow> \<forall>(src, buf) \<in> set inbox. (src, e, buf) \<in> sy_air y \<Longrightarrow>
    lobby_poll now inbox lc = (lc', out) \<Longrightarrow> lobby_run sv (post e out (set_client e lc' y))"
| run_force: "lobby_run sv y \<Longrightarrow> sy_client y e = Some lc \<Longrightarrow> lobby_run sv (set_client e (lobby_set_forced_relay lc) y)"
| run_late: "lobby_run sv y \<Longrightarrow> sy_client y e = Some lc \<Longrightarrow> lc_stage lc = LOBBY_C_READY \<Longrightarrow> (src, e, buf) \<in> sy_air y \<Longrightarrow>
    lobby_run sv (post e (post_packet (src, buf) lc) y)"
| run_serve: "lobby_run sv y \<Longrightarrow> (src, sv, buf) \<in> sy_air y \<Longrightarrow> rv_handle now src buf (sy_server y) = (rv, out) \<Longrightarrow>
    lobby_run sv (post sv out (set_server rv y))"
| run_tick: "lobby_run sv y \<Longrightarrow> rv_tick now (sy_server y) = (rv, out) \<Longrightarrow> lobby_run sv (post sv out (set_server rv y))"
| run_other: "lobby_run sv y \<Longrightarrow> \<forall>m. lobby_unpack buf = Some (Some m) \<longrightarrow> \<not> binding m \<Longrightarrow>
    lobby_run sv (post e [(dst, buf)] y)"

lemma post_fields [simp]:
  "sy_server (post e out y) = sy_server y" "sy_client (post e out y) = sy_client y"
  "sy_seats (post e out y) = sy_seats y" "sy_opened (post e out y) = sy_opened y"
  "sy_air (post e out y) = sy_air y \<union> (\<lambda>(dst, buf). (e, dst, buf)) ` set out"
  by (simp_all add: post_def)

lemma set_client_fields [simp]:
  "sy_server (set_client e lc y) = sy_server y" "sy_client (set_client e lc y) = (sy_client y)(e \<mapsto> lc)"
  "sy_seats (set_client e lc y) = sy_seats y" "sy_opened (set_client e lc y) = sy_opened y"
  "sy_air (set_client e lc y) = sy_air y"
  by (simp_all add: set_client_def)

lemma set_server_fields [simp]:
  "sy_server (set_server rv y) = rv" "sy_client (set_server rv y) = sy_client y" "sy_air (set_server rv y) = sy_air y"
  "sy_seats (set_server rv y) = sy_seats y \<union> seats_of (rv_sessions rv)"
  "set (sy_opened (set_server rv y)) = set (sy_opened y) \<union> (set (live_ids rv) - set (live_ids (sy_server y)))"
  by (auto simp: set_server_def)

section \<open>Roles\<close>

definition hosting :: "(LobbyEndpoint \<rightharpoonup> LobbyClient) \<Rightarrow> LobbyEndpoint \<Rightarrow> Terms \<Rightarrow> bool" where
  "hosting cl e t \<longleftrightarrow> (\<exists>lc. cl e = Some lc \<and> lc_is_host lc \<and> terms lc = t)"

definition joining :: "(LobbyEndpoint \<rightharpoonup> LobbyClient) \<Rightarrow> LobbyEndpoint \<Rightarrow> u16 \<Rightarrow> bool" where
  "joining cl e sid \<longleftrightarrow> (\<exists>lc. cl e = Some lc \<and> \<not> lc_is_host lc \<and> lc_session_id lc = sid)"

text \<open>Clients come and go on with their errand, but none is forgotten.\<close>

definition goes_on :: "(LobbyEndpoint \<rightharpoonup> LobbyClient) \<Rightarrow> (LobbyEndpoint \<rightharpoonup> LobbyClient) \<Rightarrow> bool" where
  "goes_on cl cl' \<longleftrightarrow> (\<forall>e lc. cl e = Some lc \<longrightarrow> (\<exists>lc'. cl' e = Some lc' \<and> errand lc' = errand lc))"

lemma goes_on_new: "cl e = None \<Longrightarrow> goes_on cl (cl(e \<mapsto> lc))"
  by (auto simp: goes_on_def)

lemma goes_on_update: "cl e = Some lc \<Longrightarrow> errand lc' = errand lc \<Longrightarrow> goes_on cl (cl(e \<mapsto> lc'))"
  by (auto simp: goes_on_def)

lemma hosting_goes_on: "goes_on cl cl' \<Longrightarrow> hosting cl e t \<Longrightarrow> hosting cl' e t"
  unfolding goes_on_def hosting_def by (fastforce simp: errand_def charter_def terms_def)

lemma joining_goes_on: "goes_on cl cl' \<Longrightarrow> joining cl e sid \<Longrightarrow> joining cl' e sid"
  unfolding goes_on_def joining_def by (fastforce simp: errand_def charter_def split: if_splits)

definition seat_true :: "(LobbyEndpoint \<rightharpoonup> LobbyClient) \<Rightarrow> u16 \<times> nat \<times> LobbyEndpoint \<Rightarrow> bool" where
  "seat_true cl seat = (case seat of (sid, p, e) \<Rightarrow> if p = 0 then (\<exists>t. hosting cl e t) else joining cl e sid)"

lemma seat_true_goes_on: "goes_on cl cl' \<Longrightarrow> seat_true cl seat \<Longrightarrow> seat_true cl' seat"
  unfolding seat_true_def using hosting_goes_on [of cl cl'] joining_goes_on [of cl cl']
  by (cases seat) (simp split: if_splits, blast)

text \<open>A match ordered in a lobby is the match of a host that has sat at its head.\<close>

definition order_true :: "(LobbyEndpoint \<rightharpoonup> LobbyClient) \<Rightarrow> (u16 \<times> nat \<times> LobbyEndpoint) set \<Rightarrow> u16 \<times> LobbyMsg \<Rightarrow> bool" where
  "order_true cl seats order = (case order of (sid, m) \<Rightarrow>
     \<exists>h t. (sid, 0, h) \<in> seats \<and> hosting cl h t \<and> m = start_of t)"

lemma order_true_mono: "goes_on cl cl' \<Longrightarrow> S \<subseteq> S' \<Longrightarrow> order_true cl S order \<Longrightarrow> order_true cl' S' order"
  unfolding order_true_def using hosting_goes_on [of cl cl'] by (cases order) (simp, blast)

definition mail_true :: "LobbyEndpoint \<Rightarrow> (LobbyEndpoint \<rightharpoonup> LobbyClient) \<Rightarrow> (u16 \<times> nat \<times> LobbyEndpoint) set \<Rightarrow>
    LobbyEndpoint \<Rightarrow> LobbyEndpoint \<Rightarrow> LobbyMsg \<Rightarrow> bool" where
  "mail_true sv cl seats src dst m = (case m of
       LOBBY_HOST_REQ _ _ _ \<Rightarrow> \<exists>t. hosting cl src t
     | LOBBY_JOIN_REQ sid _ _ \<Rightarrow> joining cl src sid
     | LOBBY_START _ _ _ _ \<Rightarrow> (\<exists>t. hosting cl src t \<and> m = start_of t \<and> dst = sv)
         \<or> (\<exists>sid p. (sid, p, dst) \<in> seats \<and> order_true cl seats (sid, m))
     | LOBBY_HOST_RESP sid \<Rightarrow> (sid, 0, dst) \<in> seats
     | LOBBY_JOIN_RESP slot _ \<Rightarrow> (\<exists>sid. (sid, unat slot, dst) \<in> seats)
     | _ \<Rightarrow> True)"

lemma mail_true_mono:
  assumes "goes_on cl cl'" and "S \<subseteq> S'" and "mail_true sv cl S src dst m"
  shows "mail_true sv cl' S' src dst m"
  using assms hosting_goes_on [OF assms(1)] joining_goes_on [OF assms(1)] order_true_mono [OF assms(1,2)]
  by (cases m) (auto simp: mail_true_def; blast)+

lemma says_true:
  assumes "cl e = Some lc" and "lc_server lc = sv" and "says lc dst m"
  shows "mail_true sv cl S e dst m"
proof (cases m)
  case (LOBBY_START seed arena n delay)
  then have "hosting cl e (terms lc) \<and> m = start_of (terms lc) \<and> dst = sv"
    using assms by (auto simp: says_def hosting_def)
  then have "\<exists>t. hosting cl e t \<and> m = start_of t \<and> dst = sv" by blast
  then show ?thesis unfolding mail_true_def LOBBY_START LobbyMsg.case by (rule disjI1)
qed (use assms in \<open>auto simp: says_def mail_true_def hosting_def joining_def simp del: split_paired_Ex\<close>)

lemma voice_true:
  assumes "voice S R dst m" and "S \<subseteq> S'" and "\<And>x. x \<in> R \<Longrightarrow> order_true cl S' x"
  shows "mail_true sv cl S' src dst m"
  using assms by (cases m) (auto simp: voice_def mail_true_def; blast)+

section \<open>The invariant\<close>

definition delivered :: "LobbyEndpoint \<Rightarrow> LobbySystem \<Rightarrow> LobbyMsg set" where
  "delivered e y = {m. \<exists>src buf. (src, e, buf) \<in> sy_air y \<and> lobby_unpack buf = Some (Some m)}"

definition clients_fine :: "LobbyEndpoint \<Rightarrow> LobbySystem \<Rightarrow> bool" where
  "clients_fine sv y \<longleftrightarrow> sy_client y sv = None
     \<and> (\<forall>e lc. sy_client y e = Some lc \<longrightarrow> client_ok lc \<and> lc_server lc = sv \<and> heard (delivered e y) lc)"

definition air_fine :: "LobbyEndpoint \<Rightarrow> LobbySystem \<Rightarrow> bool" where
  "air_fine sv y \<longleftrightarrow> (\<forall>(src, dst, buf) \<in> sy_air y. \<forall>m. lobby_unpack buf = Some (Some m) \<longrightarrow>
     mail_true sv (sy_client y) (sy_seats y) src dst m)"

definition server_fine :: "LobbySystem \<Rightarrow> bool" where
  "server_fine y \<longleftrightarrow> rv_ok (sy_server y) \<and> seats_of (rv_sessions (sy_server y)) \<subseteq> sy_seats y
     \<and> (\<forall>x \<in> sy_seats y. seat_true (sy_client y) x)
     \<and> (\<forall>x \<in> orders_of (rv_sessions (sy_server y)). order_true (sy_client y) (sy_seats y) x)"

text \<open>As long as no id is opened twice, a seat has at most one holder, for good.\<close>

definition seats_settled :: "LobbySystem \<Rightarrow> bool" where
  "seats_settled y \<longleftrightarrow> fst ` sy_seats y \<subseteq> set (sy_opened y)
     \<and> (distinct (sy_opened y) \<longrightarrow>
          (\<forall>sid p e e'. (sid, p, e) \<in> sy_seats y \<and> (sid, p, e') \<in> sy_seats y \<longrightarrow> e = e')
          \<and> (\<forall>sid p e. (sid, p, e) \<in> sy_seats y \<and> sid \<in> fst ` seats_of (rv_sessions (sy_server y)) \<longrightarrow>
               (sid, p, e) \<in> seats_of (rv_sessions (sy_server y))))"

definition system_fine :: "LobbyEndpoint \<Rightarrow> LobbySystem \<Rightarrow> bool" where
  "system_fine sv y \<longleftrightarrow> clients_fine sv y \<and> air_fine sv y \<and> server_fine y \<and> seats_settled y"

lemma delivered_mono: "sy_air y \<subseteq> sy_air y' \<Longrightarrow> delivered e y \<subseteq> delivered e y'"
  by (auto simp: delivered_def)

text \<open>A client that is new or has gone on, and what it sends.\<close>

lemma client_step_fine:
  assumes "system_fine sv y" and "e \<noteq> sv" and "goes_on (sy_client y) ((sy_client y)(e \<mapsto> lc))"
    and "client_ok lc" and "lc_server lc = sv" and "heard (delivered e y) lc" and "mail_ok lc out"
  shows "system_fine sv (post e out (set_client e lc y))" (is "system_fine sv ?y")
proof -
  have air: "sy_air y \<subseteq> sy_air ?y" by auto
  have "clients_fine sv ?y"
    using assms heard_more [OF _ delivered_mono [OF air]]
    by (auto simp: system_fine_def clients_fine_def split: if_splits)
  moreover have "air_fine sv ?y"
    using assms(1) mail_true_mono [OF assms(3) subset_refl] says_true [of "(sy_client y)(e \<mapsto> lc)" e lc sv] assms(5,7)
    by (fastforce simp: system_fine_def air_fine_def mail_ok_def)
  moreover have "server_fine ?y"
    using assms(1) seat_true_goes_on [OF assms(3)] order_true_mono [OF assms(3) subset_refl]
    by (simp add: system_fine_def server_fine_def)
  moreover have "seats_settled ?y" using assms(1) by (simp add: system_fine_def seats_settled_def)
  ultimately show ?thesis by (simp add: system_fine_def)
qed

lemma post_fine:
  assumes "system_fine sv y"
    and "\<And>dst buf m. (dst, buf) \<in> set out \<Longrightarrow> lobby_unpack buf = Some (Some m) \<Longrightarrow>
      mail_true sv (sy_client y) (sy_seats y) e dst m"
  shows "system_fine sv (post e out y)"
proof -
  have air: "sy_air y \<subseteq> sy_air (post e out y)" by auto
  have "clients_fine sv (post e out y)"
    using assms(1) heard_more [OF _ delivered_mono [OF air]] by (auto simp: system_fine_def clients_fine_def)
  then show ?thesis
    using assms by (fastforce simp: system_fine_def air_fine_def server_fine_def seats_settled_def)
qed

lemma live_ids_seats:
  assumes "table_ok (rv_sessions rv)"
  shows "set (live_ids rv) = fst ` seats_of (rv_sessions rv)"
proof
  show "set (live_ids rv) \<subseteq> fst ` seats_of (rv_sessions rv)"
  proof
    fix sid assume "sid \<in> set (live_ids rv)"
    then obtain i where i: "i < length (rv_sessions rv)" "se_phase (rv_sessions rv ! i) \<noteq> RV_FREE" "se_id (rv_sessions rv ! i) = sid"
      by (auto simp: live_ids_def in_set_conv_nth)
    then show "sid \<in> fst ` seats_of (rv_sessions rv)"
      using live_has_host [OF assms _ i(2)] assms by (force simp: table_ok_def)
  qed
  show "fst ` seats_of (rv_sessions rv) \<subseteq> set (live_ids rv)"
    by (auto simp: live_ids_def seats_of_def seats_in_def split: if_splits)
qed

lemma served_settled:
  assumes "seats_settled y" and "table_ok (rv_sessions (sy_server y))" and "table_ok (rv_sessions rv)"
    and "seats_of (rv_sessions (sy_server y)) \<subseteq> sy_seats y"
    and "served src m (rv_sessions (sy_server y)) (rv_sessions rv) out"
  shows "seats_settled (set_server rv y)"
proof -
  let ?old = "seats_of (rv_sessions (sy_server y))" and ?new = "seats_of (rv_sessions rv)"
  have grow: "?old \<subseteq> ?new" "?new \<subseteq> ?old \<union> fresh_seats src m (rv_sessions (sy_server y))"
    using assms(5) by (simp_all add: served_def)
  have opened: "set (sy_opened (set_server rv y)) = set (sy_opened y) \<union> (fst ` ?new - fst ` ?old)"
    by (simp add: live_ids_seats assms(2,3))
  have past: "fst ` sy_seats y \<subseteq> set (sy_opened y)" using assms(1) by (simp add: seats_settled_def)
  then have one: "fst ` sy_seats (set_server rv y) \<subseteq> set (sy_opened (set_server rv y))"
    unfolding opened using assms(4) by auto
  have "(\<forall>sid p e e'. (sid, p, e) \<in> sy_seats y \<union> ?new \<and> (sid, p, e') \<in> sy_seats y \<union> ?new \<longrightarrow> e = e')
      \<and> (\<forall>sid p e. (sid, p, e) \<in> sy_seats y \<union> ?new \<and> sid \<in> fst ` ?new \<longrightarrow> (sid, p, e) \<in> ?new)"
    if "distinct (sy_opened (set_server rv y))"
  proof -
    have new_id: "sid \<notin> set (sy_opened y)" if "sid \<in> fst ` ?new" "sid \<notin> fst ` ?old" for sid
      using that \<open>distinct _\<close> by (auto simp: set_server_def live_ids_seats [symmetric] assms(2,3))
    have settled: "(sid, p, e) \<in> sy_seats y \<Longrightarrow> (sid, p, e') \<in> sy_seats y \<Longrightarrow> e = e'"
        "(sid, p, e) \<in> sy_seats y \<Longrightarrow> sid \<in> fst ` ?old \<Longrightarrow> (sid, p, e) \<in> ?old" for sid p e e'
      using assms(1) \<open>distinct _\<close> unfolding seats_settled_def set_server_def by auto
    have held: "(sid, p, e) \<in> ?new" if "(sid, p, e) \<in> sy_seats y" "sid \<in> fst ` ?new" for sid p e
    proof (cases "sid \<in> fst ` ?old")
      case True
      then show ?thesis using settled(2) [OF that(1)] grow(1) by blast
    next
      case False
      then have "sid \<notin> set (sy_opened y)" using new_id that(2) by blast
      then show ?thesis using past that(1) by force
    qed
    have new_or_old: "(sid, p, e) \<in> ?old \<or> e = src \<and> (\<forall>e'. (sid, p, e') \<notin> ?old)" if "(sid, p, e) \<in> ?new" for sid p e
      using grow(2) that by (force simp: fresh_seats_def split: LobbyMsg.splits)
    have once: "e = e'" if "(sid, p, e) \<in> ?new" "(sid, p, e') \<in> ?new" for sid p e e'
      using new_or_old [OF that(1)] new_or_old [OF that(2)] settled(1) assms(4) by blast
    have both: "e = e'" if "(sid, p, e) \<in> sy_seats y \<union> ?new" "(sid, p, e') \<in> sy_seats y \<union> ?new" for sid p e e'
    proof (cases "sid \<in> fst ` ?new")
      case True
      then show ?thesis using that held once by blast
    next
      case False
      then have "(sid, p, x) \<notin> ?new" for x by force
      then show ?thesis using that settled(1) by blast
    qed
    show ?thesis using held both by blast
  qed
  with one show ?thesis unfolding seats_settled_def set_server_fields(1,4) by blast
qed

lemma server_step_fine:
  assumes "system_fine sv y" and "rv_ok rv"
    and "seats_of (rv_sessions rv) \<subseteq> sy_seats y \<union> T" and "\<And>x. x \<in> T \<Longrightarrow> seat_true (sy_client y) x"
    and "\<And>x. x \<in> orders_of (rv_sessions rv) \<Longrightarrow> order_true (sy_client y) (sy_seats y) x"
    and "seats_settled (set_server rv y)" and "voiced S R out" and "S \<subseteq> sy_seats y \<union> seats_of (rv_sessions rv)"
    and "\<And>x. x \<in> R \<Longrightarrow> order_true (sy_client y) (sy_seats y) x"
  shows "system_fine sv (post sv out (set_server rv y))"
proof (rule post_fine)
  let ?y = "set_server rv y"
  have same: "goes_on (sy_client y) (sy_client y)" by (simp add: goes_on_def)
  have more: "sy_seats y \<subseteq> sy_seats ?y" by simp
  have "clients_fine sv ?y" using assms(1) by (simp add: system_fine_def clients_fine_def delivered_def)
  moreover have "air_fine sv ?y"
    using assms(1) mail_true_mono [OF same more] by (fastforce simp: system_fine_def air_fine_def)
  moreover have "server_fine ?y"
    using assms(1-5) order_true_mono [OF same more] by (auto simp: system_fine_def server_fine_def)
  ultimately show "system_fine sv ?y" using assms(6) by (simp add: system_fine_def)
  fix dst buf m
  assume "(dst, buf) \<in> set out" "lobby_unpack buf = Some (Some m)"
  then have "voice S R dst m" using assms(7) by (fastforce simp: voiced_def)
  then show "mail_true sv (sy_client ?y) (sy_seats ?y) sv dst m"
    using assms(8) order_true_mono [OF same more] assms(9) by (intro voice_true) auto
qed

lemma tick_settled:
  assumes "seats_settled y" and "table_ok (rv_sessions (sy_server y))" and "rv_ok rv"
    and "rv_sessions rv = map (fst \<circ> tick_session now) (rv_sessions (sy_server y))"
    and "seats_of (rv_sessions (sy_server y)) \<subseteq> sy_seats y"
  shows "seats_settled (set_server rv y)"
proof -
  note tick = tick_seats [OF assms(2), where now = now, folded assms(4)]
  have table: "table_ok (rv_sessions rv)" using assms(3) by (simp add: rv_ok_def)
  have "set (live_ids rv) \<subseteq> set (live_ids (sy_server y))"
    using tick(1) by (auto simp: live_ids_seats table assms(2))
  then have "sy_opened (set_server rv y) = sy_opened y" by (auto simp: set_server_def filter_empty_conv)
  moreover have "sy_seats (set_server rv y) = sy_seats y" using tick(1) assms(5) by auto
  moreover have "sid \<in> fst ` seats_of (rv_sessions (sy_server y))" if "sid \<in> fst ` seats_of (rv_sessions rv)" for sid
    using that tick(1) by blast
  ultimately show ?thesis using assms(1) tick(3) by (simp add: seats_settled_def)
qed

lemma fresh_seat_true:
  assumes "x \<in> fresh_seats src m ss" and "mail_true sv cl S src dst m"
  shows "seat_true cl x"
  using assms by (auto simp: fresh_seats_def mail_true_def seat_true_def split: LobbyMsg.splits)

lemma system_init: "system_fine sv \<lparr>sy_server = rv_init now seed, sy_client = Map.empty, sy_air = {}, sy_seats = {}, sy_opened = []\<rparr>"
proof -
  have "seats_of (rv_sessions (rv_init now seed)) = {}" "orders_of (rv_sessions (rv_init now seed)) = {}"
    by (auto simp: seats_of_def orders_of_def seats_in_def orders_in_def rv_init_def session_clear_def)
  then show ?thesis
    by (simp add: system_fine_def clients_fine_def air_fine_def server_fine_def seats_settled_def rv_init_ok)
qed

lemma run_fine: "lobby_run sv y \<Longrightarrow> system_fine sv y"
proof (induction rule: lobby_run.induct)
  case (run_boot now seed)
  show ?case by (rule system_init)
next
  case (run_host y e port local_ep n seed arena delay now lc out)
  note begun = run_host.hyps(4)
  have "heard (delivered e y) lc" using heard_begin(1) [OF begun] heard_more by blast
  moreover have "lc_server lc = sv" using begun by (auto simp: lobby_host_begin_def Let_def split: if_splits)
  ultimately show ?case
    using run_host host_begin_ok [OF begun] begin_mail(1) [OF begun] by (intro client_step_fine) (simp_all add: goes_on_new)
next
  case (run_join y e port local_ep code now lc out)
  note begun = run_join.hyps(4)
  have "heard (delivered e y) lc" using heard_begin(2) [OF begun] heard_more by blast
  then show ?case
    using run_join join_begin_ok [OF begun] begin_mail(2) [OF begun] by (intro client_step_fine) (simp_all add: goes_on_new)
next
  case (run_poll y e lc inbox now lc' out)
  have lc: "e \<noteq> sv" "client_ok lc" "lc_server lc = sv" "heard (delivered e y) lc"
    using run_poll by (auto simp: system_fine_def clients_fine_def)
  have mail: "errand lc' = errand lc" "mail_ok lc out"
    using poll_mail [of lc now inbox] lc(2) run_poll.hyps(4) by (simp_all add: client_ok_def)
  have "heard (delivered e y) lc'"
  proof (cases "booting lc")
    case True
    then have "heard (delivered e y) (fst (lobby_poll now inbox lc))"
      using lc run_poll.hyps(3) by (intro heard_poll) (fastforce simp: client_ok_def delivered_def)+
    then show ?thesis using run_poll.hyps(4) by simp
  next
    case False
    then show ?thesis using lc(4) run_poll.hyps(4) by (auto simp: lobby_poll_def booting_iff)
  qed
  moreover have "client_ok lc'" using poll_ok [OF lc(2), of now inbox] run_poll.hyps(4) by simp
  moreover have "lc_server lc' = sv" using mail(1) lc(3) by (simp add: errand_def charter_def)
  ultimately show ?case
    using run_poll mail lc(1) mail_errand [OF mail(1)] by (intro client_step_fine) (simp_all add: goes_on_update)
next
  case (run_force y e lc)
  have lc: "e \<noteq> sv" "client_ok lc" "lc_server lc = sv" "heard (delivered e y) lc"
    using run_force by (auto simp: system_fine_def clients_fine_def)
  have "system_fine sv (post e [] (set_client e (lobby_set_forced_relay lc) y))"
    using lc run_force
    by (intro client_step_fine)
      (simp_all add: goes_on_update errand_update heard_update force_ok, simp add: lobby_set_forced_relay_def)
  moreover have "post e [] z = z" for z by (cases z) (simp add: post_def)
  ultimately show ?case by simp
next
  case (run_late y e lc src buf)
  have lc: "lc_server lc = sv" using run_late by (auto simp: system_fine_def clients_fine_def)
  show ?case
  proof (rule post_fine [OF run_late.IH])
    fix dst buf' m
    assume "(dst, buf') \<in> set (post_packet (src, buf) lc)" "lobby_unpack buf' = Some (Some m)"
    then have "says lc dst m" using post_mail [of lc "(src, buf)"] by (fastforce simp: mail_ok_def)
    then show "mail_true sv (sy_client y) (sy_seats y) e dst m" using run_late.hyps(2) lc by (intro says_true [where lc = lc])
  qed
next
  case (run_serve y src buf now rv out)
  note fine = run_serve.IH
  have server: "rv_ok (sy_server y)" "table_ok (rv_sessions (sy_server y))" "rv_ok rv" "table_ok (rv_sessions rv)"
      "seats_of (rv_sessions (sy_server y)) \<subseteq> sy_seats y"
    using fine rv_handle_ok [of "sy_server y" now src buf] run_serve.hyps(3)
    by (simp_all add: system_fine_def server_fine_def rv_ok_def)
  have orders: "order_true (sy_client y) (sy_seats y) x" if "x \<in> orders_of (rv_sessions (sy_server y))" for x
    using fine that by (simp add: system_fine_def server_fine_def)
  consider (idle) "rv_sessions rv = rv_sessions (sy_server y)" "out = []"
    | (served) m where "lobby_unpack buf = Some (Some m)" "served src m (rv_sessions (sy_server y)) (rv_sessions rv) out"
    using handle_served [OF server(2), of now src buf] run_serve.hyps(3) by auto
  then show ?case
  proof cases
    case idle
    have "served src (LOBBY_REJECT 0) (rv_sessions (sy_server y)) (rv_sessions rv) []" by (simp add: idle served_same)
    then have "seats_settled (set_server rv y)"
      using served_settled fine server by (simp add: system_fine_def)
    then show ?thesis
      using server orders by (intro server_step_fine [OF fine, where T = "{}" and S = "{}" and R = "{}"]) (simp_all add: idle)
  next
    case served
    let ?S = "seats_of (rv_sessions rv)" and ?R = "orders_of (rv_sessions rv)"
    have grow: "?S \<subseteq> seats_of (rv_sessions (sy_server y)) \<union> fresh_seats src m (rv_sessions (sy_server y))"
      "?R \<subseteq> orders_of (rv_sessions (sy_server y)) \<union> ordered_by src m (rv_sessions (sy_server y))" "voiced ?S ?R out"
      using served(2) by (simp_all add: served_def)
    have mail: "mail_true sv (sy_client y) (sy_seats y) src sv m"
      using fine run_serve.hyps(2) served(1) by (fastforce simp: system_fine_def air_fine_def)
    have "order_true (sy_client y) (sy_seats y) x" if ord: "x \<in> ordered_by src m (rv_sessions (sy_server y))" for x
    proof -
      obtain sid where x: "x = (sid, m)" "(sid, 0, src) \<in> sy_seats y" and start: "\<exists>seed arena n delay. m = LOBBY_START seed arena n delay"
        using ord server(5) by (auto simp: ordered_by_def split: LobbyMsg.splits)
      have "(sid', p, sv) \<notin> sy_seats y" for sid' p
        using fine by (force simp: system_fine_def server_fine_def clients_fine_def seat_true_def hosting_def joining_def split: if_splits)
      then have "\<exists>t. hosting (sy_client y) src t \<and> m = start_of t" using mail start by (auto simp: mail_true_def)
      then show ?thesis using x by (auto simp: order_true_def)
    qed
    then have all: "order_true (sy_client y) (sy_seats y) x" if "x \<in> ?R" for x using orders grow(2) that by blast
    have "seats_settled (set_server rv y)"
      using served_settled [OF _ server(2,4,5) served(2)] fine by (simp add: system_fine_def)
    then show ?thesis
      using grow(1) server(5) all grow(3) fresh_seat_true [OF _ mail]
      by (intro server_step_fine [OF fine server(3), where T = "fresh_seats src m (rv_sessions (sy_server y))" and S = ?S and R = ?R]) auto
  qed
next
  case (run_tick y now rv out)
  note fine = run_tick.IH
  have server: "table_ok (rv_sessions (sy_server y))" "rv_ok rv" "seats_of (rv_sessions (sy_server y)) \<subseteq> sy_seats y"
    using fine rv_tick_ok [of "sy_server y" now] run_tick.hyps(2)
    by (simp_all add: system_fine_def server_fine_def rv_ok_def)
  have ticked: "rv_sessions rv = map (fst \<circ> tick_session now) (rv_sessions (sy_server y))"
      "out = concat (map (snd \<circ> tick_session now) (rv_sessions (sy_server y)))"
    using run_tick.hyps(2) by (auto simp: rv_tick_def)
  note tick = tick_seats [OF server(1), where now = now, folded ticked(1)] tick_voiced [OF server(1), of now, folded ticked(2)]
  have "seats_settled (set_server rv y)" using tick_settled [OF _ server(1,2) ticked(1) server(3)] fine by (simp add: system_fine_def)
  then show ?case
    using tick server fine
    by (intro server_step_fine [OF fine server(2), where T = "{}" and S = "seats_of (rv_sessions (sy_server y))"
          and R = "orders_of (rv_sessions (sy_server y))"])
      (auto simp: system_fine_def server_fine_def)
next
  case (run_other y buf e dst)
  show ?case
  proof (rule post_fine [OF run_other.IH])
    fix d b m
    assume "(d, b) \<in> set [(dst, buf)]" "lobby_unpack b = Some (Some m)"
    then show "mail_true sv (sy_client y) (sy_seats y) e d m"
      using run_other.hyps(2) by (cases m) (auto simp: binding_def mail_true_def)
  qed
qed

end
