(* ===== verification/Lobby_Agree.thy ===== *)
theory Lobby_Agree
  imports Lobby_System Rv_Example Client_Props
begin

text \<open>
  Everybody who comes through the lobby plays the same match: what a guest takes up is the match of
  the host of its code, and two players that are READY under one id agree on everything and sit apart.
\<close>

section \<open>What a client knows of its lobby\<close>

lemma ready_result:
  assumes "client_ok lc" and "lobby_result lc = Some r"
  shows "lc_stage lc = LOBBY_C_READY" "lc_start_seen lc" "lr_seed r = lc_seed lc" "lr_arena_id r = lc_arena_id lc"
    "lr_num_players r = lc_num_players lc" "lr_input_delay r = lc_input_delay lc"
    "lr_session_id r = lc_session_id lc" "lr_local_slot r = lc_local_slot lc" "unat (lr_local_slot r) < 4"
proof -
  have ready: "lc_stage lc = LOBBY_C_READY" "r = lc_result lc" using assms(2) by (simp_all add: lobby_result_def split: if_splits)
  then have "r = lc_result (fill_result lc)" "lc_start_seen lc" using assms(1) by (simp_all add: client_ok_def ready_ok_def)
  then show "lc_stage lc = LOBBY_C_READY" "lc_start_seen lc" "lr_seed r = lc_seed lc" "lr_arena_id r = lc_arena_id lc"
    "lr_num_players r = lc_num_players lc" "lr_input_delay r = lc_input_delay lc"
    "lr_session_id r = lc_session_id lc" "lr_local_slot r = lc_local_slot lc" "unat (lr_local_slot r) < 4"
    using ready(1) assms(1) by (simp_all add: fill_result_def client_ok_def ranges_ok_def)
qed

lemma run_client:
  assumes "lobby_run sv y" and "sy_client y e = Some lc"
  shows "client_ok lc" "e \<noteq> sv" "heard (delivered e y) lc"
  using run_fine [OF assms(1)] assms(2) by (auto simp: system_fine_def clients_fine_def)

lemma run_reach: "lobby_run sv y \<Longrightarrow> \<forall>e lc. sy_client y e = Some lc \<longrightarrow> (\<exists>log. client_reach log lc)"
proof (induction rule: lobby_run.induct)
  case (run_poll y e lc inbox now lc' out)
  then obtain log where "client_reach log lc" by blast
  then have "client_reach (log @ inbox) lc'" using reach_poll [of log lc inbox now] run_poll.hyps(4) by simp
  then show ?case using run_poll.IH by auto
next
  case (run_force y e lc)
  then obtain log where "client_reach log lc" by blast
  from reach_force [OF this] show ?case using run_force.IH by auto
qed (auto intro: reach_host reach_join)

lemma run_mail: "lobby_run sv y \<Longrightarrow> m \<in> delivered e y \<Longrightarrow> \<exists>src. mail_true sv (sy_client y) (sy_seats y) src e m"
  using run_fine [of sv y] by (fastforce simp: system_fine_def air_fine_def delivered_def)

lemma run_seat: "lobby_run sv y \<Longrightarrow> x \<in> sy_seats y \<Longrightarrow> seat_true (sy_client y) x"
  using run_fine [of sv y] by (simp add: system_fine_def server_fine_def)

text \<open>A guest that was told a seat or a match has it in the lobby it asked for.\<close>

lemma guest_seat:
  assumes "lobby_run sv y" and "sy_client y e = Some lc" and "\<not> lc_is_host lc" and "(sid, p, e) \<in> sy_seats y"
  shows "p \<noteq> 0 \<and> sid = lc_session_id lc"
  using run_seat [OF assms(1,4)] assms(2,3) by (auto simp: seat_true_def hosting_def joining_def split: if_splits)

lemma guest_order:
  assumes "lobby_run sv y" and "sy_client y e = Some lc" and "\<not> lc_is_host lc" and "lc_start_seen lc"
  shows "\<exists>h hc p. sy_client y h = Some hc \<and> lc_is_host hc \<and> terms lc = terms hc
    \<and> (lc_session_id lc, 0, h) \<in> sy_seats y \<and> (lc_session_id lc, p, e) \<in> sy_seats y"
proof -
  obtain seed arena n delay where t: "terms lc = (seed, arena, n, delay)" by (cases "terms lc")
  have "start_of (terms lc) \<in> delivered e y" using run_client(3) [OF assms(1,2)] assms(3,4) by (simp add: heard_def)
  then obtain src where "mail_true sv (sy_client y) (sy_seats y) src e (LOBBY_START seed arena n delay)"
    using run_mail [OF assms(1)] t by (auto simp: start_of_def)
  then obtain sid p h u where o: "(sid, p, e) \<in> sy_seats y" "(sid, 0, h) \<in> sy_seats y" "hosting (sy_client y) h u"
      "LOBBY_START seed arena n delay = start_of u"
    using run_client(2) [OF assms(1,2)] by (auto simp: mail_true_def order_true_def)
  then have "terms lc = u" by (simp add: t start_of_def split: prod.splits)
  moreover obtain hc where "sy_client y h = Some hc" "lc_is_host hc" "terms hc = u" using o(3) by (auto simp: hosting_def)
  moreover have "sid = lc_session_id lc" using guest_seat [OF assms(1-3) o(1)] by simp
  ultimately show ?thesis using o(1,2) by metis
qed

text \<open>C3: Whoever is told a match is told the match of its own host: in every run of the lobby, whatever is
  lost, repeated, delayed or forged beside the five messages that found a match, a guest that has seen
  START plays with exactly the seed, arena, number of players and input delay that a client hosts with,
  which the server has seated at the head of a lobby of the very id in the guest's code, with the guest
  in it.\<close>

theorem guests_play_their_hosts_match:
  assumes "lobby_run sv y" and "sy_client y e = Some lc" and "\<not> lc_is_host lc" and "lc_start_seen lc"
  shows "\<exists>h hc p. sy_client y h = Some hc \<and> lc_is_host hc \<and> lc_seed lc = lc_seed hc \<and> lc_arena_id lc = lc_arena_id hc
    \<and> lc_num_players lc = lc_num_players hc \<and> lc_input_delay lc = lc_input_delay hc
    \<and> (lc_session_id lc, 0, h) \<in> sy_seats y \<and> (lc_session_id lc, p, e) \<in> sy_seats y"
  using guest_order [OF assms] by (auto simp: terms_def)

text \<open>The seat and the host of a player that is READY.\<close>

lemma ready_in_lobby:
  assumes "lobby_run sv y" and "sy_client y e = Some lc" and "lobby_result lc = Some r"
  shows "(lr_session_id r, unat (lr_local_slot r), e) \<in> sy_seats y"
    and "\<exists>h. (lr_session_id r, 0, h) \<in> sy_seats y \<and> hosting (sy_client y) h (terms lc)"
proof -
  note r = ready_result [OF run_client(1) [OF assms(1,2)] assms(3)]
  note told = run_client(3) [OF assms(1,2), unfolded heard_def]
  have "(lr_session_id r, unat (lr_local_slot r), e) \<in> sy_seats y
    \<and> (\<exists>h. (lr_session_id r, 0, h) \<in> sy_seats y \<and> hosting (sy_client y) h (terms lc))"
  proof (cases "lc_is_host lc")
    case True
    then have "LOBBY_HOST_RESP (lc_session_id lc) \<in> delivered e y" "lc_local_slot lc = 0"
      using told r(1) by (auto simp: stage_order)
    then have "(lc_session_id lc, 0, e) \<in> sy_seats y" using run_mail [OF assms(1)] by (fastforce simp: mail_true_def)
    moreover have "hosting (sy_client y) e (terms lc)" using assms(2) True by (simp add: hosting_def)
    ultimately show ?thesis using \<open>lc_local_slot lc = 0\<close> r(7,8) by auto
  next
    case False
    then obtain n where "LOBBY_JOIN_RESP (lc_local_slot lc) n \<in> delivered e y" using told r(1) by (auto simp: stage_order)
    then obtain sid where "(sid, unat (lc_local_slot lc), e) \<in> sy_seats y"
      using run_mail [OF assms(1)] by (fastforce simp: mail_true_def)
    then show ?thesis
      using guest_seat [OF assms(1,2) False] guest_order [OF assms(1,2) False r(2)] r(7,8) by (auto simp: hosting_def)
  qed
  then show "(lr_session_id r, unat (lr_local_slot r), e) \<in> sy_seats y"
    "\<exists>h. (lr_session_id r, 0, h) \<in> sy_seats y \<and> hosting (sy_client y) h (terms lc)" by blast+
qed

text \<open>One code, one match: as long as the server has not opened two lobbies under one id, any two clients
  that are READY with the same id have the same seed, arena, number of players and input delay, and
  two different ones sit in different seats.\<close>

theorem lobby_agreement:
  assumes "lobby_run sv y" and "distinct (sy_opened y)" and "sy_client y e = Some lc" and "sy_client y e' = Some lc'"
    and "lobby_result lc = Some r" and "lobby_result lc' = Some r'" and "lr_session_id r = lr_session_id r'"
  shows "lr_seed r = lr_seed r' \<and> lr_arena_id r = lr_arena_id r' \<and> lr_num_players r = lr_num_players r'
    \<and> lr_input_delay r = lr_input_delay r' \<and> (e \<noteq> e' \<longrightarrow> lr_local_slot r \<noteq> lr_local_slot r')"
proof -
  have once: "x = x'" if "(sid, p, x) \<in> sy_seats y" "(sid, p, x') \<in> sy_seats y" for sid p x x'
    using run_fine [OF assms(1)] assms(2) that unfolding system_fine_def seats_settled_def by blast
  obtain h h' where h: "(lr_session_id r, 0, h) \<in> sy_seats y" "hosting (sy_client y) h (terms lc)"
      "(lr_session_id r', 0, h') \<in> sy_seats y" "hosting (sy_client y) h' (terms lc')"
    using ready_in_lobby(2) [OF assms(1,3,5)] ready_in_lobby(2) [OF assms(1,4,6)] by blast
  then have "h = h'" using once assms(7) by simp
  then have "terms lc = terms lc'" using h(2,4) by (auto simp: hosting_def)
  moreover have "e = e'" if "lr_local_slot r = lr_local_slot r'"
    using ready_in_lobby(1) [OF assms(1,3,5)] ready_in_lobby(1) [OF assms(1,4,6)] that once assms(7) by simp
  ultimately show ?thesis
    using ready_result [OF run_client(1) [OF assms(1,3)] assms(5)] ready_result [OF run_client(1) [OF assms(1,4)] assms(6)]
    by (auto simp: terms_def)
qed

section \<open>A small lobby\<close>

text \<open>A host and one guest; their routes are announced by somebody else before they ask.\<close>

lemma letter_packet: "letter src m = (src, packet_of m)"
  by (simp add: letter_def packet_of_def)

lemma send_packet: "length (payload_of m) \<le> 1024 \<Longrightarrow> send_msg dst m = [(dst, packet_of m)]"
  using pack_defined [of m] by (auto simp: send_msg_def packet_of_def)

lemma emit_packet: "length (payload_of m) \<le> 1024 \<Longrightarrow> emit_msg dst m = [(dst, packet_of m)]"
  using pack_defined [of m] by (auto simp: emit_msg_def packet_of_def)

subsection \<open>The server's side\<close>

definition lobby_1 :: "u32 \<Rightarrow> RvSession" where
  "lobby_1 v = new_lobby 110 host_ep 8225 v 2 me_ep"

definition lobby_2 :: "u32 \<Rightarrow> RvSession" where
  "lobby_2 v = add_peer 130 1 guest_ep mate_ep (lobby_1 v)"

abbreviation only :: "RvSession \<Rightarrow> RvSession list" where
  "only s \<equiv> s # replicate 63 session_clear"

abbreviation order_1 :: LobbyMsg where "order_1 \<equiv> LOBBY_START 99 0 2 3"

lemma clear_64: "replicate 64 session_clear = only session_clear"
  by (simp add: numeral_eq_Suc)

lemma peers_4: "se_peers session_clear = [peer_zero, peer_zero, peer_zero, peer_zero]"
  by (simp add: session_clear_def numeral_eq_Suc)

lemma find_index_replicate: "find_index_from k P (replicate n x) = (if 0 < n \<and> P x then Some k else None)"
  by (induction n arbitrary: k) auto

lemma find_rest: "find_index_from k P (replicate 63 x) = (if P x then Some k else None)"
  by (simp add: find_index_replicate)

lemma lobby_1_fields:
  "se_phase (lobby_1 v) = RV_LOBBY" "se_id (lobby_1 v) = 8225" "se_net_version (lobby_1 v) = v"
  "se_num_players (lobby_1 v) = 2" "se_joined (lobby_1 v) = 1" "se_start (lobby_1 v) = None"
  "se_peers (lobby_1 v) = [new_peer 110 host_ep me_ep peer_zero, peer_zero, peer_zero, peer_zero]"
  by (simp_all add: lobby_1_def new_lobby_def clamp_players_def peers_4) (simp_all add: session_clear_def)

lemma lobby_2_fields:
  "se_phase (lobby_2 v) = RV_LOBBY" "se_id (lobby_2 v) = 8225" "se_num_players (lobby_2 v) = 2"
  "se_peers (lobby_2 v) = [new_peer 110 host_ep me_ep peer_zero, new_peer 130 guest_ep mate_ep peer_zero, peer_zero, peer_zero]"
  by (simp_all add: lobby_2_def add_peer_def lobby_1_fields)

lemma serve_host:
  assumes "rv_sessions rv = replicate 64 session_clear" and "rv_rng rv = 1"
  shows "rv_sessions (fst (do_host_req 110 host_ep v 2 me_ep rv)) = only (lobby_1 v)
    \<and> snd (do_host_req 110 host_ep v 2 me_ep rv) = emit_msg host_ep (LOBBY_HOST_RESP 8225)"
proof -
  have "pick_id (replicate 64 session_clear) 4096 1 = (270369, 8225)" by code_simp
  then have pick: "pick_id (only session_clear) 4096 1 = (270369, 8225)" by (simp only: clear_64)
  have "\<not> hosted_lobby host_ep session_clear" "se_phase session_clear = RV_FREE"
    by (simp_all add: hosted_lobby_def session_clear_def)
  then show ?thesis
    using assms(2) by (simp add: do_host_req_def assms(1) clear_64 find_rest pick at_session_def lobby_1_def)
qed

lemma serve_join:
  assumes "rv_sessions rv = only (lobby_1 v)"
  shows "rv_sessions (fst (do_join_req 130 guest_ep 8225 v mate_ep rv)) = only (lobby_2 v)
    \<and> set (emit_msg guest_ep (LOBBY_JOIN_RESP 1 2)) \<subseteq> set (snd (do_join_req 130 guest_ep 8225 v mate_ep rv))"
proof -
  have "find_session (only (lobby_1 v)) 8225 = Some 0" by (simp add: find_session_def find_rest lobby_1_fields)
  moreover have "peer_of (lobby_1 v) guest_ep = None" "find_index (\<lambda>p. \<not> pe_used p) (se_peers (lobby_1 v)) = Some 1"
    by (simp_all add: peer_of_def lobby_1_fields new_peer_def peer_zero_def)
  moreover have "\<not> (2 :: u8) \<le> 1" by (simp add: word_le_nat_alt)
  ultimately show ?thesis
    by (simp add: do_join_req_def assms lobby_1_fields at_session_def lobby_2_def Let_def)
qed

lemma serve_start:
  assumes "rv_sessions rv = only (lobby_2 v)"
  shows "(\<exists>s. rv_sessions (fst (do_start 350 host_ep order_1 rv)) = only s \<and> se_phase s \<noteq> RV_FREE \<and> se_id s = 8225)
    \<and> snd (do_start 350 host_ep order_1 rv) = emit_msg host_ep order_1 @ emit_msg guest_ep order_1"
proof -
  let ?s = "start_session 350 order_1 (lobby_2 v)"
  have "find_index (hosts host_ep) (only (lobby_2 v)) = Some 0"
    by (simp add: find_rest hosts_def lobby_2_fields new_peer_def)
  moreover have "fan_start ?s False = emit_msg host_ep order_1 @ emit_msg guest_ep order_1"
    by (simp add: fan_start_def start_session_def seen_def lobby_2_fields new_peer_def peer_zero_def)
  moreover have "se_phase ?s \<noteq> RV_FREE" "se_id ?s = 8225"
    by (simp_all add: start_session_def seen_def lobby_2_fields)
  ultimately show ?thesis
    by (simp add: do_start_def assms lobby_2_fields at_session_def Let_def)
qed

text \<open>A datagram among the first forty is served as its message.\<close>

lemma served_as:
  assumes "credit (Suc n) rv" and "\<not> is_relay m" and "length (payload_of m) \<le> 1024"
  shows "\<exists>rv' out t. rv_handle now src (packet_of m) rv = (rv', out) \<and> credit n rv'
    \<and> rv_sessions t = rv_sessions rv \<and> rv_rng t = rv_rng rv \<and> rv_dispatch now src [] m t = (rv', out)"
proof (intro exI conjI)
  let ?t = "fst (rate_take rv now (ep_ip src))"
  show "rv_handle now src (packet_of m) rv = (fst (rv_dispatch now src [] m ?t), snd (rv_dispatch now src [] m ?t))"
    using handle_unthrottled(2) [OF assms] by simp
  show "credit n (fst (rv_dispatch now src [] m ?t))"
    using handle_unthrottled [OF assms, of now src] by simp
  show "rv_dispatch now src [] m ?t = (fst (rv_dispatch now src [] m ?t), snd (rv_dispatch now src [] m ?t))" by simp
qed simp_all

subsection \<open>The clients' side\<close>

definition host_mail :: "(LobbyEndpoint \<times> u8 list) list" where
  "host_mail = [letter server_ep (LOBBY_HOST_RESP 8225), letter server_ep (LOBBY_PEER_INTRO 1 mate_ep mate_ep),
     letter server_ep (LOBBY_PAIR_ROUTE 0 1 1)]"

definition guest_mail :: "(LobbyEndpoint \<times> u8 list) list" where
  "guest_mail = [letter server_ep (LOBBY_JOIN_RESP 1 2), letter server_ep (LOBBY_PEER_INTRO 0 me_ep me_ep),
     letter server_ep (LOBBY_PAIR_ROUTE 0 1 1), letter server_ep order_1]"

definition guest_begun :: "u32 \<Rightarrow> LobbyClient" where
  "guest_begun v = (client_init 5001 120)\<lparr>lc_server := server_ep, lc_session_id := 8225, lc_net_ver := v,
     lc_private_ep := mate_ep, lc_stage := LOBBY_C_JOINING, lc_last_send := 120\<rparr>"

lemma client_init_peers:
  "lc_peers (client_init p t) = [client_peer_zero, client_peer_zero, client_peer_zero, client_peer_zero]"
  "lc_route_known (client_init p t) = [[False, False, False, False], [False, False, False, False],
     [False, False, False, False], [False, False, False, False]]"
  by (simp_all add: client_init_def Let_def numeral_eq_Suc)

definition met :: "u32 \<Rightarrow> LobbyEndpoint \<Rightarrow> ClientPeer" where
  "met nonce e = client_peer_zero\<lparr>cp_present := True, cp_pub := e, cp_priv := e, cp_nonce := nonce, cp_punch_begin := 200,
     cp_last_punch := 200 - 250, cp_route := 1\<rparr>"

lemma host_drain:
  "\<exists>n. fst (drain 200 host_mail (example_begun v)) = (example_begun v)
     \<lparr>lc_session_id := 8225, lc_code := lobby_code_encode server_ep 8225, lc_stage := LOBBY_C_WAITING_PEERS,
      lc_peers := [client_peer_zero\<lparr>cp_present := True\<rparr>, met n mate_ep, client_peer_zero, client_peer_zero], lc_rng := n,
      lc_route_known := [[False, True, False, False], [True, False, False, False],
        [False, False, False, False], [False, False, False, False]]\<rparr>"
proof -
  have f: "lc_stage (example_begun v) = LOBBY_C_REGISTERING" "lc_server (example_begun v) = server_ep"
    "lc_local_slot (example_begun v) = 0" "lc_retries (example_begun v) = 0" "lc_rng (example_begun v) = lc_rng (client_init 5000 100)"
    "lc_peers (example_begun v) = lc_peers (client_init 5000 100)"
    "lc_route_known (example_begun v) = lc_route_known (client_init 5000 100)"
    by (simp_all add: example_begun_def) (simp_all add: client_init_def Let_def)
  show ?thesis
    unfolding host_mail_def
    by (intro exI [of _ "client_rng (lc_rng (client_init 5000 100))"])
      (simp add: drain_letter payload_of_def handle_msg_def on_host_resp_def on_peer_intro_def on_pair_route_def met_def
        refresh_peer_def meet_peer_def know_pair_def at_peer_def stage_order f client_init_peers
        client_peer_zero_def ARENA_MAX_PLAYERS_def LOBBY_ROUTE_RELAY_def LOBBY_PUNCH_PERIOD_MS_def Let_def)
qed

lemma guest_drain:
  "\<exists>n. fst (drain 200 guest_mail (guest_begun v)) = (guest_begun v)
     \<lparr>lc_local_slot := 1, lc_num_players := 2, lc_stage := LOBBY_C_WAITING_PEERS,
      lc_peers := [met n me_ep, client_peer_zero\<lparr>cp_present := True\<rparr>, client_peer_zero, client_peer_zero], lc_rng := n,
      lc_route_known := [[False, True, False, False], [True, False, False, False],
        [False, False, False, False], [False, False, False, False]],
      lc_seed := 99, lc_input_delay := 3, lc_start_seen := True\<rparr>"
proof -
  have f: "lc_stage (guest_begun v) = LOBBY_C_JOINING" "\<not> lc_is_host (guest_begun v)" "lc_arena_id (guest_begun v) = 0"
    "lc_retries (guest_begun v) = 0" "lc_rng (guest_begun v) = lc_rng (client_init 5001 120)"
    "lc_peers (guest_begun v) = lc_peers (client_init 5001 120)"
    "lc_route_known (guest_begun v) = lc_route_known (client_init 5001 120)"
    by (simp_all add: guest_begun_def) (simp_all add: client_init_def Let_def)
  show ?thesis
    unfolding guest_mail_def
    by (intro exI [of _ "client_rng (lc_rng (client_init 5001 120))"])
      (simp add: drain_letter payload_of_def handle_msg_def on_join_resp_def on_peer_intro_def on_pair_route_def met_def
        refresh_peer_def meet_peer_def know_pair_def at_peer_def stage_order f client_init_peers on_start_def start_seen_def
        client_peer_zero_def ARENA_MAX_PLAYERS_def LOBBY_ROUTE_RELAY_def LOBBY_PUNCH_PERIOD_MS_def Let_def)
qed

lemma host_first_poll:
  "\<exists>hc out. lobby_poll 200 host_mail (example_begun v) = (hc, out) \<and> (server_ep, packet_of order_1) \<in> set out
    \<and> lc_stage hc = LOBBY_C_AWAITING_START \<and> lc_is_host hc \<and> terms hc = (99, 0, 2, 3) \<and> lc_local_slot hc = 0
    \<and> lc_session_id hc = 8225 \<and> lc_begin hc = 100 \<and> \<not> cp_route (peer hc 1) < 0"
proof -
  let ?d = "fst (drain 200 host_mail (example_begun v))"
  have b: "lc_stage (example_begun v) = LOBBY_C_REGISTERING" "lc_num_players (example_begun v) = 2" "lc_arena_id (example_begun v) = 0"
    "lc_local_slot (example_begun v) = 0" "lc_begin (example_begun v) = 100" "lc_is_host (example_begun v)"
    "lc_seed (example_begun v) = 99" "lc_input_delay (example_begun v) = 3" "lc_server (example_begun v) = server_ep"
    "\<not> lc_start_seen (example_begun v)" "\<not> lc_host_start_sent (example_begun v)"
    by (simp_all add: example_begun_def client_init_def Let_def)
  obtain n where drained: "?d = (example_begun v)
     \<lparr>lc_session_id := 8225, lc_code := lobby_code_encode server_ep 8225, lc_stage := LOBBY_C_WAITING_PEERS,
      lc_peers := [client_peer_zero\<lparr>cp_present := True\<rparr>, met n mate_ep, client_peer_zero, client_peer_zero], lc_rng := n,
      lc_route_known := [[False, True, False, False], [True, False, False, False],
        [False, False, False, False], [False, False, False, False]]\<rparr>"
    using host_drain by blast
  have d: "lc_stage ?d = LOBBY_C_WAITING_PEERS" "lc_num_players ?d = 2" "lc_local_slot ?d = 0" "lc_begin ?d = 100"
    "lc_is_host ?d" "lc_seed ?d = 99" "lc_arena_id ?d = 0" "lc_input_delay ?d = 3" "\<not> lc_start_seen ?d" "\<not> lc_host_start_sent ?d"
    "cp_present (peer ?d 0)" "cp_present (peer ?d (Suc 0))" "lc_route_known ?d ! 0 ! Suc 0" "lc_session_id ?d = 8225"
    "lc_server ?d = server_ep" "cp_route (peer ?d (Suc 0)) = 1" "length (lc_peers ?d) = 4"
    unfolding drained by (simp_all add: b client_peer_zero_def met_def)
  define p where "p = enter_punching 200 ?d"
  have p: "p = at_peer (Suc 0) (start_punch_clock 200) (?d\<lparr>lc_stage := LOBBY_C_PUNCHING\<rparr>)"
    by (simp add: p_def enter_punching_def d upt_12)
  have pf: "lc_stage p = LOBBY_C_PUNCHING" "lc_num_players p = 2" "lc_local_slot p = 0" "lc_is_host p" "lc_session_id p = 8225"
    "terms p = (99, 0, 2, 3)" "lc_server p = server_ep" "lc_begin p = 100" "lc_route_known p ! 0 ! Suc 0" "cp_route (peer p 1) = 1"
    "\<not> lc_start_seen p" "\<not> lc_host_start_sent p"
    by (simp_all add: p at_peer_def d start_punch_clock_def terms_def)
  define h where "h = p\<lparr>lc_host_start_sent := True, lc_last_start := 200\<rparr>"
  have duty: "stage_duty 200 ?d = (p, [])"
    by (simp add: stage_duty_def d wait_for_peers_def all_peers_present_def upt_12 p_def)
  have host: "host_duty 200 p = (h, send_start h)"
    using pf by (simp add: host_duty_def h_def all_pairs_decided_def upt_12 upt_12 [unfolded One_nat_def] stage_order Let_def)
  have settled: "settle h = h\<lparr>lc_stage := LOBBY_C_AWAITING_START\<rparr>"
    using pf by (simp add: settle_def local_routes_decided_def h_def upt_12)
  have said: "send_start h = [(server_ep, packet_of order_1)]"
    using pf by (simp add: send_start_def h_def terms_def send_packet payload_of_def)
  obtain hc out where alive: "keep_alive 200 (settle h) = (hc, out)" "\<exists>t. hc = (settle h)\<lparr>lc_last_keepalive := t\<rparr>"
  proof
    let ?k = "keep_alive 200 (settle h)"
    show "?k = (fst ?k, snd ?k)" by simp
    show "\<exists>t. fst ?k = (settle h)\<lparr>lc_last_keepalive := t\<rparr>"
      by (auto simp: keep_alive_def intro: exI [of _ "lc_last_keepalive (settle h)"])
  qed
  from alive(2) obtain t where hc: "hc = h\<lparr>lc_stage := LOBBY_C_AWAITING_START, lc_last_keepalive := t\<rparr>"
    unfolding settled by auto
  have inbox: "take 128 host_mail = host_mail" by (simp add: host_mail_def)
  have "lobby_poll 200 host_mail (example_begun v) = (hc, snd (drain 200 host_mail (example_begun v)) @ send_start h @ out)"
    using d(1,4) pf(1) unfolding lobby_poll_def inbox
    by (simp add: b case_prod_unfold Let_def duty host alive LOBBY_TIMEOUT_MS_def)
  moreover have "lc_stage hc = LOBBY_C_AWAITING_START" "lc_is_host hc" "terms hc = (99, 0, 2, 3)" "lc_local_slot hc = 0"
    "lc_session_id hc = 8225" "lc_begin hc = 100" "\<not> cp_route (peer hc 1) < 0"
    using pf hc by (simp_all add: h_def terms_def)
  moreover have "(server_ep, packet_of order_1) \<in> set (snd (drain 200 host_mail (example_begun v)) @ send_start h @ out)"
    by (simp add: said)
  ultimately show ?thesis by blast
qed

lemma host_second_poll:
  assumes "lc_stage hc = LOBBY_C_AWAITING_START" "lc_is_host hc" "terms hc = (99, 0, 2, 3)" "lc_local_slot hc = 0"
    "lc_session_id hc = 8225" "lc_begin hc = 100" "\<not> cp_route (peer hc 1) < 0"
  shows "lobby_result (fst (lobby_poll 360 [letter server_ep order_1] hc)) \<noteq> None
    \<and> lc_session_id (fst (lobby_poll 360 [letter server_ep order_1] hc)) = 8225
    \<and> lc_arena_id (fst (lobby_poll 360 [letter server_ep order_1] hc)) = 0"
proof -
  let ?d = "hc\<lparr>lc_start_seen := True\<rparr>"
  have t: "lc_seed hc = 99" "lc_arena_id hc = 0" "lc_num_players hc = 2" "lc_input_delay hc = 3"
    using assms(3) by (simp_all add: terms_def)
  have "fst (drain 360 (take 128 [letter server_ep order_1]) hc) = ?d"
    by (simp add: drain_letter payload_of_def handle_msg_def on_start_def start_seen_def assms t stage_order)
  moreover have "stage_duty 360 ?d = (?d, [])" "host_duty 360 ?d = (?d, [])"
    by (simp_all add: stage_duty_def host_duty_def assms)
  moreover have "settle ?d = (fill_result ?d)\<lparr>lc_stage := LOBBY_C_READY\<rparr>"
    using assms(7) by (simp add: settle_def local_routes_decided_def assms t upt_12)
  moreover have "keep_alive 360 ((fill_result ?d)\<lparr>lc_stage := LOBBY_C_READY\<rparr>) = ((fill_result ?d)\<lparr>lc_stage := LOBBY_C_READY\<rparr>, [])"
    by (simp add: keep_alive_def stage_order)
  ultimately have "fst (lobby_poll 360 [letter server_ep order_1] hc) = (fill_result ?d)\<lparr>lc_stage := LOBBY_C_READY\<rparr>"
    by (simp add: lobby_poll_def assms case_prod_unfold Let_def LOBBY_TIMEOUT_MS_def)
  then show ?thesis by (simp add: lobby_result_def) (simp add: fill_result_def assms t)
qed

lemma guest_poll:
  "lobby_result (fst (lobby_poll 200 guest_mail (guest_begun v))) \<noteq> None
    \<and> lc_session_id (fst (lobby_poll 200 guest_mail (guest_begun v))) = 8225
    \<and> \<not> lc_is_host (fst (lobby_poll 200 guest_mail (guest_begun v)))"
proof -
  let ?d = "fst (drain 200 guest_mail (guest_begun v))"
  have b: "lc_stage (guest_begun v) = LOBBY_C_JOINING" "lc_begin (guest_begun v) = 120" "\<not> lc_is_host (guest_begun v)"
    "lc_session_id (guest_begun v) = 8225"
    by (simp_all add: guest_begun_def client_init_def Let_def)
  obtain n where drained: "?d = (guest_begun v)
     \<lparr>lc_local_slot := 1, lc_num_players := 2, lc_stage := LOBBY_C_WAITING_PEERS,
      lc_peers := [met n me_ep, client_peer_zero\<lparr>cp_present := True\<rparr>, client_peer_zero, client_peer_zero], lc_rng := n,
      lc_route_known := [[False, True, False, False], [True, False, False, False],
        [False, False, False, False], [False, False, False, False]],
      lc_seed := 99, lc_input_delay := 3, lc_start_seen := True\<rparr>"
    using guest_drain by blast
  have d: "lc_stage ?d = LOBBY_C_WAITING_PEERS" "lc_num_players ?d = 2" "lc_local_slot ?d = 1" "lc_begin ?d = 120"
    "\<not> lc_is_host ?d" "lc_start_seen ?d" "lc_session_id ?d = 8225"
    "cp_present (peer ?d 0)" "cp_present (peer ?d (Suc 0))" "cp_route (peer ?d 0) = 1" "length (lc_peers ?d) = 4"
    unfolding drained by (simp_all add: b client_peer_zero_def met_def)
  define p where "p = enter_punching 200 ?d"
  have "lc_local_slot (at_peer i f lc) = lc_local_slot lc" for i f lc by (simp add: at_peer_def)
  then have p: "p = at_peer 0 (start_punch_clock 200) (?d\<lparr>lc_stage := LOBBY_C_PUNCHING\<rparr>)"
    by (simp add: p_def enter_punching_def d upt_12)
  have pf: "lc_stage p = LOBBY_C_PUNCHING" "lc_num_players p = 2" "lc_local_slot p = 1" "\<not> lc_is_host p"
    "lc_session_id p = 8225" "cp_route (peer p 0) = 1" "lc_start_seen p"
    by (simp_all add: p at_peer_def d start_punch_clock_def)
  have duty: "stage_duty 200 ?d = (p, [])"
    by (simp add: stage_duty_def d wait_for_peers_def all_peers_present_def upt_12 p_def)
  have host: "host_duty 200 p = (p, [])" by (simp add: host_duty_def pf)
  have ready: "settle p = (fill_result p)\<lparr>lc_stage := LOBBY_C_READY\<rparr>"
    by (simp add: settle_def local_routes_decided_def pf upt_12)
  have alive: "keep_alive 200 (settle p) = (settle p, [])" by (simp add: keep_alive_def ready stage_order)
  have inbox: "take 128 guest_mail = guest_mail" by (simp add: guest_mail_def)
  have "fst (lobby_poll 200 guest_mail (guest_begun v)) = settle p"
    using d(1,4) pf(1) unfolding lobby_poll_def inbox
    by (simp add: b case_prod_unfold Let_def duty host alive LOBBY_TIMEOUT_MS_def)
  then show ?thesis using pf by (simp add: ready lobby_result_def) (simp add: fill_result_def)
qed

subsection \<open>The run\<close>

lemma binding_others: "\<not> binding (LOBBY_PEER_INTRO s a b)" "\<not> binding (LOBBY_PAIR_ROUTE i j r)"
  by (simp_all add: binding_def)

lemma run_letter:
  assumes "lobby_run sv y" and "length (payload_of m) \<le> 1024" and "\<not> binding m"
  shows "lobby_run sv (post e [(dst, packet_of m)] y)"
  using assms unpack_packet_of [OF assms(2)] by (intro run_other) simp_all

lemma live_only: "rv_sessions rv = only s \<Longrightarrow> se_phase s \<noteq> RV_FREE \<Longrightarrow> live_ids rv = [se_id s]"
  by (simp add: live_ids_def) (simp add: session_clear_def)

text \<open>Up to the two requests, with the routes announced: all of the mail but START is in the air.\<close>

lemma lobby_opened:
  "\<exists>y. lobby_run server_ep y \<and> sy_client y = [host_ep \<mapsto> example_begun arena_net_version, guest_ep \<mapsto> guest_begun arena_net_version]
    \<and> credit 38 (sy_server y) \<and> rv_sessions (sy_server y) = only (lobby_2 arena_net_version) \<and> sy_opened y = [8225]
    \<and> (\<forall>(src, buf) \<in> set host_mail. (src, host_ep, buf) \<in> sy_air y)
    \<and> (\<forall>(src, buf) \<in> set (take 3 guest_mail). (src, guest_ep, buf) \<in> sy_air y)"
proof -
  let ?v = arena_net_version
  let ?hr = "LOBBY_HOST_REQ ?v 2 me_ep" and ?jr = "LOBBY_JOIN_REQ 8225 ?v mate_ep"
  define y0 where "y0 = \<lparr>sy_server = rv_init 0 1, sy_client = Map.empty, sy_air = {}, sy_seats = {}, sy_opened = []\<rparr>"
  define y1 where "y1 = post host_ep [(server_ep, packet_of ?hr)] (set_client host_ep (example_begun ?v) y0)"
  have r0: "lobby_run server_ep y0" unfolding y0_def by (rule run_boot)
  have "lobby_host_begin 5000 me_ep server_ep 2 99 0 3 100 = Some (example_begun ?v, [(server_ep, packet_of ?hr)])"
    by (simp add: lobby_host_begin_def send_host_req_def send_packet payload_of_def ARENA_MAX_PLAYERS_def)
      (simp add: example_begun_def Let_def)
  then have r1: "lobby_run server_ep y1" unfolding y1_def by (intro run_host [OF r0]) (simp_all add: y0_def)
  have c1: "credit (Suc 39) (sy_server y1)" using init_credit [of 0 1] by (simp add: y1_def y0_def)
  obtain t1 rv1 o1 where s1: "rv_handle 110 host_ep (packet_of ?hr) (sy_server y1) = (rv1, o1)" "credit 39 rv1"
      "rv_sessions t1 = rv_sessions (sy_server y1)" "rv_rng t1 = rv_rng (sy_server y1)" "rv_dispatch 110 host_ep [] ?hr t1 = (rv1, o1)"
    using served_as [OF c1, of ?hr 110 host_ep] by (simp add: is_relay_def payload_of_def) blast
  have "rv_sessions (sy_server y1) = replicate 64 session_clear" "rv_rng (sy_server y1) = 1"
    by (simp_all add: y1_def y0_def rv_init_def RV_MAX_SESSIONS_def)
  then have d1: "rv_sessions rv1 = only (lobby_1 ?v)" "o1 = [(host_ep, packet_of (LOBBY_HOST_RESP 8225))]"
    using serve_host [of t1 ?v] s1(3-5) by (simp_all add: rv_dispatch_def emit_packet payload_of_def)
  define y2 where "y2 = post server_ep o1 (set_server rv1 y1)"
  have r2: "lobby_run server_ep y2" unfolding y2_def by (rule run_serve [OF r1 _ s1(1)]) (simp add: y1_def)
  define y3 where "y3 = post guest_ep [(server_ep, packet_of ?jr)] (set_client guest_ep (guest_begun ?v) y2)"
  have "lobby_code_decode (lobby_code_encode server_ep 8225) = Some (server_ep, 8225)"
    by (simp add: decode_iff symbol_values_encode)
  then have join: "lobby_join_begin 5001 mate_ep (lobby_code_encode server_ep 8225) 120 = Some (guest_begun ?v, [(server_ep, packet_of ?jr)])"
    by (simp add: lobby_join_begin_def send_join_req_def send_packet payload_of_def Let_def) (simp add: guest_begun_def)
  have r3: "lobby_run server_ep y3"
    unfolding y3_def by (rule run_join [OF r2 _ _ join]) (simp_all add: y2_def y1_def y0_def, simp add: guest_begun_def)
  have c3: "credit (Suc 38) (sy_server y3)" "rv_sessions (sy_server y3) = only (lobby_1 ?v)"
    using s1(2) d1(1) by (simp_all add: y3_def y2_def)
  obtain t3 rv3 o3 where s3: "rv_handle 130 guest_ep (packet_of ?jr) (sy_server y3) = (rv3, o3)" "credit 38 rv3"
      "rv_sessions t3 = rv_sessions (sy_server y3)" "rv_dispatch 130 guest_ep [] ?jr t3 = (rv3, o3)"
    using served_as [OF c3(1), of ?jr 130 guest_ep] by (simp add: is_relay_def payload_of_def) blast
  have d3: "rv_sessions rv3 = only (lobby_2 ?v)" "(guest_ep, packet_of (LOBBY_JOIN_RESP 1 2)) \<in> set o3"
    using serve_join [of t3 ?v] s3(3,4) c3(2) by (simp_all add: rv_dispatch_def emit_packet payload_of_def)
  define y4 where "y4 = post server_ep o3 (set_server rv3 y3)"
  have r4: "lobby_run server_ep y4" unfolding y4_def by (rule run_serve [OF r3 _ s3(1)]) (simp add: y3_def)
  define y5 where "y5 = post server_ep [(host_ep, packet_of (LOBBY_PEER_INTRO 1 mate_ep mate_ep))]
    (post server_ep [(host_ep, packet_of (LOBBY_PAIR_ROUTE 0 1 1))]
      (post server_ep [(guest_ep, packet_of (LOBBY_PEER_INTRO 0 me_ep me_ep))]
        (post server_ep [(guest_ep, packet_of (LOBBY_PAIR_ROUTE 0 1 1))] y4)))"
  have "lobby_run server_ep y5"
    unfolding y5_def by (intro run_letter r4) (simp_all add: payload_of_def binding_others)
  moreover have "sy_client y5 = [host_ep \<mapsto> example_begun ?v, guest_ep \<mapsto> guest_begun ?v]"
    by (simp add: y5_def y4_def y3_def y2_def y1_def y0_def)
  moreover have "sy_opened y5 = [8225]"
  proof -
    have "live_ids (sy_server y1) = []" by (simp add: live_ids_def y1_def y0_def rv_init_def) (simp add: session_clear_def)
    moreover have "live_ids rv1 = [8225]" "live_ids rv3 = [8225]"
      using live_only [OF d1(1)] live_only [OF d3(1)] by (simp_all add: lobby_1_fields lobby_2_fields)
    ultimately show ?thesis by (simp add: y5_def y4_def y3_def y2_def set_server_def post_def set_client_def) (simp add: y1_def y0_def)
  qed
  moreover have "\<forall>(src, buf) \<in> set host_mail. (src, host_ep, buf) \<in> sy_air y5"
    using d1(2) by (simp add: host_mail_def letter_packet y5_def y4_def y3_def y2_def)
  moreover have "\<forall>(src, buf) \<in> set (take 3 guest_mail). (src, guest_ep, buf) \<in> sy_air y5"
    using imageI [OF d3(2), of "\<lambda>(dst, buf). (server_ep, dst, buf)"] by (simp add: guest_mail_def letter_packet y5_def y4_def)
  ultimately show ?thesis using s3(2) d3(1) by (intro exI [of _ y5]) (simp add: y5_def y4_def)
qed

text \<open>START is sent, fanned out and heard by both.\<close>

lemma lobby_ready:
  "\<exists>y hc gc. lobby_run server_ep y \<and> sy_opened y = [8225] \<and> sy_client y host_ep = Some hc \<and> sy_client y guest_ep = Some gc
    \<and> lobby_result hc \<noteq> None \<and> lobby_result gc \<noteq> None \<and> lc_session_id hc = 8225 \<and> lc_session_id gc = 8225 \<and> \<not> lc_is_host gc
    \<and> lc_arena_id hc = 0"
proof -
  let ?v = arena_net_version
  obtain y where y: "lobby_run server_ep y" "sy_client y = [host_ep \<mapsto> example_begun ?v, guest_ep \<mapsto> guest_begun ?v]"
      "credit (Suc 37) (sy_server y)" "rv_sessions (sy_server y) = only (lobby_2 ?v)" "sy_opened y = [8225]"
      "\<forall>(src, buf) \<in> set host_mail. (src, host_ep, buf) \<in> sy_air y"
      "\<forall>(src, buf) \<in> set (take 3 guest_mail). (src, guest_ep, buf) \<in> sy_air y"
    using lobby_opened by auto
  obtain h1 o1 where h1: "lobby_poll 200 host_mail (example_begun ?v) = (h1, o1)" "(server_ep, packet_of order_1) \<in> set o1"
      "lc_stage h1 = LOBBY_C_AWAITING_START" "lc_is_host h1" "terms h1 = (99, 0, 2, 3)" "lc_local_slot h1 = 0"
      "lc_session_id h1 = 8225" "lc_begin h1 = 100" "\<not> cp_route (peer h1 1) < 0"
    using host_first_poll by blast
  define y1 where "y1 = post host_ep o1 (set_client host_ep h1 y)"
  have r1: "lobby_run server_ep y1" unfolding y1_def by (rule run_poll [OF y(1) _ y(6) h1(1)]) (simp add: y(2))
  have c1: "credit (Suc 37) (sy_server y1)" "rv_sessions (sy_server y1) = only (lobby_2 ?v)" using y(3,4) by (simp_all add: y1_def)
  obtain t rv o2 where s: "rv_handle 350 host_ep (packet_of order_1) (sy_server y1) = (rv, o2)"
      "rv_sessions t = rv_sessions (sy_server y1)" "rv_dispatch 350 host_ep [] order_1 t = (rv, o2)"
    using served_as [OF c1(1), of order_1 350 host_ep] by (simp add: is_relay_def payload_of_def) blast
  then obtain s' where d: "rv_sessions rv = only s'" "se_phase s' \<noteq> RV_FREE" "se_id s' = 8225"
      "o2 = [(host_ep, packet_of order_1), (guest_ep, packet_of order_1)]"
    using serve_start [of t ?v] c1(2) by (auto simp: rv_dispatch_def emit_packet payload_of_def)
  define y2 where "y2 = post server_ep o2 (set_server rv y1)"
  have r2: "lobby_run server_ep y2"
    unfolding y2_def
    by (rule run_serve [OF r1 _ s(1)]) (use imageI [OF h1(2), of "\<lambda>(dst, buf). (host_ep, dst, buf)"] in \<open>simp add: y1_def\<close>)
  have air2: "(server_ep, host_ep, packet_of order_1) \<in> sy_air y2" "(server_ep, guest_ep, packet_of order_1) \<in> sy_air y2"
    by (simp_all add: y2_def d(4))
  obtain h2 o3 where h2: "lobby_poll 360 [letter server_ep order_1] h1 = (h2, o3)" by fastforce
  define y3 where "y3 = post host_ep o3 (set_client host_ep h2 y2)"
  have r3: "lobby_run server_ep y3"
    unfolding y3_def by (rule run_poll [OF r2 _ _ h2]) (simp_all add: y2_def y1_def d(4) letter_packet)
  obtain g o4 where g: "lobby_poll 200 guest_mail (guest_begun ?v) = (g, o4)" by fastforce
  have "\<forall>(src, buf) \<in> set guest_mail. (src, guest_ep, buf) \<in> sy_air y3"
    using y(7) air2(2) by (auto simp: guest_mail_def letter_packet y3_def y2_def y1_def)
  then have "lobby_run server_ep (post guest_ep o4 (set_client guest_ep g y3))"
    by (intro run_poll [OF r3 _ _ g]) (simp_all add: y3_def y2_def y1_def y(2))
  moreover have "sy_opened y3 = [8225]"
    using y(4,5) live_only [OF d(1,2)] live_only [OF c1(2)]
    by (simp add: y3_def y2_def set_server_def post_def set_client_def lobby_2_fields d(3)) (simp add: y1_def)
  ultimately show ?thesis
    using host_second_poll [OF h1(3-9)] guest_poll [of ?v] h2 g
    by (intro exI [of _ "post guest_ep o4 (set_client guest_ep g y3)"] exI [of _ h2] exI [of _ g]) (simp add: y3_def)
qed

theorem guests_play_their_hosts_match_witness:
  "\<exists>y gc h hc. lobby_run server_ep y \<and> sy_client y guest_ep = Some gc \<and> \<not> lc_is_host gc \<and> sy_client y h = Some hc \<and> lc_is_host hc
    \<and> lc_seed gc = lc_seed hc \<and> (8225, 0, h) \<in> sy_seats y"
proof -
  obtain y hc gc r where y: "lobby_run server_ep y" "sy_client y guest_ep = Some gc" "lobby_result gc = Some r"
      "lc_session_id gc = 8225" "\<not> lc_is_host gc"
    using lobby_ready by auto
  then have "lc_start_seen gc" using ready_result(2) [OF run_client(1)] by blast
  from guests_play_their_hosts_match [OF y(1,2,5) this] obtain h hc
    where "sy_client y h = Some hc" "lc_is_host hc" "lc_seed gc = lc_seed hc" "(8225, 0, h) \<in> sy_seats y"
    by (auto simp: y(4))
  with y(1,2,5) show ?thesis by blast
qed

end
