(* ===== verification/Lobby_Match.thy ===== *)
theory Lobby_Match
  imports Lobby_Agree Viewer_Props
begin

text \<open>
  From one lobby code to one match: the sessions that the players of a lobby open start from the same
  state, and stay in the same state as each other wherever they have played the same inputs.
\<close>

section \<open>One session, played on\<close>

text \<open>\<open>s\<close> after any frames from \<open>s0\<close>, the library's events being legal.\<close>

inductive played :: "SyncSession \<Rightarrow> store \<Rightarrow> SyncSession \<Rightarrow> bool" for s0 :: SyncSession where
  played_start: "played s0 Map.empty s0"
| played_frame: "played s0 M s \<Longrightarrow> legal_events gev (fold session_event sev s) M \<Longrightarrow>
    sync_frame sev gev inputs s = (fresh, s', calls, saved) \<Longrightarrow>
    played s0 (store_all gev (fold session_event sev s) M) s'"

lemma played_honest: "played s0 M s \<Longrightarrow> honest Map.empty s0 \<Longrightarrow> honest M s"
  by (induction rule: played.induct) (auto intro: honest_frame)

definition same_birth :: "SyncSession \<Rightarrow> SyncSession \<Rightarrow> bool" where
  "same_birth s t \<longleftrightarrow> st_arena_id (ss_state t) = st_arena_id (ss_state s)
     \<and> ss_num_players t = ss_num_players s \<and> ss_seed t = ss_seed s"

lemma birth_first: "same_birth s t \<Longrightarrow> first_state t = first_state s"
  by (simp add: same_birth_def first_state_def)

lemma birth_log: "same_log s t \<Longrightarrow> same_birth s t"
  by (simp add: same_log_def same_birth_def)

lemma birth_trans: "same_birth s t \<Longrightarrow> same_birth t u \<Longrightarrow> same_birth s u"
  by (simp add: same_birth_def)

lemma birth_event:
  assumes "log_ok M s" and "legal_event e s M"
  shows "same_birth s (fst (game_event e s))"
proof (cases e)
  case (GekkoLoad st)
  then have "M (st_tick st) = Some st" using assms(2) by (simp add: legal_event_def)
  then have "faithful s st" using log_okD(5) [OF assms(1)] by blast
  then show ?thesis using faithfulD(2) by (simp add: GekkoLoad game_event_def same_birth_def)
next
  case (GekkoAdvance rolling ins)
  then show ?thesis
    using log_okD(2) [OF assms(1)] by (simp add: game_event_def advance_clean same_birth_def advanced_fields tick_number)
qed (simp_all add: game_event_def same_birth_def)

lemma birth_events: "log_ok M s \<Longrightarrow> legal_events es s M \<Longrightarrow> same_birth s (fst (game_events es s))"
proof (induction es arbitrary: s M)
  case (Cons e es)
  have legal: "legal_event e s M" "legal_events es (fst (game_event e s)) (store_after e s M)" using Cons.prems(2) by simp_all
  have "same_birth s (fst (game_events es (fst (game_event e s))))"
    by (rule birth_trans [OF birth_event [OF Cons.prems(1) legal(1)] Cons.IH [OF log_event [OF Cons.prems(1) legal(1)] legal(2)]])
  then show ?case by (simp add: case_prod_unfold Let_def)
qed (simp add: same_birth_def)

lemma played_birth: "played s0 M s \<Longrightarrow> honest Map.empty s0 \<Longrightarrow> same_birth s0 s"
proof (induction rule: played.induct)
  case (played_frame M s gev sev inputs fresh s' calls saved)
  let ?s = "fold session_event sev s"
  have "log_ok M s" using played_honest [OF played_frame.hyps(1) played_frame.prems] by (rule honest_log)
  then have "log_ok M ?s" using same_log_ok [OF same_log_events] by simp
  then have "same_birth s (fst (game_events gev ?s))"
    using birth_trans [OF birth_log [OF same_log_events] birth_events] played_frame.hyps(2) by blast
  then show ?case
    using birth_trans [OF birth_trans [OF played_frame.IH [OF played_frame.prems]] birth_log [OF frame_state [OF played_frame.hyps(3)]]]
    by blast
qed (simp add: same_birth_def)

text \<open>Two sessions opened alike are alike at the same tick if they played the same inputs up to it.\<close>

lemma played_alike:
  assumes "honest Map.empty s0" and "honest Map.empty s0'" and "first_state s0 = first_state s0'"
    and "played s0 M s" and "played s0' M' s'" and "sync_present_tick s = sync_present_tick s'"
    and "unat (sync_present_tick s) \<le> 36000"
    and "take (unat (sync_present_tick s)) (ss_rec s) = take (unat (sync_present_tick s)) (ss_rec s')"
  shows "ss_state s = ss_state s'"
proof -
  note here = honest_log [OF played_honest [OF assms(4,1)]] and there = honest_log [OF played_honest [OF assms(5,2)]]
  have state: "ss_state s = replayed s (unat (sync_present_tick s))" "ss_state s' = replayed s' (unat (sync_present_tick s'))"
    using faithfulD(3) [OF log_okD(3) [OF here]] faithfulD(3) [OF log_okD(3) [OF there]] assms(6,7)
    by (simp_all add: sync_present_tick_def)
  have "first_state s = first_state s'"
    using assms birth_first [OF played_birth] by metis
  then show ?thesis using state assms(6,8) by (simp add: replayed_def)
qed

section \<open>The players of one lobby\<close>

lemma online_session:
  assumes "online_match ho lc g0 = Some (g, s, i)" and "lobby_result lc = Some r"
  shows "\<exists>calls. sync_create (ho_memory ho) (ho_gekko ho) (ho_handle ho) (Some (online_config r)) = Some (s, calls)"
    and "i = unat (lr_local_slot r)"
  using assms by (auto simp: online_match_def new_session_def Let_def split: option.splits)

lemma online_first:
  assumes "online_match ho lc g0 = Some (g, s, i)" and "lobby_result lc = Some r" and "unat (lr_arena_id r) < ARENA_GEOM_COUNT"
  shows "honest Map.empty s" and "ss_state s = arena_init (lr_arena_id r) (lr_num_players r) (lr_seed r)"
    and "first_state s = ss_state s"
proof -
  obtain calls where c: "sync_create (ho_memory ho) (ho_gekko ho) (ho_handle ho) (Some (online_config r)) = Some (s, calls)"
    using online_session(1) [OF assms(1,2)] by blast
  show "honest Map.empty s" using honest_open [OF c] assms(3) by (simp add: online_config_def)
  show "ss_state s = arena_init (lr_arena_id r) (lr_num_players r) (lr_seed r)" "first_state s = ss_state s"
    using create_frame(1) [OF c] by (simp_all add: same_log_def sync_blank_def online_config_def first_state_def init_number)
qed

text \<open>C2: The whole way from a lobby code to the game: two different players that came through the lobby under one
  id, and opened their sessions on the lobby's result, hold different seats, start from one and the same
  state, and are in one and the same state, with one checksum, at every tick up to ten minutes for which their sessions
  recorded the same inputs, however differently the library rolled them back.\<close>

theorem one_code_one_game:
  assumes "lobby_run sv y" and "distinct (sy_opened y)" and "sy_client y e = Some lc" and "sy_client y e' = Some lc'"
    and "e \<noteq> e'" and "lobby_result lc = Some r" and "lobby_result lc' = Some r'" and "lr_session_id r = lr_session_id r'"
    and "unat (lr_arena_id r) < ARENA_GEOM_COUNT"
    and "online_match ho lc g0 = Some (g, s0, i)" and "online_match ho' lc' g0' = Some (g', s0', i')"
    and "played s0 M s" and "played s0' M' s'" and "sync_present_tick s = sync_present_tick s'"
    and "unat (sync_present_tick s) \<le> 36000"
    and "take (unat (sync_present_tick s)) (ss_rec s) = take (unat (sync_present_tick s)) (ss_rec s')"
  shows "i \<noteq> i' \<and> ss_state s0 = ss_state s0' \<and> ss_state s = ss_state s' \<and> sync_present_hash s = sync_present_hash s'"
proof -
  note agree = lobby_agreement [OF assms(1-4,6-8)]
  have arena: "unat (lr_arena_id r') < ARENA_GEOM_COUNT" using agree assms(9) by simp
  note here = online_first [OF assms(10,6,9)] and there = online_first [OF assms(11,7) arena]
  have seats: "i \<noteq> i'" using online_session(2) [OF assms(10,6)] online_session(2) [OF assms(11,7)] agree assms(5) by (simp add: word_unat_eq_iff)
  have start: "ss_state s0 = ss_state s0'" "first_state s0 = first_state s0'" using here there agree by simp_all
  have "ss_state s = ss_state s'" by (rule played_alike [OF here(1) there(1) start(2) assms(12-16)])
  then show ?thesis using seats start(1) by (simp add: sync_present_hash_def)
qed

theorem one_code_one_game_witness:
  "\<exists>y hc gc g s i g' s' i'. lobby_run server_ep y \<and> sy_client y host_ep = Some hc \<and> sy_client y guest_ep = Some gc
    \<and> online_match all_well hc adapter_zero = Some (g, s, i) \<and> online_match all_well gc adapter_zero = Some (g', s', i')
    \<and> i \<noteq> i' \<and> ss_state s = ss_state s'"
proof -
  obtain y hc gc r r' where y: "lobby_run server_ep y" "sy_opened y = [8225]" "sy_client y host_ep = Some hc"
      "sy_client y guest_ep = Some gc" "lobby_result hc = Some r" "lobby_result gc = Some r'"
      "lc_session_id hc = 8225" "lc_session_id gc = 8225" "lc_arena_id hc = 0"
    using lobby_ready by auto
  have ready: "distinct (sy_opened y)" "lr_session_id r = lr_session_id r'" "host_ep \<noteq> guest_ep" "unat (lr_arena_id r) < ARENA_GEOM_COUNT"
    using y ready_result(4,7) [OF run_client(1)] by (simp, metis, simp, metis arena_geom_count unat_0 zero_less_numeral)
  obtain log log' where reach: "client_reach log hc" "client_reach log' gc" using run_reach [OF y(1)] y(3,4) by blast
  have well: "\<not> na_active adapter_zero" "ho_memory all_well" "ho_gekko all_well" by (simp_all add: adapter_zero_def all_well_def)
  obtain g s i g' s' i' where m: "online_match all_well hc adapter_zero = Some (g, s, i)"
      "online_match all_well gc adapter_zero = Some (g', s', i')"
    using online_match_some [OF reach(1) y(5) well] online_match_some [OF reach(2) y(6) well] by metis
  have "unat (lr_arena_id r') < ARENA_GEOM_COUNT" using lobby_agreement [OF y(1) ready(1) y(3-6) ready(2)] ready(4) by simp
  then have new: "sync_present_tick s = 0" "sync_present_tick s' = 0"
    using online_first(2) [OF m(1) y(5) ready(4)] online_first(2) [OF m(2) y(6)] by (simp_all add: sync_present_tick_def init_number)
  from one_code_one_game [OF y(1) ready(1) y(3,4) ready(3) y(5,6) ready(2,4) m played_start played_start] new
  show ?thesis using y(1,3,4) m by auto
qed

end
