(* ===== verification/Float_Facts.thy ===== *)
theory Float_Facts
  imports Float32
begin

text \<open>
  What the float operations compute: each is the real operation rounded (\<open>rounds\<close>), the square root
  included; rounding is monotone, leaves representable numbers alone and errs by half a unit in the
  last place at most.  The lemmas on \<open>small\<close> bound a float by a power of two through the operations,
  which is how the viewer's numbers are shown to stay finite.
\<close>

section \<open>Rounding to nearest\<close>

definition nearest :: "real \<Rightarrow> int" where
  "nearest x = (let k = \<lfloor>x\<rfloor> in if 1 / 2 < x - of_int k \<or> x - of_int k = 1 / 2 \<and> odd k then k + 1 else k)"

lemma nearest_close: "\<bar>of_int (nearest x) - x\<bar> \<le> 1 / 2"
  unfolding nearest_def Let_def by (simp split: if_splits)

lemma nearest_int: "nearest (of_int k) = k"
  by (simp add: nearest_def)

lemma nearest_mono:
  assumes "x \<le> y"
  shows "nearest x \<le> nearest y"
proof (cases "\<lfloor>x\<rfloor> = \<lfloor>y\<rfloor>")
  case True
  then show ?thesis using assms by (auto simp: nearest_def Let_def)
next
  case False
  then have "\<lfloor>x\<rfloor> + 1 \<le> \<lfloor>y\<rfloor>" using floor_mono [OF assms] by linarith
  moreover have "nearest x \<le> \<lfloor>x\<rfloor> + 1" "\<lfloor>y\<rfloor> \<le> nearest y" by (simp_all add: nearest_def Let_def)
  ultimately show ?thesis by linarith
qed

lemma near_is_nearest:
  assumes "0 < q"
  shows "int (near p q) = nearest (real p / real q)"
proof -
  have k: "\<lfloor>real p / real q\<rfloor> = int (p div q)" by (simp add: floor_divide_of_nat_eq)
  have x: "real p / real q - real (p div q) = real (p mod q) / real q"
  proof -
    have "real p = real q * real (p div q) + real (p mod q)"
      by (metis mult_div_mod_eq of_nat_add of_nat_mult)
    then show ?thesis using assms by (simp add: field_simps)
  qed
  have "1 / 2 < real (p mod q) / real q \<longleftrightarrow> q < 2 * (p mod q)"
    using assms by (simp add: field_simps flip: of_nat_less_iff) linarith
  moreover have "real (p mod q) / real q = 1 / 2 \<longleftrightarrow> 2 * (p mod q) = q"
    using assms by (simp add: field_simps) linarith
  ultimately show ?thesis
    unfolding near_def nearest_def Let_def k of_int_of_nat_eq x by simp
qed

section \<open>The last place\<close>

lemma bits_less: "n < 2 ^ bits n"
proof (induction n rule: bits.induct)
  case (1 n)
  show ?case
  proof (cases "n = 0")
    case False
    then have "n div 2 < 2 ^ bits (n div 2)" by (rule 1)
    with False show ?thesis by (simp add: bits.simps [of n])
  qed (simp add: bits.simps)
qed

lemma bits_least: "0 < n \<Longrightarrow> 2 ^ bits n \<le> 2 * n"
proof (induction n rule: bits.induct)
  case (1 n)
  show ?case
  proof (cases "n = 1")
    case True
    then show ?thesis by (simp add: bits.simps)
  next
    case False
    with 1 have "2 ^ bits (n div 2) \<le> 2 * (n div 2)" by simp
    with 1 show ?thesis by (simp add: bits.simps [of n])
  qed
qed

lemma bits_less_real: "real n < 2 ^ bits n"
proof -
  have "real n < real (2 ^ bits n)" using bits_less [of n] by (simp only: of_nat_less_iff)
  then show ?thesis by simp
qed

lemma bits_least_real: "0 < n \<Longrightarrow> 2 ^ bits n \<le> 2 * real n"
proof -
  assume "0 < n"
  then have "real (2 ^ bits n) \<le> real (2 * n)" by (intro of_nat_mono bits_least)
  then show ?thesis by simp
qed

lemma scaled_ratio:
  assumes "scaled p q e = (a, b)" "0 < q"
  shows "0 < b" "real a / real b = real p / real q / 2 powi e"
  using assms by (auto simp: scaled_def power_int_def divide_simps split: if_splits)

definition placed :: "real \<Rightarrow> int \<Rightarrow> bool" where
  "placed x e \<longleftrightarrow> - 149 \<le> e \<and> x < 2 ^ 24 * 2 powi e \<and> (e = - 149 \<or> 2 ^ 23 * 2 powi e \<le> x)"

lemma powi_shift: "(2 :: real) powi (e + int k) = 2 ^ k * 2 powi e"
  by (simp add: power_int_add)

lemma powi_Suc: "(2 :: real) powi (e + 1) = 2 * 2 powi e"
  using powi_shift [of e 1] by simp

lemma powi_mono: "e \<le> f \<Longrightarrow> (2 :: real) powi e \<le> 2 powi f"
  by (rule power_int_increasing) simp_all

lemma powi_pos [simp]: "(0 :: real) < 2 powi e"
  by (simp add: zero_less_power_int)

lemma last_place_placed:
  assumes "0 < p" "0 < q"
  shows "placed (real p / real q) (last_place p q)"
proof -
  define d where "d = int (bits p) - int (bits q) - 24"
  define x where "x = real p / real q"
  obtain a b where ab: "scaled p q d = (a, b)" by fastforce
  note r = scaled_ratio [OF ab assms(2), folded x_def]
  have p: "real p < 2 ^ bits p" "2 ^ bits p \<le> 2 * real p"
    using bits_less_real bits_least_real assms(1) by simp_all
  have q: "real q < 2 ^ bits q" "2 ^ bits q \<le> 2 * real q"
    using bits_less_real bits_least_real assms(2) by simp_all
  have pw: "(2 :: real) powi d * 2 ^ 24 * 2 ^ bits q = 2 ^ bits p"
  proof -
    have d: "int (bits p) = d + int (24 + bits q)" by (simp add: d_def)
    have "(2 :: real) ^ bits p = 2 powi int (bits p)" by (simp only: power_int_of_nat)
    also have "\<dots> = 2 ^ (24 + bits q) * 2 powi d" unfolding d by (rule powi_shift)
    finally show ?thesis by (simp only: power_add mult.commute mult.left_commute mult.assoc)
  qed
  have "x < 2 ^ 25 * 2 powi d"
  proof -
    have "real p < 2 ^ 24 * 2 powi d * 2 ^ bits q" using p(1) unfolding pw [symmetric] by (simp only: mult.commute mult.left_commute mult.assoc)
    also have "\<dots> \<le> 2 ^ 24 * 2 powi d * (2 * real q)" by (intro mult_left_mono q) simp_all
    finally show ?thesis using assms by (simp add: x_def field_simps)
  qed
  moreover have "2 ^ 23 * 2 powi d \<le> x"
  proof -
    have "2 ^ 23 * 2 powi d * (2 * real q) \<le> 2 ^ 23 * 2 powi d * (2 * 2 ^ bits q)"
      using q(1) by (intro mult_left_mono) simp_all
    also have "\<dots> = 2 ^ bits p" unfolding pw [symmetric] by (simp add: mult.commute mult.left_commute mult.assoc)
    also have "\<dots> \<le> 2 * real p" by (rule p)
    finally show ?thesis using assms by (simp add: x_def field_simps)
  qed
  moreover have "2 ^ 24 * b \<le> a \<longleftrightarrow> 2 ^ 24 * 2 powi d \<le> x"
  proof -
    have "2 ^ 24 * b \<le> a \<longleftrightarrow> 2 ^ 24 \<le> real a / real b"
    proof -
      have "2 ^ 24 * b \<le> a \<longleftrightarrow> real (2 ^ 24 * b) \<le> real a" by (rule of_nat_le_iff [symmetric])
      then show ?thesis using r(1) by (simp add: pos_le_divide_eq)
    qed
    then show ?thesis unfolding r(2) by (simp add: pos_le_divide_eq)
  qed
  ultimately show ?thesis
    unfolding last_place_def Let_def d_def [symmetric] ab case_prod_conv x_def [symmetric] placed_def
    using powi_mono [of d "- 149"] powi_mono [of "d + 1" "- 149"]
    by (auto simp: powi_Suc max_def)
qed

lemma placed_unique:
  assumes "placed x e" "placed x f" shows "e = f"
proof -
  have False if "placed x e" "placed x f" "e < f" for e f
    using that powi_mono [of "e + 1" f] by (auto simp: placed_def powi_Suc)
  then show ?thesis using assms by (meson linorder_cases)
qed

section \<open>What rounding gives\<close>

definition rnd :: "real \<Rightarrow> int \<Rightarrow> real" where
  "rnd x e = of_int (nearest (x / 2 powi e)) * 2 powi e"

fun val :: "f32 \<Rightarrow> real" where
  "val (Finite s m e) = of_int (with_sign s m) * 2 powi e"
| "val _ = 0"

fun fin :: "f32 \<Rightarrow> bool" where
  "fin (Finite s m e) = True"
| "fin _ = False"

text \<open>\<open>r\<close> is the real number \<open>x\<close> rounded.\<close>

definition rounds :: "real \<Rightarrow> f32 \<Rightarrow> bool" where
  "rounds x r \<longleftrightarrow>
     (if x = 0 then fin r \<and> val r = 0
      else \<exists>e. placed \<bar>x\<bar> e \<and>
        (if rnd \<bar>x\<bar> e < 2 ^ 128 then fin r \<and> val r = sgn x * rnd \<bar>x\<bar> e else r = Infinite (x < 0)))"

lemma powi_128: "(2 :: real) powi 128 = 2 ^ 128"
  by (simp add: power_int_def)

lemma pack_value: "e \<le> 104 \<Longrightarrow> fin (pack_f32 s m e) \<and> val (pack_f32 s m e) = of_int (with_sign s m) * 2 powi e"
  by (simp add: pack_f32_def)

lemma rnd_small:
  assumes "placed x e" "0 \<le> x"
  shows "rnd x e \<le> 2 ^ 24 * 2 powi e" and "0 \<le> rnd x e"
proof -
  have "x / 2 powi e \<le> of_int (2 ^ 24)" using assms by (simp add: placed_def divide_simps)
  then have "nearest (x / 2 powi e) \<le> 2 ^ 24" using nearest_mono nearest_int by metis
  then have "real_of_int (nearest (x / 2 powi e)) \<le> of_int (2 ^ 24)" by (simp only: of_int_le_iff)
  then show "rnd x e \<le> 2 ^ 24 * 2 powi e" unfolding rnd_def by (intro mult_right_mono) simp_all
  have "nearest (of_int 0) \<le> nearest (x / 2 powi e)" using assms by (intro nearest_mono) simp
  then show "0 \<le> rnd x e" unfolding rnd_def nearest_int by simp
qed

lemma rnd_large:
  assumes "placed x e" "e \<noteq> - 149"
  shows "2 ^ 23 * 2 powi e \<le> rnd x e"
proof -
  have "of_int (2 ^ 23) \<le> x / 2 powi e" using assms by (simp add: placed_def divide_simps)
  then have "2 ^ 23 \<le> nearest (x / 2 powi e)" using nearest_mono nearest_int by metis
  then have "real_of_int (2 ^ 23) \<le> of_int (nearest (x / 2 powi e))" by (simp only: of_int_le_iff)
  then show ?thesis unfolding rnd_def by (intro mult_right_mono) simp_all
qed

lemma fround_rounds:
  assumes "0 < q" "s = (x < 0)" "\<bar>x\<bar> = real p / real q"
  shows "rounds x (fround s p q)"
proof (cases "p = 0")
  case True
  then show ?thesis using assms by (simp add: rounds_def fround_def with_sign_def)
next
  case False
  then have x: "x \<noteq> 0" using assms by auto
  define e where "e = last_place p q"
  obtain a b where ab: "scaled p q e = (a, b)" by fastforce
  note r = scaled_ratio [OF ab assms(1)]
  have e: "placed \<bar>x\<bar> e" using last_place_placed [of p q] False assms by (simp add: e_def)
  have m: "int (near a b) = nearest (\<bar>x\<bar> / 2 powi e)"
    using near_is_nearest [OF r(1)] r(2) assms(3) by simp
  have v: "rnd \<bar>x\<bar> e = real (near a b) * 2 powi e" unfolding rnd_def m [symmetric] by simp
  have sg: "of_int (with_sign s k) = sgn x * real k" for k
    using x by (simp add: with_sign_def assms(2) sgn_real_def)
  have fr: "fround s p q = (if near a b = 2 ^ 24 then pack_f32 s (2 ^ 23) (e + 1) else pack_f32 s (near a b) e)"
    using False by (simp add: fround_def Let_def e_def [symmetric] ab)
  have top: "rnd \<bar>x\<bar> e < 2 ^ 128 \<longleftrightarrow> (if near a b = 2 ^ 24 then e + 1 \<le> 104 else e \<le> 104)"
  proof -
    have le: "near a b \<le> 2 ^ 24"
    proof -
      have "real (near a b) \<le> 2 ^ 24" using rnd_small(1) [OF e] unfolding v by simp
      then show ?thesis by (metis of_nat_le_iff of_nat_numeral of_nat_power)
    qed
    consider "near a b = 2 ^ 24" "e + 1 \<le> 104" | "near a b = 2 ^ 24" "104 \<le> e" | "near a b < 2 ^ 24" "e \<le> 104" | "105 \<le> e"
      using le by linarith
    then show ?thesis
    proof cases
      case 1
      then have "rnd \<bar>x\<bar> e \<le> 2 ^ 24 * 2 powi 103" unfolding v using powi_mono [of e 103] by simp
      then show ?thesis using 1 by (simp add: power_int_def)
    next
      case 2
      then have "2 ^ 24 * 2 powi 104 \<le> rnd \<bar>x\<bar> e" unfolding v using powi_mono [of 104 e] by simp
      then show ?thesis using 2 by (simp add: power_int_def)
    next
      case 3
      have "real (near a b) * 2 powi e < 2 ^ 24 * 2 powi e" using 3(1) by simp
      also have "\<dots> \<le> 2 ^ 24 * 2 powi 104" using powi_mono [OF 3(2)] by simp
      finally show ?thesis using 3 unfolding v by (simp add: power_int_def)
    next
      case 4
      then have "2 ^ 23 * 2 powi 105 \<le> rnd \<bar>x\<bar> e"
        using rnd_large [OF e] powi_mono [of 105 e] by simp
      then show ?thesis using 4 by (simp add: power_int_def)
    qed
  qed
  have "if rnd \<bar>x\<bar> e < 2 ^ 128 then fin (fround s p q) \<and> val (fround s p q) = sgn x * rnd \<bar>x\<bar> e else fround s p q = Infinite (x < 0)"
  proof (cases "near a b = 2 ^ 24")
    case True
    have "val (pack_f32 s (2 ^ 23) (e + 1)) = sgn x * rnd \<bar>x\<bar> e" if "e + 1 \<le> 104"
      using that by (simp add: pack_value sg v True powi_Suc)
    then show ?thesis unfolding top fr using True pack_value [of "e + 1"] by (auto simp: pack_f32_def assms(2))
  next
    case False
    have "val (pack_f32 s (near a b) e) = sgn x * rnd \<bar>x\<bar> e" if "e \<le> 104"
      using that by (simp add: pack_value sg v)
    then show ?thesis unfolding top fr using False pack_value [of e] by (auto simp: pack_f32_def assms(2))
  qed
  then show ?thesis unfolding rounds_def using x e by auto
qed

lemma fround_exp_rounds:
  assumes "0 < q" "s = (x < 0)" "\<bar>x\<bar> = real p / real q * 2 powi e"
  shows "rounds x (fround_exp s p q e)"
  unfolding fround_exp_def using assms
  by (auto intro!: fround_rounds simp: power_int_def divide_simps)

lemma rounds_zero: "fin r \<Longrightarrow> val r = 0 \<Longrightarrow> rounds 0 r"
  by (simp add: rounds_def)

lemma fround_zero: "fin (fround_exp s 0 q e) \<and> val (fround_exp s 0 q e) = 0"
  by (simp add: fround_exp_def fround_def with_sign_def)

lemma rounds_signed:
  assumes "0 < q" "x \<noteq> 0 \<Longrightarrow> s = (x < 0)" "\<bar>x\<bar> = real p / real q * 2 powi e"
  shows "rounds x (fround_exp s p q e)"
proof (cases "x = 0")
  case True
  then have "p = 0" using assms by simp
  then show ?thesis using True fround_zero rounds_zero by simp
qed (use assms fround_exp_rounds in blast)

section \<open>Representable numbers\<close>

definition repr :: "real \<Rightarrow> bool" where
  "repr b \<longleftrightarrow> (\<exists>n g. b = real n * 2 powi g \<and> n \<le> 2 ^ 24 \<and> - 149 \<le> g \<and> b < 2 ^ 128)"

lemma rnd_repr:
  assumes "repr b" "placed b e"
  shows "rnd b e = b"
proof -
  obtain n g where b: "b = real n * 2 powi g" "n \<le> 2 ^ 24" "- 149 \<le> g" using assms(1) by (auto simp: repr_def)
  show ?thesis
  proof (cases "e \<le> g")
    case True
    then have "(2 :: real) powi g = 2 ^ nat (g - e) * 2 powi e" using powi_shift [of e "nat (g - e)"] by simp
    then have "b / 2 powi e = of_int (int n * 2 ^ nat (g - e))" unfolding b(1) by simp
    then show ?thesis unfolding rnd_def by (simp only: nearest_int) (simp add: divide_simps)
  next
    case False
    then have "(2 :: real) powi e \<ge> 2 * 2 powi g" using powi_mono [of "g + 1" e] by (simp add: powi_Suc)
    moreover have "8388608 * 2 powi e \<le> b" using assms(2) False b(3) by (auto simp: placed_def)
    moreover have "b \<le> 16777216 * 2 powi g"
    proof -
      have "real n \<le> 16777216" using b(2) by simp
      then show ?thesis unfolding b(1) by (intro mult_right_mono) simp_all
    qed
    ultimately have "b = 2 ^ 23 * 2 powi e" by simp
    then have "b / 2 powi e = of_int (2 ^ 23)" by simp
    then show ?thesis unfolding rnd_def by (simp only: nearest_int) (simp add: divide_simps)
  qed
qed

lemma rnd_mono:
  assumes "0 \<le> x" "x \<le> y" "placed x e" "placed y f"
  shows "rnd x e \<le> rnd y f"
proof (cases "e = f")
  case True
  have "nearest (x / 2 powi e) \<le> nearest (y / 2 powi e)" using assms(2) by (intro nearest_mono) (simp add: divide_simps)
  then show ?thesis unfolding rnd_def True by simp
next
  case False
  have "e < f"
  proof (rule ccontr)
    assume "\<not> e < f"
    then have "(2 :: real) powi (f + 1) \<le> 2 powi e" "e \<noteq> - 149" using False assms(4) powi_mono [of "f + 1" e] by (auto simp: placed_def)
    then show False using assms by (auto simp: placed_def powi_Suc)
  qed
  then have "(2 :: real) powi (e + 1) \<le> 2 powi f" "f \<noteq> - 149" using assms(3) powi_mono [of "e + 1" f] by (auto simp: placed_def)
  then show ?thesis
    using rnd_small(1) [OF assms(3,1)] rnd_large [OF assms(4)] unfolding powi_Suc by simp
qed

lemma rnd_close: "\<bar>rnd x e - x\<bar> \<le> 2 powi e / 2"
proof -
  have "rnd x e - x = (of_int (nearest (x / 2 powi e)) - x / 2 powi e) * 2 powi e" by (simp add: rnd_def algebra_simps)
  then have "\<bar>rnd x e - x\<bar> = \<bar>of_int (nearest (x / 2 powi e)) - x / 2 powi e\<bar> * 2 powi e" by (simp add: abs_mult)
  also have "\<dots> \<le> 1 / 2 * 2 powi e" by (intro mult_right_mono nearest_close) simp
  finally show ?thesis by simp
qed

lemma powi_not_neg [simp]: "\<not> (2 :: real) powi e < 0"
  using powi_pos [of e] by linarith

lemma repr_abs: "repr b \<Longrightarrow> 0 \<le> b"
  by (auto simp: repr_def)

lemma repr_placed:
  assumes "repr b" "0 < b" shows "\<exists>e. placed b e"
proof -
  obtain n g where b: "b = real n * 2 powi g" using assms(1) by (auto simp: repr_def)
  show ?thesis
  proof (cases "0 \<le> g")
    case True
    then have "b = real (n * 2 ^ nat g) / real 1" unfolding b by (simp add: power_int_def)
    moreover have "0 < n" using b assms(2) by (cases n) auto
    ultimately show ?thesis using last_place_placed [of "n * 2 ^ nat g" 1] by auto
  next
    case False
    then have "b = real n / real (2 ^ nat (- g))" unfolding b by (simp add: power_int_def divide_simps)
    moreover have "0 < n" using b assms(2) by (cases n) auto
    ultimately show ?thesis using last_place_placed [of n "2 ^ nat (- g)"] by auto
  qed
qed

lemma rounds_bound:
  assumes "rounds x r" "\<bar>x\<bar> \<le> b" "repr b"
  shows "fin r" and "\<bar>val r\<bar> \<le> b"
proof -
  have "fin r \<and> \<bar>val r\<bar> \<le> b"
  proof (cases "x = 0")
    case False
    then obtain e where e: "placed \<bar>x\<bar> e"
      "if rnd \<bar>x\<bar> e < 2 ^ 128 then fin r \<and> val r = sgn x * rnd \<bar>x\<bar> e else r = Infinite (x < 0)"
      using assms(1) by (auto simp: rounds_def)
    obtain f where f: "placed b f" using repr_placed [OF assms(3)] False assms(2) by force
    have "rnd \<bar>x\<bar> e \<le> b" using rnd_mono [OF _ assms(2) e(1) f] rnd_repr [OF assms(3) f] by simp
    moreover have "b < 2 ^ 128" using assms(3) by (auto simp: repr_def)
    ultimately show ?thesis using e(2) rnd_small(2) [OF e(1)] False by (auto simp: abs_mult)
  qed (use assms repr_abs in \<open>auto simp: rounds_def\<close>)
  then show "fin r" "\<bar>val r\<bar> \<le> b" by simp_all
qed

lemma rounds_least:
  assumes "rounds x r" "b \<le> \<bar>x\<bar>" "repr b" "fin r"
  shows "b \<le> \<bar>val r\<bar>"
proof (cases "b = 0")
  case False
  then have "0 < b" using repr_abs [OF assms(3)] by simp
  moreover obtain e where e: "placed \<bar>x\<bar> e"
    "if rnd \<bar>x\<bar> e < 2 ^ 128 then fin r \<and> val r = sgn x * rnd \<bar>x\<bar> e else r = Infinite (x < 0)"
    using assms(1,2) \<open>0 < b\<close> by (auto simp: rounds_def split: if_splits)
  moreover obtain f where f: "placed b f" using repr_placed assms(3) \<open>0 < b\<close> by blast
  moreover have "b \<le> rnd \<bar>x\<bar> e" using rnd_mono [OF _ assms(2) f e(1)] rnd_repr [OF assms(3) f] \<open>0 < b\<close> by simp
  ultimately show ?thesis using assms(2,4) by (auto simp: abs_mult split: if_splits)
qed simp

lemma rounds_sign:
  assumes "rounds x r" "fin r"
  shows "0 \<le> x \<Longrightarrow> 0 \<le> val r" and "x \<le> 0 \<Longrightarrow> val r \<le> 0"
  using assms rnd_small(2) by (auto simp: rounds_def sgn_real_def split: if_splits)

lemma rounds_abs: "rounds x r \<Longrightarrow> fin r \<Longrightarrow> \<bar>val r\<bar> = val r \<and> 0 \<le> x \<or> \<bar>val r\<bar> = - val r \<and> x \<le> 0"
  using rounds_sign [of x r] by (cases "0 \<le> x") auto

lemma rounds_exact:
  assumes "rounds x r" "repr \<bar>x\<bar>"
  shows "fin r" and "val r = x"
proof -
  show r: "fin r" using rounds_bound [OF assms(1) order_refl assms(2)] by simp
  have "\<bar>val r\<bar> = \<bar>x\<bar>"
    using rounds_bound [OF assms(1) order_refl assms(2)] rounds_least [OF assms(1) order_refl assms(2) r] by simp
  then show "val r = x" using rounds_sign [OF assms(1) r] by linarith
qed

lemma rounds_error:
  assumes "rounds x r" "fin r"
  shows "\<bar>val r - x\<bar> \<le> max (2 powi (- 150)) (\<bar>x\<bar> / 2 ^ 24)"
proof (cases "x = 0")
  case False
  then obtain e where e: "placed \<bar>x\<bar> e" "val r = sgn x * rnd \<bar>x\<bar> e"
    using assms by (auto simp: rounds_def split: if_splits)
  have "val r - x = sgn x * (rnd \<bar>x\<bar> e - \<bar>x\<bar>)" unfolding e(2) by (simp add: algebra_simps abs_sgn)
  then have "\<bar>val r - x\<bar> = \<bar>rnd \<bar>x\<bar> e - \<bar>x\<bar>\<bar>" using False by (simp add: abs_mult)
  also have "\<dots> \<le> 2 powi e / 2" by (rule rnd_close)
  also have "\<dots> \<le> max (2 powi (- 150)) (\<bar>x\<bar> / 2 ^ 24)"
  proof (cases "e = - 149")
    case True
    then show ?thesis using powi_Suc [of "- 150"] by simp
  next
    case False
    then show ?thesis using e(1) by (simp add: placed_def max_def divide_simps)
  qed
  finally show ?thesis .
qed (use assms in \<open>simp add: rounds_def\<close>)

section \<open>The operations round\<close>

lemma val_alt: "fin x \<Longrightarrow> \<exists>s m e. x = Finite s m e"
  by (cases x) simp_all

lemma with_sign_abs [simp]: "\<bar>with_sign s m\<bar> = int m" "with_sign s m < 0 \<longleftrightarrow> s \<and> 0 < m" "with_sign s m = 0 \<longleftrightarrow> m = 0"
  by (auto simp: with_sign_def)

lemma of_int_with_sign_abs [simp]: "\<bar>real_of_int (with_sign s m)\<bar> = real m"
  by (simp add: with_sign_def)

lemma neg_fin [simp]: "fin (- x) = fin x"
  by (cases x) (simp_all add: uminus_f32_def)

lemma neg_val [simp]: "val (- x) = - val x"
  by (cases x) (simp_all add: uminus_f32_def with_sign_def)

lemma minus_alt: "x - y = x + - (y :: f32)"
  by (simp add: minus_f32_def plus_f32_def uminus_f32_def)

lemma add_rounds:
  assumes "fin x" "fin y"
  shows "rounds (val x + val y) (x + y)"
proof -
  obtain s m e t n f where xy: "x = Finite s m e" "y = Finite t n f" using assms val_alt by metis
  define g where "g = min e f"
  define k where "k = with_sign s m * 2 ^ nat (e - g) + with_sign t n * 2 ^ nat (f - g)"
  have e: "(2 :: real) powi e = 2 ^ nat (e - g) * 2 powi g" "(2 :: real) powi f = 2 ^ nat (f - g) * 2 powi g"
    using powi_shift [of g "nat (e - g)"] powi_shift [of g "nat (f - g)"] by (simp_all add: g_def)
  have v: "val x + val y = of_int k * 2 powi g" unfolding xy val.simps e k_def by (simp add: algebra_simps)
  have "x + y = fround_exp (if k = 0 then s \<and> t else k < 0) (nat \<bar>k\<bar>) 1 g"
    unfolding xy plus_f32_def by (simp add: Let_def g_def k_def)
  then show ?thesis unfolding v
    by (simp only:) (rule rounds_signed; simp add: abs_mult mult_less_0_iff)
qed

lemma sub_rounds: "fin x \<Longrightarrow> fin y \<Longrightarrow> rounds (val x - val y) (x - y)"
  using add_rounds [of x "- y"] by (simp add: minus_alt)

lemma mul_rounds:
  assumes "fin x" "fin y"
  shows "rounds (val x * val y) (x * y)"
proof -
  obtain s m e t n f where xy: "x = Finite s m e" "y = Finite t n f" using assms val_alt by metis
  have v: "val x * val y = of_int (with_sign s m * with_sign t n) * 2 powi (e + f)" unfolding xy by (simp add: power_int_add)
  have "x * y = fround_exp (s \<noteq> t) (m * n) 1 (e + f)" unfolding xy times_f32_def by simp
  then show ?thesis unfolding v
    by (simp only:) (rule rounds_signed; auto simp: abs_mult mult_less_0_iff with_sign_def)
qed

lemma div_rounds:
  assumes "fin x" "fin y" "val y \<noteq> 0"
  shows "rounds (val x / val y) (x / y)"
proof -
  obtain s m e t n f where xy: "x = Finite s m e" "y = Finite t n f" using assms val_alt by metis
  have n: "0 < n" using assms(3) by (simp add: xy with_sign_def split: if_splits)
  have v: "val x / val y = of_int (with_sign s m) / of_int (with_sign t n) * 2 powi (e - f)" unfolding xy by (simp add: power_int_diff)
  have "x / y = fround_exp (s \<noteq> t) m n (e - f)" unfolding xy divide_f32_def using n by simp
  then show ?thesis unfolding v using n
    by (simp only:) (rule rounds_signed; auto simp: abs_mult mult_less_0_iff divide_less_0_iff with_sign_def)
qed

lemma fint_rounds: "rounds (of_int i) (fint i)"
  unfolding fint_def by (rule fround_rounds) simp_all

lemma lit_rounds: "0 < q \<Longrightarrow> rounds (real p / real q) (lit p q)"
  unfolding lit_def by (rule fround_rounds) (simp_all add: divide_less_0_iff)

lemma scaled_compare:
  "real_of_int (with_sign s m) * 2 powi e = of_int (with_sign s m * 2 ^ nat (e - min e f)) * 2 powi min e f"
  using powi_shift [of "min e f" "nat (e - min e f)"] by simp

lemma finite_compare:
  "(val (Finite s m e) < val (Finite t n f)) = (with_sign s m * 2 ^ nat (e - min e f) < with_sign t n * 2 ^ nat (f - min e f))" (is ?less)
  "(val (Finite s m e) = val (Finite t n f)) = (with_sign s m * 2 ^ nat (e - min e f) = with_sign t n * 2 ^ nat (f - min e f))" (is ?eq)
proof -
  have v: "val (Finite s m e) = of_int (with_sign s m * 2 ^ nat (e - min e f)) * 2 powi min e f"
    "val (Finite t n f) = of_int (with_sign t n * 2 ^ nat (f - min e f)) * 2 powi min e f"
    using scaled_compare [of s m e f] scaled_compare [of t n f e] by (simp_all add: min.commute)
  show ?less ?eq
    unfolding v by (simp_all only: mult_less_cancel_right_pos [OF powi_pos] mult_cancel_right of_int_less_iff of_int_eq_iff) simp
qed

lemma less_val: "fin x \<Longrightarrow> fin y \<Longrightarrow> x < y \<longleftrightarrow> val x < val y"
  by (cases x; cases y) (simp_all only: fin.simps less_f32_def fless.simps finite_compare)

lemma feq_val: "fin x \<Longrightarrow> fin y \<Longrightarrow> feq x y \<longleftrightarrow> val x = val y"
  by (cases x; cases y) (simp_all only: fin.simps feq.simps finite_compare)

lemma le_val: "fin x \<Longrightarrow> fin y \<Longrightarrow> x \<le> y \<longleftrightarrow> val x \<le> val y"
  using less_val [of x y] feq_val [of x y] by (auto simp: less_eq_f32_def less_f32_def)

lemma fabs_val: "fin x \<Longrightarrow> fin (fabs x) \<and> val (fabs x) = \<bar>val x\<bar>"
  by (cases x) (simp_all add: abs_mult with_sign_def)

section \<open>The square root is correctly rounded\<close>

lemma iroot_floor: "(iroot n)\<^sup>2 \<le> n \<and> n < (iroot n + 1)\<^sup>2"
proof (induction n rule: iroot.induct)
  case (1 n)
  show ?case
  proof (cases "n = 0")
    case False
    define r where "r = iroot (n div 4)"
    have "r * r \<le> n div 4" "n div 4 < (r + 1) * (r + 1)" using 1 False by (simp_all add: r_def power2_eq_square)
    then have "4 * (r * r) \<le> n" "n < 4 * ((r + 1) * (r + 1))" by linarith+
    then show ?thesis using False
      by (simp add: iroot.simps [of n] next_root_def power2_eq_square flip: r_def)
  qed (simp add: iroot.simps)
qed

lemma nearest_half:
  assumes "of_int f < z" "z < of_int f + 1"
  shows "nearest (z / 2) = (f + 1) div 2"
proof (cases "even f")
  case True
  then obtain h where f: "f = 2 * h" by (rule evenE)
  have "\<lfloor>z / 2\<rfloor> = h" using assms unfolding f by (simp add: floor_eq_iff)
  then show ?thesis using assms unfolding f nearest_def by (simp add: Let_def)
next
  case False
  then obtain h where f: "f = 2 * h + 1" by (rule oddE)
  have "\<lfloor>z / 2\<rfloor> = h" using assms unfolding f by (simp add: floor_eq_iff)
  then show ?thesis using assms unfolding f nearest_def by (simp add: Let_def)
qed

lemma nearest_between:
  assumes "of_int r < t" "t < of_int r + 1" "1 \<le> k"
  shows "nearest (t / 2 ^ k) = (r div 2 ^ (k - 1) + 1) div 2"
proof -
  define j :: int where "j = 2 ^ (k - 1)"
  have j: "0 < j" by (simp add: j_def)
  have k: "(2 :: real) ^ k = of_int j * 2" using assms(3) by (cases k) (simp_all add: j_def)
  have "of_int (r div j * j) \<le> (of_int r :: real)" "of_int r + 1 \<le> (of_int ((r div j + 1) * j) :: real)"
  proof -
    have "r div j * j + r mod j = r" by simp
    then have "r div j * j \<le> r" "r + 1 \<le> r div j * j + j"
      using pos_mod_bound [OF j, of r] pos_mod_sign [OF j, of r] by linarith+
    then have "r div j * j \<le> r" "r + 1 \<le> (r div j + 1) * j" by (simp_all only: distrib_right mult_1)
    then show "of_int (r div j * j) \<le> (of_int r :: real)" "of_int r + 1 \<le> (of_int ((r div j + 1) * j) :: real)" by linarith+
  qed
  then have "of_int (r div j) < t / of_int j" "t / of_int j < of_int (r div j) + 1"
    using assms j by (simp_all add: divide_simps algebra_simps)
  from nearest_half [OF this] show ?thesis unfolding k by (simp add: j_def mult.commute)
qed

lemma rounds_between:
  assumes "rounds y f" "y = (real r + 1 / 2) * 2 powi h" "s = z * 2 powi h" "real r < z" "z < real r + 1" "2 ^ 24 \<le> r"
  shows "rounds s f"
proof -
  have pos: "0 < y" "0 < s" using assms by simp_all
  then obtain e where e: "placed y e" "if rnd y e < 2 ^ 128 then fin f \<and> val f = rnd y e else f = Infinite False"
    using assms(1) by (auto simp: rounds_def)
  have "h < e"
  proof (rule ccontr)
    assume "\<not> h < e"
    then have "2 ^ 24 * 2 powi e \<le> real r * 2 powi h"
      using assms(6) powi_mono [of e h] by (intro mult_mono) simp_all
    also have "\<dots> \<le> y" unfolding assms(2) by simp
    finally show False using e(1) by (simp add: placed_def)
  qed
  define k where "k = nat (e - h)"
  have k: "1 \<le> k" "(2 :: real) powi e = 2 ^ k * 2 powi h"
    using \<open>h < e\<close> powi_shift [of h k] by (simp_all add: k_def)
  have q: "y / 2 powi e = (real r + 1 / 2) / 2 ^ k" "s / 2 powi e = z / 2 ^ k"
    unfolding assms(2,3) k(2) by simp_all
  have same: "rnd s e = rnd y e"
    unfolding rnd_def q using nearest_between [of "int r" _ k] assms(4,5) k(1) by simp
  have cut: "real r + 1 / 2 < real N \<longleftrightarrow> z < real N" "real N \<le> real r + 1 / 2 \<longleftrightarrow> real N \<le> z" for N
  proof -
    have "real r + 1 / 2 < real N \<longleftrightarrow> r + 1 \<le> N" by linarith
    moreover have "z < real N \<longleftrightarrow> r + 1 \<le> N" using assms(4,5) by linarith
    ultimately show "real r + 1 / 2 < real N \<longleftrightarrow> z < real N" "real N \<le> real r + 1 / 2 \<longleftrightarrow> real N \<le> z" by linarith+
  qed
  have "placed s e"
    using e(1) cut(1) [of "2 ^ 24 * 2 ^ k"] cut(2) [of "2 ^ 23 * 2 ^ k"]
    unfolding placed_def k(2) assms(2,3) by (simp flip: mult.assoc)
  then show ?thesis using pos e(2) unfolding rounds_def same [symmetric] by auto
qed

lemma root_parts_scale:
  assumes "0 < m" "root_parts m e = (n, g)"
  shows "even g" and "real m * 2 powi e = real n * 2 powi g" and "2 ^ 49 \<le> n"
proof -
  define k where "k = 50 - bits m + (if even (e - int (50 - bits m)) then 0 else 1)"
  have ng: "n = m * 2 ^ k" "g = e - int k" using assms(2) by (simp_all add: root_parts_def k_def)
  show "even g" unfolding ng k_def by auto
  show "real m * 2 powi e = real n * 2 powi g" using powi_shift [of g k] unfolding ng by simp
  have "2 ^ 50 \<le> (2 :: nat) ^ (bits m + k)" by (intro power_increasing) (simp_all add: k_def)
  also have "\<dots> \<le> 2 * m * 2 ^ k" unfolding power_add using bits_least [OF assms(1)] by simp
  finally show "2 ^ 49 \<le> n" unfolding ng by simp
qed

lemma sqrt_rounds:
  assumes "fin x" "0 \<le> val x"
  shows "rounds (sqrt (val x)) (fsqrt x)"
proof -
  obtain s m e where x: "x = Finite s m e" using assms(1) val_alt by metis
  show ?thesis
  proof (cases "m = 0")
    case True
    then show ?thesis unfolding x by (simp add: rounds_def with_sign_def)
  next
    case False
    then have s: "\<not> s" using assms(2) unfolding x by (simp add: with_sign_def zero_le_mult_iff split: if_splits) (metis powi_pos less_le_not_le)
    obtain n g where ng: "root_parts m e = (n, g)" by fastforce
    note parts = root_parts_scale [OF _ ng]
    obtain h where h: "g = 2 * h" using parts(1) False by (auto elim: evenE)
    define r where "r = iroot n"
    have r: "r\<^sup>2 \<le> n" "n < (r + 1)\<^sup>2" using iroot_floor [of n] by (simp_all add: r_def)
    have g: "(2 :: real) powi g = (2 powi h)\<^sup>2" unfolding h by (simp add: power2_eq_square flip: power_int_add)
    have v: "sqrt (val x) = sqrt (real n) * 2 powi h"
      using parts(2) False s unfolding x g by (simp add: with_sign_def real_sqrt_mult)
    have f: "fsqrt x = fround_exp False (sticky n r) 1 (h - 1)"
      unfolding x using False s ng by (simp add: r_def h)
    have half: "(2 :: real) powi h = 2 * 2 powi (h - 1)" using powi_Suc [of "h - 1"] by simp
    show ?thesis
    proof (cases "r * r = n")
      case True
      then have "sqrt (real n) = real r" by (metis of_nat_mult real_sqrt_mult_self real_sqrt_mult of_nat_0_le_iff abs_of_nonneg)
      then show ?thesis unfolding v f using True by (intro rounds_signed) (simp_all add: sticky_def half mult_less_0_iff)
    next
      case False
      have root: "real r < sqrt (real n)" "sqrt (real n) < real r + 1"
      proof -
        have "r\<^sup>2 < n" using r(1) False by (simp add: power2_eq_square)
        then have "(real r)\<^sup>2 < real n" by (metis of_nat_less_iff of_nat_power)
        then show "real r < sqrt (real n)" by (rule real_less_rsqrt)
        have "real n < (real r + 1)\<^sup>2" using r(2) by (metis of_nat_1 of_nat_add of_nat_less_iff of_nat_power)
        then show "sqrt (real n) < real r + 1" by (intro real_less_lsqrt) simp_all
      qed
      have "2 ^ 24 \<le> r"
      proof (rule ccontr)
        assume "\<not> 2 ^ 24 \<le> r"
        then have "(r + 1)\<^sup>2 \<le> (2 ^ 24)\<^sup>2" by (intro power_mono) simp_all
        then show False using r(2) parts(3) \<open>m \<noteq> 0\<close> by simp
      qed
      moreover have "rounds ((real r + 1 / 2) * 2 powi h) (fround_exp False (sticky n r) 1 (h - 1))"
        using False by (intro rounds_signed) (simp_all add: sticky_def half algebra_simps not_less add_nonneg_nonneg)
      ultimately show ?thesis unfolding v f using root by (blast intro: rounds_between)
    qed
  qed
qed

section \<open>Values only\<close>

lemma rounds_val:
  assumes "rounds x r" "rounds x t" "fin r"
  shows "fin t" and "val t = val r"
proof -
  have "fin t \<and> val t = val r"
  proof (cases "x = 0")
    case False
    obtain e where e: "placed \<bar>x\<bar> e"
      "if rnd \<bar>x\<bar> e < 2 ^ 128 then fin r \<and> val r = sgn x * rnd \<bar>x\<bar> e else r = Infinite (x < 0)"
      using assms(1) False by (auto simp: rounds_def)
    obtain f where f: "placed \<bar>x\<bar> f"
      "if rnd \<bar>x\<bar> f < 2 ^ 128 then fin t \<and> val t = sgn x * rnd \<bar>x\<bar> f else t = Infinite (x < 0)"
      using assms(2) False by (auto simp: rounds_def)
    show ?thesis using e f placed_unique [OF e(1) f(1)] assms(3) by (auto split: if_splits)
  qed (use assms in \<open>simp add: rounds_def\<close>)
  then show "fin t" "val t = val r" by simp_all
qed

lemma lroundf_val: "fin x \<Longrightarrow> lroundf x = Some (if 0 \<le> val x then \<lfloor>val x + 1 / 2\<rfloor> else - \<lfloor>1 / 2 - val x\<rfloor>)"
proof -
  assume "fin x"
  then obtain s m e where x: "x = Finite s m e" using val_alt by metis
  define k where "k = (if 0 \<le> e then m * 2 ^ nat e else (2 * m + 2 ^ nat (- e)) div (2 * 2 ^ nat (- e)))"
  have k: "\<lfloor>real m * 2 powi e + 1 / 2\<rfloor> = int k"
  proof (cases "0 \<le> e")
    case True
    then have "real m * 2 powi e = of_int (int (m * 2 ^ nat e))" by (simp add: power_int_def)
    then show ?thesis using True by (simp only: k_def if_True) linarith
  next
    case False
    then have "real m * 2 powi e + 1 / 2 = real (2 * m + 2 ^ nat (- e)) / real (2 * 2 ^ nat (- e))"
      by (simp add: power_int_def field_simps)
    then show ?thesis using False unfolding k_def by (simp only: floor_divide_of_nat_eq if_False)
  qed
  have l: "lroundf x = Some (with_sign s k)" by (simp add: x k_def)
  show ?thesis
  proof (cases "s \<and> 0 < m")
    case True
    then have "val x < 0" "1 / 2 - val x = real m * 2 powi e + 1 / 2" by (simp_all add: x with_sign_def mult_less_0_iff)
    then show ?thesis using k l True by (simp only: with_sign_def if_True) (simp add: add.commute)
  next
    case False
    then have "val x = real m * 2 powi e" by (auto simp: x with_sign_def)
    moreover have "with_sign s k = int k"
    proof (cases "m = 0")
      case True
      then have "k = 0" by (simp add: k_def)
      then show ?thesis by (simp add: with_sign_def)
    qed (use False in \<open>simp add: with_sign_def\<close>)
    ultimately show ?thesis using k l by simp
  qed
qed

section \<open>Bounds by powers of two\<close>

definition small :: "int \<Rightarrow> f32 \<Rightarrow> bool" where
  "small b x \<longleftrightarrow> fin x \<and> \<bar>val x\<bar> \<le> 2 powi b"

lemma repr_powi: "- 149 \<le> b \<Longrightarrow> b < 128 \<Longrightarrow> repr (2 powi b)"
proof -
  assume b: "- 149 \<le> b" "b < 128"
  have "(2 :: real) powi b < 2 powi 128" using b(2) by (intro power_int_strict_increasing) simp_all
  then have "(2 :: real) powi b < 2 ^ 128" by (simp only: powi_128)
  then show ?thesis unfolding repr_def using b(1) by (intro exI [of _ 1] exI [of _ b]) simp
qed

lemma small_fin: "small b x \<Longrightarrow> fin x"
  by (simp add: small_def)

lemma small_mono: "small a x \<Longrightarrow> a \<le> b \<Longrightarrow> small b x"
  using powi_mono [of a b] by (auto simp: small_def)

lemma small_rounds: "rounds x r \<Longrightarrow> \<bar>x\<bar> \<le> 2 powi b \<Longrightarrow> - 149 \<le> b \<Longrightarrow> b < 128 \<Longrightarrow> small b r"
  using rounds_bound repr_powi by (auto simp: small_def)

lemma small_add:
  assumes "small a x" "small a y" "- 150 \<le> a" "a < 127"
  shows "small (a + 1) (x + y)" and "small (a + 1) (x - y)"
proof -
  have "\<bar>val x + val y\<bar> \<le> 2 powi (a + 1)" "\<bar>val x - val y\<bar> \<le> 2 powi (a + 1)"
    using assms(1,2) by (auto simp: small_def powi_Suc)
  then show "small (a + 1) (x + y)" "small (a + 1) (x - y)"
    using small_rounds [OF add_rounds] small_rounds [OF sub_rounds] assms by (simp_all add: small_def)
qed

lemma small_mul:
  assumes "small a x" "small b y" "- 149 \<le> a + b" "a + b < 128"
  shows "small (a + b) (x * y)"
proof -
  have "\<bar>val x * val y\<bar> \<le> 2 powi (a + b)"
    using assms(1,2) by (auto simp: small_def abs_mult power_int_add intro!: mult_mono)
  then show ?thesis using assms by (intro small_rounds [OF mul_rounds]) (auto simp: small_def)
qed

lemma small_div:
  assumes "small a x" "fin y" "2 powi (- b) \<le> val y" "- 149 \<le> a + b" "a + b < 128"
  shows "small (a + b) (x / y)"
proof -
  have y: "0 < val y" using assms(3) powi_pos [of "- b"] by linarith
  have "\<bar>val x\<bar> \<le> 2 powi a" using assms(1) by (simp add: small_def)
  also have "(2 :: real) powi a = 2 powi (a + b) * 2 powi (- b)" by (simp flip: power_int_add)
  also have "\<dots> \<le> 2 powi (a + b) * val y" using assms(3) by (intro mult_left_mono) simp_all
  finally have "\<bar>val x / val y\<bar> \<le> 2 powi (a + b)" using y by (simp add: abs_divide pos_divide_le_eq)
  then show ?thesis using assms y by (intro small_rounds [OF div_rounds]) (auto simp: small_def)
qed

lemma small_sqrt:
  assumes "small (a + a) x" "0 \<le> val x" "- 149 \<le> a" "a < 128"
  shows "small a (fsqrt x)"
proof -
  have "sqrt (val x) \<le> sqrt ((2 powi a)\<^sup>2)"
    using assms by (intro real_sqrt_le_mono) (auto simp: small_def power2_eq_square simp flip: power_int_add)
  then have "\<bar>sqrt (val x)\<bar> \<le> 2 powi a" using assms(2) by simp
  then show ?thesis using assms by (intro small_rounds [OF sqrt_rounds]) (auto simp: small_def)
qed

lemma small_neg [simp]: "small b (- x) = small b x"
  by (simp add: small_def)

end
