(* ===== verification/Tune_Report.thy ===== *)
theory Tune_Report
  imports Tune_Probes C_Print Float_Facts
begin

text \<open>
  The printer of the probes (\<open>src/tools/tune_report.c\<close>): its options, the header of the tune, a row for
  each metric in one of two formats and the warning.  A distance is a Q20.12 number over 4096, a speed
  60 times that; both are exact as \<open>double\<close>, so the three decimals printed are those of the exact value.
\<close>

definition tab :: string where "tab = [CHR 0x09]"
definition newline :: string where "newline = [CHR 0x0A]"

text \<open>\<open>%.3f\<close> of \<open>n / 4096\<close>.\<close>

definition print_q :: "int \<Rightarrow> string" where
  "print_q n = (if n < 0 then ''-'' else []) @ print_ratio 3 (nat \<bar>n\<bar>) 4096"

definition row_f :: "bool \<Rightarrow> string \<Rightarrow> int \<Rightarrow> string \<Rightarrow> string" where
  "row_f json name n unit =
     (if json then ''  '' @ [CHR 0x22] @ name @ [CHR 0x22] @ '': '' @ print_q n @ '','' @ newline
      else name @ tab @ print_q n @ tab @ unit @ newline)"

definition row_i :: "bool \<Rightarrow> string \<Rightarrow> int \<Rightarrow> string \<Rightarrow> string" where
  "row_i json name v unit =
     (if json then ''  '' @ [CHR 0x22] @ name @ [CHR 0x22] @ '': '' @ print_d v @ '','' @ newline
      else name @ tab @ print_d v @ tab @ unit @ newline)"

definition tune_line :: "string \<Rightarrow> int \<Rightarrow> string" where
  "tune_line name v = ''# '' @ name @ tab @ print_d v @ newline"

definition tune_header :: string where
  "tune_header =
     tune_line ''TUNE_VERSION'' (uint TUNE_VERSION) @ tune_line ''TUNE_RUN_SPEED'' TUNE_RUN_SPEED
     @ tune_line ''TUNE_RUN_ACCEL'' TUNE_RUN_ACCEL @ tune_line ''TUNE_RUN_FRICTION'' TUNE_RUN_FRICTION
     @ tune_line ''TUNE_TURN_RATE'' TUNE_TURN_RATE @ tune_line ''TUNE_JUMP_IMPULSE'' TUNE_JUMP_IMPULSE
     @ tune_line ''TUNE_GRAVITY'' TUNE_GRAVITY @ tune_line ''TUNE_AIR_CONTROL'' TUNE_AIR_CONTROL"

definition tune_rows :: "bool \<Rightarrow> TuneMetrics \<Rightarrow> string" where
  "tune_rows json m =
     row_f json ''top_speed'' (60 * tm_top_speed m) ''u/s''
     @ row_i json ''ticks_to_90pct'' (int (tm_ticks_to_90pct m)) ''ticks''
     @ row_f json ''ramp_distance'' (tm_ramp_distance m) ''u''
     @ row_f json ''stop_distance'' (tm_stop_distance m) ''u''
     @ row_i json ''stop_ticks'' (int (tm_stop_ticks m)) ''ticks''
     @ row_i json ''turn180_ticks'' (int (tm_turn180_ticks m)) ''ticks''
     @ row_i json ''turn90_ticks'' (int (tm_turn90_ticks m)) ''ticks''
     @ row_f json ''turn_radius'' (tm_turn_radius m) ''u''
     @ row_f json ''jump_apex'' (tm_jump_apex m) ''u''
     @ row_i json ''jump_airtime'' (int (tm_jump_airtime m)) ''ticks''
     @ row_f json ''runjump_distance'' (tm_runjump_distance m) ''u''
     @ row_i json ''runjump_airtime'' (int (tm_runjump_airtime m)) ''ticks''
     @ row_i json ''traverse_ticks'' (int (tm_traverse_ticks m)) ''ticks''"

definition any_capped :: "TuneMetrics \<Rightarrow> bool" where
  "any_capped m \<longleftrightarrow> tm_ramp_capped m \<or> tm_stop_capped m \<or> tm_turn_capped m \<or> tm_traverse_capped m"

definition tune_footer :: "bool \<Rightarrow> TuneMetrics \<Rightarrow> string" where
  "tune_footer json m =
     (if json then ''  '' @ [CHR 0x22] @ ''capped'' @ [CHR 0x22] @ '': '' @ print_d (of_bool (any_capped m)) @ newline @ ''}'' @ newline
      else if any_capped m then ''# WARNING'' @ tab @ ''one or more probes hit the iteration cap'' @ newline else [])"

text \<open>The options: the last one wins, an unknown one ends the run.\<close>

fun report_args :: "bool \<Rightarrow> string list \<Rightarrow> bool option" where
  "report_args json [] = Some json"
| "report_args json (a # as) =
     (if a = ''--json'' then report_args True as else if a = ''--tsv'' then report_args False as else None)"

text \<open>Exit code, standard output, standard error.\<close>

definition tune_report :: "string list \<Rightarrow> TuneMetrics \<Rightarrow> int \<times> string \<times> string" where
  "tune_report args m = (case report_args False args of
       None \<Rightarrow> (2, [], ''usage: tune_report [--tsv|--json]'' @ newline)
     | Some json \<Rightarrow> (0, (if json then ''{'' @ newline else tune_header) @ tune_rows json m @ tune_footer json m, []))"

definition tune_report_main :: "string list \<Rightarrow> int \<times> string \<times> string" where
  "tune_report_main args = tune_report args tune_probes_run"

section \<open>What is printed\<close>

text \<open>The number printed for a distance or a speed is within half a thousandth of the one measured, and a report is written
  exactly when every option is known.\<close>

theorem printed_metrics_are_close:
  "\<exists>k. print_q n = (if n < 0 then ''-'' else []) @ print_places 3 k \<and> \<bar>real k / 1000 - real_of_int \<bar>n\<bar> / 4096\<bar> \<le> 1 / 2000"
proof -
  define k where "k = near (nat \<bar>n\<bar> * 10 ^ 3) 4096"
  define x where "x = real (nat \<bar>n\<bar> * 10 ^ 3) / real 4096"
  have x: "x = real_of_int \<bar>n\<bar> * 1000 / 4096" by (simp add: x_def)
  have "int k = nearest x" unfolding k_def x_def by (rule near_is_nearest) simp
  then have "real k = of_int (nearest x)" by (metis of_int_of_nat_eq)
  then have "\<bar>real k - real_of_int \<bar>n\<bar> * 1000 / 4096\<bar> \<le> 1 / 2" using nearest_close [of x] x by simp
  then have "\<bar>real k / 1000 - real_of_int \<bar>n\<bar> / 4096\<bar> \<le> 1 / 2000" by linarith
  then show ?thesis unfolding print_q_def print_ratio_def k_def by blast
qed

lemma report_args_known: "report_args json args = None \<longleftrightarrow> \<not> set args \<subseteq> {''--json'', ''--tsv''}"
  by (induction args arbitrary: json) auto

theorem report_or_usage:
  "(fst (tune_report args m) = 0) = (set args \<subseteq> {''--json'', ''--tsv''})
    \<and> (fst (tune_report args m) = 0) = (snd (snd (tune_report args m)) = [])
    \<and> (fst (tune_report args m) = 2) = (fst (snd (tune_report args m)) = [])"
proof -
  have rows: "tune_rows json m \<noteq> []" for json by (simp add: tune_rows_def row_f_def newline_def)
  show ?thesis
    using report_args_known [of False args] rows by (cases "report_args False args") (auto simp: tune_report_def)
qed

end
