(* ===== verification/Viewer_Start.thy ===== *)
theory Viewer_Start
  imports C_Scan Client_Props Viewer_Match
begin

text \<open>
  How the viewer starts (\<open>src/tools/viewer/viewer_main.c\<close>): its options, the address of a server, and the
  lobby bootstrap that blocks until the client is READY or FAILED.
\<close>

section \<open>A server's address\<close>

text \<open>\<open>%u.%u.%u.%u\<close> of \<open>sscanf\<close>, with what follows; whether the port follows too.\<close>

definition scan_quad :: "(string \<Rightarrow> u32) \<Rightarrow> string \<Rightarrow> (u32 \<times> u32 \<times> u32 \<times> u32 \<times> string) option" where
  "scan_quad undef t =
     do { (a, t) \<leftarrow> scan_u undef t; t \<leftarrow> scan_char (CHR ''.'') t;
          (b, t) \<leftarrow> scan_u undef t; t \<leftarrow> scan_char (CHR ''.'') t;
          (c, t) \<leftarrow> scan_u undef t; t \<leftarrow> scan_char (CHR ''.'') t;
          (d, t) \<leftarrow> scan_u undef t; Some (a, b, c, d, t) }"

definition quad_ip :: "u32 \<Rightarrow> u32 \<Rightarrow> u32 \<Rightarrow> u32 \<Rightarrow> u32" where
  "quad_ip a b c d = push_bit 24 a OR push_bit 16 b OR push_bit 8 c OR d"

definition viewer_parse_server :: "(string \<Rightarrow> u32) \<Rightarrow> string \<Rightarrow> LobbyEndpoint option" where
  "viewer_parse_server undef t =
     do { (a, b, c, d, rest) \<leftarrow> scan_quad undef t;
          let p = (case scan_char (CHR '':'') rest of None \<Rightarrow> ucast LOBBY_DEFAULT_PORT
             | Some r \<Rightarrow> (case scan_u undef r of None \<Rightarrow> ucast LOBBY_DEFAULT_PORT | Some (p, _) \<Rightarrow> p));
          if 255 < a \<or> 255 < b \<or> 255 < c \<or> 255 < d \<or> p = 0 \<or> 65535 < p then None
          else Some \<lparr>ep_ip = quad_ip a b c d, ep_port = ucast p\<rparr> }"

section \<open>Options\<close>

record ViewerOptions =
  vo_frames :: int
  vo_seed :: u32
  vo_players :: int
  vo_inject :: int
  vo_host :: "string option"
  vo_join :: "string option"

definition default_options :: ViewerOptions where
  "default_options = \<lparr>vo_frames = - 1, vo_seed = 0xC0FFEE, vo_players = 2, vo_inject = - 1, vo_host = None, vo_join = None\<rparr>"

text \<open>An argument and the one after it.\<close>

definition viewer_option :: "(string \<Rightarrow> int) \<Rightarrow> string \<times> string \<Rightarrow> ViewerOptions \<Rightarrow> ViewerOptions" where
  "viewer_option undef = (\<lambda>(a, v) vo.
     if a = ''--frames'' then vo\<lparr>vo_frames := c_atoi undef v\<rparr>
     else if a = ''--seed'' then vo\<lparr>vo_seed := ucast (c_strtoul0 v)\<rparr>
     else if a = ''--host'' then vo\<lparr>vo_host := Some v\<rparr>
     else if a = ''--join'' then vo\<lparr>vo_join := Some v\<rparr>
     else if a = ''--players'' then vo\<lparr>vo_players := c_atoi undef v\<rparr>
     else if a = ''--inject'' then vo\<lparr>vo_inject := c_atoi undef v\<rparr>
     else vo)"

definition is_smoke :: "ViewerOptions \<Rightarrow> bool" where
  "is_smoke vo \<longleftrightarrow> 0 \<le> vo_frames vo"

definition is_online :: "ViewerOptions \<Rightarrow> bool" where
  "is_online vo \<longleftrightarrow> \<not> is_smoke vo \<and> (vo_host vo \<noteq> None \<or> vo_join vo \<noteq> None)"

definition settle_options :: "ViewerOptions \<Rightarrow> ViewerOptions" where
  "settle_options vo =
     (let vo = (if is_online vo then vo else vo\<lparr>vo_inject := - 1\<rparr>);
          vo = (if vo_players vo < 2 then vo\<lparr>vo_players := 2\<rparr> else vo)
      in if int ARENA_MAX_PLAYERS < vo_players vo then vo\<lparr>vo_players := int ARENA_MAX_PLAYERS\<rparr> else vo)"

definition viewer_options :: "(string \<Rightarrow> int) \<Rightarrow> string list \<Rightarrow> ViewerOptions" where
  "viewer_options undef argv = settle_options (fold (viewer_option undef) (zip (tl argv) (tl (tl argv))) default_options)"

section \<open>Bootstrap\<close>

datatype Start = Exit int | Begun LobbyClient "Packet list"

text \<open>The result of \<open>lobby_host_begin\<close> is not looked at; it succeeds, because the number of players has been
  brought into range.  A run that is online without a host has a code.\<close>

definition viewer_begin :: "(string \<Rightarrow> u32) \<Rightarrow> bool \<Rightarrow> u16 \<Rightarrow> LobbyEndpoint \<Rightarrow> u32 \<Rightarrow> u32 \<Rightarrow> ViewerOptions \<Rightarrow> Start" where
  "viewer_begin undef opened bound_port local_ep secs now vo =
     (if \<not> opened then Exit 1
      else (case vo_host vo of
          Some host \<Rightarrow> (case viewer_parse_server undef host of None \<Rightarrow> Exit 2
            | Some srv \<Rightarrow> (case lobby_host_begin bound_port local_ep srv (of_int (vo_players vo)) (0xB0BB1E5 XOR secs) 0 1 now of
                 None \<Rightarrow> Begun (client_init 0 0) [] | Some (lc, out) \<Rightarrow> Begun lc out))
        | None \<Rightarrow> (case lobby_join_begin bound_port local_ep (case vo_join vo of None \<Rightarrow> [] | Some code \<Rightarrow> code) now of
                 None \<Rightarrow> Exit 2 | Some (lc, out) \<Rightarrow> Begun lc out)))"

text \<open>The loop over the polls; \<open>None\<close> when these polls do not suffice.\<close>

definition settled :: "LobbyClient \<Rightarrow> bool" where
  "settled lc \<longleftrightarrow> lc_stage lc = LOBBY_C_READY \<or> lc_stage lc = LOBBY_C_FAILED"

fun wait_lobby :: "(u32 \<times> (LobbyEndpoint \<times> u8 list) list) list \<Rightarrow> LobbyClient \<Rightarrow> (LobbyClient \<times> Packet list) option" where
  "wait_lobby [] lc = None"
| "wait_lobby ((now, inbox) # ps) lc =
     (let (lc, out) = lobby_poll now inbox lc in
      if settled lc then Some (lc, out) else map_option (apsnd ((@) out)) (wait_lobby ps lc))"

section \<open>From the command line to a running match\<close>

text \<open>What the start asks of the world: the two conversions C leaves undefined, whether a socket opens and what it is
  bound to, the clocks, the polls that follow, whether SDL opens a window, and what \<open>Viewer_Match\<close> asks.  The packets
  sent meanwhile are those that \<open>viewer_begin\<close> and \<open>wait_lobby\<close> return.\<close>

record World =
  wo_int :: "string \<Rightarrow> int"
  wo_u32 :: "string \<Rightarrow> u32"
  wo_socket :: bool
  wo_port :: u16
  wo_local_ep :: LobbyEndpoint
  wo_secs :: u32
  wo_now :: u32
  wo_polls :: "(u32 \<times> (LobbyEndpoint \<times> u8 list) list) list"
  wo_video :: bool
  wo_host :: Host
  wo_adapter :: NetAdapter

datatype Launch = Ends int | Waits | Runs Viewer

definition launch_lobby :: "World \<Rightarrow> ViewerOptions \<Rightarrow> Launch" where
  "launch_lobby wo vo =
     (case viewer_begin (wo_u32 wo) (wo_socket wo) (wo_port wo) (wo_local_ep wo) (wo_secs wo) (wo_now wo) vo of
        Exit code \<Rightarrow> Ends code
      | Begun lc out \<Rightarrow> (case wait_lobby (wo_polls wo) lc of
            None \<Rightarrow> Waits
          | Some (lc, out) \<Rightarrow>
              if lc_stage lc = LOBBY_C_FAILED then Ends 1
              else (case viewer_online (wo_host wo) (vo_seed vo) (vo_inject vo) lc (wo_adapter wo) of
                      None \<Rightarrow> Ends 1 | Some v \<Rightarrow> if wo_video wo then Runs v else Ends 1)))"

definition viewer_launch :: "World \<Rightarrow> string list \<Rightarrow> Launch" where
  "viewer_launch wo argv =
     (let vo = viewer_options (wo_int wo) argv in
      if is_online vo then launch_lobby wo vo
      else if \<not> wo_video wo then Ends 1
      else if is_smoke vo then Runs (viewer_smoke (vo_seed vo) (nat (vo_frames vo)))
      else (case viewer_couch (wo_host wo) (vo_seed vo) of None \<Rightarrow> Ends 1 | Some v \<Rightarrow> Runs v))"

section \<open>What the start guarantees\<close>

lemma settle_players: "2 \<le> vo_players (settle_options vo) \<and> vo_players (settle_options vo) \<le> 4"
  by (auto simp: settle_options_def Let_def ARENA_MAX_PLAYERS_def)

lemma host_always_begins:
  "\<exists>lc out. lobby_host_begin bound_port local_ep srv (of_int (vo_players (settle_options vo))) seed arena delay now = Some (lc, out)"
proof -
  obtain n where n: "vo_players (settle_options vo) = int n" "2 \<le> n" "n \<le> 4"
    using settle_players [of vo] by (metis nat_0_le nat_le_iff of_nat_numeral order_trans zero_le_numeral nat_numeral nat_mono)
  then have "unat (of_int (vo_players (settle_options vo)) :: u8) = n" by (simp add: unsigned_of_nat take_bit_nat_eq_self)
  then show ?thesis using n by (simp add: lobby_host_begin_def ARENA_MAX_PLAYERS_def Let_def)
qed

text \<open>The bootstrap loop ends: among polls that go past thirty seconds there is one after which the client is READY
  or FAILED, whatever arrived.\<close>

theorem bootstrap_loop_ends:
  assumes "client_reach got lc" and "\<exists>p \<in> set ps. LOBBY_TIMEOUT_MS < fst p - lc_begin lc"
  shows "\<exists>lc' out. wait_lobby ps lc = Some (lc', out) \<and> settled lc'"
  using assms
proof (induction ps arbitrary: got lc)
  case (Cons p ps)
  obtain now inbox where p: "p = (now, inbox)" by fastforce
  define lc1 where "lc1 = fst (lobby_poll now inbox lc)"
  obtain out where poll: "lobby_poll now inbox lc = (lc1, out)" by (metis lc1_def prod.collapse)
  have ok: "client_ok lc" "lc_stage lc \<noteq> LOBBY_C_IDLE" using reach_ok [OF Cons.prems(1)] by simp_all
  have begun: "lc_begin lc1 = lc_begin lc"
    using charter_poll [of lc now inbox] ok(1) by (simp add: client_ok_def lc1_def charter_def)
  show ?case
  proof (cases "settled lc1")
    case True
    then show ?thesis using poll by (simp add: p)
  next
    case False
    have "\<not> LOBBY_TIMEOUT_MS < now - lc_begin lc"
    proof
      assume late: "LOBBY_TIMEOUT_MS < now - lc_begin lc"
      show False
      proof (cases "booting lc")
        case True
        then show False using poll_live(2) [OF ok late] False by (simp add: settled_def lc1_def)
      next
        case no: False
        then show False using ok(2) False by (auto simp: booting_iff lobby_poll_def lc1_def settled_def)
      qed
    qed
    then have "\<exists>p \<in> set ps. LOBBY_TIMEOUT_MS < fst p - lc_begin lc1" using Cons.prems(2) begun by (simp add: p)
    moreover have "client_reach (got @ inbox) lc1" unfolding lc1_def by (rule reach_poll [OF Cons.prems(1)])
    ultimately obtain lc' o' where "wait_lobby ps lc1 = Some (lc', o')" "settled lc'" using Cons.IH by blast
    then show ?thesis using poll False by (simp add: p)
  qed
qed simp

text \<open>So a start always comes to a decision: with polls that go past thirty seconds, it runs a match or ends with a code.\<close>

lemma begun_reach:
  assumes "viewer_begin undef opened port local_ep secs now (settle_options vo) = Begun lc out"
  shows "client_reach [] lc \<and> lc_begin lc = now"
proof (cases "vo_host (settle_options vo)")
  case None
  obtain code where "lobby_join_begin port local_ep code now = Some (lc, out)"
    using assms None unfolding viewer_begin_def by (simp split: if_splits option.splits prod.splits)
  then show ?thesis using reach_join by (auto simp: lobby_join_begin_def client_init_def Let_def split: option.splits prod.splits)
next
  case (Some host)
  then obtain srv where srv: "viewer_parse_server undef host = Some srv" "opened"
    using assms unfolding viewer_begin_def by (auto split: if_splits option.splits)
  obtain lc' out' where h: "lobby_host_begin port local_ep srv (of_int (vo_players (settle_options vo))) (0xB0BB1E5 XOR secs) 0 1 now = Some (lc', out')"
    using host_always_begins by blast
  then have "lc' = lc" using assms Some srv by (simp add: viewer_begin_def)
  then show ?thesis using reach_host [OF h] h by (auto simp: lobby_host_begin_def client_init_def Let_def split: if_splits)
qed

theorem start_always_decides:
  assumes "\<exists>p \<in> set (wo_polls wo). LOBBY_TIMEOUT_MS < fst p - wo_now wo"
  shows "viewer_launch wo argv \<noteq> Waits"
proof -
  have "launch_lobby wo (viewer_options undef argv) \<noteq> Waits" for undef
  proof (cases "viewer_begin (wo_u32 wo) (wo_socket wo) (wo_port wo) (wo_local_ep wo) (wo_secs wo) (wo_now wo) (viewer_options undef argv)")
    case (Begun lc out)
    then have "client_reach [] lc" "lc_begin lc = wo_now wo" using begun_reach unfolding viewer_options_def by blast+
    then obtain lc' out' where "wait_lobby (wo_polls wo) lc = Some (lc', out')"
      using bootstrap_loop_ends [of "[]" lc "wo_polls wo"] assms by auto
    then show ?thesis by (simp add: launch_lobby_def Begun split: option.split)
  qed (simp add: launch_lobby_def)
  then show ?thesis by (simp add: viewer_launch_def Let_def split: option.split)
qed

text \<open>Any endpoint, printed as a dotted quad with its port, is read back as itself; without a port it gets the
  default one.  What follows is not looked at.\<close>

definition quad_text :: "u32 \<Rightarrow> string" where
  "quad_text ip =
     print_u (unat (drop_bit 24 ip AND 255)) @ ''.'' @ print_u (unat (drop_bit 16 ip AND 255)) @ ''.''
     @ print_u (unat (drop_bit 8 ip AND 255)) @ ''.'' @ print_u (unat (ip AND 255))"

lemma unat_fits: "n < 2 ^ 32 \<Longrightarrow> unat (of_nat n :: u32) = n"
  by (simp add: unsigned_of_nat take_bit_nat_eq_self)

lemma low_byte: "(x :: u32) AND 255 = take_bit 8 x"
  by (simp add: take_bit_eq_mask mask_eq_exp_minus_1)

lemma byte_small: "unat (x AND 255 :: u32) \<le> 255" "\<not> 255 < (x AND 255 :: u32)"
proof -
  have "unat (x AND 255) < 2 ^ 8"
    unfolding low_byte unsigned_take_bit_eq by (rule take_bit_nat_less_exp)
  then show "unat (x AND 255) \<le> 255" by simp
  then show "\<not> 255 < (x AND 255)" by (simp add: word_less_nat_alt)
qed

lemma quad_bytes:
  "quad_ip (drop_bit 24 ip AND 255) (drop_bit 16 ip AND 255) (drop_bit 8 ip AND 255) (ip AND 255) = ip"
  unfolding quad_ip_def low_byte
proof (rule bit_word_eqI)
  fix n assume "n < LENGTH(32)"
  then consider "n < 8" | "8 \<le> n" "n < 16" | "16 \<le> n" "n < 24" | "24 \<le> n" "n < 32" by fastforce
  then show "bit (push_bit 24 (take_bit 8 (drop_bit 24 ip)) OR push_bit 16 (take_bit 8 (drop_bit 16 ip))
      OR push_bit 8 (take_bit 8 (drop_bit 8 ip)) OR take_bit 8 ip) n = bit ip n"
    by cases (auto simp: bit_simps)
qed

lemma scan_quad_text:
  assumes "rest = [] \<or> 10 \<le> digit_value (hd rest)"
  shows "scan_quad undef (quad_text ip @ rest) =
    Some (drop_bit 24 ip AND 255, drop_bit 16 ip AND 255, drop_bit 8 ip AND 255, ip AND 255, rest)"
proof -
  have lt: "unat (x AND 255 :: u32) < 2 ^ 32" for x using byte_small(1) [of x] by simp
  have dot: "10 \<le> digit_value CHR ''.''" by code_simp
  show ?thesis
    unfolding scan_quad_def quad_text_def append_assoc
    using scan_print_u [OF lt] scan_print_u [OF lt assms] dot by (simp add: scan_char_def)
qed

lemma port_word:
  assumes "p \<noteq> (0 :: u16)"
  shows "(of_nat (unat p) :: u32) \<noteq> 0" "\<not> 65535 < (of_nat (unat p) :: u32)" "(ucast (of_nat (unat p) :: u32) :: u16) = p"
    "unat p < 2 ^ 32"
proof -
  show lt: "unat p < 2 ^ 32" using u16_less [of p] by simp
  note u = unat_fits [OF lt]
  show "(of_nat (unat p) :: u32) \<noteq> 0" using assms u by (metis unat_eq_zero unsigned_0)
  show "\<not> 65535 < (of_nat (unat p) :: u32)" unfolding word_less_nat_alt u using u16_less [of p] by simp
  have "unat (ucast (of_nat (unat p) :: u32) :: u16) = unat p"
    by (simp add: unsigned_ucast_eq unsigned_of_nat take_bit_nat_eq_self take_bit_word_eq_self)
  then show "(ucast (of_nat (unat p) :: u32) :: u16) = p" by (simp only: word_unat_eq_iff)
qed

theorem server_address_round_trip:
  assumes "ep_port ep \<noteq> 0" and "rest = [] \<or> 10 \<le> digit_value (hd rest)"
  shows "viewer_parse_server undef (quad_text (ep_ip ep) @ '':'' @ print_u (unat (ep_port ep)) @ rest) = Some ep"
    and "rest = [] \<or> hd rest \<noteq> CHR '':'' \<Longrightarrow>
      viewer_parse_server undef (quad_text (ep_ip ep) @ rest) = Some (ep\<lparr>ep_port := LOBBY_DEFAULT_PORT\<rparr>)"
proof -
  have colon: "10 \<le> digit_value CHR '':''" by code_simp
  note p = port_word [OF assms(1)]
  have "scan_quad undef (quad_text (ep_ip ep) @ '':'' @ print_u (unat (ep_port ep)) @ rest) =
    Some (drop_bit 24 (ep_ip ep) AND 255, drop_bit 16 (ep_ip ep) AND 255, drop_bit 8 (ep_ip ep) AND 255, ep_ip ep AND 255,
      '':'' @ print_u (unat (ep_port ep)) @ rest)"
    by (rule scan_quad_text) (simp add: colon)
  then show "viewer_parse_server undef (quad_text (ep_ip ep) @ '':'' @ print_u (unat (ep_port ep)) @ rest) = Some ep"
    using p byte_small
    by (simp add: viewer_parse_server_def scan_char_def scan_print_u [OF p(4) assms(2)] Let_def quad_bytes)
  assume "rest = [] \<or> hd rest \<noteq> CHR '':''"
  then have "scan_char CHR '':'' rest = None" by (cases rest) (simp_all add: scan_char_def)
  then show "viewer_parse_server undef (quad_text (ep_ip ep) @ rest) = Some (ep\<lparr>ep_port := LOBBY_DEFAULT_PORT\<rparr>)"
    using scan_quad_text [OF assms(2), of undef "ep_ip ep"] byte_small
    by (simp add: viewer_parse_server_def Let_def quad_bytes LOBBY_DEFAULT_PORT_def)
qed

end
