(* ===== verification/Sim_Width.thy ===== *)
theory Sim_Width
  imports Sim_Image
begin

text \<open>
  Widths.  A Q20.12 number of the model is an integer, and an operation wraps where the C stores an
  \<open>int32_t\<close>.  Here is that no store was forgotten: every position and velocity of a reachable state
  fits its field, so that the image of a state determines it.
\<close>

named_theorems width

section \<open>Numbers and vectors\<close>

lemma width_ops [width]:
  "is_i32 (i32 x)" "is_i32 (qmul a b)" "is_i32 (qdiv a b)" "is_i32 (qlen2 a b)" "is_i32 0"
  "is_i32 v \<Longrightarrow> is_i32 lo \<Longrightarrow> is_i32 hi \<Longrightarrow> is_i32 (qclamp v lo hi)"
  by (simp_all add: qmul_def qdiv_def qlen2_def qclamp_def) (simp add: is_i32_def)

lemma width_tuned [width]:
  "is_i32 TUNE_JUMP_IMPULSE" "is_i32 TUNE_TERMINAL_VY" "is_i32 TUNE_SPREAD_UP" "is_i32 TUNE_THROW_UP" "is_i32 TUNE_KNOCKBACK_UP"
  by (simp_all add: tune_values is_i32_def)

lemma width_vec [width]:
  "vec_ok \<lparr>vx = x, vy = y, vz = z\<rparr> \<longleftrightarrow> is_i32 x \<and> is_i32 y \<and> is_i32 z"
  "vec_ok v \<Longrightarrow> vec_ok (v\<lparr>vx := x\<rparr>) \<longleftrightarrow> is_i32 x"
  "vec_ok v \<Longrightarrow> vec_ok (v\<lparr>vy := y\<rparr>) \<longleftrightarrow> is_i32 y"
  "vec_ok v \<Longrightarrow> vec_ok (v\<lparr>vz := z\<rparr>) \<longleftrightarrow> is_i32 z"
  "vec_ok v \<Longrightarrow> vec_ok (v\<lparr>vx := x, vz := z\<rparr>) \<longleftrightarrow> is_i32 x \<and> is_i32 z"
  "vec_ok vec0"
  by (auto simp: vec_ok_def vec0_def is_i32_def)

lemma width_coord [width]: "vec_ok v \<Longrightarrow> is_i32 (vx v) \<and> is_i32 (vy v) \<and> is_i32 (vz v)"
  by (simp add: vec_ok_def)

section \<open>Collisions\<close>

lemma width_pushout [width]: "vec_ok pos \<Longrightarrow> vec_ok (pushout_aabb r b pos)"
  by (simp add: pushout_aabb_def Let_def width)

lemma width_clamps:
  "vec_ok (fst pv) \<Longrightarrow> vec_ok (snd pv) \<Longrightarrow> vec_ok (fst (clamp_floor pv)) \<and> vec_ok (snd (clamp_floor pv))"
  "is_i32 l \<Longrightarrow> vec_ok (fst pv) \<Longrightarrow> vec_ok (snd pv) \<Longrightarrow> vec_ok (fst (clamp_x l pv)) \<and> vec_ok (snd (clamp_x l pv))"
  "is_i32 l \<Longrightarrow> vec_ok (fst pv) \<Longrightarrow> vec_ok (snd pv) \<Longrightarrow> vec_ok (fst (clamp_z l pv)) \<and> vec_ok (snd (clamp_z l pv))"
  by (cases pv; simp add: clamp_floor_def clamp_x_def clamp_z_def Let_def width)+

lemma width_collide:
  assumes "vec_ok (fst pv)" "vec_ok (snd pv)" and "collide_static r g wx wz pv = (pos, vel)"
  shows "vec_ok pos" "vec_ok vel"
proof -
  define cv where "cv = clamp_z (i32 (wz - r)) (clamp_x (i32 (wx - r)) (clamp_floor pv))"
  have cv: "vec_ok (fst cv)" "vec_ok (snd cv)"
    using width_clamps(3) [OF width_ops(1)] width_clamps(2) [OF width_ops(1)] width_clamps(1) [OF assms(1,2)]
    unfolding cv_def by blast+
  have eq: "pos = fold (pushout_aabb r) (pillars g) (fst cv)" "vel = snd cv"
    using assms(3) by (simp_all add: collide_static_def case_prod_unfold flip: cv_def)
  show "vec_ok pos" unfolding eq by (rule fold_invariant_list) (simp_all add: cv width)
  show "vec_ok vel" by (simp add: eq cv)
qed

section \<open>Players\<close>

lemma width_zero [width]: "player_ok player_zero" "bomb_ok bomb_zero" "vec_ok (bl_center blast_zero)"
  by (simp_all add: player_ok_def player_zero_def bomb_ok_def bomb_zero_def blast_zero_def width)

lemma width_dead [width]: "player_ok p \<Longrightarrow> vec_ok (spawns g ! i) \<Longrightarrow> player_ok (dead_tick gp g i inp p)"
  by (simp add: dead_tick_def respawn_player_def player_ok_def Let_def width)

lemma width_steer: "pl_pos (fst (steer gp inp p)) = pl_pos p \<and> pl_vel (fst (steer gp inp p)) = pl_vel p"
  by (simp add: steer_def turn_toward_def Let_def)

lemma width_locomotion [width]: "player_ok p \<Longrightarrow> player_ok (locomotion gp inp p)"
proof -
  assume p: "player_ok p"
  define q where "q = accelerate (snd (steer gp inp p)) (fst (steer gp inp p))"
  have "player_ok q" using p width_steer [of gp inp p] by (simp add: q_def accelerate_def player_ok_def Let_def width)
  moreover have "locomotion gp inp p = jump gp inp (pl_last_input p) q" by (simp add: locomotion_def q_def case_prod_unfold Let_def)
  ultimately show ?thesis by (simp add: jump_def player_ok_def width)
qed

lemma width_move: "player_ok p \<Longrightarrow> player_ok (move_player g wx wz p)"
proof -
  assume p: "player_ok p"
  define vel where "vel = (pl_vel p)\<lparr>vy := (let v = i32 (vy (pl_vel p) - TUNE_GRAVITY) in if v < TUNE_TERMINAL_VY then TUNE_TERMINAL_VY else v)\<rparr>"
  define pos where "pos = \<lparr>vx = i32 (vx (pl_pos p) + vx vel), vy = i32 (vy (pl_pos p) + vy vel), vz = i32 (vz (pl_pos p) + vz vel)\<rparr>"
  obtain c d where cd: "collide_static TUNE_PLAYER_RADIUS g wx wz (pos, vel) = (c, d)" by fastforce
  have "vec_ok pos" "vec_ok vel" using p by (simp_all add: pos_def vel_def Let_def player_ok_def width)
  then have "vec_ok c" "vec_ok d" using width_collide [OF _ _ cd] by simp_all
  moreover have "move_player g wx wz p = p\<lparr>pl_pos := c, pl_vel := d\<rparr>"
    using cd by (simp add: move_player_def Let_def pos_def vel_def)
  ultimately show ?thesis by (simp add: player_ok_def)
qed

lemma width_upkeep: "player_ok p \<Longrightarrow> player_ok (upkeep p)"
  by (simp add: upkeep_def tumble_upkeep_def ground_upkeep_def skid_def player_ok_def Let_def width)

lemma width_finish [width]: "player_ok p \<Longrightarrow> player_ok (finish_player g wx wz inp p)"
  using width_upkeep [OF width_move] by (simp add: finish_player_def player_ok_def)

section \<open>States\<close>

lemma list_update_all: "list_all P xs \<Longrightarrow> (i < length xs \<Longrightarrow> P x) \<Longrightarrow> list_all P (xs[i := x])"
  by (cases "i < length xs") (auto simp: list_all_iff list_update_beyond not_less dest: set_update_subset_insert [THEN subsetD])

lemma ok_player [width]: "state_ok s \<Longrightarrow> i < 4 \<Longrightarrow> player_ok (player s i)"
  by (simp add: state_ok_def list_all_length arena_sizes)

lemma ok_bomb [width]: "state_ok s \<Longrightarrow> i < 16 \<Longrightarrow> bomb_ok (bomb s i)"
  by (simp add: state_ok_def list_all_length arena_sizes)

lemma ok_set [width]:
  "state_ok s \<Longrightarrow> (i < 4 \<Longrightarrow> player_ok p) \<Longrightarrow> state_ok (set_player i p s)"
  "state_ok s \<Longrightarrow> (j < 16 \<Longrightarrow> bomb_ok b) \<Longrightarrow> state_ok (set_bomb j b s)"
  "state_ok s \<Longrightarrow> (j < 16 \<Longrightarrow> vec_ok (bl_center bl)) \<Longrightarrow> state_ok (set_blast j bl s)"
  by (simp_all add: state_ok_def list_update_all arena_sizes set_player_def set_bomb_def set_blast_def)

lemma ok_fields [width]:
  "state_ok (s\<lparr>st_phase := ph\<rparr>) = state_ok s" "state_ok (s\<lparr>st_phase_timer := k\<rparr>) = state_ok s"
  "state_ok (s\<lparr>st_shrink_step := n\<rparr>) = state_ok s" "state_ok (s\<lparr>st_tick := t\<rparr>) = state_ok s"
  by (simp_all add: state_ok_def)

lemma ok_free: "find_free_bomb s = Some i \<Longrightarrow> state_ok s \<Longrightarrow> i < 16"
  using bomb_pool.search_bound [of "st_bombs s"] by (simp add: find_free_bomb_def state_ok_def arena_sizes)


section \<open>A player's tick\<close>

lemma width_throw: "player_ok p \<Longrightarrow> is_i32 up \<Longrightarrow> bomb_ok (throw_bomb p dir fwd up b)"
  by (simp add: throw_bomb_def bomb_ok_def player_ok_def width)

lemma width_same: "player_ok p \<Longrightarrow> pl_pos q = pl_pos p \<Longrightarrow> pl_vel q = pl_vel p \<Longrightarrow> player_ok q"
  by (simp add: player_ok_def)

lemma ok_touch:
  assumes "state_ok s" and "pl_pos q = pl_pos (player s i)" and "pl_vel q = pl_vel (player s i)"
  shows "state_ok (set_player i q s)"
  using assms by (intro ok_set(1) width_same [OF ok_player [OF assms(1)]]) simp_all

lemma ok_extras: "state_ok s \<Longrightarrow> pi < 4 \<Longrightarrow> state_ok (throw_extras pi angles s)"
proof (induction angles arbitrary: s)
  case (Cons angle angles)
  show ?case
  proof (cases "find_free_bomb s")
    case (Some bi)
    have p: "player_ok (player s pi\<lparr>pl_live_bombs := pl_live_bombs (player s pi) + 1\<rparr>)"
      using ok_player [OF Cons.prems] by (simp add: player_ok_def)
    show ?thesis
      unfolding throw_extras.simps Some option.case Let_def
      by (intro Cons.IH ok_set Cons.prems p width_throw [OF p] width_tuned)
  qed (simp add: Cons.prems)
qed simp

lemma ok_release:
  assumes "state_ok s" "pi < 4" shows "state_ok (release pi s)"
proof -
  note p = ok_player [OF assms]
  have "state_ok (throw_single pi hi s)" "state_ok (throw_spread pi hi s)" for hi
    unfolding throw_single_def throw_spread_def Let_def
    by (intro ok_set ok_extras assms width_throw [OF p] width_tuned)+
  then show ?thesis by (simp add: release_def empty_hands_def Let_def ok_touch)
qed

lemma ok_bomb_button:
  assumes "state_ok s" "pi < 4" shows "state_ok (bomb_button inp prev pi s)"
proof -
  have "state_ok (grab pi s)"
    using assms ok_player [OF assms]
    by (auto simp: grab_def Let_def player_ok_def bomb_ok_def bomb_zero_def width intro!: ok_set split: option.split)
  then show ?thesis using assms by (simp add: bomb_button_def hold_def Let_def ok_touch ok_release)
qed

lemma width_laid: "player_ok p \<Longrightarrow> bomb_ok (laid_bomb wx wz pi p)"
  by (simp add: laid_bomb_def clamp_bomb_pos_def ahead_def bomb_ok_def bomb_zero_def player_ok_def Let_def width)

lemma ok_set_button:
  assumes "state_ok s" "pi < 4" shows "state_ok (set_button wx wz inp prev pi s)"
  using assms ok_player [OF assms]
  by (auto simp: set_button_def Let_def player_ok_def width_laid intro!: ok_set split: option.split)

lemma ok_player_tick:
  assumes "state_ok s" "pi < 4" "vec_ok (spawns g ! pi)" shows "state_ok (player_tick g wx wz pi inp s)"
  unfolding player_tick_def live_tick_def Let_def
  by (simp add: ok_set ok_set_button ok_bomb_button ok_player width_dead width_locomotion width_finish assms)

section \<open>Bombs\<close>

lemma ok_separate_pair:
  assumes "state_ok s" "fst ab < 4" "snd ab < 4" shows "state_ok (separate_pair ab s)"
proof -
  note p = ok_player [OF assms(1,2)] ok_player [OF assms(1,3)]
  have "player_ok (fst (separate pa pb)) \<and> player_ok (snd (separate pa pb))" if "player_ok pa" "player_ok pb" for pa pb
    using that by (simp add: separate_def player_ok_def Let_def case_prod_unfold width)
  with p show ?thesis using assms(1) by (simp add: separate_pair_def case_prod_unfold Let_def ok_set)
qed

lemma width_bomb_ops:
  assumes "bomb_ok b"
  shows "bomb_ok (fly b)" "bomb_ok (burn b)" "bomb_ok (let_go b)" "bomb_ok (drop_step b)" "bomb_ok (ride wx wz op b)"
    "bomb_ok (clear_grace d b)" "bomb_ok (slide_move b)" "bomb_ok (kick pj p b)" "bomb_ok (b\<lparr>bm_state := st\<rparr>)"
    "bomb_ok (b\<lparr>bm_pos := (bm_pos b)\<lparr>vy := 0\<rparr>, bm_state := st\<rparr>)"
  using assms
  by (simp_all add: bomb_ok_def fly_def burn_def let_go_def drop_step_def ride_def in_hands_def clear_grace_def
      slide_move_def kick_def Let_def width)

lemma width_bomb_collide: "bomb_ok b \<Longrightarrow> bomb_ok (bomb_collide g wx wz b)"
proof -
  assume b: "bomb_ok b"
  obtain c d where cd: "collide_static TUNE_BOMB_RADIUS g wx wz (bm_pos b, bm_vel b) = (c, d)" by fastforce
  then show ?thesis using width_collide [OF _ _ cd] b by (simp add: bomb_collide_def bomb_ok_def)
qed

lemma width_airborne: "bomb_ok b \<Longrightarrow> bomb_ok (bomb_airborne g wx wz i s b)"
proof -
  assume b: "bomb_ok b"
  define c where "c = bomb_collide g wx wz (fly b)"
  have ok: "bomb_ok (fly b)" "bomb_ok c" using b by (simp_all add: c_def width_bomb_ops width_bomb_collide)
  have "bomb_ok (c\<lparr>bm_pos := (bm_pos c)\<lparr>vy := 0\<rparr>, bm_state := st\<rparr>)" for st by (rule width_bomb_ops(10) [OF ok(2)])
  then show ?thesis
    unfolding bomb_airborne_def Let_def c_def [symmetric] using ok by (auto simp: width_bomb_ops(9))
qed

lemma width_falling: "bomb_ok b \<Longrightarrow> bomb_ok (bomb_falling wx wz s b)"
  by (simp add: bomb_falling_def Let_def width_bomb_ops)

lemma width_slide_players: "bomb_ok b \<Longrightarrow> bomb_ok (slide_players s pjs b)"
  by (induction pjs arbitrary: b) (simp_all add: Let_def width_bomb_ops)

lemma width_kick_players: "bomb_ok b \<Longrightarrow> bomb_ok (kick_players s pjs b)"
  by (induction pjs arbitrary: b) (simp_all add: Let_def width_bomb_ops)

lemma width_sliding: "bomb_ok b \<Longrightarrow> bomb_ok (bomb_sliding g wx wz i s b)"
proof -
  assume "bomb_ok b"
  then have b: "bomb_ok (slide_players s [0..<unat (st_num_players s)] (slide_move b))"
    by (intro width_slide_players width_bomb_ops)
  show ?thesis unfolding bomb_sliding_def Let_def by (simp add: b width_bomb_ops width_bomb_collide)
qed

lemma ok_settled:
  assumes "state_ok s" "i < 16" shows "state_ok (bomb_settled i s)"
proof -
  define b where "b = kick_players s [0..<unat (st_num_players s)] (bomb s i)"
  have b: "bomb_ok b" unfolding b_def by (rule width_kick_players [OF ok_bomb [OF assms]])
  have "state_ok (stand_off b pj t)" if t: "state_ok t" for pj t
  proof -
    have "player_ok (hold_off b p)" if "player_ok p" for p
      using that by (simp add: hold_off_def player_ok_def Let_def width)
    then show ?thesis using t ok_player [OF t] by (simp add: stand_off_def Let_def ok_set)
  qed
  then have "state_ok (fold (stand_off b) pjs s)" for pjs by (intro fold_invariant_list [where P = state_ok] assms(1)) simp
  then show ?thesis using assms b by (simp add: bomb_settled_def Let_def ok_set width_bomb_ops flip: b_def)
qed

lemma ok_bomb_tick:
  assumes "state_ok s" "i < 16" "unat (bm_owner (bomb s i)) < 4" shows "state_ok (bomb_tick g wx wz i s)"
proof -
  note b = ok_bomb [OF assms(1,2)]
  have "bomb_ok (bomb_held s (bomb s i))"
    using b ok_player [OF assms(1,3)] by (simp add: bomb_held_def bomb_ok_def player_ok_def Let_def width)
  then show ?thesis
    using assms(1,2) b
    by (simp add: bomb_tick_def Let_def ok_set ok_settled width_airborne width_falling width_sliding split: BState.split)
qed

section \<open>Blasts\<close>

lemma ok_detonate:
  assumes "state_ok s" "i < 16" shows "state_ok (detonate i s)"
proof -
  note b = ok_bomb [OF assms]
  have "state_ok (spawn_blast (bomb s i) s)"
    using assms(1) b by (auto simp: spawn_blast_def bomb_ok_def intro!: ok_set split: option.split)
  then have "state_ok (release_live k (spawn_blast (bomb s i) s))" for k
    by (simp add: release_live_def Let_def ok_touch)
  then show ?thesis using b by (simp add: detonate_def Let_def ok_set width_bomb_ops)
qed

lemma ok_blast_player:
  assumes "state_ok s" "pi < 4" shows "state_ok (blast_player bl pi s)"
proof -
  define t where "t = set_player pi (knock bl (player s pi)) s"
  have t: "state_ok t"
    unfolding t_def using assms(1) ok_player [OF assms]
    by (intro ok_set) (simp_all add: knock_def player_ok_def Let_def case_prod_unfold width)
  have p: "player_ok (player t pi)" by (rule ok_player [OF t assms(2)])
  have "bomb_ok (dropped pi (player t pi) b)" for b using p by (simp add: dropped_def bomb_ok_def player_ok_def width)
  then have "state_ok (drop_held pi t)"
    using t p by (auto simp: drop_held_def Let_def player_ok_def intro!: ok_set)
  then have "state_ok (check_death pi (drop_held pi t))" by (simp add: check_death_def Let_def ok_touch)
  then show ?thesis using assms(1) by (simp add: blast_player_def Let_def flip: t_def)
qed

lemma ok_blast_tick:
  assumes "state_ok s" "i < 16" "unat (st_num_players s) \<le> 4" shows "state_ok (blast_tick i s)"
proof -
  define bl where "bl = grow (blast s i)"
  define t where "t = set_blast i bl s"
  have "vec_ok (bl_center (blast s i))" using assms(1,2) by (simp add: state_ok_def list_all_length arena_sizes)
  then have "vec_ok (bl_center bl)" by (simp add: bl_def grow_def Let_def)
  then have t: "state_ok t" unfolding t_def by (intro ok_set assms(1))
  have "bomb_ok (chain bl b) = bomb_ok b" for b by (simp add: chain_def bomb_ok_def)
  then have u: "state_ok (t\<lparr>st_bombs := map (chain bl) (st_bombs t)\<rparr>)"
    using t by (simp add: state_ok_def list.pred_map comp_def)
  have "state_ok (fold (blast_player bl) [0..<unat (st_num_players s)] (t\<lparr>st_bombs := map (chain bl) (st_bombs t)\<rparr>))"
    by (rule fold_invariant_list [where P = state_ok]) (use assms(3) u in \<open>simp_all add: ok_blast_player\<close>)
  then show ?thesis using assms(1) by (simp add: blast_tick_def Let_def t_def flip: bl_def)
qed

section \<open>The tick\<close>

lemma spawn_width: "unat (st_arena_id s) < 2 \<Longrightarrow> i < 4 \<Longrightarrow> vec_ok (spawns (geom_of s) ! i)"
  using arena_geoms_cases [of "unat (st_arena_id s)"]
  by (auto simp: geom_of_def vec_ok_def is_i32_def less_Suc_eq numeral_eq_Suc)

lemma ok_round_reset: "unat (st_arena_id s) < 2 \<Longrightarrow> state_ok (round_reset s)"
  by (simp add: state_ok_def round_reset_def arena_sizes list_all_length reset_player_def spawn_width Let_def player_ok_def
      player_zero_def width)

lemma ok_phase_tick: "state_ok s \<Longrightarrow> unat (st_arena_id s) < 2 \<Longrightarrow> state_ok (phase_tick s)"
  by (simp add: phase_tick_def Let_def width ok_round_reset split: Phase.split)

lemma ok_tick_phases:
  assumes "state_ok s" "arena_inv s" "g = geom_of s" shows "state_ok (tick_phases g wx wz ins s)"
proof -
  have shape: "unat (st_arena_id s) < 2" using assms(2) by (simp add: arena_inv_def shape_def arena_geom_count)
  have s1: "state_ok (players_tick g wx wz ins s)" unfolding players_tick_def
    by (rule fold_invariant_list [where P = state_ok]) (simp_all add: assms(1) ok_player_tick spawn_width [OF shape] assms(3) arena_sizes)
  have "\<forall>ab \<in> set player_pairs. fst ab < 4 \<and> snd ab < 4" by (auto simp: player_pairs_def arena_sizes)
  then have s2: "state_ok (separate_players (players_tick g wx wz ins s))"
    unfolding separate_players_def by (intro fold_invariant_list [where P = state_ok] s1 ok_separate_pair) auto
  define t where "t = separate_players (players_tick g wx wz ins s)"
  have inv: "arena_inv t" unfolding t_def by (intro soft_inv [OF soft_separate_players] inv_players_tick assms(2))
  have "state_ok (bombs_tick g wx wz t) \<and> arena_inv (bombs_tick g wx wz t)" unfolding bombs_tick_def
    by (rule fold_invariant_list [where P = "\<lambda>u. state_ok u \<and> arena_inv u"])
      (use s2 inv in \<open>auto simp: t_def arena_sizes intro: ok_bomb_tick inv_owner soft_inv [OF soft_bomb_tick]\<close>)
  then have b: "state_ok (bombs_tick g wx wz t)" "arena_inv (bombs_tick g wx wz t)" by simp_all
  have d: "state_ok (detonations (bombs_tick g wx wz t))" unfolding detonations_def
    by (rule fold_invariant_list [where P = state_ok]) (simp_all add: b ok_detonate arena_sizes)
  have "state_ok (blasts_tick (detonations (bombs_tick g wx wz t))) \<and> arena_inv (blasts_tick (detonations (bombs_tick g wx wz t)))"
    unfolding blasts_tick_def
  proof (rule fold_invariant_list [where P = "\<lambda>u. state_ok u \<and> arena_inv u"])
    fix i u assume u: "i \<in> set [0..<ARENA_MAX_BLASTS]" "state_ok u \<and> arena_inv u"
    then have "unat (st_num_players u) \<le> 4" by (simp add: arena_inv_def shape_def arena_sizes)
    then show "state_ok (blast_tick i u) \<and> arena_inv (blast_tick i u)"
      using u by (simp add: ok_blast_tick inv_blast_tick arena_sizes)
  qed (simp add: d inv_detonations b)
  then show ?thesis by (simp add: tick_phases_def Let_def t_def)
qed

lemma ok_arena_tick:
  assumes "state_ok s" "arena_inv s" shows "state_ok (arena_tick ins s)"
proof -
  have shape: "unat (st_arena_id s) < 2" using assms(2) by (simp add: arena_inv_def shape_def arena_geom_count)
  have g: "geom_of s = geom_of (phase_tick s)" by (simp add: geom_of_def phase_tick_def Let_def split: Phase.split)
  define t where "t = tick_phases (geom_of s) (wall_x_of (phase_tick s)) (wall_z_of (phase_tick s)) ins (phase_tick s)"
  have t: "state_ok t" unfolding t_def
    by (rule ok_tick_phases [OF ok_phase_tick [OF assms(1) shape] inv_phase_tick [OF assms(2)] g])
  have "state_ok (award t)" using t by (simp add: award_def Let_def ok_touch)
  then have "state_ok (round_end t)" using t by (simp add: round_end_def width)
  then show ?thesis by (simp add: arena_tick_def Let_def width flip: t_def)
qed

lemma reach_width: "arena_reach s \<Longrightarrow> state_ok s"
proof (induction rule: arena_reach.induct)
  case (start a n seed)
  then show ?case unfolding arena_init_def by (intro ok_round_reset) (simp add: arena_geom_count)
next
  case (tick s ins)
  then show ?case by (simp add: ok_arena_tick reach_inv)
qed



end
