(* ===== verification/Viewer_Clock.thy ===== *)
theory Viewer_Clock
  imports Arena_Prelude
begin

text \<open>
  The tick scheduler of the viewer (\<open>src/tools/viewer/viewer_clock.c\<close>, \<open>viewer_clock.h\<close>).  Its
  times are \<open>double\<close>s, of which the code uses the operations of \<open>Floating\<close> only; they are an argument,
  so that nothing here depends on how they round.
\<close>

record 'd Floating =
  fl_zero :: 'd
  fl_tick :: 'd
  fl_four_times :: "'d \<Rightarrow> 'd"
  fl_add :: "'d \<Rightarrow> 'd \<Rightarrow> 'd"
  fl_sub :: "'d \<Rightarrow> 'd \<Rightarrow> 'd"
  fl_le :: "'d \<Rightarrow> 'd \<Rightarrow> bool"

definition VCLOCK_MAX_TICKS :: nat where "VCLOCK_MAX_TICKS = 8"
definition VCLOCK_NUM_RATES :: nat where "VCLOCK_NUM_RATES = 3"

record 'd ViewerClock =
  vk_acc_ms :: 'd
  vk_paused :: bool
  vk_step_queued :: bool
  vk_rate :: nat

definition vclock_init :: "'d Floating \<Rightarrow> 'd ViewerClock" where
  "vclock_init fl = \<lparr>vk_acc_ms = fl_zero fl, vk_paused = False, vk_step_queued = False, vk_rate = 0\<rparr>"

definition vclock_toggle_pause :: "'d Floating \<Rightarrow> 'd ViewerClock \<Rightarrow> 'd ViewerClock" where
  "vclock_toggle_pause fl c = c\<lparr>vk_paused := \<not> vk_paused c, vk_acc_ms := fl_zero fl, vk_step_queued := False\<rparr>"

definition vclock_queue_step :: "'d ViewerClock \<Rightarrow> 'd ViewerClock" where
  "vclock_queue_step c = (if vk_paused c then c\<lparr>vk_step_queued := True\<rparr> else c)"

definition vclock_cycle_rate :: "'d ViewerClock \<Rightarrow> 'd ViewerClock" where
  "vclock_cycle_rate c = c\<lparr>vk_rate := (vk_rate c + 1) mod VCLOCK_NUM_RATES\<rparr>"

definition vclock_tick_period_ms :: "'d Floating \<Rightarrow> 'd ViewerClock \<Rightarrow> 'd" where
  "vclock_tick_period_ms fl c = (fl_four_times fl ^^ vk_rate c) (fl_tick fl)"

text \<open>\<open>room\<close> ticks may still be granted; \<open>n\<close> have been.\<close>

fun take_periods :: "'d Floating \<Rightarrow> 'd \<Rightarrow> nat \<Rightarrow> nat \<Rightarrow> 'd \<Rightarrow> nat \<times> 'd" where
  "take_periods fl period 0 n acc = (n, acc)"
| "take_periods fl period (Suc room) n acc =
     (if fl_le fl period acc then take_periods fl period room (Suc n) (fl_sub fl acc period) else (n, acc))"

definition vclock_advance :: "'d Floating \<Rightarrow> 'd \<Rightarrow> 'd ViewerClock \<Rightarrow> nat \<times> 'd ViewerClock" where
  "vclock_advance fl elapsed c =
     (if vk_paused c then (if vk_step_queued c then 1 else 0, c\<lparr>vk_step_queued := False\<rparr>)
      else (let period = vclock_tick_period_ms fl c;
                (n, acc) = take_periods fl period VCLOCK_MAX_TICKS 0 (fl_add fl (vk_acc_ms c) elapsed)
            in (n, c\<lparr>vk_acc_ms := (if fl_le fl period acc then fl_zero fl else acc)\<rparr>)))"

lemma take_periods_bound: "fst (take_periods fl period room n acc) \<le> n + room"
proof (induction room arbitrary: n acc)
  case (Suc room)
  show ?case using Suc.IH [of "Suc n" "fl_sub fl acc period"] by simp
qed simp

text \<open>However much time has passed, a frame is granted at most eight ticks, at most the one asked for while
  paused, and the clock never owes a tick afterwards, provided a period is longer than no time.\<close>

theorem clock_never_owes:
  assumes "vclock_advance fl elapsed c = (n, c')"
  shows "n \<le> 8 \<and> (vk_paused c \<longrightarrow> n \<le> 1 \<and> \<not> vk_step_queued c') \<and> vk_rate c' = vk_rate c \<and> vk_paused c' = vk_paused c
    \<and> (\<not> vk_paused c \<and> \<not> fl_le fl (vclock_tick_period_ms fl c) (fl_zero fl) \<longrightarrow>
        \<not> fl_le fl (vclock_tick_period_ms fl c') (vk_acc_ms c'))"
  using assms take_periods_bound [of fl "vclock_tick_period_ms fl c" 8 0 "fl_add fl (vk_acc_ms c) elapsed"]
  by (auto simp: vclock_advance_def vclock_tick_period_ms_def VCLOCK_MAX_TICKS_def Let_def split: prod.splits if_splits)

text \<open>In whole milliseconds, after a stall of ten seconds.\<close>

theorem clock_never_owes_witness:
  "fst (vclock_advance \<lparr>fl_zero = 0, fl_tick = 17, fl_four_times = (*) 4, fl_add = (+), fl_sub = (-), fl_le = (\<le>)\<rparr> (10000 :: int)
     (vclock_init \<lparr>fl_zero = 0, fl_tick = 17, fl_four_times = (*) 4, fl_add = (+), fl_sub = (-), fl_le = (\<le>)\<rparr>)) \<le> 8"
  using clock_never_owes by (metis prod.collapse)

end
