(* ===== verification/Viewer_Cam.thy ===== *)
theory Viewer_Cam
  imports Float_Facts Arena_State "HOL-Library.Monad_Syntax"
begin

text \<open>
  The camera of the viewer (\<open>src/tools/viewer/viewer_cam.c\<close>, \<open>viewer_cam.h\<close>): its rig, its update from
  the followed player, the projection of a world point and the mapping of a stick into the world.
  \<open>None\<close> of \<open>wrap_pi\<close> and \<open>vcam_update\<close> is a loop that does not end, of \<open>vcam_project\<close> and
  \<open>vcam_screen_radius\<close> a point behind the camera, of \<open>vcam_stick_to_world\<close> a conversion C leaves
  unspecified.
\<close>

section \<open>Data\<close>

record Vf3 =
  v_x :: f32
  v_y :: f32
  v_z :: f32

datatype VCamMode = VCAM_FOLLOW | VCAM_CHASE | VCAM_ORBIT | VCAM_TOPDOWN

record ViewerCam =
  cam_dist :: f32
  cam_height :: f32
  cam_look_up :: f32
  cam_smooth :: f32
  cam_max_turn :: f32
  cam_fov_deg :: f32
  cam_ortho_halfspan :: f32
  cam_orbit_height :: f32
  cam_orbit_dist :: f32
  cam_yaw :: f32
  cam_mode :: VCamMode
  cam_pos :: Vf3
  cam_target :: Vf3

abbreviation f0 :: f32 where "f0 \<equiv> fint 0"
abbreviation f1 :: f32 where "f1 \<equiv> fint 1"

definition vec3 :: "f32 \<Rightarrow> f32 \<Rightarrow> f32 \<Rightarrow> Vf3" where
  "vec3 x y z = \<lparr>v_x = x, v_y = y, v_z = z\<rparr>"

definition PIF :: f32 where "PIF = lit 314159265 100000000"
definition BINANG_UNIT :: f32 where "BINANG_UNIT = lit 95873799 1000000000000"

definition VCAM_BINANG_TO_RAD :: "u16 \<Rightarrow> f32" where
  "VCAM_BINANG_TO_RAD a = fint (uint a) * BINANG_UNIT"

text \<open>\<open>QF\<close> of \<open>viewer_draw.h\<close>: a Q20.12 number as a float.\<close>

definition QF :: "int \<Rightarrow> f32" where
  "QF v = fint v / lit 4096 1"

definition qf3 :: "Vec3q \<Rightarrow> Vf3" where
  "qf3 v = vec3 (QF (vx v)) (QF (vy v)) (QF (vz v))"

section \<open>Update\<close>

partial_function (option) wrap_down :: "f32 \<Rightarrow> f32 option" where
  "wrap_down a = (if PIF < a then wrap_down (a - fint 2 * PIF) else Some a)"

partial_function (option) wrap_up :: "f32 \<Rightarrow> f32 option" where
  "wrap_up a = (if a < - PIF then wrap_up (a + fint 2 * PIF) else Some a)"

definition wrap_pi :: "f32 \<Rightarrow> f32 option" where
  "wrap_pi a = do { a \<leftarrow> wrap_down a; wrap_up a }"

definition vcam_init :: ViewerCam where
  "vcam_init =
     \<lparr>cam_dist = lit 4 1, cam_height = lit 5 1, cam_look_up = lit 1 1, cam_smooth = lit 5 100, cam_max_turn = lit 2 100,
      cam_fov_deg = lit 60 1, cam_ortho_halfspan = lit 75 10, cam_orbit_height = lit 9 1, cam_orbit_dist = lit 11 1,
      cam_yaw = lit 0 1, cam_mode = VCAM_FOLLOW, cam_pos = vec3 f0 (lit 5 1) (lit 4 1), cam_target = vec3 f0 (lit 1 1) f0\<rparr>"

definition chase_yaw :: "f32 \<Rightarrow> ViewerCam \<Rightarrow> ViewerCam option" where
  "chase_yaw yaw_rad c =
     do { diff \<leftarrow> wrap_pi (yaw_rad - cam_yaw c);
          if fabs diff < lit 29 10
          then (let turn = cam_smooth c * diff;
                    turn = (if cam_max_turn c < turn then cam_max_turn c else turn);
                    turn = (if turn < - cam_max_turn c then - cam_max_turn c else turn)
                in do { y \<leftarrow> wrap_pi (cam_yaw c + turn); Some (c\<lparr>cam_yaw := y\<rparr>) })
          else Some c }"

definition track :: "Trig \<Rightarrow> Vf3 \<Rightarrow> ViewerCam \<Rightarrow> ViewerCam" where
  "track tg p c =
     (let fx = tr_sin tg (cam_yaw c); fz = - tr_cos tg (cam_yaw c)
      in c\<lparr>cam_target := vec3 (v_x p) (v_y p + cam_look_up c) (v_z p),
           cam_pos := vec3 (v_x p - fx * cam_dist c) (v_y p + cam_height c) (v_z p - fz * cam_dist c)\<rparr>)"

definition vcam_update :: "Trig \<Rightarrow> Vf3 \<Rightarrow> f32 \<Rightarrow> ViewerCam \<Rightarrow> ViewerCam option" where
  "vcam_update tg p yaw_rad c = (case cam_mode c of
       VCAM_CHASE \<Rightarrow> map_option (track tg p) (chase_yaw yaw_rad c)
     | VCAM_ORBIT \<Rightarrow> Some (c\<lparr>cam_yaw := lit 0 1, cam_pos := vec3 f0 (cam_orbit_height c) (cam_orbit_dist c),
                              cam_target := vec3 f0 (lit 5 10) f0\<rparr>)
     | _ \<Rightarrow> Some (track tg p c))"

section \<open>Projection\<close>

definition vsub :: "Vf3 \<Rightarrow> Vf3 \<Rightarrow> Vf3" where
  "vsub a b = vec3 (v_x a - v_x b) (v_y a - v_y b) (v_z a - v_z b)"

definition vdot :: "Vf3 \<Rightarrow> Vf3 \<Rightarrow> f32" where
  "vdot a b = v_x a * v_x b + v_y a * v_y b + v_z a * v_z b"

definition vcross :: "Vf3 \<Rightarrow> Vf3 \<Rightarrow> Vf3" where
  "vcross a b = vec3 (v_y a * v_z b - v_z a * v_y b) (v_z a * v_x b - v_x a * v_z b) (v_x a * v_y b - v_y a * v_x b)"

definition vnorm :: "Vf3 \<Rightarrow> Vf3" where
  "vnorm a =
     (let l = fsqrt (vdot a a)
      in if lit 1 1000000 < l then vec3 (v_x a / l) (v_y a / l) (v_z a / l) else vec3 f0 f0 f0)"

definition ortho_scale :: "ViewerCam \<Rightarrow> int \<Rightarrow> int \<Rightarrow> f32" where
  "ortho_scale c w h = fint (if w < h then w else h) / (lit 2 1 * cam_ortho_halfspan c)"

definition cam_forward :: "ViewerCam \<Rightarrow> Vf3" where "cam_forward c = vnorm (vsub (cam_target c) (cam_pos c))"
definition cam_right :: "ViewerCam \<Rightarrow> Vf3" where "cam_right c = vnorm (vcross (cam_forward c) (vec3 f0 f1 f0))"

definition vcam_project :: "Trig \<Rightarrow> ViewerCam \<Rightarrow> Vf3 \<Rightarrow> int \<Rightarrow> int \<Rightarrow> (f32 \<times> f32 \<times> f32) option" where
  "vcam_project tg c p w h =
     (if cam_mode c = VCAM_TOPDOWN
      then (let scale = ortho_scale c w h
            in Some (fint w * lit 5 10 + v_x p * scale, fint h * lit 5 10 + v_z p * scale, lit 1000 1 - v_y p))
      else (let F = cam_forward c; R = cam_right c; U = vcross R F; v = vsub p (cam_pos c); dz = vdot v F
            in if dz < lit 1 10 then None
               else (let f = fint h * lit 5 10 / tr_tan tg (cam_fov_deg c * lit 5 10 * PIF / lit 180 1)
                     in Some (fint w * lit 5 10 + f * vdot v R / dz, fint h * lit 5 10 - f * vdot v U / dz, dz))))"

text \<open>A radius of 0 stands for behind the camera.\<close>

definition vcam_screen_radius :: "Trig \<Rightarrow> ViewerCam \<Rightarrow> Vf3 \<Rightarrow> f32 \<Rightarrow> int \<Rightarrow> int \<Rightarrow> f32" where
  "vcam_screen_radius tg c p world_r w h = (case vcam_project tg c p w h of None \<Rightarrow> f0
     | Some (sx0, sy0, d) \<Rightarrow>
         if cam_mode c = VCAM_TOPDOWN then world_r * ortho_scale c w h
         else (let R = cam_right c;
                   q = vec3 (v_x p + v_x R * world_r) (v_y p + v_y R * world_r) (v_z p + v_z R * world_r)
               in case vcam_project tg c q w h of None \<Rightarrow> f0
                  | Some (sx1, sy1, d) \<Rightarrow> (let dx = sx1 - sx0; dy = sy1 - sy0 in fsqrt (dx * dx + dy * dy))))"

section \<open>The stick\<close>

definition stick_axes :: "Trig \<Rightarrow> ViewerCam \<Rightarrow> f32 \<Rightarrow> f32 \<Rightarrow> f32 \<times> f32" where
  "stick_axes tg c in_x in_y =
     (if cam_mode c = VCAM_TOPDOWN then (in_x, - in_y)
      else (let fx = tr_sin tg (cam_yaw c); fz = - tr_cos tg (cam_yaw c); rx = - fz; rz = fx
            in (rx * in_x + fx * in_y, rz * in_x + fz * in_y)))"

definition stick_counts :: "f32 \<times> f32 \<Rightarrow> (int \<times> int) option" where
  "stick_counts = (\<lambda>(wx, wz).
     let m = fsqrt (wx * wx + wz * wz); (wx, wz) = (if lit 1 1 < m then (wx / m, wz / m) else (wx, wz))
     in do { sx \<leftarrow> lroundf (wx * lit 31 1); sz \<leftarrow> lroundf (wz * lit 31 1); Some (sx, sz) })"

definition vcam_stick_to_world :: "Trig \<Rightarrow> ViewerCam \<Rightarrow> f32 \<Rightarrow> f32 \<Rightarrow> (int \<times> int) option" where
  "vcam_stick_to_world tg c in_x in_y = stick_counts (stick_axes tg c in_x in_y)"

end
