(* ===== verification/Viewer_Draw.thy ===== *)
theory Viewer_Draw
  imports C_Print Viewer_Font Viewer_Cam Viewer_Clock Arena_Geom Arena_Tuning Arena_State
begin

text \<open>
  The drawing of the viewer (\<open>src/tools/viewer/viewer_draw.c\<close>): the painter list, the scene, the facing
  lines, the text and the HUD.  What SDL is asked to draw is the list of the calls.  \<open>qsort\<close> is an
  argument; a lens is the camera with the size of the output.  \<open>None\<close> is a loop that does not end.
\<close>

section \<open>Calls\<close>

record FColor =
  fc_r :: f32
  fc_g :: f32
  fc_b :: f32
  fc_a :: f32

definition color :: "f32 \<Rightarrow> f32 \<Rightarrow> f32 \<Rightarrow> f32 \<Rightarrow> FColor" where
  "color r g b a = \<lparr>fc_r = r, fc_g = g, fc_b = b, fc_a = a\<rparr>"

text \<open>A color in hundredths.\<close>

definition cents :: "nat \<Rightarrow> nat \<Rightarrow> nat \<Rightarrow> nat \<Rightarrow> FColor" where
  "cents r g b a = color (lit r 100) (lit g 100) (lit b 100) (lit a 100)"

record Vertex =
  vt_position :: "f32 \<times> f32"
  vt_color :: FColor
  vt_tex_coord :: "f32 \<times> f32"

datatype SdlCall =
    RenderGeometry "Vertex list" "nat list"
  | RenderLine f32 f32 f32 f32
  | SetRenderDrawColor nat nat nat nat
  | RenderFillRect f32 f32 f32 f32
  | RenderClear
  | RenderPresent

record Lens =
  ln_trig :: Trig
  ln_cam :: ViewerCam
  ln_w :: int
  ln_h :: int

definition project :: "Lens \<Rightarrow> Vf3 \<Rightarrow> (f32 \<times> f32 \<times> f32) option" where
  "project lens p = vcam_project (ln_trig lens) (ln_cam lens) p (ln_w lens) (ln_h lens)"

section \<open>Unified painter list\<close>

definition MAX_DRAW :: nat where "MAX_DRAW = 1024"

datatype Shape = Face "(f32 \<times> f32) list" | Circle f32 f32 f32

record Drawable =
  dr_seq :: nat
  dr_depth :: f32
  dr_col :: FColor
  dr_shape :: Shape

definition draw_cmp :: "Drawable \<Rightarrow> Drawable \<Rightarrow> int" where
  "draw_cmp a b =
     (if \<not> feq (dr_depth a) (dr_depth b)
      then of_bool (dr_depth a < dr_depth b) - of_bool (dr_depth b < dr_depth a)
      else of_bool (dr_seq b < dr_seq a) - of_bool (dr_seq a < dr_seq b))"

definition face_shade :: "Vf3 \<Rightarrow> Vf3 \<Rightarrow> Vf3 \<Rightarrow> f32" where
  "face_shade a b d =
     (let n = vcross (vsub b a) (vsub d a);
          l = fsqrt (v_x n * v_x n + v_y n * v_y n + v_z n * v_z n);
          lit0 = (if lit 1 1000000 < l then (v_x n * lit 45 100 + v_y n * lit 80 100 + v_z n * lit 30 100) / l else f0);
          lit1 = (if lit0 < f0 then - lit0 else lit0)
      in lit 6 10 + lit 4 10 * lit1)"

definition add_face :: "Lens \<Rightarrow> Vf3 \<Rightarrow> Vf3 \<Rightarrow> Vf3 \<Rightarrow> Vf3 \<Rightarrow> FColor \<Rightarrow> Drawable list \<Rightarrow> Drawable list" where
  "add_face lens a b c d col ds =
     (if MAX_DRAW \<le> length ds then ds
      else (case (project lens a, project lens b, project lens c, project lens d) of
          (Some (ax, ay, ad), Some (bx, bay, bd), Some (cx, cy, cd), Some (dx, dy, dd)) \<Rightarrow>
            (let depth_sum = f0 + ad + bd + cd + dd; shade = face_shade a b d
             in ds @ [\<lparr>dr_seq = length ds, dr_depth = depth_sum * lit 25 100,
                       dr_col = color (fc_r col * shade) (fc_g col * shade) (fc_b col * shade) (fc_a col),
                       dr_shape = Face [(ax, ay), (bx, bay), (cx, cy), (dx, dy)]\<rparr>])
        | _ \<Rightarrow> ds))"

definition add_box :: "Lens \<Rightarrow> Vf3 \<Rightarrow> Vf3 \<Rightarrow> FColor \<Rightarrow> Drawable list \<Rightarrow> Drawable list" where
  "add_box lens mn mx col ds =
     (let x0 = v_x mn; y0 = v_y mn; z0 = v_z mn; x1 = v_x mx; y1 = v_y mx; z1 = v_z mx;
          ds = add_face lens (vec3 x0 y1 z0) (vec3 x1 y1 z0) (vec3 x1 y1 z1) (vec3 x0 y1 z1) col ds;
          ds = add_face lens (vec3 x0 y0 z0) (vec3 x1 y0 z0) (vec3 x1 y1 z0) (vec3 x0 y1 z0) col ds;
          ds = add_face lens (vec3 x0 y0 z1) (vec3 x1 y0 z1) (vec3 x1 y1 z1) (vec3 x0 y1 z1) col ds;
          ds = add_face lens (vec3 x0 y0 z0) (vec3 x0 y0 z1) (vec3 x0 y1 z1) (vec3 x0 y1 z0) col ds
      in add_face lens (vec3 x1 y0 z0) (vec3 x1 y0 z1) (vec3 x1 y1 z1) (vec3 x1 y1 z0) col ds)"

definition add_circle :: "Lens \<Rightarrow> Vf3 \<Rightarrow> f32 \<Rightarrow> FColor \<Rightarrow> f32 \<Rightarrow> Drawable list \<Rightarrow> Drawable list" where
  "add_circle lens center world_r col depth_bias ds =
     (if MAX_DRAW \<le> length ds then ds
      else (case project lens center of None \<Rightarrow> ds
        | Some (sx, sy, dep) \<Rightarrow>
            (let rad = vcam_screen_radius (ln_trig lens) (ln_cam lens) center world_r (ln_w lens) (ln_h lens)
             in if rad < lit 5 10 then ds
                else ds @ [\<lparr>dr_seq = length ds, dr_depth = dep + depth_bias, dr_col = col, dr_shape = Circle sx sy rad\<rparr>])))"

text \<open>\<open>for (x = lo; x < hi; x += seg)\<close> with the end of each piece.\<close>

partial_function (option) strips :: "f32 \<Rightarrow> f32 \<Rightarrow> f32 \<Rightarrow> (f32 \<times> f32) list option" where
  "strips seg hi x =
     (if x < hi then do { ps \<leftarrow> strips seg hi (x + seg); Some ((x, if hi < x + seg then hi else x + seg) # ps) } else Some [])"

definition add_box_split :: "Lens \<Rightarrow> Vf3 \<Rightarrow> Vf3 \<Rightarrow> FColor \<Rightarrow> Drawable list \<Rightarrow> Drawable list option" where
  "add_box_split lens mn mx col ds =
     (if v_z mx - v_z mn \<le> v_x mx - v_x mn
      then map_option (\<lambda>xs. fold (\<lambda>(x, x2). add_box lens (vec3 x (v_y mn) (v_z mn)) (vec3 x2 (v_y mx) (v_z mx)) col) xs ds)
             (strips (lit 3 1) (v_x mx) (v_x mn))
      else map_option (\<lambda>zs. fold (\<lambda>(z, z2). add_box lens (vec3 (v_x mn) (v_y mn) z) (vec3 (v_x mx) (v_y mx) z2) col) zs ds)
             (strips (lit 3 1) (v_z mx) (v_z mn)))"

section \<open>Emission\<close>

definition SEG :: nat where "SEG = 20"

definition vertex :: "FColor \<Rightarrow> f32 \<times> f32 \<Rightarrow> Vertex" where
  "vertex col p = \<lparr>vt_position = p, vt_color = col, vt_tex_coord = (f0, f0)\<rparr>"

definition rim_point :: "Trig \<Rightarrow> f32 \<Rightarrow> f32 \<Rightarrow> f32 \<Rightarrow> nat \<Rightarrow> f32 \<times> f32" where
  "rim_point tg cx cy rad i =
     (let a = fint (int i) * (lit 2 1 * lit 314159265 100000000 / fint (int SEG))
      in (cx + tr_cos tg a * rad, cy + tr_sin tg a * rad))"

definition draw_circle :: "Trig \<Rightarrow> f32 \<Rightarrow> f32 \<Rightarrow> f32 \<Rightarrow> FColor \<Rightarrow> SdlCall" where
  "draw_circle tg cx cy rad col =
     RenderGeometry (map (vertex col) ((cx, cy) # map (rim_point tg cx cy rad) [0..<SEG + 1]))
       (concat (map (\<lambda>i. [0, i + 1, i + 2]) [0..<SEG]))"

definition paint :: "Trig \<Rightarrow> Drawable \<Rightarrow> SdlCall" where
  "paint tg d = (case dr_shape d of
       Face ps \<Rightarrow> RenderGeometry (map (vertex (dr_col d)) ps) [0, 1, 2, 0, 2, 3]
     | Circle cx cy rad \<Rightarrow> draw_circle tg cx cy rad (dr_col d))"

type_synonym Sorter = "Drawable list \<Rightarrow> Drawable list"

definition flush_drawables :: "Trig \<Rightarrow> Sorter \<Rightarrow> Drawable list \<Rightarrow> SdlCall list" where
  "flush_drawables tg qsort ds = map (paint tg) (qsort ds)"

definition draw_world_line :: "Lens \<Rightarrow> Vf3 \<Rightarrow> Vf3 \<Rightarrow> SdlCall list" where
  "draw_world_line lens a b = (case (project lens a, project lens b) of
       (Some (ax, ay, _), Some (bx, bay, _)) \<Rightarrow> [RenderLine ax ay bx bay] | _ \<Rightarrow> [])"

section \<open>Scene\<close>

definition floor_tile :: "Lens \<Rightarrow> bool \<Rightarrow> nat \<times> f32 \<times> f32 \<Rightarrow> nat \<times> f32 \<times> f32 \<Rightarrow> Drawable list \<Rightarrow> Drawable list" where
  "floor_tile lens show_grid = (\<lambda>(cx, tx, x2) (cz, tz, z2).
     let fc = (if show_grid \<and> (cx XOR cz) AND 1 \<noteq> 0 then cents 20 23 28 100 else cents 16 18 22 100); y = - lit 2 100
     in add_face lens (vec3 tx y tz) (vec3 x2 y tz) (vec3 x2 y z2) (vec3 tx y z2) fc)"

definition floor_layer :: "Lens \<Rightarrow> bool \<Rightarrow> f32 \<Rightarrow> f32 \<Rightarrow> Drawable list option" where
  "floor_layer lens show_grid full_x full_z =
     do { xs \<leftarrow> strips (lit 1 1) full_x (- full_x);
          zs \<leftarrow> (if xs = [] then Some [] else strips (lit 1 1) full_z (- full_z));
          Some (fold (\<lambda>x. fold (floor_tile lens show_grid x) (List.enumerate 0 zs)) (List.enumerate 0 xs) []) }"

definition wall_extent :: "ArenaState \<Rightarrow> f32 \<Rightarrow> f32" where
  "wall_extent s full =
     (if st_phase s = PHASE_SUDDEN_DEATH then full - fint (uint (st_shrink_step s)) * lit 3 100 else full)"

definition wall_color :: "ArenaState \<Rightarrow> FColor" where
  "wall_color s = (if st_phase s = PHASE_SUDDEN_DEATH then cents 55 25 25 45 else cents 30 34 42 45)"

definition add_walls :: "Lens \<Rightarrow> FColor \<Rightarrow> f32 \<Rightarrow> f32 \<Rightarrow> Drawable list \<Rightarrow> Drawable list option" where
  "add_walls lens col ext_x ext_z ds =
     (let wt = lit 20 100; wh = lit 12 10 in
      do { ds \<leftarrow> add_box_split lens (vec3 (- ext_x - wt) f0 (- ext_z - wt)) (vec3 (ext_x + wt) wh (- ext_z)) col ds;
           ds \<leftarrow> add_box_split lens (vec3 (- ext_x - wt) f0 ext_z) (vec3 (ext_x + wt) wh (ext_z + wt)) col ds;
           ds \<leftarrow> add_box_split lens (vec3 (- ext_x - wt) f0 (- ext_z)) (vec3 (- ext_x) wh ext_z) col ds;
           add_box_split lens (vec3 ext_x f0 (- ext_z)) (vec3 (ext_x + wt) wh ext_z) col ds })"

definition player_color :: "nat \<Rightarrow> FColor" where
  "player_color i = [cents 95 95 95 100, cents 25 25 30 100, cents 90 30 25 100, cents 30 42 90 100] ! i"

definition shadow :: FColor where
  "shadow = color f0 f0 f0 (lit 35 100)"

definition add_player :: "Lens \<Rightarrow> u32 \<Rightarrow> nat \<Rightarrow> ArenaPlayer \<Rightarrow> Drawable list \<Rightarrow> Drawable list" where
  "add_player lens tick i p ds =
     (let pos = qf3 (pl_pos p); r = QF TUNE_PLAYER_RADIUS;
          c = (if pl_state p = PSTATE_DEAD then (player_color i)\<lparr>fc_a := lit 25 100\<rparr>
               else if pl_state p = PSTATE_TUMBLE then cents 100 60 15 100
               else if pl_timer p > 0 \<and> drop_bit 2 tick AND 1 \<noteq> 0 then (player_color i)\<lparr>fc_a := lit 45 100\<rparr>
               else player_color i);
          ds = (if pl_state p = PSTATE_DEAD then ds
                else add_circle lens (vec3 (v_x pos) (lit 1 100) (v_z pos)) r shadow (lit 1 100) ds)
      in add_circle lens (vec3 (v_x pos) (v_y pos + lit 45 100) (v_z pos)) r c f0 ds)"

definition add_bomb :: "Lens \<Rightarrow> ArenaBomb \<Rightarrow> Drawable list \<Rightarrow> Drawable list" where
  "add_bomb lens b ds =
     (if bm_state b = BSTATE_FREE \<or> bm_state b = BSTATE_EXPLODING then ds
      else (let pos = qf3 (bm_pos b); r = QF TUNE_BOMB_RADIUS;
                c = (if bm_state b = BSTATE_SETTLED \<and> (bm_fuse b div 10) AND 1 \<noteq> 0 then cents 85 20 15 100 else cents 16 16 18 100);
                ds = (if bm_state b = BSTATE_HELD then ds
                      else add_circle lens (vec3 (v_x pos) (lit 1 100) (v_z pos)) r shadow (lit 1 100) ds)
            in add_circle lens (vec3 (v_x pos) (v_y pos + lit 3 10) (v_z pos)) r c f0 ds))"

definition add_blast :: "Lens \<Rightarrow> ArenaBlast \<Rightarrow> Drawable list \<Rightarrow> Drawable list" where
  "add_blast lens bl ds =
     (if bl_ttl bl = 0 then ds
      else (let fr = fint (uint (bl_radius_t bl)) / fint (uint TUNE_BLAST_GROW_TICKS);
                fr = (if f1 < fr then f1 else fr); c = qf3 (bl_center bl)
            in add_circle lens (vec3 (v_x c) (v_y c + lit 2 10) (v_z c)) (fr * QF TUNE_BLAST_RADIUS)
                 (color (lit 1 1) (lit 55 100) (lit 10 100) (lit 55 100 * fint (uint (bl_ttl bl)) / fint (uint TUNE_BLAST_TTL)))
                 (- lit 2 100) ds))"

definition add_entities :: "Lens \<Rightarrow> ArenaState \<Rightarrow> Drawable list \<Rightarrow> Drawable list" where
  "add_entities lens s ds =
     (let ds = fold (\<lambda>i. add_player lens (st_tick s) i (player s i)) [0..<unat (st_num_players s)] ds;
          ds = fold (\<lambda>i. add_bomb lens (bomb s i)) [0..<ARENA_MAX_BOMBS] ds
      in fold (\<lambda>i. add_blast lens (blast s i)) [0..<ARENA_MAX_BLASTS] ds)"

definition scene_layer :: "Lens \<Rightarrow> ArenaState \<Rightarrow> f32 \<Rightarrow> f32 \<Rightarrow> Drawable list option" where
  "scene_layer lens s ext_x ext_z =
     do { ds \<leftarrow> add_walls lens (wall_color s) ext_x ext_z [];
          let ds = fold (\<lambda>b. add_box lens (qf3 (bmin b)) (qf3 (bmax b)) (cents 42 40 36 100))
                     (pillars (arena_geoms ! unat (st_arena_id s))) ds;
          Some (add_entities lens s ds) }"

definition draw_scene :: "Sorter \<Rightarrow> Lens \<Rightarrow> ArenaState \<Rightarrow> bool \<Rightarrow> SdlCall list option" where
  "draw_scene qsort lens s show_grid =
     (let g = arena_geoms ! unat (st_arena_id s); full_x = QF (half_x g); full_z = QF (half_z g) in
      do { ground \<leftarrow> floor_layer lens show_grid full_x full_z;
           ds \<leftarrow> scene_layer lens s (wall_extent s full_x) (wall_extent s full_z);
           Some (flush_drawables (ln_trig lens) qsort ground @ flush_drawables (ln_trig lens) qsort ds) })"

definition draw_facing :: "Lens \<Rightarrow> ArenaState \<Rightarrow> SdlCall list" where
  "draw_facing lens s =
     SetRenderDrawColor 250 250 250 255 #
     concat (map (\<lambda>i. let p = player s i in
         if pl_state p = PSTATE_DEAD then []
         else (let yr = VCAM_BINANG_TO_RAD (pl_yaw p); pos = qf3 (pl_pos p);
                   a = vec3 (v_x pos) (v_y pos + lit 45 100) (v_z pos);
                   b = vec3 (v_x a + lit 55 100 * tr_sin (ln_trig lens) yr) (v_y a) (v_z a - lit 55 100 * tr_cos (ln_trig lens) yr)
               in draw_world_line lens a b))
       [0..<unat (st_num_players s)])"

section \<open>Text\<close>

definition glyph :: "f32 \<Rightarrow> f32 \<Rightarrow> f32 \<Rightarrow> nat \<Rightarrow> SdlCall list" where
  "glyph x y scale ch =
     (if 128 \<le> ch then []
      else concat (map (\<lambda>row. concat (map (\<lambda>col.
          if font8x8_basic ! ch ! row AND push_bit col 1 \<noteq> 0
          then [RenderFillRect (x + fint (int col) * scale) (y + fint (int row) * scale) scale scale] else [])
        [0..<8])) [0..<8]))"

fun draw_chars :: "f32 \<Rightarrow> f32 \<Rightarrow> f32 \<Rightarrow> string \<Rightarrow> SdlCall list" where
  "draw_chars x y scale [] = []"
| "draw_chars x y scale (c # cs) = glyph x y scale (of_char c) @ draw_chars (x + fint 8 * scale) y scale cs"

definition draw_text :: "f32 \<Rightarrow> f32 \<Rightarrow> f32 \<Rightarrow> string \<Rightarrow> SdlCall list" where
  "draw_text x y scale str = SetRenderDrawColor 235 235 235 255 # draw_chars x y scale str"

definition pstate_text :: "PState \<Rightarrow> string" where
  "pstate_text p = [''IDLE'', ''RUN '', ''JUMP'', ''TUMB'', ''DEAD''] ! unat (pstate_code p)"

definition phase_text :: "Phase \<Rightarrow> string" where
  "phase_text p = [''COUNTDOWN'', ''PLAY'', ''SUDDEN-DEATH'', ''ROUND-END''] ! unat (phase_code p)"

definition rate_text :: "nat \<Rightarrow> string" where
  "rate_text r = [''1x'', ''1/4x'', ''1/16x''] ! r"

definition cmode_text :: "VCamMode \<Rightarrow> string" where
  "cmode_text m = (case m of VCAM_FOLLOW \<Rightarrow> ''FOLLOW'' | VCAM_CHASE \<Rightarrow> ''CHASE'' | VCAM_ORBIT \<Rightarrow> ''ORBIT'' | VCAM_TOPDOWN \<Rightarrow> ''TOP'')"

definition hud_status :: "ArenaState \<Rightarrow> 'd ViewerClock \<Rightarrow> ViewerCam \<Rightarrow> nat \<Rightarrow> string" where
  "hud_status s clk c target =
     ''TICK '' @ pad_right 8 (print_u (unat (st_tick s))) @ '' HASH '' @ print_x8 (unat (arena_hash s)) @ ''  ''
     @ phase_text (st_phase s) @ '' '' @ print_d (uint (st_phase_timer s)) @ ''  RATE '' @ rate_text (vk_rate clk)
     @ (if vk_paused clk then '' PAUSED'' else []) @ ''  CAM P'' @ print_d (int target) @ '' '' @ cmode_text (cam_mode c)"

definition hud_player :: "nat \<Rightarrow> ArenaPlayer \<Rightarrow> string" where
  "hud_player i p =
     ''P'' @ print_d (int i) @ '' '' @ pstate_text (pl_state p) @ '' hp'' @ print_d (uint (pl_hp p))
     @ '' pos '' @ print_f 6 2 (QF (vx (pl_pos p))) @ '' '' @ print_f 6 2 (QF (vy (pl_pos p))) @ '' '' @ print_f 6 2 (QF (vz (pl_pos p)))
     @ '' vel '' @ print_f 5 2 (QF (vx (pl_vel p))) @ '' '' @ print_f 5 2 (QF (vy (pl_vel p))) @ '' '' @ print_f 5 2 (QF (vz (pl_vel p)))
     @ '' bombs '' @ print_d (uint (pl_live_bombs p)) @ '' t'' @ print_d (uint (pl_timer p))"

definition draw_hud :: "ArenaState \<Rightarrow> 'd ViewerClock \<Rightarrow> ViewerCam \<Rightarrow> nat \<Rightarrow> int \<Rightarrow> SdlCall list" where
  "draw_hud s clk c target h =
     draw_text (fint 8) (fint 8) (fint 2) (snprintf 160 (hud_status s clk c target))
     @ concat (map (\<lambda>i. draw_text (fint 8) (fint 8 + fint 20 * fint (int (i + 1))) (fint 2) (snprintf 160 (hud_player i (player s i))))
         [0..<unat (st_num_players s)])
     @ draw_text (fint 8) (fint h - fint 24) (fint 2) ''SHIFT throw(hold=spread) E set RUN-IN kick P pause ] step [ rate F1 cam''"

end
