(* ===== verification/Viewer_Cam_Facts.thy ===== *)
theory Viewer_Cam_Facts
  imports Viewer_Cam
begin

text \<open>
  The camera's loops end and its numbers stay finite: the invariant \<open>cam_ok\<close> of the rig and what
  \<open>vcam_update\<close> and \<open>vcam_project\<close> do under it; the stick never leaves its range.
\<close>

section \<open>Constants\<close>

lemma lit_value: "0 < q \<Longrightarrow> repr (real p / real q) \<Longrightarrow> fin (lit p q) \<and> val (lit p q) = real p / real q"
  using rounds_exact [OF lit_rounds, of q p] by simp

lemma repr_nat: "n \<le> 2 ^ 24 \<Longrightarrow> repr (real n)"
proof -
  assume n: "n \<le> 2 ^ 24"
  then have "real n \<le> real (2 ^ 24)" by (simp only: of_nat_le_iff)
  then show ?thesis using n unfolding repr_def by (intro exI [of _ n] exI [of _ 0]) simp
qed

lemma lit_nat [simp]: "n \<le> 2 ^ 24 \<Longrightarrow> fin (lit n (Suc 0))" "n \<le> 2 ^ 24 \<Longrightarrow> val (lit n (Suc 0)) = real n"
  using lit_value [of 1 n] repr_nat [of n] by simp_all

lemma fint_value: "\<bar>i\<bar> \<le> 2 ^ 24 \<Longrightarrow> fin (fint i) \<and> val (fint i) = of_int i"
  using rounds_exact [OF fint_rounds, of i] repr_nat [of "nat \<bar>i\<bar>"] by (simp add: nat_le_iff)

lemma f0_value [simp]: "fin f0" "val f0 = 0" and f1_value [simp]: "fin f1" "val f1 = 1"
  using fint_value [of 0] fint_value [of 1] by simp_all

lemma powi_neg: "(2 :: real) powi (- numeral n) = 1 / 2 ^ numeral n"
  by (simp add: power_int_minus inverse_eq_divide)

lemma PIF_value: "PIF = Finite False 13176795 (- 22)"
  by (simp add: PIF_def float_defs bits.simps)

lemma PIF_fin [simp]: "fin PIF" and PIF_val: "val PIF = 13176795 / 4194304"
  by (simp_all add: PIF_value with_sign_def powi_neg)

lemma two_PIF: "fint 2 * PIF = Finite False 13176795 (- 21)"
  by (simp add: PIF_value float_defs bits.simps)

lemma two_PIF_val: "fin (fint 2 * PIF)" "val (fint 2 * PIF) = 2 * val PIF"
  unfolding two_PIF PIF_val by (simp_all add: with_sign_def powi_neg)

lemma repr_PIF: "repr (val PIF)"
  unfolding repr_def PIF_val by (rule exI [of _ 13176795], rule exI [of _ "- 22"]) (simp add: powi_neg)

section \<open>Wrapping an angle\<close>

lemma turn_back:
  assumes "fin a" "val PIF < val a" "val a \<le> real (6 * n + 10)" "n \<le> 1000"
  shows "fin (a - fint 2 * PIF)" "- val PIF \<le> val (a - fint 2 * PIF)" "val (a - fint 2 * PIF) \<le> real (6 * n + 4)"
proof -
  let ?r = "a - fint 2 * PIF"
  have r: "rounds (val a - 2 * val PIF) ?r" using sub_rounds [OF assms(1) two_PIF_val(1)] two_PIF_val(2) by simp
  have hi: "repr (real (6 * n + 4))" using assms(4) by (intro repr_nat) simp
  have x: "\<bar>val a - 2 * val PIF\<bar> \<le> real (6 * n + 4)" using assms(2,3) unfolding PIF_val by simp
  show f: "fin ?r" and "val ?r \<le> real (6 * n + 4)"
    using rounds_bound [OF r x hi] by (simp_all add: abs_le_iff)
  show "- val PIF \<le> val ?r"
  proof (cases "0 \<le> val a - 2 * val PIF")
    case True
    then show ?thesis using rounds_sign(1) [OF r f] by (simp add: PIF_val)
  next
    case False
    then have "\<bar>val a - 2 * val PIF\<bar> \<le> val PIF" using assms(2) by simp
    from rounds_bound [OF r this repr_PIF] show ?thesis by (simp add: abs_le_iff)
  qed
qed

lemma turn_on:
  assumes "fin a" "val a < - val PIF" "- real (6 * n + 10) \<le> val a" "n \<le> 1000"
  shows "fin (a + fint 2 * PIF)" "val (a + fint 2 * PIF) \<le> val PIF" "- real (6 * n + 4) \<le> val (a + fint 2 * PIF)"
proof -
  let ?r = "a + fint 2 * PIF"
  have r: "rounds (val a + 2 * val PIF) ?r" using add_rounds [OF assms(1) two_PIF_val(1)] two_PIF_val(2) by simp
  have hi: "repr (real (6 * n + 4))" using assms(4) by (intro repr_nat) simp
  have x: "\<bar>val a + 2 * val PIF\<bar> \<le> real (6 * n + 4)" using assms(2,3) unfolding PIF_val by simp
  show f: "fin ?r" and "- real (6 * n + 4) \<le> val ?r"
    using rounds_bound [OF r x hi] by (simp_all add: abs_le_iff)
  show "val ?r \<le> val PIF"
  proof (cases "val a + 2 * val PIF \<le> 0")
    case True
    then show ?thesis using rounds_sign(2) [OF r f] by (simp add: PIF_val)
  next
    case False
    then have "\<bar>val a + 2 * val PIF\<bar> \<le> val PIF" using assms(2) by simp
    from rounds_bound [OF r this repr_PIF] show ?thesis by (simp add: abs_le_iff)
  qed
qed

lemma wrap_down_returns:
  "fin a \<Longrightarrow> val a \<le> real (6 * n + 4) \<Longrightarrow> n \<le> 1000 \<Longrightarrow>
     \<exists>b. wrap_down a = Some b \<and> fin b \<and> val b \<le> val PIF \<and> min (val a) (- val PIF) \<le> val b"
proof (induction n arbitrary: a)
  case 0
  show ?case
  proof (cases "PIF < a")
    case True
    then have "val PIF < val a" using 0 less_val by simp
    note b = turn_back [OF 0(1) this, of 0] 
    have "val a \<le> 4" using 0 by simp
    moreover have "val (a - fint 2 * PIF) \<le> val PIF"
      using rounds_sign(2) [OF sub_rounds [OF 0(1) two_PIF_val(1)] b(1)] calculation two_PIF_val(2) by (simp add: PIF_val)
    ultimately show ?thesis using b True less_val [of PIF "a - fint 2 * PIF"]
      by (simp add: wrap_down.simps [of a] wrap_down.simps [of "a - fint 2 * PIF"])
  next
    case False
    then show ?thesis using 0 less_val [of PIF a] by (simp add: wrap_down.simps)
  qed
next
  case (Suc n)
  show ?case
  proof (cases "PIF < a")
    case True
    then have "val PIF < val a" using Suc.prems less_val by simp
    note b = turn_back [OF Suc.prems(1) this, of n]
    have "\<exists>b. wrap_down (a - fint 2 * PIF) = Some b \<and> fin b \<and> val b \<le> val PIF \<and> min (val (a - fint 2 * PIF)) (- val PIF) \<le> val b"
      using b Suc.prems by (intro Suc.IH) simp_all
    then show ?thesis using b Suc.prems True by (auto simp: wrap_down.simps [of a])
  next
    case False
    then show ?thesis using Suc.prems less_val [of PIF a] by (simp add: wrap_down.simps)
  qed
qed

lemma wrap_up_returns:
  "fin a \<Longrightarrow> - real (6 * n + 4) \<le> val a \<Longrightarrow> val a \<le> val PIF \<Longrightarrow> n \<le> 1000 \<Longrightarrow>
     \<exists>b. wrap_up a = Some b \<and> fin b \<and> \<bar>val b\<bar> \<le> val PIF"
proof (induction n arbitrary: a)
  case 0
  show ?case
  proof (cases "a < - PIF")
    case True
    then have "val a < - val PIF" using 0 less_val [of a "- PIF"] by simp
    note b = turn_on [OF 0(1) this, of 0]
    have "- 4 \<le> val a" using 0 by simp
    then have "0 \<le> val (a + fint 2 * PIF)"
      using rounds_sign(1) [OF add_rounds [OF 0(1) two_PIF_val(1)]] b(1) 0(2) two_PIF_val(2) by (simp add: PIF_val)
    then show ?thesis using b 0 True less_val [of "a + fint 2 * PIF" "- PIF"]
      by (simp add: wrap_up.simps [of a] wrap_up.simps [of "a + fint 2 * PIF"] PIF_val)
  next
    case False
    then show ?thesis using 0 less_val [of a "- PIF"] by (simp add: wrap_up.simps abs_le_iff)
  qed
next
  case (Suc n)
  show ?case
  proof (cases "a < - PIF")
    case True
    then have "val a < - val PIF" using Suc.prems less_val [of a "- PIF"] by simp
    note b = turn_on [OF Suc.prems(1) this, of n]
    have "\<exists>b. wrap_up (a + fint 2 * PIF) = Some b \<and> fin b \<and> \<bar>val b\<bar> \<le> val PIF"
      using b Suc.prems by (intro Suc.IH) simp_all
    then show ?thesis using True by (simp add: wrap_up.simps [of a])
  next
    case False
    then show ?thesis using Suc.prems less_val [of a "- PIF"] by (simp add: wrap_up.simps abs_le_iff)
  qed
qed

lemma wrap_pi_returns:
  assumes "fin a" "\<bar>val a\<bar> \<le> 16"
  shows "\<exists>b. wrap_pi a = Some b \<and> fin b \<and> \<bar>val b\<bar> \<le> val PIF"
proof -
  obtain b where b: "wrap_down a = Some b" "fin b" "val b \<le> val PIF" "min (val a) (- val PIF) \<le> val b"
    using wrap_down_returns [OF assms(1), of 2] assms(2) by (auto simp: abs_le_iff)
  moreover have "- 16 \<le> val b" using b(4) assms(2) by (auto simp: PIF_val min_def split: if_splits)
  ultimately show ?thesis using wrap_up_returns [OF b(2), of 2] by (simp add: wrap_pi_def)
qed

section \<open>The rig\<close>

definition trig_ok :: "Trig \<Rightarrow> bool" where
  "trig_ok tg \<longleftrightarrow> (\<forall>a. fin a \<longrightarrow> small 0 (tr_sin tg a) \<and> small 0 (tr_cos tg a))"

definition near_vec :: "int \<Rightarrow> Vf3 \<Rightarrow> bool" where
  "near_vec b v \<longleftrightarrow> small b (v_x v) \<and> small b (v_y v) \<and> small b (v_z v)"

definition cam_ok :: "ViewerCam \<Rightarrow> bool" where
  "cam_ok c \<longleftrightarrow> (\<exists>y m p t. c = vcam_init\<lparr>cam_yaw := y, cam_mode := m, cam_pos := p, cam_target := t\<rparr>
     \<and> fin y \<and> \<bar>val y\<bar> \<le> val PIF \<and> near_vec 20 p \<and> near_vec 20 t)"

lemma near_vec3 [simp]: "near_vec b (vec3 x y z) \<longleftrightarrow> small b x \<and> small b y \<and> small b z"
  by (simp add: near_vec_def vec3_def)

lemma vec3_sel [simp]: "v_x (vec3 x y z) = x" "v_y (vec3 x y z) = y" "v_z (vec3 x y z) = z"
  by (simp_all add: vec3_def)

lemma small_lit: "0 < q \<Longrightarrow> real p \<le> 2 powi b * real q \<Longrightarrow> - 149 \<le> b \<Longrightarrow> b < 128 \<Longrightarrow> small b (lit p q)"
  by (rule small_rounds [OF lit_rounds]) (simp_all add: pos_divide_le_eq)

lemma small_fint: "\<bar>real_of_int i\<bar> \<le> 2 powi b \<Longrightarrow> - 149 \<le> b \<Longrightarrow> b < 128 \<Longrightarrow> small b (fint i)"
  by (rule small_rounds [OF fint_rounds])

lemma powi_nat: "(2 :: real) powi (numeral n) = 2 ^ numeral n"
  by simp

lemma small_f0 [simp]: "small b f0"
  by (simp add: small_def)

lemma small_QF: "is_i32 v \<Longrightarrow> small 19 (QF v)"
proof -
  assume "is_i32 v"
  then have "small 31 (fint v)" by (intro small_fint) (auto simp: is_i32_def)
  then have "small (31 + - 12) (QF v)" unfolding QF_def by (rule small_div) simp_all
  then show ?thesis by simp
qed

lemma small_angle: "small 3 (VCAM_BINANG_TO_RAD a)"
proof -
  have "small 16 (fint (uint a))"
  proof -
    have "uint a < 65536" "0 \<le> uint a" using unsigned_less [of a, where ?'a = int] by simp_all
    then have "\<bar>real_of_int (uint a)\<bar> \<le> 65536" by linarith
    then show ?thesis by (intro small_fint) simp_all
  qed
  moreover have "small (- 13) BINANG_UNIT"
    unfolding BINANG_UNIT_def by (rule small_lit) (simp_all add: powi_neg)
  ultimately have "small (16 + - 13) (VCAM_BINANG_TO_RAD a)" unfolding VCAM_BINANG_TO_RAD_def by (rule small_mul) simp_all
  then show ?thesis by simp
qed

lemma cam_init_ok: "cam_ok vcam_init"
  unfolding cam_ok_def
  by (rule exI [of _ "cam_yaw vcam_init"], rule exI [of _ "cam_mode vcam_init"], rule exI [of _ "cam_pos vcam_init"],
      rule exI [of _ "cam_target vcam_init"])
    (auto simp: vcam_init_def PIF_val intro!: small_lit)

section \<open>Updates\<close>

lemma rounds_to_16: "rounds x r \<Longrightarrow> \<bar>x\<bar> \<le> 16 \<Longrightarrow> fin r \<and> \<bar>val r\<bar> \<le> 16"
  using rounds_bound [of x r 16] repr_nat [of 16] by simp

lemma clamp_turn:
  fixes t m :: f32
  assumes "fin t" "fin m" "0 \<le> val m"
  defines "u \<equiv> (if m < t then m else t)"
  defines "v \<equiv> (if u < - m then - m else u)"
  shows "fin v \<and> \<bar>val v\<bar> \<le> val m"
proof -
  have u: "fin u" "val u \<le> val m" using assms(1,2) less_val [of m t] by (auto simp: u_def)
  then show ?thesis using assms(2,3) less_val [of u "- m"] by (auto simp: v_def abs_le_iff)
qed

lemma chase_returns:
  assumes "fin yaw_rad" "\<bar>val yaw_rad\<bar> \<le> 8" "fin (cam_yaw c)" "\<bar>val (cam_yaw c)\<bar> \<le> val PIF"
    and "cam_smooth c = lit 5 100" "cam_max_turn c = lit 2 100"
  shows "\<exists>y t. chase_yaw yaw_rad c = Some (c\<lparr>cam_yaw := y\<rparr>) \<and> fin y \<and> \<bar>val y\<bar> \<le> val PIF
    \<and> fin t \<and> \<bar>val t\<bar> \<le> val (lit 2 100) \<and> (y = cam_yaw c \<or> wrap_pi (cam_yaw c + t) = Some y)"
proof -
  have "\<bar>val yaw_rad - val (cam_yaw c)\<bar> \<le> 16" using assms(2,4) PIF_val by linarith
  then have "fin (yaw_rad - cam_yaw c)" "\<bar>val (yaw_rad - cam_yaw c)\<bar> \<le> 16"
    using rounds_to_16 [OF sub_rounds [OF assms(1,3)]] by simp_all
  then obtain diff where diff: "wrap_pi (yaw_rad - cam_yaw c) = Some diff" "fin diff" "\<bar>val diff\<bar> \<le> val PIF"
    using wrap_pi_returns by blast
  define u where "u = (if cam_max_turn c < cam_smooth c * diff then cam_max_turn c else cam_smooth c * diff)"
  define t where "t = (if u < - cam_max_turn c then - cam_max_turn c else u)"
  have m: "small (- 5) (lit 2 100)" "small (- 4) (lit 5 100)" by (rule small_lit; simp add: powi_neg)+
  have pos: "0 \<le> val (lit 2 100)" using rounds_sign(1) [OF lit_rounds [of 100 2]] small_fin [OF m(1)] by simp
  have "small 2 diff" using diff by (simp add: small_def PIF_val)
  then have "small (- 4 + 2) (cam_smooth c * diff)" using m(2) unfolding assms(5) by (intro small_mul) simp_all
  then have t: "fin t \<and> \<bar>val t\<bar> \<le> val (lit 2 100)"
    unfolding t_def u_def assms(6) using clamp_turn [OF small_fin small_fin [OF m(1)] pos] by blast
  have "\<bar>val (cam_yaw c) + val t\<bar> \<le> 16"
  proof -
    have "\<bar>val t\<bar> \<le> 1" using t m(1) by (auto simp: small_def powi_neg)
    then show ?thesis using assms(4) PIF_val by linarith
  qed
  then have "fin (cam_yaw c + t)" "\<bar>val (cam_yaw c + t)\<bar> \<le> 16"
    using rounds_to_16 [OF add_rounds [OF assms(3), of t]] t by simp_all
  then obtain y where y: "wrap_pi (cam_yaw c + t) = Some y" "fin y" "\<bar>val y\<bar> \<le> val PIF" using wrap_pi_returns by blast
  show ?thesis
  proof (cases "fabs diff < lit 29 10")
    case True
    then have "chase_yaw yaw_rad c = Some (c\<lparr>cam_yaw := y\<rparr>)"
      unfolding chase_yaw_def diff(1) bind.bind_lunit Let_def u_def [symmetric] t_def [symmetric] by (simp add: y(1))
    then show ?thesis using y t by blast
  next
    case False
    then have "chase_yaw yaw_rad c = Some (c\<lparr>cam_yaw := cam_yaw c\<rparr>)" using diff(1) by (simp add: chase_yaw_def)
    then show ?thesis using assms(3,4) t by blast
  qed
qed

lemma track_ok:
  assumes "trig_ok tg" "near_vec 19 p" "fin y" "\<bar>val y\<bar> \<le> val PIF"
  shows "cam_ok (track tg p (vcam_init\<lparr>cam_yaw := y, cam_mode := m, cam_pos := p0, cam_target := t0\<rparr>))"
proof -
  have tg: "small 0 (tr_sin tg y)" "small 0 (- tr_cos tg y)" using assms(1,3) by (simp_all add: trig_ok_def)
  have p: "small 19 (v_x p)" "small 19 (v_y p)" "small 19 (v_z p)" using assms(2) by (simp_all add: near_vec_def)
  have l: "small 19 (lit 1 1)" "small 19 (lit 5 1)" "small 2 (lit 4 1)" by (rule small_lit; simp)+
  have sw: "small 19 (x * lit 4 1)" if "small 0 x" for x
    using small_mul [OF that l(3)] by (rule small_mono) simp_all
  note sums = small_add [of 19, simplified]
  have "near_vec 20 (cam_pos (track tg p (vcam_init\<lparr>cam_yaw := y, cam_mode := m, cam_pos := p0, cam_target := t0\<rparr>)))"
    "near_vec 20 (cam_target (track tg p (vcam_init\<lparr>cam_yaw := y, cam_mode := m, cam_pos := p0, cam_target := t0\<rparr>)))"
    using p l sw [OF tg(1)] sw [OF tg(2)] small_mono [OF p(1)] small_mono [OF p(3)]
    by (simp_all add: track_def Let_def vcam_init_def sums)
  then show ?thesis
    unfolding cam_ok_def using assms(3,4)
    by (intro exI [of _ y] exI [of _ m] exI [of _ "cam_pos (track tg p (vcam_init\<lparr>cam_yaw := y, cam_mode := m, cam_pos := p0, cam_target := t0\<rparr>))"]
        exI [of _ "cam_target (track tg p (vcam_init\<lparr>cam_yaw := y, cam_mode := m, cam_pos := p0, cam_target := t0\<rparr>))"])
      (simp add: track_def Let_def)
qed

lemma update_ok:
  assumes "cam_ok c" "trig_ok tg" "near_vec 19 p"
  shows "\<exists>c' t. vcam_update tg p (VCAM_BINANG_TO_RAD a) c = Some c' \<and> cam_ok c' \<and> cam_mode c' = cam_mode c
    \<and> fin t \<and> \<bar>val t\<bar> \<le> val (lit 2 100)
    \<and> (cam_mode c = VCAM_ORBIT \<and> cam_yaw c' = f0 \<or> cam_yaw c' = cam_yaw c
       \<or> cam_mode c = VCAM_CHASE \<and> wrap_pi (cam_yaw c + t) = Some (cam_yaw c'))"
proof -
  obtain y m p0 t0 where c: "c = vcam_init\<lparr>cam_yaw := y, cam_mode := m, cam_pos := p0, cam_target := t0\<rparr>"
    and y: "fin y" "\<bar>val y\<bar> \<le> val PIF" using assms(1) by (auto simp: cam_ok_def)
  have none: "fin f0 \<and> \<bar>val f0\<bar> \<le> val (lit 2 100)"
    using rounds_sign(1) [OF lit_rounds [of 100 2]] small_fin [OF small_lit [of 100 2 "- 5"]] by (simp add: powi_neg)
  have keep: "cam_ok (track tg p c)" "cam_mode (track tg p c) = cam_mode c" "cam_yaw (track tg p c) = cam_yaw c"
    using track_ok [OF assms(2,3) y] by (simp_all add: c track_def Let_def)
  show ?thesis
  proof (cases m)
    case VCAM_CHASE
    obtain y' t where ch: "chase_yaw (VCAM_BINANG_TO_RAD a) c = Some (c\<lparr>cam_yaw := y'\<rparr>)" "fin y'" "\<bar>val y'\<bar> \<le> val PIF"
      "fin t" "\<bar>val t\<bar> \<le> val (lit 2 100)" "y' = cam_yaw c \<or> wrap_pi (cam_yaw c + t) = Some y'"
      using chase_returns [of "VCAM_BINANG_TO_RAD a" c] small_angle [of a] y by (auto simp: small_def c vcam_init_def)
    have eq: "c\<lparr>cam_yaw := y'\<rparr> = vcam_init\<lparr>cam_yaw := y', cam_mode := m, cam_pos := p0, cam_target := t0\<rparr>" by (simp add: c)
    have "vcam_update tg p (VCAM_BINANG_TO_RAD a) c = Some (track tg p (c\<lparr>cam_yaw := y'\<rparr>))"
      using ch(1) VCAM_CHASE by (simp add: vcam_update_def c)
    moreover have "cam_ok (track tg p (c\<lparr>cam_yaw := y'\<rparr>))" unfolding eq by (rule track_ok [OF assms(2,3) ch(2,3)])
    moreover have "cam_mode (track tg p (c\<lparr>cam_yaw := y'\<rparr>)) = m" "cam_yaw (track tg p (c\<lparr>cam_yaw := y'\<rparr>)) = y'"
      by (simp_all add: track_def Let_def c)
    ultimately show ?thesis using ch(4-6) VCAM_CHASE by (intro exI [of _ "track tg p (c\<lparr>cam_yaw := y'\<rparr>)"] exI [of _ t]) (auto simp: c)
  next
    case VCAM_ORBIT
    define c' where "c' = vcam_init\<lparr>cam_yaw := lit 0 1, cam_mode := m, cam_pos := vec3 f0 (cam_orbit_height vcam_init) (cam_orbit_dist vcam_init),
        cam_target := vec3 f0 (lit 5 10) f0\<rparr>"
    have "vcam_update tg p (VCAM_BINANG_TO_RAD a) c = Some c'"
      using VCAM_ORBIT by (simp add: vcam_update_def c c'_def vcam_init_def)
    moreover have "cam_ok c'"
      unfolding cam_ok_def c'_def by (intro exI conjI, rule refl) (auto simp: vcam_init_def PIF_val intro!: small_lit)
    moreover have "cam_mode c' = m" "cam_yaw c' = f0" by (simp_all add: c'_def lit_def fint_def)
    ultimately show ?thesis using none VCAM_ORBIT by (intro exI [of _ c'] exI [of _ f0]) (simp add: c)
  next
    case VCAM_FOLLOW
    then have "vcam_update tg p (VCAM_BINANG_TO_RAD a) c = Some (track tg p c)" by (simp add: vcam_update_def c)
    then show ?thesis using keep none by blast
  next
    case VCAM_TOPDOWN
    then have "vcam_update tg p (VCAM_BINANG_TO_RAD a) c = Some (track tg p c)" by (simp add: vcam_update_def c)
    then show ?thesis using keep none by blast
  qed
qed

section \<open>Depth\<close>

lemma small_mul_le: "small a x \<Longrightarrow> small b y \<Longrightarrow> a + b = c \<Longrightarrow> - 149 \<le> c \<Longrightarrow> c < 128 \<Longrightarrow> small c (x * y)"
  using small_mul by blast

lemma small_vdot:
  assumes "near_vec a u" "near_vec b v" "- 147 \<le> a + b" "a + b < 126"
  shows "small (a + b + 2) (vdot u v)"
proof -
  have m: "small (a + b) (v_x u * v_x v)" "small (a + b) (v_y u * v_y v)" "small (a + b) (v_z u * v_z v)"
    using assms by (auto simp: near_vec_def intro: small_mul_le)
  have "small (a + b + 1) (v_x u * v_x v + v_y u * v_y v)" using assms(3,4) by (intro small_add m) simp_all
  moreover have "small (a + b + 1) (v_z u * v_z v)" by (rule small_mono [OF m(3)]) simp
  ultimately have "small (a + b + 1 + 1) (vdot u v)" unfolding vdot_def by (rule small_add(1)) (use assms(3,4) in simp_all)
  then show ?thesis by (simp add: add.assoc)
qed

lemma vdot_self:
  assumes "near_vec a u" "- 70 \<le> a" "a < 60"
  shows "0 \<le> val (vdot u u)"
proof -
  have f: "fin (v_x u)" "fin (v_y u)" "fin (v_z u)" using assms(1) by (simp_all add: near_vec_def small_def)
  have m: "small (a + a) (v_x u * v_x u)" "small (a + a) (v_y u * v_y u)" "small (a + a) (v_z u * v_z u)"
    using assms by (auto simp: near_vec_def intro: small_mul_le)
  have s: "small (a + a + 1) (v_x u * v_x u + v_y u * v_y u)" using assms(2,3) by (intro small_add m) simp_all
  note d = small_vdot [OF assms(1) assms(1)]
  have sq: "0 \<le> val (x * x)" if "fin x" "small (a + a) (x * x)" for x
    using rounds_sign(1) [OF mul_rounds [OF that(1) that(1)] small_fin [OF that(2)]] by simp
  have "0 \<le> val (v_x u * v_x u + v_y u * v_y u)"
    using rounds_sign(1) [OF add_rounds [OF small_fin [OF m(1)] small_fin [OF m(2)]] small_fin [OF s]] sq f m by simp
  then show ?thesis
    using rounds_sign(1) [OF add_rounds [OF small_fin [OF s] small_fin [OF m(3)]]] small_fin [OF d] sq f m assms(2,3)
    by (simp add: vdot_def)
qed

lemma small_vnorm:
  assumes "near_vec a u" "0 \<le> a" "a < 50"
  shows "near_vec (a + 20) (vnorm u)"
proof -
  define l where "l = fsqrt (vdot u u)"
  have "small (a + 1 + (a + 1)) (vdot u u)" using small_vdot [OF assms(1,1)] assms(2,3) by (simp add: algebra_simps)
  then have l: "small (a + 1) l" unfolding l_def using vdot_self [OF assms(1)] assms(2,3) by (intro small_sqrt) simp_all
  show ?thesis
  proof (cases "lit 1 1000000 < l")
    case True
    have e: "rounds (1 / 1000000) (lit 1 1000000)" using lit_rounds [of 1000000 1] by simp
    have "small 0 (lit 1 1000000)" by (rule small_lit) simp_all
    then have "2 powi (- 20) \<le> val (lit 1 1000000)"
      using rounds_least [OF e, of "2 powi (- 20)"] repr_powi [of "- 20"] rounds_sign(1) [OF e] small_fin by (simp add: powi_neg)
    moreover have "val (lit 1 1000000) < val l" using True less_val small_fin [OF l] small_fin [OF \<open>small 0 _\<close>] by blast
    ultimately have "2 powi (- 20) \<le> val l" by simp
    then have "small (a + 20) (x / l)" if "small a x" for x
      using small_div [OF that small_fin [OF l], of 20] assms(2,3) by simp
    then show ?thesis using assms(1) True by (simp add: vnorm_def l_def near_vec_def Let_def)
  next
    case False
    then show ?thesis using l_def by (simp add: vnorm_def)
  qed
qed

lemma near_vsub: "near_vec 20 a \<Longrightarrow> near_vec 20 b \<Longrightarrow> near_vec 21 (vsub a b)"
  using small_add(2) [of 20] by (simp add: vsub_def near_vec_def)

lemma project_depth:
  assumes "near_vec 20 (cam_pos c)" "near_vec 20 (cam_target c)" "near_vec 20 p" "vcam_project tg c p w h = Some (sx, sy, d)"
  shows "small 64 d"
proof (cases "cam_mode c = VCAM_TOPDOWN")
  case True
  have "small 20 (lit 1000 1)" by (rule small_lit) simp_all
  then have "small (20 + 1) (lit 1000 1 - v_y p)" using assms(3) by (intro small_add) (simp_all add: near_vec_def)
  moreover have "d = lit 1000 1 - v_y p" using True assms(4) by (simp add: vcam_project_def Let_def)
  ultimately show ?thesis using small_mono by force
next
  case False
  have "near_vec (21 + 20) (cam_forward c)"
    unfolding cam_forward_def by (rule small_vnorm [OF near_vsub]) (use assms in simp_all)
  then have "small (21 + 41 + 2) (vdot (vsub p (cam_pos c)) (cam_forward c))"
    using near_vsub [OF assms(3,1)] by (intro small_vdot) simp_all
  moreover have "d = vdot (vsub p (cam_pos c)) (cam_forward c)"
    using False assms(4) by (simp add: vcam_project_def Let_def split: if_splits)
  ultimately show ?thesis by simp
qed

section \<open>The stick\<close>

text \<open>Same number, whatever the sign of a zero.\<close>

definition same :: "f32 \<Rightarrow> f32 \<Rightarrow> bool" where
  "same x y \<longleftrightarrow> fin x \<and> fin y \<and> val x = val y"

lemma rounds_same: "rounds x r \<Longrightarrow> rounds x t \<Longrightarrow> fin r \<Longrightarrow> same r t"
  using rounds_val [of x r t] by (simp add: same_def)

lemma axis_length:
  assumes x: "small 2 x" and z: "small 2 z"
  defines "m \<equiv> fsqrt (x * x + z * z)"
  shows "fin m" and "0 \<le> val m" and "val m \<le> 1 \<Longrightarrow> \<bar>val x\<bar> < 65 / 64" and "1 \<le> \<bar>val x\<bar> \<Longrightarrow> \<bar>val x\<bar> * (64 / 65) \<le> val m"
proof -
  have sq: "small 4 (x * x)" "small 4 (z * z)" using small_mul [OF x x] small_mul [OF z z] by simp_all
  have sum: "small 5 (x * x + z * z)" using small_add(1) [OF sq] by simp
  note r = mul_rounds [OF small_fin [OF x] small_fin [OF x]] add_rounds [OF small_fin [OF sq(1)] small_fin [OF sq(2)]]
  have z0: "0 \<le> val (z * z)" using rounds_sign(1) [OF mul_rounds [OF small_fin [OF z] small_fin [OF z]] small_fin [OF sq(2)]] by simp
  have x0: "0 \<le> val (x * x)" using rounds_sign(1) [OF r(1) small_fin [OF sq(1)]] by simp
  have s0: "0 \<le> val (x * x + z * z)" using rounds_sign(1) [OF r(2) small_fin [OF sum]] x0 z0 by simp
  have m: "small 3 m" unfolding m_def by (rule small_sqrt) (use s0 small_mono [OF sum, of 6] in simp_all)
  then show fm: "fin m" by (rule small_fin)
  note rm = sqrt_rounds [OF small_fin [OF sum] s0, folded m_def]
  show m0: "0 \<le> val m" using rounds_sign(1) [OF rm fm] s0 by simp
  have least: "b \<le> val (x * x + z * z)" if "repr b" "b \<le> (val x)\<^sup>2" for b
  proof -
    have "b \<le> val (x * x)" using rounds_least [OF r(1) _ that(1) small_fin [OF sq(1)]] that(2) x0 by (simp add: power2_eq_square)
    then show ?thesis using rounds_least [OF r(2) _ that(1) small_fin [OF sum]] z0 s0 by simp
  qed
  have root: "b \<le> val m" if "repr b" "repr (b\<^sup>2)" "b \<le> \<bar>val x\<bar>" for b
  proof -
    have b0: "0 \<le> b" using repr_abs [OF that(1)] .
    have "b\<^sup>2 \<le> (val x)\<^sup>2" using power_mono [OF that(3) b0, of 2] by simp
    then have "b\<^sup>2 \<le> val (x * x + z * z)" by (rule least [OF that(2)])
    then have "b \<le> sqrt (val (x * x + z * z))" by (rule real_le_rsqrt)
    then show ?thesis using rounds_least [OF rm _ that(1) fm] m0 s0 by simp
  qed
  have r65: "repr (65 / 64)" "repr ((65 / 64)\<^sup>2)"
    unfolding repr_def
    by (rule exI [of _ 65], rule exI [of _ "- 6"], simp add: powi_neg)
      (rule exI [of _ 4225], rule exI [of _ "- 12"], simp add: powi_neg power2_eq_square)
  show "\<bar>val x\<bar> < 65 / 64" if "val m \<le> 1"
  proof (rule ccontr)
    assume "\<not> \<bar>val x\<bar> < 65 / 64"
    then have "65 / 64 \<le> val m" using root [OF r65] by simp
    then show False using that by simp
  qed
  show "\<bar>val x\<bar> * (64 / 65) \<le> val m" if one: "1 \<le> \<bar>val x\<bar>"
  proof -
    let ?u = "1 - 1 / 2 ^ 24 :: real"
    have rel: "t * ?u \<le> val y" if "rounds t y" "fin y" "1 / 2 \<le> t" for t y
    proof -
      have "(2 :: real) powi (- 150) \<le> t / 2 ^ 24" using that(3) powi_mono [of "- 150" "- 25"] by (simp add: powi_neg)
      then have "\<bar>val y - t\<bar> \<le> t / 2 ^ 24" using rounds_error [OF that(1,2)] that(3) by (simp add: max_def split: if_splits)
      then have "t - t / 2 ^ 24 \<le> val y" by linarith
      then show ?thesis by (simp add: right_diff_distrib)
    qed
    have sq1: "1 \<le> (val x)\<^sup>2" using one power_mono [of 1 "\<bar>val x\<bar>" 2] by simp
    have 1: "(val x)\<^sup>2 * ?u \<le> val (x * x)" using rel [OF r(1) small_fin [OF sq(1)]] sq1 by (simp add: power2_eq_square)
    have half: "1 / 2 \<le> (val x)\<^sup>2 * ?u" using mult_right_mono [OF sq1, of ?u] by simp
    have 2: "(val (x * x) + val (z * z)) * ?u \<le> val (x * x + z * z)" using rel [OF r(2) small_fin [OF sum]] 1 half z0 by linarith
    have "(val x)\<^sup>2 * ?u * ?u \<le> (val (x * x) + val (z * z)) * ?u" using 1 z0 by (intro mult_right_mono) simp_all
    with 2 have "(\<bar>val x\<bar> * ?u)\<^sup>2 \<le> val (x * x + z * z)" by (simp add: power_mult_distrib power2_eq_square mult.assoc)
    then have 3: "\<bar>val x\<bar> * ?u \<le> sqrt (val (x * x + z * z))" by (rule real_le_rsqrt)
    have "1 / 2 \<le> \<bar>val x\<bar> * ?u" using mult_right_mono [OF one, of ?u] by simp
    then have "sqrt (val (x * x + z * z)) * ?u \<le> val m" using rel [OF rm fm] 3 by linarith
    moreover have "\<bar>val x\<bar> * ?u * ?u \<le> sqrt (val (x * x + z * z)) * ?u" using 3 by (intro mult_right_mono) simp_all
    moreover have "\<bar>val x\<bar> * (64 / 65) \<le> \<bar>val x\<bar> * (?u * ?u)" by (rule mult_left_mono) simp_all
    ultimately show ?thesis by (simp only: mult.assoc)
  qed
qed

lemma axis_count:
  assumes "small 2 x" "small 2 z"
  defines "m \<equiv> fsqrt (x * x + z * z)"
  shows "\<exists>k. lroundf ((if lit 1 1 < m then x / m else x) * lit 31 1) = Some k \<and> \<bar>k\<bar> \<le> 31"
proof -
  note len = axis_length [OF assms(1,2), folded m_def]
  define t where "t = (if lit 1 1 < m then x / m else x)"
  have r65: "repr (65 / 64)" "repr (2015 / 64)"
    unfolding repr_def
    by (rule exI [of _ 65], rule exI [of _ "- 6"], simp add: powi_neg)
      (rule exI [of _ 2015], rule exI [of _ "- 6"], simp add: powi_neg)
  have t: "fin t \<and> \<bar>val t\<bar> \<le> 65 / 64"
  proof (cases "lit 1 1 < m")
    case True
    then have m: "1 < val m" using less_val [of "lit 1 1" m] len(1) by simp
    have "\<bar>val x / val m\<bar> \<le> 65 / 64"
    proof (cases "1 \<le> \<bar>val x\<bar>")
      case True
      then show ?thesis using len(4) m by (simp add: abs_divide pos_divide_le_eq)
    next
      case False
      then have "\<bar>val x\<bar> \<le> 65 / 64 * val m" using m by simp
      then show ?thesis using m by (simp add: abs_divide pos_divide_le_eq)
    qed
    from rounds_bound [OF div_rounds [OF small_fin [OF assms(1)] len(1)] this r65(1)] show ?thesis using m True by (simp add: t_def)
  next
    case False
    then have "val m \<le> 1" using less_val [of "lit 1 1" m] len(1) by simp
    then show ?thesis using len(3) False small_fin [OF assms(1)] by (simp add: t_def less_imp_le)
  qed
  have "\<bar>val t * val (lit 31 1)\<bar> \<le> 2015 / 64" using t by (simp add: abs_mult)
  from rounds_bound [OF mul_rounds this r65(2)] have p: "fin (t * lit 31 1)" "\<bar>val (t * lit 31 1)\<bar> \<le> 2015 / 64" using t by simp_all
  have "\<lfloor>val (t * lit 31 1) + 1 / 2\<rfloor> \<le> 31" "\<lfloor>1 / 2 - val (t * lit 31 1)\<rfloor> \<le> 31" using p(2) by linarith+
  then show ?thesis unfolding t_def [symmetric] lroundf_val [OF p(1)] using p(2) by (auto simp: abs_le_iff) linarith+
qed

lemma fadd_commute: "x + y = y + (x :: f32)"
  by (cases x; cases y) (simp_all add: plus_f32_def Let_def min.commute add.commute conj_commute)

lemma counts_in_range:
  assumes "small 2 x" "small 2 z"
  shows "\<exists>sx sz. stick_counts (x, z) = Some (sx, sz) \<and> \<bar>sx\<bar> \<le> 31 \<and> \<bar>sz\<bar> \<le> 31"
proof -
  have comm: "fsqrt (z * z + x * x) = fsqrt (x * x + z * z)" by (simp only: fadd_commute)
  obtain sx where sx: "lroundf ((if lit 1 1 < fsqrt (x * x + z * z) then x / fsqrt (x * x + z * z) else x) * lit 31 1) = Some sx" "\<bar>sx\<bar> \<le> 31"
    using axis_count [OF assms] by blast
  obtain sz where sz: "lroundf ((if lit 1 1 < fsqrt (x * x + z * z) then z / fsqrt (x * x + z * z) else z) * lit 31 1) = Some sz" "\<bar>sz\<bar> \<le> 31"
    using axis_count [OF assms(2,1)] unfolding comm by blast
  have "stick_counts (x, z) = Some (sx, sz)"
    using sx(1) sz(1) by (cases "lit 1 1 < fsqrt (x * x + z * z)") (simp_all add: stick_counts_def Let_def)
  then show ?thesis using sx(2) sz(2) by blast
qed

lemma axes_small:
  assumes "trig_ok tg" "fin (cam_yaw c)" "small 1 in_x" "small 1 in_y"
  shows "small 2 (fst (stick_axes tg c in_x in_y))" "small 2 (snd (stick_axes tg c in_x in_y))"
proof -
  have tg: "small 0 (tr_sin tg (cam_yaw c))" "small 0 (tr_cos tg (cam_yaw c))" using assms(1,2) by (simp_all add: trig_ok_def)
  have neg: "- (- y) = (y :: f32)" for y by (cases y) (simp_all add: uminus_f32_def)
  have m: "small 1 (u * v)" if "small 0 u" "small 1 v" for u v using small_mul [OF that] by simp
  have "small (1 + 1) (x + y)" if "small 1 x" "small 1 y" for x y using small_add(1) [OF that] by simp
  then have s: "small 2 (x + y)" if "small 1 x" "small 1 y" for x y using that by simp
  show "small 2 (fst (stick_axes tg c in_x in_y))" "small 2 (snd (stick_axes tg c in_x in_y))"
    using tg assms(3,4) by (auto simp: stick_axes_def Let_def neg intro!: s m intro: small_mono)
qed

text \<open>What the two sticks can report: an axis of a gamepad and a pair of keys.\<close>

definition pad_axis :: "int \<Rightarrow> f32" where
  "pad_axis a = fint a / lit 32767 1"

lemma pad_axis_small: "- 32768 \<le> a \<Longrightarrow> a \<le> 32767 \<Longrightarrow> small 1 (pad_axis a)"
proof -
  assume a: "- 32768 \<le> a" "a \<le> 32767"
  have f: "fin (fint a)" "val (fint a) = of_int a" using fint_value [of a] a by simp_all
  have "\<bar>real_of_int a / val (lit 32767 1)\<bar> \<le> 2 powi 1" using a by (simp add: abs_divide)
  moreover have "rounds (real_of_int a / val (lit 32767 1)) (pad_axis a)"
    unfolding pad_axis_def using div_rounds [OF f(1), of "lit 32767 1"] f(2) by simp
  ultimately show ?thesis by (intro small_rounds [of "real_of_int a / val (lit 32767 1)"]) simp_all
qed

section \<open>Only values matter\<close>

lemma same_mul: "same x x' \<Longrightarrow> same y y' \<Longrightarrow> fin (x * y) \<Longrightarrow> same (x * y) (x' * y')"
  using mul_rounds [of x y] mul_rounds [of x' y'] rounds_same [of "val x * val y" "x * y" "x' * y'"] by (simp add: same_def)

lemma same_add: "same x x' \<Longrightarrow> same y y' \<Longrightarrow> fin (x + y) \<Longrightarrow> same (x + y) (x' + y')"
  using add_rounds [of x y] add_rounds [of x' y'] rounds_same [of "val x + val y" "x + y" "x' + y'"] by (simp add: same_def)

lemma same_div: "same x x' \<Longrightarrow> same y y' \<Longrightarrow> val y \<noteq> 0 \<Longrightarrow> fin (x / y) \<Longrightarrow> same (x / y) (x' / y')"
  using div_rounds [of x y] div_rounds [of x' y'] rounds_same [of "val x / val y" "x / y" "x' / y'"] by (simp add: same_def)

lemma same_sqrt: "same x x' \<Longrightarrow> 0 \<le> val x \<Longrightarrow> fin (fsqrt x) \<Longrightarrow> same (fsqrt x) (fsqrt x')"
  using sqrt_rounds [of x] sqrt_rounds [of x'] rounds_same [of "sqrt (val x)" "fsqrt x" "fsqrt x'"] by (simp add: same_def)

lemma same_refl: "fin x \<Longrightarrow> same x x"
  by (simp add: same_def)

lemma same_round: "same x x' \<Longrightarrow> lroundf x = lroundf x'"
  using lroundf_val [of x] lroundf_val [of x'] by (simp add: same_def)

lemma counts_same:
  assumes "small 2 x" "small 2 z" "same x x'" "same z z'"
  shows "stick_counts (x, z) = stick_counts (x', z')"
proof -
  have s': "small 2 x'" "small 2 z'" using assms by (simp_all add: same_def small_def)
  define m where "m = fsqrt (x * x + z * z)"
  define m' where "m' = fsqrt (x' * x' + z' * z')"
  have sq: "small 4 (x * x)" "small 4 (z * z)" using small_mul [OF assms(1,1)] small_mul [OF assms(2,2)] by simp_all
  have sum: "small 5 (x * x + z * z)" using small_add(1) [OF sq] by simp
  have nonneg: "0 \<le> val (x * x + z * z)"
    using rounds_sign(1) [OF add_rounds [OF small_fin [OF sq(1)] small_fin [OF sq(2)]] small_fin [OF sum]]
      rounds_sign(1) [OF mul_rounds [OF small_fin [OF assms(1)] small_fin [OF assms(1)]] small_fin [OF sq(1)]]
      rounds_sign(1) [OF mul_rounds [OF small_fin [OF assms(2)] small_fin [OF assms(2)]] small_fin [OF sq(2)]] by simp
  have mm: "same m m'"
    unfolding m_def m'_def using sq sum nonneg axis_length(1) [OF assms(1,2)] assms(3,4)
    by (intro same_sqrt same_add same_mul) (simp_all add: small_fin)
  have cut: "lit 1 1 < m \<longleftrightarrow> lit 1 1 < m'" using mm less_val [of "lit 1 1"] by (simp add: same_def)
  have one: "lroundf ((if lit 1 1 < m then t / m else t) * lit 31 1) = lroundf ((if lit 1 1 < m' then t' / m' else t') * lit 31 1)"
    if "same t t'" "lroundf ((if lit 1 1 < m then t / m else t) * lit 31 1) \<noteq> None" for t t'
  proof (rule same_round, rule same_mul [OF _ same_refl])
    show f: "fin ((if lit 1 1 < m then t / m else t) * lit 31 1)" using that(2) by (cases "(if lit 1 1 < m then t / m else t) * lit 31 1") simp_all
    show "same (if lit 1 1 < m then t / m else t) (if lit 1 1 < m' then t' / m' else t')"
    proof (cases "lit 1 1 < m")
      case True
      then have "val m \<noteq> 0" using mm less_val [of "lit 1 1" m] by (auto simp: same_def)
      moreover have "fin (t / m)" using f True by (cases "t / m"; cases "lit 31 1") (simp_all add: times_f32_def split: if_splits)
      ultimately show ?thesis using True cut that(1) mm by (simp add: same_div)
    qed (use cut that(1) in simp)
  qed simp
  have comm: "fsqrt (z * z + x * x) = m" by (simp only: fadd_commute m_def)
  have some: "lroundf ((if lit 1 1 < m then x / m else x) * lit 31 1) \<noteq> None" "lroundf ((if lit 1 1 < m then z / m else z) * lit 31 1) \<noteq> None"
    using axis_count [OF assms(1,2), folded m_def] axis_count [OF assms(2,1), unfolded comm] by auto
  show ?thesis
    using one [OF assms(3) some(1)] one [OF assms(4) some(2)] cut
    by (cases "lit 1 1 < m") (simp_all add: stick_counts_def Let_def flip: m_def m'_def)
qed

lemma rounds_repr:
  assumes "rounds x r" "fin r"
  shows "repr \<bar>val r\<bar>"
proof (cases "x = 0")
  case True
  then show ?thesis using assms repr_nat [of 0] by (simp add: rounds_def)
next
  case False
  then obtain e where e: "placed \<bar>x\<bar> e" "rnd \<bar>x\<bar> e < 2 ^ 128" "val r = sgn x * rnd \<bar>x\<bar> e"
    using assms by (auto simp: rounds_def split: if_splits)
  note b = rnd_small [OF e(1) abs_ge_zero]
  define k where "k = nearest (\<bar>x\<bar> / 2 powi e)"
  have k: "rnd \<bar>x\<bar> e = of_int k * 2 powi e" by (simp add: rnd_def k_def)
  have "0 \<le> k" using b(2) unfolding k using powi_pos [of e] by (simp add: zero_le_mult_iff del: powi_pos)
  have "real_of_int k \<le> 2 ^ 24" using b(1) unfolding k by (simp add: mult_le_cancel_right)
  then have "nat k \<le> 2 ^ 24" by (simp add: nat_le_iff)
  moreover have "\<bar>val r\<bar> = real (nat k) * 2 powi e" using e(3) b(2) False \<open>0 \<le> k\<close> unfolding k by (simp add: abs_mult)
  moreover have "\<bar>val r\<bar> < 2 ^ 128" using e(2,3) b(2) False by (simp add: abs_mult)
  moreover have "- 149 \<le> e" using e(1) by (simp add: placed_def)
  ultimately show ?thesis unfolding repr_def by (intro exI [of _ "nat k"] exI [of _ e]) simp
qed

text \<open>Facing along \<open>- Z\<close> the camera maps the stick the way the map view does.\<close>

lemma stick_at_rest:
  assumes "tr_sin tg (cam_yaw c) = f0" "tr_cos tg (cam_yaw c) = f1" "small 1 in_x" "small 1 in_y"
    and "repr \<bar>val in_x\<bar>" "repr \<bar>val in_y\<bar>"
  shows "vcam_stick_to_world tg c in_x in_y = stick_counts (in_x, - in_y)"
proof (cases "cam_mode c = VCAM_TOPDOWN")
  case False
  have nn: "- (- f1) = f1" by (simp add: fint_def float_defs bits.simps)
  have fx: "fin in_x" "fin in_y" using assms(3,4) small_fin by blast+
  have zero: "fin (f0 * y) \<and> val (f0 * y) = 0" if "fin y" for y
    using rounds_exact [OF mul_rounds [OF f0_value(1) that]] repr_nat [of 0] by simp
  have one: "fin (f1 * y) \<and> val (f1 * y) = val y" "fin (- f1 * y) \<and> val (- f1 * y) = - val y" if "fin y" "repr \<bar>val y\<bar>" for y
    using rounds_exact [OF mul_rounds [OF f1_value(1) that(1)]] rounds_exact [OF mul_rounds [of "- f1", OF _ that(1)]] that(2) by simp_all
  have plus: "fin (u + v) \<and> val (u + v) = y" if "fin u" "fin v" "val u + val v = y" "repr \<bar>y\<bar>" for u v y
    using rounds_exact [OF add_rounds [OF that(1,2)]] that(3,4) by simp
  have "same in_x (f1 * in_x + f0 * in_y)" "same (- in_y) (f0 * in_x + - f1 * in_y)"
    using plus [of "f1 * in_x" "f0 * in_y" "val in_x"] plus [of "f0 * in_x" "- f1 * in_y" "- val in_y"]
      zero one fx assms(5,6) by (simp_all add: same_def)
  moreover have "stick_axes tg c in_x in_y = (f1 * in_x + f0 * in_y, f0 * in_x + - f1 * in_y)"
    using False assms(1,2) nn by (simp add: stick_axes_def Let_def)
  ultimately show ?thesis
    unfolding vcam_stick_to_world_def using counts_same small_mono [OF assms(3), of 2] small_mono [OF assms(4), of 2] by simp
qed (simp add: vcam_stick_to_world_def stick_axes_def)

end
