(* ===== verification/Viewer_Input.thy ===== *)
theory Viewer_Input
  imports Viewer_Match Viewer_Cam_Facts
begin

text \<open>
  How the viewer reads a player (\<open>read_input\<close> of \<open>src/tools/viewer/viewer_main.c\<close>) down to what SDL
  reports: the axes of a gamepad, the keys, and the camera that turns the stick.  \<open>read_input\<close> of
  \<open>Viewer_Match\<close> takes the turned sticks as given; here they are computed, and the two agree.
\<close>

text \<open>A gamepad with the axes and buttons the code asks for, and the seven keys.\<close>

record RawPad =
  rp_left_x :: int
  rp_left_y :: int
  rp_south :: bool
  rp_west :: bool
  rp_east :: bool

record RawKeys =
  rk_w :: bool
  rk_a :: bool
  rk_s :: bool
  rk_d :: bool
  rk_space :: bool
  rk_lshift :: bool
  rk_e :: bool

definition raw_stick :: "(nat \<Rightarrow> RawPad) \<Rightarrow> RawKeys \<Rightarrow> Pads \<Rightarrow> nat \<Rightarrow> f32 \<times> f32" where
  "raw_stick pad k pads i =
     (case pads ! i of Some gp \<Rightarrow> (pad_axis (rp_left_x (pad gp)), - pad_axis (rp_left_y (pad gp)))
      | None \<Rightarrow> if keyboard_player pads = Some i
                then (fint ((if rk_d k then 1 else 0) - (if rk_a k then 1 else 0)),
                      fint ((if rk_w k then 1 else 0) - (if rk_s k then 1 else 0)))
                else (f0, f0))"

definition raw_buttons :: "(nat \<Rightarrow> RawPad) \<Rightarrow> RawKeys \<Rightarrow> Pads \<Rightarrow> nat \<Rightarrow> bool \<times> bool \<times> bool" where
  "raw_buttons pad k pads i =
     (case pads ! i of Some gp \<Rightarrow> (rp_south (pad gp), rp_west (pad gp), rp_east (pad gp))
      | None \<Rightarrow> if keyboard_player pads = Some i then (rk_space k, rk_lshift k, rk_e k) else (False, False, False))"

definition raw_input :: "Trig \<Rightarrow> ViewerCam \<Rightarrow> (nat \<Rightarrow> RawPad) \<Rightarrow> RawKeys \<Rightarrow> Pads \<Rightarrow> nat \<Rightarrow> ArenaInput option" where
  "raw_input tg c pad k pads i =
     (let (ix, iy) = raw_stick pad k pads i; (jump, bomb, st) = raw_buttons pad k pads i
      in do { (sx, sy) \<leftarrow> vcam_stick_to_world tg c ix iy; Some (arena_input_pack sx sy jump bomb st) })"

text \<open>The devices as \<open>Viewer_Match\<close> sees them.\<close>

definition turned :: "Trig \<Rightarrow> ViewerCam \<Rightarrow> f32 \<times> f32 \<Rightarrow> bool \<times> bool \<times> bool \<Rightarrow> Reading" where
  "turned tg c stick buttons =
     (let (sx, sy) = the (vcam_stick_to_world tg c (fst stick) (snd stick)) in (sx, sy, buttons))"

definition devices_of :: "Trig \<Rightarrow> ViewerCam \<Rightarrow> (nat \<Rightarrow> RawPad) \<Rightarrow> RawKeys \<Rightarrow> Devices" where
  "devices_of tg c pad k =
     \<lparr>dv_pad = (\<lambda>gp. turned tg c (pad_axis (rp_left_x (pad gp)), - pad_axis (rp_left_y (pad gp)))
                        (rp_south (pad gp), rp_west (pad gp), rp_east (pad gp))),
      dv_keys = turned tg c (fint ((if rk_d k then 1 else 0) - (if rk_a k then 1 else 0)),
                             fint ((if rk_w k then 1 else 0) - (if rk_s k then 1 else 0)))
                  (rk_space k, rk_lshift k, rk_e k)\<rparr>"

definition pad_range :: "RawPad \<Rightarrow> bool" where
  "pad_range p \<longleftrightarrow> - 32768 \<le> rp_left_x p \<and> rp_left_x p \<le> 32767 \<and> - 32768 \<le> rp_left_y p \<and> rp_left_y p \<le> 32767"

lemma fint_small: "i \<in> {- 1, 0, 1} \<Longrightarrow> small 1 (fint i)"
  by (rule small_fint) auto

lemma raw_stick_small:
  assumes "\<forall>j. pad_range (pad j)"
  shows "small 1 (fst (raw_stick pad k pads i))" "small 1 (snd (raw_stick pad k pads i))"
  using assms unfolding raw_stick_def pad_range_def
  by (auto split: option.splits intro!: pad_axis_small fint_small)

lemma stick_range:
  assumes "trig_ok tg" "cam_ok c" "small 1 ix" "small 1 iy"
  shows "\<exists>sx sy. vcam_stick_to_world tg c ix iy = Some (sx, sy) \<and> \<bar>sx\<bar> \<le> 31 \<and> \<bar>sy\<bar> \<le> 31"
proof -
  have "fin (cam_yaw c)" using assms(2) by (auto simp: cam_ok_def)
  note axes_small [OF assms(1) this assms(3,4)]
  from counts_in_range [OF this] show ?thesis by (simp add: vcam_stick_to_world_def)
qed

lemma idle_stick:
  assumes "trig_ok tg" "cam_ok c"
  shows "vcam_stick_to_world tg c f0 f0 = Some (0, 0)"
proof -
  have y: "fin (cam_yaw c)" using assms(2) by (auto simp: cam_ok_def)
  have tg: "fin (tr_sin tg (cam_yaw c))" "fin (tr_cos tg (cam_yaw c))"
    using assms(1) y by (auto simp: trig_ok_def small_def)
  have zero: "same (u * f0) f0" if "fin u" for u
    using rounds_exact [OF mul_rounds [OF that f0_value(1)]] repr_nat [of 0] by (simp add: same_def)
  have plus: "same (u + v) f0" if "same u f0" "same v f0" for u v
    using rounds_exact [OF add_rounds [of u v]] that repr_nat [of 0] by (simp add: same_def)
  obtain x z where xz: "stick_axes tg c f0 f0 = (x, z)" by fastforce
  have s: "same x f0" "same z f0"
    using xz tg by (auto simp: stick_axes_def Let_def same_refl split: if_splits intro!: plus zero) (auto simp: same_def)
  have sm: "small 2 x" "small 2 z" using s by (auto simp: same_def small_def)
  have "stick_counts (f0, f0) = Some (0, 0)"
    by (simp add: stick_counts_def float_defs bits.simps iroot.simps)
  then show ?thesis using counts_same [OF sm s] by (simp add: vcam_stick_to_world_def xz)
qed

lemma raw_input_agrees:
  assumes "trig_ok tg" "cam_ok c" "\<forall>j. pad_range (pad j)"
  shows "raw_input tg c pad k pads i = Some (read_input (devices_of tg c pad k) pads i)"
proof -
  obtain ix iy where st: "raw_stick pad k pads i = (ix, iy)" by fastforce
  have "small 1 ix" "small 1 iy" using raw_stick_small [OF assms(3), where k = k and pads = pads and i = i] by (simp_all add: st)
  then obtain sx sy where s: "vcam_stick_to_world tg c ix iy = Some (sx, sy)" using stick_range [OF assms(1,2)] by blast
  show ?thesis
    using s st idle_stick [OF assms(1,2)]
    by (cases "pads ! i")
      (auto simp: raw_input_def read_input_def raw_stick_def raw_buttons_def devices_of_def turned_def split: if_splits)
qed

text \<open>C29: Whatever SDL reports (axes over all of \<open>Sint16\<close>, any keys, any pads in any seats) and however the camera is
  turned, reading a player gives an input: the stick stays within the 31 counts the wire carries, so
  packing never clips it and the simulation decodes exactly the counts the camera computed; a player
  without a device is at rest; and the input is the one the match model reads.\<close>

theorem sticks_reach_the_match:
  assumes "trig_ok tg" and "cam_ok c" and "\<forall>j. pad_range (pad j)"
  shows "\<exists>sx sy. vcam_stick_to_world tg c (fst (raw_stick pad k pads i)) (snd (raw_stick pad k pads i)) = Some (sx, sy)
    \<and> \<bar>sx\<bar> \<le> 31 \<and> \<bar>sy\<bar> \<le> 31
    \<and> (\<exists>w. raw_input tg c pad k pads i = Some w \<and> arena_input_sx w = sx \<and> arena_input_sy w = sy
          \<and> (arena_input_jump w, arena_input_bomb w, arena_input_set w) = raw_buttons pad k pads i
          \<and> w = read_input (devices_of tg c pad k) pads i)
    \<and> (pads ! i = None \<and> keyboard_player pads \<noteq> Some i \<longrightarrow> sx = 0 \<and> sy = 0)"
proof -
  obtain ix iy j b st where rs: "raw_stick pad k pads i = (ix, iy)" "raw_buttons pad k pads i = (j, b, st)" by (metis prod.exhaust)
  have "small 1 ix" "small 1 iy" using raw_stick_small [OF assms(3), where k = k and pads = pads and i = i] by (simp_all add: rs)
  then obtain sx sy where s: "vcam_stick_to_world tg c ix iy = Some (sx, sy)" "\<bar>sx\<bar> \<le> 31" "\<bar>sy\<bar> \<le> 31"
    using stick_range [OF assms(1,2)] by blast
  have w: "raw_input tg c pad k pads i = Some (arena_input_pack sx sy j b st)" by (simp add: raw_input_def rs s)
  have clamp: "stick_clamp sx = sx" "stick_clamp sy = sy" using s(2,3) by (auto simp: stick_clamp_def AIN_STICK_MAX_def)
  have idle: "pads ! i = None \<and> keyboard_player pads \<noteq> Some i \<longrightarrow> sx = 0 \<and> sy = 0"
    using idle_stick [OF assms(1,2)] s(1) rs(1) by (auto simp: raw_stick_def)
  show ?thesis
    using s w idle raw_input_agrees [OF assms, where k = k and pads = pads and i = i]
    by (simp add: rs arena_input_roundtrip clamp)
qed

definition still_trig :: Trig where
  "still_trig = \<lparr>tr_sin = (\<lambda>_. f0), tr_cos = (\<lambda>_. f1), tr_tan = (\<lambda>_. f1)\<rparr>"

lemma still_trig_ok: "trig_ok still_trig"
  by (simp add: trig_ok_def still_trig_def small_def)

theorem sticks_reach_the_match_witness:
  "\<exists>w. raw_input still_trig vcam_init
      (\<lambda>_. \<lparr>rp_left_x = - 32768, rp_left_y = 32767, rp_south = True, rp_west = False, rp_east = True\<rparr>)
      \<lparr>rk_w = False, rk_a = False, rk_s = False, rk_d = False, rk_space = False, rk_lshift = False, rk_e = False\<rparr>
      [Some 7, None, None, None] 0 = Some w \<and> \<bar>arena_input_sx w\<bar> \<le> 31"
  using sticks_reach_the_match [OF still_trig_ok cam_init_ok,
      of "\<lambda>_. \<lparr>rp_left_x = - 32768, rp_left_y = 32767, rp_south = True, rp_west = False, rp_east = True\<rparr>"
        "\<lparr>rk_w = False, rk_a = False, rk_s = False, rk_d = False, rk_space = False, rk_lshift = False, rk_e = False\<rparr>"
        "[Some 7, None, None, None]" 0]
  by (auto simp: pad_range_def)

text \<open>At rest (facing along \<open>- Z\<close>, where the sine is 0 and the cosine 1) every camera mode maps a gamepad's
  stick exactly as the map view does: right is \<open>+ X\<close> and up is \<open>- Z\<close>, count for count.\<close>

theorem cameras_agree_at_rest:
  assumes "tr_sin tg (cam_yaw c) = f0" and "tr_cos tg (cam_yaw c) = f1"
    and "- 32768 \<le> ax" and "ax \<le> 32767" and "- 32768 \<le> ay" and "ay \<le> 32767"
  shows "vcam_stick_to_world tg c (pad_axis ax) (- pad_axis ay)
    = vcam_stick_to_world tg (c\<lparr>cam_mode := VCAM_TOPDOWN\<rparr>) (pad_axis ax) (- pad_axis ay)"
proof -
  have r: "repr \<bar>val (pad_axis a)\<bar>" if "- 32768 \<le> a" "a \<le> 32767" for a
  proof -
    have f: "fin (fint a)" using fint_value [of a] that by simp
    have "rounds (val (fint a) / val (lit 32767 1)) (pad_axis a)" unfolding pad_axis_def by (rule div_rounds [OF f]) simp_all
    then show ?thesis using rounds_repr small_fin [OF pad_axis_small [OF that]] by blast
  qed
  have s: "small 1 (pad_axis ax)" "small 1 (- pad_axis ay)" using assms by (simp_all add: pad_axis_small)
  show ?thesis
    using stick_at_rest [OF assms(1,2) s] stick_at_rest [of tg "c\<lparr>cam_mode := VCAM_TOPDOWN\<rparr>", OF _ _ s] r assms by simp
qed

theorem cameras_agree_at_rest_witness:
  "vcam_stick_to_world still_trig vcam_init (pad_axis 12000) (- pad_axis (- 32768))
    = vcam_stick_to_world still_trig (vcam_init\<lparr>cam_mode := VCAM_TOPDOWN\<rparr>) (pad_axis 12000) (- pad_axis (- 32768))"
  by (rule cameras_agree_at_rest) (simp_all add: still_trig_def)

text \<open>The camera's update always returns: the loops that bring an angle into \<open>[-pi, pi]\<close> end for every facing of the
  followed player, wherever it stands, and the camera stays well formed (its rig untouched, its yaw within
  the half turns, its eye and target finite), so this holds frame after frame.  In the
  chasing mode the yaw moves by the swing cap at most, in the fixed modes not at all.\<close>

theorem camera_always_follows:
  assumes "cam_ok c" and "trig_ok tg" and "is_i32 (vx p)" and "is_i32 (vy p)" and "is_i32 (vz p)"
  shows "\<exists>c' t. vcam_update tg (qf3 p) (VCAM_BINANG_TO_RAD yaw) c = Some c' \<and> cam_ok c' \<and> cam_mode c' = cam_mode c
    \<and> fin t \<and> \<bar>val t\<bar> \<le> val (lit 2 100)
    \<and> (cam_mode c = VCAM_ORBIT \<and> cam_yaw c' = f0 \<or> cam_yaw c' = cam_yaw c
       \<or> cam_mode c = VCAM_CHASE \<and> wrap_pi (cam_yaw c + t) = Some (cam_yaw c'))"
  by (rule update_ok [OF assms(1,2)]) (simp add: qf3_def small_QF assms)

lemma cam_ok_mode:
  assumes "cam_ok c" shows "cam_ok (c\<lparr>cam_mode := m\<rparr>)"
proof -
  obtain y m0 p t where c: "c = vcam_init\<lparr>cam_yaw := y, cam_mode := m0, cam_pos := p, cam_target := t\<rparr>"
    "fin y" "\<bar>val y\<bar> \<le> val PIF" "near_vec 20 p" "near_vec 20 t" using assms by (auto simp: cam_ok_def)
  then show ?thesis unfolding cam_ok_def
    by (intro exI [of _ y] exI [of _ m] exI [of _ p] exI [of _ t]) simp
qed

theorem camera_always_follows_witness:
  "\<exists>c'. vcam_update still_trig (qf3 \<lparr>vx = 32426, vy = 0, vz = - 32426\<rparr>) (VCAM_BINANG_TO_RAD 40000)
      (vcam_init\<lparr>cam_mode := VCAM_CHASE\<rparr>) = Some c' \<and> cam_ok c'"
  using camera_always_follows [OF cam_ok_mode [OF cam_init_ok] still_trig_ok, of "\<lparr>vx = 32426, vy = 0, vz = - 32426\<rparr>" 40000 VCAM_CHASE]
  by (simp add: is_i32_def) blast

end
