(* ===== verification/Viewer_Scene.thy ===== *)
theory Viewer_Scene
  imports Viewer_Draw Viewer_Input Sim_Rounds
begin

text \<open>
  What the drawing guarantees: every loop of a frame ends and the painter list never fills, the depths it
  sorts by are numbers, so that the order of painting does not depend on how \<open>qsort\<close> works, and the
  walls drawn are those of the simulation.
\<close>

section \<open>States that can be drawn\<close>

definition drawable :: "ArenaState \<Rightarrow> bool" where
  "drawable s \<longleftrightarrow> state_ok s \<and> unat (st_arena_id s) < ARENA_GEOM_COUNT \<and> unat (st_shrink_step s) \<le> 96
     \<and> unat (st_num_players s) \<le> ARENA_MAX_PLAYERS"

section \<open>Comparing reals with their roundings\<close>

lemma rounds_ge:
  assumes "rounds x r" "fin r" "b \<le> x" "repr \<bar>b\<bar>"
  shows "b \<le> val r"
proof (cases "0 \<le> b")
  case True
  then show ?thesis using rounds_least [OF assms(1), of b] rounds_sign(1) [OF assms(1,2)] assms by simp
next
  case False
  show ?thesis
  proof (cases "0 \<le> x")
    case True
    then show ?thesis using False rounds_sign(1) [OF assms(1,2)] by simp
  next
    case neg: False
    then have "\<bar>x\<bar> \<le> \<bar>b\<bar>" using assms(3) by simp
    from rounds_bound [OF assms(1) this assms(4)] show ?thesis using False by (simp add: abs_le_iff)
  qed
qed

lemma rounds_neg: "rounds x r \<Longrightarrow> fin r \<Longrightarrow> x \<le> b \<Longrightarrow> repr \<bar>b\<bar> \<Longrightarrow> val r \<le> b"
proof (cases "b \<le> 0")
  case True
  assume r: "rounds x r" "fin r" "x \<le> b" "repr \<bar>b\<bar>"
  then have "\<bar>b\<bar> \<le> \<bar>val r\<bar>" using True by (intro rounds_least [OF r(1) _ r(4,2)]) simp
  then show ?thesis using rounds_sign(2) [OF r(1,2)] True r(3) by simp
next
  case False
  assume r: "rounds x r" "fin r" "x \<le> b" "repr \<bar>b\<bar>"
  show ?thesis
  proof (cases "x \<le> 0")
    case True
    then show ?thesis using False rounds_sign(2) [OF r(1,2)] by simp
  next
    case pos: False
    then have "\<bar>x\<bar> \<le> \<bar>b\<bar>" using r(3) by simp
    from rounds_bound [OF r(1) this r(4)] show ?thesis using False by (simp add: abs_le_iff)
  qed
qed

lemma repr_int: "\<bar>i\<bar> \<le> 2 ^ 24 \<Longrightarrow> repr \<bar>real_of_int i\<bar>"
  using repr_nat [of "nat \<bar>i\<bar>"] by (simp add: nat_le_iff)

lemmas rounds_ge_int = rounds_ge [where b = "real_of_int i" for i, OF _ _ _ repr_int]
lemmas rounds_le_int = rounds_neg [where b = "real_of_int i" for i, OF _ _ _ repr_int]

text \<open>A float between two integers.\<close>

definition between :: "int \<Rightarrow> int \<Rightarrow> f32 \<Rightarrow> bool" where
  "between i j x \<longleftrightarrow> fin x \<and> of_int i \<le> val x \<and> val x \<le> of_int j"

lemma between_fin: "between i j x \<Longrightarrow> fin x"
  by (simp add: between_def)

lemma between_mono: "between i j x \<Longrightarrow> i' \<le> i \<Longrightarrow> j \<le> j' \<Longrightarrow> between i' j' x"
  by (simp add: between_def)

lemma between_rounds:
  assumes "rounds x r" "of_int i \<le> x" "x \<le> of_int j" "\<bar>i\<bar> \<le> 2 ^ 24" "\<bar>j\<bar> \<le> 2 ^ 24"
  shows "between i j r"
proof -
  have "\<bar>x\<bar> \<le> 2 ^ 24"
  proof -
    have "real_of_int i \<ge> - (2 ^ 24)" "real_of_int j \<le> 2 ^ 24" using assms(4,5) by (simp_all add: abs_le_iff)
    then show ?thesis using assms(2,3) by (simp add: abs_le_iff)
  qed
  then have "fin r" using rounds_bound(1) [OF assms(1), of "2 ^ 24"] repr_nat [of "2 ^ 24"] by simp
  then show ?thesis
    using rounds_ge_int [OF assms(1) _ assms(2,4)] rounds_le_int [OF assms(1) _ assms(3,5)] by (simp add: between_def)
qed

lemma between_small: "between i j x \<Longrightarrow> - (2 ^ 20) \<le> i \<Longrightarrow> j \<le> 2 ^ 20 \<Longrightarrow> small 20 x"
  by (simp add: between_def small_def abs_le_iff)

section \<open>Strips\<close>

lemma strips_returns:
  assumes "seg = lit k 1" "1 \<le> k" "k \<le> 3" "fin hi" "val hi \<le> 9"
  shows "between i 9 x \<Longrightarrow> 9 \<le> i + int (k * n) \<Longrightarrow> - 16 \<le> i \<Longrightarrow>
    \<exists>ps. strips seg hi x = Some ps \<and> length ps \<le> n \<and> (\<forall>(a, b) \<in> set ps. between (- 16) 12 a \<and> between (- 16) 12 b)"
proof (induction n arbitrary: x i)
  case 0
  then have "\<not> x < hi" using less_val [of x hi] assms(4,5) by (simp add: between_def)
  then show ?case by (simp add: strips.simps)
next
  case (Suc n)
  show ?case
  proof (cases "x < hi")
    case True
    have sv: "fin seg" "val seg = real k" using assms(1,3) by simp_all
    have lo: "real_of_int (i + int k) \<le> val x + val seg" "val x + val seg \<le> real_of_int 12"
      using Suc.prems(1) assms(3) by (simp_all add: between_def sv)
    have "\<bar>i + int k\<bar> \<le> 2 ^ 24" using Suc.prems assms(2,3) by (simp add: between_def) linarith
    then have nxt: "between (i + int k) 12 (x + seg)"
      using between_rounds [OF add_rounds [OF between_fin [OF Suc.prems(1)] sv(1)] lo] by simp
    define e where "e = (if hi < x + seg then hi else x + seg)"
    have "fin (x + seg)" using nxt by (rule between_fin)
    have hix: "val x < val hi" using True less_val [OF between_fin [OF Suc.prems(1)] assms(4)] by simp
    have e: "between (- 16) 12 e" "between (- 16) 12 x"
      using nxt Suc.prems assms(2-5) hix by (auto simp: e_def between_def)
    have "\<exists>ps. strips seg hi (x + seg) = Some ps \<and> length ps \<le> n \<and> (\<forall>(a, b) \<in> set ps. between (- 16) 12 a \<and> between (- 16) 12 b)"
    proof (cases "x + seg < hi")
      case True
      then have "between (i + int k) 9 (x + seg)"
        using nxt less_val [OF \<open>fin (x + seg)\<close> assms(4)] assms(5) by (simp add: between_def)
      then show ?thesis using Suc.prems assms(2) by (intro Suc.IH [where i = "i + int k"]) (simp_all add: algebra_simps)
    next
      case False
      then show ?thesis by (simp add: strips.simps)
    qed
    then show ?thesis using True e by (auto simp: strips.simps [of seg hi x] e_def [symmetric])
  next
    case False
    then show ?thesis by (simp add: strips.simps)
  qed
qed

section \<open>The painter list\<close>

text \<open>Numbered by its indices, and every depth a number.\<close>

definition sound :: "Drawable list \<Rightarrow> bool" where
  "sound ds \<longleftrightarrow> map dr_seq ds = [0..<length ds] \<and> (\<forall>d \<in> set ds. fin (dr_depth d))"

definition lens_ok :: "Lens \<Rightarrow> bool" where
  "lens_ok lens \<longleftrightarrow> near_vec 20 (cam_pos (ln_cam lens)) \<and> near_vec 20 (cam_target (ln_cam lens))"

lemma lens_cam: "cam_ok (ln_cam lens) \<Longrightarrow> lens_ok lens"
  by (auto simp: cam_ok_def lens_ok_def)

lemma sound_nil [simp]: "sound []"
  by (simp add: sound_def)

lemma sound_snoc: "sound ds \<Longrightarrow> fin x \<Longrightarrow> sound (ds @ [\<lparr>dr_seq = length ds, dr_depth = x, dr_col = c, dr_shape = sh\<rparr>])"
  by (auto simp: sound_def)

lemma project_small: "lens_ok lens \<Longrightarrow> near_vec 20 p \<Longrightarrow> project lens p = Some (sx, sy, d) \<Longrightarrow> small 64 d"
  unfolding project_def lens_ok_def using project_depth by blast

lemma sound_face:
  assumes "lens_ok lens" "near_vec 20 a" "near_vec 20 b" "near_vec 20 c" "near_vec 20 d" "sound ds"
  shows "sound (add_face lens a b c d col ds)"
proof -
  have "fin ((f0 + ad + bd + cd + dd) * lit 25 100)"
    if "small 64 ad" "small 64 bd" "small 64 cd" "small 64 dd" for ad bd cd dd
  proof -
    have 1: "small 65 (f0 + ad)" using small_add(1) [of 64 f0 ad] that by simp
    have 2: "small 66 (f0 + ad + bd)" using small_add(1) [OF 1 small_mono [OF that(2)]] by simp
    have 3: "small 67 (f0 + ad + bd + cd)" using small_add(1) [OF 2 small_mono [OF that(3)]] by simp
    have 4: "small 68 (f0 + ad + bd + cd + dd)" using small_add(1) [OF 3 small_mono [OF that(4)]] by simp
    have "small 0 (lit 25 100)" by (rule small_lit) simp_all
    from small_mul [OF 4 this] show ?thesis by (simp add: small_def)
  qed
  then show ?thesis
    unfolding add_face_def Let_def using assms project_small [OF assms(1)]
    by (auto split: option.splits intro!: sound_snoc)
qed

lemma sound_box:
  assumes "lens_ok lens" "near_vec 20 mn" "near_vec 20 mx" "sound ds"
  shows "sound (add_box lens mn mx col ds)"
  unfolding add_box_def Let_def using assms by (intro sound_face) (simp_all add: near_vec_def)

lemma sound_circle:
  assumes "lens_ok lens" "near_vec 20 p" "small 20 bias" "sound ds"
  shows "sound (add_circle lens p r col bias ds)"
proof -
  have "fin (dep + bias)" if "small 64 dep" for dep
    using small_add(1) [OF that small_mono [OF assms(3), of 64]] by (simp add: small_def)
  then show ?thesis
    unfolding add_circle_def Let_def using assms project_small [OF assms(1,2)]
    by (auto split: option.splits intro!: sound_snoc)
qed

section \<open>Capacity\<close>

lemma length_face: "length (add_face lens a b c d col ds) \<le> length ds + 1"
  by (auto simp: add_face_def Let_def split: option.splits)

lemma length_box: "length (add_box lens mn mx col ds) \<le> length ds + 5"
proof -
  have "length (add_face lens a b c d col e) \<le> n + 1" if "length e \<le> n" for a b c d e n
    using length_face [of lens a b c d col e] that by linarith
  note five = this [OF this [OF this [OF this [OF this [OF order_refl]]]]]
  show ?thesis unfolding add_box_def Let_def by (rule order_trans [OF five]) simp
qed

lemma length_circle: "length (add_circle lens p r col bias ds) \<le> length ds + 1"
  by (auto simp: add_circle_def Let_def split: option.splits)

lemma length_fold:
  assumes "\<And>x ds. x \<in> set xs \<Longrightarrow> length (f x ds) \<le> length ds + k"
  shows "length (fold f xs ds) \<le> length ds + k * length xs"
  using assms
proof (induction xs arbitrary: ds)
  case (Cons x xs)
  have "length (fold f xs (f x ds)) \<le> length (f x ds) + k * length xs" using Cons by simp
  also have "\<dots> \<le> length ds + k + k * length xs" using Cons.prems by simp
  finally show ?case by simp
qed simp

section \<open>Boxes in strips\<close>

definition in_room :: "f32 \<Rightarrow> bool" where
  "in_room x \<longleftrightarrow> between (- 9) 9 x"

lemma room_small: "in_room x \<Longrightarrow> small 20 x"
  using between_small [of "- 9" 9 x] by (simp add: in_room_def)

lemma split_returns:
  assumes "lens_ok lens" "in_room (v_x mn)" "in_room (v_y mn)" "in_room (v_z mn)" "in_room (v_x mx)" "in_room (v_y mx)" "in_room (v_z mx)"
    and "sound ds"
  shows "\<exists>ds'. add_box_split lens mn mx col ds = Some ds' \<and> sound ds' \<and> length ds' \<le> length ds + 30"
proof -
  have strip: "\<exists>ps. strips (lit 3 1) hi x = Some ps \<and> length ps \<le> 6 \<and> (\<forall>(a, b) \<in> set ps. small 20 a \<and> small 20 b)"
    if "in_room x" "in_room hi" for x hi
  proof -
    have h: "fin hi" "val hi \<le> 9" "between (- 9) 9 x" using that by (simp_all add: in_room_def between_def)
    obtain ps where ps: "strips (lit 3 1) hi x = Some ps" "length ps \<le> 6" "\<forall>(a, b) \<in> set ps. between (- 16) 12 a \<and> between (- 16) 12 b"
      using strips_returns [OF refl, of 3 hi "- 9" x 6] h by auto
    then show ?thesis using between_small [of "- 16" 12] by fastforce
  qed
  have sm: "small 20 (v_x mn)" "small 20 (v_y mn)" "small 20 (v_z mn)" "small 20 (v_x mx)" "small 20 (v_y mx)" "small 20 (v_z mx)"
    using assms room_small by blast+
  have use_strips: "sound (fold f ps ds) \<and> length (fold f ps ds) \<le> length ds + 30"
    if "\<And>p e. p \<in> set ps \<Longrightarrow> sound e \<Longrightarrow> sound (f p e)" "\<And>p e. length (f p e) \<le> length e + 5" "length ps \<le> 6" for f and ps :: "(f32 \<times> f32) list"
  proof -
    have "length (fold f ps ds) \<le> length ds + 5 * length ps" by (rule length_fold) (rule that(2))
    moreover have "sound (fold f ps ds)" by (rule fold_invariant [where Q = "\<lambda>p. p \<in> set ps"]) (use that(1) assms(8) in auto)
    ultimately show ?thesis using that(3) by linarith
  qed
  show ?thesis
  proof (cases "v_z mx - v_z mn \<le> v_x mx - v_x mn")
    case True
    obtain ps where ps: "strips (lit 3 1) (v_x mx) (v_x mn) = Some ps" "length ps \<le> 6" "\<forall>(a, b) \<in> set ps. small 20 a \<and> small 20 b"
      using strip [OF assms(2,5)] by blast
    show ?thesis
      unfolding add_box_split_def using True ps(1)
      by (simp, intro use_strips) (use ps sm assms(1) in \<open>auto intro!: sound_box length_box\<close>)
  next
    case False
    obtain ps where ps: "strips (lit 3 1) (v_z mx) (v_z mn) = Some ps" "length ps \<le> 6" "\<forall>(a, b) \<in> set ps. small 20 a \<and> small 20 b"
      using strip [OF assms(4,7)] by blast
    show ?thesis
      unfolding add_box_split_def using False ps(1)
      by (simp, intro use_strips) (use ps sm assms(1) in \<open>auto intro!: sound_box length_box\<close>)
  qed
qed

section \<open>The layers of a frame\<close>

lemma between_lit: "0 < q \<Longrightarrow> real p \<le> of_int j * real q \<Longrightarrow> 0 \<le> j \<Longrightarrow> j \<le> 2 ^ 24 \<Longrightarrow> between 0 j (lit p q)"
  by (rule between_rounds [OF lit_rounds]) (simp_all add: pos_divide_le_eq)

lemma QF_between: "0 \<le> v \<Longrightarrow> v \<le> 32768 \<Longrightarrow> between 0 8 (QF v)"
proof -
  assume v: "0 \<le> v" "v \<le> 32768"
  have f: "fin (fint v)" "val (fint v) = of_int v" using fint_value [of v] v by simp_all
  have "rounds (of_int v / 4096) (QF v)" unfolding QF_def using div_rounds [OF f(1), of "lit 4096 1"] f(2) by simp
  then show ?thesis by (rule between_rounds) (use v in simp_all)
qed

lemma full_between:
  assumes "drawable s"
  shows "between 0 8 (QF (half_x (arena_geoms ! unat (st_arena_id s))))" "between 0 8 (QF (half_z (arena_geoms ! unat (st_arena_id s))))"
  using assms geom_half [of s] by (auto simp: drawable_def geom_of_def intro!: QF_between)

lemma shrink_rate: "between 0 1 (lit 3 100)" "val (lit 3 100) \<le> 1 / 32"
proof -
  show b: "between 0 1 (lit 3 100)" by (rule between_lit) simp_all
  have r: "rounds (3 / 100) (lit 3 100)" using lit_rounds [of 100 3] by simp
  show "val (lit 3 100) \<le> 1 / 32"
    using rounds_neg [OF r between_fin [OF b], of "1 / 32"] repr_powi [of "- 5"] by (simp add: powi_neg)
qed

lemma shrink_between:
  assumes "0 \<le> k" "k \<le> 96"
  shows "between 0 3 (fint k * lit 3 100)"
proof -
  have f: "fin (fint k)" "val (fint k) = of_int k" using fint_value [of k] assms by simp_all
  have l: "0 \<le> val (lit 3 100)" using shrink_rate(1) by (simp add: between_def)
  have "real_of_int k * val (lit 3 100) \<le> 96 * (1 / 32)" using assms l shrink_rate(2) by (intro mult_mono) simp_all
  then show ?thesis using mul_rounds [OF f(1) between_fin [OF shrink_rate(1)]] f(2) assms l by (intro between_rounds) simp_all
qed

lemma shrink_range: "drawable s \<Longrightarrow> 0 \<le> uint (st_shrink_step s) \<and> uint (st_shrink_step s) \<le> 96"
  using of_nat_unat [of "st_shrink_step s", where 'a = int] unfolding drawable_def by linarith

lemma extent_between:
  assumes "drawable s" "between 0 8 full"
  shows "between (- 3) 8 (wall_extent s full)"
proof -
  note k = shrink_between [OF conjunct1 [OF shrink_range [OF assms(1)]] conjunct2 [OF shrink_range [OF assms(1)]]]
  have "between (- 3) 8 (full - fint (uint (st_shrink_step s)) * lit 3 100)"
    by (rule between_rounds [OF sub_rounds]) (use assms(2) k in \<open>simp_all add: between_def\<close>)
  then show ?thesis using between_mono [OF assms(2), of "- 3" 8] by (simp add: wall_extent_def)
qed

lemma walls_return:
  assumes "lens_ok lens" "between (- 3) 8 ext_x" "between (- 3) 8 ext_z"
  shows "\<exists>ds. add_walls lens col ext_x ext_z [] = Some ds \<and> sound ds \<and> length ds \<le> 120"
proof -
  have wt: "between 0 1 (lit 20 100)" by (rule between_lit) simp_all
  have wh: "in_room (lit 12 10)" unfolding in_room_def by (rule between_mono [OF between_lit [of 10 12 2]]) simp_all
  have z: "in_room f0" by (simp add: in_room_def between_def)
  have e: "in_room e" "in_room (- e)" if "between (- 3) 8 e" for e using that by (auto simp: in_room_def between_def)
  have o: "in_room (e + lit 20 100)" "in_room (- e - lit 20 100)" if "between (- 3) 8 e" for e
  proof -
    show "in_room (e + lit 20 100)" unfolding in_room_def
      by (rule between_rounds [OF add_rounds]) (use that wt in \<open>simp_all add: between_def\<close>)
    show "in_room (- e - lit 20 100)" unfolding in_room_def
      by (rule between_rounds [OF sub_rounds]) (use that wt in \<open>simp_all add: between_def\<close>)
  qed
  note room = e [OF assms(2)] e [OF assms(3)] o [OF assms(2)] o [OF assms(3)] wh z
  note split = split_returns [OF assms(1)]
  obtain d1 where 1: "add_box_split lens (vec3 (- ext_x - lit 20 100) f0 (- ext_z - lit 20 100)) (vec3 (ext_x + lit 20 100) (lit 12 10) (- ext_z)) col [] = Some d1"
    "sound d1" "length d1 \<le> 30"
    using split [of "vec3 (- ext_x - lit 20 100) f0 (- ext_z - lit 20 100)" "vec3 (ext_x + lit 20 100) (lit 12 10) (- ext_z)" "[]" col] room by auto
  obtain d2 where 2: "add_box_split lens (vec3 (- ext_x - lit 20 100) f0 ext_z) (vec3 (ext_x + lit 20 100) (lit 12 10) (ext_z + lit 20 100)) col d1 = Some d2"
    "sound d2" "length d2 \<le> length d1 + 30"
    using split [of "vec3 (- ext_x - lit 20 100) f0 ext_z" "vec3 (ext_x + lit 20 100) (lit 12 10) (ext_z + lit 20 100)" d1 col] room 1 by auto
  obtain d3 where 3: "add_box_split lens (vec3 (- ext_x - lit 20 100) f0 (- ext_z)) (vec3 (- ext_x) (lit 12 10) ext_z) col d2 = Some d3"
    "sound d3" "length d3 \<le> length d2 + 30"
    using split [of "vec3 (- ext_x - lit 20 100) f0 (- ext_z)" "vec3 (- ext_x) (lit 12 10) ext_z" d2 col] room 2 by auto
  obtain d4 where 4: "add_box_split lens (vec3 ext_x f0 (- ext_z)) (vec3 (ext_x + lit 20 100) (lit 12 10) ext_z) col d3 = Some d4"
    "sound d4" "length d4 \<le> length d3 + 30"
    using split [of "vec3 ext_x f0 (- ext_z)" "vec3 (ext_x + lit 20 100) (lit 12 10) ext_z" d3 col] room 3 by auto
  have "add_walls lens col ext_x ext_z [] = Some d4" by (simp add: add_walls_def Let_def 1 2 3 4)
  then show ?thesis using 1 2 3 4 by simp
qed

lemma qf3_near: "vec_ok v \<Longrightarrow> near_vec 19 (qf3 v)"
  by (simp add: qf3_def vec_ok_def small_QF)

lemma raised_near: "near_vec 19 p \<Longrightarrow> small 19 y \<Longrightarrow> near_vec 20 (vec3 (v_x p) (v_y p + y) (v_z p))"
  using small_add(1) [of 19 "v_y p" y] small_mono [of 19 _ 20] by (simp add: near_vec_def)

lemma ground_near: "near_vec 19 p \<Longrightarrow> small 19 y \<Longrightarrow> near_vec 20 (vec3 (v_x p) y (v_z p))"
  using small_mono [of 19 _ 20] by (simp add: near_vec_def)

lemma small_cents: "p \<le> 100 \<Longrightarrow> small 19 (lit p 100)" "p \<le> 100 \<Longrightarrow> small 20 (lit p 100)" "p \<le> 10 \<Longrightarrow> small 19 (lit p 10)"
  by (rule small_lit; simp)+

lemma player_drawn:
  assumes "lens_ok lens" "player_ok p" "sound ds"
  shows "sound (add_player lens tick i p ds)"
proof -
  have "near_vec 19 (qf3 (pl_pos p))" using assms(2) by (simp add: player_ok_def qf3_near)
  then show ?thesis
    unfolding add_player_def Let_def using assms(1,3)
    by (auto simp del: near_vec3 intro!: sound_circle raised_near ground_near [OF _ small_cents(1)] small_cents)
qed

lemma bomb_drawn:
  assumes "lens_ok lens" "bomb_ok b" "sound ds"
  shows "sound (add_bomb lens b ds)"
proof -
  have "near_vec 19 (qf3 (bm_pos b))" using assms(2) by (simp add: bomb_ok_def qf3_near)
  then show ?thesis
    unfolding add_bomb_def Let_def using assms(1,3)
    by (auto simp del: near_vec3 intro!: sound_circle raised_near ground_near [OF _ small_cents(1)] small_cents)
qed

lemma blast_drawn:
  assumes "lens_ok lens" "vec_ok (bl_center b)" "sound ds"
  shows "sound (add_blast lens b ds)"
proof -
  have "near_vec 19 (qf3 (bl_center b))" using assms(2) by (simp add: qf3_near)
  then show ?thesis
    unfolding add_blast_def Let_def using assms(1,3)
    by (auto simp del: near_vec3 intro!: sound_circle raised_near small_cents)
qed

lemma two_circles: "length e \<le> length ds + 1 \<Longrightarrow> length (add_circle lens p r col bias e) \<le> length ds + 2"
  using length_circle [of lens p r col bias e] by linarith

lemma entity_counts:
  "length (add_player lens tick i p ds) \<le> length ds + 2" "length (add_bomb lens b ds) \<le> length ds + 2"
  "length (add_blast lens bl ds) \<le> length ds + 1"
proof -
  show "length (add_player lens tick i p ds) \<le> length ds + 2"
    unfolding add_player_def Let_def using length_circle by (intro two_circles) simp
  show "length (add_bomb lens b ds) \<le> length ds + 2"
  proof (cases "bm_state b = BSTATE_FREE \<or> bm_state b = BSTATE_EXPLODING")
    case False
    show ?thesis unfolding add_bomb_def Let_def if_not_P [OF False] using length_circle by (intro two_circles) simp
  qed (auto simp: add_bomb_def)
  show "length (add_blast lens bl ds) \<le> length ds + 1"
    unfolding add_blast_def Let_def using length_circle by simp
qed

lemma entities_drawn:
  assumes "lens_ok lens" "drawable s" "sound ds"
  shows "sound (add_entities lens s ds)" and "length (add_entities lens s ds) \<le> length ds + 56"
proof -
  have ok: "player_ok (player s i)" if "i < unat (st_num_players s)" for i
    using assms(2) that by (auto simp: drawable_def state_ok_def list_all_length arena_sizes)
  have okb: "bomb_ok (bomb s i)" "vec_ok (bl_center (blast s i))" if "i < 16" for i
    using assms(2) that by (auto simp: drawable_def state_ok_def list_all_length arena_sizes)
  define d1 where "d1 = fold (\<lambda>i. add_player lens (st_tick s) i (player s i)) [0..<unat (st_num_players s)] ds"
  define d2 where "d2 = fold (\<lambda>i. add_bomb lens (bomb s i)) [0..<ARENA_MAX_BOMBS] d1"
  have all: "add_entities lens s ds = fold (\<lambda>i. add_blast lens (blast s i)) [0..<ARENA_MAX_BLASTS] d2"
    by (simp add: add_entities_def d1_def d2_def)
  have "sound d1" unfolding d1_def
    by (rule fold_invariant [where Q = "\<lambda>i. i < unat (st_num_players s)"]) (use assms ok player_drawn in auto)
  then have "sound d2" unfolding d2_def
    by (intro fold_invariant [where Q = "\<lambda>i. i < 16" and P = sound]) (use assms(1) okb bomb_drawn in \<open>auto simp: arena_sizes\<close>)
  then show "sound (add_entities lens s ds)" unfolding all
    by (intro fold_invariant [where Q = "\<lambda>i. i < 16" and P = sound]) (use assms(1) okb blast_drawn in \<open>auto simp: arena_sizes\<close>)
  have "length d1 \<le> length ds + 2 * length [0..<unat (st_num_players s)]"
    "length d2 \<le> length d1 + 2 * length [0..<ARENA_MAX_BOMBS]"
    "length (add_entities lens s ds) \<le> length d2 + 1 * length [0..<ARENA_MAX_BLASTS]"
    unfolding all d1_def d2_def by (rule length_fold, rule entity_counts)+
  then show "length (add_entities lens s ds) \<le> length ds + 56" using assms(2) by (simp add: drawable_def arena_sizes)
qed

lemma pillar_near:
  assumes "i < 2" "b \<in> set (pillars (arena_geoms ! i))"
  shows "near_vec 20 (qf3 (bmin b))" "near_vec 20 (qf3 (bmax b))"
proof -
  have "b \<in> set classic_pillars" using assms arena_geoms_cases [of i] by auto
  then have "vec_ok (bmin b)" "vec_ok (bmax b)" by (auto simp: classic_pillars_def vec_ok_def is_i32_def Qc_def Q_ONE_def tdiv_def)
  then show "near_vec 20 (qf3 (bmin b))" "near_vec 20 (qf3 (bmax b))"
    using qf3_near small_mono [of 19 _ 20] by (auto simp: near_vec_def)
qed

lemma scene_returns:
  assumes "lens_ok lens" "drawable s" "between (- 3) 8 ext_x" "between (- 3) 8 ext_z"
  shows "\<exists>ds. scene_layer lens s ext_x ext_z = Some ds \<and> sound ds \<and> length ds \<le> 196"
proof -
  define ps where "ps = pillars (arena_geoms ! unat (st_arena_id s))"
  define box where "box = (\<lambda>b :: Aabb. add_box lens (qf3 (bmin b)) (qf3 (bmax b)) (cents 42 40 36 100))"
  have i: "unat (st_arena_id s) < 2" using assms(2) by (simp add: drawable_def arena_geom_count)
  obtain w where w: "add_walls lens (wall_color s) ext_x ext_z [] = Some w" "sound w" "length w \<le> 120"
    using walls_return [OF assms(1,3,4)] by blast
  have "sound (fold box ps w)"
    by (rule fold_invariant [where Q = "\<lambda>b. b \<in> set ps"])
      (use w(2) assms(1) pillar_near [OF i] in \<open>auto simp: ps_def box_def intro!: sound_box\<close>)
  moreover have "length (fold box ps w) \<le> length w + 5 * length ps" by (rule length_fold) (simp add: box_def length_box)
  moreover have "length ps \<le> 4" using arena_geoms_cases [OF i] by (auto simp: ps_def)
  moreover have "scene_layer lens s ext_x ext_z = Some (add_entities lens s (fold box ps w))"
    by (simp add: scene_layer_def w(1) ps_def box_def)
  ultimately show ?thesis using entities_drawn [OF assms(1,2), of "fold box ps w"] w(3) by simp
qed

lemma floor_returns:
  assumes "lens_ok lens" "between 0 8 full_x" "between 0 8 full_z"
  shows "\<exists>ds. floor_layer lens g full_x full_z = Some ds \<and> sound ds \<and> length ds \<le> 289"
proof -
  have strip: "\<exists>ps. strips (lit 1 1) full (- full) = Some ps \<and> length ps \<le> 17 \<and> (\<forall>(a, b) \<in> set ps. small 20 a \<and> small 20 b)"
    if f: "between 0 8 full" for full
  proof -
    have "fin full" "val full \<le> 9" "between (- 8) 9 (- full)" using f by (simp_all add: between_def)
    then obtain ps where "strips (lit 1 1) full (- full) = Some ps" "length ps \<le> 17" "\<forall>(a, b) \<in> set ps. between (- 16) 12 a \<and> between (- 16) 12 b"
      using strips_returns [OF refl, of 1 full "- 8" "- full" 17] by auto
    then show ?thesis using between_small [of "- 16" 12] by fastforce
  qed
  obtain xs where xs: "strips (lit 1 1) full_x (- full_x) = Some xs" "length xs \<le> 17" "\<forall>(a, b) \<in> set xs. small 20 a \<and> small 20 b"
    using strip [OF assms(2)] by blast
  obtain zs0 where zs0: "strips (lit 1 1) full_z (- full_z) = Some zs0" "length zs0 \<le> 17" "\<forall>(a, b) \<in> set zs0. small 20 a \<and> small 20 b"
    using strip [OF assms(3)] by blast
  define zs where "zs = (if xs = [] then [] else zs0)"
  have zs: "length zs \<le> 17" "\<forall>(a, b) \<in> set zs. small 20 a \<and> small 20 b" using zs0 by (simp_all add: zs_def)
  define ds where "ds = fold (\<lambda>x. fold (floor_tile lens g x) (List.enumerate 0 zs)) (List.enumerate 0 xs) []"
  have some: "floor_layer lens g full_x full_z = Some ds" using xs(1) zs0(1) by (simp add: floor_layer_def ds_def zs_def)
  have pair: "small 20 a \<and> small 20 b" if "(n, a, b) \<in> set (List.enumerate 0 ps)" "\<forall>(a, b) \<in> set ps. small 20 a \<and> small 20 b" for n a b ps
    using that by (fastforce dest: set_zip_rightD simp: enumerate_eq_zip)
  have tile: "sound (floor_tile lens g x z e)"
    if "x \<in> set (List.enumerate 0 xs)" "z \<in> set (List.enumerate 0 zs)" "sound e" for x z e
  proof -
    obtain cx a b cz c d where xz: "x = (cx, a, b)" "z = (cz, c, d)" by (metis prod.exhaust)
    have "small 20 a" "small 20 b" "small 20 c" "small 20 d"
      using pair [OF _ xs(3)] pair [OF _ zs(2)] that unfolding xz by blast+
    then show ?thesis unfolding xz floor_tile_def Let_def case_prod_conv
      using assms(1) that(3) by (intro sound_face) (simp_all add: small_cents)
  qed
  have "sound ds" unfolding ds_def
  proof (rule fold_invariant [where Q = "\<lambda>x. x \<in> set (List.enumerate 0 xs)"])
    show "sound (fold (floor_tile lens g x) (List.enumerate 0 zs) e)" if "x \<in> set (List.enumerate 0 xs)" "sound e" for x e
      by (rule fold_invariant [where Q = "\<lambda>z. z \<in> set (List.enumerate 0 zs)"]) (use tile that in auto)
  qed simp_all
  moreover have "length ds \<le> length ([] :: Drawable list) + 17 * length (List.enumerate 0 xs)"
    unfolding ds_def
  proof (rule length_fold)
    fix x e
    have "length (fold (floor_tile lens g x) (List.enumerate 0 zs) e) \<le> length e + 1 * length (List.enumerate 0 zs)"
      by (rule length_fold) (auto simp: floor_tile_def Let_def case_prod_unfold length_face [simplified])
    then show "length (fold (floor_tile lens g x) (List.enumerate 0 zs) e) \<le> length e + 17" using zs(1) by simp
  qed
  ultimately show ?thesis using some xs(2) by simp
qed

end
