(* ===== verification/Viewer_Painter.thy ===== *)
theory Viewer_Painter
  imports Viewer_Scene "HOL-Library.Multiset"
begin

text \<open>
  The properties of a drawn frame: it is whole, its order is the painter's whatever \<open>qsort\<close> does, its
  walls are the simulation's, and its texts fit their buffer.
\<close>

section \<open>What \<open>qsort\<close> promises\<close>

text \<open>C asks the comparison to be consistent: a total preorder on the elements.  Only then is the result
  sorted.\<close>

definition consistent :: "Drawable list \<Rightarrow> bool" where
  "consistent ds \<longleftrightarrow> (\<forall>a \<in> set ds. \<forall>b \<in> set ds. draw_cmp a b = - draw_cmp b a)
     \<and> (\<forall>a \<in> set ds. \<forall>b \<in> set ds. \<forall>c \<in> set ds. draw_cmp a b \<le> 0 \<and> draw_cmp b c \<le> 0 \<longrightarrow> draw_cmp a c \<le> 0)"

definition qsort_ok :: "Sorter \<Rightarrow> bool" where
  "qsort_ok q \<longleftrightarrow> (\<forall>ds. consistent ds \<longrightarrow> mset (q ds) = mset ds \<and> sorted_wrt (\<lambda>a b. draw_cmp a b \<le> 0) (q ds))"

text \<open>The reference: insertion, far first.\<close>

fun insert_far :: "Drawable \<Rightarrow> Drawable list \<Rightarrow> Drawable list" where
  "insert_far d [] = [d]"
| "insert_far d (e # es) = (if draw_cmp d e \<le> 0 then d # e # es else e # insert_far d es)"

definition far_first :: Sorter where
  "far_first ds = foldr insert_far ds []"

lemma insert_far_mset [simp]: "mset (insert_far d es) = add_mset d (mset es)"
  by (induction es) simp_all

lemma insert_far_set [simp]: "set (insert_far d es) = insert d (set es)"
  by (induction es) auto

lemma far_first_mset [simp]: "mset (far_first ds) = mset ds"
  unfolding far_first_def by (induction ds) simp_all

lemma insert_far_sorted:
  assumes "consistent xs" "set (d # es) \<subseteq> set xs" "sorted_wrt (\<lambda>a b. draw_cmp a b \<le> 0) es"
  shows "sorted_wrt (\<lambda>a b. draw_cmp a b \<le> 0) (insert_far d es)"
  using assms(2,3)
proof (induction es)
  case (Cons e es)
  have trans: "draw_cmp a c \<le> 0" if "a \<in> set xs" "b \<in> set xs" "c \<in> set xs" "draw_cmp a b \<le> 0" "draw_cmp b c \<le> 0" for a b c
    using that assms(1) unfolding consistent_def by blast
  have flip: "draw_cmp a b = - draw_cmp b a" if "a \<in> set xs" "b \<in> set xs" for a b
    using that assms(1) unfolding consistent_def by blast
  show ?case
  proof (cases "draw_cmp d e \<le> 0")
    case True
    then have "draw_cmp d x \<le> 0" if "x \<in> set es" for x
      using Cons.prems that trans [of d e x] by auto
    then show ?thesis using True Cons.prems by auto
  next
    case False
    then have "draw_cmp e d \<le> 0" using Cons.prems flip [of e d] by simp
    then show ?thesis using False Cons by auto
  qed
qed simp

lemma consistent_subset: "consistent xs \<Longrightarrow> set ys \<subseteq> set xs \<Longrightarrow> consistent ys"
  unfolding consistent_def by blast

lemma far_first_sorted: "consistent ds \<Longrightarrow> sorted_wrt (\<lambda>a b. draw_cmp a b \<le> 0) (far_first ds)"
proof (induction ds)
  case (Cons d ds)
  have "set (far_first ds) = set ds" by (metis far_first_mset set_mset_mset)
  then have "sorted_wrt (\<lambda>a b. draw_cmp a b \<le> 0) (insert_far d (far_first ds))"
    using Cons consistent_subset [OF Cons.prems, of ds] by (intro insert_far_sorted [OF Cons.prems]) auto
  then show ?case by (simp add: far_first_def)
qed (simp add: far_first_def)

lemma far_first_ok: "qsort_ok far_first"
  by (simp add: qsort_ok_def far_first_sorted)

lemma same_order:
  assumes "mset xs = mset ys" "sorted_wrt R xs" "sorted_wrt R ys"
    and "\<And>a b. a \<in> set xs \<Longrightarrow> b \<in> set xs \<Longrightarrow> R a b \<Longrightarrow> R b a \<Longrightarrow> a = b"
  shows "xs = ys"
  using assms
proof (induction xs arbitrary: ys)
  case (Cons a xs)
  then obtain b zs where ys: "ys = b # zs" by (cases ys) auto
  have sets: "set (a # xs) = set ys" using Cons.prems(1) by (metis set_mset_mset)
  have "a = b"
  proof (rule ccontr)
    assume "a \<noteq> b"
    then have "b \<in> set xs" "a \<in> set zs" using sets ys by auto
    then have "R a b" "R b a" using Cons.prems(2,3) ys by auto
    then show False using Cons.prems(4) \<open>a \<noteq> b\<close> \<open>b \<in> set xs\<close> by auto
  qed
  then show ?case using Cons ys by auto
qed simp

section \<open>The order of a sound list\<close>

lemma cmp_fin:
  assumes "fin (dr_depth a)" "fin (dr_depth b)"
  shows "draw_cmp a b \<le> 0 \<longleftrightarrow> val (dr_depth b) < val (dr_depth a) \<or> val (dr_depth a) = val (dr_depth b) \<and> dr_seq a \<le> dr_seq b"
    and "draw_cmp a b = - draw_cmp b a"
  using assms by (auto simp: draw_cmp_def feq_val less_val)

lemma sound_consistent: "sound ds \<Longrightarrow> consistent ds"
proof -
  assume ds: "sound ds"
  have "draw_cmp a c \<le> 0" if "a \<in> set ds" "b \<in> set ds" "c \<in> set ds" "draw_cmp a b \<le> 0" "draw_cmp b c \<le> 0" for a b c
    using that ds cmp_fin(1) [of a b] cmp_fin(1) [of b c] cmp_fin(1) [of a c] unfolding sound_def by auto
  moreover have "draw_cmp a b = - draw_cmp b a" if "a \<in> set ds" "b \<in> set ds" for a b
    using that ds cmp_fin(2) unfolding sound_def by blast
  ultimately show ?thesis unfolding consistent_def by blast
qed

lemma sound_antisym:
  assumes "sound ds" "a \<in> set ds" "b \<in> set ds" "draw_cmp a b \<le> 0" "draw_cmp b a \<le> 0"
  shows "a = b"
proof -
  obtain i j where ij: "i < length ds" "a = ds ! i" "j < length ds" "b = ds ! j" using assms(2,3) by (metis in_set_conv_nth)
  have sq: "dr_seq (ds ! k) = k" if "k < length ds" for k
  proof -
    have "map dr_seq ds ! k = [0..<length ds] ! k" using assms(1) by (simp add: sound_def)
    then show ?thesis using that by simp
  qed
  have "dr_seq a = dr_seq b"
    using assms cmp_fin(1) [of a b] cmp_fin(1) [of b a] unfolding sound_def by auto
  then show ?thesis using ij sq by simp
qed

lemma flush_unique:
  assumes "qsort_ok q" "sound ds"
  shows "flush_drawables tg q ds = flush_drawables tg far_first ds"
proof -
  note c = sound_consistent [OF assms(2)]
  have q: "mset (q ds) = mset ds" "sorted_wrt (\<lambda>a b. draw_cmp a b \<le> 0) (q ds)" using assms(1) c by (simp_all add: qsort_ok_def)
  then have "set (q ds) = set ds" by (metis set_mset_mset)
  then have "q ds = far_first ds"
    using q far_first_sorted [OF c] sound_antisym [OF assms(2)] by (intro same_order [where R = "\<lambda>a b. draw_cmp a b \<le> 0"]) auto
  then show ?thesis by (simp add: flush_drawables_def)
qed

section \<open>Frames\<close>

definition layers :: "Lens \<Rightarrow> ArenaState \<Rightarrow> bool \<Rightarrow> (Drawable list \<times> Drawable list) option" where
  "layers lens s g =
     (let geo = arena_geoms ! unat (st_arena_id s); full_x = QF (half_x geo); full_z = QF (half_z geo) in
      do { ground \<leftarrow> floor_layer lens g full_x full_z;
           ds \<leftarrow> scene_layer lens s (wall_extent s full_x) (wall_extent s full_z);
           Some (ground, ds) })"

lemma scene_of_layers:
  "draw_scene q lens s g = map_option (\<lambda>(ground, ds). flush_drawables (ln_trig lens) q ground @ flush_drawables (ln_trig lens) q ds) (layers lens s g)"
  by (simp add: draw_scene_def layers_def Let_def split: Option.bind_split)

lemma layers_return:
  assumes "drawable s" "lens_ok lens"
  shows "\<exists>ground ds. layers lens s g = Some (ground, ds) \<and> sound ground \<and> sound ds \<and> length ground \<le> 289 \<and> length ds \<le> 196"
proof -
  note f = full_between [OF assms(1)]
  obtain ground where g: "floor_layer lens g (QF (half_x (arena_geoms ! unat (st_arena_id s)))) (QF (half_z (arena_geoms ! unat (st_arena_id s)))) = Some ground"
    "sound ground" "length ground \<le> 289" using floor_returns [OF assms(2) f] by blast
  obtain ds where d: "scene_layer lens s (wall_extent s (QF (half_x (arena_geoms ! unat (st_arena_id s))))) (wall_extent s (QF (half_z (arena_geoms ! unat (st_arena_id s))))) = Some ds"
    "sound ds" "length ds \<le> 196" using scene_returns [OF assms(2,1) extent_between [OF assms(1) f(1)] extent_between [OF assms(1) f(2)]] by blast
  show ?thesis using g d by (simp add: layers_def Let_def)
qed

lemma reset_player_ok: "vec_ok (spawns g ! i) \<Longrightarrow> player_ok (reset_player g n i p)"
  by (simp add: reset_player_def Let_def player_ok_def player_zero_def vec0_def) (simp add: vec_ok_def is_i32_def)

lemma init_drawable: "drawable (arena_init 0 4 7)"
proof -
  have "\<forall>v \<in> set (spawns arena_nitros_standin). vec_ok v" by (simp add: vec_ok_def is_i32_def)
  moreover have "length (spawns arena_nitros_standin) = 4" by simp
  ultimately have "vec_ok (spawns arena_nitros_standin ! i)" if "i < 4" for i
    using that by (metis nth_mem)
  then have "list_all player_ok (st_players (arena_init 0 4 7))"
    by (simp add: arena_init_def round_reset_def list.pred_map list_all_length arena_sizes geom_of_def arena_geoms_def reset_player_ok)
  moreover have "list_all bomb_ok (st_bombs (arena_init 0 4 7))" "list_all (\<lambda>b. vec_ok (bl_center b)) (st_blasts (arena_init 0 4 7))"
    by (simp_all add: arena_init_def round_reset_def list_all_length bomb_ok_def vec_ok_def is_i32_def bomb_zero_def blast_zero_def vec0_def)
  ultimately show ?thesis
    by (simp add: drawable_def state_ok_def arena_geom_count arena_init_def round_reset_def arena_sizes)
qed

text \<open>C28: What is painted does not depend on \<open>qsort\<close>, which is not stable and differs between C libraries: any function
  that sorts when the comparison is consistent gives the frame of the reference insertion, because
  the depths are numbers and ties fall to the index.\<close>

theorem painter_order_is_unique:
  assumes "qsort_ok q" and "drawable s" and "cam_ok (ln_cam lens)"
  shows "draw_scene q lens s g = draw_scene far_first lens s g"
proof -
  obtain ground ds where l: "layers lens s g = Some (ground, ds)" "sound ground" "sound ds"
    using layers_return [OF assms(2) lens_cam [OF assms(3)]] by blast
  then show ?thesis by (simp add: scene_of_layers flush_unique [OF assms(1)])
qed

text \<open>A camera at its start over a window, and a sorter that works from the other end.\<close>

definition start_lens :: Lens where
  "start_lens = \<lparr>ln_trig = still_trig, ln_cam = vcam_init, ln_w = 1280, ln_h = 720\<rparr>"

definition far_first_back :: Sorter where
  "far_first_back ds = far_first (rev ds)"

lemma far_first_back_ok: "qsort_ok far_first_back"
  using far_first_sorted consistent_subset by (auto simp: qsort_ok_def far_first_back_def)

theorem painter_order_is_unique_witness:
  "draw_scene far_first_back start_lens (arena_init 0 4 7) True = draw_scene far_first start_lens (arena_init 0 4 7) True"
  by (rule painter_order_is_unique [OF far_first_back_ok init_drawable]) (simp add: start_lens_def cam_init_ok)

section \<open>Walls\<close>

lemma QF_exact: "\<bar>v\<bar> \<le> 2 ^ 24 \<Longrightarrow> fin (QF v) \<and> val (QF v) = of_int v / 4096 \<and> repr \<bar>real_of_int v / 4096\<bar>"
proof -
  assume v: "\<bar>v\<bar> \<le> 2 ^ 24"
  have f: "fin (fint v)" "val (fint v) = of_int v" using fint_value [OF v] by simp_all
  have r: "rounds (of_int v / 4096) (QF v)" unfolding QF_def using div_rounds [OF f(1), of "lit 4096 1"] f(2) by simp
  have b: "repr \<bar>real_of_int v / 4096\<bar>"
    unfolding repr_def
  proof (rule exI [of _ "nat \<bar>v\<bar>"], rule exI [of _ "- 12"], intro conjI)
    have "real (nat \<bar>v\<bar>) \<le> 2 ^ 24" using v by simp
    then show "\<bar>real_of_int v / 4096\<bar> < 2 ^ 128" by (simp add: abs_divide)
  qed (use v in \<open>simp_all add: powi_neg nat_le_iff abs_divide\<close>)
  then show ?thesis using rounds_exact [OF r] b by simp
qed

lemma drawn_wall:
  assumes "0 \<le> k" "k \<le> 96" "24576 \<le> half" "half \<le> 32426"
  defines "drawn \<equiv> val (QF half - fint k * lit 3 100)"
  shows "drawn \<le> of_int (half - k * 122) / 4096" and "of_int (half - k * 122) / 4096 - drawn \<le> 21 / 1000"
proof -
  let ?c = "val (lit 3 100)"
  have f: "fin (fint k)" "val (fint k) = of_int k" using fint_value [of k] assms by simp_all
  have full: "fin (QF half)" "val (QF half) = of_int half / 4096" using QF_exact [of half] assms by simp_all
  note c = between_fin [OF shrink_rate(1)]
  note p = between_fin [OF shrink_between [OF assms(1,2)]]
  have tiny: "(2 :: real) powi (- 150) \<le> 1 / 2 ^ 40" using powi_mono [of "- 150" "- 40"] by (simp add: powi_neg)
  have e1: "\<bar>?c - 3 / 100\<bar> \<le> 3 / 100 / 2 ^ 24"
  proof -
    have "(2 :: real) powi (- 150) \<le> 3 / 100 / 2 ^ 24" using tiny by simp
    then show ?thesis using rounds_error [OF lit_rounds [of 100 3] c] by (simp add: max_def split: if_splits)
  qed
  have r2: "rounds (of_int k * ?c) (fint k * lit 3 100)" using mul_rounds [OF f(1) c] f(2) by simp
  have r3: "rounds (of_int half / 4096 - val (fint k * lit 3 100)) (QF half - fint k * lit 3 100)" using sub_rounds [OF full(1) p] full(2) by simp
  have fin3: "fin (QF half - fint k * lit 3 100)"
  proof (rule between_fin, rule between_rounds [OF r3, of 0 8])
    show "real_of_int 0 \<le> real_of_int half / 4096 - val (fint k * lit 3 100)" "real_of_int half / 4096 - val (fint k * lit 3 100) \<le> real_of_int 8"
      using shrink_between [OF assms(1,2)] assms(3,4) by (simp_all add: between_def)
  qed simp_all
  show "drawn \<le> of_int (half - k * 122) / 4096" "of_int (half - k * 122) / 4096 - drawn \<le> 21 / 1000"
  proof -
    have kc: "0 \<le> ?c" "?c \<le> 1 / 32" using shrink_rate by (simp_all add: between_def)
    define x where "x = real_of_int k * ?c"
    have x: "0 \<le> x" "x \<le> 3" using mult_mono [of "real_of_int k" 96 ?c "1 / 32"] kc assms(1,2) by (simp_all add: x_def)
    have xk: "\<bar>x - real_of_int k * (3 / 100)\<bar> \<le> real_of_int k * (3 / 100 / 2 ^ 24)"
    proof -
      have "x - real_of_int k * (3 / 100) = real_of_int k * (?c - 3 / 100)" by (simp add: x_def algebra_simps)
      then show ?thesis using mult_left_mono [OF e1, of "real_of_int k"] assms(1) by (simp add: abs_mult)
    qed
    define pv where "pv = val (fint k * lit 3 100)"
    have e2: "\<bar>pv - x\<bar> \<le> max (1 / 2 ^ 40) (x / 2 ^ 24)" if "k \<noteq> 0"
      using rounds_error [OF r2 p] tiny x unfolding x_def [symmetric] pv_def [symmetric] by (auto simp: max_def split: if_splits)
    have z: "pv = 0" if "k = 0"
      using that r2 p rounds_exact(2) [OF r2] repr_nat [of 0] by (simp add: pv_def)
    define y where "y = of_int half / 4096 - pv"
    have hb: "0 \<le> pv" "pv \<le> 3" using shrink_between [OF assms(1,2)] by (simp_all add: between_def pv_def)
    have yb: "0 \<le> y" "y \<le> 8" using hb assms(3,4) by (simp_all add: y_def)
    have e3: "\<bar>drawn - y\<bar> \<le> max (1 / 2 ^ 40) (y / 2 ^ 24)"
      using rounds_error [OF r3 fin3] tiny yb unfolding pv_def [symmetric] y_def [symmetric] drawn_def by (auto simp: max_def split: if_splits)
    have m2: "max (1 / 2 ^ 40) (x / 2 ^ 24) \<le> 3 / 2 ^ 24" "max (1 / 2 ^ 40) (y / 2 ^ 24) \<le> 8 / 2 ^ 24" using x yb by simp_all
    show "drawn \<le> of_int (half - k * 122) / 4096"
    proof (cases "k = 0")
      case True
      then have "drawn = of_int half / 4096"
        using rounds_exact(2) [OF r3] z QF_exact [of half] assms(3,4) unfolding pv_def drawn_def by simp
      then show ?thesis using True by simp
    next
      case False
      then have "1 \<le> real_of_int k" using assms(1) by linarith
      moreover have "x - 3 / 2 ^ 24 \<le> pv" "drawn \<le> y + 8 / 2 ^ 24" "real_of_int k * (3 / 100) - real_of_int k * (3 / 100 / 2 ^ 24) \<le> x"
        using e2 [OF False] e3 m2 xk by linarith+
      ultimately show ?thesis unfolding y_def of_int_diff of_int_mult of_int_numeral by simp
    qed
    show "of_int (half - k * 122) / 4096 - drawn \<le> 21 / 1000"
    proof -
      have k96: "real_of_int k \<le> 96" "0 \<le> real_of_int k" using assms(1,2) by simp_all
      have "\<bar>pv - x\<bar> \<le> 3 / 2 ^ 24" using e2 m2(1) z x by (cases "k = 0") (simp_all add: x_def)
      then have "pv \<le> x + 3 / 2 ^ 24" by linarith
      moreover have "y - 8 / 2 ^ 24 \<le> drawn" "x \<le> real_of_int k * (3 / 100) + real_of_int k * (3 / 100 / 2 ^ 24)"
        using e3 m2(2) xk by linarith+
      moreover have "real_of_int k * (3 / 100 / 2 ^ 24) \<le> 1 / 100000" "real_of_int k * (3 / 100) - real_of_int k * 122 / 4096 \<le> 2063 / 100000"
        "(3 :: real) / 2 ^ 24 \<le> 1 / 100000" "(8 :: real) / 2 ^ 24 \<le> 1 / 100000"
        using k96 by simp_all
      ultimately show ?thesis unfolding y_def of_int_diff of_int_mult of_int_numeral diff_divide_distrib by linarith
    qed
  qed
qed

text \<open>C30: The walls drawn are the simulation's to within 0.021 units, at every step of sudden death, and
  never outside them: what is seen as free is never beyond the real wall.  (They are not the same: the viewer subtracts
  0.03 a step, the simulation \<open>Q(0.03)\<close>, which is 122/4096.)\<close>

theorem drawn_walls_track_the_simulation:
  assumes "drawable s"
  shows "val (wall_extent s (QF (half_x (geom_of s)))) \<le> of_int (wall_x_of s) / 4096
    \<and> of_int (wall_x_of s) / 4096 - val (wall_extent s (QF (half_x (geom_of s)))) \<le> 21 / 1000
    \<and> val (wall_extent s (QF (half_z (geom_of s)))) \<le> of_int (wall_z_of s) / 4096
    \<and> of_int (wall_z_of s) / 4096 - val (wall_extent s (QF (half_z (geom_of s)))) \<le> 21 / 1000"
proof -
  have a: "unat (st_arena_id s) < ARENA_GEOM_COUNT" "unat (st_shrink_step s) \<le> 96" using assms by (simp_all add: drawable_def)
  note h = geom_half [OF a(1)]
  have k: "0 \<le> uint (st_shrink_step s)" "uint (st_shrink_step s) \<le> 96" using shrink_range [OF assms] by simp_all
  have w: "wall_x_of s = half_x (geom_of s) - wall_shrink s" "wall_z_of s = half_z (geom_of s) - wall_shrink s"
    using h wall_shrink_range [OF a(2)] by (simp_all add: wall_x_of_def wall_z_of_def i32_id)
  show ?thesis
  proof (cases "st_phase s = PHASE_SUDDEN_DEATH")
    case True
    have "i32 (uint (st_shrink_step s) * 122) = uint (st_shrink_step s) * 122" using k by (intro i32_id) linarith+
    then have "wall_shrink s = uint (st_shrink_step s) * 122" using True by (simp add: wall_shrink_def Q_shrink)
    then show ?thesis using drawn_wall [OF k, of "half_x (geom_of s)"] drawn_wall [OF k, of "half_z (geom_of s)"] h True
      by (simp add: w wall_extent_def)
  next
    case False
    then show ?thesis using QF_exact [of "half_x (geom_of s)"] QF_exact [of "half_z (geom_of s)"] h
      by (simp add: w wall_extent_def wall_shrink_def)
  qed
qed

theorem drawn_walls_track_the_simulation_witness:
  "of_int (wall_x_of (arena_init 0 4 7)) / 4096 - val (wall_extent (arena_init 0 4 7) (QF (half_x (geom_of (arena_init 0 4 7))))) \<le> 21 / 1000"
  using drawn_walls_track_the_simulation [OF init_drawable] by blast

end
