(* ===== verification/Viewer_Hud.thy ===== *)
theory Viewer_Hud
  imports Viewer_Painter
begin

text \<open>The HUD's texts: no line is cut by its buffer of 160 bytes.\<close>

lemma near_le: "0 < q \<Longrightarrow> p \<le> n * q \<Longrightarrow> near p q \<le> n"
proof -
  assume q: "0 < q" and p: "p \<le> n * q"
  have "real p \<le> real n * real q" using p by (metis of_nat_le_iff of_nat_mult)
  then have "real p / real q \<le> of_int (int n)" using q by (simp add: pos_divide_le_eq)
  then have "nearest (real p / real q) \<le> int n" using nearest_mono nearest_int by metis
  then show ?thesis using near_is_nearest [OF q, of p] by simp
qed

lemma length_print_f:
  assumes "fin x" "\<bar>val x\<bar> \<le> 524288" "w \<le> 10"
  shows "length (print_f w 2 x) \<le> 10"
proof -
  obtain s m e where x: "x = Finite s m e" using val_alt [OF assms(1)] by blast
  have v: "real m * 2 powi e \<le> 524288" using assms(2) by (simp add: x abs_mult)
  have places: "length (print_ratio 2 p q) \<le> 9" if "0 < q" "p \<le> 524288 * q" for p q
  proof -
    have "near (p * 10 ^ 2) q \<le> 52428800" by (rule near_le) (use that in simp_all)
    then have "near (p * 10 ^ 2) q < 10 ^ (6 + 2)" by simp
    then show ?thesis unfolding print_ratio_def using length_places [of 2 6 "near (p * 10 ^ 2) q"] by simp
  qed
  show ?thesis
  proof (cases "0 \<le> e")
    case True
    then have "real (m * 2 ^ nat e) \<le> real 524288" using v by (simp add: power_int_def)
    then have "m * 2 ^ nat e \<le> 524288 * 1" by linarith
    from places [OF _ this] True show ?thesis using assms(3) by (simp add: x length_pad_left)
  next
    case False
    then have one: "2 ^ nat (- e) * (2 :: real) powi e = 1" using powi_shift [of e "nat (- e)"] by simp
    have "real m = real m * 2 powi e * 2 ^ nat (- e)" using one by (simp add: mult.assoc mult.commute)
    also have "\<dots> \<le> 524288 * 2 ^ nat (- e)" using v by (intro mult_right_mono) simp_all
    finally have "real m \<le> real (524288 * 2 ^ nat (- e))" by simp
    then have "m \<le> 524288 * 2 ^ nat (- e)" by (simp only: of_nat_le_iff)
    from places [OF _ this] False show ?thesis using assms(3) by (simp add: x length_pad_left)
  qed
qed

lemma length_QF: "is_i32 v \<Longrightarrow> w \<le> 10 \<Longrightarrow> length (print_f w 2 (QF v)) \<le> 10"
  using small_QF [of v] by (intro length_print_f) (simp_all add: small_def)

lemma length_print_d: "0 < k \<Longrightarrow> 0 \<le> i \<Longrightarrow> nat i < 10 ^ k \<Longrightarrow> length (print_d i) \<le> k"
  by (simp add: print_d_def length_print_u)

lemma length_d8: "length (print_d (uint (v :: u8))) \<le> 3"
  using u8_less [of v] by (intro length_print_d) simp_all

lemma length_d16: "length (print_d (uint (v :: u16))) \<le> 5"
  using u16_less [of v] by (intro length_print_d) simp_all

lemma length_u32: "length (print_u (unat (v :: u32))) \<le> 10"
  using u32_less [of v] by (intro length_print_u) simp_all

lemma length_x8: "length (print_x8 (unat (v :: u32))) \<le> 8"
  using length_numeral [of 16 8 "unat v"] u32_less [of v] by (simp add: print_x8_def length_pad_left)

lemma length_names:
  "length (pstate_text p) \<le> 4" "length (phase_text h) \<le> 12" "r < 3 \<Longrightarrow> length (rate_text r) \<le> 5" "length (cmode_text m) \<le> 6"
proof -
  show "length (pstate_text p) \<le> 4" by (cases p) (simp_all add: pstate_text_def pstate_code_def)
  show "length (phase_text h) \<le> 12" by (cases h) (simp_all add: phase_text_def phase_code_def)
  show "r < 3 \<Longrightarrow> length (rate_text r) \<le> 5" by (auto simp: rate_text_def less_Suc_eq numeral_3_eq_3)
  show "length (cmode_text m) \<le> 6" by (cases m) (simp_all add: cmode_text_def)
qed

lemma status_fits: "vk_rate clk < 3 \<Longrightarrow> target < 10 \<Longrightarrow> length (hud_status s clk c target) < 160"
  using length_u32 [of "st_tick s"] length_x8 [of "arena_hash s"] length_names(2) [of "st_phase s"] length_names(3) [of "vk_rate clk"]
    length_names(4) [of "cam_mode c"] length_d16 [of "st_phase_timer s"] length_print_d [of 1 "int target"]
  unfolding hud_status_def length_append length_pad_right by (simp split: if_splits) linarith

lemma player_fits: "i < 4 \<Longrightarrow> player_ok p \<Longrightarrow> length (hud_player i p) < 160"
  using length_print_d [of 1 "int i"] length_names(1) [of "pl_state p"] length_d8 [of "pl_hp p"] length_d8 [of "pl_live_bombs p"]
    length_d16 [of "pl_timer p"] length_QF [of "vx (pl_pos p)" 6] length_QF [of "vy (pl_pos p)" 6] length_QF [of "vz (pl_pos p)" 6]
    length_QF [of "vx (pl_vel p)" 5] length_QF [of "vy (pl_vel p)" 5] length_QF [of "vz (pl_vel p)" 5]
  by (simp add: hud_player_def player_ok_def vec_ok_def)

text \<open>No line of the HUD is cut: whatever the state (any tick, hash, timers, positions and velocities over the
  whole range of Q20.12), camera and clock, the status line and the line of each player fit the 160 bytes they are
  printed into with their terminator.\<close>

theorem hud_lines_fit:
  assumes "state_ok s" and "vk_rate clk < 3" and "target < 4" and "i < 4"
  shows "snprintf 160 (hud_status s clk c target) = hud_status s clk c target
    \<and> snprintf 160 (hud_player i (player s i)) = hud_player i (player s i)"
proof -
  have "player_ok (player s i)" using assms(1,4) by (simp add: state_ok_def list_all_length arena_sizes)
  then show ?thesis using status_fits [OF assms(2), of target s c] player_fits [OF assms(4), of "player s i"] assms(3) by (simp add: snprintf_def)
qed

definition start_clock :: "nat ViewerClock" where
  "start_clock = \<lparr>vk_acc_ms = 0, vk_paused = True, vk_step_queued = False, vk_rate = 2\<rparr>"

theorem hud_lines_fit_witness:
  "snprintf 160 (hud_status (arena_init 0 4 7) start_clock vcam_init 3) = hud_status (arena_init 0 4 7) start_clock vcam_init 3"
proof -
  have "state_ok (arena_init 0 4 7)" using init_drawable by (simp add: drawable_def)
  then show ?thesis using hud_lines_fit [of "arena_init 0 4 7" start_clock 3 0 vcam_init] by (simp add: start_clock_def)
qed

end
