(* ===== verification/Viewer_Frame.thy ===== *)
theory Viewer_Frame
  imports Viewer_Start Sim_Width Viewer_Clock Viewer_Painter Viewer_Hud Viewer_Input
begin

text \<open>
  The whole frame of the viewer (\<open>main\<close> of \<open>src/tools/viewer/viewer_main.c\<close>): the match's part of it
  (\<open>Viewer_Match\<close>) with the keys of the clock, the camera and the grid, the ticks the clock grants, the
  camera's update, and what is drawn until the frame is presented.  \<open>None\<close> is the end of the process or a
  loop that does not end.
\<close>

section \<open>Keys\<close>

record 'd Screen =
  sc_cam :: ViewerCam
  sc_clock :: "'d ViewerClock"
  sc_grid :: bool

definition start_screen :: "'d Floating \<Rightarrow> 'd Screen" where
  "start_screen fl = \<lparr>sc_cam = vcam_init, sc_clock = vclock_init fl, sc_grid = True\<rparr>"

text \<open>An event of the match, or a key that only the screen minds.\<close>

datatype LoopEvent = MatchEvent ViewerEvent | KeyPause | KeyStep | KeyRate | KeyCamera | KeyGrid

definition match_event :: "LoopEvent \<Rightarrow> ViewerEvent" where
  "match_event e = (case e of MatchEvent m \<Rightarrow> m | _ \<Rightarrow> EvOther)"

definition next_mode :: "VCamMode \<Rightarrow> VCamMode" where
  "next_mode m = (case m of VCAM_FOLLOW \<Rightarrow> VCAM_CHASE | VCAM_CHASE \<Rightarrow> VCAM_ORBIT | VCAM_ORBIT \<Rightarrow> VCAM_TOPDOWN | VCAM_TOPDOWN \<Rightarrow> VCAM_FOLLOW)"

definition screen_event :: "'d Floating \<Rightarrow> bool \<Rightarrow> LoopEvent \<Rightarrow> 'd Screen \<Rightarrow> 'd Screen" where
  "screen_event fl online e sc = (case e of
       MatchEvent _ \<Rightarrow> sc
     | KeyPause \<Rightarrow> (if online then sc else sc\<lparr>sc_clock := vclock_toggle_pause fl (sc_clock sc)\<rparr>)
     | KeyStep \<Rightarrow> (if online then sc else sc\<lparr>sc_clock := vclock_queue_step (sc_clock sc)\<rparr>)
     | KeyRate \<Rightarrow> (if online then sc else sc\<lparr>sc_clock := vclock_cycle_rate (sc_clock sc)\<rparr>)
     | KeyCamera \<Rightarrow> sc\<lparr>sc_cam := (sc_cam sc)\<lparr>cam_mode := next_mode (cam_mode (sc_cam sc))\<rparr>\<rparr>
     | KeyGrid \<Rightarrow> sc\<lparr>sc_grid := \<not> sc_grid sc\<rparr>)"

section \<open>Drawing\<close>

definition net_text :: "Viewer \<Rightarrow> string" where
  "net_text v =
     ''NET '' @ (if vw_online v then ''ONLINE'' else ''COUCH'') @ '' ''
     @ (if ss_desynced (vw_session v) then ''DESYNC!'' else if ss_connected (vw_session v) then ''SYNCED'' else ''CONNECTING'')
     @ ''  P'' @ print_d (int (vw_local v))"

definition frame_calls :: "Trig \<Rightarrow> Sorter \<Rightarrow> int \<times> int \<Rightarrow> Viewer \<Rightarrow> 'd Screen \<Rightarrow> SdlCall list option" where
  "frame_calls tg qsort = (\<lambda>(w, h) v sc.
     (let lens = \<lparr>ln_trig = tg, ln_cam = sc_cam sc, ln_w = w, ln_h = h\<rparr>; rs = shown v in
      do { scene \<leftarrow> draw_scene qsort lens rs (sc_grid sc);
           Some ([SetRenderDrawColor 18 20 26 255, RenderClear] @ scene @ draw_facing lens rs
             @ draw_hud rs (sc_clock sc) (sc_cam sc) (vw_target v) h
             @ (if vw_smoke v then []
                else draw_text (fint 8) (fint 8 + fint 20 * fint (int (ARENA_MAX_PLAYERS + 1))) (fint 2) (snprintf 96 (net_text v)))
             @ [RenderPresent]) }))"

section \<open>The frame\<close>

text \<open>What a frame is given: the events, whether a bundle's file opens, the devices, the milliseconds since the last
  frame, what the library answers in each tick, the size of the window.\<close>

record 'd Given =
  gv_events :: "LoopEvent list"
  gv_opened :: bool
  gv_pad :: "nat \<Rightarrow> RawPad"
  gv_keys :: RawKeys
  gv_elapsed :: 'd
  gv_answers :: "nat \<Rightarrow> GekkoSessionEvent list \<times> GekkoGameEvent list"
  gv_window :: "int \<times> int"

definition granted :: "'d Floating \<Rightarrow> bool \<Rightarrow> 'd \<Rightarrow> 'd ViewerClock \<Rightarrow> nat \<times> 'd ViewerClock" where
  "granted fl smoke elapsed clk = (if smoke then (1, clk) else vclock_advance fl elapsed clk)"

definition follow :: "Trig \<Rightarrow> Viewer \<Rightarrow> ViewerCam \<Rightarrow> ViewerCam option" where
  "follow tg v c = (let tp = player (shown v) (vw_target v) in vcam_update tg (qf3 (pl_pos tp)) (VCAM_BINANG_TO_RAD (pl_yaw tp)) c)"

definition main_frame ::
  "'d Floating \<Rightarrow> Trig \<Rightarrow> Sorter \<Rightarrow> Host \<Rightarrow> 'd Given \<Rightarrow> Viewer \<times> 'd Screen
     \<Rightarrow> ((Viewer \<times> 'd Screen) \<times> SdlCall list \<times> u8 list option \<times> Packet list) option" where
  "main_frame fl tg qsort ho gv = (\<lambda>(v, sc).
     (let sc = fold (screen_event fl (vw_online v)) (gv_events gv) sc;
          (n, clk) = granted fl (vw_smoke v) (gv_elapsed gv) (sc_clock sc) in
      do { (v, bundle, out) \<leftarrow> viewer_frame ho (map match_event (gv_events gv)) (gv_opened gv)
             (devices_of tg (sc_cam sc) (gv_pad gv) (gv_keys gv)) (map (gv_answers gv) [0..<n]) v;
           cam \<leftarrow> follow tg v (sc_cam sc);
           let sc = sc\<lparr>sc_cam := cam, sc_clock := clk\<rparr>;
           calls \<leftarrow> frame_calls tg qsort (gv_window gv) v sc;
           Some ((v, sc), calls, bundle, out) }))"

text \<open>The loop, with the calls of each frame.\<close>

fun main_loop ::
  "'d Floating \<Rightarrow> Trig \<Rightarrow> Sorter \<Rightarrow> Host \<Rightarrow> 'd Given list \<Rightarrow> Viewer \<times> 'd Screen \<Rightarrow> ((Viewer \<times> 'd Screen) \<times> SdlCall list list) option" where
  "main_loop fl tg qsort ho [] vs = Some (vs, [])"
| "main_loop fl tg qsort ho (gv # gvs) vs =
     (if \<not> vw_running (fst vs) then Some (vs, [])
      else (case main_frame fl tg qsort ho gv vs of None \<Rightarrow> None
            | Some (vs, calls, _) \<Rightarrow> map_option (apsnd ((#) calls)) (main_loop fl tg qsort ho gvs vs)))"

definition last_line :: "Viewer \<Rightarrow> string" where
  "last_line v =
     ''frames '' @ print_d (vw_frame v) @ '' tick '' @ print_u (unat (st_tick (shown v)))
     @ '' hash '' @ print_x8 (unat (arena_hash (shown v)))"

section \<open>What a frame keeps\<close>

definition screen_ok :: "'d Screen \<Rightarrow> bool" where
  "screen_ok sc \<longleftrightarrow> cam_ok (sc_cam sc) \<and> vk_rate (sc_clock sc) < VCLOCK_NUM_RATES"

lemma start_screen_ok: "screen_ok (start_screen fl)"
  by (simp add: screen_ok_def start_screen_def cam_init_ok vclock_init_def VCLOCK_NUM_RATES_def)

lemma screen_events_ok: "screen_ok sc \<Longrightarrow> screen_ok (fold (screen_event fl online) es sc)"
proof (induction es arbitrary: sc)
  case (Cons e es)
  have "screen_ok (screen_event fl online e sc)"
    using Cons.prems
    by (simp add: screen_event_def screen_ok_def cam_ok_mode vclock_toggle_pause_def vclock_queue_step_def vclock_cycle_rate_def
        VCLOCK_NUM_RATES_def split: LoopEvent.split)
  then show ?case using Cons.IH by simp
qed simp

lemma granted_rate: "granted fl smoke elapsed clk = (n, clk') \<Longrightarrow> vk_rate clk' = vk_rate clk"
  by (auto simp: granted_def vclock_advance_def Let_def split: if_splits prod.splits)

text \<open>Every state a match reaches can be drawn.\<close>

lemma reach_drawable: "arena_reach s \<Longrightarrow> drawable s"
  using reach_width [of s] reach_shrink [of s] reach_inv [of s]
  by (simp add: drawable_def arena_inv_def shape_def)

lemma target_in_range:
  assumes "viewer_frame ho evs opened dv replies v = Some (v', bundle, out)" "unat (st_num_players (shown v')) \<le> 4"
  shows "vw_target v' < 4"
  using assms
  by (auto simp: viewer_frame_def Let_def count_frame_def keep_target_def shown_def split: option.splits prod.splits if_splits)

text \<open>A frame that the match survives is drawn and presented: the camera follows, the lists of the painter have room,
  and the screen is fit for the next frame.\<close>

theorem frames_are_presented:
  assumes "trig_ok tg" and "screen_ok sc"
    and "granted fl (vw_smoke v) (gv_elapsed gv) (sc_clock (fold (screen_event fl (vw_online v)) (gv_events gv) sc)) = (n, clk)"
    and "viewer_frame ho (map match_event (gv_events gv)) (gv_opened gv)
      (devices_of tg (sc_cam (fold (screen_event fl (vw_online v)) (gv_events gv) sc)) (gv_pad gv) (gv_keys gv))
      (map (gv_answers gv) [0..<n]) v = Some (v', bundle, out)"
    and "drawable (shown v')"
  shows "\<exists>sc' scene. main_frame fl tg qsort ho gv (v, sc) =
      Some ((v', sc'), SetRenderDrawColor 18 20 26 255 # RenderClear # scene @ [RenderPresent], bundle, out) \<and> screen_ok sc'"
proof -
  define sc1 where "sc1 = fold (screen_event fl (vw_online v)) (gv_events gv) sc"
  have sc1: "cam_ok (sc_cam sc1)" "vk_rate (sc_clock sc1) < VCLOCK_NUM_RATES"
    using screen_events_ok [OF assms(2)] by (simp_all add: sc1_def screen_ok_def)
  define tp where "tp = player (shown v') (vw_target v')"
  have "vw_target v' < 4" using target_in_range [OF assms(4)] assms(5) by (simp add: drawable_def arena_sizes)
  then have "player_ok tp" using assms(5) by (simp add: tp_def drawable_def ok_player)
  then have p: "is_i32 (vx (pl_pos tp))" "is_i32 (vy (pl_pos tp))" "is_i32 (vz (pl_pos tp))" by (simp_all add: player_ok_def vec_ok_def)
  obtain cam where cam: "follow tg v' (sc_cam sc1) = Some cam" "cam_ok cam"
    using update_ok [OF sc1(1) assms(1), of "qf3 (pl_pos tp)" "pl_yaw tp"] p
    by (auto simp: follow_def tp_def [symmetric] qf3_def small_QF)
  define sc' where "sc' = sc1\<lparr>sc_cam := cam, sc_clock := clk\<rparr>"
  have g: "granted fl (vw_smoke v) (gv_elapsed gv) (sc_clock sc1) = (n, clk)" using assms(3) by (simp add: sc1_def)
  have ok: "screen_ok sc'" using cam(2) sc1(2) granted_rate [OF g] by (simp add: sc'_def screen_ok_def)
  obtain w h where wh: "gv_window gv = (w, h)" by fastforce
  define lens where "lens = \<lparr>ln_trig = tg, ln_cam = sc_cam sc', ln_w = w, ln_h = h\<rparr>"
  have "lens_ok lens" using ok by (simp add: lens_def lens_cam screen_ok_def)
  then obtain scene where "draw_scene qsort lens (shown v') (sc_grid sc') = Some scene"
    using layers_return [OF assms(5)] by (metis (no_types, lifting) scene_of_layers option.map(2))
  then have "\<exists>rest. frame_calls tg qsort (gv_window gv) v' sc' = Some (SetRenderDrawColor 18 20 26 255 # RenderClear # rest @ [RenderPresent])"
    by (simp add: frame_calls_def wh Let_def flip: lens_def)
  then obtain rest where "frame_calls tg qsort (gv_window gv) v' sc' = Some (SetRenderDrawColor 18 20 26 255 # RenderClear # rest @ [RenderPresent])"
    by blast
  then have "main_frame fl tg qsort ho gv (v, sc) =
      Some ((v', sc'), SetRenderDrawColor 18 20 26 255 # RenderClear # rest @ [RenderPresent], bundle, out)"
    using assms(4) cam(1) unfolding main_frame_def Let_def case_prod_conv sc1_def [symmetric] by (simp add: g sc'_def)
  then show ?thesis using ok by blast
qed

section \<open>The smoke run\<close>

definition quits :: "LoopEvent \<Rightarrow> bool" where
  "quits e \<longleftrightarrow> e = MatchEvent EvQuit \<or> e = MatchEvent EvEscape"

abbreviation after_ticks :: "u32 \<Rightarrow> nat \<Rightarrow> ArenaState" where
  "after_ticks seed k \<equiv> (arena_tick (replicate ARENA_MAX_PLAYERS 0) ^^ k) (arena_init 0 2 seed)"

text \<open>A smoke run of \<open>n\<close> frames after \<open>k\<close> of them.\<close>

definition smoke_at :: "u32 \<Rightarrow> nat \<Rightarrow> nat \<Rightarrow> Viewer \<Rightarrow> bool" where
  "smoke_at seed n k v \<longleftrightarrow> vw_smoke v \<and> \<not> vw_online v \<and> \<not> vw_latched v \<and> vw_limit v = int n \<and> vw_frame v = int k
     \<and> vw_state v = after_ticks seed k \<and> vw_running v = (k < max 1 n)"

lemma after_ticks_reach: "arena_reach (after_ticks seed k)"
  by (induction k) (simp_all add: arena_reach.start arena_reach.tick arena_geom_count arena_sizes)

lemma after_ticks_fields: "st_tick (after_ticks seed k) = of_nat k" "st_num_players (after_ticks seed k) = 2"
  by (induction k) simp_all

lemma smoke_events:
  assumes "smoke_at seed n k v" and "\<forall>e \<in> set es. \<not> quits e"
  shows "\<exists>v'. viewer_events ho (map match_event es) (False, v) = Some (False, v') \<and> smoke_at seed n k v'"
  using assms
proof (induction es arbitrary: v)
  case (Cons e es)
  have "\<exists>v'. viewer_event ho (match_event e) (False, v) = Some (False, v') \<and> smoke_at seed n k v'"
    using Cons.prems after_ticks_fields(2) [of k seed]
    by (auto simp: viewer_event_def match_event_def quits_def smoke_at_def shown_def Let_def split: LoopEvent.splits ViewerEvent.splits)
  then show ?case using Cons.IH Cons.prems(2) by fastforce
qed simp

lemma smoke_frame:
  assumes "smoke_at seed n k v" and "k < max 1 n" and "\<forall>e \<in> set es. \<not> quits e"
  shows "\<exists>v'. viewer_frame ho (map match_event es) opened dv [reply] v = Some (v', None, []) \<and> smoke_at seed n (Suc k) v'"
proof -
  obtain u where u: "viewer_events ho (map match_event es) (False, v) = Some (False, u)" "smoke_at seed n k u"
    using smoke_events [OF assms(1,3)] by blast
  obtain sev gev where r: "reply = (sev, gev)" by fastforce
  show ?thesis
    using u assms(2)
    by (auto simp: viewer_frame_def couch_resize_def online_watch_def viewer_ticks_def viewer_tick_def hold_walls_open_def
        keep_target_def count_frame_def smoke_at_def r Let_def shown_def)
qed

lemma smoke_loop:
  assumes "trig_ok tg" and "smoke_at seed n k v" and "screen_ok sc" and "k \<le> max 1 n" and "max 1 n \<le> k + length gvs"
    and "\<forall>gv \<in> set gvs. \<forall>e \<in> set (gv_events gv). \<not> quits e"
  shows "\<exists>v' sc' drawn. main_loop fl tg qsort ho gvs (v, sc) = Some ((v', sc'), drawn) \<and> smoke_at seed n (max 1 n) v'
    \<and> length drawn = max 1 n - k \<and> (\<forall>calls \<in> set drawn. \<exists>scene. calls = SetRenderDrawColor 18 20 26 255 # RenderClear # scene @ [RenderPresent])"
  using assms(2-)
proof (induction gvs arbitrary: k v sc)
  case Nil
  then have "k = max 1 n" by (intro antisym) simp_all
  then show ?case using Nil.prems(1) by simp
next
  case (Cons gv gvs)
  show ?case
  proof (cases "k < max 1 n")
    case False
    then have "k = max 1 n" "\<not> vw_running v" using Cons.prems(1,3) by (simp_all add: smoke_at_def)
    then show ?thesis using Cons.prems(1) by simp
  next
    case True
    have smoke: "vw_smoke v" "vw_running v" using Cons.prems(1) True by (simp_all add: smoke_at_def)
    define sc1 where "sc1 = fold (screen_event fl (vw_online v)) (gv_events gv) sc"
    obtain v1 where v1: "viewer_frame ho (map match_event (gv_events gv)) (gv_opened gv)
        (devices_of tg (sc_cam sc1) (gv_pad gv) (gv_keys gv)) (map (gv_answers gv) [0..<1]) v = Some (v1, None, [])"
        "smoke_at seed n (Suc k) v1"
      using smoke_frame [OF Cons.prems(1) True, of "gv_events gv"] Cons.prems(5) by fastforce
    have d: "drawable (shown v1)" using v1(2) reach_drawable [OF after_ticks_reach [of "Suc k" seed]] by (simp add: smoke_at_def shown_def)
    have g: "granted fl (vw_smoke v) (gv_elapsed gv) (sc_clock sc1) = (1, sc_clock sc1)" by (simp add: granted_def smoke)
    obtain sc2 scene where f: "main_frame fl tg qsort ho gv (v, sc) =
        Some ((v1, sc2), SetRenderDrawColor 18 20 26 255 # RenderClear # scene @ [RenderPresent], None, [])" "screen_ok sc2"
      using frames_are_presented [OF assms(1) Cons.prems(2) g [unfolded sc1_def] v1(1) [unfolded sc1_def] d] by blast
    obtain v' sc' drawn where l: "main_loop fl tg qsort ho gvs (v1, sc2) = Some ((v', sc'), drawn)" "smoke_at seed n (max 1 n) v'"
      "length drawn = max 1 n - Suc k" "\<forall>calls \<in> set drawn. \<exists>scene. calls = SetRenderDrawColor 18 20 26 255 # RenderClear # scene @ [RenderPresent]"
      using Cons.IH [OF v1(2) f(2)] True Cons.prems(4,5) by (auto simp: Suc_le_eq)
    then show ?thesis using f smoke True by auto
  qed
qed

text \<open>C20: A smoke run of \<open>n\<close> frames is the simulation: whatever keys are pressed and pads come and go (short of quitting),
  however the clock, the camera and the grid are set and whatever order \<open>qsort\<close> gives, the viewer runs \<open>n\<close> frames
  (one when \<open>n\<close> is 0), draws and presents each, ends, and the line it prints carries the number of frames, as many ticks,
  and the checksum of the state that so many ticks without input give.\<close>

theorem smoke_run_is_the_simulation:
  assumes "trig_ok tg" and "max 1 n \<le> length gvs" and "\<forall>gv \<in> set gvs. \<forall>e \<in> set (gv_events gv). \<not> quits e"
    and "m = max 1 n" and "final = (arena_tick (replicate ARENA_MAX_PLAYERS 0) ^^ m) (arena_init 0 2 seed)"
  shows "\<exists>v sc drawn. main_loop fl tg qsort ho gvs (viewer_smoke seed n, start_screen fl) = Some ((v, sc), drawn)
    \<and> \<not> vw_running v \<and> shown v = final \<and> length drawn = m
    \<and> (\<forall>calls \<in> set drawn. \<exists>scene. calls = SetRenderDrawColor 18 20 26 255 # RenderClear # scene @ [RenderPresent])
    \<and> last_line v = ''frames '' @ print_d (int m) @ '' tick '' @ print_u (unat (of_nat m :: u32))
        @ '' hash '' @ print_x8 (unat (arena_hash final))"
proof -
  have "smoke_at seed n 0 (viewer_smoke seed n)" by (simp add: smoke_at_def viewer_smoke_def viewer_blank_def)
  note run = smoke_loop [OF assms(1) this start_screen_ok _ _ assms(3), where qsort = qsort and ho = ho and fl = fl, unfolded add_0 diff_zero, OF le0 assms(2), folded assms(4)]
  obtain v sc drawn where "main_loop fl tg qsort ho gvs (viewer_smoke seed n, start_screen fl) = Some ((v, sc), drawn)"
    "smoke_at seed n m v" "length drawn = m"
    "\<forall>calls \<in> set drawn. \<exists>scene. calls = SetRenderDrawColor 18 20 26 255 # RenderClear # scene @ [RenderPresent]"
    using run by blast
  then show ?thesis
    using assms(4,5) after_ticks_fields(1) [of m seed] by (auto simp: smoke_at_def shown_def last_line_def)
qed

text \<open>One frame in which the clock is paused, the camera changed and a gamepad plugged in.\<close>

definition whole_ms :: "int Floating" where
  "whole_ms = \<lparr>fl_zero = 0, fl_tick = 17, fl_four_times = (*) 4, fl_add = (+), fl_sub = (-), fl_le = (\<le>)\<rparr>"

definition busy_frame :: "int Given" where
  "busy_frame = \<lparr>gv_events = [KeyPause, KeyCamera, MatchEvent (EvPadAdded 3 True)], gv_opened = True,
     gv_pad = (\<lambda>_. \<lparr>rp_left_x = 32767, rp_left_y = 0, rp_south = True, rp_west = True, rp_east = True\<rparr>),
     gv_keys = \<lparr>rk_w = True, rk_a = False, rk_s = False, rk_d = False, rk_space = True, rk_lshift = False, rk_e = False\<rparr>,
     gv_elapsed = 10000, gv_answers = (\<lambda>_. ([], [])), gv_window = (1280, 720)\<rparr>"

definition calm_host :: Host where
  "calm_host = \<lparr>ho_memory = True, ho_gekko = True, ho_handle = int\<rparr>"

theorem smoke_run_is_the_simulation_witness:
  "\<exists>v sc drawn. main_loop whole_ms still_trig far_first calm_host [busy_frame] (viewer_smoke 7 1, start_screen whole_ms) = Some ((v, sc), drawn)
    \<and> \<not> vw_running v \<and> shown v = arena_tick [0, 0, 0, 0] (arena_init 0 2 7) \<and> length drawn = 1"
proof -
  have calm: "\<forall>gv \<in> set [busy_frame]. \<forall>e \<in> set (gv_events gv). \<not> quits e" by (simp add: busy_frame_def quits_def)
  have one: "(1 :: nat) = max 1 1" "max 1 1 \<le> length [busy_frame]" by simp_all
  have "replicate ARENA_MAX_PLAYERS 0 = [0, 0, 0, 0 :: ArenaInput]" by (simp add: arena_sizes eval_nat_numeral)
  then have tick: "arena_tick [0, 0, 0, 0] (arena_init 0 2 7) = (arena_tick (replicate ARENA_MAX_PLAYERS 0) ^^ 1) (arena_init 0 2 7)" by simp
  show ?thesis
    using smoke_run_is_the_simulation [OF still_trig_ok one(2) calm one(1) tick, where fl = whole_ms and qsort = far_first and ho = calm_host]
    by blast
qed

end
