(* ===== verification/Viewer_Whole.thy ===== *)
theory Viewer_Whole
  imports Viewer_Painter
begin

text \<open>
  What a frame shows: every tile of the floor, every pillar, player, bomb and blast that the camera
  projects is in the painter list, which is never full.
\<close>

section \<open>Steps that only append\<close>

definition appends :: "('a list \<Rightarrow> 'a list) \<Rightarrow> bool" where
  "appends f \<longleftrightarrow> (\<forall>ds. \<exists>more. f ds = ds @ more)"

lemma appendsD: "appends f \<Longrightarrow> \<exists>more. f ds = ds @ more"
  by (simp add: appends_def)

lemma appends_id: "appends (\<lambda>ds. ds)"
  by (simp add: appends_def)

lemma appends_comp: "appends f \<Longrightarrow> appends g \<Longrightarrow> appends (\<lambda>ds. g (f ds))"
  unfolding appends_def by (metis append_assoc)

lemma appends_fold: "(\<And>x. appends (f x)) \<Longrightarrow> appends (fold f xs)"
proof (induction xs)
  case (Cons x xs)
  then show ?case using appends_comp [of "f x" "fold f xs"] by (simp add: comp_def)
qed (simp add: appends_id id_def)

lemma appends_face: "appends (add_face lens a b c d col)"
proof -
  have "add_face lens a b c d col ds = ds \<or> (\<exists>x. add_face lens a b c d col ds = ds @ [x])" for ds
    by (auto simp: add_face_def Let_def split: option.split)
  then show ?thesis unfolding appends_def by (metis append_Nil2)
qed

lemma appends_circle: "appends (add_circle lens p r col bias)"
proof -
  have "add_circle lens p r col bias ds = ds \<or> (\<exists>x. add_circle lens p r col bias ds = ds @ [x])" for ds
    by (auto simp: add_circle_def Let_def split: option.split)
  then show ?thesis unfolding appends_def by (metis append_Nil2)
qed

lemma appends_box: "appends (add_box lens mn mx col)"
proof -
  note two = appends_comp [OF appends_face appends_face]
  show ?thesis unfolding add_box_def Let_def
    by (rule appends_comp [OF appends_comp [OF appends_comp [OF two appends_face] appends_face] appends_face])
qed

lemma appends_player: "appends (add_player lens t i p)"
  unfolding add_player_def Let_def
  by (cases "pl_state p = PSTATE_DEAD") (simp_all add: appends_circle appends_comp)

lemma appends_bomb: "appends (add_bomb lens b)"
proof (cases "bm_state b = BSTATE_FREE \<or> bm_state b = BSTATE_EXPLODING")
  case True
  then have "add_bomb lens b = (\<lambda>ds. ds)" by (auto simp: add_bomb_def)
  then show ?thesis by (simp add: appends_id)
next
  case False
  then show ?thesis unfolding add_bomb_def Let_def
    by (cases "bm_state b = BSTATE_HELD") (simp_all add: appends_circle appends_comp)
qed

lemma appends_blast: "appends (add_blast lens bl)"
  unfolding add_blast_def Let_def by (cases "bl_ttl bl = 0") (simp_all add: appends_id appends_circle)

section \<open>What is in a list stays in it\<close>

definition face_shown :: "Lens \<Rightarrow> Vf3 \<Rightarrow> Vf3 \<Rightarrow> Vf3 \<Rightarrow> Vf3 \<Rightarrow> Drawable list \<Rightarrow> bool" where
  "face_shown lens a b c d ds \<longleftrightarrow> (\<forall>ax ay ad bx bay bd cx cy cd dx dy dd.
     project lens a = Some (ax, ay, ad) \<and> project lens b = Some (bx, bay, bd)
     \<and> project lens c = Some (cx, cy, cd) \<and> project lens d = Some (dx, dy, dd) \<longrightarrow>
     (\<exists>q \<in> set ds. dr_shape q = Face [(ax, ay), (bx, bay), (cx, cy), (dx, dy)]
        \<and> dr_depth q = (f0 + ad + bd + cd + dd) * lit 25 100))"

definition circle_shown :: "Lens \<Rightarrow> Vf3 \<Rightarrow> f32 \<Rightarrow> Drawable list \<Rightarrow> bool" where
  "circle_shown lens p r ds \<longleftrightarrow> (\<forall>sx sy dep. project lens p = Some (sx, sy, dep) \<longrightarrow>
     (let rad = vcam_screen_radius (ln_trig lens) (ln_cam lens) p r (ln_w lens) (ln_h lens)
      in rad < lit 5 10 \<or> (\<exists>q \<in> set ds. dr_shape q = Circle sx sy rad)))"

definition stable :: "('a list \<Rightarrow> bool) \<Rightarrow> bool" where
  "stable P \<longleftrightarrow> (\<forall>ds more. P ds \<longrightarrow> P (ds @ more))"

lemma stable_face: "stable (face_shown lens a b c d)"
  unfolding stable_def face_shown_def set_append by blast

lemma stable_circle: "stable (circle_shown lens p r)"
  unfolding stable_def circle_shown_def Let_def set_append by blast

lemma stable_conj: "stable P \<Longrightarrow> stable Q \<Longrightarrow> stable (\<lambda>ds. P ds \<and> Q ds)"
  by (simp add: stable_def)

lemma stays: "stable P \<Longrightarrow> appends f \<Longrightarrow> P ds \<Longrightarrow> P (f ds)"
  unfolding stable_def appends_def by metis

lemma room_before: "appends f \<Longrightarrow> length (f ds) < n \<Longrightarrow> length ds < n"
  using appendsD [of f ds] by auto

lemma face_added: "length (add_face lens a b c d col ds) < MAX_DRAW \<Longrightarrow> face_shown lens a b c d (add_face lens a b c d col ds)"
proof -
  assume "length (add_face lens a b c d col ds) < MAX_DRAW"
  then have "\<not> MAX_DRAW \<le> length ds" using room_before [OF appends_face] by (simp add: not_le)
  then show ?thesis unfolding face_shown_def by (intro allI impI) (elim conjE, simp add: add_face_def Let_def)
qed

lemma circle_added: "length (add_circle lens p r col bias ds) < MAX_DRAW \<Longrightarrow> circle_shown lens p r (add_circle lens p r col bias ds)"
proof -
  assume "length (add_circle lens p r col bias ds) < MAX_DRAW"
  then have "\<not> MAX_DRAW \<le> length ds" using room_before [OF appends_circle] by (simp add: not_le)
  then show ?thesis unfolding circle_shown_def Let_def by (intro allI impI) (simp add: add_circle_def Let_def)
qed

text \<open>What one step of a fold puts into the list is there at its end.\<close>

lemma fold_shows:
  assumes "\<And>x. appends (f x)" and "stable P" and "\<And>ds. length (f x ds) < MAX_DRAW \<Longrightarrow> P (f x ds)"
  shows "x \<in> set xs \<Longrightarrow> length (fold f xs ds) < MAX_DRAW \<Longrightarrow> P (fold f xs ds)"
proof (induction xs arbitrary: ds)
  case (Cons y ys)
  have room: "length (f y ds) < MAX_DRAW"
    using room_before [OF appends_fold [of f ys, OF assms(1)], of "f y ds"] Cons.prems(2) by simp
  show ?case
  proof (cases "x = y")
    case True
    then have "P (f y ds)" using assms(3) room by simp
    then show ?thesis using stays [OF assms(2) appends_fold [of f ys, OF assms(1)]] by simp
  next
    case False
    then show ?thesis using Cons by simp
  qed
qed simp

section \<open>The parts of a frame\<close>

definition box_shown :: "Lens \<Rightarrow> Vf3 \<Rightarrow> Vf3 \<Rightarrow> Drawable list \<Rightarrow> bool" where
  "box_shown lens mn mx ds \<longleftrightarrow>
     (let x0 = v_x mn; y0 = v_y mn; z0 = v_z mn; x1 = v_x mx; y1 = v_y mx; z1 = v_z mx in
      face_shown lens (vec3 x0 y1 z0) (vec3 x1 y1 z0) (vec3 x1 y1 z1) (vec3 x0 y1 z1) ds
      \<and> face_shown lens (vec3 x0 y0 z0) (vec3 x1 y0 z0) (vec3 x1 y1 z0) (vec3 x0 y1 z0) ds
      \<and> face_shown lens (vec3 x0 y0 z1) (vec3 x1 y0 z1) (vec3 x1 y1 z1) (vec3 x0 y1 z1) ds
      \<and> face_shown lens (vec3 x0 y0 z0) (vec3 x0 y0 z1) (vec3 x0 y1 z1) (vec3 x0 y1 z0) ds
      \<and> face_shown lens (vec3 x1 y0 z0) (vec3 x1 y0 z1) (vec3 x1 y1 z1) (vec3 x1 y1 z0) ds)"

definition player_shown :: "Lens \<Rightarrow> ArenaPlayer \<Rightarrow> Drawable list \<Rightarrow> bool" where
  "player_shown lens p ds \<longleftrightarrow> (let pos = qf3 (pl_pos p) in
     circle_shown lens (vec3 (v_x pos) (v_y pos + lit 45 100) (v_z pos)) (QF TUNE_PLAYER_RADIUS) ds)"

definition bomb_shown :: "Lens \<Rightarrow> ArenaBomb \<Rightarrow> Drawable list \<Rightarrow> bool" where
  "bomb_shown lens b ds \<longleftrightarrow> (let pos = qf3 (bm_pos b) in
     circle_shown lens (vec3 (v_x pos) (v_y pos + lit 3 10) (v_z pos)) (QF TUNE_BOMB_RADIUS) ds)"

definition blast_shown :: "Lens \<Rightarrow> ArenaBlast \<Rightarrow> Drawable list \<Rightarrow> bool" where
  "blast_shown lens bl ds \<longleftrightarrow>
     (let c = qf3 (bl_center bl); grown = fint (uint (bl_radius_t bl)) / fint (uint TUNE_BLAST_GROW_TICKS) in
      circle_shown lens (vec3 (v_x c) (v_y c + lit 2 10) (v_z c)) ((if f1 < grown then f1 else grown) * QF TUNE_BLAST_RADIUS) ds)"

lemma stable_shown:
  "stable (box_shown lens mn mx)" "stable (player_shown lens p)" "stable (bomb_shown lens b)" "stable (blast_shown lens bl)"
  unfolding box_shown_def player_shown_def bomb_shown_def blast_shown_def Let_def
  by (intro stable_conj stable_face stable_circle)+

lemma player_added: "length (add_player lens t i p ds) < MAX_DRAW \<Longrightarrow> player_shown lens p (add_player lens t i p ds)"
  unfolding add_player_def player_shown_def Let_def by (rule circle_added)

lemma bomb_added:
  assumes "bm_state b \<noteq> BSTATE_FREE" and "bm_state b \<noteq> BSTATE_EXPLODING"
  shows "length (add_bomb lens b ds) < MAX_DRAW \<Longrightarrow> bomb_shown lens b (add_bomb lens b ds)"
  using assms circle_added by (simp add: add_bomb_def bomb_shown_def Let_def)

lemma blast_added: "bl_ttl bl \<noteq> 0 \<Longrightarrow> length (add_blast lens bl ds) < MAX_DRAW \<Longrightarrow> blast_shown lens bl (add_blast lens bl ds)"
  using circle_added by (simp add: add_blast_def blast_shown_def Let_def)

lemma box_added:
  assumes "length (add_box lens mn mx col ds) < MAX_DRAW"
  shows "box_shown lens mn mx (add_box lens mn mx col ds)"
proof -
  note keep = stays [OF stable_face appends_face] and room = room_before [OF appends_face]
  show ?thesis
    using assms unfolding box_shown_def add_box_def Let_def
    by (intro conjI) (assumption | rule face_added keep | drule room)+
qed

section \<open>Floor and walls\<close>

text \<open>Pieces that follow each other without a gap from \<open>lo\<close> up to \<open>hi\<close>.\<close>

fun tiled :: "f32 \<Rightarrow> f32 \<Rightarrow> (f32 \<times> f32) list \<Rightarrow> bool" where
  "tiled lo hi [] \<longleftrightarrow> \<not> lo < hi"
| "tiled lo hi ((a, b) # ps) \<longleftrightarrow> a = lo \<and> tiled b hi ps"

lemma f32_asym: "x < y \<Longrightarrow> \<not> y < (x :: f32)"
  by (cases x; cases y) (auto simp: less_f32_def min.commute)

lemma strips_tiled: "strips seg hi x = Some ps \<Longrightarrow> tiled x hi ps"
proof (induction ps arbitrary: x)
  case Nil
  then show ?case by (subst (asm) strips.simps) (auto split: if_splits Option.bind_splits)
next
  case (Cons p ps)
  then have s: "strips seg hi (x + seg) = Some ps" "p = (x, if hi < x + seg then hi else x + seg)"
    by (subst (asm) (2) strips.simps, auto split: if_splits Option.bind_splits)+
  show ?case
  proof (cases "hi < x + seg")
    case True
    then have "\<not> x + seg < hi" by (rule f32_asym)
    then have "ps = []" using s(1) by (subst (asm) strips.simps) simp
    then show ?thesis using s(2) True f32_asym [of hi hi] by auto
  next
    case False
    then show ?thesis using s Cons.IH by simp
  qed
qed

definition floor_shown :: "Lens \<Rightarrow> f32 \<Rightarrow> f32 \<Rightarrow> Drawable list \<Rightarrow> bool" where
  "floor_shown lens full_x full_z ds \<longleftrightarrow> (\<exists>xs zs. tiled (- full_x) full_x xs \<and> (xs \<noteq> [] \<longrightarrow> tiled (- full_z) full_z zs) \<and>
     (\<forall>(a, b) \<in> set xs. \<forall>(c, d) \<in> set zs.
        face_shown lens (vec3 a (- lit 2 100) c) (vec3 b (- lit 2 100) c) (vec3 b (- lit 2 100) d) (vec3 a (- lit 2 100) d) ds))"

definition wall_shown :: "Lens \<Rightarrow> Vf3 \<Rightarrow> Vf3 \<Rightarrow> Drawable list \<Rightarrow> bool" where
  "wall_shown lens mn mx ds \<longleftrightarrow>
     (if v_z mx - v_z mn \<le> v_x mx - v_x mn
      then \<exists>xs. tiled (v_x mn) (v_x mx) xs \<and> (\<forall>(x, x2) \<in> set xs. box_shown lens (vec3 x (v_y mn) (v_z mn)) (vec3 x2 (v_y mx) (v_z mx)) ds)
      else \<exists>zs. tiled (v_z mn) (v_z mx) zs \<and> (\<forall>(z, z2) \<in> set zs. box_shown lens (vec3 (v_x mn) (v_y mn) z) (vec3 (v_x mx) (v_y mx) z2) ds))"

lemma wall_stays: "wall_shown lens mn mx ds \<Longrightarrow> wall_shown lens mn mx (ds @ es)"
  using stable_shown(1) unfolding wall_shown_def stable_def by (auto split: if_splits) fastforce+

lemma split_shows:
  assumes "add_box_split lens mn mx col ds = Some ds'" and "length ds' < MAX_DRAW"
  shows "wall_shown lens mn mx ds' \<and> (\<exists>more. ds' = ds @ more)"
proof (cases "v_z mx - v_z mn \<le> v_x mx - v_x mn")
  case True
  let ?f = "\<lambda>(x, x2). add_box lens (vec3 x (v_y mn) (v_z mn)) (vec3 x2 (v_y mx) (v_z mx)) col"
  obtain xs where xs: "strips (lit 3 1) (v_x mx) (v_x mn) = Some xs" "ds' = fold ?f xs ds"
    using assms(1) True by (auto simp: add_box_split_def)
  have ap: "appends (?f p)" for p by (cases p) (simp add: appends_box)
  have "box_shown lens (vec3 x (v_y mn) (v_z mn)) (vec3 x2 (v_y mx) (v_z mx)) ds'" if "(x, x2) \<in> set xs" for x x2
    unfolding xs(2) by (rule fold_shows [OF ap stable_shown(1) _ that]) (use assms(2) xs(2) in \<open>simp_all add: box_added\<close>)
  then show ?thesis
    using True strips_tiled [OF xs(1)] appendsD [OF appends_fold [of ?f xs, OF ap], of ds] xs(2) by (auto simp: wall_shown_def)
next
  case False
  let ?f = "\<lambda>(z, z2). add_box lens (vec3 (v_x mn) (v_y mn) z) (vec3 (v_x mx) (v_y mx) z2) col"
  obtain zs where zs: "strips (lit 3 1) (v_z mx) (v_z mn) = Some zs" "ds' = fold ?f zs ds"
    using assms(1) False by (auto simp: add_box_split_def)
  have ap: "appends (?f p)" for p by (cases p) (simp add: appends_box)
  have "box_shown lens (vec3 (v_x mn) (v_y mn) z) (vec3 (v_x mx) (v_y mx) z2) ds'" if "(z, z2) \<in> set zs" for z z2
    unfolding zs(2) by (rule fold_shows [OF ap stable_shown(1) _ that]) (use assms(2) zs(2) in \<open>simp_all add: box_added\<close>)
  then show ?thesis
    using False strips_tiled [OF zs(1)] appendsD [OF appends_fold [of ?f zs, OF ap], of ds] zs(2) by (auto simp: wall_shown_def)
qed

lemma floor_shows:
  assumes "floor_layer lens g full_x full_z = Some ds" and "length ds < MAX_DRAW"
  shows "floor_shown lens full_x full_z ds"
proof -
  obtain xs zs where xs: "strips (lit 1 1) full_x (- full_x) = Some xs"
    and zs: "(if xs = [] then Some [] else strips (lit 1 1) full_z (- full_z)) = Some zs"
    and ds: "ds = fold (\<lambda>x. fold (floor_tile lens g x) (List.enumerate 0 zs)) (List.enumerate 0 xs) []"
    using assms(1) by (auto simp: floor_layer_def split: Option.bind_splits)
  have ap: "appends (floor_tile lens g x z)" for x z
    unfolding floor_tile_def Let_def by (cases x, cases z) (simp add: appends_face)
  have "face_shown lens (vec3 a (- lit 2 100) c) (vec3 b (- lit 2 100) c) (vec3 b (- lit 2 100) d) (vec3 a (- lit 2 100) d) ds"
    if in_xs: "(a, b) \<in> set xs" and in_zs: "(c, d) \<in> set zs" for a b c d
  proof -
    obtain i where "i < length xs" "xs ! i = (a, b)" using in_xs by (auto simp: in_set_conv_nth)
    then have i: "(i, a, b) \<in> set (List.enumerate 0 xs)" by (simp add: in_set_enumerate_eq)
    obtain j where "j < length zs" "zs ! j = (c, d)" using in_zs by (auto simp: in_set_conv_nth)
    then have j: "(j, c, d) \<in> set (List.enumerate 0 zs)" by (simp add: in_set_enumerate_eq)
    show ?thesis unfolding ds
    proof (rule fold_shows [OF appends_fold [OF ap] stable_face _ i])
      fix e assume "length (fold (floor_tile lens g (i, a, b)) (List.enumerate 0 zs) e) < MAX_DRAW"
      then show "face_shown lens (vec3 a (- lit 2 100) c) (vec3 b (- lit 2 100) c) (vec3 b (- lit 2 100) d) (vec3 a (- lit 2 100) d)
          (fold (floor_tile lens g (i, a, b)) (List.enumerate 0 zs) e)"
        by (intro fold_shows [OF ap stable_face _ j]) (simp_all add: floor_tile_def Let_def face_added)
    qed (use assms(2) ds in simp)
  qed
  then show ?thesis unfolding floor_shown_def
    using strips_tiled [OF xs] zs strips_tiled [of "lit 1 1" full_z "- full_z" zs]
    by (intro exI [of _ xs] exI [of _ zs]) (auto split: if_splits)
qed

section \<open>The whole frame\<close>

definition walls_shown :: "Lens \<Rightarrow> f32 \<Rightarrow> f32 \<Rightarrow> Drawable list \<Rightarrow> bool" where
  "walls_shown lens ext_x ext_z ds \<longleftrightarrow> (let wt = lit 20 100; wh = lit 12 10 in
     wall_shown lens (vec3 (- ext_x - wt) f0 (- ext_z - wt)) (vec3 (ext_x + wt) wh (- ext_z)) ds
     \<and> wall_shown lens (vec3 (- ext_x - wt) f0 ext_z) (vec3 (ext_x + wt) wh (ext_z + wt)) ds
     \<and> wall_shown lens (vec3 (- ext_x - wt) f0 (- ext_z)) (vec3 (- ext_x) wh ext_z) ds
     \<and> wall_shown lens (vec3 ext_x f0 (- ext_z)) (vec3 (ext_x + wt) wh ext_z) ds)"

lemma walls_show:
  assumes "add_walls lens col ext_x ext_z [] = Some ds" and "length ds < MAX_DRAW"
  shows "walls_shown lens ext_x ext_z ds"
proof -
  let ?wt = "lit 20 100" and ?wh = "lit 12 10"
  obtain a b c where
    a: "add_box_split lens (vec3 (- ext_x - ?wt) f0 (- ext_z - ?wt)) (vec3 (ext_x + ?wt) ?wh (- ext_z)) col [] = Some a" and
    b: "add_box_split lens (vec3 (- ext_x - ?wt) f0 ext_z) (vec3 (ext_x + ?wt) ?wh (ext_z + ?wt)) col a = Some b" and
    c: "add_box_split lens (vec3 (- ext_x - ?wt) f0 (- ext_z)) (vec3 (- ext_x) ?wh ext_z) col b = Some c" and
    d: "add_box_split lens (vec3 ext_x f0 (- ext_z)) (vec3 (ext_x + ?wt) ?wh ext_z) col c = Some ds"
    using assms(1) by (auto simp: add_walls_def Let_def split: Option.bind_splits)
  note sd = split_shows [OF d assms(2)]
  then obtain m1 where m1: "ds = c @ m1" by blast
  then have lc: "length c < MAX_DRAW" using assms(2) by simp
  note sc = split_shows [OF c lc]
  then obtain m2 where m2: "c = b @ m2" by blast
  then have lb: "length b < MAX_DRAW" using lc by simp
  note sb = split_shows [OF b lb]
  then obtain m3 where m3: "b = a @ m3" by blast
  then have la: "length a < MAX_DRAW" using lb by simp
  note sa = split_shows [OF a la]
  show ?thesis unfolding walls_shown_def Let_def
    using sa sb sc sd wall_stays m1 m2 m3 by (metis append_assoc)
qed

lemma entities_show:
  assumes "length (add_entities lens s ds) < MAX_DRAW"
  shows "i < unat (st_num_players s) \<Longrightarrow> player_shown lens (player s i) (add_entities lens s ds)"
    and "i < 16 \<Longrightarrow> bm_state (bomb s i) \<notin> {BSTATE_FREE, BSTATE_EXPLODING} \<Longrightarrow> bomb_shown lens (bomb s i) (add_entities lens s ds)"
    and "i < 16 \<Longrightarrow> bl_ttl (blast s i) \<noteq> 0 \<Longrightarrow> blast_shown lens (blast s i) (add_entities lens s ds)"
    and "\<exists>more. add_entities lens s ds = ds @ more"
proof -
  let ?P = "fold (\<lambda>i. add_player lens (st_tick s) i (player s i)) [0..<unat (st_num_players s)]"
  let ?B = "fold (\<lambda>i. add_bomb lens (bomb s i)) [0..<16]" and ?X = "fold (\<lambda>i. add_blast lens (blast s i)) [0..<16]"
  have all: "add_entities lens s ds = ?X (?B (?P ds))" by (simp add: add_entities_def arena_sizes Let_def)
  have ap: "appends ?P" "appends ?B" "appends ?X"
    by (rule appends_fold appends_player appends_bomb appends_blast)+
  have lb: "length (?B (?P ds)) < MAX_DRAW" using room_before [OF ap(3)] assms unfolding all by blast
  then have lp: "length (?P ds) < MAX_DRAW" using room_before [OF ap(2)] by blast
  show "\<exists>more. add_entities lens s ds = ds @ more"
    unfolding all using appends_comp [OF ap(1) appends_comp [OF ap(2,3)]] appendsD by blast
  show "player_shown lens (player s i) (add_entities lens s ds)" if i: "i < unat (st_num_players s)"
  proof -
    have "player_shown lens (player s i) (?P ds)"
      by (rule fold_shows [OF appends_player stable_shown(2) player_added, where x = i]) (use i lp in simp_all)
    then show ?thesis unfolding all by (intro stays [OF stable_shown(2) ap(3)] stays [OF stable_shown(2) ap(2)])
  qed
  show "bomb_shown lens (bomb s i) (add_entities lens s ds)" if i: "i < 16" "bm_state (bomb s i) \<notin> {BSTATE_FREE, BSTATE_EXPLODING}"
  proof -
    have "bomb_shown lens (bomb s i) (?B (?P ds))"
      by (rule fold_shows [OF appends_bomb stable_shown(3), where x = i]) (use i lb bomb_added in simp_all)
    then show ?thesis unfolding all by (rule stays [OF stable_shown(3) ap(3)])
  qed
  show "blast_shown lens (blast s i) (add_entities lens s ds)" if i: "i < 16" "bl_ttl (blast s i) \<noteq> 0"
    unfolding all by (rule fold_shows [OF appends_blast stable_shown(4), where x = i])
      (use i assms all blast_added in simp_all)
qed

text \<open>C27: A frame is drawn whole.  For every state within the shape the simulation keeps (walls at any
  step of sudden death, any positions) and every camera its update leaves, the loops over floor and walls end,
  neither layer ever reaches the 1024 entries of the painter list, and everything the camera projects is in
  it: tiles that cover the floor from wall to wall, the four walls in pieces without a gap at their extent of the
  moment, the five faces of every pillar, the body of every player of the match, every bomb that is not free or
  exploding, every burning blast at its radius (only a circle of less than half a pixel is left out).\<close>

theorem scene_is_drawn_whole:
  assumes "drawable s" and "cam_ok (ln_cam lens)"
    and "full_x = QF (half_x (arena_geoms ! unat (st_arena_id s)))" and "full_z = QF (half_z (arena_geoms ! unat (st_arena_id s)))"
  shows "\<exists>ground ds.
    draw_scene q lens s g = Some (flush_drawables (ln_trig lens) q ground @ flush_drawables (ln_trig lens) q ds)
    \<and> length ground < MAX_DRAW \<and> length ds < MAX_DRAW
    \<and> floor_shown lens full_x full_z ground
    \<and> walls_shown lens (wall_extent s full_x) (wall_extent s full_z) ds
    \<and> (\<forall>b \<in> set (pillars (arena_geoms ! unat (st_arena_id s))). box_shown lens (qf3 (bmin b)) (qf3 (bmax b)) ds)
    \<and> (\<forall>i < unat (st_num_players s). player_shown lens (player s i) ds)
    \<and> (\<forall>i < 16. bm_state (bomb s i) \<notin> {BSTATE_FREE, BSTATE_EXPLODING} \<longrightarrow> bomb_shown lens (bomb s i) ds)
    \<and> (\<forall>i < 16. bl_ttl (blast s i) \<noteq> 0 \<longrightarrow> blast_shown lens (blast s i) ds)"
proof -
  obtain ground ds where l: "layers lens s g = Some (ground, ds)" "length ground \<le> 289" "length ds \<le> 196"
    using layers_return [OF assms(1) lens_cam [OF assms(2)]] by blast
  then have len: "length ground < MAX_DRAW" "length ds < MAX_DRAW" by (simp_all add: MAX_DRAW_def)
  have ground: "floor_layer lens g full_x full_z = Some ground"
    and scene: "scene_layer lens s (wall_extent s full_x) (wall_extent s full_z) = Some ds"
    using l(1) by (auto simp: layers_def Let_def assms(3,4) split: Option.bind_splits)
  let ?box = "\<lambda>b :: Aabb. add_box lens (qf3 (bmin b)) (qf3 (bmax b)) (cents 42 40 36 100)"
  let ?ps = "pillars (arena_geoms ! unat (st_arena_id s))"
  obtain walls where walls: "add_walls lens (wall_color s) (wall_extent s full_x) (wall_extent s full_z) [] = Some walls"
      "ds = add_entities lens s (fold ?box ?ps walls)"
    using scene by (auto simp: scene_layer_def Let_def split: Option.bind_splits)
  note shown = entities_show [OF len(2) [unfolded walls(2)], folded walls(2)]
  obtain more where more: "ds = fold ?box ?ps walls @ more" using shown(4) by blast
  obtain rest where rest: "fold ?box ?ps walls = walls @ rest" using appendsD [OF appends_fold [of ?box, OF appends_box]] by blast
  have lp: "length (fold ?box ?ps walls) < MAX_DRAW" using len(2) more by simp
  have "box_shown lens (qf3 (bmin b)) (qf3 (bmax b)) (fold ?box ?ps walls)" if "b \<in> set ?ps" for b
    by (rule fold_shows [OF appends_box stable_shown(1) box_added that lp])
  then have pillars: "\<forall>b \<in> set ?ps. box_shown lens (qf3 (bmin b)) (qf3 (bmax b)) ds"
    using stable_shown(1) more by (simp add: stable_def)
  have "walls_shown lens (wall_extent s full_x) (wall_extent s full_z) walls"
    by (rule walls_show [OF walls(1)]) (use lp rest in simp)
  then have "walls_shown lens (wall_extent s full_x) (wall_extent s full_z) ds"
    unfolding walls_shown_def Let_def more rest append_assoc using wall_stays by blast
  moreover have "draw_scene q lens s g = Some (flush_drawables (ln_trig lens) q ground @ flush_drawables (ln_trig lens) q ds)"
    by (simp add: scene_of_layers l(1))
  ultimately show ?thesis using len floor_shows [OF ground len(1)] pillars shown by blast
qed

theorem scene_is_drawn_whole_witness:
  "\<exists>ground ds. draw_scene far_first start_lens (arena_init 0 4 7) True
      = Some (flush_drawables still_trig far_first ground @ flush_drawables still_trig far_first ds)
    \<and> (\<forall>i < 4. player_shown start_lens (player (arena_init 0 4 7) i) ds)"
proof -
  have "unat (st_num_players (arena_init 0 4 7)) = 4" by (simp add: arena_init_def round_reset_def)
  moreover have "cam_ok (ln_cam start_lens)" "ln_trig start_lens = still_trig" using cam_init_ok by (simp_all add: start_lens_def)
  ultimately show ?thesis
    using scene_is_drawn_whole [OF init_drawable _ refl refl, where lens = start_lens and q = far_first and g = True] by auto
qed

end
