(* ===== verification/Spec2Isabelle.thy ===== *)
theory Spec2Isabelle
  imports Sim_Edge Sim_Explode Lobby_Code Rv_Limits Rv_Book Rv_Main Viewer_Props Trace_Tool Tune_Probes
    Udp_Socket Lobby_Match Tune_Report Viewer_Frame Viewer_Whole
begin

text \<open>
  \<^bold>\<open>The battle arena: a verification library.\<close>

  The program is a four-player battle arena in C: a deterministic fixed-point simulation
  (\<open>src/src/arena/\<close>), a rollback session around it, a UDP adapter and a lobby client
  (\<open>src/src/netplay/\<close>), a rendezvous server with its wire protocol (\<open>src/src/lobby/\<close>), and tools
  (\<open>src/tools/\<close>).  A match begins in the lobby: the client asks the server for a seat, the clients
  punch holes to each other, the host starts.  The result gives the adapter its routes and the
  session its seed, map and players.  From then on GekkoNet, a library outside the repository,
  drives the session: it asks it to save, load and advance the state, and sends inputs through the
  adapter.  A desync stops the match and leaves a bundle, which a tool replays.

  \<^bold>\<open>How the C is read.\<close>  Unsigned C types are words of their width (\<open>u8\<close> to \<open>u64\<close>) and wrap by type.  A
  \<open>q32\<close> is an integer; \<open>i32\<close> wraps where the C stores one.  A struct is a record with the fields
  in order, an enum a datatype with a function to its code, an array a list of its length updated
  by index, a pointer into an array an index.  A function that mutates its argument returns it;
  what it sends is the list of packets returned, each with its destination.  An error return is \<open>None\<close> or
  a constructor of the error.  Sockets, clocks, files, allocation, SDL and GekkoNet are arguments.

  \<^bold>\<open>The simulation.\<close>
  \<^item> \<open>Arena_Prelude\<close>: C types, C division, lists by index, first-fit search (locale \<open>first_fit\<close>),
    machines with an invariant (locale \<open>invariant_machine\<close>), byte codecs (locale \<open>byte_codec\<close>), xorshift.
  \<^item> \<open>Fixed_Math\<close>: \<open>arena_math.h\<close>, \<open>arena_sintab.h\<close>.  \<open>isqrt64\<close> is the floor of the root on all 64-bit
    values; \<open>iatan2\<close> is off by up to six degrees.
  \<^item> \<open>Arena_Tuning\<close>, \<open>Arena_Geom\<close>, \<open>Arena_State\<close>: the headers of these names: constants, maps, state,
    input words, byte image and FNV-1a checksum.
  \<^item> \<open>Sim_Core\<close>, \<open>Sim_Player\<close>, \<open>Sim_Bombs\<close>, \<open>Sim_Tick\<close>: \<open>arena_sim.c\<close>, one definition per block of
    \<open>arena_tick\<close>, composed in its order (phases, players, bombs, detonations, blasts, end of round),
    and the scripted match of \<open>arena_script.h\<close>.  Evaluated outside the proofs,
    \<open>arena_scripted_match_hash\<close> is 0xfbdb0d08, the hash the repository pins.
  \<^item> \<open>Sim_Inv\<close>: the invariant \<open>arena_inv\<close>: stored indices in range, exact bomb counters, hands and held
    bombs in one-to-one correspondence.  \<open>Sim_Combat\<close>: fuses, blasts, hits.  \<open>Sim_Rounds\<close>: rounds
    and scores.  \<open>Sim_Restart\<close>: what the tick that restarts a round leaves.  \<open>Sim_Explode\<close>: laid bombs
    explode, one hit a tick.  \<open>Sim_Edge\<close>: surprises.  \<open>Sim_Image\<close>: what the session needs of a tick.  \<open>Sim_Width\<close>: every
    number of a reachable state fits its field.

  \<^bold>\<open>The lobby.\<close>
  \<^item> \<open>Lobby_Proto\<close>, \<open>Lobby_Code\<close>, \<open>Net_Version\<close>: \<open>lobby_proto.c\<close>.  A read past the buffer is \<open>None\<close>; the
    theorem is that there is none.  Round trips of packets and of the codes players type.
  \<^item> \<open>Rv_Server\<close>: \<open>rendezvous.c\<close>.  \<open>Rv_Inv\<close>: the invariant of the session table over all runs of
    \<open>rv_handle\<close> and \<open>rv_tick\<close>.  \<open>Rv_Book\<close>: the abstract book of lobbies that the server refines.
    \<open>Rv_Props\<close>: routes, relay, who gets packets.  \<open>Rv_Limits\<close>: amplification and rate.
    \<open>Rv_Example\<close>: a concrete run.  \<open>Rv_Main\<close>: the port option and the loop of \<open>rendezvous_main.c\<close>.
  \<^item> \<open>Lobby_Client\<close>: \<open>lobby_client.c\<close>.  \<open>Client_Inv\<close>, \<open>Client_Props\<close>: every client that polling can
    reach (\<open>client_reach\<close>, over any datagrams from anyone): indices, deadline, READY, direct routes.  A run of one
    client is a fold of \<open>client_step\<close>: a host ends with the match it began with.
  \<^item> \<open>Lobby_System\<close>: the server and any number of clients over one network, as a step relation.  The network is the set
    of all datagrams ever sent, so it loses, repeats, delays and reorders; anyone may forge all but the
    five messages that bind a seat to a match, and an address begins once.  \<open>Client_Mail\<close>,
    \<open>Lobby_Rolls\<close>: what each side sends and keeps.  \<open>Lobby_Agree\<close>: a guest that has seen START has the
    match of its host.  \<open>Lobby_Match\<close>: two players under one id start one game, in different seats.
    The theorems ask that the ids the server draws differ (\<open>distinct (sy_opened y)\<close>).

  \<^bold>\<open>The match.\<close>
  \<^item> \<open>Net_Adapter\<close>: \<open>net_adapter.c\<close>.  \<open>Adapter_Inv\<close>: queue and ring (locale \<open>newest_queue\<close>).
    \<open>Adapter_Props\<close>: over every run (\<open>traffic\<close>) no packet is lost unaccounted or invented.
  \<^item> \<open>Match_Link\<close>: client, server and adapter together: joining, the packets that come after READY, a
    payload through the relay.
  \<^item> \<open>Sync_Session\<close>: \<open>sync_session.c\<close>.  \<open>Sync_Inv\<close>: rollback is invisible.  GekkoNet is trusted for
    \<open>legal_event\<close>: it loads only a state it was given to save and that no later advance has made
    stale, and gives an input for every player.  \<open>honest\<close> are the sessions so driven.
  \<^item> \<open>Replay_Bundle\<close>: \<open>replay_bundle.c\<close>.  \<open>Replay_Props\<close> (locale \<open>file_item\<close>): the bundle reads back, an
    honest session is found consistent, a corrupted one at the tick of the corruption.
  \<^item> \<open>Udp_Socket\<close>: \<open>udp_socket.c\<close> as a client of the operating system: no descriptor leaks.
  \<^item> \<open>Trace_Tool\<close>: \<open>arena_hash.c\<close>, \<open>arena_trace.c\<close>.  \<open>Tune_Probes\<close>: \<open>tune_probes.c\<close>; evaluated outside
    the proofs, its metrics are those of \<open>tune_metrics.baseline\<close>.  \<open>Tune_Report\<close>: \<open>tune_report.c\<close>.

  \<^bold>\<open>The viewer\<close> (\<open>src/tools/viewer/\<close>).
  \<^item> \<open>Float32\<close>: \<open>float\<close> as IEEE binary32 on integers, executable: each operation rounds once, to the nearest, ties to even;
    overflow, infinities and NaN as in the standard; expressions are not contracted.  \<open>sinf\<close>, \<open>cosf\<close> and
    \<open>tanf\<close> are an argument (\<open>Trig\<close>), of which \<open>trig_ok\<close> asks values within one.  \<open>Float_Facts\<close>: the
    operations are the correctly rounded ones of the reals.
  \<^item> \<open>Viewer_Start\<close>: options, server address and lobby loop of \<open>viewer_main.c\<close>, on the number readers of \<open>C_Scan\<close>; a start
    comes to a decision.  \<open>Viewer_Match\<close>: the match's part of its frame.  \<open>Viewer_Props\<close>: it runs the
    match that the lobby agreed on and stops it at a desync.  \<open>Viewer_Frame\<close>: the whole frame, up to what is
    presented; a smoke run is the simulation.
  \<^item> \<open>Viewer_Clock\<close>: \<open>viewer_clock.c\<close>, over any operations on its \<open>double\<close>s: at most eight ticks a frame.
    \<open>Viewer_Cam\<close>: \<open>viewer_cam.c\<close>; \<open>Viewer_Cam_Facts\<close>: its loops end and its values stay bounded.
    \<open>Viewer_Input\<close>: \<open>read_input\<close> down to what SDL reports.
  \<^item> \<open>Viewer_Font\<close>, \<open>Viewer_Draw\<close>: \<open>viewer_font8.h\<close>, \<open>viewer_draw.c\<close> as the list of calls SDL gets, with \<open>qsort\<close> an
    argument.  \<open>Viewer_Scene\<close>, \<open>Viewer_Painter\<close>: a frame ends, its order is unique, its walls are near those of
    the simulation.  \<open>Viewer_Whole\<close>: everything is in it.  \<open>C_Print\<close>: the conversions of \<open>printf\<close>; \<open>Viewer_Hud\<close>: no line is cut.

  \<^bold>\<open>Bounds and fuel.\<close>  No definition runs out of fuel silently: the search of a session id makes the
  4096 tries of the source and gives up as it does; the client drains 128 datagrams a poll, the
  adapter hands out 64 results a call and delays 512 packets, the lobby ring holds 16, the
  probes tick 600 times; all are the constants of the source.  \<open>take_lobby_packets\<close> ends because
  the ring shrinks.  The loops of the camera and of the scene over floats are \<open>partial_function (option)\<close>,
  with theorems that they return.  The theorems on sessions hold while the tick counter does not wrap
  (828 days); those on replay for the 36000 ticks the record holds, and for 256 ticks after a
  corruption, the size of the hash ring.

  \<^bold>\<open>What the modelling showed.\<close>
  \<^item> \<open>any_start_is_believed\<close>: no one checks the map number of a START; any byte indexes two maps.
  \<^item> \<open>unused_slots_respawn\<close>, \<open>empty_seats_push_the_stick\<close>: in a match of two or three the empty seats
    come alive, and the input word they get is not neutral.
  \<^item> \<open>holding_a_bomb_shields\<close>: the hold counter doubles as the invulnerability timer.
  \<^item> \<open>spawns_face_sideways\<close>, \<open>iatan2_error_above_five_degrees\<close>: facing and angles against their comments.
  \<^item> \<open>start_of_next_lobby_is_dropped\<close>: a running match hides the host's next lobby.
  \<^item> \<open>late_desync_looks_consistent\<close>: after ten minutes the replay tool compares nothing and says consistent.
  \<^item> \<open>restart_reads_freed_memory\<close>: the restart key of the viewer reads the session it has freed.
  \<^item> \<open>reorder_never_swaps\<close>: the reorder setting of the impairment profile does not reorder.

  \<^item> \<open>drawn_walls_track_the_simulation\<close>: the walls drawn shrink by 0.03 a step, those of the simulation by 122/4096.

  \<^bold>\<open>Not modelled.\<close>  GekkoNet itself (not in the repository), SDL and the operating system; the Windows branch of
  \<open>udp_socket.c\<close>; the text of the lines that \<open>replay_bundle\<close>, \<open>arena_trace\<close> and the start of the viewer write to
  the console, and the command lines of the first two but for the options of the trace.
\<close>

end
